(* ===== verification/Prelude.thy ===== *)
theory Prelude
  imports
    Main
    "HOL-Library.Char_ord"
    "HOL-Library.List_Lexorder"
    "HOL-Library.Product_Lexorder"
    "HOL-Library.Sublist"
begin

text \<open>
  The shared layer of the development: the parts of Rust's core and standard
  library that the sources use (byte strings, ASCII case mapping, splitting,
  searching, checked and saturating integer arithmetic, \<open>Reverse\<close>), the result
  type with its sequencing operator, and the list lemmas that the component
  theories share.

  A Rust \<open>&str\<close> or byte slice is a \<^typ>\<open>string\<close>, the list of its UTF-8
  bytes: \<^typ>\<open>char\<close> is exactly an 8-bit byte, \<open>len\<close> is \<^const>\<open>length\<close> and a
  slice index is a byte index, as in Rust.  A Rust \<open>char\<close> is the byte string of
  its UTF-8 encoding (\<open>chars\<close> below).
\<close>

named_theorems rust_simps \<open>unfolding rules for the modelled parts of the Rust library\<close>

section \<open>Results\<close>

type_synonym ('e, 'a) result = "'e + 'a"

definition and_then :: "('e, 'a) result \<Rightarrow> ('a \<Rightarrow> ('e, 'b) result) \<Rightarrow> ('e, 'b) result" where
  "and_then r f = (case r of Inl e \<Rightarrow> Inl e | Inr x \<Rightarrow> f x)"

definition ok_or :: "'e \<Rightarrow> 'a option \<Rightarrow> ('e, 'a) result" where
  "ok_or e x = (case x of None \<Rightarrow> Inl e | Some v \<Rightarrow> Inr v)"

section \<open>Searching and splitting\<close>

fun find_map :: "('a \<Rightarrow> 'b option) \<Rightarrow> 'a list \<Rightarrow> 'b option" where
  "find_map f [] = None"
| "find_map f (x # xs) = (case f x of Some y \<Rightarrow> Some y | None \<Rightarrow> find_map f xs)"

fun str_contains :: "'a list \<Rightarrow> 'a list \<Rightarrow> bool" where
  "str_contains s pat = (prefix pat s \<or> (case s of [] \<Rightarrow> False | _ # t \<Rightarrow> str_contains t pat))"

declare str_contains.simps [simp del]

fun split_char :: "'a \<Rightarrow> 'a list \<Rightarrow> 'a list list" where
  "split_char c [] = [[]]"
| "split_char c (x # xs) =
     (if x = c then [] # split_char c xs
      else (case split_char c xs of [] \<Rightarrow> [[x]] | y # ys \<Rightarrow> (x # y) # ys))"

fun rsplit_once :: "('a \<Rightarrow> bool) \<Rightarrow> 'a list \<Rightarrow> ('a list \<times> 'a list) option" where
  "rsplit_once p [] = None"
| "rsplit_once p (x # xs) =
     (case rsplit_once p xs of
        Some (a, b) \<Rightarrow> Some (x # a, b)
      | None \<Rightarrow> (if p x then Some ([], xs) else None))"

definition slice :: "'a list \<Rightarrow> nat \<Rightarrow> nat \<Rightarrow> 'a list" where
  "slice xs i j = take (j - i) (drop i xs)"

definition get :: "'a list \<Rightarrow> nat \<Rightarrow> 'a option" where
  "get xs i = (if i < length xs then Some (xs ! i) else None)"

section \<open>ASCII\<close>

definition is_ascii_digit :: "char \<Rightarrow> bool" where
  "is_ascii_digit c \<longleftrightarrow> 48 \<le> (of_char c :: nat) \<and> (of_char c :: nat) \<le> 57"

definition is_ascii_upper :: "char \<Rightarrow> bool" where
  "is_ascii_upper c \<longleftrightarrow> 65 \<le> (of_char c :: nat) \<and> (of_char c :: nat) \<le> 90"

definition is_ascii_lower :: "char \<Rightarrow> bool" where
  "is_ascii_lower c \<longleftrightarrow> 97 \<le> (of_char c :: nat) \<and> (of_char c :: nat) \<le> 122"

definition is_ascii_alphanumeric :: "char \<Rightarrow> bool" where
  "is_ascii_alphanumeric c \<longleftrightarrow> is_ascii_digit c \<or> is_ascii_upper c \<or> is_ascii_lower c"

definition ascii_upper_char :: "char \<Rightarrow> char" where
  "ascii_upper_char c = (if is_ascii_lower c then char_of ((of_char c :: nat) - 32) else c)"

definition ascii_lower_char :: "char \<Rightarrow> char" where
  "ascii_lower_char c = (if is_ascii_upper c then char_of ((of_char c :: nat) + 32) else c)"

definition to_ascii_uppercase :: "string \<Rightarrow> string" where
  "to_ascii_uppercase s = map ascii_upper_char s"

definition to_ascii_lowercase :: "string \<Rightarrow> string" where
  "to_ascii_lowercase s = map ascii_lower_char s"

definition eq_ignore_ascii_case :: "string \<Rightarrow> string \<Rightarrow> bool" where
  "eq_ignore_ascii_case a b \<longleftrightarrow> to_ascii_lowercase a = to_ascii_lowercase b"

section \<open>UTF-8 characters\<close>

definition utf8_len :: "char \<Rightarrow> nat" where
  "utf8_len b = (if (of_char b :: nat) < 128 then 1
     else if (of_char b :: nat) < 224 then 2 else if (of_char b :: nat) < 240 then 3 else 4)"

lemma utf8_len_pos [simp]: "0 < utf8_len b"
  by (simp add: utf8_len_def)

function chars :: "string \<Rightarrow> string list" where
  "chars [] = []"
| "chars (b # bs) = take (utf8_len b) (b # bs) # chars (drop (utf8_len b) (b # bs))"
  by pat_completeness auto
termination
  by (relation "measure length") (auto simp: utf8_len_def)

fun char_indices_from :: "nat \<Rightarrow> string list \<Rightarrow> nat list" where
  "char_indices_from i [] = []"
| "char_indices_from i (c # cs) = i # char_indices_from (i + length c) cs"

definition char_indices :: "string \<Rightarrow> nat list" where
  "char_indices s = char_indices_from 0 (chars s)"

text \<open>
  Rust's \<open>char::is_whitespace\<close> (the Unicode property White_Space) and
  \<open>char::is_control\<close> (general category Cc), on the UTF-8 encoding of a character.
\<close>

definition utf8_bytes :: "nat list \<Rightarrow> string" where
  "utf8_bytes ns = map char_of ns"

definition is_whitespace :: "string \<Rightarrow> bool" where
  "is_whitespace c \<longleftrightarrow> map of_char c \<in> set
     ([[9], [10], [11], [12], [13], [32], [194, 133], [194, 160], [225, 154, 128],
       [226, 128, 168], [226, 128, 169], [226, 128, 175], [226, 129, 159], [227, 128, 128]]
      @ map (\<lambda>k. [226, 128, k]) [128..<139] :: nat list list)"

definition is_control :: "string \<Rightarrow> bool" where
  "is_control c \<longleftrightarrow>
     (case map of_char c :: nat list of
        [b] \<Rightarrow> b < 32 \<or> b = 127
      | [a, b] \<Rightarrow> a = 194 \<and> 128 \<le> b \<and> b < 160
      | _ \<Rightarrow> False)"

definition trim_chars :: "string list \<Rightarrow> string list" where
  "trim_chars cs = rev (dropWhile is_whitespace (rev (dropWhile is_whitespace cs)))"

definition trim :: "string \<Rightarrow> string" where
  "trim s = concat (trim_chars (chars s))"

section \<open>Bounded integers\<close>

abbreviation u32_max :: nat where "u32_max \<equiv> 2 ^ 32 - 1"
abbreviation i64_max :: nat where "i64_max \<equiv> 2 ^ 63 - 1"
abbreviation u64_max :: nat where "u64_max \<equiv> 2 ^ 64 - 1"
abbreviation u128_max :: nat where "u128_max \<equiv> 2 ^ 128 - 1"
definition i128_max :: int where "i128_max = 170141183460469231731687303715884105727"

definition checked_add :: "nat \<Rightarrow> nat \<Rightarrow> nat \<Rightarrow> nat option" where
  "checked_add limit a b = (if a + b \<le> limit then Some (a + b) else None)"

definition saturating_add :: "nat \<Rightarrow> nat \<Rightarrow> nat \<Rightarrow> nat" where
  "saturating_add limit a b = min limit (a + b)"

definition saturating_mul :: "nat \<Rightarrow> nat \<Rightarrow> nat \<Rightarrow> nat" where
  "saturating_mul limit a b = min limit (a * b)"

text \<open>\<open>Iterator::sum::<u64>\<close> as the release profile compiles it: it wraps.\<close>

definition sum_u64 :: "nat list \<Rightarrow> nat" where
  "sum_u64 xs = sum_list xs mod 2 ^ 64"

definition div_ceil :: "nat \<Rightarrow> nat \<Rightarrow> nat" where
  "div_ceil a b = (if a mod b = 0 then a div b else a div b + 1)"

section \<open>Printing numbers and bytes\<close>

fun decimal :: "nat \<Rightarrow> string" where
  "decimal n = (if n < 10 then [char_of (48 + n)] else decimal (n div 10) @ [char_of (48 + n mod 10)])"

declare decimal.simps [simp del]

definition be_bytes :: "nat \<Rightarrow> nat \<Rightarrow> string" where
  "be_bytes width n = map (\<lambda>i. char_of (n div 256 ^ (width - 1 - i))) [0..<width]"

definition hex_digit :: "nat \<Rightarrow> char" where
  "hex_digit n = ''0123456789abcdef'' ! n"

definition encode_hex :: "string \<Rightarrow> string" where
  "encode_hex bytes = concat (map (\<lambda>b. [hex_digit (of_char b div 16), hex_digit (of_char b mod 16)]) bytes)"

section \<open>The reversed order\<close>

datatype 'a Reverse = Reverse (unreverse: 'a)

instantiation Reverse :: (linorder) linorder
begin

definition less_eq_Reverse :: "'a Reverse \<Rightarrow> 'a Reverse \<Rightarrow> bool" where
  "less_eq_Reverse a b \<longleftrightarrow> unreverse b \<le> unreverse a"

definition less_Reverse :: "'a Reverse \<Rightarrow> 'a Reverse \<Rightarrow> bool" where
  "less_Reverse a b \<longleftrightarrow> unreverse b < unreverse a"

instance
  by standard (auto simp: less_eq_Reverse_def less_Reverse_def Reverse.expand)

end

section \<open>Lemmas on results\<close>

lemma and_then_simps [simp, rust_simps]:
  "and_then (Inl e) f = Inl e"
  "and_then (Inr x) f = f x"
  by (simp_all add: and_then_def)

lemma and_then_Inr_iff [simp]:
  "and_then r f = Inr y \<longleftrightarrow> (\<exists>x. r = Inr x \<and> f x = Inr y)"
  by (cases r) auto

lemma and_then_Inl_iff:
  "and_then r f = Inl e \<longleftrightarrow> r = Inl e \<or> (\<exists>x. r = Inr x \<and> f x = Inl e)"
  by (cases r) auto

lemma ok_or_simps [simp, rust_simps]:
  "ok_or e None = Inl e"
  "ok_or e (Some x) = Inr x"
  by (simp_all add: ok_or_def)

lemma ok_or_Inr_iff [simp]: "ok_or e x = Inr y \<longleftrightarrow> x = Some y"
  by (cases x) auto

section \<open>Lemmas on searching and splitting\<close>

lemma find_map_SomeD:
  "find_map f xs = Some y \<Longrightarrow> \<exists>x \<in> set xs. f x = Some y"
  by (induction xs) (auto split: option.splits)

lemma find_map_None_iff: "find_map f xs = None \<longleftrightarrow> (\<forall>x \<in> set xs. f x = None)"
  by (induction xs) (auto split: option.splits)

lemma str_contains_iff: "str_contains s pat \<longleftrightarrow> sublist pat s"
proof (induction s)
  case Nil
  then show ?case by (simp add: str_contains.simps [of "[]"])
next
  case (Cons a s)
  then show ?case
    by (simp add: str_contains.simps [of "a # s"] sublist_Cons_right)
qed

lemma split_char_nonempty [simp]: "split_char c s \<noteq> []"
  by (induction s) (auto split: list.splits)

lemma split_char_no_sep: "x \<in> set (split_char c s) \<Longrightarrow> c \<notin> set x"
  by (induction s arbitrary: x) (auto split: list.splits if_splits)

lemma rsplit_once_None_iff: "rsplit_once p s = None \<longleftrightarrow> (\<forall>y \<in> set s. \<not> p y)"
  by (induction s) (auto split: option.splits)

lemma rsplit_once_SomeD:
  "rsplit_once p s = Some (a, b) \<Longrightarrow> \<exists>x. s = a @ x # b \<and> p x \<and> (\<forall>y \<in> set b. \<not> p y)"
proof (induction s arbitrary: a)
  case (Cons x s)
  show ?case
  proof (cases "rsplit_once p s")
    case None
    with Cons.prems have "p x" and "a = []" and "b = s" by (auto split: if_splits)
    with None show ?thesis by (simp add: rsplit_once_None_iff)
  next
    case (Some ab)
    with Cons.prems obtain a' where "rsplit_once p s = Some (a', b)" and "a = x # a'"
      by (cases ab) auto
    with Cons.IH show ?thesis by simp
  qed
qed simp

lemma get_Some_iff [simp]: "get xs i = Some x \<longleftrightarrow> i < length xs \<and> xs ! i = x"
  by (auto simp: get_def)

lemma get_None_iff [simp]: "get xs i = None \<longleftrightarrow> length xs \<le> i"
  by (auto simp: get_def)

lemma length_slice [simp]: "length (slice xs i j) = min (j - i) (length xs - i)"
  by (simp add: slice_def)

lemma nth_slice [simp]: "k < j - i \<Longrightarrow> i + k < length xs \<Longrightarrow> slice xs i j ! k = xs ! (i + k)"
  by (simp add: slice_def)

lemma set_slice_subset: "set (slice xs i j) \<subseteq> set xs"
  by (auto simp: slice_def dest: in_set_takeD in_set_dropD)

section \<open>Lemmas on characters\<close>

lemma concat_chars [simp]: "concat (chars s) = s"
  by (induction s rule: chars.induct) (simp_all del: take_Cons drop_Cons)

lemma chars_nonempty: "c \<in> set (chars s) \<Longrightarrow> c \<noteq> []"
proof (induction s rule: chars.induct)
  case (2 b bs)
  have "take (utf8_len b) (b # bs) \<noteq> []"
    using utf8_len_pos [of b] by (cases "utf8_len b") auto
  moreover from "2.prems" have
    "c = take (utf8_len b) (b # bs) \<or> c \<in> set (chars (drop (utf8_len b) (b # bs)))"
    by simp
  ultimately show ?case using "2.IH" by metis
qed simp

section \<open>Lemmas on bounded integers\<close>

lemma checked_add_Some_iff [simp]:
  "checked_add l a b = Some c \<longleftrightarrow> c = a + b \<and> a + b \<le> l"
  by (auto simp: checked_add_def)

lemma checked_add_None_iff [simp]: "checked_add l a b = None \<longleftrightarrow> l < a + b"
  by (auto simp: checked_add_def)

lemma sum_u64_exact: "sum_list xs < 2 ^ 64 \<Longrightarrow> sum_u64 xs = sum_list xs"
  by (simp add: sum_u64_def)

lemma div_ceil_upper:
  assumes "0 < b"
  shows "a \<le> div_ceil a b * b"
proof -
  have "a = a div b * b + a mod b" by simp
  moreover have "a mod b < b" using assms by simp
  ultimately have "a \<le> a div b * b + b" by linarith
  then show ?thesis by (auto simp: div_ceil_def add_mult_distrib algebra_simps)
qed

lemma div_ceil_lower:
  assumes "0 < b" and "k < div_ceil a b"
  shows "k * b < a"
proof -
  have a: "a = a div b * b + a mod b" by simp
  show ?thesis
  proof (cases "a mod b = 0")
    case True
    with assms(2) have "k < a div b" by (simp add: div_ceil_def)
    then have "k * b < a div b * b" using assms(1) by simp
    then show ?thesis using a by linarith
  next
    case False
    with assms(2) have "k \<le> a div b" by (simp add: div_ceil_def)
    then have "k * b \<le> a div b * b" by simp
    then show ?thesis using a False by linarith
  qed
qed

text \<open>What an \<open>UPDATE\<close> establishes for the rows it touches.\<close>

lemma all_updated:
  assumes "\<And>x. p x \<Longrightarrow> q (f x)"
  shows "\<forall>x \<in> set (map (\<lambda>x. if p x then f x else x) xs). p x \<longrightarrow> q x"
  using assms by (induction xs) auto

end
