(* ===== verification/Domain_Model.thy ===== *)
theory Domain_Model
  imports Prelude
begin

text \<open>
  The domain types of \<open>crates/sporos-model\<close>: identifiers, release
  descriptors, torrent and source manifests, the matching policy and the match
  decision, with the functions the crate defines on them (\<open>Ratio\<close>, the default
  policy, \<open>ReleaseDescriptor::unknown\<close>).  Record fields carry a prefix that
  names their struct, because Isabelle's field names are global.  Unsigned
  integers are natural numbers; the places where the code can leave the range of
  its integer type are written out (\<^const>\<open>sum_u64\<close>, \<open>from_bytes\<close>).
\<close>

section \<open>Identifiers\<close>

type_synonym source_id = string
type_synonym candidate_id = string
type_synonym policy_snapshot_id = string
type_synonym task_id = string
type_synonym task_key = string

section \<open>Releases\<close>

datatype video_kind =
  Movie | Episode | SeasonPack | DateEpisode | AbsoluteEpisode | Disc | UnknownVideo

record date =
  date_year :: nat
  date_month :: nat
  date_day :: nat

datatype normalized_title = NormalizedTitle (as_str: string)

definition from_normalized :: "string \<Rightarrow> normalized_title" where
  "from_normalized value = NormalizedTitle value"

datatype arr_kind = ArrMovie | ArrSeries

record arr_identity =
  ai_kind :: arr_kind
  ai_instance :: string
  ai_entity_id :: int
  ai_tvdb_id :: "int option"
  ai_tmdb_id :: "int option"
  ai_imdb_id :: "string option"

record release_descriptor =
  rd_kind :: video_kind
  rd_primary_title :: normalized_title
  rd_alternate_titles :: "normalized_title list"
  rd_year :: "nat option"
  rd_season :: "nat option"
  rd_episode :: "nat option"
  rd_episode_end :: "nat option"
  rd_absolute_episode :: "nat option"
  rd_air_date :: "date option"
  rd_edition :: "string option"
  rd_source :: "string option"
  rd_resolution :: "string option"
  rd_video_codec :: "string option"
  rd_hdr :: "string option"
  rd_audio :: "string option"
  rd_release_group :: "string option"
  rd_arr_identity :: "arr_identity option"

definition unknown :: "normalized_title \<Rightarrow> release_descriptor" where
  "unknown title =
     \<lparr> rd_kind = UnknownVideo, rd_primary_title = title, rd_alternate_titles = [],
       rd_year = None, rd_season = None, rd_episode = None, rd_episode_end = None,
       rd_absolute_episode = None, rd_air_date = None, rd_edition = None, rd_source = None,
       rd_resolution = None, rd_video_codec = None, rd_hdr = None, rd_audio = None,
       rd_release_group = None, rd_arr_identity = None \<rparr>"

section \<open>Torrents and local sources\<close>

record info_hashes =
  ih_v1 :: "string option"
  ih_v2 :: "string option"

record torrent_file =
  tf_ordinal :: nat
  tf_path :: string
  tf_size :: nat
  tf_padding :: bool

record torrent_piece_file =
  tp_file_ordinal :: "nat option"
  tp_offset :: nat
  tp_size :: nat

record torrent_manifest =
  tm_hashes :: info_hashes
  tm_files :: "torrent_file list"
  tm_piece_length :: "nat option"
  tm_piece_files :: "torrent_piece_file list"

datatype source_kind = QbittorrentTorrent | DataDirectoryRelease | DataDirectoryFile

record local_source_file =
  lf_id :: nat
  lf_path :: string
  lf_size :: nat
  lf_device_id :: "nat option"
  lf_inode :: "nat option"

record local_source_manifest =
  ls_id :: source_id
  ls_kind :: source_kind
  ls_release :: release_descriptor
  ls_hashes :: info_hashes
  ls_files :: "local_source_file list"
  ls_available :: bool

section \<open>The matching policy\<close>

record matching_policy =
  mp_allow_flexible :: bool
  mp_allow_partial :: bool
  mp_allow_season_from_episodes :: bool
  mp_primary_video_extensions :: "string list"
  mp_optional_extensions :: "string list"
  mp_optional_path_components :: "string list"
  mp_max_assignment_files :: nat
  mp_max_candidate_edges :: nat
  mp_max_assignment_component_files :: nat
  mp_max_assignment_operations :: nat

definition default_max_assignment_files :: nat where
  "default_max_assignment_files = 4096"

definition default_max_candidate_edges :: nat where
  "default_max_candidate_edges = 100000"

definition default_max_assignment_component_files :: nat where
  "default_max_assignment_component_files = 128"

definition default_max_assignment_operations :: nat where
  "default_max_assignment_operations = 50000000"

definition default_policy :: matching_policy where
  "default_policy =
     \<lparr> mp_allow_flexible = True, mp_allow_partial = True, mp_allow_season_from_episodes = True,
       mp_primary_video_extensions =
         [''mkv'', ''mp4'', ''m4v'', ''avi'', ''ts'', ''m2ts'', ''mov'', ''wmv'', ''webm'', ''iso''],
       mp_optional_extensions =
         [''nfo'', ''txt'', ''srt'', ''ass'', ''ssa'', ''sub'', ''idx'', ''jpg'', ''jpeg'', ''png'', ''sfv''],
       mp_optional_path_components = [''sample'', ''proof'', ''screenshots''],
       mp_max_assignment_files = default_max_assignment_files,
       mp_max_candidate_edges = default_max_candidate_edges,
       mp_max_assignment_component_files = default_max_assignment_component_files,
       mp_max_assignment_operations = default_max_assignment_operations \<rparr>"

section \<open>Match decisions\<close>

datatype match_outcome = Match | NoMatch | AlreadyPresent | Rejected

datatype match_mode = Strict | Flexible | Partial | SeasonFromEpisodes

datatype match_reason =
    MatchStrict | MatchFlexible | MatchPartial | MatchSeasonFromEpisodes
  | ReasonAlreadyPresent | NoPlausibleSource | MediaTypeConflict | TitleConflict | YearConflict
  | SeriesConflict | SeasonConflict | EpisodeConflict | DateConflict | NoPrimaryVideoOverlap
  | FileSizeConflict | AmbiguousFileMapping | UnsupportedTorrent | UnsafeTorrentPath
  | HardlinkDeviceMismatch | MatcherBudgetExceeded

datatype ratio = Ratio (as_ppm: nat)

definition ratio_zero :: ratio where "ratio_zero = Ratio 0"

definition ratio_one :: ratio where "ratio_one = Ratio 1000000"

definition from_ppm :: "nat \<Rightarrow> ratio option" where
  "from_ppm ppm = (if ppm \<le> 1000000 then Some (Ratio ppm) else None)"

definition from_bytes :: "nat \<Rightarrow> nat \<Rightarrow> ratio" where
  "from_bytes present total_bytes =
     (if total_bytes = 0 then ratio_zero else Ratio ((present * 1000000 div total_bytes) mod 2 ^ 32))"

record file_mapping =
  fm_candidate_ordinal :: nat
  fm_source_id :: source_id
  fm_source_file_id :: nat
  fm_candidate_path :: string
  fm_source_path :: string
  fm_size :: nat
  fm_score :: nat

record match_evidence =
  me_candidate_files :: nat
  me_required_files :: nat
  me_primary_files :: nat
  me_mapped_files :: nat
  me_mapped_primary_files :: nat
  me_mapped_primary_bytes :: nat
  me_exact_path_mappings :: nat
  me_compatible_sources :: nat
  me_qbit_sources :: nat

definition default_evidence :: match_evidence where
  "default_evidence =
     \<lparr> me_candidate_files = 0, me_required_files = 0, me_primary_files = 0, me_mapped_files = 0,
       me_mapped_primary_files = 0, me_mapped_primary_bytes = 0, me_exact_path_mappings = 0,
       me_compatible_sources = 0, me_qbit_sources = 0 \<rparr>"

record match_decision =
  md_outcome :: match_outcome
  md_mode :: "match_mode option"
  md_reason :: match_reason
  md_source_ids :: "source_id list"
  md_mappings :: "file_mapping list"
  md_mapped_bytes :: nat
  md_missing_bytes :: nat
  md_present_ratio :: ratio
  md_requires_recheck :: bool
  md_evidence :: match_evidence

section \<open>Ratios\<close>

lemma from_bytes_ppm:
  assumes "present \<le> total_bytes"
  shows "as_ppm (from_bytes present total_bytes) = present * 1000000 div total_bytes"
proof (cases "total_bytes = 0")
  case False
  have "present * 1000000 div total_bytes \<le> total_bytes * 1000000 div total_bytes"
    using assms by (intro div_le_mono) simp
  then have "present * 1000000 div total_bytes \<le> 1000000" using False by simp
  then show ?thesis using False by (simp add: from_bytes_def)
qed (simp add: from_bytes_def ratio_zero_def)

lemma from_bytes_bounded:
  assumes "present \<le> total_bytes"
  shows "as_ppm (from_bytes present total_bytes) \<le> 1000000"
  unfolding from_bytes_ppm [OF assms] using assms
  by (metis div_le_mono mult.commute mult_le_mono1 nonzero_mult_div_cancel_right div_by_0 zero_le)

lemma from_bytes_complete:
  "0 < total_bytes \<Longrightarrow> from_bytes total_bytes total_bytes = ratio_one"
  by (simp add: from_bytes_def ratio_one_def)

lemma from_bytes_from_ppm:
  assumes "present \<le> total_bytes"
  shows "from_ppm (as_ppm (from_bytes present total_bytes)) = Some (from_bytes present total_bytes)"
  using from_bytes_bounded [OF assms] by (simp add: from_ppm_def)

text \<open>
  for a part that is at most the whole, \<open>Ratio::from_bytes\<close> computes the
  exact floor of the parts-per-million value without overflow, so the result is
  accepted by \<open>Ratio::from_ppm\<close>, is \<open>ONE\<close> exactly for a complete non-empty
  whole, and rounds down by less than one part per million.
\<close>

lemma from_bytes_exact:
  assumes "present \<le> total_bytes" and "0 < total_bytes"
  shows "from_ppm (as_ppm (from_bytes present total_bytes)) = Some (from_bytes present total_bytes) \<and>
    as_ppm (from_bytes present total_bytes) * total_bytes \<le> present * 1000000 \<and>
    present * 1000000 < (as_ppm (from_bytes present total_bytes) + 1) * total_bytes \<and>
    (from_bytes present total_bytes = ratio_one \<longleftrightarrow> present = total_bytes)"
proof -
  let ?q = "present * 1000000 div total_bytes"
  have ppm: "as_ppm (from_bytes present total_bytes) = ?q" by (rule from_bytes_ppm [OF assms(1)])
  have lower: "?q * total_bytes \<le> present * 1000000" by simp
  have upper: "present * 1000000 < (?q + 1) * total_bytes"
    using assms(2) by (simp add: dividend_less_div_times add.commute)
  have "from_bytes present total_bytes = ratio_one \<longleftrightarrow> ?q = 1000000"
    using ppm by (metis ratio.collapse ratio.sel ratio_one_def)
  also have "\<dots> \<longleftrightarrow> present = total_bytes"
  proof
    assume "?q = 1000000"
    with lower have "1000000 * total_bytes \<le> present * 1000000" by metis
    with assms(1) show "present = total_bytes" by simp
  qed (use assms(2) in simp)
  finally show ?thesis
    using from_bytes_from_ppm [OF assms(1)] ppm lower upper by simp
qed

end
