(* ===== verification/Hardlink.thy ===== *)
theory Hardlink
  imports Prelude
begin

text \<open>
  The hardlink materializer, \<open>crates/sporos-service/src/hardlink.rs\<close>.

  The kernel is outside the repository: the record \<open>fs_ops\<close> has one field for each
  system call that the source makes (\<open>openat2\<close> with the flags of each call site,
  \<open>fstat\<close>, \<open>mkdirat\<close>, \<open>linkat\<close>), over an arbitrary state of the file system.  A
  \<open>Path\<close> is its byte string; \<open>components\<close> is \<open>Path::components\<close> on Unix.
\<close>

section \<open>Paths\<close>

datatype path_component = RootDir | CurDir | ParentDir | Normal string

definition normal_component :: "string \<Rightarrow> path_component" where
  "normal_component c = (if c = ''..'' then ParentDir else Normal c)"

definition components :: "string \<Rightarrow> path_component list" where
  "components path =
     (let parts = split_char CHR ''/'' path;
          rest = map normal_component (filter (\<lambda>c. c \<noteq> [] \<and> c \<noteq> ''.'') parts)
      in if prefix ''/'' path then RootDir # rest
         else if hd parts = ''.'' then CurDir # rest
         else rest)"

definition is_absolute :: "string \<Rightarrow> bool" where
  "is_absolute path \<longleftrightarrow> prefix ''/'' path"

fun normal_names :: "path_component list \<Rightarrow> string list" where
  "normal_names [] = []"
| "normal_names (Normal n # cs) = n # normal_names cs"
| "normal_names (_ # cs) = normal_names cs"

definition is_normal :: "path_component \<Rightarrow> bool" where
  "is_normal c = (case c of Normal _ \<Rightarrow> True | _ \<Rightarrow> False)"

text \<open>\<open>Path::file_name\<close> and the names of \<open>Path::parent\<close> on a path of normal components.\<close>

definition file_name :: "string \<Rightarrow> string option" where
  "file_name path = (case rev (components path) of Normal n # _ \<Rightarrow> Some n | _ \<Rightarrow> None)"

definition parent_names :: "string \<Rightarrow> string list" where
  "parent_names path = butlast (normal_names (components path))"

section \<open>System calls\<close>

datatype errno = EEXIST | EINVAL | Errno nat

type_synonym fd = nat

record metadata =
  mt_is_dir :: bool
  mt_is_file :: bool
  mt_len :: nat
  mt_dev :: nat
  mt_ino :: nat

record 's fs_ops =
  fs_open_absolute :: "'s \<Rightarrow> string \<Rightarrow> (errno, fd) result"
  fs_open_directory :: "'s \<Rightarrow> fd \<Rightarrow> string \<Rightarrow> (errno, fd) result"
  fs_open_path :: "'s \<Rightarrow> fd \<Rightarrow> string \<Rightarrow> (errno, fd) result"
  fs_metadata :: "'s \<Rightarrow> fd \<Rightarrow> (errno, metadata) result"
  fs_mkdirat :: "'s \<Rightarrow> fd \<Rightarrow> string \<Rightarrow> (errno, unit) result \<times> 's"
  fs_linkat :: "'s \<Rightarrow> fd \<Rightarrow> fd \<Rightarrow> string \<Rightarrow> (errno, unit) result \<times> 's"

section \<open>Errors and data\<close>

datatype materialize_error =
    OpenLinkRoot errno | InspectLinkRoot errno | LinkRootNotDirectory | UnsafeRelativePath
  | CreateDirectory errno | OpenDirectory errno | OpenSourceRoot errno | SourceRootNotDirectory
  | OpenSource errno | InspectSource errno | SourceNotRegular | SourceSizeChanged
  | SourceIdentityChanged | DeviceMismatch | CreateLink errno | OpenDestination errno
  | InspectDestination errno | LinkConflict

record planned_link =
  pl_source_root :: string
  pl_source_relative :: string
  pl_destination_relative :: string
  pl_expected_size :: nat
  pl_expected_device :: "nat option"
  pl_expected_inode :: "nat option"

record materialized_link =
  mk_destination_relative :: string
  mk_device :: nat
  mk_inode :: nat
  mk_size :: nat
  mk_existing :: bool

record materializer =
  mz_link_root :: fd
  mz_link_device :: nat

definition map_err :: "('e \<Rightarrow> 'f) \<Rightarrow> ('e, 'a) result \<Rightarrow> ('f, 'a) result" where
  "map_err f r = (case r of Inl e \<Rightarrow> Inl (f e) | Inr x \<Rightarrow> Inr x)"

section \<open>Operations\<close>

definition validate_relative :: "string \<Rightarrow> (materialize_error, unit) result" where
  "validate_relative path =
     (if path = [] \<or> is_absolute path \<or> list_ex (\<lambda>c. \<not> is_normal c) (components path)
      then Inl UnsafeRelativePath else Inr ())"

definition open_absolute_directory :: "'s fs_ops \<Rightarrow> 's \<Rightarrow> string \<Rightarrow> (errno, fd) result" where
  "open_absolute_directory ops s path =
     (if \<not> is_absolute path then Inl EINVAL else fs_open_absolute ops s path)"

definition open_directory :: "'s fs_ops \<Rightarrow> 's \<Rightarrow> fd \<Rightarrow> string \<Rightarrow> (materialize_error, fd) result" where
  "open_directory ops s root path = map_err OpenDirectory (fs_open_directory ops s root path)"

fun ensure_components ::
  "'s fs_ops \<Rightarrow> 's \<Rightarrow> fd \<Rightarrow> path_component list \<Rightarrow> (materialize_error, fd) result \<times> 's" where
  "ensure_components ops s current [] = (Inr current, s)"
| "ensure_components ops s current (Normal name # rest) =
     (case fs_mkdirat ops s current name of
        (Inl e, s') \<Rightarrow>
          if e \<noteq> EEXIST then (Inl (CreateDirectory e), s')
          else (case open_directory ops s' current name of
                  Inl err \<Rightarrow> (Inl err, s')
                | Inr d \<Rightarrow> ensure_components ops s' d rest)
      | (Inr _, s') \<Rightarrow>
          (case open_directory ops s' current name of
             Inl err \<Rightarrow> (Inl err, s')
           | Inr d \<Rightarrow> ensure_components ops s' d rest))"
| "ensure_components ops s current (_ # rest) = (Inl UnsafeRelativePath, s)"

definition ensure_directory ::
  "'s fs_ops \<Rightarrow> 's \<Rightarrow> fd \<Rightarrow> string \<Rightarrow> (materialize_error, fd) result \<times> 's" where
  "ensure_directory ops s root relative =
     (case validate_relative relative of
        Inl e \<Rightarrow> (Inl e, s)
      | Inr _ \<Rightarrow>
          (case open_directory ops s root ''.'' of
             Inl e \<Rightarrow> (Inl e, s)
           | Inr current \<Rightarrow> ensure_components ops s current (components relative)))"

definition open_materializer :: "'s fs_ops \<Rightarrow> 's \<Rightarrow> string \<Rightarrow> (materialize_error, materializer) result" where
  "open_materializer ops s link_root =
     and_then (map_err OpenLinkRoot (open_absolute_directory ops s link_root)) (\<lambda>root.
       and_then (map_err InspectLinkRoot (fs_metadata ops s root)) (\<lambda>metadata.
         if \<not> mt_is_dir metadata then Inl LinkRootNotDirectory
         else Inr \<lparr>mz_link_root = root, mz_link_device = mt_dev metadata\<rparr>))"

text \<open>The checks on the source; they do not change the file system.\<close>

definition open_source ::
  "'s fs_ops \<Rightarrow> 's \<Rightarrow> materializer \<Rightarrow> planned_link \<Rightarrow> (materialize_error, fd \<times> metadata) result" where
  "open_source ops s m link =
     and_then (validate_relative (pl_source_relative link)) (\<lambda>_.
     and_then (validate_relative (pl_destination_relative link)) (\<lambda>_.
     and_then (map_err OpenSourceRoot (open_absolute_directory ops s (pl_source_root link))) (\<lambda>source_root.
     and_then (map_err InspectSource (fs_metadata ops s source_root)) (\<lambda>root_metadata.
       if \<not> mt_is_dir root_metadata then Inl SourceRootNotDirectory
       else and_then (map_err OpenSource (fs_open_path ops s source_root (pl_source_relative link))) (\<lambda>source.
         and_then (map_err InspectSource (fs_metadata ops s source)) (\<lambda>metadata.
           if \<not> mt_is_file metadata then Inl SourceNotRegular
           else if mt_len metadata \<noteq> pl_expected_size link then Inl SourceSizeChanged
           else if (case pl_expected_device link of None \<Rightarrow> False | Some device \<Rightarrow> device \<noteq> mt_dev metadata)
                \<or> (case pl_expected_inode link of None \<Rightarrow> False | Some inode \<Rightarrow> inode \<noteq> mt_ino metadata)
           then Inl SourceIdentityChanged
           else if mt_dev metadata \<noteq> mz_link_device m then Inl DeviceMismatch
           else Inr (source, metadata)))))))"

definition linked :: "planned_link \<Rightarrow> metadata \<Rightarrow> bool \<Rightarrow> materialized_link" where
  "linked link metadata existing =
     \<lparr> mk_destination_relative = pl_destination_relative link, mk_device = mt_dev metadata,
       mk_inode = mt_ino metadata, mk_size = mt_len metadata, mk_existing = existing \<rparr>"

definition same_file :: "metadata \<Rightarrow> metadata \<Rightarrow> bool" where
  "same_file existing metadata \<longleftrightarrow> mt_is_file existing \<and> mt_dev existing = mt_dev metadata
     \<and> mt_ino existing = mt_ino metadata \<and> mt_len existing = mt_len metadata"

definition create_link ::
  "'s fs_ops \<Rightarrow> 's \<Rightarrow> fd \<Rightarrow> metadata \<Rightarrow> fd \<Rightarrow> planned_link
    \<Rightarrow> (materialize_error, materialized_link) result \<times> 's" where
  "create_link ops s source metadata parent link =
     (case file_name (pl_destination_relative link) of
        None \<Rightarrow> (Inl UnsafeRelativePath, s)
      | Some name \<Rightarrow>
          (case fs_linkat ops s source parent name of
             (Inr _, s') \<Rightarrow> (Inr (linked link metadata False), s')
           | (Inl e, s') \<Rightarrow>
               if e \<noteq> EEXIST then (Inl (CreateLink e), s')
               else (and_then (map_err OpenDestination (fs_open_path ops s' parent name)) (\<lambda>d.
                      and_then (map_err InspectDestination (fs_metadata ops s' d)) (\<lambda>existing.
                        if same_file existing metadata then Inr (linked link metadata True)
                        else Inl LinkConflict)), s')))"

definition materialize_one ::
  "'s fs_ops \<Rightarrow> 's \<Rightarrow> materializer \<Rightarrow> fd \<Rightarrow> planned_link
    \<Rightarrow> (materialize_error, materialized_link) result \<times> 's" where
  "materialize_one ops s m namespace link =
     (case open_source ops s m link of
        Inl e \<Rightarrow> (Inl e, s)
      | Inr (source, metadata) \<Rightarrow>
          if parent_names (pl_destination_relative link) = []
          then create_link ops s source metadata namespace link
          else (case ensure_directory ops s namespace
                       (concat (map (\<lambda>n. n @ ''/'') (butlast (parent_names (pl_destination_relative link))))
                        @ last (parent_names (pl_destination_relative link))) of
                  (Inl e, s') \<Rightarrow> (Inl e, s')
                | (Inr parent, s') \<Rightarrow> create_link ops s' source metadata parent link))"

fun materialize_links ::
  "'s fs_ops \<Rightarrow> 's \<Rightarrow> materializer \<Rightarrow> fd \<Rightarrow> planned_link list
    \<Rightarrow> (materialize_error, materialized_link list) result \<times> 's" where
  "materialize_links ops s m namespace [] = (Inr [], s)"
| "materialize_links ops s m namespace (link # links) =
     (case materialize_one ops s m namespace link of
        (Inl e, s') \<Rightarrow> (Inl e, s')
      | (Inr r, s') \<Rightarrow>
          (case materialize_links ops s' m namespace links of
             (Inl e, s'') \<Rightarrow> (Inl e, s'')
           | (Inr rs, s'') \<Rightarrow> (Inr (r # rs), s'')))"

definition materialize ::
  "'s fs_ops \<Rightarrow> 's \<Rightarrow> materializer \<Rightarrow> string \<Rightarrow> planned_link list
    \<Rightarrow> (materialize_error, materialized_link list) result \<times> 's" where
  "materialize ops s m namespace_relative links =
     (case ensure_directory ops s (mz_link_root m) namespace_relative of
        (Inl e, s') \<Rightarrow> (Inl e, s')
      | (Inr namespace, s') \<Rightarrow> materialize_links ops s' m namespace links)"

section \<open>Lemmas\<close>

lemma map_err_Inr_iff [simp]: "map_err f r = Inr x \<longleftrightarrow> r = Inr x"
  by (cases r) (simp_all add: map_err_def)

definition safe_relative :: "string \<Rightarrow> bool" where
  "safe_relative path \<longleftrightarrow> path \<noteq> [] \<and> hd path \<noteq> CHR ''/'' \<and>
     hd (split_char CHR ''/'' path) \<noteq> ''.'' \<and> ''..'' \<notin> set (split_char CHR ''/'' path)"

lemma validate_relative_iff: "validate_relative path = Inr () \<longleftrightarrow> safe_relative path"
proof -
  have abs: "is_absolute path \<longleftrightarrow> path \<noteq> [] \<and> hd path = CHR ''/''"
    by (cases path) (auto simp: is_absolute_def)
  have normal: "list_ex (\<lambda>c. \<not> is_normal c) (map normal_component (filter (\<lambda>c. c \<noteq> [] \<and> c \<noteq> ''.'') parts))
      \<longleftrightarrow> ''..'' \<in> set parts" for parts
    by (auto simp: list_ex_iff normal_component_def is_normal_def)
  show ?thesis
  proof (cases "path = [] \<or> is_absolute path")
    case True
    then show ?thesis using abs by (auto simp: validate_relative_def safe_relative_def)
  next
    case False
    then have c: "components path = (if hd (split_char CHR ''/'' path) = ''.'' then [CurDir] else []) @
        map normal_component (filter (\<lambda>c. c \<noteq> [] \<and> c \<noteq> ''.'') (split_char CHR ''/'' path))"
      by (simp add: components_def Let_def is_absolute_def)
    have "list_ex (\<lambda>c. \<not> is_normal c) (components path) \<longleftrightarrow>
        hd (split_char CHR ''/'' path) = ''.'' \<or> ''..'' \<in> set (split_char CHR ''/'' path)"
      unfolding c list_ex_append normal by (simp add: is_normal_def)
    then show ?thesis using False abs by (auto simp: validate_relative_def safe_relative_def)
  qed
qed

lemma open_source_Inr:
  assumes "open_source ops s m link = Inr (source, metadata)"
  shows "safe_relative (pl_source_relative link)" "safe_relative (pl_destination_relative link)"
    "mt_is_file metadata" "mt_len metadata = pl_expected_size link" "mt_dev metadata = mz_link_device m"
    "\<And>d. pl_expected_device link = Some d \<Longrightarrow> d = mt_dev metadata"
    "\<And>i. pl_expected_inode link = Some i \<Longrightarrow> i = mt_ino metadata"
  using assms by (auto simp: open_source_def validate_relative_iff split: if_splits option.splits)

definition link_matches :: "materializer \<Rightarrow> planned_link \<Rightarrow> materialized_link \<Rightarrow> bool" where
  "link_matches m link r \<longleftrightarrow>
     mk_destination_relative r = pl_destination_relative link \<and> mk_size r = pl_expected_size link \<and>
     mk_device r = mz_link_device m \<and>
     (\<forall>d. pl_expected_device link = Some d \<longrightarrow> mk_device r = d) \<and>
     (\<forall>i. pl_expected_inode link = Some i \<longrightarrow> mk_inode r = i) \<and>
     safe_relative (pl_source_relative link) \<and> safe_relative (pl_destination_relative link)"

lemma create_link_Inr:
  "create_link ops s source metadata parent link = (Inr r, s') \<Longrightarrow> \<exists>existing. r = linked link metadata existing"
  by (auto simp: create_link_def split: option.splits prod.splits sum.splits if_splits)

lemma materialize_one_Inr:
  assumes "materialize_one ops s m namespace link = (Inr r, s')"
  shows "link_matches m link r"
proof -
  obtain source metadata where src: "open_source ops s m link = Inr (source, metadata)"
    using assms by (auto simp: materialize_one_def split: sum.splits)
  have "\<exists>existing. r = linked link metadata existing"
    using assms src create_link_Inr
    by (fastforce simp: materialize_one_def split: if_splits prod.splits sum.splits)
  then show ?thesis using open_source_Inr [OF src] by (auto simp: link_matches_def linked_def)
qed

lemma materialize_links_Inr:
  "materialize_links ops s m namespace links = (Inr rs, s') \<Longrightarrow> list_all2 (link_matches m) links rs"
proof (induction links arbitrary: s rs)
  case (Cons link links)
  then show ?case
    by (fastforce dest: materialize_one_Inr split: prod.splits sum.splits)
qed simp

section \<open>Properties\<close>

text \<open>
  C11: What \<open>materialize\<close> reports as linked matches the plan one to one: the planned
  destination, exactly the expected size, the device of the link root, the expected
  device and inode where the plan names them, and both relative paths without a
  root, a leading \<open>.\<close> or a \<open>..\<close> component.
\<close>

theorem materialize_matches_plan:
  assumes "materialize ops s m namespace links = (Inr rs, s')"
  shows "list_all2 (link_matches m) links rs \<and> safe_relative namespace"
proof -
  have "safe_relative namespace"
    using assms by (auto simp: materialize_def ensure_directory_def simp flip: validate_relative_iff
        split: sum.splits)
  then show ?thesis using assms materialize_links_Inr
    by (fastforce simp: materialize_def split: prod.splits sum.splits)
qed

text \<open>A file system with one directory and one file, for the examples.\<close>

definition sample_ops :: "nat fs_ops" where
  "sample_ops =
     \<lparr> fs_open_absolute = (\<lambda>_ _. Inr 1), fs_open_directory = (\<lambda>_ _ _. Inr 1), fs_open_path = (\<lambda>_ _ _. Inr 2),
       fs_metadata = (\<lambda>_ d. Inr \<lparr>mt_is_dir = (d = 1), mt_is_file = (d = 2), mt_len = 7, mt_dev = 5, mt_ino = 9\<rparr>),
       fs_mkdirat = (\<lambda>s _ _. (Inr (), s)), fs_linkat = (\<lambda>s _ _ _. (Inr (), s + 1)) \<rparr>"

definition sample_link :: planned_link where
  "sample_link = \<lparr> pl_source_root = ''/data'', pl_source_relative = ''a'', pl_destination_relative = ''d/a'',
     pl_expected_size = 7, pl_expected_device = Some 5, pl_expected_inode = Some 9 \<rparr>"

lemma sample_materialize:
  "materialize sample_ops 0 \<lparr>mz_link_root = 1, mz_link_device = 5\<rparr> ''n'' [sample_link]
     = (Inr [\<lparr>mk_destination_relative = ''d/a'', mk_device = 5, mk_inode = 9, mk_size = 7, mk_existing = False\<rparr>], 1)"
  by (simp add: materialize_def ensure_directory_def validate_relative_def is_absolute_def components_def
      normal_component_def is_normal_def open_directory_def map_err_def sample_ops_def sample_link_def
      materialize_one_def open_source_def open_absolute_directory_def parent_names_def create_link_def
      file_name_def linked_def)

theorem materialize_matches_plan_witness:
  "list_all2 (link_matches \<lparr>mz_link_root = 1, mz_link_device = 5\<rparr>) [sample_link]
     [\<lparr>mk_destination_relative = ''d/a'', mk_device = 5, mk_inode = 9, mk_size = 7, mk_existing = False\<rparr>]"
  using materialize_matches_plan [OF sample_materialize] by blast

definition source_conflict :: "materialize_error \<Rightarrow> bool" where
  "source_conflict e \<longleftrightarrow> e \<in> {SourceRootNotDirectory, SourceNotRegular, SourceSizeChanged, SourceIdentityChanged,
     DeviceMismatch}"

lemma ensure_components_error:
  "ensure_components ops s current cs = (Inl e, s') \<Longrightarrow> \<not> source_conflict e"
  by (induction ops s current cs rule: ensure_components.induct)
    (auto simp: source_conflict_def open_directory_def map_err_def split: prod.splits sum.splits if_splits)

lemma ensure_directory_error: "ensure_directory ops s root path = (Inl e, s') \<Longrightarrow> \<not> source_conflict e"
  using ensure_components_error
  by (fastforce simp: ensure_directory_def validate_relative_def open_directory_def map_err_def source_conflict_def
      split: sum.splits if_splits)

lemma create_link_error: "create_link ops s source metadata parent link = (Inl e, s') \<Longrightarrow> \<not> source_conflict e"
  by (auto simp: create_link_def and_then_def map_err_def source_conflict_def
      split: option.splits prod.splits sum.splits if_splits)

text \<open>
  When a link is refused because its source changed (size, identity, device,
  not a regular file, root not a directory) the file system is exactly as before:
  neither a directory nor a link has been created for it.
\<close>

lemma source_conflict_changes_nothing:
  assumes "materialize_one ops s m namespace link = (Inl e, s')" and "source_conflict e"
  shows "s' = s"
  using assms ensure_directory_error create_link_error
  by (fastforce simp: materialize_one_def split: sum.splits prod.splits if_splits)

end
