(* ===== verification/Piece_Inspection.thy ===== *)
theory Piece_Inspection
  imports Domain_Model Hardlink
begin

text \<open>
  The integrity gate of an injection: \<open>inspect_pieces\<close> and \<open>resume_allowed\<close> of
  \<open>crates/sporos-service/src/injection.rs\<close>, the streaming visitor of
  \<open>parse_piece_states\<close> in \<open>inventory.rs\<close>, and the resume policy of \<open>config.rs\<close>.

  The JSON deserializer is outside the repository: a piece-state response is the
  list of its elements together with the flag that the array is well formed and
  nothing follows it.  \<open>f64\<close> ratios of the configuration are given by the
  parts-per-million value that the code computes from them.
\<close>

section \<open>Errors\<close>

datatype injection_error =
    Database | Json | Qbittorrent bool | Materialize materialize_error | MaterializerTask
  | PieceParserTask | Projection bool | Filesystem | Pieces | MissingPlan | MissingManifest | MissingHash
  | MissingPieceLength | NamespaceOutsideRoot | UnmappedSourceRoot | InvalidSourcePath
  | TorrentSizeOverflow | PieceCount | InvalidProgress | Range string | StoredRange string

section \<open>Resume policies\<close>

datatype threshold_combination = And | Or

datatype resume_policy =
    Never
  | CompleteOnly
  | Threshold "nat option" "nat option" threshold_combination
  | Always

datatype config_error = ThresholdCombinationError | PresentRatio | EmptyThreshold | ResumeMode

record resume_config =
  rc_mode :: string
  rc_max_missing_bytes :: "nat option"
  rc_min_present_ratio :: "nat option option"
  rc_combine :: string

text \<open>
  \<open>rc_min_present_ratio\<close> is \<open>None\<close> when the key is absent, \<open>Some None\<close> for a value
  that is not finite or not within zero and one, and \<open>Some (Some ppm)\<close> for a ratio
  that rounds to \<open>ppm\<close>.
\<close>

definition parse_resume_policy :: "resume_config \<Rightarrow> (config_error, resume_policy) result" where
  "parse_resume_policy config =
     and_then (if rc_combine config = ''and'' then Inr And
               else if rc_combine config = ''or'' then Inr Or
               else Inl ThresholdCombinationError) (\<lambda>combine.
     and_then (case rc_min_present_ratio config of
                 None \<Rightarrow> Inr None
               | Some None \<Rightarrow> Inl PresentRatio
               | Some (Some ppm) \<Rightarrow> Inr (Some ppm)) (\<lambda>min_present_ratio_ppm.
       if rc_mode config = ''never'' then Inr Never
       else if rc_mode config = ''complete_only'' then Inr CompleteOnly
       else if rc_mode config = ''always'' then Inr Always
       else if rc_mode config = ''threshold'' then
         (if rc_max_missing_bytes config \<noteq> None \<or> min_present_ratio_ppm \<noteq> None
          then Inr (Threshold (rc_max_missing_bytes config) min_present_ratio_ppm combine)
          else Inl EmptyThreshold)
       else Inl ResumeMode))"

record piece_inspection =
  pi_integrity_safe :: bool
  pi_missing_bytes :: nat
  pi_present_ratio_ppm :: nat

definition resume_allowed :: "resume_policy \<Rightarrow> nat \<Rightarrow> piece_inspection \<Rightarrow> bool" where
  "resume_allowed policy amount_left pieces =
     (case policy of
        Never \<Rightarrow> False
      | CompleteOnly \<Rightarrow> amount_left = 0 \<and> pi_missing_bytes pieces = 0
      | Always \<Rightarrow> True
      | Threshold max_missing_bytes min_present_ratio_ppm combine \<Rightarrow>
          (let checks =
             (case max_missing_bytes of None \<Rightarrow> [] | Some maximum \<Rightarrow> [pi_missing_bytes pieces \<le> maximum]) @
             (case min_present_ratio_ppm of None \<Rightarrow> [] | Some least \<Rightarrow> [pi_present_ratio_ppm pieces \<ge> least])
           in case combine of And \<Rightarrow> list_all id checks | Or \<Rightarrow> list_ex id checks))"

section \<open>The intervals of the mapped files\<close>

fun legacy_intervals ::
  "bool \<Rightarrow> nat \<Rightarrow> nat set \<Rightarrow> torrent_file list \<Rightarrow> nat \<Rightarrow> (nat \<times> nat) list
    \<Rightarrow> (injection_error, (nat \<times> nat) list \<times> nat) result" where
  "legacy_intervals v2_only piece_length mapped [] offset intervals = Inr (intervals, offset)"
| "legacy_intervals v2_only piece_length mapped (f # files) offset intervals =
     (let start = (if v2_only then saturating_mul u64_max (div_ceil offset piece_length) piece_length else offset)
      in and_then (ok_or TorrentSizeOverflow (checked_add u64_max start (tf_size f))) (\<lambda>stop.
           legacy_intervals v2_only piece_length mapped files stop
             (if tf_ordinal f \<in> mapped \<and> tf_size f > 0 then intervals @ [(start, stop)] else intervals)))"

fun layout_intervals ::
  "nat set \<Rightarrow> torrent_piece_file list \<Rightarrow> nat \<Rightarrow> (nat \<times> nat) list
    \<Rightarrow> (injection_error, (nat \<times> nat) list \<times> nat) result" where
  "layout_intervals mapped [] total_bytes intervals = Inr (intervals, total_bytes)"
| "layout_intervals mapped (p # ps) total_bytes intervals =
     and_then (ok_or TorrentSizeOverflow (checked_add u64_max (tp_offset p) (tp_size p))) (\<lambda>stop.
       layout_intervals mapped ps (max total_bytes stop)
         (if (case tp_file_ordinal p of None \<Rightarrow> False | Some ordinal \<Rightarrow> ordinal \<in> mapped) \<and> tp_size p > 0
          then intervals @ [(tp_offset p, stop)] else intervals))"

definition mapped_intervals ::
  "torrent_manifest \<Rightarrow> nat \<Rightarrow> nat set \<Rightarrow> (injection_error, (nat \<times> nat) list \<times> nat) result" where
  "mapped_intervals manifest piece_length mapped =
     (if tm_piece_files manifest = []
      then legacy_intervals (ih_v1 (tm_hashes manifest) = None \<and> ih_v2 (tm_hashes manifest) \<noteq> None)
             piece_length mapped (tm_files manifest) 0 []
      else layout_intervals mapped (tm_piece_files manifest) 0 [])"

section \<open>The scan over the piece states\<close>

definition MAX_PIECES :: nat where "MAX_PIECES = 20000000"

record piece_scan =
  sc_index :: nat
  sc_interval :: nat
  sc_safe :: bool
  sc_present :: nat

function skip_intervals :: "(nat \<times> nat) list \<Rightarrow> nat \<Rightarrow> nat \<Rightarrow> nat" where
  "skip_intervals intervals start k =
     (if k < length intervals \<and> snd (intervals ! k) \<le> start then skip_intervals intervals start (k + 1) else k)"
  by pat_completeness auto
termination by (relation "measure (\<lambda>(intervals, start, k). length intervals - k)") auto

declare skip_intervals.simps [simp del]

definition piece_step ::
  "nat \<Rightarrow> nat \<Rightarrow> (nat \<times> nat) list \<Rightarrow> nat \<Rightarrow> piece_scan \<Rightarrow> piece_scan" where
  "piece_step piece_length total_bytes intervals state st =
     (let start = saturating_mul u64_max (sc_index st) piece_length;
          stop = min (saturating_add u64_max start piece_length) total_bytes;
          k = skip_intervals intervals start (sc_interval st)
      in \<lparr> sc_index = sc_index st + 1, sc_interval = k,
           sc_safe = (sc_safe st \<and> \<not> (state \<noteq> 2 \<and> k < length intervals
             \<and> fst (intervals ! k) < stop \<and> snd (intervals ! k) > start)),
           sc_present = (if state = 2 then saturating_add u64_max (sc_present st) (stop - start)
             else sc_present st) \<rparr>)"

text \<open>\<open>PieceStateVisitor::visit_seq\<close> with the closure of \<open>inspect_pieces\<close> as \<open>emit\<close>.\<close>

fun visit_states ::
  "nat \<Rightarrow> (nat \<Rightarrow> 'st \<Rightarrow> 'st) \<Rightarrow> nat list \<Rightarrow> nat \<Rightarrow> 'st \<Rightarrow> (injection_error, nat \<times> 'st) result" where
  "visit_states limit emit [] visited st = Inr (visited, st)"
| "visit_states limit emit (state # states) visited st =
     (if visited = limit then Inl Pieces
      else if state > 2 then Inl Pieces
      else visit_states limit emit states (visited + 1) (emit state st))"

definition inspect_pieces ::
  "torrent_manifest \<Rightarrow> nat set \<Rightarrow> nat list \<Rightarrow> bool \<Rightarrow> (injection_error, piece_inspection) result" where
  "inspect_pieces manifest mapped states well_formed =
     (case tm_piece_length manifest of
        None \<Rightarrow> Inl MissingPieceLength
      | Some piece_length \<Rightarrow>
          if piece_length = 0 then Inl MissingPieceLength
          else and_then (mapped_intervals manifest piece_length mapped) (\<lambda>(intervals, total_bytes).
            (let expected = div_ceil total_bytes piece_length
             in and_then (visit_states MAX_PIECES (piece_step piece_length total_bytes intervals) states 0
                    \<lparr>sc_index = 0, sc_interval = 0, sc_safe = True, sc_present = 0\<rparr>) (\<lambda>(visited, st).
                  if \<not> well_formed then Inl Pieces
                  else if visited \<noteq> expected then Inl PieceCount
                  else Inr \<lparr> pi_integrity_safe = sc_safe st,
                    pi_missing_bytes = total_bytes - sc_present st,
                    pi_present_ratio_ppm = (if total_bytes = 0 then 0
                      else (let ppm = sc_present st * 1000000 div total_bytes
                            in if ppm \<le> u32_max then ppm else 1000000)) \<rparr>))))"


section \<open>Interval lists\<close>

text \<open>Non-empty intervals in order, without overlap, that end at or below a bound.\<close>

fun interval_chain :: "nat \<Rightarrow> nat \<Rightarrow> (nat \<times> nat) list \<Rightarrow> bool" where
  "interval_chain low high [] = True"
| "interval_chain low high ((a, b) # rest) = (low \<le> a \<and> a < b \<and> b \<le> high \<and> interval_chain b high rest)"

lemma interval_chain_mono: "interval_chain low high xs \<Longrightarrow> low' \<le> low \<Longrightarrow> high \<le> high' \<Longrightarrow> interval_chain low' high' xs"
  by (induction low high xs arbitrary: low' rule: interval_chain.induct) auto

lemma interval_chain_snoc:
  assumes "interval_chain low high xs" "high \<le> a" "a < b" "low \<le> a" "b \<le> high'"
  shows "interval_chain low high' (xs @ [(a, b)])"
  using assms by (induction low high xs rule: interval_chain.induct) auto

lemma interval_chain_nth:
  assumes "interval_chain low high xs" "i < length xs"
  shows "low \<le> fst (xs ! i)" "fst (xs ! i) < snd (xs ! i)" "snd (xs ! i) \<le> high"
proof -
  have "low \<le> fst (xs ! i) \<and> fst (xs ! i) < snd (xs ! i) \<and> snd (xs ! i) \<le> high"
    using assms
  proof (induction low high xs arbitrary: i rule: interval_chain.induct)
    case (2 low high a b rest)
    show ?case
    proof (cases i)
      case (Suc k)
      then show ?thesis using "2.IH" [of k] "2.prems" by simp
    qed (use "2.prems" in simp)
  qed simp
  then show "low \<le> fst (xs ! i)" "fst (xs ! i) < snd (xs ! i)" "snd (xs ! i) \<le> high" by auto
qed

lemma interval_chain_order:
  assumes "interval_chain low high xs" "i < j" "j < length xs"
  shows "snd (xs ! i) \<le> fst (xs ! j)"
  using assms
proof (induction low high xs arbitrary: i j rule: interval_chain.induct)
  case (2 low high a b rest)
  obtain j' where j: "j = Suc j'" using "2.prems"(2) by (cases j) auto
  show ?case
  proof (cases i)
    case 0
    then show ?thesis using interval_chain_nth(1) [of b high rest j'] "2.prems" j by simp
  next
    case (Suc i')
    then show ?thesis using "2.IH" "2.prems" j by simp
  qed
qed simp

section \<open>The intervals cover the mapped files\<close>

definition piece_mapped :: "nat set \<Rightarrow> torrent_piece_file \<Rightarrow> bool" where
  "piece_mapped mapped p \<longleftrightarrow> (\<exists>ordinal \<in> mapped. tp_file_ordinal p = Some ordinal)"

fun pieces_ordered :: "nat \<Rightarrow> torrent_piece_file list \<Rightarrow> bool" where
  "pieces_ordered stop [] = True"
| "pieces_ordered stop (p # ps) = (stop \<le> tp_offset p \<and> pieces_ordered (tp_offset p + tp_size p) ps)"

lemma layout_intervals_spec:
  assumes "layout_intervals mapped ps total_bytes intervals = Inr (result, total_bytes')"
    and "pieces_ordered total_bytes ps" "interval_chain 0 total_bytes intervals" "total_bytes \<le> u64_max"
  shows "interval_chain 0 total_bytes' result \<and> total_bytes' \<le> u64_max \<and>
    set result = set intervals \<union>
      {(tp_offset p, tp_offset p + tp_size p) | p. p \<in> set ps \<and> piece_mapped mapped p \<and> 0 < tp_size p}"
  using assms
proof (induction ps arbitrary: total_bytes intervals)
  case (Cons p ps)
  let ?stop = "tp_offset p + tp_size p"
  let ?new = "if piece_mapped mapped p \<and> 0 < tp_size p then intervals @ [(tp_offset p, ?stop)] else intervals"
  have m: "(case tp_file_ordinal p of None \<Rightarrow> False | Some ordinal \<Rightarrow> ordinal \<in> mapped) = piece_mapped mapped p"
    by (auto simp: piece_mapped_def split: option.split)
  have le: "?stop \<le> u64_max" and ord: "total_bytes \<le> tp_offset p" "pieces_ordered ?stop ps"
    using Cons.prems by (auto simp: m)
  have mx: "max total_bytes ?stop = ?stop" using ord(1) by simp
  have run: "layout_intervals mapped ps ?stop ?new = Inr (result, total_bytes')"
    using Cons.prems(1) by (simp add: m mx)
  have "interval_chain 0 ?stop ?new"
    using interval_chain_snoc [OF Cons.prems(3) ord(1), of ?stop ?stop]
      interval_chain_mono [OF Cons.prems(3), of 0 ?stop] ord(1) by auto
  from Cons.IH [OF run ord(2) this le] show ?case by auto
qed auto

lemma pieces_ordered_total:
  assumes "layout_intervals mapped ps total_bytes intervals = Inr (result, total_bytes')" "pieces_ordered total_bytes ps"
  shows "total_bytes \<le> total_bytes' \<and> (\<forall>p \<in> set ps. tp_offset p + tp_size p \<le> total_bytes')"
  using assms
proof (induction ps arbitrary: total_bytes intervals)
  case (Cons p ps)
  let ?stop = "tp_offset p + tp_size p"
  have ord: "total_bytes \<le> ?stop" "pieces_ordered ?stop ps" "max total_bytes ?stop = ?stop" using Cons.prems(2) by auto
  obtain new where "layout_intervals mapped ps ?stop new = Inr (result, total_bytes')"
    using Cons.prems(1) ord(3) by (auto split: if_splits)
  from Cons.IH [OF this ord(2)] show ?case using ord(1) by auto
qed simp

section \<open>The two-pointer scan\<close>

definition overlaps :: "nat \<times> nat \<Rightarrow> nat \<Rightarrow> nat \<Rightarrow> bool" where
  "overlaps interval start stop \<longleftrightarrow> fst interval < stop \<and> start < snd interval"

lemma skip_intervals_spec:
  assumes "k \<le> length intervals" "\<forall>j < k. snd (intervals ! j) \<le> start"
  shows "skip_intervals intervals start k \<le> length intervals"
    "\<forall>j < skip_intervals intervals start k. snd (intervals ! j) \<le> start"
    "skip_intervals intervals start k < length intervals \<Longrightarrow>
       start < snd (intervals ! skip_intervals intervals start k)"
proof -
  let ?P = "\<lambda>r. r \<le> length intervals \<and> (\<forall>j < r. snd (intervals ! j) \<le> start) \<and>
    (r < length intervals \<longrightarrow> start < snd (intervals ! r))"
  have "?P (skip_intervals intervals start k)"
    using assms
  proof (induction intervals start k rule: skip_intervals.induct)
    case (1 intervals start k)
    show ?case
    proof (cases "k < length intervals \<and> snd (intervals ! k) \<le> start")
      case True
      then have eq: "skip_intervals intervals start k = skip_intervals intervals start (k + 1)"
        by (subst skip_intervals.simps) simp
      have "\<forall>j < k + 1. snd (intervals ! j) \<le> start" using "1.prems"(2) True by (auto simp: less_Suc_eq)
      then show ?thesis unfolding eq using "1.IH" [OF True] True by simp
    next
      case False
      then have "skip_intervals intervals start k = k" by (subst skip_intervals.simps) auto
      then show ?thesis using "1.prems" False by auto
    qed
  qed
  then show "skip_intervals intervals start k \<le> length intervals"
    "\<forall>j < skip_intervals intervals start k. snd (intervals ! j) \<le> start"
    "skip_intervals intervals start k < length intervals \<Longrightarrow>
       start < snd (intervals ! skip_intervals intervals start k)" by auto
qed

text \<open>After the skip, looking at one interval decides whether any interval overlaps the piece.\<close>

lemma skip_decides:
  assumes "interval_chain 0 high intervals" "k \<le> length intervals" "\<forall>j < k. snd (intervals ! j) \<le> start"
  defines "r \<equiv> skip_intervals intervals start k"
  shows "(r < length intervals \<and> fst (intervals ! r) < stop \<and> start < snd (intervals ! r))
    \<longleftrightarrow> (\<exists>i \<in> set intervals. overlaps i start stop)"
proof
  assume "\<exists>i \<in> set intervals. overlaps i start stop"
  then obtain j where j: "j < length intervals" "fst (intervals ! j) < stop" "start < snd (intervals ! j)"
    by (auto simp: in_set_conv_nth overlaps_def)
  note sk = skip_intervals_spec [OF assms(2,3), folded r_def]
  have "r \<le> j" using sk(2) j(3) by (meson leD leI)
  then have r: "r < length intervals" using j(1) by simp
  have "fst (intervals ! r) \<le> fst (intervals ! j)"
  proof (cases "r = j")
    case False
    then have "snd (intervals ! r) \<le> fst (intervals ! j)"
      using interval_chain_order [OF assms(1)] \<open>r \<le> j\<close> j(1) by simp
    then show ?thesis using interval_chain_nth(2) [OF assms(1) r] by simp
  qed simp
  then show "r < length intervals \<and> fst (intervals ! r) < stop \<and> start < snd (intervals ! r)"
    using r sk(3) j(2) by simp
qed (auto simp: overlaps_def intro: bexI [of _ "intervals ! r"])

definition piece_start :: "nat \<Rightarrow> nat \<Rightarrow> nat" where
  "piece_start piece_length i = i * piece_length"

definition piece_stop :: "nat \<Rightarrow> nat \<Rightarrow> nat \<Rightarrow> nat" where
  "piece_stop piece_length total_bytes i = min ((i + 1) * piece_length) total_bytes"

definition scan_inv :: "nat \<Rightarrow> nat \<Rightarrow> (nat \<times> nat) list \<Rightarrow> nat list \<Rightarrow> piece_scan \<Rightarrow> bool" where
  "scan_inv piece_length total_bytes intervals done st \<longleftrightarrow>
     sc_index st = length done \<and> sc_interval st \<le> length intervals \<and>
     (\<forall>j < sc_interval st. snd (intervals ! j) \<le> length done * piece_length) \<and>
     (sc_safe st \<longleftrightarrow> (\<forall>i < length done. done ! i \<noteq> 2 \<longrightarrow>
        \<not> (\<exists>x \<in> set intervals. overlaps x (piece_start piece_length i) (piece_stop piece_length total_bytes i)))) \<and>
     sc_present st = (\<Sum>i < length done. if done ! i = 2
        then piece_stop piece_length total_bytes i - piece_start piece_length i else 0)"

lemma scan_invD:
  assumes "scan_inv piece_length total_bytes intervals done st"
  shows "sc_index st = length done" "sc_interval st \<le> length intervals"
    "\<forall>j < sc_interval st. snd (intervals ! j) \<le> length done * piece_length"
    "sc_safe st \<longleftrightarrow> (\<forall>i < length done. done ! i \<noteq> 2 \<longrightarrow>
        \<not> (\<exists>x \<in> set intervals. overlaps x (piece_start piece_length i) (piece_stop piece_length total_bytes i)))"
    "sc_present st = (\<Sum>i < length done. if done ! i = 2
        then piece_stop piece_length total_bytes i - piece_start piece_length i else 0)"
  using assms unfolding scan_inv_def by blast+

lemma present_bound:
  assumes "n * piece_length \<le> total_bytes + piece_length"
  shows "(\<Sum>i < n. if P i then piece_stop piece_length total_bytes i - piece_start piece_length i else 0)
    \<le> min (n * piece_length) total_bytes"
  using assms
proof (induction n)
  case (Suc n)
  then have "(\<Sum>i < n. if P i then piece_stop piece_length total_bytes i - piece_start piece_length i else 0)
      \<le> min (n * piece_length) total_bytes" by simp
  then show ?case using Suc.prems by (auto simp: piece_stop_def piece_start_def)
qed simp

lemma piece_step_inv:
  assumes inv: "scan_inv piece_length total_bytes intervals done st"
    and chain: "interval_chain 0 total_bytes intervals" and total_le: "total_bytes \<le> u64_max"
    and within: "length done * piece_length < total_bytes"
  shows "scan_inv piece_length total_bytes intervals (done @ [state])
    (piece_step piece_length total_bytes intervals state st)"
proof -
  note f = scan_invD [OF inv]
  let ?n = "length done"
  let ?start = "piece_start piece_length ?n" and ?stop = "piece_stop piece_length total_bytes ?n"
  let ?r = "skip_intervals intervals ?start (sc_interval st)"
  have start: "saturating_mul u64_max (sc_index st) piece_length = ?start"
    using f(1) within total_le by (simp add: saturating_mul_def piece_start_def)
  have stop: "min (saturating_add u64_max ?start piece_length) total_bytes = ?stop"
    using total_le by (simp add: saturating_add_def piece_stop_def piece_start_def min_def algebra_simps)
  have below: "\<forall>j < sc_interval st. snd (intervals ! j) \<le> ?start" using f(3) by (simp add: piece_start_def)
  note sk = skip_intervals_spec [OF f(2) below] and dec = skip_decides [OF chain f(2) below, of ?stop]
  have step: "piece_step piece_length total_bytes intervals state st =
    \<lparr> sc_index = ?n + 1, sc_interval = ?r,
      sc_safe = (sc_safe st \<and> \<not> (state \<noteq> 2 \<and> (\<exists>x \<in> set intervals. overlaps x ?start ?stop))),
      sc_present = (if state = 2 then saturating_add u64_max (sc_present st) (?stop - ?start) else sc_present st) \<rparr>"
    unfolding piece_step_def Let_def start stop using dec f(1) by auto
  have "sc_present st \<le> min (?n * piece_length) total_bytes"
    unfolding f(5) by (rule present_bound) (use within in simp)
  then have "sc_present st + (?stop - ?start) \<le> u64_max"
    using within total_le by (auto simp: piece_stop_def piece_start_def)
  then have sat: "saturating_add u64_max (sc_present st) (?stop - ?start) = sc_present st + (?stop - ?start)"
    by (simp add: saturating_add_def)
  have nth: "(done @ [state]) ! i = (if i < ?n then done ! i else state)" if "i < Suc ?n" for i
    using that by (auto simp: nth_append less_Suc_eq)
  have "(\<Sum>i < Suc ?n. if (done @ [state]) ! i = 2
        then piece_stop piece_length total_bytes i - piece_start piece_length i else 0)
      = sc_present st + (if state = 2 then ?stop - ?start else 0)"
    using f(5) by (simp add: nth_append)
  moreover have "(\<forall>i < Suc ?n. (done @ [state]) ! i \<noteq> 2 \<longrightarrow>
        \<not> (\<exists>x \<in> set intervals. overlaps x (piece_start piece_length i) (piece_stop piece_length total_bytes i)))
      \<longleftrightarrow> sc_safe st \<and> \<not> (state \<noteq> 2 \<and> (\<exists>x \<in> set intervals. overlaps x ?start ?stop))"
    unfolding f(4) by (auto simp: nth_append less_Suc_eq)
  moreover have "snd (intervals ! j) \<le> Suc ?n * piece_length" if "j < ?r" for j
    using sk(2) that by (fastforce simp: piece_start_def)
  ultimately show ?thesis unfolding step scan_inv_def using sk(1) sat by simp
qed


lemma visit_states_count:
  "visit_states limit emit states visited st = Inr (n, st') \<Longrightarrow> n = visited + length states \<and> (\<forall>x \<in> set states. x \<le> 2)"
  by (induction states arbitrary: visited st) (fastforce split: if_splits)+

lemma visit_states_inv:
  assumes "visit_states limit (piece_step piece_length total_bytes intervals) states visited st = Inr (n, st')"
    and "scan_inv piece_length total_bytes intervals done st"
    and "interval_chain 0 total_bytes intervals" "total_bytes \<le> u64_max" "0 < piece_length"
    and "length done + length states = div_ceil total_bytes piece_length"
  shows "scan_inv piece_length total_bytes intervals (done @ states) st'"
  using assms
proof (induction states arbitrary: visited st "done")
  case (Cons state states)
  have within: "length done * piece_length < total_bytes"
    by (rule div_ceil_lower [OF Cons.prems(5)]) (use Cons.prems(6) in simp)
  have run: "visit_states limit (piece_step piece_length total_bytes intervals) states (visited + 1)
      (piece_step piece_length total_bytes intervals state st) = Inr (n, st')"
    using Cons.prems(1) by (auto split: if_splits)
  have "length (done @ [state]) + length states = div_ceil total_bytes piece_length" using Cons.prems(6) by simp
  from Cons.IH [OF run piece_step_inv [OF Cons.prems(2,3,4) within] Cons.prems(3-5) this] show ?case by simp
qed simp

section \<open>From pieces to bytes\<close>

definition byte_states :: "nat \<Rightarrow> nat \<Rightarrow> (nat \<Rightarrow> bool) \<Rightarrow> nat set" where
  "byte_states piece_length limit P = {b. b < limit \<and> P (b div piece_length)}"

lemma byte_states_card:
  assumes "0 < piece_length"
  shows "(\<Sum>i < n. if P i then piece_stop piece_length total_bytes i - piece_start piece_length i else 0)
    = card (byte_states piece_length (min (n * piece_length) total_bytes) P)"
proof (induction n)
  case (Suc n)
  let ?start = "piece_start piece_length n" and ?stop = "piece_stop piece_length total_bytes n"
  have div: "b div piece_length = n \<longleftrightarrow> n * piece_length \<le> b \<and> b < Suc n * piece_length" for b
    using assms by (metis div_nat_eqI dividend_less_times_div div_mult_self_is_m div_times_less_eq_dividend
        mult.commute mult_Suc_right add.commute)
  have split: "byte_states piece_length (min (Suc n * piece_length) total_bytes) P
      = byte_states piece_length (min (n * piece_length) total_bytes) P \<union> (if P n then {?start..<?stop} else {})"
    (is "?l = ?a \<union> ?b")
  proof (intro set_eqI)
    fix b
    show "b \<in> ?l \<longleftrightarrow> b \<in> ?a \<union> ?b"
    proof (cases "n * piece_length \<le> b")
      case True
      then have "b < Suc n * piece_length \<Longrightarrow> b div piece_length = n" using div by blast
      then show ?thesis using True by (auto simp: byte_states_def piece_start_def piece_stop_def)
    next
      case False
      then have "b < Suc n * piece_length" by simp
      then show ?thesis using False by (auto simp: byte_states_def piece_start_def piece_stop_def)
    qed
  qed
  have fin: "finite ?a" "finite ?b" by (simp_all add: byte_states_def)
  have "?a \<inter> ?b = {}" by (auto simp: byte_states_def piece_start_def)
  then have "card ?l = card ?a + card ?b" unfolding split by (rule card_Un_disjoint [OF fin])
  then show ?case using Suc.IH by simp
qed (simp add: byte_states_def)

lemma overlap_byte:
  assumes "0 < piece_length" "a < b" "b \<le> total_bytes" "i * piece_length < total_bytes"
  shows "overlaps (a, b) (piece_start piece_length i) (piece_stop piece_length total_bytes i)
    \<longleftrightarrow> (\<exists>x. a \<le> x \<and> x < b \<and> x div piece_length = i)"
proof
  assume ov: "overlaps (a, b) (piece_start piece_length i) (piece_stop piece_length total_bytes i)"
  let ?x = "max a (i * piece_length)"
  have "i * piece_length \<le> ?x" "?x < Suc i * piece_length"
    using ov assms by (auto simp: overlaps_def piece_start_def piece_stop_def)
  then have "?x div piece_length = i" using assms(1)
    by (metis Suc_leI div_less_iff_less_mult le_antisym less_Suc_eq_le less_eq_div_iff_mult_less_eq)
  moreover have "a \<le> ?x" "?x < b" using ov assms by (auto simp: overlaps_def piece_start_def)
  ultimately show "\<exists>x. a \<le> x \<and> x < b \<and> x div piece_length = i" by blast
next
  assume "\<exists>x. a \<le> x \<and> x < b \<and> x div piece_length = i"
  then obtain x where x: "a \<le> x" "x < b" "x div piece_length = i" by blast
  have "i * piece_length \<le> x" using x(3) by auto
  moreover have "x < Suc i * piece_length"
    using x(3) assms(1) by (metis div_less_iff_less_mult lessI)
  ultimately show "overlaps (a, b) (piece_start piece_length i) (piece_stop piece_length total_bytes i)"
    using x assms(3) by (auto simp: overlaps_def piece_start_def piece_stop_def)
qed

lemma byte_in_piece:
  assumes "0 < piece_length" "b < total_bytes"
  shows "b div piece_length < div_ceil total_bytes piece_length"
proof -
  have "b < div_ceil total_bytes piece_length * piece_length"
    using div_ceil_upper [OF assms(1), of total_bytes] assms(2) by linarith
  then show ?thesis using assms(1) by (simp add: div_less_iff_less_mult)
qed

lemma safe_bytes_iff:
  assumes pl: "0 < piece_length" and chain: "interval_chain 0 total_bytes intervals"
    and len: "length states = div_ceil total_bytes piece_length"
  shows "(\<forall>i < length states. states ! i \<noteq> 2 \<longrightarrow>
      \<not> (\<exists>x \<in> set intervals. overlaps x (piece_start piece_length i) (piece_stop piece_length total_bytes i)))
    \<longleftrightarrow> (\<forall>(a, b) \<in> set intervals. \<forall>x. a \<le> x \<and> x < b \<longrightarrow> states ! (x div piece_length) = 2)"
proof -
  have iv: "a < b \<and> b \<le> total_bytes" if "(a, b) \<in> set intervals" for a b
    using interval_chain_nth [OF chain] that by (metis fst_conv in_set_conv_nth snd_conv)
  have piece: "i * piece_length < total_bytes" if "i < length states" for i
    by (rule div_ceil_lower [OF pl]) (use that len in simp)
  have ov: "overlaps (a, b) (piece_start piece_length i) (piece_stop piece_length total_bytes i)
      \<longleftrightarrow> (\<exists>x. a \<le> x \<and> x < b \<and> x div piece_length = i)" if "(a, b) \<in> set intervals" "i < length states" for a b i
    using overlap_byte [OF pl] iv [OF that(1)] piece [OF that(2)] by blast
  show ?thesis
  proof (intro iffI allI impI ballI)
    fix p assume safe: "\<forall>i < length states. states ! i \<noteq> 2 \<longrightarrow>
      \<not> (\<exists>x \<in> set intervals. overlaps x (piece_start piece_length i) (piece_stop piece_length total_bytes i))"
      and p: "p \<in> set intervals"
    obtain a b where ab: "p = (a, b)" by fastforce
    have "states ! (x div piece_length) = 2" if x: "a \<le> x" "x < b" for x
    proof -
      have "x < total_bytes" using x iv [of a b] p ab by auto
      then have i: "x div piece_length < length states" using byte_in_piece [OF pl] len by simp
      moreover have "overlaps (a, b) (piece_start piece_length (x div piece_length))
          (piece_stop piece_length total_bytes (x div piece_length))"
        using ov [of a b "x div piece_length"] p ab i x by blast
      ultimately show ?thesis using safe p ab by blast
    qed
    then show "case p of (a, b) \<Rightarrow> \<forall>x. a \<le> x \<and> x < b \<longrightarrow> states ! (x div piece_length) = 2"
      by (simp add: ab)
  next
    fix i assume all: "\<forall>(a, b) \<in> set intervals. \<forall>x. a \<le> x \<and> x < b \<longrightarrow> states ! (x div piece_length) = 2"
      and i: "i < length states" "states ! i \<noteq> 2"
    show "\<not> (\<exists>x \<in> set intervals. overlaps x (piece_start piece_length i) (piece_stop piece_length total_bytes i))"
    proof
      assume "\<exists>x \<in> set intervals. overlaps x (piece_start piece_length i) (piece_stop piece_length total_bytes i)"
      then obtain a b where "(a, b) \<in> set intervals"
        "overlaps (a, b) (piece_start piece_length i) (piece_stop piece_length total_bytes i)" by force
      then show False using ov [of a b i] all i by fastforce
    qed
  qed
qed


section \<open>Properties\<close>

definition layout_bytes :: "torrent_piece_file list \<Rightarrow> nat" where
  "layout_bytes ps = fold (\<lambda>p t. max t (tp_offset p + tp_size p)) ps 0"

lemma layout_intervals_total:
  "layout_intervals mapped ps total_bytes intervals = Inr (result, total_bytes') \<Longrightarrow>
     total_bytes' = fold (\<lambda>p t. max t (tp_offset p + tp_size p)) ps total_bytes"
proof (induction ps arbitrary: total_bytes intervals)
  case (Cons p ps)
  obtain new where "layout_intervals mapped ps (max total_bytes (tp_offset p + tp_size p)) new = Inr (result, total_bytes')"
    using Cons.prems by (auto split: if_splits)
  from Cons.IH [OF this] show ?case by simp
qed simp

lemma inspect_pieces_Inr:
  assumes "inspect_pieces manifest mapped states well_formed = Inr r" "tm_piece_length manifest = Some piece_length"
  obtains intervals total_bytes st where "0 < piece_length"
    "mapped_intervals manifest piece_length mapped = Inr (intervals, total_bytes)"
    "visit_states MAX_PIECES (piece_step piece_length total_bytes intervals) states 0
      \<lparr>sc_index = 0, sc_interval = 0, sc_safe = True, sc_present = 0\<rparr> = Inr (length states, st)"
    "length states = div_ceil total_bytes piece_length"
    "pi_integrity_safe r = sc_safe st" "pi_missing_bytes r = total_bytes - sc_present st"
    "pi_present_ratio_ppm r = (if total_bytes = 0 then 0
      else let ppm = sc_present st * 1000000 div total_bytes in if ppm \<le> u32_max then ppm else 1000000)"
proof -
  from assms obtain intervals total_bytes where i: "0 < piece_length"
    "mapped_intervals manifest piece_length mapped = Inr (intervals, total_bytes)"
    by (auto simp: inspect_pieces_def split: if_splits)
  from assms i obtain n st where v: "visit_states MAX_PIECES (piece_step piece_length total_bytes intervals) states 0
      \<lparr>sc_index = 0, sc_interval = 0, sc_safe = True, sc_present = 0\<rparr> = Inr (n, st)"
    and r: "n = div_ceil total_bytes piece_length"
    "r = \<lparr> pi_integrity_safe = sc_safe st, pi_missing_bytes = total_bytes - sc_present st,
        pi_present_ratio_ppm = (if total_bytes = 0 then 0
          else let ppm = sc_present st * 1000000 div total_bytes in if ppm \<le> u32_max then ppm else 1000000) \<rparr>"
    by (auto simp: inspect_pieces_def Let_def split: if_splits)
  have n: "n = length states" using visit_states_count [OF v] by simp
  show ?thesis by (rule that [OF i v [unfolded n] r(1) [unfolded n]]) (simp_all add: r(2))
qed

lemma initial_scan_inv:
  "scan_inv piece_length total_bytes intervals []
     \<lparr>sc_index = 0, sc_interval = 0, sc_safe = True, sc_present = 0\<rparr>"
  by (simp add: scan_inv_def)

text \<open>The scan of an ordered layout: its result in terms of pieces.\<close>

lemma inspect_pieces_ordered:
  assumes run: "inspect_pieces manifest mapped states well_formed = Inr r"
    and pl: "tm_piece_length manifest = Some piece_length"
    and ps: "tm_piece_files manifest \<noteq> []" "pieces_ordered 0 (tm_piece_files manifest)"
  obtains intervals st where "0 < piece_length" "interval_chain 0 (layout_bytes (tm_piece_files manifest)) intervals"
    "set intervals = {(tp_offset p, tp_offset p + tp_size p) | p.
       p \<in> set (tm_piece_files manifest) \<and> piece_mapped mapped p \<and> 0 < tp_size p}"
    "scan_inv piece_length (layout_bytes (tm_piece_files manifest)) intervals states st"
    "length states = div_ceil (layout_bytes (tm_piece_files manifest)) piece_length"
    "pi_integrity_safe r = sc_safe st" "pi_missing_bytes r = layout_bytes (tm_piece_files manifest) - sc_present st"
    "pi_present_ratio_ppm r = (if layout_bytes (tm_piece_files manifest) = 0 then 0
      else let ppm = sc_present st * 1000000 div layout_bytes (tm_piece_files manifest)
           in if ppm \<le> u32_max then ppm else 1000000)"
proof (rule inspect_pieces_Inr [OF run pl])
  fix intervals total_bytes st
  assume pos: "0 < piece_length"
    and iv: "mapped_intervals manifest piece_length mapped = Inr (intervals, total_bytes)"
    and v: "visit_states MAX_PIECES (piece_step piece_length total_bytes intervals) states 0
      \<lparr>sc_index = 0, sc_interval = 0, sc_safe = True, sc_present = 0\<rparr> = Inr (length states, st)"
    and len: "length states = div_ceil total_bytes piece_length"
    and rest: "pi_integrity_safe r = sc_safe st" "pi_missing_bytes r = total_bytes - sc_present st"
      "pi_present_ratio_ppm r = (if total_bytes = 0 then 0
      else let ppm = sc_present st * 1000000 div total_bytes in if ppm \<le> u32_max then ppm else 1000000)"
  let ?ps = "tm_piece_files manifest"
  have li: "layout_intervals mapped ?ps 0 [] = Inr (intervals, total_bytes)"
    using iv ps(1) by (simp add: mapped_intervals_def)
  have total: "total_bytes = layout_bytes ?ps" using layout_intervals_total [OF li] by (simp add: layout_bytes_def)
  have sp: "interval_chain 0 total_bytes intervals" "total_bytes \<le> u64_max"
    "set intervals = {(tp_offset p, tp_offset p + tp_size p) | p. p \<in> set ?ps \<and> piece_mapped mapped p \<and> 0 < tp_size p}"
    using layout_intervals_spec [OF li ps(2)] by simp_all
  have inv: "scan_inv piece_length total_bytes intervals states st"
    using visit_states_inv [OF v initial_scan_inv sp(1,2) pos] len by simp
  show thesis by (rule that [OF pos sp(1,3) [unfolded total] inv [unfolded total] len [unfolded total] rest [unfolded total]])
qed

lemma inspect_pieces_safe:
  assumes "inspect_pieces manifest mapped states well_formed = Inr r"
    and "tm_piece_length manifest = Some piece_length"
    and "tm_piece_files manifest \<noteq> []" "pieces_ordered 0 (tm_piece_files manifest)"
  shows "pi_integrity_safe r \<longleftrightarrow> (\<forall>p \<in> set (tm_piece_files manifest). piece_mapped mapped p \<longrightarrow>
      (\<forall>b. tp_offset p \<le> b \<and> b < tp_offset p + tp_size p \<longrightarrow> states ! (b div piece_length) = 2))"
proof (rule inspect_pieces_ordered [OF assms])
  fix intervals st
  assume pos: "0 < piece_length" and chain: "interval_chain 0 (layout_bytes (tm_piece_files manifest)) intervals"
    and set: "set intervals = {(tp_offset p, tp_offset p + tp_size p) | p.
       p \<in> set (tm_piece_files manifest) \<and> piece_mapped mapped p \<and> 0 < tp_size p}"
    and inv: "scan_inv piece_length (layout_bytes (tm_piece_files manifest)) intervals states st"
    and len: "length states = div_ceil (layout_bytes (tm_piece_files manifest)) piece_length"
    and safe: "pi_integrity_safe r = sc_safe st"
  have "sc_safe st \<longleftrightarrow> (\<forall>(a, b) \<in> set intervals. \<forall>x. a \<le> x \<and> x < b \<longrightarrow> states ! (x div piece_length) = 2)"
    unfolding scan_invD(4) [OF inv] by (rule safe_bytes_iff [OF pos chain len])
  also have "\<dots> \<longleftrightarrow> (\<forall>p \<in> set (tm_piece_files manifest). piece_mapped mapped p \<longrightarrow>
      (\<forall>b. tp_offset p \<le> b \<and> b < tp_offset p + tp_size p \<longrightarrow> states ! (b div piece_length) = 2))"
    unfolding set by fastforce
  finally show ?thesis unfolding safe .
qed

text \<open>
  C7: The piece inspection is exact on a layout whose entries are in order.  It
  reports the torrent as safe exactly when every byte of every mapped file lies in
  a piece that qBittorrent has verified (state 2), its missing bytes are the number
  of bytes in the other pieces, and the response has one state for each piece.
\<close>

theorem inspect_pieces_exact:
  assumes run: "inspect_pieces manifest mapped states well_formed = Inr r"
    and pl: "tm_piece_length manifest = Some piece_length"
    and ps: "tm_piece_files manifest \<noteq> []" "pieces_ordered 0 (tm_piece_files manifest)"
  shows "(pi_integrity_safe r \<longleftrightarrow> (\<forall>p \<in> set (tm_piece_files manifest). piece_mapped mapped p \<longrightarrow>
      (\<forall>b. tp_offset p \<le> b \<and> b < tp_offset p + tp_size p \<longrightarrow> states ! (b div piece_length) = 2))) \<and>
    length states = div_ceil (layout_bytes (tm_piece_files manifest)) piece_length \<and>
    pi_missing_bytes r = card {b. b < layout_bytes (tm_piece_files manifest) \<and> states ! (b div piece_length) \<noteq> 2} \<and>
    pi_present_ratio_ppm r \<le> 1000000"
proof (rule inspect_pieces_ordered [OF run pl ps])
  fix intervals st
  define total_bytes where "total_bytes = layout_bytes (tm_piece_files manifest)"
  let ?P = "\<lambda>i. states ! i = 2"
  assume pos: "0 < piece_length"
    and inv: "scan_inv piece_length (layout_bytes (tm_piece_files manifest)) intervals states st"
    and len: "length states = div_ceil (layout_bytes (tm_piece_files manifest)) piece_length"
    and missing: "pi_missing_bytes r = layout_bytes (tm_piece_files manifest) - sc_present st"
    and ratio: "pi_present_ratio_ppm r = (if layout_bytes (tm_piece_files manifest) = 0 then 0
      else let ppm = sc_present st * 1000000 div layout_bytes (tm_piece_files manifest)
           in if ppm \<le> u32_max then ppm else 1000000)"
  have "min (length states * piece_length) total_bytes = total_bytes"
    using div_ceil_upper [OF pos, of total_bytes] len by (simp add: total_bytes_def)
  then have present: "sc_present st = card (byte_states piece_length total_bytes ?P)"
    using byte_states_card [OF pos, of ?P total_bytes "length states"] scan_invD(5) [OF inv, folded total_bytes_def]
    by simp
  have "{..<total_bytes} = byte_states piece_length total_bytes ?P \<union> byte_states piece_length total_bytes (\<lambda>i. \<not> ?P i)"
    by (auto simp: byte_states_def)
  then have "card (byte_states piece_length total_bytes ?P) + card (byte_states piece_length total_bytes (\<lambda>i. \<not> ?P i))
      = card {..<total_bytes}"
    by (subst card_Un_disjoint [symmetric]) (auto simp: byte_states_def)
  then have miss: "pi_missing_bytes r = card (byte_states piece_length total_bytes (\<lambda>i. \<not> ?P i))"
    and le: "sc_present st \<le> total_bytes"
    using missing present by (simp_all add: total_bytes_def)
  have "sc_present st * 1000000 div total_bytes \<le> 1000000"
    using div_le_mono [of "sc_present st * 1000000" "total_bytes * 1000000" total_bytes] le by (cases "total_bytes = 0") auto
  then have "pi_present_ratio_ppm r \<le> 1000000" using ratio by (simp add: Let_def total_bytes_def)
  then show ?thesis using inspect_pieces_safe [OF run pl ps] len miss by (simp add: total_bytes_def byte_states_def)
qed

definition sample_manifest :: torrent_manifest where
  "sample_manifest = \<lparr>tm_hashes = \<lparr>ih_v1 = Some ''h'', ih_v2 = None\<rparr>,
     tm_files = [\<lparr>tf_ordinal = 0, tf_path = ''t/a'', tf_size = 5, tf_padding = False\<rparr>,
       \<lparr>tf_ordinal = 1, tf_path = ''t/b'', tf_size = 3, tf_padding = False\<rparr>],
     tm_piece_length = Some 4,
     tm_piece_files = [\<lparr>tp_file_ordinal = Some 0, tp_offset = 0, tp_size = 5\<rparr>,
       \<lparr>tp_file_ordinal = Some 1, tp_offset = 5, tp_size = 3\<rparr>]\<rparr>"

lemma sample_inspection:
  "inspect_pieces sample_manifest {0} [2, 1] True
     = Inr \<lparr>pi_integrity_safe = False, pi_missing_bytes = 4, pi_present_ratio_ppm = 500000\<rparr>"
  by (simp add: inspect_pieces_def sample_manifest_def mapped_intervals_def MAX_PIECES_def piece_step_def Let_def
      skip_intervals.simps checked_add_def saturating_mul_def saturating_add_def div_ceil_def)

theorem inspect_pieces_exact_witness:
  "inspect_pieces sample_manifest {0} [2, 1] True
     = Inr \<lparr>pi_integrity_safe = False, pi_missing_bytes = 4, pi_present_ratio_ppm = 500000\<rparr> \<and>
   pieces_ordered 0 (tm_piece_files sample_manifest) \<and>
   4 = card {b. b < layout_bytes (tm_piece_files sample_manifest) \<and> [2, 1] ! (b div 4) \<noteq> (2 :: nat)}"
proof -
  have o: "pieces_ordered 0 (tm_piece_files sample_manifest)" by (simp add: sample_manifest_def)
  have "tm_piece_length sample_manifest = Some 4" "tm_piece_files sample_manifest \<noteq> []"
    by (simp_all add: sample_manifest_def)
  from inspect_pieces_exact [OF sample_inspection this o] show ?thesis using sample_inspection o by simp
qed

text \<open>
  A resume decision is monotone in the data that is present: whatever policy
  allows starting a torrent still allows it with at most as many bytes missing and
  at least the present ratio.
\<close>

lemma resume_allowed_monotone:
  assumes "resume_allowed policy amount_left pieces" and "amount_left' \<le> amount_left"
    and "pi_missing_bytes pieces' \<le> pi_missing_bytes pieces"
    and "pi_present_ratio_ppm pieces \<le> pi_present_ratio_ppm pieces'"
  shows "resume_allowed policy amount_left' pieces'"
  using assms
  by (auto simp: resume_allowed_def Let_def split: resume_policy.splits threshold_combination.splits option.splits)

text \<open>
  A configuration never yields a threshold policy without a threshold, so the
  vacuous conjunction that would start every torrent cannot be configured: a
  threshold policy that comes from the configuration refuses an inspection with
  every byte missing, unless one of its limits admits exactly that.
\<close>

lemma configured_threshold_is_not_vacuous:
  assumes "parse_resume_policy config = Inr (Threshold max_missing_bytes min_present_ratio combine)"
    and "resume_allowed (Threshold max_missing_bytes min_present_ratio combine) amount_left pieces"
  shows "(\<exists>maximum. max_missing_bytes = Some maximum \<and> pi_missing_bytes pieces \<le> maximum) \<or>
    (\<exists>least. min_present_ratio = Some least \<and> least \<le> pi_present_ratio_ppm pieces)"
  using assms
  by (auto simp: parse_resume_policy_def resume_allowed_def Let_def
      split: if_splits option.splits threshold_combination.splits)

end
