(* ===== verification/Torrent.thy ===== *)
theory Torrent
  imports Domain_Model
begin

text \<open>
  Torrent metainfo: \<open>crates/sporos-service/src/torrent.rs\<close> and the construction of
  the candidate manifest in \<open>crates/sporos-service/src/candidate.rs\<close>.

  The bencode decoder and the metainfo parser are crates outside this repository;
  they are the arguments \<open>decode\<close> and \<open>parse_bytes\<close> of \<open>parse_torrent\<close>, and the
  types \<open>metainfo\<close>, \<open>file_list_v1\<close> and \<open>file_tree\<close> have the fields and
  constructors that the source reads.  \<^const>\<open>None\<close> as an outer result is a panic
  (division by a zero piece length, a metainfo without any version).
\<close>

section \<open>Limits and errors\<close>

definition MAX_TORRENT_BYTES :: nat where "MAX_TORRENT_BYTES = 8388608"
definition MAX_FILES :: nat where "MAX_FILES = 100000"
definition MAX_PATH_COMPONENTS :: nat where "MAX_PATH_COMPONENTS = 64"
definition MAX_COMPONENT_BYTES :: nat where "MAX_COMPONENT_BYTES = 255"
definition MAX_PATH_BYTES :: nat where "MAX_PATH_BYTES = 4096"
definition MAX_MANIFEST_PATH_BYTES :: nat where "MAX_MANIFEST_PATH_BYTES = 67108864"

datatype torrent_parse_error =
    LimitExceeded string
  | BencodeError
  | MetainfoError
  | UnsafePath
  | ConflictingPaths
  | InconsistentPieces
  | InconsistentHybrid

section \<open>Metainfo and parsed torrents\<close>

record v1_entry =
  ve_path :: "string list"
  ve_length :: nat

datatype file_list_v1 = Single nat | Multi "v1_entry list"

datatype file_tree = FileNode nat "string option" | DirNode "(string \<times> file_tree) list"

record metainfo_v1 =
  mv1_files :: file_list_v1
  mv1_pieces :: string

datatype torrent_info_hash = InfoHashV1 string | InfoHashV2 string | InfoHashHybrid string string

record metainfo =
  mi_name :: string
  mi_piece_length :: nat
  mi_v1 :: "metainfo_v1 option"
  mi_v2 :: "file_tree option"
  mi_info_hash :: torrent_info_hash
  mi_info_bytes :: string

datatype torrent_version = V1 | V2 | Hybrid

record parsed_file =
  pt_path :: "string list"
  pt_length :: nat
  pt_pieces_root :: "string option"

record piece_file =
  pf_file_ordinal :: "nat option"
  pf_offset :: nat
  pf_length :: nat

record file_view =
  fv_files :: "parsed_file list"
  fv_piece_files :: "piece_file list"

record parsed_torrent =
  px_version :: torrent_version
  px_name :: string
  px_info_bytes :: string
  px_piece_length :: nat
  px_v1_hash :: "string option"
  px_v2_hash :: "string option"
  px_v1_pieces :: "string option"
  px_files :: "parsed_file list"
  px_piece_files :: "piece_file list"

section \<open>Path validation\<close>

definition validate_component :: "string \<Rightarrow> (torrent_parse_error, unit) result" where
  "validate_component component =
     (if component = [] \<or> length component > MAX_COMPONENT_BYTES \<or> component = ''.'' \<or> component = ''..''
         \<or> CHR ''/'' \<in> set component \<or> CHR 0x00 \<in> set component
      then Inl UnsafePath else Inr ())"

fun add_component_bytes :: "string list \<Rightarrow> nat \<Rightarrow> (torrent_parse_error, nat) result" where
  "add_component_bytes [] path_bytes = Inr path_bytes"
| "add_component_bytes (component # rest) path_bytes =
     and_then (validate_component component) (\<lambda>_.
       and_then (ok_or (LimitExceeded ''path bytes'') (checked_add u64_max path_bytes (length component)))
         (add_component_bytes rest))"

fun validate_paths :: "parsed_file list \<Rightarrow> nat \<Rightarrow> (torrent_parse_error, unit) result" where
  "validate_paths [] manifest_path_bytes = Inr ()"
| "validate_paths (f # files) manifest_path_bytes =
     (if pt_path f = [] \<or> length (pt_path f) > MAX_PATH_COMPONENTS then Inl (LimitExceeded ''path components'')
      else and_then (add_component_bytes (pt_path f) (length (pt_path f) - 1)) (\<lambda>path_bytes.
        if path_bytes > MAX_PATH_BYTES then Inl (LimitExceeded ''path bytes'')
        else and_then (ok_or (LimitExceeded ''manifest path bytes'')
               (checked_add u64_max manifest_path_bytes path_bytes)) (\<lambda>total_bytes.
          if total_bytes > MAX_MANIFEST_PATH_BYTES then Inl (LimitExceeded ''manifest path bytes'')
          else validate_paths files total_bytes)))"

fun adjacent_conflict :: "'a list list \<Rightarrow> bool" where
  "adjacent_conflict (a # b # rest) = (prefix a b \<or> adjacent_conflict (b # rest))"
| "adjacent_conflict _ = False"

definition validate_files :: "parsed_file list \<Rightarrow> (torrent_parse_error, unit) result" where
  "validate_files files =
     (if files = [] \<or> length files > MAX_FILES then Inl (LimitExceeded ''file count'')
      else and_then (validate_paths files 0) (\<lambda>_.
        if adjacent_conflict (sort (map pt_path files)) then Inl ConflictingPaths else Inr ()))"

section \<open>Version 1 layout\<close>

definition raw_v1 :: "string \<Rightarrow> file_list_v1 \<Rightarrow> (string list \<times> nat \<times> bool) list" where
  "raw_v1 name layout =
     (case layout of
        Single n \<Rightarrow> [([name], n, False)]
      | Multi files \<Rightarrow> map (\<lambda>f. (name # ve_path f, ve_length f,
          (case ve_path f of [] \<Rightarrow> False | component # _ \<Rightarrow> component = ''.pad''))) files)"

definition plain_file :: "string list \<Rightarrow> nat \<Rightarrow> parsed_file" where
  "plain_file path n = \<lparr>pt_path = path, pt_length = n, pt_pieces_root = None\<rparr>"

fun v1_layout ::
  "(string list \<times> nat \<times> bool) list \<Rightarrow> parsed_file list \<Rightarrow> piece_file list \<Rightarrow> nat
    \<Rightarrow> (torrent_parse_error, file_view) result" where
  "v1_layout [] files piece_files offset = Inr \<lparr>fv_files = files, fv_piece_files = piece_files\<rparr>"
| "v1_layout ((path, n, padding) # raw) files piece_files offset =
     (if \<not> padding \<and> length files > u32_max then Inl (LimitExceeded ''file count'')
      else (let ordinal = (if padding then None else Some (length files));
                files' = (if padding then files else files @ [plain_file path n]);
                piece_files' = piece_files @ [\<lparr>pf_file_ordinal = ordinal, pf_offset = offset, pf_length = n\<rparr>]
            in and_then (ok_or InconsistentPieces (checked_add u64_max offset n))
                 (v1_layout raw files' piece_files')))"

definition v1_files :: "string \<Rightarrow> file_list_v1 \<Rightarrow> (torrent_parse_error, file_view) result" where
  "v1_files name layout =
     (let raw = raw_v1 name layout
      in and_then (validate_files (map (\<lambda>(path, n, _). plain_file path n) raw)) (\<lambda>_.
           v1_layout raw [] [] 0))"

section \<open>Version 2 layout\<close>

fun flatten_v2 :: "file_tree \<Rightarrow> string list \<Rightarrow> parsed_file list" where
  "flatten_v2 (FileNode n root) path = [\<lparr>pt_path = path, pt_length = n, pt_pieces_root = root\<rparr>]"
| "flatten_v2 (DirNode children) path =
     concat (map (\<lambda>(name, child). flatten_v2 child (path @ [name])) children)"

definition align_piece :: "nat \<Rightarrow> nat \<Rightarrow> (torrent_parse_error, nat) result" where
  "align_piece offset piece_length =
     (let remainder = offset mod piece_length
      in if remainder = 0 then Inr offset
         else ok_or InconsistentPieces (checked_add u64_max offset (piece_length - remainder)))"

fun v2_layout ::
  "nat \<Rightarrow> nat \<Rightarrow> parsed_file list \<Rightarrow> nat \<Rightarrow> piece_file list \<Rightarrow> (torrent_parse_error, piece_file list) result" where
  "v2_layout piece_length ordinal [] stop piece_files = Inr piece_files"
| "v2_layout piece_length ordinal (f # files) stop piece_files =
     and_then (align_piece stop piece_length) (\<lambda>offset.
       if ordinal > u32_max then Inl (LimitExceeded ''file count'')
       else and_then (ok_or InconsistentPieces (checked_add u64_max offset (pt_length f))) (\<lambda>stop'.
         v2_layout piece_length (ordinal + 1) files stop'
           (piece_files @ [\<lparr>pf_file_ordinal = Some ordinal, pf_offset = offset, pf_length = pt_length f\<rparr>])))"

definition root_paths :: "string \<Rightarrow> parsed_file list \<Rightarrow> parsed_file list" where
  "root_paths name files =
     (if length files = 1 \<and> length (pt_path (hd files)) = 1 then files
      else map (\<lambda>f. f\<lparr>pt_path := name # pt_path f\<rparr>) files)"

definition v2_files :: "string \<Rightarrow> nat \<Rightarrow> file_tree \<Rightarrow> (torrent_parse_error, file_view) result option" where
  "v2_files name piece_length tree =
     (let files = root_paths name (flatten_v2 tree [])
      in case validate_files files of
           Inl e \<Rightarrow> Some (Inl e)
         | Inr _ \<Rightarrow>
             if piece_length = 0 then None
             else Some (and_then (v2_layout piece_length 0 files 0 []) (\<lambda>piece_files.
               Inr \<lparr>fv_files = files, fv_piece_files = piece_files\<rparr>)))"

section \<open>The parser\<close>

definition hybrid_layout_matches :: "file_view \<Rightarrow> file_view \<Rightarrow> bool" where
  "hybrid_layout_matches v1 v2 \<longleftrightarrow>
     length (fv_files v1) = length (fv_files v2) \<and>
     list_all (\<lambda>(a, b). pt_path a = pt_path b \<and> pt_length a = pt_length b) (zip (fv_files v1) (fv_files v2)) \<and>
     filter (\<lambda>f. pf_file_ordinal f \<noteq> None) (fv_piece_files v1) = fv_piece_files v2"

definition total_length :: "file_view \<Rightarrow> nat" where
  "total_length view = (case fv_piece_files view of [] \<Rightarrow> 0
     | fs \<Rightarrow> saturating_add u64_max (pf_offset (last fs)) (pf_length (last fs)))"

text \<open>\<open>None\<close> stands for a panic, here and in \<open>parse_metainfo\<close>.\<close>

definition checked_v1 :: "metainfo \<Rightarrow> (torrent_parse_error, file_view option) result option" where
  "checked_v1 m =
     (case mi_v1 m of
        None \<Rightarrow> Some (Inr None)
      | Some v1 \<Rightarrow>
          (case v1_files (mi_name m) (mv1_files v1) of
             Inl e \<Rightarrow> Some (Inl e)
           | Inr view \<Rightarrow>
               if mi_piece_length m = 0 then None
               else if div_ceil (total_length view) (mi_piece_length m) \<noteq> length (mv1_pieces v1) div 20
               then Some (Inl InconsistentPieces)
               else Some (Inr (Some view))))"

definition checked_v2 :: "metainfo \<Rightarrow> (torrent_parse_error, file_view option) result option" where
  "checked_v2 m =
     (case mi_v2 m of
        None \<Rightarrow> Some (Inr None)
      | Some tree \<Rightarrow>
          (case v2_files (mi_name m) (mi_piece_length m) tree of
             None \<Rightarrow> None
           | Some (Inl e) \<Rightarrow> Some (Inl e)
           | Some (Inr view) \<Rightarrow> Some (Inr (Some view))))"

definition combine_views :: "file_view option \<Rightarrow> file_view option \<Rightarrow> (torrent_parse_error, file_view) result option" where
  "combine_views v1 v2 =
     (case (v1, v2) of
        (Some a, Some b) \<Rightarrow>
          if \<not> hybrid_layout_matches a b then Some (Inl InconsistentHybrid)
          else Some (Inr \<lparr>fv_files = fv_files b, fv_piece_files = fv_piece_files a\<rparr>)
      | (Some a, None) \<Rightarrow> Some (Inr a)
      | (None, Some b) \<Rightarrow> Some (Inr b)
      | (None, None) \<Rightarrow> None)"

definition version_of :: "metainfo \<Rightarrow> torrent_version" where
  "version_of m = (if mi_v2 m = None then V1 else if mi_v1 m = None then V2 else Hybrid)"

definition hashes_of :: "torrent_info_hash \<Rightarrow> string option \<times> string option" where
  "hashes_of h = (case h of InfoHashV1 v1 \<Rightarrow> (Some v1, None) | InfoHashV2 v2 \<Rightarrow> (None, Some v2)
     | InfoHashHybrid v1 v2 \<Rightarrow> (Some v1, Some v2))"

definition parse_metainfo :: "metainfo \<Rightarrow> (torrent_parse_error, parsed_torrent) result option" where
  "parse_metainfo m =
     (case validate_component (mi_name m) of
        Inl e \<Rightarrow> Some (Inl e)
      | Inr _ \<Rightarrow>
          (case checked_v1 m of
             None \<Rightarrow> None
           | Some (Inl e) \<Rightarrow> Some (Inl e)
           | Some (Inr v1) \<Rightarrow>
               (case checked_v2 m of
                  None \<Rightarrow> None
                | Some (Inl e) \<Rightarrow> Some (Inl e)
                | Some (Inr v2) \<Rightarrow>
                    (case combine_views v1 v2 of
                       None \<Rightarrow> None
                     | Some (Inl e) \<Rightarrow> Some (Inl e)
                     | Some (Inr view) \<Rightarrow> Some (Inr
                         \<lparr> px_version = version_of m, px_name = mi_name m,
                           px_info_bytes = mi_info_bytes m, px_piece_length = mi_piece_length m,
                           px_v1_hash = fst (hashes_of (mi_info_hash m)),
                           px_v2_hash = snd (hashes_of (mi_info_hash m)),
                           px_v1_pieces = map_option mv1_pieces (mi_v1 m),
                           px_files = fv_files view, px_piece_files = fv_piece_files view \<rparr>)))))"

definition parse_torrent ::
  "(string \<Rightarrow> bool) \<Rightarrow> (string \<Rightarrow> metainfo option) \<Rightarrow> string
    \<Rightarrow> (torrent_parse_error, parsed_torrent) result option" where
  "parse_torrent decode parse_bytes input =
     (if length input > MAX_TORRENT_BYTES then Some (Inl (LimitExceeded ''torrent bytes''))
      else if \<not> decode input then Some (Inl BencodeError)
      else case parse_bytes input of
             None \<Rightarrow> Some (Inl MetainfoError)
           | Some m \<Rightarrow> parse_metainfo m)"

section \<open>The candidate manifest\<close>

datatype candidate_error = TorrentTooLarge | TooManyFiles | InvalidUtf8Path | PathTooLong

record matching_limits =
  ml_max_torrent_bytes :: nat
  ml_max_files_per_torrent :: nat
  ml_max_path_bytes :: nat

definition continuation :: "char \<Rightarrow> bool" where
  "continuation c \<longleftrightarrow> 128 \<le> (of_char c :: nat) \<and> (of_char c :: nat) \<le> 191"

definition second_ok :: "nat \<Rightarrow> char \<Rightarrow> bool" where
  "second_ok a c =
     (if a = 224 then 160 \<le> (of_char c :: nat) \<and> (of_char c :: nat) \<le> 191
      else if a = 237 then 128 \<le> (of_char c :: nat) \<and> (of_char c :: nat) \<le> 159
      else if a = 240 then 144 \<le> (of_char c :: nat) \<and> (of_char c :: nat) \<le> 191
      else if a = 244 then 128 \<le> (of_char c :: nat) \<and> (of_char c :: nat) \<le> 143
      else continuation c)"

text \<open>\<open>std::str::from_utf8\<close>: the well-formed byte sequences of the Unicode standard.\<close>

function utf8_valid :: "string \<Rightarrow> bool" where
  "utf8_valid [] = True"
| "utf8_valid (b # bs) =
     (let a = (of_char b :: nat)
      in if a < 128 then utf8_valid bs
         else if a < 194 \<or> 244 < a then False
         else if length bs < utf8_len b - 1 then False
         else second_ok a (hd bs) \<and> list_all continuation (take (utf8_len b - 2) (tl bs))
              \<and> utf8_valid (drop (utf8_len b - 1) bs))"
  by pat_completeness auto
termination by (relation "measure length") auto

fun join_path :: "string list \<Rightarrow> string" where
  "join_path [] = []"
| "join_path [c] = c"
| "join_path (c # cs) = c @ ''/'' @ join_path cs"

fun manifest_files ::
  "matching_limits \<Rightarrow> nat \<Rightarrow> parsed_file list \<Rightarrow> torrent_file list \<Rightarrow> (candidate_error, torrent_file list) result" where
  "manifest_files limits ordinal [] files = Inr files"
| "manifest_files limits ordinal (f # rest) files =
     (if \<not> list_all utf8_valid (pt_path f) then Inl InvalidUtf8Path
      else if length (join_path (pt_path f)) > ml_max_path_bytes limits then Inl PathTooLong
      else if ordinal > u32_max then Inl TooManyFiles
      else manifest_files limits (ordinal + 1) rest
        (files @ [\<lparr> tf_ordinal = ordinal, tf_path = join_path (pt_path f), tf_size = pt_length f,
                    tf_padding = (''.pad'' \<in> set (pt_path f)) \<rparr>]))"

definition candidate_manifest ::
  "matching_limits \<Rightarrow> parsed_torrent \<Rightarrow> (candidate_error, torrent_manifest) result" where
  "candidate_manifest limits parsed =
     (if length (px_files parsed) > ml_max_files_per_torrent limits then Inl TooManyFiles
      else and_then (manifest_files limits 0 (px_files parsed) []) (\<lambda>files.
        Inr \<lparr> tm_hashes = \<lparr>ih_v1 = px_v1_hash parsed, ih_v2 = px_v2_hash parsed\<rparr>,
              tm_files = files, tm_piece_length = Some (px_piece_length parsed),
              tm_piece_files = map (\<lambda>f. \<lparr>tp_file_ordinal = pf_file_ordinal f, tp_offset = pf_offset f,
                tp_size = pf_length f\<rparr>) (px_piece_files parsed) \<rparr>))"


section \<open>Path validation is complete\<close>

lemma prefix_between:
  fixes a b c :: "'a::linorder list"
  assumes "a \<le> b" "b \<le> c" "prefix a c"
  shows "prefix a b"
  using assms
proof (induction a arbitrary: b c)
  case (Cons x a)
  obtain c' where c: "c = x # c'" "prefix a c'" using Cons.prems(3) by (cases c) auto
  obtain y b' where b: "b = y # b'" using Cons.prems(1) by (cases b) auto
  have "y = x" "a \<le> b'" "b' \<le> c'" using Cons.prems(1,2) b c by auto
  then show ?case using Cons.IH [of b' c'] b c by simp
qed simp

lemma prefix_imp_le: "prefix a b \<Longrightarrow> a \<le> (b :: 'a::linorder list)"
proof (induction a arbitrary: b)
  case (Cons x a)
  then show ?case by (cases b) auto
qed simp

lemma adjacent_conflict_iff:
  fixes xs :: "'a::linorder list list"
  assumes "sorted xs"
  shows "adjacent_conflict xs \<longleftrightarrow> (\<exists>i j. i < j \<and> j < length xs \<and> prefix (xs ! i) (xs ! j))"
  using assms
proof (induction xs rule: adjacent_conflict.induct)
  case (1 a b rest)
  let ?conf = "\<lambda>xs. \<exists>i j. i < j \<and> j < length xs \<and> prefix (xs ! i) (xs ! j)"
  have "?conf (a # b # rest) \<longleftrightarrow> (\<exists>j < length (b # rest). prefix a ((b # rest) ! j)) \<or> ?conf (b # rest)"
    (is "?l \<longleftrightarrow> ?r")
  proof
    assume ?l
    then obtain i j where ij: "i < j" "j < length (a # b # rest)" "prefix ((a # b # rest) ! i) ((a # b # rest) ! j)" by blast
    obtain j' where j': "j = Suc j'" using ij(1) by (cases j) auto
    show ?r
    proof (cases i)
      case 0
      then show ?thesis using ij j' by auto
    next
      case (Suc i')
      then have "i' < j'" "j' < length (b # rest)" "prefix ((b # rest) ! i') ((b # rest) ! j')"
        using ij j' by simp_all
      then show ?thesis by blast
    qed
  next
    assume ?r
    then consider j where "j < length (b # rest)" "prefix a ((b # rest) ! j)"
      | i j where "i < j" "j < length (b # rest)" "prefix ((b # rest) ! i) ((b # rest) ! j)" by blast
    then show ?l
    proof cases
      case (1 j)
      then show ?thesis by (intro exI [of _ 0] exI [of _ "Suc j"]) simp
    next
      case (2 i j)
      then show ?thesis by (intro exI [of _ "Suc i"] exI [of _ "Suc j"]) simp
    qed
  qed
  moreover have "(\<exists>j < length (b # rest). prefix a ((b # rest) ! j)) \<longleftrightarrow> prefix a b"
  proof
    assume "\<exists>j < length (b # rest). prefix a ((b # rest) ! j)"
    then obtain j where j: "j < length (b # rest)" "prefix a ((b # rest) ! j)" by blast
    have "b \<le> (b # rest) ! j" using "1.prems" nth_mem [OF j(1)] by auto
    then show "prefix a b" using prefix_between [of a b "(b # rest) ! j"] j(2) "1.prems" by simp
  qed (auto intro: exI [of _ 0])
  ultimately show ?case using "1.IH" "1.prems" by simp
qed auto

definition prefix_free :: "'a list list \<Rightarrow> bool" where
  "prefix_free paths \<longleftrightarrow> (\<forall>i < length paths. \<forall>j < length paths. i \<noteq> j \<longrightarrow> \<not> prefix (paths ! i) (paths ! j))"

definition conflict_free :: "'a list list \<Rightarrow> bool" where
  "conflict_free paths \<longleftrightarrow> distinct paths \<and> (\<forall>p \<in> set paths. \<forall>q \<in> set paths. p \<noteq> q \<longrightarrow> \<not> prefix p q)"

lemma prefix_free_iff: "prefix_free paths \<longleftrightarrow> conflict_free paths"
proof
  assume pf: "prefix_free paths"
  have "distinct paths" unfolding distinct_conv_nth using pf by (force simp: prefix_free_def)
  moreover have "\<not> prefix p q" if "p \<in> set paths" "q \<in> set paths" "p \<noteq> q" for p q
    using pf that unfolding prefix_free_def in_set_conv_nth by metis
  ultimately show "conflict_free paths" by (auto simp: conflict_free_def)
next
  assume "conflict_free paths"
  then show "prefix_free paths" unfolding prefix_free_def conflict_free_def
    by (metis nth_eq_iff_index_eq nth_mem)
qed

lemma conflict_free_sort: "conflict_free (sort paths) = conflict_free paths"
  by (simp add: conflict_free_def)

lemma adjacent_conflict_sort:
  fixes paths :: "'a::linorder list list"
  shows "adjacent_conflict (sort paths) \<longleftrightarrow> \<not> prefix_free paths"
proof -
  let ?s = "sort paths"
  have "\<not> prefix_free ?s \<longleftrightarrow> (\<exists>i j. i < j \<and> j < length ?s \<and> prefix (?s ! i) (?s ! j))"
  proof
    assume "\<not> prefix_free ?s"
    then obtain i j where ij: "i < length ?s" "j < length ?s" "i \<noteq> j" "prefix (?s ! i) (?s ! j)"
      unfolding prefix_free_def by blast
    show "\<exists>i j. i < j \<and> j < length ?s \<and> prefix (?s ! i) (?s ! j)"
    proof (cases "i < j")
      case False
      then have "?s ! j \<le> ?s ! i" using ij sorted_nth_mono [OF sorted_sort, of j i paths] by simp
      moreover have "?s ! i \<le> ?s ! j" using ij(4) by (simp add: prefix_imp_le)
      ultimately have "?s ! j = ?s ! i" by simp
      then show ?thesis using ij False by (intro exI [of _ j] exI [of _ i]) simp
    qed (use ij in blast)
  next
    assume "\<exists>i j. i < j \<and> j < length ?s \<and> prefix (?s ! i) (?s ! j)"
    then obtain i j where "i < length ?s" "j < length ?s" "i \<noteq> j" "prefix (?s ! i) (?s ! j)"
      by (metis less_trans nat_neq_iff)
    then show "\<not> prefix_free ?s" unfolding prefix_free_def by blast
  qed
  then show ?thesis
    using adjacent_conflict_iff [OF sorted_sort, of paths] by (simp add: prefix_free_iff conflict_free_sort)
qed

definition component_ok :: "string \<Rightarrow> bool" where
  "component_ok c \<longleftrightarrow> c \<noteq> [] \<and> length c \<le> MAX_COMPONENT_BYTES \<and> c \<noteq> ''.'' \<and> c \<noteq> ''..'' \<and>
     CHR ''/'' \<notin> set c \<and> CHR 0x00 \<notin> set c"

definition path_bytes :: "string list \<Rightarrow> nat" where
  "path_bytes path = length path - 1 + sum_list (map length path)"

definition path_ok :: "string list \<Rightarrow> bool" where
  "path_ok path \<longleftrightarrow> path \<noteq> [] \<and> length path \<le> MAX_PATH_COMPONENTS \<and>
     (\<forall>c \<in> set path. component_ok c) \<and> path_bytes path \<le> MAX_PATH_BYTES"

lemma validate_component_iff: "validate_component c = Inr x \<longleftrightarrow> component_ok c"
  by (auto simp: validate_component_def component_ok_def)

lemma add_component_bytes_iff:
  "add_component_bytes cs k = Inr n \<longleftrightarrow>
     (\<forall>c \<in> set cs. component_ok c) \<and> n = k + sum_list (map length cs) \<and> (cs = [] \<or> n \<le> u64_max)"
proof (induction cs arbitrary: k)
  case (Cons c cs)
  have "add_component_bytes (c # cs) k = Inr n \<longleftrightarrow>
      component_ok c \<and> k + length c \<le> u64_max \<and> add_component_bytes cs (k + length c) = Inr n"
    by (auto simp: validate_component_iff)
  also have "\<dots> \<longleftrightarrow> (\<forall>c \<in> set (c # cs). component_ok c) \<and> n = k + sum_list (map length (c # cs)) \<and> n \<le> u64_max"
    unfolding Cons.IH by auto
  finally show ?case by blast
qed auto

lemma validate_paths_iff:
  "validate_paths files k = Inr () \<longleftrightarrow>
     (\<forall>f \<in> set files. path_ok (pt_path f)) \<and>
     (files = [] \<or> k + (\<Sum>f \<leftarrow> files. path_bytes (pt_path f)) \<le> MAX_MANIFEST_PATH_BYTES)"
proof (induction files arbitrary: k)
  case (Cons f files)
  let ?p = "pt_path f"
  have limits: "MAX_PATH_BYTES \<le> u64_max" "MAX_MANIFEST_PATH_BYTES \<le> u64_max"
    by (simp_all add: MAX_PATH_BYTES_def MAX_MANIFEST_PATH_BYTES_def)
  have "validate_paths (f # files) k = Inr () \<longleftrightarrow> path_ok ?p \<and>
      k + path_bytes ?p \<le> MAX_MANIFEST_PATH_BYTES \<and> validate_paths files (k + path_bytes ?p) = Inr ()"
  proof (cases "?p = [] \<or> length ?p > MAX_PATH_COMPONENTS")
    case False
    then show ?thesis using limits
      by (auto simp: add_component_bytes_iff path_ok_def path_bytes_def simp del: One_nat_def)
  qed (auto simp: path_ok_def)
  then show ?case unfolding Cons.IH by auto
qed simp


section \<open>Layouts\<close>

fun contiguous :: "nat \<Rightarrow> piece_file list \<Rightarrow> bool" where
  "contiguous offset [] = True"
| "contiguous offset (p # ps) = (pf_offset p = offset \<and> contiguous (offset + pf_length p) ps)"

fun aligned :: "nat \<Rightarrow> nat \<Rightarrow> piece_file list \<Rightarrow> bool" where
  "aligned piece_length stop [] = True"
| "aligned piece_length stop (p # ps) =
     (pf_offset p mod piece_length = 0 \<and> stop \<le> pf_offset p \<and> pf_offset p < stop + piece_length \<and>
      aligned piece_length (pf_offset p + pf_length p) ps)"

text \<open>The entries are in order, do not overlap, and end at or below the largest \<open>u64\<close>.\<close>

fun ordered_layout :: "nat \<Rightarrow> piece_file list \<Rightarrow> bool" where
  "ordered_layout stop [] = (stop \<le> u64_max)"
| "ordered_layout stop (p # ps) = (stop \<le> pf_offset p \<and> ordered_layout (pf_offset p + pf_length p) ps)"

definition file_entries :: "piece_file list \<Rightarrow> (nat option \<times> nat) list" where
  "file_entries ps = map (\<lambda>p. (pf_file_ordinal p, pf_length p)) (filter (\<lambda>p. pf_file_ordinal p \<noteq> None) ps)"

definition numbered :: "nat \<Rightarrow> parsed_file list \<Rightarrow> (nat option \<times> nat) list" where
  "numbered k fs = map (\<lambda>(i, f). (Some i, pt_length f)) (enumerate k fs)"

lemma file_entries_simps [simp]:
  "file_entries [] = []"
  "file_entries (p # ps) =
     (case pf_file_ordinal p of None \<Rightarrow> file_entries ps | Some i \<Rightarrow> (Some i, pf_length p) # file_entries ps)"
  by (simp_all add: file_entries_def split: option.split)

lemma numbered_simps [simp]:
  "numbered k [] = []" "numbered k (f # fs) = (Some k, pt_length f) # numbered (Suc k) fs"
  by (simp_all add: numbered_def)

definition kept_files :: "(string list \<times> nat \<times> bool) list \<Rightarrow> parsed_file list" where
  "kept_files raw = map (\<lambda>(path, n, _). plain_file path n) (filter (\<lambda>(_, _, padding). \<not> padding) raw)"

lemma v1_layout_spec:
  assumes "v1_layout raw files pfs offset = Inr view" "offset \<le> u64_max"
  shows "\<exists>ps. fv_files view = files @ kept_files raw \<and> fv_piece_files view = pfs @ ps \<and>
    contiguous offset ps \<and> ordered_layout offset ps \<and> map pf_length ps = map (fst \<circ> snd) raw \<and>
    file_entries ps = numbered (length files) (kept_files raw)"
  using assms
proof (induction raw arbitrary: files pfs offset)
  case (Cons r raw)
  obtain path n padding where r: "r = (path, n, padding)" by (metis prod.exhaust)
  let ?files = "if padding then files else files @ [plain_file path n]"
  let ?p = "\<lparr>pf_file_ordinal = (if padding then None else Some (length files)), pf_offset = offset, pf_length = n\<rparr>"
  have run: "v1_layout raw ?files (pfs @ [?p]) (offset + n) = Inr view" and le: "offset + n \<le> u64_max"
    using Cons.prems(1) unfolding r by (auto simp: Let_def split: if_splits)
  from Cons.IH [OF run le] obtain ps where
    ps: "fv_files view = ?files @ kept_files raw" "fv_piece_files view = (pfs @ [?p]) @ ps"
      "contiguous (offset + n) ps" "ordered_layout (offset + n) ps" "map pf_length ps = map (fst \<circ> snd) raw"
      "file_entries ps = numbered (length ?files) (kept_files raw)" by blast
  show ?case unfolding r
    using ps by (intro exI [of _ "?p # ps"]) (auto simp: kept_files_def plain_file_def)
qed (auto simp: kept_files_def)

lemma align_piece_spec:
  assumes "align_piece stop piece_length = Inr offset" "0 < piece_length" "stop \<le> u64_max"
  shows "offset mod piece_length = 0 \<and> stop \<le> offset \<and> offset < stop + piece_length \<and> offset \<le> u64_max"
proof (cases "stop mod piece_length = 0")
  case False
  then have offset: "offset = stop + (piece_length - stop mod piece_length)" "offset \<le> u64_max"
    using assms(1) by (simp_all add: align_piece_def Let_def)
  have lt: "stop mod piece_length < piece_length" using assms(2) by simp
  have "stop = stop div piece_length * piece_length + stop mod piece_length" by simp
  then have "offset = stop div piece_length * piece_length + piece_length" using offset(1) lt by linarith
  then have "offset mod piece_length = 0" by simp
  then show ?thesis using offset lt False by auto
qed (use assms in \<open>auto simp: align_piece_def\<close>)

lemma v2_layout_spec:
  assumes "v2_layout piece_length k files stop pfs = Inr pfs'" "0 < piece_length" "stop \<le> u64_max"
  shows "\<exists>ps. pfs' = pfs @ ps \<and> aligned piece_length stop ps \<and> ordered_layout stop ps \<and>
    (\<forall>p \<in> set ps. pf_file_ordinal p \<noteq> None) \<and> file_entries ps = numbered k files"
  using assms
proof (induction files arbitrary: k stop pfs)
  case (Cons f files)
  from Cons.prems(1) obtain offset where o: "align_piece stop piece_length = Inr offset"
    and le: "offset + pt_length f \<le> u64_max"
    and run: "v2_layout piece_length (k + 1) files (offset + pt_length f)
      (pfs @ [\<lparr>pf_file_ordinal = Some k, pf_offset = offset, pf_length = pt_length f\<rparr>]) = Inr pfs'"
    by (auto split: if_splits)
  from Cons.IH [OF run Cons.prems(2) le] obtain ps where
    "pfs' = (pfs @ [\<lparr>pf_file_ordinal = Some k, pf_offset = offset, pf_length = pt_length f\<rparr>]) @ ps"
    "aligned piece_length (offset + pt_length f) ps" "ordered_layout (offset + pt_length f) ps"
    "\<forall>p \<in> set ps. pf_file_ordinal p \<noteq> None" "file_entries ps = numbered (k + 1) files" by blast
  then show ?case using align_piece_spec [OF o Cons.prems(2,3)]
    by (intro exI [of _ "\<lparr>pf_file_ordinal = Some k, pf_offset = offset, pf_length = pt_length f\<rparr> # ps"]) auto
qed simp

lemma ordered_layout_sum:
  "ordered_layout stop ps \<Longrightarrow> stop + sum_list (map pf_length ps) \<le> u64_max"
proof (induction ps arbitrary: stop)
  case (Cons p ps)
  then have "pf_offset p + pf_length p + sum_list (map pf_length ps) \<le> u64_max" by simp
  then show ?case using Cons.prems by simp
qed simp

lemma ordered_layout_nth:
  assumes "ordered_layout stop ps" "i < j" "j < length ps"
  shows "pf_offset (ps ! i) + pf_length (ps ! i) \<le> pf_offset (ps ! j)"
  using assms
proof (induction ps arbitrary: stop i j)
  case (Cons p ps)
  obtain j' where j: "j = Suc j'" using Cons.prems(2) by (cases j) auto
  show ?case
  proof (cases i)
    case (Suc i')
    then show ?thesis using Cons.IH [of "pf_offset p + pf_length p" i' j'] Cons.prems j by simp
  next
    case 0
    have "stop' \<le> pf_offset (qs ! m)" if "ordered_layout stop' qs" "m < length qs" for stop' qs m
      using that by (induction qs arbitrary: stop' m) (force simp: nth_Cons split: nat.splits)+
    then show ?thesis using 0 j Cons.prems by simp
  qed
qed simp

lemma v1_files_spec:
  assumes "v1_files name layout = Inr view"
  shows "validate_files (map (\<lambda>(path, n, _). plain_file path n) (raw_v1 name layout)) = Inr ()"
    "contiguous 0 (fv_piece_files view)" "ordered_layout 0 (fv_piece_files view)"
    "fv_files view = kept_files (raw_v1 name layout)"
    "map pf_length (fv_piece_files view) = map (fst \<circ> snd) (raw_v1 name layout)"
    "file_entries (fv_piece_files view) = numbered 0 (fv_files view)"
proof -
  show "validate_files (map (\<lambda>(path, n, _). plain_file path n) (raw_v1 name layout)) = Inr ()"
    using assms by (simp add: v1_files_def Let_def)
  have run: "v1_layout (raw_v1 name layout) [] [] 0 = Inr view" using assms by (simp add: v1_files_def Let_def)
  from v1_layout_spec [OF this] show "contiguous 0 (fv_piece_files view)" "ordered_layout 0 (fv_piece_files view)"
    "fv_files view = kept_files (raw_v1 name layout)"
    "map pf_length (fv_piece_files view) = map (fst \<circ> snd) (raw_v1 name layout)"
    "file_entries (fv_piece_files view) = numbered 0 (fv_files view)" by auto
qed

lemma v2_files_spec:
  assumes "v2_files name piece_length tree = Some (Inr view)"
  shows "0 < piece_length" "validate_files (fv_files view) = Inr ()"
    "fv_files view = root_paths name (flatten_v2 tree [])"
    "aligned piece_length 0 (fv_piece_files view)" "ordered_layout 0 (fv_piece_files view)"
    "file_entries (fv_piece_files view) = numbered 0 (fv_files view)"
proof -
  let ?files = "root_paths name (flatten_v2 tree [])"
  show pl: "0 < piece_length" and ok: "validate_files (fv_files view) = Inr ()" and files: "fv_files view = ?files"
    using assms by (auto simp: v2_files_def Let_def split: sum.splits if_splits)
  have run: "v2_layout piece_length 0 ?files 0 [] = Inr (fv_piece_files view)"
    using assms by (auto simp: v2_files_def Let_def split: sum.splits if_splits)
  from v2_layout_spec [OF run pl] show "aligned piece_length 0 (fv_piece_files view)"
    "ordered_layout 0 (fv_piece_files view)" "file_entries (fv_piece_files view) = numbered 0 (fv_files view)"
    using files by auto
qed

lemma file_entries_sum: "sum_list (map snd (file_entries ps)) \<le> sum_list (map pf_length ps)"
  by (induction ps) (auto split: option.split)

lemma numbered_sum: "map snd (numbered k fs) = map pt_length fs"
  by (induction fs arbitrary: k) simp_all

lemma numbered_cong: "map pt_length xs = map pt_length ys \<Longrightarrow> numbered k xs = numbered k ys"
proof (induction xs arbitrary: k ys)
  case (Cons x xs)
  obtain y ys' where y: "ys = y # ys'" "pt_length x = pt_length y" "map pt_length xs = map pt_length ys'"
    using Cons.prems by (cases ys) auto
  show ?case using Cons.IH [OF y(3), of "Suc k"] y(1,2) by simp
qed simp

definition layout_ok :: "nat \<Rightarrow> parsed_file list \<Rightarrow> piece_file list \<Rightarrow> bool" where
  "layout_ok piece_length files ps \<longleftrightarrow> 0 < piece_length \<and> ordered_layout 0 ps \<and>
     file_entries ps = numbered 0 files"

lemma hybrid_entries:
  assumes "hybrid_layout_matches a b" "file_entries (fv_piece_files a) = numbered 0 (fv_files a)"
  shows "file_entries (fv_piece_files a) = numbered 0 (fv_files b)"
proof -
  have "map pt_length xs = map pt_length ys"
    if "length xs = length ys" "list_all (\<lambda>(a, b). pt_path a = pt_path b \<and> pt_length a = pt_length b) (zip xs ys)"
    for xs ys using that by (induction xs ys rule: list_induct2) auto
  then have len: "map pt_length (fv_files a) = map pt_length (fv_files b)" "length (fv_files a) = length (fv_files b)"
    using assms(1) unfolding hybrid_layout_matches_def by blast+
  show ?thesis using assms(2) numbered_cong [OF len(1), of 0] by simp
qed

lemma parse_metainfo_layout_ok:
  assumes "parse_metainfo m = Some (Inr t)"
  shows "layout_ok (px_piece_length t) (px_files t) (px_piece_files t)"
proof -
  from assms obtain v1 v2 view where v: "checked_v1 m = Some (Inr v1)" "checked_v2 m = Some (Inr v2)"
    "combine_views v1 v2 = Some (Inr view)"
    and t: "px_piece_length t = mi_piece_length m" "px_files t = fv_files view" "px_piece_files t = fv_piece_files view"
    by (auto simp: parse_metainfo_def split: sum.splits option.splits)
  have one: "layout_ok (mi_piece_length m) (fv_files a) (fv_piece_files a)" if "v1 = Some a" for a
    using v(1) that v1_files_spec(3,6)
    by (auto simp: checked_v1_def layout_ok_def split: option.splits sum.splits if_splits)
  have two: "layout_ok (mi_piece_length m) (fv_files b) (fv_piece_files b)" if "v2 = Some b" for b
    using v(2) that v2_files_spec(1,5,6)
    by (auto simp: checked_v2_def layout_ok_def split: option.splits sum.splits if_splits)
  show ?thesis
  proof (cases v1)
    case None
    then show ?thesis using v(3) t two by (auto simp: combine_views_def split: option.splits)
  next
    case (Some a)
    show ?thesis
    proof (cases v2)
      case None
      then show ?thesis using v(3) t one Some by (simp add: combine_views_def)
    next
      case b: (Some b)
      then have "hybrid_layout_matches a b" and view: "fv_files view = fv_files b" "fv_piece_files view = fv_piece_files a"
        using v(3) Some by (auto simp: combine_views_def split: if_splits)
      then show ?thesis using one [OF Some] hybrid_entries [of a b] t by (simp add: layout_ok_def)
    qed
  qed
qed

lemma layout_ok_sizes:
  assumes "layout_ok piece_length files ps"
  shows "sum_list (map pt_length files) \<le> u64_max"
proof -
  have "sum_list (map pt_length files) = sum_list (map snd (file_entries ps))"
    using assms by (simp add: layout_ok_def numbered_sum)
  also have "\<dots> \<le> sum_list (map pf_length ps)" by (rule file_entries_sum)
  also have "\<dots> \<le> u64_max" using ordered_layout_sum [of 0 ps] assms by (simp add: layout_ok_def)
  finally show ?thesis .
qed


section \<open>Paths of parsed torrents and their manifests\<close>

lemma validate_files_iff_ok:
  "validate_files files = Inr () \<longleftrightarrow> files \<noteq> [] \<and> length files \<le> MAX_FILES \<and>
     (\<forall>f \<in> set files. path_ok (pt_path f)) \<and>
     (\<Sum>f \<leftarrow> files. path_bytes (pt_path f)) \<le> MAX_MANIFEST_PATH_BYTES \<and>
     prefix_free (map pt_path files)"
proof (cases "files = [] \<or> length files > MAX_FILES")
  case False
  have "validate_files files = Inr () \<longleftrightarrow> validate_paths files 0 = Inr () \<and> prefix_free (map pt_path files)"
    using False by (auto simp: validate_files_def adjacent_conflict_sort)
  then show ?thesis using False validate_paths_iff [of files 0] by auto
qed (auto simp: validate_files_def)

definition paths_ok :: "parsed_file list \<Rightarrow> bool" where
  "paths_ok files \<longleftrightarrow> (\<forall>f \<in> set files. path_ok (pt_path f)) \<and> conflict_free (map pt_path files)"

lemma paths_ok_filter:
  assumes "paths_ok files"
  shows "paths_ok (filter p files)"
  using assms unfolding paths_ok_def conflict_free_def by (auto intro: distinct_map_filter)

lemma validate_files_paths_ok: "validate_files files = Inr () \<Longrightarrow> paths_ok files"
  by (simp add: validate_files_iff_ok paths_ok_def prefix_free_iff)

lemma v1_files_paths_ok:
  assumes "v1_files name layout = Inr view"
  shows "paths_ok (fv_files view)"
proof -
  let ?raw = "raw_v1 name layout"
  have ok: "paths_ok (map (\<lambda>(path, n, _). plain_file path n) ?raw)"
    by (rule validate_files_paths_ok [OF v1_files_spec(1) [OF assms]])
  have "paths_ok (map (\<lambda>(path, n, _). plain_file path n) (filter q xs))"
    if "paths_ok (map (\<lambda>(path, n, _). plain_file path n) xs)" for q and xs :: "(string list \<times> nat \<times> bool) list"
  proof -
    have "distinct (map pt_path (map (\<lambda>(path, n, _). plain_file path n) xs))"
      using that by (simp add: paths_ok_def conflict_free_def)
    then have "distinct (map pt_path (map (\<lambda>(path, n, _). plain_file path n) (filter q xs)))"
      unfolding map_map by (rule distinct_map_filter)
    then show ?thesis using that unfolding paths_ok_def conflict_free_def by auto
  qed
  from this [OF ok] show ?thesis by (simp add: v1_files_spec(4) [OF assms] kept_files_def)
qed

lemma parse_metainfo_paths_ok:
  assumes "parse_metainfo m = Some (Inr t)"
  shows "paths_ok (px_files t)"
proof -
  from assms obtain v1 v2 view where v: "checked_v1 m = Some (Inr v1)" "checked_v2 m = Some (Inr v2)"
    "combine_views v1 v2 = Some (Inr view)" and t: "px_files t = fv_files view"
    by (auto simp: parse_metainfo_def split: sum.splits option.splits)
  have one: "paths_ok (fv_files a)" if "v1 = Some a" for a
    using v(1) that v1_files_paths_ok by (auto simp: checked_v1_def split: option.splits sum.splits if_splits)
  have two: "paths_ok (fv_files b)" if "v2 = Some b" for b
    using v(2) that validate_files_paths_ok v2_files_spec(2)
    by (fastforce simp: checked_v2_def split: option.splits sum.splits)
  show ?thesis using v(3) t one two
    by (cases v1; cases v2) (auto simp: combine_views_def split: if_splits)
qed

lemma split_char_append: "split_char c (a @ c # b) = split_char c a @ split_char c b"
  by (induction a) (auto split: list.split)

lemma split_char_plain: "c \<notin> set a \<Longrightarrow> split_char c a = [a]"
  by (induction a) auto

lemma split_join_path:
  "path \<noteq> [] \<Longrightarrow> \<forall>c \<in> set path. CHR ''/'' \<notin> set c \<Longrightarrow> split_char CHR ''/'' (join_path path) = path"
  by (induction path rule: join_path.induct) (simp_all add: split_char_plain split_char_append)

lemma path_ok_split: "path_ok path \<Longrightarrow> split_char CHR ''/'' (join_path path) = path"
  by (rule split_join_path) (auto simp: path_ok_def component_ok_def)

lemma join_path_inj:
  "path_ok p \<Longrightarrow> path_ok q \<Longrightarrow> join_path p = join_path q \<Longrightarrow> p = q"
  by (metis path_ok_split)

lemma join_path_prefix:
  assumes "path_ok p" "path_ok q" "prefix (join_path p @ ''/'') (join_path q)"
  shows "prefix p q \<and> p \<noteq> q"
proof -
  from assms(3) obtain rest where "join_path q = join_path p @ CHR ''/'' # rest" by (auto simp: prefix_def)
  then have "q = p @ split_char CHR ''/'' rest"
    using path_ok_split [OF assms(1)] path_ok_split [OF assms(2)] split_char_append by metis
  then show ?thesis by simp
qed

definition manifest_file :: "nat \<Rightarrow> parsed_file \<Rightarrow> torrent_file" where
  "manifest_file i f = \<lparr> tf_ordinal = i, tf_path = join_path (pt_path f), tf_size = pt_length f,
     tf_padding = (''.pad'' \<in> set (pt_path f)) \<rparr>"

lemma manifest_files_spec:
  "manifest_files limits k fs acc = Inr files \<Longrightarrow>
     files = acc @ map (\<lambda>(i, f). manifest_file i f) (enumerate k fs) \<and>
     (\<forall>f \<in> set fs. length (join_path (pt_path f)) \<le> ml_max_path_bytes limits)"
proof (induction fs arbitrary: k acc)
  case (Cons f fs)
  then have "manifest_files limits (Suc k) fs (acc @ [manifest_file k f]) = Inr files"
    and "length (join_path (pt_path f)) \<le> ml_max_path_bytes limits"
    by (auto simp: manifest_file_def split: if_splits)
  then show ?case using Cons.IH [of "Suc k" "acc @ [manifest_file k f]"] by auto
qed simp

lemma candidate_manifest_spec:
  assumes "candidate_manifest limits t = Inr manifest"
  shows "tm_files manifest = map (\<lambda>(i, f). manifest_file i f) (enumerate 0 (px_files t))"
    "tm_piece_length manifest = Some (px_piece_length t)"
    "map tp_offset (tm_piece_files manifest) = map pf_offset (px_piece_files t)"
    "map tp_size (tm_piece_files manifest) = map pf_length (px_piece_files t)"
    "map tp_file_ordinal (tm_piece_files manifest) = map pf_file_ordinal (px_piece_files t)"
    "length (px_files t) \<le> ml_max_files_per_torrent limits"
  using assms manifest_files_spec [of limits 0 "px_files t" "[]"]
  by (auto simp: candidate_manifest_def comp_def split: if_splits)

section \<open>Properties\<close>

text \<open>
  C30: \<open>validate_files\<close> accepts a file list exactly when its counts and byte
  limits hold, every path component is safe, and no path is a prefix of another:
  comparing neighbours after sorting finds every conflict.
\<close>

theorem validate_files_iff:
  "validate_files files = Inr () \<longleftrightarrow> files \<noteq> [] \<and> length files \<le> MAX_FILES \<and>
     (\<forall>f \<in> set files. path_ok (pt_path f)) \<and>
     (\<Sum>f \<leftarrow> files. path_bytes (pt_path f)) \<le> MAX_MANIFEST_PATH_BYTES \<and>
     (\<forall>i < length files. \<forall>j < length files. i \<noteq> j \<longrightarrow> \<not> prefix (pt_path (files ! i)) (pt_path (files ! j)))"
  using validate_files_iff_ok [of files] by (simp add: prefix_free_def)

theorem validate_files_iff_witness:
  "validate_files [plain_file [''b'', ''y''] 3, plain_file [''a''] 2] = Inr ()"
  by (rule validate_files_iff [THEN iffD2])
    (auto simp: plain_file_def path_ok_def component_ok_def path_bytes_def MAX_FILES_def
      MAX_PATH_COMPONENTS_def MAX_COMPONENT_BYTES_def MAX_PATH_BYTES_def MAX_MANIFEST_PATH_BYTES_def less_Suc_eq)

text \<open>
  The version 1 layout is the concatenation of the files: every entry starts
  where the previous one ends, padding entries included, the total stays within
  \<open>u64\<close>, and the entries that are not padding number the kept files in order.
\<close>

lemma v1_files_contiguous:
  assumes "v1_files name layout = Inr view"
  shows "contiguous 0 (fv_piece_files view) \<and>
    map pf_length (fv_piece_files view) = map (fst \<circ> snd) (raw_v1 name layout) \<and>
    sum_list (map pf_length (fv_piece_files view)) \<le> u64_max \<and>
    file_entries (fv_piece_files view) = numbered 0 (fv_files view)"
  using v1_files_spec [OF assms] ordered_layout_sum [of 0 "fv_piece_files view"] by simp

text \<open>
  In the version 2 layout every file starts at a multiple of the piece length,
  at or after the end of the previous file and less than a piece later, and the
  entries number the files in order.
\<close>

lemma v2_files_aligned:
  assumes "v2_files name piece_length tree = Some (Inr view)"
  shows "aligned piece_length 0 (fv_piece_files view) \<and> ordered_layout 0 (fv_piece_files view) \<and>
    file_entries (fv_piece_files view) = numbered 0 (fv_files view) \<and> validate_files (fv_files view) = Inr ()"
  using v2_files_spec [OF assms] by blast

text \<open>
  C10: A metainfo with a non-zero piece length and at least one version never makes
  the parser panic, and what it accepts is consistent: safe, prefix-free paths and
  piece entries in order without overlap that number the files.
\<close>

theorem parse_metainfo_correct:
  assumes "0 < mi_piece_length m" and "mi_v1 m \<noteq> None \<or> mi_v2 m \<noteq> None"
  shows "\<exists>r. parse_metainfo m = Some r \<and> (\<forall>t. r = Inr t \<longrightarrow>
    ordered_layout 0 (px_piece_files t) \<and> file_entries (px_piece_files t) = numbered 0 (px_files t) \<and>
    (\<forall>f \<in> set (px_files t). path_ok (pt_path f)) \<and> conflict_free (map pt_path (px_files t)) \<and>
    sum_list (map pt_length (px_files t)) \<le> u64_max)"
proof -
  have "checked_v1 m \<noteq> None" using assms(1) by (auto simp: checked_v1_def split: option.split sum.split)
  moreover have "checked_v2 m \<noteq> None"
    using assms(1) by (auto simp: checked_v2_def v2_files_def Let_def split: option.split sum.split)
  moreover have "combine_views v1 v2 \<noteq> None"
    if "checked_v1 m = Some (Inr v1)" "checked_v2 m = Some (Inr v2)" for v1 v2
  proof -
    have "v1 \<noteq> None \<or> v2 \<noteq> None" using that assms(2)
      by (auto simp: checked_v1_def checked_v2_def split: option.splits sum.splits if_splits)
    then show ?thesis by (auto simp: combine_views_def split: option.split)
  qed
  ultimately have "parse_metainfo m \<noteq> None"
    unfolding parse_metainfo_def by (auto split: option.split sum.split) (metis option.distinct(1))
  then obtain r where r: "parse_metainfo m = Some r" by blast
  moreover have "ordered_layout 0 (px_piece_files t) \<and> file_entries (px_piece_files t) = numbered 0 (px_files t) \<and>
      (\<forall>f \<in> set (px_files t). path_ok (pt_path f)) \<and> conflict_free (map pt_path (px_files t)) \<and>
      sum_list (map pt_length (px_files t)) \<le> u64_max" if "r = Inr t" for t
    using parse_metainfo_layout_ok [of m t] parse_metainfo_paths_ok [of m t] layout_ok_sizes r that
    by (auto simp: layout_ok_def paths_ok_def)
  ultimately show ?thesis by blast
qed

theorem parse_metainfo_correct_witness:
  "\<exists>r. parse_metainfo \<lparr>mi_name = ''t'', mi_piece_length = 16,
     mi_v1 = Some \<lparr>mv1_files = Single 20, mv1_pieces = replicate 40 CHR ''x''\<rparr>, mi_v2 = None,
     mi_info_hash = InfoHashV1 ''h'', mi_info_bytes = ''''\<rparr> = Some r"
  using parse_metainfo_correct [of "\<lparr>mi_name = ''t'', mi_piece_length = 16,
     mi_v1 = Some \<lparr>mv1_files = Single 20, mv1_pieces = replicate 40 CHR ''x''\<rparr>, mi_v2 = None,
     mi_info_hash = InfoHashV1 ''h'', mi_info_bytes = ''''\<rparr>"] by auto

end
