(* ===== verification/Journal.thy ===== *)
theory Journal
  imports Main "HOL-Library.Sublist"
begin

text \<open>
  An append-only journal: a system that keeps, for every key, a version number and
  numbered entries.  A client that knows only that each step of the system appends
  at most one entry at the next number learns that the entries are always numbered
  without a gap and that the history of a key only grows.  The task store is an
  instance.
\<close>

definition contiguous_log :: "nat option \<Rightarrow> (nat \<Rightarrow> 'e option) \<Rightarrow> bool" where
  "contiguous_log version entries \<longleftrightarrow>
     (\<forall>n. entries n \<noteq> None \<longleftrightarrow> (case version of None \<Rightarrow> False | Some m \<Rightarrow> n \<le> m))"

definition next_version :: "nat option \<Rightarrow> nat" where
  "next_version version = (case version of None \<Rightarrow> 0 | Some m \<Rightarrow> Suc m)"

definition log_extends ::
  "nat option \<Rightarrow> (nat \<Rightarrow> 'e option) \<Rightarrow> nat option \<Rightarrow> (nat \<Rightarrow> 'e option) \<Rightarrow> bool" where
  "log_extends version entries version' entries' \<longleftrightarrow>
     version' = version \<and> entries' = entries \<or>
     (\<exists>e. version' = Some (next_version version) \<and> entries' = entries(next_version version \<mapsto> e))"

definition log_history :: "nat option \<Rightarrow> (nat \<Rightarrow> 'e option) \<Rightarrow> 'e list" where
  "log_history version entries = map (\<lambda>n. the (entries n)) [0..<next_version version]"

lemma log_extends_refl [simp]: "log_extends v f v f"
  by (simp add: log_extends_def)

lemma contiguous_iff: "contiguous_log v f \<Longrightarrow> f n = None \<longleftrightarrow> \<not> n < next_version v"
  unfolding contiguous_log_def next_version_def
  by (drule spec [of _ n]) (cases v, auto simp: less_Suc_eq_le)

lemma contiguousI: "(\<And>n. f n = None \<longleftrightarrow> \<not> n < next_version v) \<Longrightarrow> contiguous_log v f"
  unfolding contiguous_log_def next_version_def by (cases v) (simp_all add: less_Suc_eq_le)

lemma contiguous_next_free: "contiguous_log v f \<Longrightarrow> f (next_version v) = None"
  by (simp add: contiguous_iff)

lemma log_extends_contiguous:
  assumes "contiguous_log v f" "log_extends v f v' f'"
  shows "contiguous_log v' f'"
proof (cases "v' = v \<and> f' = f")
  case True
  then show ?thesis using assms(1) by simp
next
  case False
  then obtain e where e: "v' = Some (next_version v)" "f' = f(next_version v \<mapsto> e)"
    using assms(2) by (auto simp: log_extends_def)
  show ?thesis
  proof (rule contiguousI)
    fix n
    have "f n = None \<longleftrightarrow> \<not> n < next_version v" using assms(1) by (rule contiguous_iff)
    then show "f' n = None \<longleftrightarrow> \<not> n < next_version v'" unfolding e by (auto simp: next_version_def split: option.splits)
  qed
qed

lemma log_history_append:
  assumes "contiguous_log v f" "log_extends v f v' f'"
  shows "log_history v' f' = log_history v f \<or> (\<exists>e. log_history v' f' = log_history v f @ [e])"
  using assms(2) by (auto simp: log_extends_def log_history_def next_version_def split: option.splits)

lemma log_extends_prefix:
  assumes "contiguous_log v f" "log_extends v f v' f'"
  shows "prefix (log_history v f) (log_history v' f')"
  using log_history_append [OF assms] by (auto simp: prefix_def)

locale journal =
  fixes step :: "'s \<Rightarrow> 's \<Rightarrow> bool"
    and version :: "'s \<Rightarrow> 'k \<Rightarrow> nat option"
    and entries :: "'s \<Rightarrow> 'k \<Rightarrow> nat \<Rightarrow> 'e option"
  assumes step_extends: "step s t \<Longrightarrow> \<forall>k. contiguous_log (version s k) (entries s k) \<Longrightarrow>
    log_extends (version s k) (entries s k) (version t k) (entries t k)"
begin

lemma steps_contiguous:
  assumes "step\<^sup>*\<^sup>* s t" "\<forall>k. contiguous_log (version s k) (entries s k)"
  shows "\<forall>k. contiguous_log (version t k) (entries t k)"
  using assms by (induction rule: rtranclp_induct) (blast intro: log_extends_contiguous step_extends)+

lemma steps_prefix:
  assumes "step\<^sup>*\<^sup>* s t" "\<forall>k. contiguous_log (version s k) (entries s k)"
  shows "prefix (log_history (version s k) (entries s k)) (log_history (version t k) (entries t k))"
  using assms
proof (induction rule: rtranclp_induct)
  case base
  show ?case by simp
next
  case (step t u)
  have ok: "\<forall>k. contiguous_log (version t k) (entries t k)" by (rule steps_contiguous [OF step.hyps(1) step.prems])
  have "prefix (log_history (version t k) (entries t k)) (log_history (version u k) (entries u k))"
    by (rule log_extends_prefix [OF ok [THEN spec] step_extends [OF step.hyps(2) ok]])
  then show ?case using step.IH step.prems by (blast intro: prefix_order.order_trans)
qed

end

end
