(* ===== verification/Tasks.thy ===== *)
theory Tasks
  imports Domain_Model Journal
begin

text \<open>
  The durable task store: the tables \<open>sporos_policy_snapshot\<close>, \<open>sporos_task\<close>,
  \<open>sporos_task_event\<close> and \<open>sporos_outbox\<close>, with every transaction that writes the
  task tables.  \<open>durable_ingress.rs\<close> accepts a task, \<open>task_projection.rs\<close> projects
  the progress of a workflow onto it with a generation check, \<open>task_control.rs\<close>
  cancels and retries it, \<open>completion.rs\<close>, \<open>search.rs\<close> and \<open>data_scan.rs\<close> update
  their own kinds of tasks.

  A transaction is a function to a result: \<open>Inl\<close> is the error with which it is
  rolled back, \<open>Inr\<close> carries the committed store.  A failing statement is possible
  at any time and leaves the store as it was, so it has no equation of its own; the
  violation of a constraint of the schema is the error \<open>IngressDatabase\<close>,
  \<open>ProjectionDatabase\<close> or \<open>ControlDatabase\<close>.  The JSON encodings of \<open>serde_json\<close>
  and the hash of \<open>sha2\<close> are the record \<open>codec\<close>, an argument.
\<close>

section \<open>Tables\<close>

record policy_snapshot =
  ps_id :: policy_snapshot_id
  ps_config_hash :: string
  ps_matcher_version :: string
  ps_payload_json :: string
  ps_created_at :: int

record new_task =
  nt_id :: task_id
  nt_key :: task_key
  nt_kind :: string
  nt_policy :: policy_snapshot
  nt_orchestration_name :: string
  nt_orchestration_version :: string
  nt_instance_id :: string
  nt_input_json :: string
  nt_created_at :: int

record task_row =
  tk_kind :: string
  tk_state :: string
  tk_generation :: nat
  tk_instance_id :: string
  tk_execution_id :: "string option"
  tk_policy :: policy_snapshot_id
  tk_reason :: "string option"
  tk_retry_count :: nat
  tk_updated_at :: int
  tk_terminal_at :: "int option"

record task_event =
  te_state :: string
  te_reason :: "string option"
  te_detail :: "string option"
  te_created_at :: int

record outbox_row =
  ob_id :: nat
  ob_task_id :: task_id
  ob_task_key :: task_key
  ob_orchestration_name :: string
  ob_orchestration_version :: string
  ob_instance_id :: string
  ob_input_json :: string
  ob_visible_at :: int
  ob_attempt_count :: nat
  ob_lease_token :: "string option"
  ob_lease_until :: "int option"
  ob_dispatched_at :: "int option"
  ob_permanent_failure_at :: "int option"
  ob_last_error :: "string option"

record operation_row =
  op_kind :: string
  op_state :: string
  op_instance_id :: string
  op_produced_tasks :: nat
  op_updated_at :: int

record completion_row =
  cm_source_id :: source_id
  cm_completed_at :: int
  cm_operation_id :: string
  cm_task_id :: task_id

record task_store =
  st_policies :: "policy_snapshot_id \<Rightarrow> policy_snapshot option"
  st_tasks :: "task_id \<Rightarrow> task_row option"
  st_events :: "task_id \<times> nat \<Rightarrow> task_event option"
  st_outbox :: "outbox_row list"
  st_operations :: "string \<Rightarrow> operation_row option"
  st_completions :: "completion_row list"

definition empty_store :: task_store where
  "empty_store = \<lparr> st_policies = (\<lambda>_. None), st_tasks = (\<lambda>_. None), st_events = (\<lambda>_. None), st_outbox = [],
     st_operations = (\<lambda>_. None), st_completions = [] \<rparr>"

record codec =
  cd_json_valid :: "string \<Rightarrow> bool"
  cd_sha256 :: "string \<Rightarrow> string"
  cd_cancellation_input :: "task_id \<Rightarrow> string \<Rightarrow> string"
  cd_cancel_detail :: "string \<Rightarrow> string \<Rightarrow> string"
  cd_retry_detail :: "string \<Rightarrow> string \<Rightarrow> string"
  cd_completion_detail :: "source_id \<Rightarrow> int \<Rightarrow> string"
  cd_completion_input :: "string \<Rightarrow> task_id \<Rightarrow> source_id \<Rightarrow> int \<Rightarrow> int \<Rightarrow> string"

definition set_task :: "task_id \<Rightarrow> task_row \<Rightarrow> task_store \<Rightarrow> task_store" where
  "set_task task row s = s\<lparr>st_tasks := (st_tasks s)(task \<mapsto> row)\<rparr>"

definition add_event :: "task_id \<Rightarrow> nat \<Rightarrow> task_event \<Rightarrow> task_store \<Rightarrow> task_store option" where
  "add_event task sequence event s =
     (if st_events s (task, sequence) \<noteq> None then None
      else Some (s\<lparr>st_events := (st_events s)((task, sequence) \<mapsto> event)\<rparr>))"

text \<open>SQLite gives a row without an id the largest id plus one.\<close>

definition next_outbox_id :: "task_store \<Rightarrow> nat" where
  "next_outbox_id s = fold max (map ob_id (st_outbox s)) 0 + 1"

definition outbox_start ::
  "task_id \<Rightarrow> task_key \<Rightarrow> string \<Rightarrow> string \<Rightarrow> string \<Rightarrow> string \<Rightarrow> int \<Rightarrow> outbox_row" where
  "outbox_start task key name version instance_id input now =
     \<lparr> ob_id = 0, ob_task_id = task, ob_task_key = key, ob_orchestration_name = name,
       ob_orchestration_version = version, ob_instance_id = instance_id, ob_input_json = input,
       ob_visible_at = now, ob_attempt_count = 0, ob_lease_token = None, ob_lease_until = None,
       ob_dispatched_at = None, ob_permanent_failure_at = None, ob_last_error = None \<rparr>"

definition insert_outbox :: "outbox_row \<Rightarrow> task_store \<Rightarrow> task_store option" where
  "insert_outbox row s =
     (if list_ex (\<lambda>o'. ob_task_key o' = ob_task_key row \<or> ob_instance_id o' = ob_instance_id row) (st_outbox s)
      then None
      else Some (s\<lparr>st_outbox := st_outbox s @ [row\<lparr>ob_id := next_outbox_id s\<rparr>]\<rparr>))"

section \<open>Accepting a task\<close>

datatype ingress_error =
    IngressDatabase | PolicyIdentityCollision | TaskIdentityCollision | TaskKeyCollision
  | OutboxIdentityCollision

definition verify_policy :: "policy_snapshot \<Rightarrow> task_store \<Rightarrow> (ingress_error, unit) result" where
  "verify_policy expected s =
     (case st_policies s (ps_id expected) of
        None \<Rightarrow> Inl IngressDatabase
      | Some row \<Rightarrow>
          if ps_config_hash row = ps_config_hash expected
            \<and> ps_matcher_version row = ps_matcher_version expected
            \<and> ps_payload_json row = ps_payload_json expected
          then Inr () else Inl PolicyIdentityCollision)"

definition verify_task :: "new_task \<Rightarrow> task_store \<Rightarrow> (ingress_error, unit) result" where
  "verify_task expected s =
     (case st_tasks s (nt_id expected) of
        None \<Rightarrow> Inl IngressDatabase
      | Some row \<Rightarrow>
          if tk_kind row = nt_kind expected \<and> tk_instance_id row = nt_instance_id expected
            \<and> tk_policy row = ps_id (nt_policy expected)
          then Inr () else Inl TaskIdentityCollision)"

definition verify_outbox :: "new_task \<Rightarrow> task_store \<Rightarrow> (ingress_error, unit) result" where
  "verify_outbox expected s =
     (case find (\<lambda>row. ob_task_key row = nt_key expected) (st_outbox s) of
        None \<Rightarrow> Inl IngressDatabase
      | Some row \<Rightarrow>
          if ob_task_id row \<noteq> nt_id expected then Inl TaskKeyCollision
          else if ob_orchestration_name row = nt_orchestration_name expected
            \<and> ob_orchestration_version row = nt_orchestration_version expected
            \<and> ob_instance_id row = nt_instance_id expected
            \<and> ob_input_json row = nt_input_json expected
          then Inr () else Inl OutboxIdentityCollision)"

definition insert_policy :: "codec \<Rightarrow> policy_snapshot \<Rightarrow> task_store \<Rightarrow> (ingress_error, task_store) result" where
  "insert_policy codec policy s =
     (if \<not> cd_json_valid codec (ps_payload_json policy) then Inl IngressDatabase
      else Inr (if st_policies s (ps_id policy) = None
                then s\<lparr>st_policies := (st_policies s)(ps_id policy \<mapsto> policy)\<rparr> else s))"

definition queued_row :: "string \<Rightarrow> string \<Rightarrow> policy_snapshot_id \<Rightarrow> int \<Rightarrow> task_row" where
  "queued_row kind instance_id policy now =
     \<lparr> tk_kind = kind, tk_state = ''queued'', tk_generation = 0, tk_instance_id = instance_id,
       tk_execution_id = None, tk_policy = policy, tk_reason = None, tk_retry_count = 0,
       tk_updated_at = now, tk_terminal_at = None \<rparr>"

definition insert_task :: "task_id \<Rightarrow> task_row \<Rightarrow> task_store \<Rightarrow> task_store" where
  "insert_task task row s = (if st_tasks s task = None then set_task task row s else s)"

definition queued_event :: "task_id \<Rightarrow> int \<Rightarrow> task_store \<Rightarrow> task_store" where
  "queued_event task now s =
     (case add_event task 0 \<lparr>te_state = ''queued'', te_reason = None, te_detail = None, te_created_at = now\<rparr> s of
        None \<Rightarrow> s | Some s' \<Rightarrow> s')"

text \<open>\<open>ON CONFLICT(task_key) DO NOTHING\<close>: a row with the same instance but another key is an error.\<close>

definition start_once :: "codec \<Rightarrow> outbox_row \<Rightarrow> task_store \<Rightarrow> (ingress_error, bool \<times> task_store) result" where
  "start_once codec row s =
     (if \<not> cd_json_valid codec (ob_input_json row) then Inl IngressDatabase
      else if list_ex (\<lambda>o'. ob_task_key o' = ob_task_key row) (st_outbox s) then Inr (False, s)
      else case insert_outbox row s of None \<Rightarrow> Inl IngressDatabase | Some s' \<Rightarrow> Inr (True, s'))"

definition row_of :: "new_task \<Rightarrow> task_row" where
  "row_of task = queued_row (nt_kind task) (nt_instance_id task) (ps_id (nt_policy task)) (nt_created_at task)"

definition start_of :: "new_task \<Rightarrow> outbox_row" where
  "start_of task = outbox_start (nt_id task) (nt_key task) (nt_orchestration_name task)
     (nt_orchestration_version task) (nt_instance_id task) (nt_input_json task) (nt_created_at task)"

definition accept_task_in ::
  "codec \<Rightarrow> new_task \<Rightarrow> task_store \<Rightarrow> (ingress_error, bool \<times> task_store) result" where
  "accept_task_in codec task s =
     and_then (insert_policy codec (nt_policy task) s) (\<lambda>s1.
     and_then (verify_policy (nt_policy task) s1) (\<lambda>_.
     let s2 = insert_task (nt_id task) (row_of task) s1
     in and_then (verify_task task s2) (\<lambda>_.
     let s3 = queued_event (nt_id task) (nt_created_at task) s2
     in and_then (start_once codec (start_of task) s3) (\<lambda>(inserted, s4).
     and_then (verify_outbox task s4) (\<lambda>_. Inr (inserted, s4))))))"

record accepted_task =
  at_id :: task_id
  at_duplicate :: bool

definition accept_task ::
  "codec \<Rightarrow> new_task \<Rightarrow> task_store \<Rightarrow> (ingress_error, accepted_task \<times> task_store) result" where
  "accept_task codec task s =
     and_then (accept_task_in codec task s) (\<lambda>(inserted, s').
       Inr (\<lparr>at_id = nt_id task, at_duplicate = (\<not> inserted)\<rparr>, s'))"

section \<open>Projecting progress\<close>

record projection_update =
  pu_task_id :: task_id
  pu_expected_generation :: nat
  pu_state :: string
  pu_reason_code :: "string option"
  pu_execution_id :: "string option"
  pu_observed_retry_count :: nat
  pu_detail_json :: "string option"
  pu_occurred_at :: int
  pu_terminal :: bool

datatype projection_outcome =
    Applied nat
  | AlreadyApplied nat
  | Stale nat
  | TaskTerminated nat
  | Missing

datatype projection_error =
    ProjectionDatabase | EmptyState | InvalidDetail | GenerationOverflow | ValueOverflow | CorruptGeneration

definition validate_update :: "codec \<Rightarrow> projection_update \<Rightarrow> (projection_error, unit) result" where
  "validate_update codec update =
     (if pu_state update = [] then Inl EmptyState
      else case pu_detail_json update of
             None \<Rightarrow> Inr ()
           | Some detail \<Rightarrow> if cd_json_valid codec detail then Inr () else Inl InvalidDetail)"

definition event_matches :: "projection_update \<Rightarrow> nat \<Rightarrow> task_store \<Rightarrow> bool" where
  "event_matches update sequence s =
     (case st_events s (pu_task_id update, sequence) of
        None \<Rightarrow> False
      | Some event \<Rightarrow> te_state event = pu_state update \<and> te_reason event = pu_reason_code update
          \<and> te_detail event = pu_detail_json update)"

definition current_outcome :: "projection_update \<Rightarrow> task_store \<Rightarrow> projection_outcome" where
  "current_outcome update s =
     (case st_tasks s (pu_task_id update) of
        None \<Rightarrow> Missing
      | Some row \<Rightarrow> if tk_terminal_at row \<noteq> None then TaskTerminated (tk_generation row)
                    else Stale (tk_generation row))"

definition projected_row :: "projection_update \<Rightarrow> nat \<Rightarrow> task_row \<Rightarrow> task_row" where
  "projected_row update generation row =
     row\<lparr> tk_state := pu_state update, tk_generation := generation, tk_execution_id := pu_execution_id update,
          tk_reason := pu_reason_code update, tk_retry_count := pu_observed_retry_count update,
          tk_updated_at := pu_occurred_at update,
          tk_terminal_at := (if pu_terminal update then Some (pu_occurred_at update) else None) \<rparr>"

definition projected_event :: "projection_update \<Rightarrow> task_event" where
  "projected_event update =
     \<lparr> te_state = pu_state update, te_reason = pu_reason_code update, te_detail = pu_detail_json update,
       te_created_at = pu_occurred_at update \<rparr>"

text \<open>
  The conditional \<open>UPDATE\<close> and the insertion of the event.  It runs on the store as
  it is at that moment, \<open>s\<close>; the decision to run it was taken on what the
  \<open>SELECT\<close> saw.
\<close>

definition apply_projection ::
  "projection_update \<Rightarrow> nat \<Rightarrow> task_store \<Rightarrow> (projection_error, projection_outcome \<times> task_store) result" where
  "apply_projection update next_generation s =
     (case st_tasks s (pu_task_id update) of
        None \<Rightarrow> Inr (current_outcome update s, s)
      | Some row \<Rightarrow>
          if tk_generation row = pu_expected_generation update \<and> tk_terminal_at row = None
          then (case add_event (pu_task_id update) next_generation (projected_event update)
                  (set_task (pu_task_id update) (projected_row update next_generation row) s) of
                  None \<Rightarrow> Inl ProjectionDatabase
                | Some s' \<Rightarrow> Inr (Applied next_generation, s'))
          else Inr (current_outcome update s, s))"

definition project_task ::
  "codec \<Rightarrow> projection_update \<Rightarrow> task_store \<Rightarrow> task_store \<Rightarrow>
   (projection_error, projection_outcome \<times> task_store) result" where
  "project_task codec update seen s =
     and_then (validate_update codec update) (\<lambda>_.
       case st_tasks seen (pu_task_id update) of
         None \<Rightarrow> Inr (Missing, s)
       | Some row \<Rightarrow>
           let generation = tk_generation row
           in if generation \<noteq> pu_expected_generation update
              then if generation = saturating_add u64_max (pu_expected_generation update) 1
                      \<and> event_matches update generation seen
                   then Inr (AlreadyApplied generation, s)
                   else Inr (Stale generation, s)
              else if tk_terminal_at row \<noteq> None then Inr (TaskTerminated generation, s)
              else and_then (ok_or GenerationOverflow (checked_add u64_max generation 1)) (\<lambda>next_generation.
                if next_generation > i64_max \<or> pu_observed_retry_count update > i64_max
                  \<or> pu_expected_generation update > i64_max
                then Inl ValueOverflow
                else apply_projection update next_generation s))"

datatype candidate_projection_error = MissingTask | TaskProjection projection_error

definition project_candidate_task ::
  "codec \<Rightarrow> task_id \<Rightarrow> string \<Rightarrow> string option \<Rightarrow> bool \<Rightarrow> string \<Rightarrow> int \<Rightarrow> task_store \<Rightarrow>
   (candidate_projection_error, task_store) result" where
  "project_candidate_task codec task state reason terminal detail now s =
     (case st_tasks s task of
        None \<Rightarrow> Inr s
      | Some row \<Rightarrow>
          if tk_state row = state \<or> tk_terminal_at row \<noteq> None then Inr s
          else (case project_task codec
                  \<lparr> pu_task_id = task, pu_expected_generation = tk_generation row, pu_state = state,
                    pu_reason_code = reason, pu_execution_id = None, pu_observed_retry_count = 0,
                    pu_detail_json = Some detail, pu_occurred_at = now, pu_terminal = terminal \<rparr> s s of
                  Inl e \<Rightarrow> Inl (TaskProjection e)
                | Inr (Missing, _) \<Rightarrow> Inl MissingTask
                | Inr (_, s') \<Rightarrow> Inr s'))"

section \<open>Cancelling and retrying\<close>

datatype task_control_error =
    ControlDatabase | Duroxide | TaskNotFound | TaskTerminal | TaskNotRetryable | UnsupportedRetry
  | GenerationRange | EncodeCancellation

record cancel_accepted =
  ca_target_instance :: string
  ca_duplicate :: bool

record retry_accepted =
  ra_instance_id :: string

definition CANCELLATION_NAME :: string where "CANCELLATION_NAME = ''ReconcileTaskCancellation''"
definition CANCELLATION_VERSION :: string where "CANCELLATION_VERSION = ''1.0.0''"

definition next_generation :: "task_row \<Rightarrow> (task_control_error, nat) result" where
  "next_generation row = ok_or GenerationRange (checked_add i64_max (tk_generation row) 1)"

definition cancellation_instance :: "task_id \<Rightarrow> nat \<Rightarrow> string" where
  "cancellation_instance task generation = ''cancel-task:'' @ encode_hex task @ '':'' @ decimal generation"

definition request_cancel ::
  "codec \<Rightarrow> task_id \<Rightarrow> int \<Rightarrow> task_store \<Rightarrow> (task_control_error, cancel_accepted \<times> task_store) result" where
  "request_cancel codec task now s =
     (case st_tasks s task of
        None \<Rightarrow> Inl TaskNotFound
      | Some row \<Rightarrow>
          if tk_terminal_at row \<noteq> None then Inl TaskTerminal
          else if tk_state row = ''cancellation_requested''
          then Inr (\<lparr>ca_target_instance = tk_instance_id row, ca_duplicate = True\<rparr>, s)
          else and_then (next_generation row) (\<lambda>generation.
            let reconciliation = cancellation_instance task generation;
                s1 = set_task task (row\<lparr>tk_state := ''cancellation_requested'', tk_generation := generation,
                  tk_reason := Some ''operator_cancel'', tk_updated_at := now\<rparr>) s;
                key = cd_sha256 codec (''task-cancellation-v1'' @ task @ be_bytes 8 generation);
                event = \<lparr>te_state = ''cancellation_requested'', te_reason = Some ''operator_cancel'',
                  te_detail = Some (cd_cancel_detail codec (tk_instance_id row) reconciliation), te_created_at = now\<rparr>
            in case insert_outbox (outbox_start task key CANCELLATION_NAME CANCELLATION_VERSION reconciliation
                 (cd_cancellation_input codec task (tk_instance_id row)) now) s1 of
                 None \<Rightarrow> Inl ControlDatabase
               | Some s2 \<Rightarrow>
                   (case add_event task generation event s2 of
                      None \<Rightarrow> Inl ControlDatabase
                    | Some s3 \<Rightarrow> Inr (\<lparr>ca_target_instance = tk_instance_id row, ca_duplicate = False\<rparr>, s3))))"

definition record_terminal ::
  "task_id \<Rightarrow> string \<Rightarrow> string \<Rightarrow> int \<Rightarrow> task_store \<Rightarrow> (task_control_error, task_store) result" where
  "record_terminal task state reason now s =
     (case st_tasks s task of
        None \<Rightarrow> Inr s
      | Some row \<Rightarrow>
          if tk_state row \<noteq> ''cancellation_requested'' \<or> tk_terminal_at row \<noteq> None then Inr s
          else and_then (next_generation row) (\<lambda>generation.
            case add_event task generation
                   \<lparr>te_state = state, te_reason = Some reason, te_detail = None, te_created_at = now\<rparr>
                   (set_task task (row\<lparr>tk_state := state, tk_generation := generation, tk_reason := Some reason,
                      tk_updated_at := now, tk_terminal_at := Some now\<rparr>) s) of
              None \<Rightarrow> Inl ControlDatabase
            | Some s' \<Rightarrow> Inr s'))"

datatype orchestration_status =
    StatusRunning
  | StatusCompleted string
  | StatusFailed bool
  | StatusNotFound

text \<open>
  The argument of \<open>StatusFailed\<close> says whether the application cancelled the
  workflow.  \<open>cancelled\<close> is the answer of \<open>cancel_instance\<close>.
\<close>

definition reconcile_cancellation ::
  "(task_control_error, orchestration_status) result \<Rightarrow> (task_control_error, unit) result \<Rightarrow>
   task_id \<Rightarrow> int \<Rightarrow> task_store \<Rightarrow> (task_control_error, bool \<times> task_store) result" where
  "reconcile_cancellation status cancelled task now s =
     and_then status (\<lambda>status.
       case status of
         StatusRunning \<Rightarrow> and_then cancelled (\<lambda>_. Inr (False, s))
       | StatusCompleted _ \<Rightarrow>
           and_then (record_terminal task ''completed'' ''cancellation_raced_completion'' now s) (\<lambda>s'. Inr (True, s'))
       | StatusFailed by_request \<Rightarrow>
           and_then (if by_request then record_terminal task ''cancelled'' ''cancelled_by_operator'' now s
                     else record_terminal task ''failed'' ''orchestration_failed'' now s) (\<lambda>s'. Inr (True, s'))
       | StatusNotFound \<Rightarrow>
           and_then (record_terminal task ''failed'' ''orchestration_missing'' now s) (\<lambda>s'. Inr (True, s')))"

definition retryable_kind :: "string \<Rightarrow> bool" where
  "retryable_kind kind \<longleftrightarrow>
     kind \<in> set [''process_candidate'', ''search_source_indexer'', ''inventory_search'', ''data_scan'']"

definition retry_instance :: "string \<Rightarrow> nat \<Rightarrow> string" where
  "retry_instance previous_instance generation = previous_instance @ '':retry:'' @ decimal generation"

definition retry_task ::
  "codec \<Rightarrow> task_id \<Rightarrow> int \<Rightarrow> task_store \<Rightarrow> (task_control_error, retry_accepted \<times> task_store) result" where
  "retry_task codec task now s =
     (case st_tasks s task of
        None \<Rightarrow> Inl TaskNotFound
      | Some row \<Rightarrow>
          (case find (\<lambda>o'. ob_instance_id o' = tk_instance_id row) (st_outbox s) of
             None \<Rightarrow> Inl TaskNotFound
           | Some start \<Rightarrow>
               if \<not> retryable_kind (tk_kind row) then Inl UnsupportedRetry
               else if tk_terminal_at row = None \<or> tk_state row \<notin> set [''failed'', ''cancelled'']
               then Inl TaskNotRetryable
               else and_then (next_generation row) (\<lambda>generation.
                 let key = cd_sha256 codec (''task-retry-v1'' @ ob_task_key start @ be_bytes 8 generation);
                     instance_id = retry_instance (ob_instance_id start) generation;
                     event = \<lparr>te_state = ''queued'', te_reason = Some ''operator_retry'',
                       te_detail = Some (cd_retry_detail codec (ob_instance_id start) instance_id), te_created_at = now\<rparr>
                 in case insert_outbox (outbox_start task key (ob_orchestration_name start)
                      (ob_orchestration_version start) instance_id (ob_input_json start) now) s of
                      None \<Rightarrow> Inl ControlDatabase
                    | Some s1 \<Rightarrow>
                        (case add_event task generation event
                           (set_task task (row\<lparr>tk_state := ''queued'', tk_generation := generation,
                              tk_instance_id := instance_id, tk_execution_id := None, tk_reason := None,
                              tk_retry_count := tk_retry_count row + 1, tk_updated_at := now,
                              tk_terminal_at := None\<rparr>) s1) of
                           None \<Rightarrow> Inl ControlDatabase
                         | Some s2 \<Rightarrow> Inr (\<lparr>ra_instance_id = instance_id\<rparr>, s2)))))"

section \<open>The tasks of the other workflows\<close>

definition COMPLETION_NAME :: string where "COMPLETION_NAME = ''QbittorrentCompletion''"
definition COMPLETION_VERSION :: string where "COMPLETION_VERSION = ''1.0.0''"

definition POLICY_PAYLOAD :: string where
  "POLICY_PAYLOAD = ''{'' @ [char_of (34 :: nat)] @ ''kind'' @ [char_of (34 :: nat)] @ '':'' @ [char_of (34 :: nat)]
     @ ''qbittorrent_completion'' @ [char_of (34 :: nat)] @ '','' @ [char_of (34 :: nat)] @ ''version''
     @ [char_of (34 :: nat)] @ '':1}''"

definition i64_bytes :: "int \<Rightarrow> string" where
  "i64_bytes value = be_bytes 8 (nat (value mod 2 ^ 64))"

definition identity :: "codec \<Rightarrow> string \<Rightarrow> source_id \<Rightarrow> int \<Rightarrow> string" where
  "identity codec name_space source completed_at =
     cd_sha256 codec (be_bytes 8 (length name_space) @ name_space @ source @ i64_bytes completed_at)"

definition id16 :: "codec \<Rightarrow> string \<Rightarrow> source_id \<Rightarrow> int \<Rightarrow> string" where
  "id16 codec name_space source completed_at = take 16 (identity codec name_space source completed_at)"

definition completion_policy :: "codec \<Rightarrow> policy_snapshot" where
  "completion_policy codec =
     \<lparr> ps_id = id16 codec ''qbit-completion-policy'' (replicate 16 (char_of (0 :: nat))) 1,
       ps_config_hash = cd_sha256 codec POLICY_PAYLOAD, ps_matcher_version = ''not_applicable'',
       ps_payload_json = POLICY_PAYLOAD, ps_created_at = 0 \<rparr>"

record accepted_completion =
  ac_operation_id :: string
  ac_task_id :: task_id
  ac_duplicate :: bool

definition insert_operation :: "string \<Rightarrow> string \<Rightarrow> int \<Rightarrow> task_store \<Rightarrow> task_store" where
  "insert_operation operation_id instance_id now s =
     (if st_operations s operation_id \<noteq> None then s
      else s\<lparr>st_operations := (st_operations s)(operation_id \<mapsto>
        \<lparr>op_kind = ''qbittorrent_completion'', op_state = ''queued'', op_instance_id = instance_id,
         op_produced_tasks = 0, op_updated_at = now\<rparr>)\<rparr>)"

definition insert_completion :: "completion_row \<Rightarrow> task_store \<Rightarrow> (ingress_error, bool \<times> task_store) result" where
  "insert_completion row s =
     (if list_ex (\<lambda>c. cm_source_id c = cm_source_id row \<and> cm_completed_at c = cm_completed_at row) (st_completions s)
      then Inr (False, s)
      else if list_ex (\<lambda>c. cm_operation_id c = cm_operation_id row \<or> cm_task_id c = cm_task_id row) (st_completions s)
      then Inl IngressDatabase
      else Inr (True, s\<lparr>st_completions := st_completions s @ [row]\<rparr>))"

definition accept_completion ::
  "codec \<Rightarrow> source_id \<Rightarrow> int \<Rightarrow> int \<Rightarrow> task_store \<Rightarrow> (ingress_error, accepted_completion \<times> task_store) result" where
  "accept_completion codec source completed_at observed_at s =
     (let operation_id = id16 codec ''qbit-completion-operation'' source completed_at;
          task = id16 codec ''qbit-completion-task'' source completed_at;
          key = identity codec ''qbit-completion-key'' source completed_at;
          instance_id = ''qbit-completion:'' @ encode_hex operation_id;
          input = cd_completion_input codec operation_id task source completed_at observed_at
      in and_then (insert_policy codec (completion_policy codec) s) (\<lambda>s1.
         let s2 = insert_operation operation_id instance_id observed_at s1;
             s3 = insert_task task (queued_row ''qbittorrent_completion'' instance_id
               (ps_id (completion_policy codec)) observed_at) s2;
             s4 = queued_event task observed_at s3
         in and_then (start_once codec (outbox_start task key COMPLETION_NAME COMPLETION_VERSION instance_id
              input observed_at) s4) (\<lambda>(_, s5).
         and_then (insert_completion \<lparr>cm_source_id = source, cm_completed_at = completed_at,
             cm_operation_id = operation_id, cm_task_id = task\<rparr> s5) (\<lambda>(inserted, s6).
           Inr (\<lparr>ac_operation_id = operation_id, ac_task_id = task, ac_duplicate = (\<not> inserted)\<rparr>, s6)))))"

definition complete_operation :: "string \<Rightarrow> int \<Rightarrow> task_store \<Rightarrow> task_store" where
  "complete_operation operation_id now s =
     s\<lparr>st_operations := (st_operations s)(operation_id :=
        map_option (\<lambda>op. op\<lparr>op_state := ''completed'', op_updated_at := now\<rparr>) (st_operations s operation_id))\<rparr>"

definition project_completion ::
  "codec \<Rightarrow> string \<Rightarrow> task_id \<Rightarrow> source_id \<Rightarrow> int \<Rightarrow> int \<Rightarrow> task_store \<Rightarrow> (ingress_error, task_store) result" where
  "project_completion codec operation_id task source completed_at observed_at s =
     (case st_tasks s task of
        None \<Rightarrow> Inl IngressDatabase
      | Some row \<Rightarrow>
          let s1 = (if tk_generation row = 0
                    then set_task task (row\<lparr>tk_state := ''completed'', tk_generation := 1,
                      tk_updated_at := observed_at, tk_terminal_at := Some observed_at\<rparr>) s
                    else s);
              event = \<lparr>te_state = ''completed'', te_reason = None,
                te_detail = Some (cd_completion_detail codec source completed_at), te_created_at = observed_at\<rparr>
          in Inr (complete_operation operation_id observed_at
               (case add_event task 1 event s1 of None \<Rightarrow> s1 | Some s2 \<Rightarrow> s2)))"

definition update_task :: "task_id \<Rightarrow> (task_row \<Rightarrow> task_row) \<Rightarrow> task_store \<Rightarrow> task_store" where
  "update_task task f s = (case st_tasks s task of None \<Rightarrow> s | Some row \<Rightarrow> set_task task (f row) s)"

definition mark_searching :: "task_id \<Rightarrow> int \<Rightarrow> task_store \<Rightarrow> task_store" where
  "mark_searching task now =
     update_task task (\<lambda>row. if tk_terminal_at row = None
       then row\<lparr>tk_state := ''searching'', tk_updated_at := now\<rparr> else row)"

definition search_wait :: "task_id \<Rightarrow> string \<Rightarrow> int \<Rightarrow> task_store \<Rightarrow> task_store" where
  "search_wait task reason now =
     update_task task (\<lambda>row. if tk_terminal_at row = None
       then row\<lparr>tk_state := ''waiting_dependency'', tk_reason := Some reason,
                tk_retry_count := tk_retry_count row + 1, tk_updated_at := now\<rparr> else row)"

definition search_finish :: "task_id \<Rightarrow> string \<Rightarrow> bool \<Rightarrow> int \<Rightarrow> task_store \<Rightarrow> task_store" where
  "search_finish task reason failed now =
     update_task task (\<lambda>row. row\<lparr>tk_state := (if failed then ''failed'' else ''completed''),
       tk_reason := Some reason, tk_updated_at := now, tk_terminal_at := Some now\<rparr>)"

definition backfill_page :: "task_id \<Rightarrow> bool \<Rightarrow> int \<Rightarrow> task_store \<Rightarrow> task_store" where
  "backfill_page task finished now =
     update_task task (\<lambda>row. row\<lparr>tk_state := (if finished then ''completed'' else ''running''),
       tk_updated_at := now, tk_terminal_at := (if finished then Some now else None)\<rparr>)"

definition scan_running :: "task_id \<Rightarrow> int \<Rightarrow> task_store \<Rightarrow> task_store" where
  "scan_running task now =
     update_task task (\<lambda>row. row\<lparr>tk_state := ''running'', tk_updated_at := now\<rparr>)"

definition scan_finish :: "task_id \<Rightarrow> string \<Rightarrow> bool \<Rightarrow> int \<Rightarrow> task_store \<Rightarrow> task_store" where
  "scan_finish task reason failed now =
     update_task task (\<lambda>row. row\<lparr>tk_state := (if failed then ''failed'' else ''completed''),
       tk_reason := Some reason, tk_updated_at := now, tk_terminal_at := Some now\<rparr>)"


section \<open>The journal of a task\<close>

definition task_version :: "task_store \<Rightarrow> task_id \<Rightarrow> nat option" where
  "task_version s task = map_option tk_generation (st_tasks s task)"

definition task_entries :: "task_store \<Rightarrow> task_id \<Rightarrow> nat \<Rightarrow> task_event option" where
  "task_entries s task sequence = st_events s (task, sequence)"

definition task_journal_ok :: "task_store \<Rightarrow> task_id \<Rightarrow> bool" where
  "task_journal_ok s task \<longleftrightarrow> contiguous_log (task_version s task) (task_entries s task)"

definition journal_extends :: "task_store \<Rightarrow> task_store \<Rightarrow> task_id \<Rightarrow> bool" where
  "journal_extends s t task \<longleftrightarrow>
     log_extends (task_version s task) (task_entries s task) (task_version t task) (task_entries t task)"

lemma journal_extends_refl [simp]: "journal_extends s s task"
  by (simp add: journal_extends_def)

lemma journal_frame:
  assumes "\<And>k. map_option tk_generation (st_tasks t k) = map_option tk_generation (st_tasks s k)"
    and "st_events t = st_events s"
  shows "journal_extends s t task"
  using assms by (simp add: journal_extends_def task_version_def task_entries_def [abs_def])

lemma journal_append:
  assumes "st_tasks s k = Some row" "st_tasks t = (st_tasks s)(k \<mapsto> row')"
    and "tk_generation row' = Suc (tk_generation row)"
    and "st_events t = (st_events s)((k, Suc (tk_generation row)) \<mapsto> event)"
  shows "journal_extends s t task"
proof (cases "task = k")
  case True
  have "task_entries t k = (task_entries s k)(Suc (tk_generation row) \<mapsto> event)"
    using assms(4) by (auto simp: task_entries_def fun_eq_iff)
  then show ?thesis
    using assms(1-3) True by (auto simp: journal_extends_def log_extends_def task_version_def next_version_def)
next
  case False
  then show ?thesis
    using assms by (simp add: journal_extends_def task_version_def task_entries_def [abs_def])
qed

lemma add_event_Some:
  assumes "add_event task sequence event s = Some t"
  shows "st_events t = (st_events s)((task, sequence) \<mapsto> event)" "st_tasks t = st_tasks s"
    "st_outbox t = st_outbox s" "st_policies t = st_policies s"
    "st_operations t = st_operations s" "st_completions t = st_completions s"
    "st_events s (task, sequence) = None"
  using assms by (auto simp: add_event_def split: if_splits)

lemma insert_outbox_Some:
  assumes "insert_outbox row s = Some t"
  shows "st_events t = st_events s" "st_tasks t = st_tasks s" "st_policies t = st_policies s"
    "st_outbox t = st_outbox s @ [row\<lparr>ob_id := next_outbox_id s\<rparr>]"
    "\<forall>o' \<in> set (st_outbox s). ob_task_key o' \<noteq> ob_task_key row \<and> ob_instance_id o' \<noteq> ob_instance_id row"
  using assms by (auto simp: insert_outbox_def list_ex_iff split: if_splits)

lemma set_task_simps [simp]:
  "st_tasks (set_task task row s) = (st_tasks s)(task \<mapsto> row)" "st_events (set_task task row s) = st_events s"
  "st_outbox (set_task task row s) = st_outbox s" "st_policies (set_task task row s) = st_policies s"
  "st_operations (set_task task row s) = st_operations s" "st_completions (set_task task row s) = st_completions s"
  by (simp_all add: set_task_def)

lemma and_then_Inr: "and_then r f = Inr y \<longleftrightarrow> (\<exists>x. r = Inr x \<and> f x = Inr y)"
  by (cases r) (simp_all add: and_then_def)

lemma next_generation_Inr: "next_generation row = Inr g \<Longrightarrow> g = Suc (tk_generation row)"
  by (auto simp: next_generation_def ok_or_def checked_add_def split: if_splits)

text \<open>The first acceptance of a task creates the row and the entry 0 together.\<close>

lemma journal_create:
  assumes "task_journal_ok s k"
  shows "journal_extends s (queued_event k now (insert_task k (queued_row kind instance_id policy now') s)) task"
proof (cases "st_tasks s k")
  case None
  have free: "st_events s (k, n) = None" for n
  proof -
    have "task_entries s k n = None \<longleftrightarrow> \<not> n < next_version (task_version s k)"
      using assms unfolding task_journal_ok_def by (rule contiguous_iff)
    then show ?thesis using None by (simp add: task_entries_def task_version_def next_version_def)
  qed
  let ?e = "\<lparr>te_state = ''queued'', te_reason = None, te_detail = None, te_created_at = now\<rparr>"
  have "task_entries (queued_event k now (insert_task k (queued_row kind instance_id policy now') s)) k
      = (task_entries s k)(0 \<mapsto> ?e)"
    using None free by (auto simp: task_entries_def fun_eq_iff queued_event_def add_event_def insert_task_def)
  moreover have "task_version s k = None" using None by (simp add: task_version_def)
  moreover have "task_version (queued_event k now (insert_task k (queued_row kind instance_id policy now') s)) k = Some 0"
    using None free by (simp add: task_version_def queued_event_def add_event_def insert_task_def queued_row_def)
  ultimately have "journal_extends s (queued_event k now (insert_task k (queued_row kind instance_id policy now') s)) k"
    by (auto simp: journal_extends_def log_extends_def next_version_def)
  moreover have "journal_extends s (queued_event k now (insert_task k (queued_row kind instance_id policy now') s)) task"
    if "task \<noteq> k"
    using that None free by (simp add: journal_extends_def task_version_def task_entries_def [abs_def] queued_event_def
        add_event_def insert_task_def)
  ultimately show ?thesis by (cases "task = k") simp_all
next
  case (Some row)
  then have v: "task_version s k = Some (tk_generation row)" by (simp add: task_version_def)
  have "task_entries s k 0 = None \<longleftrightarrow> \<not> 0 < next_version (task_version s k)"
    using assms unfolding task_journal_ok_def by (rule contiguous_iff)
  then have "st_events s (k, 0) \<noteq> None" by (simp add: v next_version_def task_entries_def)
  then have "queued_event k now s = s" by (auto simp: queued_event_def add_event_def)
  then show ?thesis using Some by (simp add: insert_task_def)
qed


section \<open>Every transaction extends the journals\<close>

lemma and_then_InrE:
  assumes "and_then r f = Inr y"
  obtains x where "r = Inr x" "f x = Inr y"
  using assms by (auto simp: and_then_Inr)

lemma insert_policy_frame:
  assumes "insert_policy codec policy s = Inr t"
  shows "st_tasks t = st_tasks s" "st_events t = st_events s" "st_outbox t = st_outbox s"
  using assms by (auto simp: insert_policy_def split: if_splits)

lemma start_once_frame:
  assumes "start_once codec row s = Inr (inserted, t)"
  shows "st_tasks t = st_tasks s" "st_events t = st_events s"
  using assms by (auto simp: start_once_def dest: insert_outbox_Some split: if_splits option.splits)

lemma journal_ok_frame:
  "st_tasks t = st_tasks s \<Longrightarrow> st_events t = st_events s \<Longrightarrow> task_journal_ok t k = task_journal_ok s k"
  by (simp add: task_journal_ok_def task_version_def task_entries_def [abs_def])

lemma journal_extends_frame:
  assumes "st_tasks s' = st_tasks s" "st_events s' = st_events s" "st_tasks t' = st_tasks t" "st_events t' = st_events t"
  shows "journal_extends s' t' k = journal_extends s t k"
  using assms by (simp add: journal_extends_def task_version_def task_entries_def [abs_def])

lemma accept_task_in_Inr:
  assumes "accept_task_in codec task s = Inr (inserted, t)"
  obtains s1 where "insert_policy codec (nt_policy task) s = Inr s1"
    "start_once codec (start_of task) (queued_event (nt_id task) (nt_created_at task)
      (insert_task (nt_id task) (row_of task) s1)) = Inr (inserted, t)"
    "verify_policy (nt_policy task) s1 = Inr ()" "verify_outbox task t = Inr ()"
    "verify_task task (insert_task (nt_id task) (row_of task) s1) = Inr ()"
  using assms unfolding accept_task_in_def Let_def
proof (elim and_then_InrE)
  fix s1 u v q
  assume 1: "insert_policy codec (nt_policy task) s = Inr s1" "verify_policy (nt_policy task) s1 = Inr u"
    "verify_task task (insert_task (nt_id task) (row_of task) s1) = Inr v"
    and q: "start_once codec (start_of task) (queued_event (nt_id task) (nt_created_at task)
      (insert_task (nt_id task) (row_of task) s1)) = Inr q"
    "(case q of (inserted, s4) \<Rightarrow> and_then (verify_outbox task s4) (\<lambda>_. Inr (inserted, s4))) = Inr (inserted, t)"
  have "q = (inserted, t)" "verify_outbox task t = Inr ()" using q(2) by (auto simp: and_then_Inr split: prod.splits)
  then show thesis using 1 q(1) by (intro that [of s1]) simp_all
qed

lemma accept_task_journal:
  assumes "accept_task_in codec task s = Inr (inserted, t)" "task_journal_ok s (nt_id task)"
  shows "journal_extends s t k"
proof -
  obtain s1 where s1: "insert_policy codec (nt_policy task) s = Inr s1"
    and t: "start_once codec (start_of task) (queued_event (nt_id task) (nt_created_at task)
      (insert_task (nt_id task) (row_of task) s1)) = Inr (inserted, t)"
    by (rule accept_task_in_Inr [OF assms(1)])
  note f1 = insert_policy_frame [OF s1] and f2 = start_once_frame [OF t]
  have "task_journal_ok s1 (nt_id task)" using assms(2) journal_ok_frame [OF f1(1,2)] by simp
  note e = journal_create [OF this, where task = k and now = "nt_created_at task" and now' = "nt_created_at task"
      and kind = "nt_kind task" and instance_id = "nt_instance_id task" and policy = "ps_id (nt_policy task)"]
  show ?thesis
    by (rule journal_extends_frame [THEN iffD1, OF _ _ _ _ e]) (simp_all add: f1 f2 row_of_def)
qed

lemma accept_completion_Inr:
  assumes "accept_completion codec source completed_at observed_at s = Inr (accepted, t)"
  obtains s2 s5 start task inserted kind instance_id policy where
    "st_tasks s2 = st_tasks s" "st_events s2 = st_events s" "st_outbox s2 = st_outbox s"
    "start_once codec start (queued_event task observed_at
       (insert_task task (queued_row kind instance_id policy observed_at) s2)) = Inr (inserted, s5)"
    "start = outbox_start task (identity codec ''qbit-completion-key'' source completed_at) COMPLETION_NAME
       COMPLETION_VERSION instance_id (cd_completion_input codec
         (id16 codec ''qbit-completion-operation'' source completed_at) task source completed_at observed_at) observed_at"
    "st_tasks t = st_tasks s5" "st_events t = st_events s5" "st_outbox t = st_outbox s5"
  using assms unfolding accept_completion_def Let_def
proof (elim and_then_InrE)
  let ?o = "id16 codec ''qbit-completion-operation'' source completed_at"
  let ?t = "id16 codec ''qbit-completion-task'' source completed_at"
  let ?i = "''qbit-completion:'' @ encode_hex ?o"
  fix s1 q
  let ?s2 = "insert_operation ?o ?i observed_at s1"
  assume s1: "insert_policy codec (completion_policy codec) s = Inr s1"
    and q: "start_once codec (outbox_start ?t (identity codec ''qbit-completion-key'' source completed_at)
        COMPLETION_NAME COMPLETION_VERSION ?i (cd_completion_input codec ?o ?t source completed_at observed_at) observed_at)
      (queued_event ?t observed_at (insert_task ?t (queued_row ''qbittorrent_completion'' ?i
        (ps_id (completion_policy codec)) observed_at) ?s2)) = Inr q"
    and c: "(case q of (_, s5) \<Rightarrow> and_then (insert_completion \<lparr>cm_source_id = source, cm_completed_at = completed_at,
        cm_operation_id = ?o, cm_task_id = ?t\<rparr> s5) (\<lambda>(inserted, s6).
          Inr (\<lparr>ac_operation_id = ?o, ac_task_id = ?t, ac_duplicate = (\<not> inserted)\<rparr>, s6))) = Inr (accepted, t)"
  obtain inserted s5 where q5: "q = (inserted, s5)" by (cases q)
  have "st_tasks t = st_tasks s5 \<and> st_events t = st_events s5 \<and> st_outbox t = st_outbox s5"
    using c by (auto simp: q5 and_then_Inr insert_completion_def split: if_splits)
  moreover have "st_tasks ?s2 = st_tasks s" "st_events ?s2 = st_events s" "st_outbox ?s2 = st_outbox s"
    using insert_policy_frame [OF s1] by (simp_all add: insert_operation_def)
  ultimately show thesis by (intro that [OF _ _ _ q [unfolded q5] refl]) simp_all
qed

lemma accept_completion_journal:
  assumes "accept_completion codec source completed_at observed_at s = Inr (accepted, t)"
    and "\<And>k. task_journal_ok s k"
  shows "journal_extends s t k"
  using assms(1)
proof (rule accept_completion_Inr)
  fix s2 s5 start task inserted kind instance_id policy
  assume f: "st_tasks s2 = st_tasks s" "st_events s2 = st_events s"
    and q: "start_once codec start (queued_event task observed_at
       (insert_task task (queued_row kind instance_id policy observed_at) s2)) = Inr (inserted, s5)"
    and t: "st_tasks t = st_tasks s5" "st_events t = st_events s5"
  have "task_journal_ok s2 task" using assms(2) [of task] journal_ok_frame [OF f] by simp
  note e = journal_create [OF this, where task = k and now = observed_at and now' = observed_at
      and kind = kind and instance_id = instance_id and policy = policy]
  show ?thesis
    by (rule journal_extends_frame [THEN iffD1, OF _ _ _ _ e]) (simp_all add: start_once_frame [OF q] f t)
qed

lemma apply_projection_cases:
  assumes "apply_projection update next s = Inr (outcome, t)"
  obtains (kept) "t = s" "\<And>g. outcome \<noteq> Applied g"
  | (applied) row where "st_tasks s (pu_task_id update) = Some row"
      "tk_generation row = pu_expected_generation update" "tk_terminal_at row = None" "outcome = Applied next"
      "st_tasks t = (st_tasks s)(pu_task_id update \<mapsto> projected_row update next row)"
      "st_events t = (st_events s)((pu_task_id update, next) \<mapsto> projected_event update)"
      "st_outbox t = st_outbox s"
proof (cases "st_tasks s (pu_task_id update)")
  case None
  then show thesis using assms kept by (auto simp: apply_projection_def current_outcome_def)
next
  case (Some row)
  show thesis
  proof (cases "tk_generation row = pu_expected_generation update \<and> tk_terminal_at row = None")
    case True
    then have a: "add_event (pu_task_id update) next (projected_event update)
        (set_task (pu_task_id update) (projected_row update next row) s) = Some t" "outcome = Applied next"
      using assms Some by (auto simp: apply_projection_def split: option.splits)
    note e = add_event_Some [OF a(1)]
    show thesis using True by (intro applied [OF Some _ _ a(2)]) (simp_all add: e)
  next
    case False
    then have "t = s" "outcome = current_outcome update s" using assms Some by (auto simp: apply_projection_def)
    then show thesis using kept Some by (simp add: current_outcome_def split: if_splits)
  qed
qed

lemma project_task_cases:
  assumes "project_task codec update seen s = Inr (outcome, t)"
  obtains (kept) "t = s" "\<And>g. outcome \<noteq> Applied g"
  | (applied) row where "st_tasks s (pu_task_id update) = Some row"
      "tk_generation row = pu_expected_generation update" "tk_terminal_at row = None"
      "outcome = Applied (Suc (tk_generation row))"
      "st_tasks t = (st_tasks s)(pu_task_id update \<mapsto> projected_row update (Suc (tk_generation row)) row)"
      "st_events t = (st_events s)((pu_task_id update, Suc (tk_generation row)) \<mapsto> projected_event update)"
      "st_outbox t = st_outbox s"
proof -
  consider "t = s" "\<And>g. outcome \<noteq> Applied g"
    | "apply_projection update (Suc (pu_expected_generation update)) s = Inr (outcome, t)"
    using assms by (auto simp: project_task_def and_then_Inr Let_def ok_or_def checked_add_def
        split: option.splits if_splits)
  then show thesis
  proof cases
    case 1
    then show thesis by (rule kept)
  next
    case 2
    then show thesis
      by (cases rule: apply_projection_cases) (rule kept, assumption+, rule applied, assumption+, simp_all only:)
  qed
qed

lemma projected_row_generation [simp]: "tk_generation (projected_row update g row) = g"
  by (simp add: projected_row_def)

lemma project_task_journal:
  assumes "project_task codec update seen s = Inr (outcome, t)"
  shows "journal_extends s t k"
  using assms by (cases rule: project_task_cases) (simp, rule journal_append, assumption+, simp)


lemma request_cancel_cases:
  assumes "request_cancel codec task now s = Inr (accepted, t)"
  obtains (kept) row where "t = s" "st_tasks s task = Some row" "tk_state row = ''cancellation_requested''"
  | (requested) row s2 where "st_tasks s task = Some row" "tk_terminal_at row = None"
      "st_tasks t = (st_tasks s)(task \<mapsto> row\<lparr>tk_state := ''cancellation_requested'',
         tk_generation := Suc (tk_generation row), tk_reason := Some ''operator_cancel'', tk_updated_at := now\<rparr>)"
      "st_events t = (st_events s)((task, Suc (tk_generation row)) \<mapsto>
         \<lparr>te_state = ''cancellation_requested'', te_reason = Some ''operator_cancel'',
          te_detail = Some (cd_cancel_detail codec (tk_instance_id row) (cancellation_instance task (Suc (tk_generation row)))),
          te_created_at = now\<rparr>)"
      "insert_outbox (outbox_start task
         (cd_sha256 codec (''task-cancellation-v1'' @ task @ be_bytes 8 (Suc (tk_generation row))))
         CANCELLATION_NAME CANCELLATION_VERSION (cancellation_instance task (Suc (tk_generation row)))
         (cd_cancellation_input codec task (tk_instance_id row)) now) s = Some s2" "st_outbox t = st_outbox s2"
proof (cases "st_tasks s task")
  case None
  then show thesis using assms by (simp add: request_cancel_def)
next
  case (Some row)
  have live: "tk_terminal_at row = None" using assms Some by (auto simp: request_cancel_def split: if_splits)
  show thesis
  proof (cases "tk_state row = ''cancellation_requested''")
    case True
    then show thesis using assms Some live by (intro kept [of row]) (auto simp: request_cancel_def)
  next
    case False
    let ?row = "row\<lparr>tk_state := ''cancellation_requested'', tk_generation := Suc (tk_generation row),
      tk_reason := Some ''operator_cancel'', tk_updated_at := now\<rparr>"
    let ?start = "outbox_start task
         (cd_sha256 codec (''task-cancellation-v1'' @ task @ be_bytes 8 (Suc (tk_generation row))))
         CANCELLATION_NAME CANCELLATION_VERSION (cancellation_instance task (Suc (tk_generation row)))
         (cd_cancellation_input codec task (tk_instance_id row)) now"
    obtain g where g: "next_generation row = Inr g"
      using assms Some live False by (cases "next_generation row") (auto simp: request_cancel_def and_then_def)
    note g' = next_generation_Inr [OF g]
    obtain s2 where s2: "insert_outbox ?start (set_task task ?row s) = Some s2"
      and t: "add_event task (Suc (tk_generation row)) \<lparr>te_state = ''cancellation_requested'',
          te_reason = Some ''operator_cancel'', te_detail = Some (cd_cancel_detail codec (tk_instance_id row)
            (cancellation_instance task (Suc (tk_generation row)))), te_created_at = now\<rparr> s2 = Some t"
      using assms Some live False g
      by (auto simp: request_cancel_def and_then_def g' Let_def split: option.splits)
    note i = insert_outbox_Some [OF s2] and e = add_event_Some [OF t]
    have "insert_outbox ?start s = Some (s\<lparr>st_outbox := st_outbox s2\<rparr>)"
      using s2 by (auto simp: insert_outbox_def next_outbox_id_def split: if_splits)
    then show thesis by (rule requested [OF Some live, rotated 2]) (simp_all add: i e)
  qed
qed

lemma request_cancel_journal:
  assumes "request_cancel codec task now s = Inr (accepted, t)"
  shows "journal_extends s t k"
  using assms by (cases rule: request_cancel_cases) (simp, rule journal_append, assumption+, simp)

lemma record_terminal_cases:
  assumes "record_terminal task state reason now s = Inr t"
  obtains (kept) "t = s"
  | (recorded) row where "st_tasks s task = Some row" "tk_state row = ''cancellation_requested''"
      "tk_terminal_at row = None"
      "st_tasks t = (st_tasks s)(task \<mapsto> row\<lparr>tk_state := state, tk_generation := Suc (tk_generation row),
         tk_reason := Some reason, tk_updated_at := now, tk_terminal_at := Some now\<rparr>)"
      "st_events t = (st_events s)((task, Suc (tk_generation row)) \<mapsto>
         \<lparr>te_state = state, te_reason = Some reason, te_detail = None, te_created_at = now\<rparr>)"
      "st_outbox t = st_outbox s"
proof (cases "st_tasks s task")
  case None
  then show thesis using assms kept by (simp add: record_terminal_def)
next
  case (Some row)
  show thesis
  proof (cases "tk_state row = ''cancellation_requested'' \<and> tk_terminal_at row = None")
    case True
    obtain g where g: "next_generation row = Inr g"
      using assms Some True by (cases "next_generation row") (auto simp: record_terminal_def and_then_def)
    note g' = next_generation_Inr [OF g]
    have "add_event task (Suc (tk_generation row)) \<lparr>te_state = state, te_reason = Some reason, te_detail = None,
        te_created_at = now\<rparr> (set_task task (row\<lparr>tk_state := state, tk_generation := Suc (tk_generation row),
         tk_reason := Some reason, tk_updated_at := now, tk_terminal_at := Some now\<rparr>) s) = Some t"
      using assms Some True g by (auto simp: record_terminal_def and_then_def g' split: option.splits)
    note e = add_event_Some [OF this]
    show thesis using True by (intro recorded [OF Some]) (simp_all add: e)
  next
    case False
    then show thesis using assms Some kept by (auto simp: record_terminal_def)
  qed
qed

lemma record_terminal_journal:
  assumes "record_terminal task state reason now s = Inr t"
  shows "journal_extends s t k"
  using assms by (cases rule: record_terminal_cases) (simp, rule journal_append, assumption+, simp)


lemma retry_task_cases:
  assumes "retry_task codec task now s = Inr (accepted, t)"
  obtains row start s1 where "st_tasks s task = Some row"
      "find (\<lambda>o'. ob_instance_id o' = tk_instance_id row) (st_outbox s) = Some start"
      "retryable_kind (tk_kind row)" "tk_terminal_at row \<noteq> None" "tk_state row \<in> set [''failed'', ''cancelled'']"
      "st_tasks t = (st_tasks s)(task \<mapsto> row\<lparr>tk_state := ''queued'', tk_generation := Suc (tk_generation row),
         tk_instance_id := retry_instance (ob_instance_id start) (Suc (tk_generation row)), tk_execution_id := None,
         tk_reason := None, tk_retry_count := tk_retry_count row + 1, tk_updated_at := now, tk_terminal_at := None\<rparr>)"
      "st_events t = (st_events s)((task, Suc (tk_generation row)) \<mapsto>
         \<lparr>te_state = ''queued'', te_reason = Some ''operator_retry'', te_detail = Some (cd_retry_detail codec
            (ob_instance_id start) (retry_instance (ob_instance_id start) (Suc (tk_generation row)))),
          te_created_at = now\<rparr>)"
      "insert_outbox (outbox_start task
         (cd_sha256 codec (''task-retry-v1'' @ ob_task_key start @ be_bytes 8 (Suc (tk_generation row))))
         (ob_orchestration_name start) (ob_orchestration_version start)
         (retry_instance (ob_instance_id start) (Suc (tk_generation row))) (ob_input_json start) now) s = Some s1"
      "st_outbox t = st_outbox s1"
      "ra_instance_id accepted = retry_instance (ob_instance_id start) (Suc (tk_generation row))"
proof -
  obtain row where row: "st_tasks s task = Some row" using assms by (cases "st_tasks s task") (auto simp: retry_task_def)
  obtain start where start: "find (\<lambda>o'. ob_instance_id o' = tk_instance_id row) (st_outbox s) = Some start"
    using assms row by (cases "find (\<lambda>o'. ob_instance_id o' = tk_instance_id row) (st_outbox s)") (auto simp: retry_task_def)
  have guards: "retryable_kind (tk_kind row)" "tk_terminal_at row \<noteq> None" "tk_state row \<in> set [''failed'', ''cancelled'']"
    using assms row start by (auto simp: retry_task_def split: if_splits)
  obtain g where g: "next_generation row = Inr g"
    using assms row start guards by (cases "next_generation row") (auto simp: retry_task_def and_then_def)
  note g' = next_generation_Inr [OF g]
  let ?i = "retry_instance (ob_instance_id start) (Suc (tk_generation row))"
  let ?start = "outbox_start task
         (cd_sha256 codec (''task-retry-v1'' @ ob_task_key start @ be_bytes 8 (Suc (tk_generation row))))
         (ob_orchestration_name start) (ob_orchestration_version start) ?i (ob_input_json start) now"
  let ?row = "row\<lparr>tk_state := ''queued'', tk_generation := Suc (tk_generation row),
         tk_instance_id := ?i, tk_execution_id := None,
         tk_reason := None, tk_retry_count := tk_retry_count row + 1, tk_updated_at := now, tk_terminal_at := None\<rparr>"
  obtain s1 where s1: "insert_outbox ?start s = Some s1"
    and t: "add_event task (Suc (tk_generation row)) \<lparr>te_state = ''queued'', te_reason = Some ''operator_retry'',
        te_detail = Some (cd_retry_detail codec (ob_instance_id start) ?i), te_created_at = now\<rparr>
        (set_task task ?row s1) = Some t"
    and a: "accepted = \<lparr>ra_instance_id = ?i\<rparr>"
    using assms row start guards g
    by (auto simp: retry_task_def and_then_def g' Let_def split: option.splits)
  note i = insert_outbox_Some [OF s1] and e = add_event_Some [OF t]
  show thesis by (rule that [OF row start guards _ _ s1]) (simp_all add: i(1-3) e a)
qed

lemma retry_task_journal:
  assumes "retry_task codec task now s = Inr (accepted, t)"
  shows "journal_extends s t k"
  using assms by (cases rule: retry_task_cases) (rule journal_append, assumption+, simp)

lemma project_completion_journal:
  assumes "project_completion codec operation_id task source completed_at observed_at s = Inr t"
    and "task_journal_ok s task"
  shows "journal_extends s t k"
proof -
  obtain row where row: "st_tasks s task = Some row"
    using assms(1) by (cases "st_tasks s task") (auto simp: project_completion_def)
  let ?e = "\<lparr>te_state = ''completed'', te_reason = None,
    te_detail = Some (cd_completion_detail codec source completed_at), te_created_at = observed_at\<rparr>"
  have c: "task_entries s task n = None \<longleftrightarrow> \<not> n < Suc (tk_generation row)" for n
    using contiguous_iff [OF assms(2) [unfolded task_journal_ok_def], of n] row
    by (simp add: task_version_def next_version_def)
  show ?thesis
  proof (cases "tk_generation row = 0")
    case True
    let ?row = "row\<lparr>tk_state := ''completed'', tk_generation := 1, tk_updated_at := observed_at,
      tk_terminal_at := Some observed_at\<rparr>"
    have "st_events s (task, 1) = None" using c [of 1] True by (simp add: task_entries_def)
    then have "st_events t = (st_events s)((task, 1) \<mapsto> ?e)" "st_tasks t = (st_tasks s)(task \<mapsto> ?row)"
      using assms(1) row True
      by (auto simp: project_completion_def Let_def add_event_def complete_operation_def)
    then show ?thesis using journal_append [OF row, of t ?row ?e k] True by simp
  next
    case False
    have "st_events s (task, 1) \<noteq> None" using c [of 1] False by (auto simp: task_entries_def)
    then have "st_events t = st_events s" "st_tasks t = st_tasks s"
      using assms(1) row False
      by (auto simp: project_completion_def Let_def add_event_def complete_operation_def)
    then show ?thesis by (intro journal_frame) simp_all
  qed
qed

lemma update_task_journal:
  assumes "\<And>row. tk_generation (f row) = tk_generation row"
  shows "journal_extends s (update_task task f s) k"
  by (rule journal_frame) (auto simp: update_task_def assms split: option.splits)

lemma workflow_updates_journal:
  "journal_extends s (mark_searching task now s) k" "journal_extends s (search_wait task reason now s) k"
  "journal_extends s (search_finish task reason failed now s) k" "journal_extends s (backfill_page task finished now s) k"
  "journal_extends s (scan_running task now s) k" "journal_extends s (scan_finish task reason failed now s) k"
  unfolding mark_searching_def search_wait_def search_finish_def backfill_page_def scan_running_def scan_finish_def
  by (rule update_task_journal, simp)+


section \<open>Accepting the same work again\<close>

text \<open>The same task, submitted at other times.\<close>

definition retimed :: "int \<Rightarrow> int \<Rightarrow> new_task \<Rightarrow> new_task" where
  "retimed now policy_now task =
     task\<lparr>nt_created_at := now, nt_policy := (nt_policy task)\<lparr>ps_created_at := policy_now\<rparr>\<rparr>"

lemma retimed_fields [simp]:
  "nt_id (retimed now policy_now task) = nt_id task" "nt_key (retimed now policy_now task) = nt_key task"
  "nt_kind (retimed now policy_now task) = nt_kind task" "nt_instance_id (retimed now policy_now task) = nt_instance_id task"
  "nt_orchestration_name (retimed now policy_now task) = nt_orchestration_name task"
  "nt_orchestration_version (retimed now policy_now task) = nt_orchestration_version task"
  "nt_input_json (retimed now policy_now task) = nt_input_json task"
  "nt_policy (retimed now policy_now task) = (nt_policy task)\<lparr>ps_created_at := policy_now\<rparr>"
  by (simp_all add: retimed_def)

lemma verify_retimed:
  "verify_policy ((nt_policy task)\<lparr>ps_created_at := policy_now\<rparr>) s = verify_policy (nt_policy task) s"
  "verify_task (retimed now policy_now task) s = verify_task task s"
  "verify_outbox (retimed now policy_now task) s = verify_outbox task s"
proof -
  have p: "ps_id ((nt_policy task)\<lparr>ps_created_at := policy_now\<rparr>) = ps_id (nt_policy task)"
    "ps_config_hash ((nt_policy task)\<lparr>ps_created_at := policy_now\<rparr>) = ps_config_hash (nt_policy task)"
    "ps_matcher_version ((nt_policy task)\<lparr>ps_created_at := policy_now\<rparr>) = ps_matcher_version (nt_policy task)"
    "ps_payload_json ((nt_policy task)\<lparr>ps_created_at := policy_now\<rparr>) = ps_payload_json (nt_policy task)" by simp_all
  show "verify_policy ((nt_policy task)\<lparr>ps_created_at := policy_now\<rparr>) s = verify_policy (nt_policy task) s"
    unfolding verify_policy_def p ..
  show "verify_task (retimed now policy_now task) s = verify_task task s"
    unfolding verify_task_def retimed_fields p ..
  show "verify_outbox (retimed now policy_now task) s = verify_outbox task s"
    unfolding verify_outbox_def retimed_fields ..
qed

lemma queued_event_frame [simp]:
  "st_tasks (queued_event k now s) = st_tasks s" "st_outbox (queued_event k now s) = st_outbox s"
  "st_policies (queued_event k now s) = st_policies s"
  by (auto simp: queued_event_def add_event_def split: option.splits)

lemma find_SomeD: "find p xs = Some x \<Longrightarrow> x \<in> set xs \<and> p x"
  by (auto simp: find_Some_iff)

lemma insert_policy_again:
  assumes "insert_policy codec policy s = Inr s1" and "st_policies t = st_policies s1"
  shows "insert_policy codec (policy\<lparr>ps_created_at := now\<rparr>) t = Inr t"
  using assms by (auto simp: insert_policy_def split: if_splits)

lemma accept_again_at:
  assumes "accept_task_in codec task s = Inr (inserted, t)"
  shows "accept_task_in codec (retimed now policy_now task) t = Inr (False, t)"
  using assms
proof (rule accept_task_in_Inr)
  let ?task = "retimed now policy_now task"
  fix s1
  assume s1: "insert_policy codec (nt_policy task) s = Inr s1" "verify_policy (nt_policy task) s1 = Inr ()"
    and t: "start_once codec (start_of task) (queued_event (nt_id task) (nt_created_at task)
      (insert_task (nt_id task) (row_of task) s1)) = Inr (inserted, t)"
    and v: "verify_task task (insert_task (nt_id task) (row_of task) s1) = Inr ()" and o: "verify_outbox task t = Inr ()"
  have json: "cd_json_valid codec (ob_input_json (start_of ?task))"
    using t by (simp add: start_once_def start_of_def outbox_start_def split: if_splits)
  have pol: "st_policies t = st_policies s1"
    using t by (auto simp: start_once_def insert_outbox_def insert_task_def queued_event_def add_event_def
        split: if_splits option.splits)
  note f = start_once_frame [OF t]
  have "st_events t (nt_id task, 0) \<noteq> None"
    unfolding f by (auto simp: queued_event_def add_event_def split: option.splits if_splits)
  then have ev: "queued_event (nt_id ?task) (nt_created_at ?task) t = t"
    by (auto simp: queued_event_def add_event_def)
  have tk: "st_tasks t (nt_id task) = st_tasks (insert_task (nt_id task) (row_of task) s1) (nt_id task)" by (simp add: f)
  then have "st_tasks t (nt_id task) \<noteq> None" by (simp add: insert_task_def)
  then have ins: "insert_task (nt_id ?task) (row_of ?task) t = t" by (auto simp: insert_task_def)
  have vt: "verify_task ?task t = Inr ()" using v tk unfolding verify_retimed by (simp add: verify_task_def)
  have vp: "verify_policy (nt_policy ?task) t = Inr ()"
    using s1(2) pol unfolding retimed_fields verify_retimed by (simp add: verify_policy_def)
  have vo: "verify_outbox ?task t = Inr ()" using o unfolding verify_retimed .
  have "list_ex (\<lambda>o'. ob_task_key o' = ob_task_key (start_of ?task)) (st_outbox t)"
    using o by (auto simp: verify_outbox_def list_ex_iff start_of_def outbox_start_def dest: find_SomeD
        split: option.splits)
  then have st: "start_once codec (start_of ?task) t = Inr (False, t)" using json by (simp add: start_once_def)
  have ip: "insert_policy codec (nt_policy ?task) t = Inr t"
    using insert_policy_again [OF s1(1) pol] by simp
  show ?thesis unfolding accept_task_in_def ip and_then_simps vp Let_def ins vt ev st prod.case vo ..
qed

end
