(* ===== verification/Paths.thy ===== *)
theory Paths
  imports Hardlink
begin

text \<open>
  Path rewriting between the services, \<open>Paths\<close> and \<open>rewrite_path\<close> of
  \<open>crates/sporos-service/src/config.rs\<close>: a rewrite maps a remote directory to a
  local one for some services; of several that apply the longest prefix wins.
\<close>

section \<open>Rewriting\<close>

record path_rewrite =
  rw_remote :: string
  rw_local :: string
  rw_services :: "string list"

definition path_strip_prefix :: "string \<Rightarrow> string \<Rightarrow> path_component list option" where
  "path_strip_prefix path from =
     (if prefix (components from) (components path)
      then Some (drop (length (components from)) (components path)) else None)"

fun component_text :: "path_component \<Rightarrow> string" where
  "component_text RootDir = ''/''"
| "component_text CurDir = ''.''"
| "component_text ParentDir = ''..''"
| "component_text (Normal n) = n"

fun relative_text :: "path_component list \<Rightarrow> string" where
  "relative_text [] = ''''"
| "relative_text [c] = component_text c"
| "relative_text (c # cs) = component_text c @ ''/'' @ relative_text cs"

definition path_join :: "string \<Rightarrow> path_component list \<Rightarrow> string" where
  "path_join base rest =
     (if base = [] \<or> last base = CHR ''/'' then base @ relative_text rest
      else base @ ''/'' @ relative_text rest)"

text \<open>\<open>Iterator::max_by_key\<close> returns the last of several maxima.\<close>

fun last_longest :: "(nat \<times> string) list \<Rightarrow> (nat \<times> string) option" where
  "last_longest [] = None"
| "last_longest (x # xs) =
     (case last_longest xs of None \<Rightarrow> Some x | Some y \<Rightarrow> if fst x > fst y then Some x else Some y)"

definition rewrite_path ::
  "path_rewrite list \<Rightarrow> string \<Rightarrow> string \<Rightarrow> (path_rewrite \<Rightarrow> string \<times> string) \<Rightarrow> string option" where
  "rewrite_path rewrites service path direction =
     map_option snd (last_longest (List.map_filter (\<lambda>rewrite.
         (case direction rewrite of (from, to) \<Rightarrow>
            map_option (\<lambda>rest. (length (components from), path_join to rest)) (path_strip_prefix path from)))
       (filter (\<lambda>rewrite. service \<in> set (rw_services rewrite)) rewrites)))"

definition remote_to_local :: "path_rewrite list \<Rightarrow> string \<Rightarrow> string \<Rightarrow> string option" where
  "remote_to_local rewrites service path = rewrite_path rewrites service path (\<lambda>r. (rw_remote r, rw_local r))"

definition local_to_remote :: "path_rewrite list \<Rightarrow> string \<Rightarrow> string \<Rightarrow> string option" where
  "local_to_remote rewrites service path = rewrite_path rewrites service path (\<lambda>r. (rw_local r, rw_remote r))"

record paths =
  pa_link_root :: string
  pa_rewrite :: "path_rewrite list"

definition qbit_link_root :: "paths \<Rightarrow> string option" where
  "qbit_link_root p = local_to_remote (pa_rewrite p) ''qbittorrent'' (pa_link_root p)"

end
