(* ===== verification/Injection.thy ===== *)
theory Injection
  imports Piece_Inspection Torrent Tasks Paths
begin

text \<open>
  The injection workflow, \<open>crates/sporos-service/src/injection.rs\<close>: the four
  activities, the storage statements that they run, and the orchestration that
  sequences them.

  The state of the world is the database rows of one injection, the file system
  and the commands sent to qBittorrent.  Everything that is outside the repository
  answers through the record \<open>env\<close>, and each activity execution gets an
  environment of its own: the qBittorrent Web API, the file system calls, and the
  failure of any SQL statement.  Timestamps and log events are left out.  A
  progress value is the parts per million that the code computes from the \<open>f64\<close>,
  or \<open>None\<close> when it is not finite or not between zero and one.
\<close>

section \<open>qBittorrent\<close>

record torrent_state =
  ts_hash :: string
  ts_state :: string
  ts_amount_left :: nat
  ts_progress :: "nat option"
  ts_save_path :: string
  ts_auto_tmm :: bool

definition is_stopped :: "torrent_state \<Rightarrow> bool" where
  "is_stopped t \<longleftrightarrow> prefix ''stopped'' (ts_state t)"

definition is_checking :: "torrent_state \<Rightarrow> bool" where
  "is_checking t \<longleftrightarrow> prefix ''checking'' (ts_state t)"

definition is_started :: "torrent_state \<Rightarrow> bool" where
  "is_started t \<longleftrightarrow> ts_state t \<in> set [''downloading'', ''forcedDL'', ''queuedDL'', ''stalledDL'', ''metaDL'',
     ''uploading'', ''forcedUP'', ''queuedUP'', ''stalledUP'']"

datatype qbit_command =
    StartTorrent string
  | StopTorrent string
  | AddStopped string string "string option" "string list"
  | ForceRecheck string

section \<open>Plans\<close>

record link_row =
  lr_candidate_ordinal :: nat
  lr_candidate_path :: string
  lr_source_root_remote :: string
  lr_source_path :: string
  lr_source_service :: string
  lr_size :: nat
  lr_device :: "nat option"
  lr_inode :: "nat option"
  lr_source_file_id :: nat

record injection_plan =
  ip_blob :: string
  ip_manifest :: torrent_manifest
  ip_namespace_local_root :: string
  ip_path_rewrites :: "path_rewrite list"
  ip_namespace_local :: string
  ip_save_path_remote :: string
  ip_category :: string
  ip_tags :: "string list"
  ip_resume :: resume_policy
  ip_mappings :: "link_row list"
  ip_injection_state :: "string option"
  ip_resume_decision :: "string option"

definition mapped_ordinals :: "injection_plan \<Rightarrow> nat set" where
  "mapped_ordinals plan = set (map lr_candidate_ordinal (ip_mappings plan))"

definition plan_hashes :: "injection_plan \<Rightarrow> (injection_error, string list) result" where
  "plan_hashes plan =
     (let hashes = (case ih_v1 (tm_hashes (ip_manifest plan)) of None \<Rightarrow> [] | Some h \<Rightarrow> [encode_hex h]) @
        (case ih_v2 (tm_hashes (ip_manifest plan)) of None \<Rightarrow> [] | Some h \<Rightarrow> [encode_hex h])
      in if hashes = [] then Inl MissingHash else Inr hashes)"

definition plan_hash :: "injection_plan \<Rightarrow> (injection_error, string) result" where
  "plan_hash plan = and_then (plan_hashes plan) (\<lambda>hashes. Inr (hd hashes))"

definition namespace_relative :: "injection_plan \<Rightarrow> (injection_error, string) result" where
  "namespace_relative plan =
     (case path_strip_prefix (ip_namespace_local plan) (ip_namespace_local_root plan) of
        None \<Rightarrow> Inl NamespaceOutsideRoot
      | Some cs \<Rightarrow> Inr (relative_text cs))"

fun plan_links :: "path_rewrite list \<Rightarrow> link_row list \<Rightarrow> (injection_error, planned_link list) result" where
  "plan_links rewrites [] = Inr []"
| "plan_links rewrites (row # rows) =
     and_then (if lr_source_service row = ''data'' then Inr (lr_source_root_remote row)
               else ok_or UnmappedSourceRoot
                 (remote_to_local rewrites (lr_source_service row) (lr_source_root_remote row))) (\<lambda>source_root.
     and_then (plan_links rewrites rows) (\<lambda>links.
       Inr (\<lparr> pl_source_root = source_root, pl_source_relative = lr_source_path row,
              pl_destination_relative = lr_candidate_path row, pl_expected_size = lr_size row,
              pl_expected_device = lr_device row, pl_expected_inode = lr_inode row \<rparr> # links)))"

definition planned_links :: "injection_plan \<Rightarrow> (injection_error, planned_link list) result" where
  "planned_links plan = plan_links (ip_path_rewrites plan) (ip_mappings plan)"

definition same_save_path :: "string \<Rightarrow> string \<Rightarrow> bool" where
  "same_save_path actual expected \<longleftrightarrow>
     rev (dropWhile (\<lambda>c. c = CHR ''/'') (rev actual)) = rev (dropWhile (\<lambda>c. c = CHR ''/'') (rev expected))"

section \<open>Step results\<close>

datatype step_result =
    Ready
  | Waiting nat
  | Terminal string string

definition POLL_DELAY_MS :: nat where "POLL_DELAY_MS = 2000"
definition MAX_FINAL_VERIFY_ATTEMPTS :: nat where "MAX_FINAL_VERIFY_ATTEMPTS = 30"

definition waiting :: step_result where
  "waiting = Waiting POLL_DELAY_MS"

datatype recheck_outcome = ObserveChecking | ObserveSettling | ObserveWaiting | ObserveInspect

definition recheck_observation :: "string option \<Rightarrow> torrent_state \<Rightarrow> recheck_outcome" where
  "recheck_observation injection_state torrent =
     (if is_checking torrent then ObserveChecking
      else if ts_state torrent \<in> set [''queuedDL'', ''queuedUP''] then ObserveWaiting
      else if injection_state = Some ''recheck_requested'' then ObserveSettling
      else if injection_state \<in> set [Some ''recheck_settling'', Some ''checking''] then ObserveInspect
      else ObserveWaiting)"

definition materialize_reason :: "materialize_error \<Rightarrow> string" where
  "materialize_reason e =
     (case e of
        DeviceMismatch \<Rightarrow> ''hardlink_device_mismatch''
      | LinkConflict \<Rightarrow> ''link_conflict''
      | SourceIdentityChanged \<Rightarrow> ''source_changed''
      | SourceSizeChanged \<Rightarrow> ''source_changed''
      | _ \<Rightarrow> ''hardlink_materialization_failed'')"

definition retryable_injection :: "injection_error \<Rightarrow> bool" where
  "retryable_injection e =
     (case e of
        Database \<Rightarrow> True | MaterializerTask \<Rightarrow> True | PieceParserTask \<Rightarrow> True | Filesystem \<Rightarrow> True
      | Qbittorrent retryable \<Rightarrow> retryable
      | Projection transient \<Rightarrow> transient
      | _ \<Rightarrow> False)"

section \<open>Stored rows\<close>

record injection_input =
  ii_task_id :: task_id
  ii_candidate_id :: candidate_id
  ii_plan_id :: string

record plan_row =
  pr_blob :: string
  pr_manifest_json :: "string option"
  pr_payload_json :: string
  pr_namespace_local :: string
  pr_save_path_remote :: string
  pr_category :: string
  pr_tags_json :: string
  pr_resume_policy_json :: string

text \<open>A row of the join; \<open>lj_save_path\<close> is present when the source is a qBittorrent torrent.\<close>

record link_join_row =
  lj_candidate_ordinal :: int
  lj_candidate_path :: string
  lj_save_path :: "string option"
  lj_display_path :: string
  lj_local_path :: "string option"
  lj_size :: int
  lj_device :: "int option"
  lj_inode :: "int option"
  lj_id :: int

record injection_row =
  ir_v1_hash :: "string option"
  ir_v2_hash :: "string option"
  ir_qbit_state :: string
  ir_amount_left :: nat
  ir_progress_ppm :: nat
  ir_integrity_safe :: "bool option"
  ir_resume_decision :: "string option"
  ir_state :: string
  ir_verification_attempts :: nat

record stored_link =
  sl_source_file_id :: nat
  sl_destination :: string
  sl_device :: nat
  sl_inode :: nat
  sl_size :: nat

text \<open>The JSON columns of the plan, decoded by \<open>serde_json\<close>.\<close>

record decoders =
  dc_manifest :: "string \<Rightarrow> torrent_manifest option"
  dc_policy :: "string \<Rightarrow> (string \<times> path_rewrite list) option"
  dc_resume :: "string \<Rightarrow> resume_policy option"
  dc_tags :: "string \<Rightarrow> string list option"

text \<open>
  \<open>w_sent\<close> is the sequence of the commands that were sent to qBittorrent, each with
  the injection row as it was stored at that moment.
\<close>

record 's world =
  w_plan :: "plan_row option"
  w_link_sources :: "link_join_row list"
  w_injection :: "injection_row option"
  w_links :: "nat \<Rightarrow> stored_link option"
  w_plan_state :: string
  w_candidate_state :: string
  w_store :: task_store
  w_fs :: 's
  w_sent :: "(qbit_command \<times> injection_row option) list"

datatype sql =
    SqlLoad | SqlLoadLinks | SqlUpsertInjection | SqlPlanState | SqlLinks | SqlInjectionState | SqlResetAttempts
  | SqlObservation | SqlDecision | SqlBump | SqlReadAttempts | SqlCandidateState | SqlTask

record 's env =
  en_qbit :: bool
  en_fault :: "sql \<Rightarrow> bool"
  en_codec :: codec
  en_decoders :: decoders
  en_now :: int
  en_detail :: "string \<Rightarrow> string"
  en_contract :: "(injection_error, unit) result"
  en_torrent_state :: "string \<Rightarrow> (injection_error, torrent_state option) result"
  en_command :: "qbit_command \<Rightarrow> (injection_error, unit) result"
  en_pieces :: "string \<Rightarrow> (injection_error, nat list \<times> bool) result"
  en_create_root :: "'s \<Rightarrow> string \<Rightarrow> (injection_error, unit) result \<times> 's"
  en_fs :: "'s fs_ops"

type_synonym ('s, 'a) outcome = "(injection_error, 'a) result \<times> 's world"

definition and_run :: "('s, 'a) outcome \<Rightarrow> ('a \<Rightarrow> 's world \<Rightarrow> ('s, 'b) outcome) \<Rightarrow> ('s, 'b) outcome" where
  "and_run r f = (case r of (Inl e, w) \<Rightarrow> (Inl e, w) | (Inr x, w) \<Rightarrow> f x w)"

definition lift :: "(injection_error, 'a) result \<Rightarrow> 's world \<Rightarrow> ('s, 'a) outcome" where
  "lift r w = (r, w)"

definition execute :: "'s env \<Rightarrow> sql \<Rightarrow> ('s world \<Rightarrow> 's world) \<Rightarrow> 's world \<Rightarrow> ('s, unit) outcome" where
  "execute env statement f w = (if en_fault env statement then (Inl Database, w) else (Inr (), f w))"

text \<open>A command is recorded when it is sent, whatever the answer.\<close>

definition send :: "'s env \<Rightarrow> qbit_command \<Rightarrow> 's world \<Rightarrow> ('s, unit) outcome" where
  "send env command w = (en_command env command, w\<lparr>w_sent := w_sent w @ [(command, w_injection w)]\<rparr>)"

definition update_row :: "(injection_row \<Rightarrow> injection_row) \<Rightarrow> 's world \<Rightarrow> 's world" where
  "update_row f w = w\<lparr>w_injection := map_option f (w_injection w)\<rparr>"

section \<open>Loading a plan\<close>

definition to_u64 :: "string \<Rightarrow> int \<Rightarrow> (injection_error, nat) result" where
  "to_u64 field value = (if value < 0 then Inl (StoredRange field) else Inr (nat value))"

definition to_u32 :: "string \<Rightarrow> int \<Rightarrow> (injection_error, nat) result" where
  "to_u32 field value = (if value < 0 \<or> int u32_max < value then Inl (StoredRange field) else Inr (nat value))"

definition optional_u64 :: "string \<Rightarrow> int option \<Rightarrow> (injection_error, nat option) result" where
  "optional_u64 field value =
     (case value of None \<Rightarrow> Inr None | Some v \<Rightarrow> and_then (to_u64 field v) (\<lambda>n. Inr (Some n)))"

definition to_i64 :: "string \<Rightarrow> nat \<Rightarrow> (injection_error, nat) result" where
  "to_i64 field value = (if value > i64_max then Inl (Range field) else Inr value)"

text \<open>
  \<open>Path::parent\<close> keeps the text before the last component, without the separators
  and the \<open>.\<close> components at its end.
\<close>

definition path_parent :: "string \<Rightarrow> string option" where
  "path_parent path =
     (let trim_end = (\<lambda>parts. rev (dropWhile (\<lambda>c. c = [] \<or> c = ''.'') (rev parts)))
      in case split_char CHR ''/'' path of
           [] \<Rightarrow> None
         | first # rest \<Rightarrow>
             if trim_end rest = [] then (if first = [] then None else Some [])
             else (let kept = trim_end (butlast (trim_end rest))
                   in if first = [] \<and> kept = [] then Some ''/'' else Some (join_path (first # kept))))"

definition source_location :: "link_join_row \<Rightarrow> (injection_error, string \<times> string \<times> string) result" where
  "source_location row =
     (case lj_save_path row of
        Some save_path \<Rightarrow> Inr (save_path, lj_display_path row, ''qbittorrent'')
      | None \<Rightarrow>
          and_then (ok_or InvalidSourcePath (lj_local_path row)) (\<lambda>local_path.
          and_then (ok_or InvalidSourcePath (path_parent local_path)) (\<lambda>parent.
          and_then (ok_or InvalidSourcePath (file_name local_path)) (\<lambda>name. Inr (parent, name, ''data'')))))"

definition load_link_row :: "link_join_row \<Rightarrow> (injection_error, link_row) result" where
  "load_link_row row =
     and_then (source_location row) (\<lambda>(root, path, service).
     and_then (to_u32 ''ordinal'' (lj_candidate_ordinal row)) (\<lambda>ordinal.
     and_then (to_u64 ''size'' (lj_size row)) (\<lambda>size.
     and_then (optional_u64 ''device'' (lj_device row)) (\<lambda>device.
     and_then (optional_u64 ''inode'' (lj_inode row)) (\<lambda>inode.
     and_then (to_u64 ''source file ID'' (lj_id row)) (\<lambda>file_id.
       Inr \<lparr> lr_candidate_ordinal = ordinal, lr_candidate_path = lj_candidate_path row,
             lr_source_root_remote = root, lr_source_path = path, lr_source_service = service,
             lr_size = size, lr_device = device, lr_inode = inode, lr_source_file_id = file_id \<rparr>))))))"

fun load_link_rows :: "link_join_row list \<Rightarrow> (injection_error, link_row list) result" where
  "load_link_rows [] = Inr []"
| "load_link_rows (row # rows) =
     and_then (load_link_row row) (\<lambda>r. and_then (load_link_rows rows) (\<lambda>rs. Inr (r # rs)))"

definition load_plan :: "'s env \<Rightarrow> 's world \<Rightarrow> (injection_error, injection_plan) result" where
  "load_plan env w =
     (if en_fault env SqlLoad then Inl Database
      else and_then (ok_or MissingPlan (w_plan w)) (\<lambda>row.
      and_then (ok_or MissingManifest (pr_manifest_json row)) (\<lambda>manifest_json.
      and_then (ok_or Json (dc_manifest (en_decoders env) manifest_json)) (\<lambda>manifest.
      and_then (ok_or Json (dc_policy (en_decoders env) (pr_payload_json row))) (\<lambda>(root, rewrites).
      and_then (ok_or Json (dc_resume (en_decoders env) (pr_resume_policy_json row))) (\<lambda>resume.
      if en_fault env SqlLoadLinks then Inl Database
      else and_then (load_link_rows (take 100000 (w_link_sources w))) (\<lambda>mappings.
      and_then (ok_or Json (dc_tags (en_decoders env) (pr_tags_json row))) (\<lambda>tags.
        Inr \<lparr> ip_blob = pr_blob row, ip_manifest = manifest, ip_namespace_local_root = root,
              ip_path_rewrites = rewrites, ip_namespace_local = pr_namespace_local row,
              ip_save_path_remote = pr_save_path_remote row, ip_category = pr_category row, ip_tags = tags,
              ip_resume = resume, ip_mappings = mappings,
              ip_injection_state = map_option ir_state (w_injection w),
              ip_resume_decision = Option.bind (w_injection w) ir_resume_decision \<rparr>))))))))"

definition load_injection :: "'s env \<Rightarrow> 's world \<Rightarrow> ('s, injection_plan) outcome" where
  "load_injection env w = (load_plan env w, w)"

section \<open>Storage statements\<close>

definition observed :: "torrent_state \<Rightarrow> (injection_error, nat \<times> nat) result" where
  "observed state =
     and_then (to_i64 ''amount left'' (ts_amount_left state)) (\<lambda>amount_left.
     and_then (ok_or InvalidProgress (ts_progress state)) (\<lambda>progress. Inr (amount_left, progress)))"

definition set_plan_state :: "'s env \<Rightarrow> string \<Rightarrow> 's world \<Rightarrow> ('s, unit) outcome" where
  "set_plan_state env state = execute env SqlPlanState (\<lambda>w. w\<lparr>w_plan_state := state\<rparr>)"

definition record_injection ::
  "'s env \<Rightarrow> injection_plan \<Rightarrow> torrent_state \<Rightarrow> string \<Rightarrow> bool option \<Rightarrow> string option \<Rightarrow> 's world \<Rightarrow> ('s, unit) outcome" where
  "record_injection env plan state injection_state integrity_safe resume_decision w =
     and_run (lift (observed state) w) (\<lambda>(amount_left, progress) w.
     and_run (execute env SqlUpsertInjection (\<lambda>w. w\<lparr>w_injection := Some (case w_injection w of
         None \<Rightarrow> \<lparr> ir_v1_hash = ih_v1 (tm_hashes (ip_manifest plan)), ir_v2_hash = ih_v2 (tm_hashes (ip_manifest plan)),
                   ir_qbit_state = ts_state state, ir_amount_left = amount_left, ir_progress_ppm = progress,
                   ir_integrity_safe = integrity_safe, ir_resume_decision = resume_decision,
                   ir_state = injection_state, ir_verification_attempts = 0 \<rparr>
       | Some row \<Rightarrow> row\<lparr> ir_qbit_state := ts_state state, ir_amount_left := amount_left, ir_progress_ppm := progress,
                   ir_integrity_safe := integrity_safe, ir_resume_decision := resume_decision,
                   ir_state := injection_state \<rparr>)\<rparr>) w) (\<lambda>_ w.
     set_plan_state env injection_state w))"

definition stored_link_of :: "link_row \<Rightarrow> materialized_link \<Rightarrow> (injection_error, stored_link) result" where
  "stored_link_of mapping link =
     and_then (to_i64 ''source file ID'' (lr_source_file_id mapping)) (\<lambda>file_id.
     and_then (to_i64 ''link device'' (mk_device link)) (\<lambda>device.
     and_then (to_i64 ''link inode'' (mk_inode link)) (\<lambda>inode.
     and_then (to_i64 ''link size'' (mk_size link)) (\<lambda>size.
       Inr \<lparr> sl_source_file_id = file_id, sl_destination = mk_destination_relative link, sl_device = device,
             sl_inode = inode, sl_size = size \<rparr>))))"

definition upsert_link :: "nat \<Rightarrow> stored_link \<Rightarrow> (nat \<Rightarrow> stored_link option) \<Rightarrow> nat \<Rightarrow> stored_link option" where
  "upsert_link ordinal link links =
     links(ordinal \<mapsto> (case links ordinal of
        None \<Rightarrow> link
      | Some row \<Rightarrow> row\<lparr>sl_device := sl_device link, sl_inode := sl_inode link, sl_size := sl_size link\<rparr>))"

fun upsert_links ::
  "(link_row \<times> materialized_link) list \<Rightarrow> (nat \<Rightarrow> stored_link option) \<Rightarrow> (injection_error, nat \<Rightarrow> stored_link option) result" where
  "upsert_links [] links = Inr links"
| "upsert_links ((mapping, link) # rest) links =
     and_then (stored_link_of mapping link) (\<lambda>row.
       upsert_links rest (upsert_link (lr_candidate_ordinal mapping) row links))"

text \<open>One transaction.\<close>

definition persist_links ::
  "'s env \<Rightarrow> injection_plan \<Rightarrow> materialized_link list \<Rightarrow> bool \<Rightarrow> 's world \<Rightarrow> ('s, unit) outcome" where
  "persist_links env plan links complete w =
     (let state = (if complete then ''links_complete'' else ''links_partial'')
      in and_run (lift (upsert_links (zip (ip_mappings plan) links) (w_links w)) w) (\<lambda>stored w.
         execute env SqlLinks (\<lambda>w. update_row (\<lambda>row. row\<lparr>ir_state := state\<rparr>)
           (w\<lparr>w_links := stored, w_plan_state := state\<rparr>)) w))"

definition set_injection_state :: "'s env \<Rightarrow> string \<Rightarrow> 's world \<Rightarrow> ('s, unit) outcome" where
  "set_injection_state env state w =
     and_run (execute env SqlInjectionState (update_row (\<lambda>row. row\<lparr>ir_state := state\<rparr>)) w) (\<lambda>_ w.
       if state = ''recheck_requested''
       then execute env SqlResetAttempts (update_row (\<lambda>row. row\<lparr>ir_verification_attempts := 0\<rparr>)) w
       else (Inr (), w))"

definition observe_row :: "torrent_state \<Rightarrow> nat \<Rightarrow> nat \<Rightarrow> injection_row \<Rightarrow> injection_row" where
  "observe_row state amount_left progress row =
     row\<lparr> ir_qbit_state := ts_state state, ir_amount_left := amount_left, ir_progress_ppm := progress \<rparr>"

definition update_qbit_observation :: "'s env \<Rightarrow> torrent_state \<Rightarrow> string \<Rightarrow> 's world \<Rightarrow> ('s, unit) outcome" where
  "update_qbit_observation env state injection_state w =
     and_run (lift (observed state) w) (\<lambda>(amount_left, progress) w.
       execute env SqlObservation (update_row (\<lambda>row.
         (observe_row state amount_left progress row)\<lparr>ir_state := injection_state\<rparr>)) w)"

definition record_resume_decision ::
  "'s env \<Rightarrow> torrent_state \<Rightarrow> piece_inspection \<Rightarrow> bool \<Rightarrow> 's world \<Rightarrow> ('s, unit) outcome" where
  "record_resume_decision env state integrity resume w =
     and_run (lift (observed state) w) (\<lambda>(amount_left, progress) w.
       execute env SqlDecision (update_row (\<lambda>row.
         (observe_row state amount_left progress row)\<lparr>
           ir_integrity_safe := Some (pi_integrity_safe integrity),
           ir_resume_decision := Some (if resume then ''resume'' else ''stop''),
           ir_state := ''finalizing'', ir_verification_attempts := 0 \<rparr>)) w)"

definition bump_verification :: "'s env \<Rightarrow> torrent_state \<Rightarrow> 's world \<Rightarrow> ('s, nat) outcome" where
  "bump_verification env state w =
     and_run (lift (observed state) w) (\<lambda>(amount_left, progress) w.
     and_run (execute env SqlBump (update_row (\<lambda>row.
         (observe_row state amount_left progress row)\<lparr>ir_verification_attempts := ir_verification_attempts row + 1\<rparr>)) w)
       (\<lambda>_ w. if en_fault env SqlReadAttempts then (Inl Database, w)
              else lift (ok_or Database (map_option ir_verification_attempts (w_injection w))) w))"

definition transient_projection :: "candidate_projection_error \<Rightarrow> bool" where
  "transient_projection e = (case e of TaskProjection ProjectionDatabase \<Rightarrow> True | _ \<Rightarrow> False)"

definition project_candidate_state ::
  "'s env \<Rightarrow> injection_input \<Rightarrow> string \<Rightarrow> string option \<Rightarrow> bool \<Rightarrow> 's world \<Rightarrow> ('s, unit) outcome" where
  "project_candidate_state env input state reason terminal w =
     (if en_fault env SqlTask then (Inl (Projection True), w)
      else case project_candidate_task (en_codec env) (ii_task_id input) state reason terminal
                  (en_detail env (encode_hex (ii_plan_id input))) (en_now env) (w_store w) of
             Inl e \<Rightarrow> (Inl (Projection (transient_projection e)), w)
           | Inr store \<Rightarrow> (Inr (), w\<lparr>w_store := store\<rparr>))"

definition finish_injection ::
  "'s env \<Rightarrow> injection_input \<Rightarrow> torrent_state \<Rightarrow> bool \<Rightarrow> 's world \<Rightarrow> ('s, unit) outcome" where
  "finish_injection env input state resumed w =
     and_run (lift (observed state) w) (\<lambda>(amount_left, progress) w.
     and_run (execute env SqlInjectionState (update_row (\<lambda>row.
         (observe_row state amount_left progress row)\<lparr>ir_state := ''completed''\<rparr>)) w) (\<lambda>_ w.
     and_run (set_plan_state env ''completed'' w) (\<lambda>_ w.
     and_run (execute env SqlCandidateState (\<lambda>w. w\<lparr>w_candidate_state := ''completed''\<rparr>) w) (\<lambda>_ w.
       project_candidate_state env input ''completed''
         (Some (if resumed then ''resumed'' else ''left_stopped'')) True w))))"

definition fail_injection :: "'s env \<Rightarrow> injection_input \<Rightarrow> string \<Rightarrow> 's world \<Rightarrow> ('s, unit) outcome" where
  "fail_injection env input reason w =
     and_run (set_plan_state env ''failed'' w) (\<lambda>_ w.
     and_run (execute env SqlInjectionState (update_row (\<lambda>row. row\<lparr>ir_state := ''failed''\<rparr>)) w) (\<lambda>_ w.
     and_run (execute env SqlCandidateState (\<lambda>w. w\<lparr>w_candidate_state := ''failed''\<rparr>) w) (\<lambda>_ w.
       project_candidate_state env input ''failed'' (Some reason) True w)))"


section \<open>Activities\<close>

definition fail :: "'s env \<Rightarrow> injection_input \<Rightarrow> string \<Rightarrow> 's world \<Rightarrow> ('s, step_result) outcome" where
  "fail env input reason w =
     and_run (fail_injection env input reason w) (\<lambda>_ w. (Inr (Terminal ''failed'' reason), w))"

definition on_fs :: "('s \<Rightarrow> (materialize_error, 'a) result \<times> 's) \<Rightarrow> 's world \<Rightarrow> ('s, 'a) outcome" where
  "on_fs f w = (case f (w_fs w) of (r, s) \<Rightarrow> (map_err Materialize r, w\<lparr>w_fs := s\<rparr>))"

definition ensure_namespace :: "'s env \<Rightarrow> injection_plan \<Rightarrow> 's world \<Rightarrow> ('s, unit) outcome" where
  "ensure_namespace env plan w =
     (case en_create_root env (w_fs w) (ip_namespace_local_root plan) of
        (Inl e, s) \<Rightarrow> (Inl e, w\<lparr>w_fs := s\<rparr>)
      | (Inr _, s) \<Rightarrow>
          and_run (lift (map_err Materialize (open_materializer (en_fs env) s (ip_namespace_local_root plan)))
            (w\<lparr>w_fs := s\<rparr>)) (\<lambda>materializer w.
          and_run (lift (namespace_relative plan) w) (\<lambda>relative w.
          and_run (on_fs (\<lambda>s. materialize (en_fs env) s materializer relative []) w) (\<lambda>_ w. (Inr (), w)))))"

datatype torrent_lookup = IdentityConflict | Found "torrent_state option"

fun find_torrent ::
  "'s env \<Rightarrow> string list \<Rightarrow> torrent_state option \<Rightarrow> (injection_error, torrent_lookup) result" where
  "find_torrent env [] found = Inr (Found found)"
| "find_torrent env (hash # hashes) found =
     and_then (en_torrent_state env hash) (\<lambda>answer.
       case answer of
         None \<Rightarrow> find_torrent env hashes found
       | Some state \<Rightarrow>
           if (case found of None \<Rightarrow> False | Some existing \<Rightarrow> ts_hash existing \<noteq> ts_hash state)
           then Inr IdentityConflict else find_torrent env hashes (Some state))"

definition prepare :: "'s env \<Rightarrow> injection_input \<Rightarrow> 's world \<Rightarrow> ('s, step_result) outcome" where
  "prepare env input w =
     and_run (load_injection env w) (\<lambda>plan w.
       if \<not> en_qbit env then fail env input ''qbittorrent_unconfigured'' w
       else and_run (lift (en_contract env) w) (\<lambda>_ w.
         and_run (ensure_namespace env plan w) (\<lambda>_ w.
         and_run (lift (plan_hashes plan) w) (\<lambda>hashes w.
         and_run (lift (find_torrent env hashes None) w) (\<lambda>lookup w.
           case lookup of
             IdentityConflict \<Rightarrow> fail env input ''qbittorrent_identity_conflict'' w
           | Found (Some state) \<Rightarrow>
               if \<not> same_save_path (ts_save_path state) (ip_save_path_remote plan) \<or> ts_auto_tmm state
               then fail env input ''qbittorrent_identity_conflict'' w
               else if \<not> is_stopped state
               then and_run (send env (StopTorrent (ts_hash state)) w) (\<lambda>_ w. (Inr waiting, w))
               else and_run (record_injection env plan state ''added_stopped'' None None w) (\<lambda>_ w. (Inr Ready, w))
           | Found None \<Rightarrow>
               and_run (send env (AddStopped (ip_blob plan) (ip_save_path_remote plan)
                   (if ip_category plan = [] then None else Some (ip_category plan)) (ip_tags plan)) w)
                 (\<lambda>_ w. (Inr waiting, w)))))))"

fun materialize_each ::
  "'s fs_ops \<Rightarrow> 's \<Rightarrow> materializer \<Rightarrow> string \<Rightarrow> planned_link list \<Rightarrow>
   (materialized_link list \<times> materialize_error option) \<times> 's" where
  "materialize_each ops s m name_space [] = (([], None), s)"
| "materialize_each ops s m name_space (link # links) =
     (case materialize ops s m name_space [link] of
        (Inl e, s') \<Rightarrow> (([], Some e), s')
      | (Inr result, s') \<Rightarrow>
          (case materialize_each ops s' m name_space links of
             ((results, outcome), s'') \<Rightarrow> ((result @ results, outcome), s'')))"

definition materialize_activity :: "'s env \<Rightarrow> injection_input \<Rightarrow> 's world \<Rightarrow> ('s, step_result) outcome" where
  "materialize_activity env input w =
     and_run (load_injection env w) (\<lambda>plan w.
       if \<not> en_qbit env then fail env input ''qbittorrent_unconfigured'' w
       else and_run (lift (plan_hash plan) w) (\<lambda>hash w.
         and_run (lift (en_torrent_state env hash) w) (\<lambda>answer w.
           case answer of
             None \<Rightarrow> fail env input ''injected_torrent_missing'' w
           | Some state \<Rightarrow>
               if \<not> is_stopped state \<or> ts_auto_tmm state
                 \<or> \<not> same_save_path (ts_save_path state) (ip_save_path_remote plan)
               then fail env input ''qbittorrent_not_stopped'' w
               else and_run (lift (namespace_relative plan) w) (\<lambda>name_space w.
                 case planned_links plan of
                   Inl e \<Rightarrow> if e = UnmappedSourceRoot then fail env input ''unmapped_source_root'' w else (Inl e, w)
                 | Inr links \<Rightarrow>
                     (case open_materializer (en_fs env) (w_fs w) (ip_namespace_local_root plan) of
                        Inl e \<Rightarrow> fail env input (materialize_reason e) w
                      | Inr materializer \<Rightarrow>
                          (case materialize_each (en_fs env) (w_fs w) materializer name_space links of
                             ((results, outcome), s) \<Rightarrow>
                               and_run (persist_links env plan results (outcome = None) (w\<lparr>w_fs := s\<rparr>)) (\<lambda>_ w.
                                 case outcome of
                                   Some e \<Rightarrow> fail env input (materialize_reason e) w
                                 | None \<Rightarrow> (Inr Ready, w))))))))"

definition recheck :: "'s env \<Rightarrow> injection_input \<Rightarrow> 's world \<Rightarrow> ('s, step_result) outcome" where
  "recheck env input w =
     and_run (load_injection env w) (\<lambda>plan w.
       if \<not> en_qbit env then fail env input ''qbittorrent_unconfigured'' w
       else and_run (lift (plan_hash plan) w) (\<lambda>hash w.
         and_run (send env (ForceRecheck hash) w) (\<lambda>_ w.
         and_run (set_injection_state env ''recheck_requested'' w) (\<lambda>_ w. (Inr waiting, w)))))"

definition verify_final ::
  "'s env \<Rightarrow> injection_input \<Rightarrow> injection_plan \<Rightarrow> torrent_state \<Rightarrow> 's world \<Rightarrow> ('s, step_result) outcome" where
  "verify_final env input plan state w =
     (let resume = (ip_resume_decision plan = Some ''resume'')
      in if resume \<and> is_started state \<or> \<not> resume \<and> is_stopped state
         then and_run (finish_injection env input state resume w) (\<lambda>_ w.
           (Inr (Terminal ''completed'' (if resume then ''resumed'' else ''left_stopped'')), w))
         else and_run (bump_verification env state w) (\<lambda>attempts w.
           if attempts \<ge> MAX_FINAL_VERIFY_ATTEMPTS then fail env input ''ambiguous_qbittorrent_state'' w
           else and_run (lift (plan_hash plan) w) (\<lambda>hash w.
             and_run (send env (if resume then StartTorrent hash else StopTorrent hash) w) (\<lambda>_ w. (Inr waiting, w)))))"

definition inspect_and_decide ::
  "'s env \<Rightarrow> injection_plan \<Rightarrow> string \<Rightarrow> torrent_state \<Rightarrow> 's world \<Rightarrow> ('s, step_result) outcome" where
  "inspect_and_decide env plan hash state w =
     and_run (lift (en_pieces env hash) w) (\<lambda>(states, well_formed) w.
     and_run (lift (inspect_pieces (ip_manifest plan) (mapped_ordinals plan) states well_formed) w) (\<lambda>integrity w.
       let resume = pi_integrity_safe integrity \<and> resume_allowed (ip_resume plan) (ts_amount_left state) integrity
       in and_run (record_resume_decision env state integrity resume w) (\<lambda>_ w.
          and_run (send env (if resume then StartTorrent hash else StopTorrent hash) w) (\<lambda>_ w. (Inr waiting, w)))))"

definition observe :: "'s env \<Rightarrow> injection_input \<Rightarrow> 's world \<Rightarrow> ('s, step_result) outcome" where
  "observe env input w =
     and_run (load_injection env w) (\<lambda>plan w.
       if \<not> en_qbit env then fail env input ''qbittorrent_unconfigured'' w
       else and_run (lift (plan_hash plan) w) (\<lambda>hash w.
         and_run (lift (en_torrent_state env hash) w) (\<lambda>answer w.
           case answer of
             None \<Rightarrow> fail env input ''injected_torrent_missing'' w
           | Some state \<Rightarrow>
               if ip_injection_state plan = Some ''finalizing'' then verify_final env input plan state w
               else (case recheck_observation (ip_injection_state plan) state of
                       ObserveChecking \<Rightarrow>
                         and_run (update_qbit_observation env state ''checking'' w) (\<lambda>_ w. (Inr waiting, w))
                     | ObserveSettling \<Rightarrow>
                         and_run (update_qbit_observation env state ''recheck_settling'' w) (\<lambda>_ w. (Inr waiting, w))
                     | ObserveWaiting \<Rightarrow>
                         and_run (bump_verification env state w) (\<lambda>attempts w.
                           if attempts \<ge> MAX_FINAL_VERIFY_ATTEMPTS
                           then fail env input ''ambiguous_qbittorrent_state'' w else (Inr waiting, w))
                     | ObserveInspect \<Rightarrow> inspect_and_decide env plan hash state w))))"

section \<open>The orchestration\<close>

datatype phase =
    Preparing
  | Materializing
  | Rechecking
  | Observing
  | Finished step_result
  | Broken

definition activity :: "phase \<Rightarrow> 's env \<Rightarrow> injection_input \<Rightarrow> 's world \<Rightarrow> ('s, step_result) outcome" where
  "activity phase env input w =
     (case phase of
        Preparing \<Rightarrow> prepare env input w
      | Materializing \<Rightarrow> materialize_activity env input w
      | Rechecking \<Rightarrow> recheck env input w
      | _ \<Rightarrow> observe env input w)"

definition advance :: "phase \<Rightarrow> step_result \<Rightarrow> phase" where
  "advance phase result =
     (case (phase, result) of
        (Preparing, Ready) \<Rightarrow> Materializing
      | (Preparing, Waiting _) \<Rightarrow> Preparing
      | (Materializing, Ready) \<Rightarrow> Rechecking
      | (Materializing, Waiting _) \<Rightarrow> Broken
      | (Rechecking, Ready) \<Rightarrow> Observing
      | (Rechecking, Waiting _) \<Rightarrow> Observing
      | (Observing, Ready) \<Rightarrow> Broken
      | (Observing, Waiting _) \<Rightarrow> Observing
      | (_, Terminal state reason) \<Rightarrow> Finished (Terminal state reason)
      | _ \<Rightarrow> Broken)"

definition running :: "phase \<Rightarrow> bool" where
  "running phase \<longleftrightarrow> phase \<in> {Preparing, Materializing, Rechecking, Observing}"

text \<open>
  An activity runs in an environment of its own.  Its result moves the workflow on,
  its error is retried when it is transient, or ends the workflow with an error (a
  permanent error always does).  A worker can stop after any effect of an activity;
  the activity then runs again.
\<close>

inductive run_step :: "injection_input \<Rightarrow> phase \<times> 's world \<Rightarrow> phase \<times> 's world \<Rightarrow> bool" for input where
  advances: "running phase \<Longrightarrow> activity phase env input w = (Inr result, w') \<Longrightarrow>
     run_step input (phase, w) (advance phase result, w')"
| repeats: "running phase \<Longrightarrow> activity phase env input w = (Inr result, w') \<Longrightarrow>
     run_step input (phase, w) (phase, w')"
| retries: "running phase \<Longrightarrow> activity phase env input w = (Inl e, w') \<Longrightarrow> retryable_injection e \<Longrightarrow>
     run_step input (phase, w) (phase, w')"
| breaks: "running phase \<Longrightarrow> activity phase env input w = (Inl e, w') \<Longrightarrow>
     run_step input (phase, w) (Broken, w')"

inductive_cases run_step_from: "run_step input (phase, w) c"


end
