(* ===== verification/Outbox.thy ===== *)
theory Outbox
  imports Tasks "HOL-Library.Word"
begin

unbundle bit_operations_syntax

text \<open>
  The outbox dispatcher, \<open>crates/sporos-service/src/outbox.rs\<close>: it leases a batch
  of pending workflow starts, hands each to Duroxide, reconciles a failed delivery
  with what Duroxide already has, and settles the row as dispatched, permanently
  failed or retrying with a backoff.  The Duroxide client is the record
  \<open>start_client\<close>, an argument; the value of the lease counter is an argument of
  \<open>lease_token\<close>.
\<close>

section \<open>Definitions\<close>

datatype dispatch_error =
    DispatchDatabase | ZeroBatchSize | BatchTooLarge | TimeOverflow | AttemptOverflow | CorruptAttemptCount
  | LostLease nat | DispatchDuroxide

record dispatch_report =
  dr_claimed :: nat
  dr_dispatched :: nat
  dr_retrying :: nat
  dr_permanently_failed :: nat

definition INITIAL_BACKOFF_MS :: nat where "INITIAL_BACKOFF_MS = 1000"
definition MAX_BACKOFF_MS :: nat where "MAX_BACKOFF_MS = 5 * 60 * 1000"
definition LEASE_MS :: int where "LEASE_MS = 60000"

definition checked_time :: "int \<Rightarrow> int \<Rightarrow> (dispatch_error, int) result" where
  "checked_time now delay = (if now + delay \<le> int i64_max then Inr (now + delay) else Inl TimeOverflow)"

definition lease_token :: "int \<Rightarrow> nat \<Rightarrow> string" where
  "lease_token now sequence = i64_bytes now @ be_bytes 8 sequence"

definition retry_delay :: "nat \<Rightarrow> nat \<Rightarrow> nat" where
  "retry_delay row attempt =
     (let exponent = min (attempt - 1) 18;
          base = min (saturating_mul i64_max INITIAL_BACKOFF_MS (2 ^ exponent)) MAX_BACKOFF_MS;
          jitter_window = max (base div 5) 1;
          mixed = (of_nat row :: 64 word) XOR (of_nat attempt * 0x9e3779b97f4a7c15)
      in min (saturating_add i64_max base (unat mixed mod jitter_window)) MAX_BACKOFF_MS)"

definition update_outbox ::
  "(outbox_row \<Rightarrow> bool) \<Rightarrow> (outbox_row \<Rightarrow> outbox_row) \<Rightarrow> task_store \<Rightarrow> nat \<times> task_store" where
  "update_outbox p f s =
     (length (filter p (st_outbox s)), s\<lparr>st_outbox := map (\<lambda>row. if p row then f row else row) (st_outbox s)\<rparr>)"

definition unsettled :: "outbox_row \<Rightarrow> bool" where
  "unsettled row \<longleftrightarrow> ob_dispatched_at row = None \<and> ob_permanent_failure_at row = None"

definition lease_free :: "int \<Rightarrow> outbox_row \<Rightarrow> bool" where
  "lease_free now row \<longleftrightarrow> (case ob_lease_until row of None \<Rightarrow> True | Some lease_until \<Rightarrow> lease_until \<le> now)"

definition claimable :: "int \<Rightarrow> outbox_row \<Rightarrow> bool" where
  "claimable now row \<longleftrightarrow> unsettled row \<and> ob_visible_at row \<le> now \<and> lease_free now row"

record outbox_request =
  or_id :: nat
  or_orchestration_name :: string
  or_orchestration_version :: string
  or_instance_id :: string
  or_input_json :: string
  or_attempt_count :: nat

definition request_of :: "outbox_row \<Rightarrow> outbox_request" where
  "request_of row = \<lparr> or_id = ob_id row, or_orchestration_name = ob_orchestration_name row,
     or_orchestration_version = ob_orchestration_version row, or_instance_id = ob_instance_id row,
     or_input_json = ob_input_json row, or_attempt_count = ob_attempt_count row \<rparr>"

fun claim_rows :: "int \<Rightarrow> int \<Rightarrow> string \<Rightarrow> outbox_row list \<Rightarrow> task_store \<Rightarrow> outbox_request list \<times> task_store" where
  "claim_rows now lease_until token [] s = ([], s)"
| "claim_rows now lease_until token (row # rows) s =
     (case update_outbox (\<lambda>r. ob_id r = ob_id row \<and> unsettled r \<and> lease_free now r)
             (\<lambda>r. r\<lparr>ob_lease_token := Some token, ob_lease_until := Some lease_until\<rparr>) s of
        (changed, s1) \<Rightarrow>
          (case claim_rows now lease_until token rows s1 of
             (starts, s2) \<Rightarrow> (if changed = 1 then request_of row # starts else starts, s2)))"

definition claim ::
  "int \<Rightarrow> int \<Rightarrow> string \<Rightarrow> nat \<Rightarrow> task_store \<Rightarrow> (dispatch_error, outbox_request list \<times> task_store) result" where
  "claim now lease_until token batch_size s =
     (if batch_size > i64_max then Inl BatchTooLarge
      else Inr (claim_rows now lease_until token
        (take batch_size (sort_key (\<lambda>row. (ob_visible_at row, ob_id row))
          (filter (claimable now) (st_outbox s)))) s))"

definition require_lease :: "nat \<times> task_store \<Rightarrow> nat \<Rightarrow> (dispatch_error, unit) result \<times> task_store" where
  "require_lease updated row = (if fst updated = 1 then Inr () else Inl (LostLease row), snd updated)"

definition holds_lease :: "nat \<Rightarrow> string \<Rightarrow> outbox_row \<Rightarrow> bool" where
  "holds_lease row_id token row \<longleftrightarrow> ob_id row = row_id \<and> ob_lease_token row = Some token"

definition mark_dispatched ::
  "nat \<Rightarrow> string \<Rightarrow> int \<Rightarrow> task_store \<Rightarrow> (dispatch_error, unit) result \<times> task_store" where
  "mark_dispatched row_id token now s =
     require_lease (update_outbox (holds_lease row_id token)
       (\<lambda>row. row\<lparr>ob_dispatched_at := Some now, ob_last_error := None,
                  ob_lease_token := None, ob_lease_until := None\<rparr>) s) row_id"

definition mark_permanent ::
  "nat \<Rightarrow> string \<Rightarrow> int \<Rightarrow> string \<Rightarrow> task_store \<Rightarrow> (dispatch_error, unit) result \<times> task_store" where
  "mark_permanent row_id token now error s =
     require_lease (update_outbox (holds_lease row_id token)
       (\<lambda>row. row\<lparr>ob_permanent_failure_at := Some now, ob_last_error := Some error,
                  ob_lease_token := None, ob_lease_until := None\<rparr>) s) row_id"

definition mark_retry ::
  "outbox_request \<Rightarrow> string \<Rightarrow> int \<Rightarrow> task_store \<Rightarrow> (dispatch_error, unit) result \<times> task_store" where
  "mark_retry start token now s =
     (case and_then (ok_or AttemptOverflow (checked_add u64_max (or_attempt_count start) 1)) (\<lambda>attempt.
        and_then (checked_time now (int (retry_delay (or_id start) attempt))) (\<lambda>visible_at.
          if attempt > i64_max then Inl AttemptOverflow else Inr (attempt, visible_at))) of
        Inl e \<Rightarrow> (Inl e, s)
      | Inr (attempt, visible_at) \<Rightarrow>
          require_lease (update_outbox (holds_lease (or_id start) token)
            (\<lambda>row. row\<lparr>ob_attempt_count := attempt, ob_visible_at := visible_at, ob_lease_token := None,
                       ob_lease_until := None, ob_last_error := Some ''duroxide_start_retryable''\<rparr>) s) (or_id start))"

datatype existing_start = ExistingSame | ExistingCollision | ExistingMissing

datatype start_answer = StartAccepted | StartFailed bool

text \<open>The argument of \<open>StartFailed\<close> is \<open>is_retryable\<close> of the error.\<close>

record start_client =
  sc_start :: "outbox_request \<Rightarrow> start_answer"
  sc_inspect :: "outbox_request \<Rightarrow> (dispatch_error, existing_start) result"

datatype delivery = Delivered | Refused string | Postponed

definition attempt_delivery :: "start_client \<Rightarrow> outbox_request \<Rightarrow> (dispatch_error, delivery) result" where
  "attempt_delivery client start =
     (case sc_start client start of
        StartAccepted \<Rightarrow> Inr Delivered
      | StartFailed retryable \<Rightarrow>
          and_then (sc_inspect client start) (\<lambda>existing.
            Inr (case existing of
                   ExistingSame \<Rightarrow> Delivered
                 | ExistingCollision \<Rightarrow> Refused ''duroxide_identity_collision''
                 | ExistingMissing \<Rightarrow> if retryable then Postponed else Refused ''duroxide_start_rejected'')))"

definition mark :: "delivery \<Rightarrow> outbox_request \<Rightarrow> string \<Rightarrow> int \<Rightarrow> task_store \<Rightarrow> (dispatch_error, unit) result \<times> task_store" where
  "mark outcome start token now s =
     (case outcome of
        Delivered \<Rightarrow> mark_dispatched (or_id start) token now s
      | Refused error \<Rightarrow> mark_permanent (or_id start) token now error s
      | Postponed \<Rightarrow> mark_retry start token now s)"

definition count_delivery :: "delivery \<Rightarrow> dispatch_report \<Rightarrow> dispatch_report" where
  "count_delivery outcome report =
     (case outcome of
        Delivered \<Rightarrow> report\<lparr>dr_dispatched := dr_dispatched report + 1\<rparr>
      | Refused _ \<Rightarrow> report\<lparr>dr_permanently_failed := dr_permanently_failed report + 1\<rparr>
      | Postponed \<Rightarrow> report\<lparr>dr_retrying := dr_retrying report + 1\<rparr>)"

fun deliver_all ::
  "start_client \<Rightarrow> string \<Rightarrow> int \<Rightarrow> outbox_request list \<Rightarrow> dispatch_report \<Rightarrow> task_store \<Rightarrow>
   (dispatch_error, dispatch_report) result \<times> task_store" where
  "deliver_all client token now [] report s = (Inr report, s)"
| "deliver_all client token now (start # starts) report s =
     (case attempt_delivery client start of
        Inl e \<Rightarrow> (Inl e, s)
      | Inr outcome \<Rightarrow>
          (case mark outcome start token now s of
             (Inl e, s') \<Rightarrow> (Inl e, s')
           | (Inr _, s') \<Rightarrow> deliver_all client token now starts (count_delivery outcome report) s'))"

definition run_once ::
  "start_client \<Rightarrow> nat \<Rightarrow> nat \<Rightarrow> int \<Rightarrow> task_store \<Rightarrow> (dispatch_error, dispatch_report) result \<times> task_store" where
  "run_once client batch_size sequence now s =
     (if batch_size = 0 then (Inl ZeroBatchSize, s)
      else case checked_time now LEASE_MS of
        Inl e \<Rightarrow> (Inl e, s)
      | Inr lease_until \<Rightarrow>
          let token = lease_token now sequence
          in (case claim now lease_until token batch_size s of
                Inl e \<Rightarrow> (Inl e, s)
              | Inr (starts, s1) \<Rightarrow>
                  deliver_all client token now starts
                    \<lparr>dr_claimed = length starts, dr_dispatched = 0, dr_retrying = 0, dr_permanently_failed = 0\<rparr> s1))"

section \<open>Backoff\<close>

lemma jitter_bounds:
  fixes base x :: nat
  assumes "1000 \<le> base" "base \<le> 300000"
  defines "d \<equiv> min (saturating_add i64_max base (x mod max (base div 5) 1)) 300000"
  shows "base \<le> d" "d \<le> 300000" "d < base + base div 5"
proof -
  have "5 div 5 \<le> base div 5" using assms(1) by (intro div_le_mono) linarith
  then have w: "1 \<le> base div 5" by simp
  define m where "m = x mod max (base div 5) 1"
  have m: "m < base div 5"
    unfolding m_def max.absorb1 [OF w] by (rule mod_less_divisor) (use w in linarith)
  have d: "d = min (saturating_add i64_max base m) 300000" by (simp add: d_def m_def)
  have "base + m \<le> i64_max" using m assms(2) by simp
  then have "d = min (base + m) 300000" unfolding d saturating_add_def by linarith
  then show "base \<le> d" "d \<le> 300000" "d < base + base div 5" using m assms(2) by linarith+
qed

text \<open>
  The delay before the next delivery attempt doubles with the attempts from one
  second up to five minutes, and the jitter that spreads the rows adds less than a
  fifth and never passes five minutes.
\<close>

lemma retry_delay_bounds:
  "let base = min (1000 * 2 ^ min (attempt - 1) 18) 300000
   in base \<le> retry_delay row attempt \<and> retry_delay row attempt \<le> 300000 \<and>
      retry_delay row attempt < base + base div 5"
proof -
  define base :: nat where "base = min (1000 * 2 ^ min (attempt - 1) 18) 300000"
  define x where "x = unat ((of_nat row :: 64 word) XOR (of_nat attempt * 0x9e3779b97f4a7c15))"
  have "(2 :: nat) ^ min (attempt - 1) 18 \<le> 2 ^ 18" by (rule power_increasing) simp_all
  then have "saturating_mul i64_max 1000 (2 ^ min (attempt - 1) 18) = 1000 * 2 ^ min (attempt - 1) 18"
    by (simp add: saturating_mul_def)
  then have delay: "retry_delay row attempt = min (saturating_add i64_max base (x mod max (base div 5) 1)) 300000"
    unfolding retry_delay_def Let_def base_def x_def INITIAL_BACKOFF_MS_def MAX_BACKOFF_MS_def
    by (simp only: mult.assoc) simp
  have "1000 \<le> base" "base \<le> 300000" by (simp_all add: base_def)
  from jitter_bounds [OF this, of x] show ?thesis
    unfolding base_def [symmetric] Let_def delay by blast
qed

section \<open>Leases\<close>

lemma length_filter_id:
  assumes "distinct (map ob_id rows)" "row \<in> set rows" "p row" "\<And>r. p r \<Longrightarrow> ob_id r = ob_id row"
  shows "length (filter p rows) = 1"
proof -
  have "p r \<longleftrightarrow> r = row" if "r \<in> set rows" for r
    using assms that by (metis distinct_map inj_onD)
  then have f: "filter p rows = filter (\<lambda>r. r = row) rows" by (rule filter_cong [OF refl])
  have "set (filter (\<lambda>r. r = row) rows) = {row}" using assms(2) by auto
  moreover have "distinct (filter (\<lambda>r. r = row) rows)" using assms(1) by (simp add: distinct_map)
  ultimately have "length (filter (\<lambda>r. r = row) rows) = card {row}" by (metis distinct_card)
  then show ?thesis unfolding f by simp
qed

definition leased :: "int \<Rightarrow> string \<Rightarrow> outbox_row \<Rightarrow> outbox_row" where
  "leased lease_until token row = row\<lparr>ob_lease_token := Some token, ob_lease_until := Some lease_until\<rparr>"

lemma leased_simps [simp]:
  "ob_id (leased l token row) = ob_id row" "ob_lease_token (leased l token row) = Some token"
  "ob_lease_until (leased l token row) = Some l" "request_of (leased l token row) = request_of row"
  "unsettled (leased l token row) = unsettled row"
  by (simp_all add: leased_def request_of_def unsettled_def)

lemma request_of_id [simp]: "or_id (request_of row) = ob_id row"
  by (simp add: request_of_def)


lemma same_id:
  assumes "distinct (map ob_id rows)" "a \<in> set rows" "b \<in> set rows" "ob_id a = ob_id b"
  shows "a = b"
  using assms by (metis distinct_map inj_onD)

lemma claim_rows_exact:
  assumes "distinct (map ob_id (st_outbox s))" "set rows \<subseteq> set (st_outbox s)" "distinct rows"
    and "\<forall>r \<in> set rows. unsettled r \<and> lease_free now r"
  shows "claim_rows now lease_until token rows s = (map request_of rows,
    s\<lparr>st_outbox := map (\<lambda>r. if r \<in> set rows then leased lease_until token r else r) (st_outbox s)\<rparr>)"
  using assms
proof (induction rows arbitrary: s)
  case Nil
  then show ?case by simp
next
  case (Cons row rows)
  let ?p = "\<lambda>r. ob_id r = ob_id row \<and> unsettled r \<and> lease_free now r"
  have row: "row \<in> set (st_outbox s)" "?p row" using Cons.prems by auto
  have n: "length (filter ?p (st_outbox s)) = 1"
    by (rule length_filter_id [where p = ?p, OF Cons.prems(1) row]) simp
  have p: "?p r \<longleftrightarrow> r = row" if "r \<in> set (st_outbox s)" for r
    using same_id [OF Cons.prems(1) that row(1)] row(2) by auto
  define s1 where "s1 = s\<lparr>st_outbox := map (\<lambda>r. if r = row then leased lease_until token r else r) (st_outbox s)\<rparr>"
  have u: "update_outbox ?p (\<lambda>r. r\<lparr>ob_lease_token := Some token, ob_lease_until := Some lease_until\<rparr>) s = (1, s1)"
    using n p by (simp add: update_outbox_def s1_def leased_def cong: map_cong)
  have new: "leased lease_until token row \<notin> set rows"
  proof
    assume a: "leased lease_until token row \<in> set rows"
    then have "leased lease_until token row = row"
      using Cons.prems(2) by (intro same_id [OF Cons.prems(1) _ row(1)]) auto
    then show False using a Cons.prems(3) by simp
  qed
  have "map ob_id (st_outbox s1) = map ob_id (st_outbox s)" by (simp add: s1_def)
  then have "distinct (map ob_id (st_outbox s1))" using Cons.prems(1) by simp
  moreover have "set rows \<subseteq> set (st_outbox s1)" using Cons.prems(2,3) by (auto simp: s1_def)
  ultimately have "claim_rows now lease_until token rows s1 = (map request_of rows,
      s1\<lparr>st_outbox := map (\<lambda>r. if r \<in> set rows then leased lease_until token r else r) (st_outbox s1)\<rparr>)"
    using Cons.prems(3,4) by (intro Cons.IH) auto
  then show ?case using u new by (auto simp: s1_def)
qed

definition settle :: "int \<Rightarrow> delivery \<Rightarrow> outbox_row \<Rightarrow> outbox_row" where
  "settle now outcome row =
     (case outcome of
        Delivered \<Rightarrow> row\<lparr>ob_dispatched_at := Some now, ob_last_error := None,
          ob_lease_token := None, ob_lease_until := None\<rparr>
      | Refused error \<Rightarrow> row\<lparr>ob_permanent_failure_at := Some now, ob_last_error := Some error,
          ob_lease_token := None, ob_lease_until := None\<rparr>
      | Postponed \<Rightarrow> row\<lparr>ob_attempt_count := ob_attempt_count row + 1,
          ob_visible_at := now + int (retry_delay (ob_id row) (ob_attempt_count row + 1)), ob_lease_token := None,
          ob_lease_until := None, ob_last_error := Some ''duroxide_start_retryable''\<rparr>)"

lemma settle_leased: "settle now outcome (leased lease_until token row) = settle now outcome row"
  by (simp add: settle_def leased_def split: delivery.splits)

lemma settle_id [simp]: "ob_id (settle now outcome row) = ob_id row"
  by (simp add: settle_def split: delivery.splits)

lemma mark_exact:
  assumes "distinct (map ob_id (st_outbox s))" "row \<in> set (st_outbox s)" "ob_lease_token row = Some token"
    and "mark outcome (request_of row) token now s = (Inr u, t)"
  shows "t = s\<lparr>st_outbox := map (\<lambda>r. if r = row then settle now outcome r else r) (st_outbox s)\<rparr>"
proof -
  have p: "holds_lease (ob_id row) token r \<longleftrightarrow> r = row" if "r \<in> set (st_outbox s)" for r
    using same_id [OF assms(1) that assms(2)] assms(3) by (auto simp: holds_lease_def)
  have u: "snd (update_outbox (holds_lease (ob_id row) token) f s) =
      s\<lparr>st_outbox := map (\<lambda>r. if r = row then f r else r) (st_outbox s)\<rparr>" for f
    using p by (simp add: update_outbox_def cong: map_cong)
  show ?thesis
  proof (cases outcome)
    case Delivered
    then show ?thesis using assms(4) u
      by (simp add: mark_def mark_dispatched_def require_lease_def settle_def split: if_splits cong: if_cong)
  next
    case (Refused error)
    then show ?thesis using assms(4) u
      by (simp add: mark_def mark_permanent_def require_lease_def settle_def split: if_splits cong: if_cong)
  next
    case Postponed
    then show ?thesis using assms(4) u
      by (simp add: mark_def mark_retry_def require_lease_def settle_def request_of_def and_then_def ok_or_def
          checked_add_def checked_time_def split: if_splits cong: map_cong if_cong)
  qed
qed


section \<open>One round of the dispatcher\<close>

definition delivery_of :: "start_client \<Rightarrow> outbox_row \<Rightarrow> delivery" where
  "delivery_of client row = projr (attempt_delivery client (request_of row))"

definition outcomes :: "start_client \<Rightarrow> (delivery \<Rightarrow> bool) \<Rightarrow> outbox_row list \<Rightarrow> nat" where
  "outcomes client p rows = length (filter (\<lambda>row. p (delivery_of client row)) rows)"

definition add_outcomes :: "start_client \<Rightarrow> outbox_row list \<Rightarrow> dispatch_report \<Rightarrow> dispatch_report" where
  "add_outcomes client rows report =
     report\<lparr> dr_dispatched := dr_dispatched report + outcomes client (\<lambda>d. d = Delivered) rows,
             dr_retrying := dr_retrying report + outcomes client (\<lambda>d. d = Postponed) rows,
             dr_permanently_failed := dr_permanently_failed report + outcomes client (\<lambda>d. \<exists>e. d = Refused e) rows \<rparr>"

lemma add_outcomes_Cons:
  assumes "attempt_delivery client (request_of row) = Inr outcome"
  shows "add_outcomes client (row # rows) report = add_outcomes client rows (count_delivery outcome report)"
  using assms by (cases outcome) (simp_all add: add_outcomes_def outcomes_def delivery_of_def count_delivery_def)

lemma deliver_all_exact:
  assumes "distinct (map ob_id (st_outbox s))" "set rows \<subseteq> set (st_outbox s)" "distinct rows"
    and "\<forall>r \<in> set rows. ob_lease_token r = Some token"
    and "deliver_all client token now (map request_of rows) report s = (Inr report', t)"
  shows "t = s\<lparr>st_outbox := map (\<lambda>r. if r \<in> set rows then settle now (delivery_of client r) r else r) (st_outbox s)\<rparr> \<and>
    report' = add_outcomes client rows report"
  using assms
proof (induction rows arbitrary: s report)
  case Nil
  then show ?case by (simp add: add_outcomes_def outcomes_def)
next
  case (Cons row rows)
  obtain outcome where o: "attempt_delivery client (request_of row) = Inr outcome"
    using Cons.prems(5) by (cases "attempt_delivery client (request_of row)") auto
  then have d: "delivery_of client row = outcome" by (simp add: delivery_of_def)
  obtain s1 where m: "mark outcome (request_of row) token now s = (Inr (), s1)"
    and rest: "deliver_all client token now (map request_of rows) (count_delivery outcome report) s1 = (Inr report', t)"
    using Cons.prems(5) o by (auto split: prod.splits sum.splits)
  have s1: "s1 = s\<lparr>st_outbox := map (\<lambda>r. if r = row then settle now outcome r else r) (st_outbox s)\<rparr>"
    using Cons.prems by (intro mark_exact [OF _ _ _ m]) auto
  have new: "settle now outcome row \<notin> set rows"
  proof
    assume a: "settle now outcome row \<in> set rows"
    then have "settle now outcome row = row"
      using Cons.prems(2) by (intro same_id [OF Cons.prems(1)]) auto
    then show False using a Cons.prems(3) by simp
  qed
  have "map ob_id (st_outbox s1) = map ob_id (st_outbox s)" by (simp add: s1)
  then have "distinct (map ob_id (st_outbox s1))" using Cons.prems(1) by simp
  moreover have "set rows \<subseteq> set (st_outbox s1)" using Cons.prems(2,3) by (auto simp: s1)
  ultimately have ih: "t = s1\<lparr>st_outbox := map (\<lambda>r. if r \<in> set rows then settle now (delivery_of client r) r else r)
      (st_outbox s1)\<rparr>" "report' = add_outcomes client rows (count_delivery outcome report)"
    using Cons.IH [OF _ _ _ _ rest] Cons.prems(3,4) by auto
  show ?case using ih new by (auto simp: s1 d add_outcomes_Cons [OF o])
qed

definition claimed_rows :: "int \<Rightarrow> nat \<Rightarrow> task_store \<Rightarrow> outbox_row list" where
  "claimed_rows now batch_size s =
     take batch_size (sort_key (\<lambda>row. (ob_visible_at row, ob_id row)) (filter (claimable now) (st_outbox s)))"

lemma claimed_rows_props:
  assumes "distinct (map ob_id (st_outbox s))"
  shows "set (claimed_rows now batch_size s) \<subseteq> set (st_outbox s)" "distinct (claimed_rows now batch_size s)"
    "\<forall>r \<in> set (claimed_rows now batch_size s). claimable now r"
proof -
  have "set (claimed_rows now batch_size s) \<subseteq> set (filter (claimable now) (st_outbox s))"
    unfolding claimed_rows_def using set_take_subset by fastforce
  then show "set (claimed_rows now batch_size s) \<subseteq> set (st_outbox s)"
    "\<forall>r \<in> set (claimed_rows now batch_size s). claimable now r" by auto
  show "distinct (claimed_rows now batch_size s)"
    using assms by (simp add: claimed_rows_def distinct_map)
qed

lemma claim_exact:
  assumes "distinct (map ob_id (st_outbox s))" "claim now lease_until token batch_size s = Inr (starts, t)"
  shows "starts = map request_of (claimed_rows now batch_size s)"
    and "t = s\<lparr>st_outbox := map (\<lambda>r. if r \<in> set (claimed_rows now batch_size s)
      then leased lease_until token r else r) (st_outbox s)\<rparr>"
proof -
  note c = claimed_rows_props [OF assms(1), of now batch_size]
  have "claim_rows now lease_until token (claimed_rows now batch_size s) s = (starts, t)"
    using assms(2) by (simp add: claim_def claimed_rows_def split: if_splits)
  moreover have "claim_rows now lease_until token (claimed_rows now batch_size s) s =
    (map request_of (claimed_rows now batch_size s), s\<lparr>st_outbox := map (\<lambda>r. if r \<in> set (claimed_rows now batch_size s)
      then leased lease_until token r else r) (st_outbox s)\<rparr>)"
    by (rule claim_rows_exact [OF assms(1) c(1,2)]) (use c(3) in \<open>simp add: claimable_def\<close>)
  ultimately show "starts = map request_of (claimed_rows now batch_size s)"
    "t = s\<lparr>st_outbox := map (\<lambda>r. if r \<in> set (claimed_rows now batch_size s)
      then leased lease_until token r else r) (st_outbox s)\<rparr>" by simp_all
qed


lemma outcomes_partition:
  "outcomes client (\<lambda>d. d = Delivered) rows + outcomes client (\<lambda>d. d = Postponed) rows +
   outcomes client (\<lambda>d. \<exists>e. d = Refused e) rows = length rows"
proof (induction rows)
  case (Cons row rows)
  then show ?case by (cases "delivery_of client row") (simp_all add: outcomes_def)
qed (simp add: outcomes_def)

lemma delivery_of_leased [simp]: "delivery_of client (leased lease_until token row) = delivery_of client row"
  by (simp add: delivery_of_def)

lemma outcomes_leased: "outcomes client p (map (leased lease_until token) rows) = outcomes client p rows"
  by (simp add: outcomes_def filter_map o_def)

lemma claim_then_deliver:
  assumes "distinct (map ob_id (st_outbox s))" "claim now lease_until token batch_size s = Inr (starts, s1)"
    and "deliver_all client token now starts report s1 = (Inr report', t)"
  shows "t = s\<lparr>st_outbox := map (\<lambda>r. if r \<in> set (claimed_rows now batch_size s)
      then settle now (delivery_of client r) r else r) (st_outbox s)\<rparr>"
    and "report' = add_outcomes client (claimed_rows now batch_size s) report"
proof -
  let ?c = "claimed_rows now batch_size s"
  let ?rows = "map (leased lease_until token) ?c"
  note c = claimed_rows_props [OF assms(1), of now batch_size] and e = claim_exact [OF assms(1,2)]
  have ids: "map ob_id (st_outbox s1) = map ob_id (st_outbox s)" by (simp add: e(2))
  have inj: "r = r'" if "r \<in> set (st_outbox s)" "r' \<in> set ?c" "ob_id r = ob_id r'" for r r'
    using that c(1) by (intro same_id [OF assms(1)]) auto
  have starts: "starts = map request_of ?rows" by (simp add: e(1))
  have "inj_on (leased lease_until token) (set ?c)"
    by (rule inj_onI) (metis c(1) inj leased_simps(1) subsetD)
  then have "distinct ?rows" using c(2) by (simp add: distinct_map)
  moreover have "set ?rows \<subseteq> set (st_outbox s1)" using c(1) by (auto simp: e(2) image_iff)
  moreover have "distinct (map ob_id (st_outbox s1))" using assms(1) ids by simp
  ultimately have d: "t = s1\<lparr>st_outbox := map (\<lambda>r. if r \<in> set ?rows then settle now (delivery_of client r) r else r)
      (st_outbox s1)\<rparr>" "report' = add_outcomes client ?rows report"
    using deliver_all_exact [of s1 ?rows token client now report report' t] assms(3) by (auto simp: starts)
  show "report' = add_outcomes client ?c report" using d(2) by (simp add: add_outcomes_def outcomes_leased)
  have "r \<notin> set ?rows" if "r \<in> set (st_outbox s)" "r \<notin> set ?c" for r
  proof
    assume "r \<in> set ?rows"
    then obtain r' where r': "r' \<in> set ?c" "r = leased lease_until token r'" by auto
    then have "r = r'" using that(1) by (intro inj) simp_all
    then show False using that(2) r'(1) by simp
  qed
  then show "t = s\<lparr>st_outbox := map (\<lambda>r. if r \<in> set ?c then settle now (delivery_of client r) r else r) (st_outbox s)\<rparr>"
    by (auto simp: d(1) e(2) settle_leased)
qed

text \<open>
  C24: A round of the dispatcher that succeeds does exactly what it reports.  It takes
  the due rows without a live lease, oldest first and at most a batch of them,
  settles each by the answer of Duroxide (dispatched, refused with its reason, or
  postponed by the backoff, always giving the lease back), leaves every other row
  and everything else untouched, and its counters add up to the rows it claimed.
\<close>

theorem run_once_settles_batch:
  assumes "distinct (map ob_id (st_outbox s))" "run_once client batch_size sequence now s = (Inr report, t)"
  shows "t = s\<lparr>st_outbox := map (\<lambda>row. if row \<in> set (claimed_rows now batch_size s)
      then settle now (delivery_of client row) row else row) (st_outbox s)\<rparr> \<and>
    dr_claimed report = length (claimed_rows now batch_size s) \<and> dr_claimed report \<le> batch_size \<and>
    dr_dispatched report + dr_retrying report + dr_permanently_failed report = dr_claimed report \<and>
    dr_dispatched report = outcomes client (\<lambda>d. d = Delivered) (claimed_rows now batch_size s)"
proof -
  obtain lease_until starts s1 where c: "claim now lease_until (lease_token now sequence) batch_size s = Inr (starts, s1)"
    and d: "deliver_all client (lease_token now sequence) now starts
      \<lparr>dr_claimed = length starts, dr_dispatched = 0, dr_retrying = 0, dr_permanently_failed = 0\<rparr> s1 = (Inr report, t)"
    using assms(2) by (auto simp: run_once_def Let_def split: if_splits sum.splits)
  note e = claim_then_deliver [OF assms(1) c d]
  have n: "length starts = length (claimed_rows now batch_size s)" by (simp add: claim_exact(1) [OF assms(1) c])
  have r: "dr_claimed report = length (claimed_rows now batch_size s)"
    "dr_dispatched report = outcomes client (\<lambda>d. d = Delivered) (claimed_rows now batch_size s)"
    "dr_retrying report = outcomes client (\<lambda>d. d = Postponed) (claimed_rows now batch_size s)"
    "dr_permanently_failed report = outcomes client (\<lambda>d. \<exists>e. d = Refused e) (claimed_rows now batch_size s)"
    by (simp_all add: e(2) add_outcomes_def n)
  have "length (claimed_rows now batch_size s) \<le> batch_size" by (simp add: claimed_rows_def)
  then show ?thesis using e(1) r outcomes_partition [of client "claimed_rows now batch_size s"] by simp
qed

definition accepting_client :: start_client where
  "accepting_client = \<lparr> sc_start = (\<lambda>_. StartAccepted), sc_inspect = (\<lambda>_. Inr ExistingMissing) \<rparr>"

definition pending_store :: task_store where
  "pending_store = empty_store\<lparr>st_outbox :=
     [(outbox_start ''t'' ''k'' ''N'' ''V'' ''i'' ''{}'' 5)\<lparr>ob_id := 1\<rparr>]\<rparr>"

lemma pending_round:
  "fst (run_once accepting_client 10 1 7 pending_store) =
     Inr \<lparr>dr_claimed = 1, dr_dispatched = 1, dr_retrying = 0, dr_permanently_failed = 0\<rparr>"
  by (simp add: run_once_def checked_time_def LEASE_MS_def claim_def pending_store_def claimable_def unsettled_def
      lease_free_def outbox_start_def update_outbox_def attempt_delivery_def accepting_client_def mark_def
      mark_dispatched_def holds_lease_def require_lease_def count_delivery_def request_of_def empty_store_def Let_def)

theorem run_once_settles_batch_witness:
  "st_outbox (snd (run_once accepting_client 10 1 7 pending_store)) =
     [settle 7 Delivered ((outbox_start ''t'' ''k'' ''N'' ''V'' ''i'' ''{}'' 5)\<lparr>ob_id := 1\<rparr>)]"
proof -
  obtain t where t: "run_once accepting_client 10 1 7 pending_store =
      (Inr \<lparr>dr_claimed = 1, dr_dispatched = 1, dr_retrying = 0, dr_permanently_failed = 0\<rparr>, t)"
    using pending_round by (cases "run_once accepting_client 10 1 7 pending_store") simp
  have "distinct (map ob_id (st_outbox pending_store))" by (simp add: pending_store_def)
  from run_once_settles_batch [OF this t] t show ?thesis
    by (simp add: claimed_rows_def pending_store_def claimable_def unsettled_def lease_free_def outbox_start_def
        delivery_of_def attempt_delivery_def accepting_client_def)
qed


end
