(* ===== verification/Task_Machine.thy ===== *)
theory Task_Machine
  imports Outbox
begin

text \<open>
  The task store as a state machine.  Every step is one transaction of the service,
  in any order and by any worker: the acceptance of a task, a projection decided on
  an arbitrary earlier snapshot, cancellation, retry, the updates of the search and
  scan workflows, and the statements of the outbox dispatcher.
\<close>

section \<open>Steps\<close>

text \<open>The transactions that respect a terminal task.\<close>

inductive guarded_step :: "codec \<Rightarrow> task_store \<Rightarrow> task_store \<Rightarrow> bool" for codec where
  accepts: "accept_task codec task s = Inr (accepted, t) \<Longrightarrow> guarded_step codec s t"
| accepts_completion:
    "accept_completion codec source completed_at observed_at s = Inr (completion, t) \<Longrightarrow> guarded_step codec s t"
| projects: "project_task codec update seen s = Inr (outcome, t) \<Longrightarrow> guarded_step codec s t"
| cancels: "request_cancel codec k now s = Inr (cancelled, t) \<Longrightarrow> guarded_step codec s t"
| reconciles: "reconcile_cancellation status answer k now s = Inr (settled, t) \<Longrightarrow> guarded_step codec s t"
| searches: "guarded_step codec s (mark_searching k now s)"
| waits: "guarded_step codec s (search_wait k reason now s)"
| claims: "claim now lease_until token batch_size s = Inr (starts, t) \<Longrightarrow> guarded_step codec s t"
| dispatches: "mark_dispatched row token now s = (result, t) \<Longrightarrow> guarded_step codec s t"
| rejects: "mark_permanent row token now error s = (result, t) \<Longrightarrow> guarded_step codec s t"
| postpones: "mark_retry start token now s = (result, t) \<Longrightarrow> guarded_step codec s t"

text \<open>All transactions: those that write a task whatever its state are added.\<close>

inductive task_step :: "codec \<Rightarrow> task_store \<Rightarrow> task_store \<Rightarrow> bool" for codec where
  guarded: "guarded_step codec s t \<Longrightarrow> task_step codec s t"
| retries: "retry_task codec k now s = Inr (retried, t) \<Longrightarrow> task_step codec s t"
| completes: "project_completion codec operation_id k source completed_at observed_at s = Inr t \<Longrightarrow> task_step codec s t"
| finishes_search: "task_step codec s (search_finish k reason failed now s)"
| pages_backfill: "task_step codec s (backfill_page k finished now s)"
| runs_scan: "task_step codec s (scan_running k now s)"
| finishes_scan: "task_step codec s (scan_finish k reason failed now s)"

section \<open>Outbox statements leave the tasks alone\<close>

lemma update_outbox_frame:
  assumes "update_outbox p f s = (n, t)"
  shows "st_tasks t = st_tasks s" "st_events t = st_events s" "st_policies t = st_policies s"
    "st_outbox t = map (\<lambda>row. if p row then f row else row) (st_outbox s)" "n = length (filter p (st_outbox s))"
  using assms by (auto simp: update_outbox_def)

lemma claim_rows_frame:
  assumes "claim_rows now lease_until token rows s = (starts, t)"
  shows "st_tasks t = st_tasks s" "st_events t = st_events s" "st_policies t = st_policies s"
  using assms
  by (induction rows arbitrary: s starts t) (auto simp: update_outbox_def split: prod.splits if_splits)

lemma claim_frame:
  assumes "claim now lease_until token batch_size s = Inr (starts, t)"
  shows "st_tasks t = st_tasks s" "st_events t = st_events s" "st_policies t = st_policies s"
  using assms claim_rows_frame by (auto simp: claim_def split: if_splits)

lemma mark_frame:
  assumes "mark_dispatched row token now s = (result, t) \<or> mark_permanent row token now error s = (result, t) \<or>
    mark_retry start token now s = (result, t)"
  shows "st_tasks t = st_tasks s" "st_events t = st_events s" "st_policies t = st_policies s"
  using assms
  by (auto simp: mark_dispatched_def mark_permanent_def mark_retry_def require_lease_def update_outbox_def
      split: sum.splits prod.splits)

lemma accept_task_in_of:
  assumes "accept_task codec task s = Inr (accepted, t)"
  shows "accept_task_in codec task s = Inr (\<not> at_duplicate accepted, t)" "at_id accepted = nt_id task"
  using assms by (auto simp: accept_task_def and_then_Inr)

lemma reconcile_cases:
  assumes "reconcile_cancellation status answer k now s = Inr (settled, t)"
  obtains "t = s" | state reason where "record_terminal k state reason now s = Inr t"
proof -
  obtain answered where "status = Inr answered" using assms by (auto simp: reconcile_cancellation_def and_then_Inr)
  then show thesis using assms that
    by (cases answered) (auto simp: reconcile_cancellation_def and_then_Inr and_then_def split: if_splits sum.splits)
qed

section \<open>The journal\<close>

lemma frame_journal:
  "st_tasks t = st_tasks s \<Longrightarrow> st_events t = st_events s \<Longrightarrow> journal_extends s t k"
  by (rule journal_frame) simp_all

lemma guarded_step_journal:
  assumes "guarded_step codec s t" "\<And>k. task_journal_ok s k"
  shows "journal_extends s t k"
  using assms(1)
proof cases
  case (accepts task accepted)
  then show ?thesis using assms(2) accept_task_in_of(1) accept_task_journal by blast
next
  case (accepts_completion source completed_at observed_at completion)
  then show ?thesis using assms(2) by (rule accept_completion_journal)
next
  case (projects update seen outcome)
  then show ?thesis by (rule project_task_journal)
next
  case (cancels k now cancelled)
  then show ?thesis by (rule request_cancel_journal)
next
  case (reconciles status answer k now settled)
  then show ?thesis by (rule reconcile_cases) (simp, erule record_terminal_journal)
next
  case (searches k now)
  then show ?thesis by (simp add: workflow_updates_journal)
next
  case (waits k reason now)
  then show ?thesis by (simp add: workflow_updates_journal)
next
  case (claims now lease_until token batch_size starts)
  then show ?thesis by (intro frame_journal claim_frame)
qed (metis frame_journal mark_frame)+

lemma task_step_journal:
  assumes "task_step codec s t" "\<And>k. task_journal_ok s k"
  shows "journal_extends s t k"
  using assms(1)
proof cases
  case guarded
  then show ?thesis using assms(2) by (rule guarded_step_journal)
next
  case (retries k now retried)
  then show ?thesis by (rule retry_task_journal)
next
  case (completes operation_id k source completed_at observed_at)
  then show ?thesis using assms(2) by (rule project_completion_journal)
qed (simp_all add: workflow_updates_journal)


interpretation task_journal: journal "task_step codec" task_version task_entries for codec
proof
  fix s t k
  assume step: "task_step codec s t" and ok: "\<forall>k. contiguous_log (task_version s k) (task_entries s k)"
  have "journal_extends s t k"
    using step by (rule task_step_journal) (use ok in \<open>simp add: task_journal_ok_def\<close>)
  then show "log_extends (task_version s k) (task_entries s k) (task_version t k) (task_entries t k)"
    by (simp add: journal_extends_def)
qed

lemma empty_store_journal: "contiguous_log (task_version empty_store k) (task_entries empty_store k)"
  by (simp add: contiguous_log_def task_version_def task_entries_def empty_store_def)

definition task_history :: "task_store \<Rightarrow> task_id \<Rightarrow> task_event list" where
  "task_history s k = log_history (task_version s k) (task_entries s k)"

lemma task_history_length:
  assumes "st_tasks s k = Some row"
  shows "length (task_history s k) = Suc (tk_generation row)"
  using assms by (simp add: task_history_def log_history_def task_version_def next_version_def)

section \<open>A terminal task is frozen\<close>

lemma update_task_terminal:
  assumes "\<And>row. tk_terminal_at row \<noteq> None \<Longrightarrow> f row = row"
    and "st_tasks s k = Some row" "tk_terminal_at row \<noteq> None"
  shows "st_tasks (update_task k' f s) k = Some row"
  using assms by (auto simp: update_task_def split: option.splits)

lemma insert_task_keeps: "st_tasks s k = Some row \<Longrightarrow> st_tasks (insert_task k' row' s) k = Some row"
  by (auto simp: insert_task_def)

lemma accept_keeps_task:
  assumes "accept_task_in codec task s = Inr (inserted, t)" "st_tasks s k = Some row"
  shows "st_tasks t k = Some row"
  using assms(1)
proof (rule accept_task_in_Inr)
  fix s1
  assume s1: "insert_policy codec (nt_policy task) s = Inr s1"
    and t: "start_once codec (start_of task) (queued_event (nt_id task) (nt_created_at task)
      (insert_task (nt_id task) (row_of task) s1)) = Inr (inserted, t)"
  show ?thesis
    using assms(2) by (simp add: start_once_frame(1) [OF t] insert_task_keeps insert_policy_frame(1) [OF s1])
qed

lemma accept_completion_keeps_task:
  assumes "accept_completion codec source completed_at observed_at s = Inr (accepted, t)" "st_tasks s k = Some row"
  shows "st_tasks t k = Some row"
  using assms(1) by (rule accept_completion_Inr) (simp add: start_once_frame(1) insert_task_keeps assms(2))

lemma guarded_step_terminal:
  assumes "guarded_step codec s t" "st_tasks s k = Some row" "tk_terminal_at row \<noteq> None"
  shows "st_tasks t k = Some row"
  using assms(1)
proof cases
  case (accepts task accepted)
  then show ?thesis using assms(2) accept_task_in_of(1) accept_keeps_task by blast
next
  case (accepts_completion source completed_at observed_at completion)
  then show ?thesis using assms(2) by (rule accept_completion_keeps_task)
next
  case (projects update seen outcome)
  then show ?thesis using assms(2,3) by (cases rule: project_task_cases) auto
next
  case (cancels k' now cancelled)
  then show ?thesis using assms(2,3) by (cases rule: request_cancel_cases) auto
next
  case (reconciles status answer k' now settled)
  then show ?thesis
  proof (rule reconcile_cases)
    fix state reason
    assume "record_terminal k' state reason now s = Inr t"
    then show ?thesis using assms(2,3) by (cases rule: record_terminal_cases) auto
  qed (simp add: assms(2))
next
  case (searches k' now)
  then show ?thesis using assms(2,3) by (simp add: mark_searching_def update_task_terminal)
next
  case (waits k' reason now)
  then show ?thesis using assms(2,3) by (simp add: search_wait_def update_task_terminal)
next
  case (claims now lease_until token batch_size starts)
  then show ?thesis using assms(2) by (simp add: claim_frame(1))
qed (metis assms(2) mark_frame(1))+


section \<open>A worked example\<close>

definition sample_codec :: codec where
  "sample_codec = \<lparr> cd_json_valid = (\<lambda>_. True), cd_sha256 = (\<lambda>bytes. bytes),
     cd_cancellation_input = (\<lambda>task instance_id. task @ instance_id), cd_cancel_detail = (\<lambda>a b. a @ b),
     cd_retry_detail = (\<lambda>a b. a @ b), cd_completion_detail = (\<lambda>source at. source),
     cd_completion_input = (\<lambda>operation_id task source completed observed. task) \<rparr>"

definition sample_task :: new_task where
  "sample_task = \<lparr> nt_id = ''t'', nt_key = ''key'', nt_kind = ''process_candidate'',
     nt_policy = \<lparr>ps_id = ''p'', ps_config_hash = ''h'', ps_matcher_version = ''m'', ps_payload_json = ''{}'',
       ps_created_at = 4\<rparr>,
     nt_orchestration_name = ''N'', nt_orchestration_version = ''V'', nt_instance_id = ''i'',
     nt_input_json = ''{}'', nt_created_at = 5 \<rparr>"

definition sample_store :: task_store where
  "sample_store = \<lparr> st_policies = [''p'' \<mapsto> nt_policy sample_task], st_tasks = [''t'' \<mapsto> row_of sample_task],
     st_events = [(''t'', 0) \<mapsto> \<lparr>te_state = ''queued'', te_reason = None, te_detail = None, te_created_at = 5\<rparr>],
     st_outbox = [(start_of sample_task)\<lparr>ob_id := 1\<rparr>], st_operations = Map.empty, st_completions = [] \<rparr>"

definition sample_failure :: projection_update where
  "sample_failure = \<lparr> pu_task_id = ''t'', pu_expected_generation = 0, pu_state = ''failed'',
     pu_reason_code = Some ''r'', pu_execution_id = None, pu_observed_retry_count = 0, pu_detail_json = None,
     pu_occurred_at = 9, pu_terminal = True \<rparr>"

definition failed_store :: task_store where
  "failed_store = sample_store\<lparr> st_tasks := [''t'' \<mapsto> projected_row sample_failure 1 (row_of sample_task)],
     st_events := (st_events sample_store)((''t'', 1) \<mapsto> projected_event sample_failure) \<rparr>"

lemma sample_accept:
  "accept_task sample_codec sample_task empty_store = Inr (\<lparr>at_id = ''t'', at_duplicate = False\<rparr>, sample_store)"
  by (simp add: accept_task_def accept_task_in_def insert_policy_def verify_policy_def insert_task_def verify_task_def
      queued_event_def add_event_def start_once_def insert_outbox_def verify_outbox_def and_then_def empty_store_def
      sample_codec_def sample_task_def sample_store_def row_of_def queued_row_def start_of_def outbox_start_def
      next_outbox_id_def set_task_def)

lemma sample_project:
  "project_task sample_codec sample_failure sample_store sample_store = Inr (Applied 1, failed_store)"
  by (simp add: project_task_def validate_update_def apply_projection_def sample_failure_def sample_store_def
      failed_store_def row_of_def queued_row_def sample_task_def and_then_def ok_or_def checked_add_def add_event_def
      set_task_def fun_eq_iff)

lemma sample_steps: "(task_step sample_codec)\<^sup>*\<^sup>* empty_store sample_store" "(task_step sample_codec)\<^sup>*\<^sup>* sample_store failed_store"
  by (blast intro: task_step.guarded guarded_step.intros sample_accept sample_project)+


section \<open>Properties\<close>

text \<open>
  C9: However the transactions of the service interleave, the history of a task is
  append-only: in every reachable store a task of generation \<open>g\<close> has exactly the
  events 0 to \<open>g\<close>, and whatever happens later, the events so far stay as they are
  and new ones are only appended.
\<close>

theorem task_history_append_only:
  assumes "(task_step codec)\<^sup>*\<^sup>* empty_store s" "(task_step codec)\<^sup>*\<^sup>* s t"
  shows "(st_events s (k, n) \<noteq> None \<longleftrightarrow> (case st_tasks s k of None \<Rightarrow> False | Some row \<Rightarrow> n \<le> tk_generation row)) \<and>
    prefix (task_history s k) (task_history t k)"
proof (rule conjI [rotated])
  have ok: "\<forall>k. contiguous_log (task_version s k) (task_entries s k)"
    using assms(1) empty_store_journal by (blast intro: task_journal.steps_contiguous [THEN spec])
  show "prefix (task_history s k) (task_history t k)"
    unfolding task_history_def by (rule task_journal.steps_prefix [OF assms(2) ok])
  have "task_entries s k n = None \<longleftrightarrow> \<not> n < next_version (task_version s k)"
    using ok by (intro contiguous_iff) blast
  then show "st_events s (k, n) \<noteq> None \<longleftrightarrow> (case st_tasks s k of None \<Rightarrow> False | Some row \<Rightarrow> n \<le> tk_generation row)"
    by (auto simp: task_entries_def task_version_def next_version_def less_Suc_eq_le split: option.splits)
qed

theorem task_history_append_only_witness:
  "(task_step sample_codec)\<^sup>*\<^sup>* empty_store sample_store \<and> (task_step sample_codec)\<^sup>*\<^sup>* sample_store failed_store \<and>
   prefix (task_history sample_store ''t'') (task_history failed_store ''t'') \<and> st_events sample_store (''t'', 0) \<noteq> None"
  using sample_steps task_history_append_only [OF sample_steps, of "''t''" 0]
  by (simp add: sample_store_def)

text \<open>
  C12: A task that has ended stays exactly as it ended, through any sequence of
  acceptances, projections on old snapshots, cancellations, search progress and
  dispatcher statements.  Only an operator retry and the unguarded updates of the
  search, backfill and scan workflows can change it.
\<close>

theorem terminal_task_frozen:
  assumes "(guarded_step codec)\<^sup>*\<^sup>* s t" "st_tasks s k = Some row" "tk_terminal_at row \<noteq> None"
  shows "st_tasks t k = Some row"
  using assms(1,2)
proof (induction rule: rtranclp_induct)
  case base
  then show ?case .
next
  case (step t u)
  then show ?case using guarded_step_terminal assms(3) by blast
qed

theorem terminal_task_frozen_witness:
  "(guarded_step sample_codec)\<^sup>*\<^sup>* failed_store (search_wait ''t'' ''busy'' 11 (mark_searching ''t'' 10 failed_store)) \<and>
   st_tasks (search_wait ''t'' ''busy'' 11 (mark_searching ''t'' 10 failed_store)) ''t'' =
     Some (projected_row sample_failure 1 (row_of sample_task))"
proof -
  have steps: "(guarded_step sample_codec)\<^sup>*\<^sup>* failed_store (search_wait ''t'' ''busy'' 11 (mark_searching ''t'' 10 failed_store))"
    by (blast intro: rtranclp.intros guarded_step.intros)
  then show ?thesis
    using terminal_task_frozen [OF steps, of "''t''" "projected_row sample_failure 1 (row_of sample_task)"]
    by (simp add: failed_store_def projected_row_def sample_failure_def)
qed

text \<open>
  C25: The projection is a compare-and-swap that cannot lose an update, whatever
  snapshot its decision was taken on: it is applied only to a live task that is
  still at the expected generation, the new generation is the next one, the row and
  the new event carry the update, nothing else changes, and every other answer
  leaves the store as it is.
\<close>

theorem projection_compare_and_swap:
  assumes "project_task codec update seen s = Inr (outcome, t)"
  shows "if \<exists>g. outcome = Applied g
     then \<exists>row. st_tasks s (pu_task_id update) = Some row \<and> tk_generation row = pu_expected_generation update \<and>
       tk_terminal_at row = None \<and> outcome = Applied (tk_generation row + 1) \<and>
       st_tasks t = (st_tasks s)(pu_task_id update \<mapsto> projected_row update (tk_generation row + 1) row) \<and>
       st_events t = (st_events s)((pu_task_id update, tk_generation row + 1) \<mapsto> projected_event update) \<and>
       st_outbox t = st_outbox s
     else t = s"
  using assms by (cases rule: project_task_cases) auto

theorem projection_compare_and_swap_witness:
  "project_task sample_codec sample_failure sample_store failed_store = Inr (TaskTerminated 1, failed_store)"
proof -
  have p: "project_task sample_codec sample_failure sample_store failed_store = Inr (TaskTerminated 1, failed_store)"
    by (simp add: project_task_def validate_update_def apply_projection_def current_outcome_def sample_failure_def
      sample_store_def failed_store_def row_of_def queued_row_def sample_task_def and_then_def ok_or_def
      checked_add_def projected_row_def)
  from projection_compare_and_swap [OF p] p show ?thesis by simp
qed

lemma accept_again:
  assumes "accept_task_in codec task s = Inr (inserted, t)"
  shows "accept_task_in codec task t = Inr (False, t)"
  using accept_again_at [OF assms, of "nt_created_at task" "ps_created_at (nt_policy task)"] by (simp add: retimed_def)

lemma project_again:
  assumes "project_task codec update seen s = Inr (Applied g, t)"
  shows "project_task codec update t t = Inr (AlreadyApplied g, t)"
proof -
  have valid: "validate_update codec update = Inr ()"
    using assms by (cases "validate_update codec update") (auto simp: project_task_def and_then_def)
  have "pu_expected_generation update + 1 \<le> i64_max"
    using assms valid by (auto simp: project_task_def and_then_def ok_or_def checked_add_def Let_def
        apply_projection_def current_outcome_def split: option.splits if_splits)
  then have sat: "saturating_add u64_max (pu_expected_generation update) 1 = Suc (pu_expected_generation update)"
    by (simp add: saturating_add_def)
  from assms show ?thesis
  proof (cases rule: project_task_cases)
    case (applied row)
    then have "st_tasks t (pu_task_id update) = Some (projected_row update g row)" "g = Suc (pu_expected_generation update)"
      "event_matches update g t"
      by (simp_all add: event_matches_def projected_event_def)
    then show ?thesis by (simp add: project_task_def valid and_then_def sat [simplified])
  qed blast
qed

text \<open>
  C32: Both durable writes are idempotent.  A task that was accepted is accepted
  again as a duplicate without any change, and a projection that was applied and is
  delivered again is recognised as already applied without any change.
\<close>

theorem redelivery_is_idempotent:
  "(accept_task codec task s = Inr (accepted, t) \<longrightarrow>
      accept_task codec task t = Inr (\<lparr>at_id = nt_id task, at_duplicate = True\<rparr>, t)) \<and>
   (project_task codec update seen s = Inr (Applied g, t) \<longrightarrow>
      project_task codec update t t = Inr (AlreadyApplied g, t))"
  using accept_again [of codec task s] project_again [of codec update seen s g t]
  by (auto simp: accept_task_def and_then_Inr and_then_def split: sum.splits)

theorem redelivery_is_idempotent_witness:
  "accept_task sample_codec sample_task sample_store = Inr (\<lparr>at_id = ''t'', at_duplicate = True\<rparr>, sample_store) \<and>
   project_task sample_codec sample_failure failed_store failed_store = Inr (AlreadyApplied 1, failed_store)"
  using sample_accept sample_project
    redelivery_is_idempotent [where codec = sample_codec and task = sample_task and s = empty_store and t = sample_store]
    redelivery_is_idempotent [where codec = sample_codec and update = sample_failure and seen = sample_store
      and s = sample_store and t = failed_store and g = 1]
  by (simp add: sample_task_def)

lemma retry_instance_differs: "retry_instance i g \<noteq> i"
  by (simp add: retry_instance_def)

text \<open>
  C40: After an operator retry the intake is no longer idempotent.  The retry moves
  the task to a new workflow instance, and the intake compares the instance of the
  stored task with the one that the submission derives, so a submission that was a
  harmless duplicate before the retry is refused as an identity collision after it.
\<close>

theorem resubmission_after_retry_collides:
  assumes "accept_task codec task s = Inr (accepted, s')" "retry_task codec (nt_id task) now s = Inr (retried, t)"
  shows "accept_task codec task t = Inl TaskIdentityCollision"
proof -
  obtain s1 inserted where s1: "insert_policy codec (nt_policy task) s = Inr s1" "verify_policy (nt_policy task) s1 = Inr ()"
    and v: "verify_task task (insert_task (nt_id task) (row_of task) s1) = Inr ()"
    using accept_task_in_of(1) [OF assms(1)] by (blast elim: accept_task_in_Inr)
  from assms(2) show ?thesis
  proof (cases rule: retry_task_cases)
    case (1 row start s2)
    have "st_policies t = st_policies s"
      using assms(2) by (auto simp: retry_task_def and_then_Inr Let_def insert_outbox_def add_event_def
        split: option.splits if_splits)
    then obtain t1 where t1: "insert_policy codec (nt_policy task) t = Inr t1" "verify_policy (nt_policy task) t1 = Inr ()"
      "st_tasks t1 = st_tasks t"
      using s1 by (auto simp: insert_policy_def verify_policy_def split: if_splits)
    have "st_tasks s1 (nt_id task) = Some row" using 1(1) insert_policy_frame(1) [OF s1(1)] by simp
    then have "tk_instance_id row = nt_instance_id task"
      using v by (simp add: verify_task_def insert_task_def split: if_splits)
    moreover have "ob_instance_id start = tk_instance_id row" using 1(2) by (auto simp: find_Some_iff)
    ultimately have "verify_task task (insert_task (nt_id task) (row_of task) t1) = Inl TaskIdentityCollision"
      using 1(6) t1(3) retry_instance_differs by (simp add: verify_task_def insert_task_def)
    then show ?thesis using t1 by (simp add: accept_task_def accept_task_in_def and_then_def)
  qed
qed

lemma failed_accept:
  "accept_task sample_codec sample_task failed_store = Inr (\<lparr>at_id = ''t'', at_duplicate = True\<rparr>, failed_store)"
  by (simp add: accept_task_def accept_task_in_def insert_policy_def verify_policy_def insert_task_def verify_task_def
      queued_event_def add_event_def start_once_def verify_outbox_def and_then_def
      sample_codec_def sample_task_def sample_store_def failed_store_def row_of_def queued_row_def start_of_def
      outbox_start_def projected_row_def)

lemma sample_retry: "\<exists>retried t. retry_task sample_codec ''t'' 20 failed_store = Inr (retried, t)"
  by (simp add: retry_task_def failed_store_def sample_store_def sample_task_def row_of_def queued_row_def start_of_def
      outbox_start_def projected_row_def sample_failure_def retryable_kind_def next_generation_def ok_or_def
      checked_add_def and_then_def insert_outbox_def add_event_def set_task_def sample_codec_def retry_instance_def Let_def)

theorem resubmission_after_retry_collides_witness:
  "\<exists>retried t. retry_task sample_codec ''t'' 20 failed_store = Inr (retried, t) \<and>
     accept_task sample_codec sample_task t = Inl TaskIdentityCollision"
proof -
  obtain retried t where r: "retry_task sample_codec ''t'' 20 failed_store = Inr (retried, t)"
    using sample_retry by blast
  then have "retry_task sample_codec (nt_id sample_task) 20 failed_store = Inr (retried, t)"
    by (simp add: sample_task_def)
  from resubmission_after_retry_collides [OF failed_accept this] r show ?thesis by blast
qed


section \<open>The life of an outbox row\<close>

definition outbox_identity :: "outbox_row \<Rightarrow> nat \<times> task_id \<times> task_key \<times> string \<times> string \<times> string \<times> string" where
  "outbox_identity row = (ob_id row, ob_task_id row, ob_task_key row, ob_orchestration_name row,
     ob_orchestration_version row, ob_instance_id row, ob_input_json row)"

definition row_ok :: "outbox_row \<Rightarrow> bool" where
  "row_ok row \<longleftrightarrow> (ob_dispatched_at row = None \<or> ob_permanent_failure_at row = None) \<and>
     (unsettled row \<or> ob_lease_token row = None)"

definition outbox_ok :: "task_store \<Rightarrow> bool" where
  "outbox_ok s \<longleftrightarrow> distinct (map ob_id (st_outbox s)) \<and> distinct (map ob_task_key (st_outbox s)) \<and>
     distinct (map ob_instance_id (st_outbox s)) \<and> list_all row_ok (st_outbox s)"

definition fresh_row :: "outbox_row \<Rightarrow> outbox_row list \<Rightarrow> bool" where
  "fresh_row row rows \<longleftrightarrow> ob_id row \<notin> ob_id ` set rows \<and> ob_task_key row \<notin> ob_task_key ` set rows \<and>
     ob_instance_id row \<notin> ob_instance_id ` set rows \<and> row_ok row"

definition row_evolves :: "outbox_row \<Rightarrow> outbox_row \<Rightarrow> bool" where
  "row_evolves r r' \<longleftrightarrow> outbox_identity r' = outbox_identity r \<and>
     (row_ok r \<longrightarrow> row_ok r' \<and> (unsettled r \<or> r' = r))"

definition outbox_evolves :: "task_store \<Rightarrow> task_store \<Rightarrow> bool" where
  "outbox_evolves s t \<longleftrightarrow> (\<exists>rows new. st_outbox t = rows @ new \<and> list_all2 row_evolves (st_outbox s) rows \<and>
     (new = [] \<or> (\<exists>row. new = [row] \<and> fresh_row row (st_outbox s))))"

lemma row_evolves_refl [simp]: "row_evolves r r"
  by (simp add: row_evolves_def)

lemma row_evolves_trans: "row_evolves a b \<Longrightarrow> row_evolves b c \<Longrightarrow> row_evolves a c"
  by (auto simp: row_evolves_def)

lemma outbox_evolves_same: "st_outbox t = st_outbox s \<Longrightarrow> outbox_evolves s t"
  unfolding outbox_evolves_def by (intro exI [of _ "st_outbox s"] exI [of _ "[]"]) (simp add: list.rel_refl)

lemma outbox_evolves_map:
  assumes "st_outbox t = map f (st_outbox s)" "\<And>r. r \<in> set (st_outbox s) \<Longrightarrow> row_evolves r (f r)"
  shows "outbox_evolves s t"
  unfolding outbox_evolves_def
  by (intro exI [of _ "map f (st_outbox s)"] exI [of _ "[]"])
    (simp add: assms list_all2_map2 list_all2_same)

lemma fold_max_bound: "x \<in> set xs \<Longrightarrow> x \<le> fold max xs (n :: nat)" "n \<le> fold max xs n"
proof (induction xs arbitrary: n)
  case (Cons y ys)
  { case 1
    then show ?case using Cons.IH [of "max y n"] by (auto intro: order_trans)
  next
    case 2
    then show ?case using Cons.IH(2) [of "max y n"] by simp }
qed simp_all

lemma insert_outbox_evolves:
  assumes "insert_outbox row s = Some t" "row_ok row"
  shows "outbox_evolves s t"
proof -
  note i = insert_outbox_Some [OF assms(1)]
  have "next_outbox_id s \<notin> ob_id ` set (st_outbox s)"
    using fold_max_bound(1) [of _ "map ob_id (st_outbox s)" 0] by (fastforce simp: next_outbox_id_def)
  then have "fresh_row (row\<lparr>ob_id := next_outbox_id s\<rparr>) (st_outbox s)"
    using i(5) assms(2) by (auto simp: fresh_row_def row_ok_def unsettled_def)
  then show ?thesis
    unfolding outbox_evolves_def i(4)
    by (intro exI [of _ "st_outbox s"] exI [of _ "[row\<lparr>ob_id := next_outbox_id s\<rparr>]"]) (simp add: list.rel_refl)
qed

lemma outbox_start_ok [simp]: "row_ok (outbox_start task key name version instance_id input now)"
  by (simp add: row_ok_def outbox_start_def unsettled_def)

lemma evolves_identities:
  assumes "list_all2 row_evolves xs ys"
  shows "map ob_id ys = map ob_id xs" "map ob_task_key ys = map ob_task_key xs"
    "map ob_instance_id ys = map ob_instance_id xs" "list_all row_ok xs \<Longrightarrow> list_all row_ok ys"
  using assms by (induction rule: list_all2_induct) (auto simp: row_evolves_def outbox_identity_def)

lemma outbox_evolves_ok:
  assumes "outbox_evolves s t" "outbox_ok s"
  shows "outbox_ok t"
proof -
  obtain rows new where r: "st_outbox t = rows @ new" "list_all2 row_evolves (st_outbox s) rows"
    and new: "new = [] \<or> (\<exists>row. new = [row] \<and> fresh_row row (st_outbox s))"
    using assms(1) by (auto simp: outbox_evolves_def)
  note e = evolves_identities [OF r(2)]
  have "set (map ob_id rows) = ob_id ` set (st_outbox s)" "set (map ob_task_key rows) = ob_task_key ` set (st_outbox s)"
    "set (map ob_instance_id rows) = ob_instance_id ` set (st_outbox s)"
    by (simp_all only: e set_map)
  then show ?thesis
    using new assms(2) e unfolding outbox_ok_def r(1) fresh_row_def by (auto simp: image_iff)
qed

lemma outbox_evolves_settled:
  assumes "outbox_evolves s t" "outbox_ok s" "row \<in> set (st_outbox s)" "\<not> unsettled row"
  shows "row \<in> set (st_outbox t)"
proof -
  obtain rows new where r: "st_outbox t = rows @ new" "list_all2 row_evolves (st_outbox s) rows"
    using assms(1) by (auto simp: outbox_evolves_def)
  obtain row' where "row' \<in> set rows" "row_evolves row row'"
    using r(2) assms(3) by (metis in_set_conv_nth list_all2_conv_all_nth)
  moreover have "row_ok row" using assms(2,3) by (simp add: outbox_ok_def list_all_iff)
  ultimately show ?thesis using assms(4) r(1) by (auto simp: row_evolves_def)
qed

lemma holds_lease_evolves:
  assumes "\<And>r. outbox_identity (f r) = outbox_identity r" "\<And>r. unsettled r \<Longrightarrow> row_ok (f r)"
  shows "outbox_evolves s (snd (update_outbox (holds_lease row_id token) f s))"
proof (rule outbox_evolves_map)
  show "st_outbox (snd (update_outbox (holds_lease row_id token) f s)) =
      map (\<lambda>r. if holds_lease row_id token r then f r else r) (st_outbox s)"
    by (simp add: update_outbox_def)
  show "row_evolves r (if holds_lease row_id token r then f r else r)" for r
    using assms by (auto simp: row_evolves_def holds_lease_def row_ok_def)
qed

lemma mark_evolves:
  shows "outbox_evolves s (snd (mark_dispatched row_id token now s))"
    and "outbox_evolves s (snd (mark_permanent row_id token now error s))"
    and "outbox_evolves s (snd (mark_retry start token now s))"
proof -
  show "outbox_evolves s (snd (mark_dispatched row_id token now s))"
    unfolding mark_dispatched_def require_lease_def snd_conv
    by (rule holds_lease_evolves) (simp_all add: outbox_identity_def row_ok_def unsettled_def)
  show "outbox_evolves s (snd (mark_permanent row_id token now error s))"
    unfolding mark_permanent_def require_lease_def snd_conv
    by (rule holds_lease_evolves) (simp_all add: outbox_identity_def row_ok_def unsettled_def)
  have "outbox_evolves s (snd (update_outbox (holds_lease (or_id start) token)
     (\<lambda>row. row\<lparr>ob_attempt_count := attempt, ob_visible_at := visible_at, ob_lease_token := None,
        ob_lease_until := None, ob_last_error := Some ''duroxide_start_retryable''\<rparr>) s))" for attempt visible_at
    by (rule holds_lease_evolves) (simp_all add: outbox_identity_def row_ok_def unsettled_def)
  then show "outbox_evolves s (snd (mark_retry start token now s))"
    by (auto simp: mark_retry_def require_lease_def outbox_evolves_same split: sum.splits)
qed

lemma claim_rows_evolves:
  assumes "claim_rows now lease_until token rows s = (starts, t)"
  shows "list_all2 row_evolves (st_outbox s) (st_outbox t)"
  using assms
proof (induction rows arbitrary: s starts)
  case Nil
  then show ?case by (auto simp: list.rel_refl)
next
  case (Cons row rows)
  let ?f = "\<lambda>r. if ob_id r = ob_id row \<and> unsettled r \<and> lease_free now r
    then r\<lparr>ob_lease_token := Some token, ob_lease_until := Some lease_until\<rparr> else r"
  define s1 where "s1 = s\<lparr>st_outbox := map ?f (st_outbox s)\<rparr>"
  obtain starts' where c: "claim_rows now lease_until token rows s1 = (starts', t)"
    using Cons.prems by (auto simp: update_outbox_def s1_def split: prod.splits)
  have s1: "st_outbox s1 = map ?f (st_outbox s)" by (simp add: s1_def)
  have "row_evolves r (?f r)" for r by (simp add: row_evolves_def outbox_identity_def row_ok_def unsettled_def)
  then have a: "list_all2 row_evolves (st_outbox s) (st_outbox s1)" unfolding s1 list_all2_map2 by (simp add: list.rel_refl)
  show ?case by (rule list_all2_trans [OF _ a Cons.IH [OF c]]) (erule row_evolves_trans)
qed

lemma claim_evolves:
  assumes "claim now lease_until token batch_size s = Inr (starts, t)"
  shows "outbox_evolves s t"
proof -
  obtain rows where "claim_rows now lease_until token rows s = (starts, t)"
    using assms by (auto simp: claim_def split: if_splits)
  from claim_rows_evolves [OF this] show ?thesis unfolding outbox_evolves_def by auto
qed

lemma start_once_evolves:
  assumes "start_once codec row s = Inr (inserted, t)" "row_ok row"
  shows "outbox_evolves s t"
  using assms insert_outbox_evolves
  by (auto simp: start_once_def outbox_evolves_same split: if_splits option.splits)

lemma outbox_evolves_frame:
  assumes "outbox_evolves s' t" "st_outbox s' = st_outbox s"
  shows "outbox_evolves s t"
  using assms by (simp add: outbox_evolves_def)

lemma insert_task_outbox [simp]: "st_outbox (insert_task k row s) = st_outbox s"
  by (simp add: insert_task_def)

lemma update_task_outbox [simp]: "st_outbox (update_task k f s) = st_outbox s"
  by (simp add: update_task_def split: option.splits)


lemma outbox_inserted:
  assumes "insert_outbox row s = Some s'" "row_ok row" "st_outbox t = st_outbox s'"
  shows "outbox_evolves s t"
  using insert_outbox_evolves [OF assms(1,2)] assms(3) by (simp add: outbox_evolves_def)

lemma guarded_step_outbox:
  assumes "guarded_step codec s t"
  shows "outbox_evolves s t"
  using assms
proof cases
  case (accepts task accepted)
  then show ?thesis
    by (rule accept_task_in_of(1) [THEN accept_task_in_Inr])
      (rule outbox_evolves_frame [OF start_once_evolves], assumption, simp_all add: start_of_def insert_policy_frame(3))
next
  case (accepts_completion source completed_at observed_at completion)
  then show ?thesis
  proof (rule accept_completion_Inr)
    fix s2 s5 start task inserted kind instance_id policy
    assume f: "st_outbox s2 = st_outbox s" "st_outbox t = st_outbox s5"
      and q: "start_once codec start (queued_event task observed_at
         (insert_task task (queued_row kind instance_id policy observed_at) s2)) = Inr (inserted, s5)"
      and start: "start = outbox_start task (identity codec ''qbit-completion-key'' source completed_at) COMPLETION_NAME
         COMPLETION_VERSION instance_id (cd_completion_input codec
           (id16 codec ''qbit-completion-operation'' source completed_at) task source completed_at observed_at) observed_at"
    have "outbox_evolves s s5"
      by (rule outbox_evolves_frame [OF start_once_evolves [OF q]]) (simp_all add: start f)
    then show ?thesis by (simp add: outbox_evolves_def f)
  qed
next
  case (projects update seen outcome)
  then show ?thesis by (cases rule: project_task_cases) (simp_all add: outbox_evolves_same)
next
  case (cancels k now cancelled)
  then show ?thesis
  proof (cases rule: request_cancel_cases)
    case (kept row)
    then show ?thesis by (simp add: outbox_evolves_same)
  next
    case (requested row s2)
    show ?thesis by (rule outbox_inserted [OF requested(5) outbox_start_ok requested(6)])
  qed
next
  case (reconciles status answer k now settled)
  then show ?thesis
  proof (rule reconcile_cases)
    fix state reason
    assume "record_terminal k state reason now s = Inr t"
    then show ?thesis by (cases rule: record_terminal_cases) (simp_all add: outbox_evolves_same)
  qed (simp add: outbox_evolves_same)
next
  case (claims now lease_until token batch_size starts)
  then show ?thesis by (rule claim_evolves)
qed (auto simp: outbox_evolves_same mark_searching_def search_wait_def dest!: arg_cong [where f = snd]
      intro: mark_evolves)

lemma task_step_outbox:
  assumes "task_step codec s t"
  shows "outbox_evolves s t"
  using assms
proof cases
  case guarded
  then show ?thesis by (rule guarded_step_outbox)
next
  case (retries k now retried)
  then show ?thesis
    by (cases rule: retry_task_cases) (rule outbox_inserted [OF _ outbox_start_ok], assumption+)
next
  case (completes operation_id k source completed_at observed_at)
  then show ?thesis
    by (intro outbox_evolves_same)
      (auto simp: project_completion_def Let_def complete_operation_def add_event_def split: option.splits if_splits)
qed (auto simp: outbox_evolves_same search_finish_def backfill_page_def scan_running_def scan_finish_def)

lemma task_steps_outbox_ok:
  assumes "(task_step codec)\<^sup>*\<^sup>* s t" "outbox_ok s"
  shows "outbox_ok t"
  using assms by (induction rule: rtranclp_induct) (blast intro: outbox_evolves_ok task_step_outbox)+

lemma task_steps_settled:
  assumes "(task_step codec)\<^sup>*\<^sup>* s t" "outbox_ok s" "row \<in> set (st_outbox s)" "\<not> unsettled row"
  shows "row \<in> set (st_outbox t)"
  using assms
proof (induction rule: rtranclp_induct)
  case (step t u)
  then have "outbox_ok t" by (blast intro: task_steps_outbox_ok)
  then show ?case using step outbox_evolves_settled [OF task_step_outbox] by blast
qed simp

text \<open>
  In every reachable store the outbox is sound: ids, idempotency keys and workflow
  instances are unique, no start is both dispatched and permanently failed, and a
  settled start holds no lease.  A start that was settled once is never touched again,
  so no workflow is started from it twice.
\<close>

lemma settled_start_is_final:
  assumes "(task_step codec)\<^sup>*\<^sup>* empty_store s" "(task_step codec)\<^sup>*\<^sup>* s t"
    and "row \<in> set (st_outbox s)" "ob_dispatched_at row \<noteq> None \<or> ob_permanent_failure_at row \<noteq> None"
  shows "outbox_ok s \<and> row \<in> set (st_outbox t)"
proof -
  have "outbox_ok empty_store" by (simp add: outbox_ok_def empty_store_def)
  then have "outbox_ok s" using assms(1) by (blast intro: task_steps_outbox_ok)
  moreover have "\<not> unsettled row" using assms(4) by (simp add: unsettled_def)
  ultimately show ?thesis using task_steps_settled [OF assms(2)] assms(3) by blast
qed

definition dispatched_store :: task_store where
  "dispatched_store = sample_store\<lparr>st_outbox := [settle 7 Delivered ((start_of sample_task)\<lparr>ob_id := 1\<rparr>)]\<rparr>"

lemma sample_dispatch: "(task_step sample_codec)\<^sup>*\<^sup>* sample_store dispatched_store"
proof -
  let ?s = "sample_store\<lparr>st_outbox := [leased 100 ''w'' ((start_of sample_task)\<lparr>ob_id := 1\<rparr>)]\<rparr>"
  have "claim 6 100 ''w'' 4 sample_store = Inr ([request_of ((start_of sample_task)\<lparr>ob_id := 1\<rparr>)], ?s)"
    by (simp add: claim_def sample_store_def claimable_def unsettled_def lease_free_def start_of_def outbox_start_def
        update_outbox_def leased_def sample_task_def)
  then have a: "task_step sample_codec sample_store ?s" by (blast intro: task_step.guarded guarded_step.claims)
  have "mark_dispatched 1 ''w'' 7 ?s = (Inr (), dispatched_store)"
    by (simp add: mark_dispatched_def require_lease_def update_outbox_def holds_lease_def leased_def settle_def
        dispatched_store_def)
  then have b: "task_step sample_codec ?s dispatched_store" by (blast intro: task_step.guarded guarded_step.dispatches)
  from a b show ?thesis by (blast intro: rtranclp.intros)
qed

end
