(* ===== verification/Engine.thy ===== *)
theory Engine
  imports Prelude
begin

text \<open>
  Activities that the engine retries, \<open>crates/sporos-service/src/engine.rs\<close>.  A
  workflow schedules an activity with \<open>activity_retry_policy\<close>: five attempts, and
  another one only after an error that \<open>activity_failure.rs\<close> calls transient.  The
  durable engine itself is not part of the repository; what it does is the list of
  the deliveries, each with an environment of its own, and every delivery starts from
  the state that the one before it left, its partial effects included.
\<close>

definition ACTIVITY_ATTEMPTS :: nat where "ACTIVITY_ATTEMPTS = 5"

text \<open>
  The deliveries of one activity: the result, the state and the deliveries that are
  left; \<open>None\<close> when there are no more deliveries although one is due.
\<close>

fun with_retry ::
  "nat \<Rightarrow> ('e \<Rightarrow> bool) \<Rightarrow> ('d \<Rightarrow> 's \<Rightarrow> ('e, 'a) result \<times> 's) \<Rightarrow> 'd list \<Rightarrow> 's \<Rightarrow> (('e, 'a) result \<times> 's \<times> 'd list) option" where
  "with_retry attempts retryable f [] s = None"
| "with_retry attempts retryable f (delivery # deliveries) s =
     (case f delivery s of
        (Inl e, t) \<Rightarrow>
          if retryable e \<and> attempts > 1 then with_retry (attempts - 1) retryable f deliveries t
          else Some (Inl e, t, deliveries)
      | (Inr x, t) \<Rightarrow> Some (Inr x, t, deliveries))"

abbreviation step_activity ::
  "('e \<Rightarrow> bool) \<Rightarrow> ('d \<Rightarrow> 's \<Rightarrow> ('e, 'a) result \<times> 's) \<Rightarrow> 'd list \<Rightarrow> 's \<Rightarrow> (('e, 'a) result \<times> 's \<times> 'd list) option" where
  "step_activity \<equiv> with_retry ACTIVITY_ATTEMPTS"

section \<open>What a retried activity does\<close>

definition after_deliveries :: "('d \<Rightarrow> 's \<Rightarrow> ('e, 'a) result \<times> 's) \<Rightarrow> 'd list \<Rightarrow> 's \<Rightarrow> 's" where
  "after_deliveries f ds s = fold (\<lambda>d s. snd (f d s)) ds s"

lemma after_deliveries_simps [simp]:
  "after_deliveries f [] s = s" "after_deliveries f (d # ds) s = after_deliveries f ds (snd (f d s))"
  by (simp_all add: after_deliveries_def)

text \<open>Enough deliveries give a result, and it is the one of the last delivery.\<close>

lemma with_retry_returns:
  assumes "0 < attempts" and "attempts \<le> length deliveries"
  obtains failed d rest r t where "with_retry attempts retryable f deliveries s = Some (r, t, rest)"
    "deliveries = failed @ d # rest" "length failed < attempts" "f d (after_deliveries f failed s) = (r, t)"
  using assms
proof (induction deliveries arbitrary: attempts s thesis)
  case (Cons delivery deliveries)
  obtain r t where f: "f delivery s = (r, t)" by (cases "f delivery s")
  show ?case
  proof (cases "\<exists>e. r = Inl e \<and> retryable e \<and> attempts > 1")
    case True
    then have again: "with_retry attempts retryable f (delivery # deliveries) s = with_retry (attempts - 1) retryable f deliveries t"
      using f by auto
    have left: "0 < attempts - 1" "attempts - 1 \<le> length deliveries" using True Cons.prems(3) by auto
    show ?thesis
    proof (rule Cons.IH [OF _ left])
      fix failed d rest r' t'
      assume "with_retry (attempts - 1) retryable f deliveries t = Some (r', t', rest)" "deliveries = failed @ d # rest"
        "length failed < attempts - 1" "f d (after_deliveries f failed t) = (r', t')"
      then show thesis using again f by (intro Cons.prems(1) [of r' t' rest "delivery # failed" d]) auto
    qed
  next
    case False
    then have "with_retry attempts retryable f (delivery # deliveries) s = Some (r, t, deliveries)"
      using f by (cases r) auto
    then show ?thesis using f Cons.prems(2) by (intro Cons.prems(1) [of r t deliveries "[]" delivery]) auto
  qed
qed simp

lemma with_retry_rest: "with_retry attempts retryable f deliveries s = Some (r, t, rest) \<Longrightarrow> length rest < length deliveries"
proof (induction attempts retryable f deliveries s rule: with_retry.induct)
  case (2 attempts retryable f delivery deliveries s)
  then show ?case by (cases "f delivery s") (fastforce split: sum.splits if_splits)
qed simp

text \<open>
  A measure that no delivery raises by more than its allowance: the potential of
  the state and of the deliveries that are left.
\<close>

locale delivery_potential =
  fixes f :: "'d \<Rightarrow> 's \<Rightarrow> ('e, 'a) result \<times> 's" and level :: "'s \<Rightarrow> nat" and allowance :: "'d \<Rightarrow> nat"
  assumes delivery: "level (snd (f d s)) \<le> level s + allowance d"
begin

lemma failed_deliveries: "level (after_deliveries f ds s) \<le> level s + sum_list (map allowance ds)"
proof (induction ds arbitrary: s)
  case (Cons d ds)
  show ?case using Cons [of "snd (f d s)"] delivery [of d s] by simp
qed simp

end

end
