(* ===== verification/Injection_Safety.thy ===== *)
theory Injection_Safety
  imports Injection Task_Machine Engine
begin

text \<open>
  Properties of the injection workflow.  A predicate transformer for the outcomes of
  the storage, file system and qBittorrent calls computes what an activity has to
  establish; invariants of the orchestration are then proved by rule induction on
  its steps.
\<close>

section \<open>A predicate transformer\<close>

text \<open>\<open>ensures r E Q\<close>: the call ends in a world with \<open>E\<close> when it fails and with \<open>Q\<close> when it answers.\<close>

definition ensures :: "('s, 'a) outcome \<Rightarrow> ('s world \<Rightarrow> bool) \<Rightarrow> ('a \<Rightarrow> 's world \<Rightarrow> bool) \<Rightarrow> bool" where
  "ensures r E Q = (case r of (Inl e, w) \<Rightarrow> E w | (Inr x, w) \<Rightarrow> Q x w)"

named_theorems wp

lemma ensures_Inl [wp]: "ensures (Inl e, w) E Q = E w"
  and ensures_Inr [wp]: "ensures (Inr x, w) E Q = Q x w"
  by (simp_all add: ensures_def)

lemma ensures_and_run [wp]: "ensures (and_run r f) E Q = ensures r E (\<lambda>x w. ensures (f x w) E Q)"
  by (auto simp: ensures_def and_run_def split: prod.splits sum.splits)

lemma ensures_lift [wp]: "ensures (lift r w) E Q = (case r of Inl e \<Rightarrow> E w | Inr x \<Rightarrow> Q x w)"
  by (simp add: ensures_def lift_def split: sum.splits)

lemma ensures_execute [wp]: "ensures (execute env st f w) E Q = (if en_fault env st then E w else Q () (f w))"
  by (simp add: ensures_def execute_def)

lemma ensures_send [wp]:
  "ensures (send env c w) E Q =
     (let w' = w\<lparr>w_sent := w_sent w @ [(c, w_injection w)]\<rparr>
      in case en_command env c of Inl e \<Rightarrow> E w' | Inr x \<Rightarrow> Q x w')"
  by (simp add: ensures_def send_def Let_def split: sum.splits)

lemma ensures_on_fs [wp]:
  "ensures (on_fs f w) E Q =
     (case f (w_fs w) of (r, s) \<Rightarrow> (case r of Inl e \<Rightarrow> E (w\<lparr>w_fs := s\<rparr>) | Inr x \<Rightarrow> Q x (w\<lparr>w_fs := s\<rparr>)))"
  by (simp add: ensures_def on_fs_def map_err_def split: prod.splits sum.splits)

lemma ensures_load [wp]: "ensures (load_injection env w) E Q = (case load_plan env w of Inl e \<Rightarrow> E w | Inr p \<Rightarrow> Q p w)"
  by (simp add: ensures_def load_injection_def split: sum.splits)

lemma ensures_mono: "ensures r E Q \<Longrightarrow> (\<And>w. E w \<Longrightarrow> E' w) \<Longrightarrow> (\<And>x w. Q x w \<Longrightarrow> Q' x w) \<Longrightarrow> ensures r E' Q'"
  by (auto simp: ensures_def split: prod.splits sum.splits)

lemma ensures_Inr_D: "ensures r E Q \<Longrightarrow> r = (Inr x, w) \<Longrightarrow> Q x w"
  and ensures_Inl_D: "ensures r E Q \<Longrightarrow> r = (Inl e, w) \<Longrightarrow> E w"
  by (simp_all add: ensures_def)

lemma ensures_project [wp]:
  "ensures (project_candidate_state env input state reason terminal w) E Q =
     (if en_fault env SqlTask then E w
      else case project_candidate_task (en_codec env) (ii_task_id input) state reason terminal
                  (en_detail env (encode_hex (ii_plan_id input))) (en_now env) (w_store w) of
             Inl e \<Rightarrow> E w | Inr store \<Rightarrow> Q () (w\<lparr>w_store := store\<rparr>))"
  by (simp add: project_candidate_state_def ensures_def split: sum.splits)

lemmas storage_defs = set_plan_state_def record_injection_def persist_links_def set_injection_state_def
  update_qbit_observation_def record_resume_decision_def bump_verification_def finish_injection_def
  fail_injection_def fail_def

abbreviation keeps :: "('s world \<Rightarrow> bool) \<Rightarrow> ('s, 'a) outcome \<Rightarrow> bool" where
  "keeps I r \<equiv> ensures r I (\<lambda>_. I)"

lemma keeps_and_run: "keeps I r \<Longrightarrow> (\<And>x w. r = (Inr x, w) \<Longrightarrow> I w \<Longrightarrow> keeps I (f x w)) \<Longrightarrow> keeps I (and_run r f)"
  by (auto simp: ensures_def and_run_def split: prod.splits sum.splits)

lemma keeps_lift: "I w \<Longrightarrow> keeps I (lift r w)"
  by (simp add: wp split: sum.splits)

lemma keeps_load: "I w \<Longrightarrow> keeps I (load_injection env w)"
  by (simp add: wp split: sum.splits)

lemma keeps_send: "I (w\<lparr>w_sent := w_sent w @ [(c, w_injection w)]\<rparr>) \<Longrightarrow> keeps I (send env c w)"
  by (simp add: wp Let_def split: sum.splits)

lemma keeps_execute: "I w \<Longrightarrow> I (f w) \<Longrightarrow> keeps I (execute env st f w)"
  by (simp add: wp)

lemma keeps_result: "I w \<Longrightarrow> keeps I (r, w)"
  by (simp add: ensures_def split: sum.splits)

lemmas keeps_rules = keeps_and_run keeps_lift keeps_load keeps_send keeps_execute keeps_result

text \<open>What an invariant has to ignore so that the bookkeeping of every activity keeps it.\<close>

locale bookkeeping =
  fixes I :: "'s world \<Rightarrow> bool"
  assumes on_files: "I w \<Longrightarrow> I (w\<lparr>w_fs := s\<rparr>)"
    and on_store: "I w \<Longrightarrow> I (w\<lparr>w_store := t\<rparr>)"
    and on_plan_state: "I w \<Longrightarrow> I (w\<lparr>w_plan_state := p\<rparr>)"
    and on_candidate_state: "I w \<Longrightarrow> I (w\<lparr>w_candidate_state := p\<rparr>)"
    and on_row: "I w \<Longrightarrow> (\<And>r. ir_resume_decision (f r) = ir_resume_decision r) \<Longrightarrow>
      (\<And>r. ir_integrity_safe (f r) = ir_integrity_safe r) \<Longrightarrow> I (update_row f w)"
begin

lemma keeps_project: "I w \<Longrightarrow> keeps I (project_candidate_state env input state reason terminal w)"
  by (simp add: wp on_store split: sum.splits)

lemma keeps_fail: "I w \<Longrightarrow> keeps I (fail env input reason w)"
  unfolding fail_def fail_injection_def set_plan_state_def
  by (intro keeps_rules keeps_project on_plan_state on_candidate_state on_row) simp_all

lemma keeps_observation:
  "I w \<Longrightarrow> keeps I (update_qbit_observation env state injection_state w)"
  "I w \<Longrightarrow> keeps I (bump_verification env state w)"
  "I w \<Longrightarrow> keeps I (set_injection_state env injection_state w)"
  unfolding update_qbit_observation_def bump_verification_def set_injection_state_def observe_row_def
  by (auto intro!: keeps_rules on_row split: prod.splits)

lemma keeps_finish: "I w \<Longrightarrow> keeps I (finish_injection env input state resumed w)"
  unfolding finish_injection_def set_plan_state_def observe_row_def
  by (auto intro!: keeps_rules keeps_project on_plan_state on_candidate_state on_row split: prod.splits)

lemma keeps_ensure_namespace: "I w \<Longrightarrow> keeps I (ensure_namespace env plan w)"
  by (auto simp: ensure_namespace_def wp on_files split: prod.splits sum.splits)

end

section \<open>No torrent is started without a recorded decision\<close>

definition row_safe :: "injection_row option \<Rightarrow> bool" where
  "row_safe row = (case row of None \<Rightarrow> True
     | Some r \<Rightarrow> ir_resume_decision r = Some ''resume'' \<longrightarrow> ir_integrity_safe r = Some True)"

definition start_justified :: "qbit_command \<times> injection_row option \<Rightarrow> bool" where
  "start_justified = (\<lambda>(c, row). case c of
       StartTorrent _ \<Rightarrow> (case row of None \<Rightarrow> False
         | Some r \<Rightarrow> ir_integrity_safe r = Some True \<and> ir_resume_decision r = Some ''resume'')
     | _ \<Rightarrow> True)"

definition safe_world :: "'s world \<Rightarrow> bool" where
  "safe_world w \<longleftrightarrow> row_safe (w_injection w) \<and> list_all start_justified (w_sent w)"

lemma start_justified_simps [simp]:
  "start_justified (StartTorrent h, None) = False"
  "start_justified (StartTorrent h, Some r) \<longleftrightarrow> ir_integrity_safe r = Some True \<and> ir_resume_decision r = Some ''resume''"
  "start_justified (StopTorrent h, row)" "start_justified (AddStopped b p c t, row)" "start_justified (ForceRecheck h, row)"
  by (simp_all add: start_justified_def)

lemma row_safe_simps [simp]: "row_safe None"
  "row_safe (Some r) \<longleftrightarrow> (ir_resume_decision r = Some ''resume'' \<longrightarrow> ir_integrity_safe r = Some True)"
  by (simp_all add: row_safe_def)


interpretation safe: bookkeeping safe_world
  by unfold_locales (auto simp: safe_world_def update_row_def row_safe_def split: option.splits)

lemma safe_sent [simp]:
  "safe_world (w\<lparr>w_sent := w_sent w @ [(c, w_injection w)]\<rparr>) \<longleftrightarrow> safe_world w \<and> start_justified (c, w_injection w)"
  by (auto simp: safe_world_def)

lemma safe_record_injection:
  "safe_world w \<Longrightarrow> keeps safe_world (record_injection env plan state injection_state safe None w)"
  unfolding record_injection_def set_plan_state_def
  by (auto intro!: keeps_rules safe.on_plan_state simp: safe_world_def split: prod.splits option.splits)

lemma safe_prepare: "safe_world w \<Longrightarrow> keeps safe_world (prepare env input w)"
  unfolding prepare_def
  by (auto intro!: keeps_rules safe.keeps_fail safe.keeps_ensure_namespace safe_record_injection
      split: torrent_lookup.splits option.splits)

lemma safe_persist_links: "safe_world w \<Longrightarrow> keeps safe_world (persist_links env plan links complete w)"
  unfolding persist_links_def Let_def
  by (auto intro!: keeps_rules safe.on_row) (simp_all add: safe_world_def)

lemma safe_materialize: "safe_world w \<Longrightarrow> keeps safe_world (materialize_activity env input w)"
  unfolding materialize_activity_def
  by (auto intro!: keeps_rules safe.keeps_fail safe_persist_links safe.on_files
      split: option.splits sum.splits prod.splits)

lemma safe_recheck: "safe_world w \<Longrightarrow> keeps safe_world (recheck env input w)"
  unfolding recheck_def by (auto intro!: keeps_rules safe.keeps_fail safe.keeps_observation)

lemma load_plan_row:
  assumes "load_plan env w = Inr plan"
  shows "ip_injection_state plan = map_option ir_state (w_injection w)"
    and "ip_resume_decision plan = Option.bind (w_injection w) ir_resume_decision"
  using assms by (auto simp: load_plan_def split: if_splits)

lemma bump_row:
  assumes "bump_verification env state w = (Inr attempts, w')"
  obtains row amount_left progress where "w_injection w = Some row"
    "w_injection w' = Some ((observe_row state amount_left progress row)\<lparr>ir_verification_attempts := attempts\<rparr>)"
    "attempts = ir_verification_attempts row + 1" "w_sent w' = w_sent w" "w_links w' = w_links w" 
  using assms
  by (auto simp: bump_verification_def and_run_def lift_def execute_def update_row_def observe_row_def
      split: sum.splits prod.splits if_splits option.splits)

lemma safe_verify_final:
  assumes "safe_world w" and "ip_resume_decision plan = Option.bind (w_injection w) ir_resume_decision"
  shows "keeps safe_world (verify_final env input plan state w)"
proof -
  have "start_justified (StartTorrent hash, w_injection w')"
    if "ip_resume_decision plan = Some ''resume''" "bump_verification env state w = (Inr attempts, w')" for attempts w' hash
    using that(2) by (rule bump_row) (use assms that(1) in \<open>auto simp: safe_world_def observe_row_def\<close>)
  then show ?thesis using assms(1) unfolding verify_final_def Let_def
    by (auto intro!: keeps_rules safe.keeps_fail safe.keeps_finish safe.keeps_observation simp: lift_def)
qed

lemma decision_row:
  assumes "record_resume_decision env state integrity resume w = (Inr (), w')"
  obtains amount_left progress where
    "w' = update_row (\<lambda>row. (observe_row state amount_left progress row)\<lparr>
       ir_integrity_safe := Some (pi_integrity_safe integrity),
       ir_resume_decision := Some (if resume then ''resume'' else ''stop''),
       ir_state := ''finalizing'', ir_verification_attempts := 0 \<rparr>) w"
  using assms
  by (auto simp: record_resume_decision_def and_run_def lift_def execute_def split: sum.splits prod.splits if_splits)

lemma safe_record_decision:
  "safe_world w \<Longrightarrow> (resume \<Longrightarrow> pi_integrity_safe integrity) \<Longrightarrow>
    keeps safe_world (record_resume_decision env state integrity resume w)"
  unfolding record_resume_decision_def
  by (auto intro!: keeps_rules simp: safe_world_def update_row_def row_safe_def split: prod.splits option.splits)

lemma safe_inspect:
  assumes "safe_world w" and "w_injection w \<noteq> None"
  shows "keeps safe_world (inspect_and_decide env plan hash state w)"
proof -
  have "start_justified (StartTorrent hash, w_injection w')"
    if "pi_integrity_safe integrity" "record_resume_decision env state integrity True w = (Inr (), w')" for integrity w'
    using that(2) by (rule decision_row) (use assms that(1) in \<open>auto simp: update_row_def observe_row_def\<close>)
  then show ?thesis using assms(1) unfolding inspect_and_decide_def Let_def
    by (auto intro!: keeps_rules safe_record_decision simp: lift_def)
qed

lemma safe_observe:
  assumes "safe_world w"
  shows "keeps safe_world (observe env input w)"
proof -
  have inspect: "\<exists>r. row = Some r" if "recheck_observation (map_option ir_state row) state = ObserveInspect"
    for row :: "injection_row option" and state
    using that by (cases row) (auto simp: recheck_observation_def split: if_splits)
  show ?thesis using assms unfolding observe_def
    by (auto intro!: keeps_rules safe.keeps_fail safe.keeps_observation safe_verify_final safe_inspect
        simp: load_injection_def lift_def load_plan_row split: option.splits recheck_outcome.splits)
      (erule inspect)
qed

lemma safe_activity: "safe_world w \<Longrightarrow> keeps safe_world (activity phase env input w)"
  by (simp add: activity_def safe_prepare safe_materialize safe_recheck safe_observe split: phase.splits)

lemma run_step_activity:
  assumes "run_step input (phase, w) (phase', w')"
  obtains env r where "running phase" "activity phase env input w = (r, w')"
    "\<And>result. r = Inr result \<Longrightarrow> phase' = phase \<or> phase' = advance phase result"
    "\<And>e. r = Inl e \<Longrightarrow> phase' = Broken \<or> phase' = phase \<and> retryable_injection e"
  using assms by (elim run_step_from) auto

lemma activity_keeps_run:
  assumes "\<And>env w. I w \<Longrightarrow> keeps I (activity phase env input w)" and "I w" and "run_step input (phase, w) (phase', w')"
  shows "I w'"
  using assms(3)
proof (rule run_step_activity)
  fix env r
  assume a: "activity phase env input w = (r, w')"
  show ?thesis using assms(1) [OF assms(2), of env] unfolding a by (simp add: ensures_def split: sum.splits)
qed

lemma safe_run: "(run_step input)\<^sup>*\<^sup>* (phase, w) (phase', w') \<Longrightarrow> safe_world w \<Longrightarrow> safe_world w'"
proof (induction "(phase', w')" arbitrary: phase' w' rule: rtranclp_induct)
  case (step c)
  then show ?case using activity_keeps_run [of safe_world "fst c" input "snd c" phase' w'] safe_activity
    by (cases c) auto
qed simp


section \<open>An example run\<close>

text \<open>
  A torrent with two files, the first of them mapped, in a database that answers.
  The argument of \<open>sample_env\<close> is what qBittorrent reports.
\<close>

definition sample_input :: injection_input where
  "sample_input = \<lparr> ii_task_id = ''t'', ii_candidate_id = ''c'', ii_plan_id = ''p'' \<rparr>"

definition sample_state :: "string \<Rightarrow> torrent_state" where
  "sample_state state = \<lparr> ts_hash = ''68'', ts_state = state, ts_amount_left = 0, ts_progress = Some 1000000,
     ts_save_path = ''/remote/ns'', ts_auto_tmm = False \<rparr>"

definition sample_env :: "torrent_state option \<Rightarrow> nat env" where
  "sample_env answer = \<lparr> en_qbit = True, en_fault = (\<lambda>_. False), en_codec = sample_codec,
     en_decoders = \<lparr> dc_manifest = (\<lambda>_. Some sample_manifest), dc_policy = (\<lambda>_. Some (''/links'', [])),
       dc_resume = (\<lambda>_. Some CompleteOnly), dc_tags = (\<lambda>_. Some [''sporos'']) \<rparr>,
     en_now = 9, en_detail = (\<lambda>plan. plan), en_contract = Inr (), en_torrent_state = (\<lambda>_. Inr answer),
     en_command = (\<lambda>_. Inr ()), en_pieces = (\<lambda>_. Inr ([2, 2], True)), en_create_root = (\<lambda>s _. (Inr (), s)),
     en_fs = sample_ops \<rparr>"

definition sample_row :: "string \<Rightarrow> injection_row" where
  "sample_row state = \<lparr> ir_v1_hash = Some ''h'', ir_v2_hash = None, ir_qbit_state = ''stoppedDL'', ir_amount_left = 0,
     ir_progress_ppm = 0, ir_integrity_safe = None, ir_resume_decision = None, ir_state = state,
     ir_verification_attempts = 0 \<rparr>"

definition sample_world :: "injection_row option \<Rightarrow> nat world" where
  "sample_world row = \<lparr> w_plan = Some \<lparr> pr_blob = ''b'', pr_manifest_json = Some ''m'', pr_payload_json = ''{}'',
       pr_namespace_local = ''/links/ns'', pr_save_path_remote = ''/remote/ns'', pr_category = ''tv'',
       pr_tags_json = ''[]'', pr_resume_policy_json = ''{}'' \<rparr>,
     w_link_sources = [\<lparr> lj_candidate_ordinal = 0, lj_candidate_path = ''a'', lj_save_path = None,
       lj_display_path = ''a'', lj_local_path = Some ''/data/a'', lj_size = 7, lj_device = Some 5,
       lj_inode = Some 9, lj_id = 1 \<rparr>],
     w_injection = row, w_links = (\<lambda>_. None), w_plan_state = ''planned'', w_candidate_state = ''accepted'',
     w_store = sample_store, w_fs = 0, w_sent = [] \<rparr>"



definition sample_mapping :: link_row where
  "sample_mapping = \<lparr> lr_candidate_ordinal = 0, lr_candidate_path = ''a'', lr_source_root_remote = ''/data'',
     lr_source_path = ''a'', lr_source_service = ''data'', lr_size = 7, lr_device = Some 5, lr_inode = Some 9,
     lr_source_file_id = 1 \<rparr>"

definition sample_plan :: "injection_row option \<Rightarrow> injection_plan" where
  "sample_plan row = \<lparr> ip_blob = ''b'', ip_manifest = sample_manifest,
    ip_namespace_local_root = ''/links'', ip_path_rewrites = [], ip_namespace_local = ''/links/ns'',
    ip_save_path_remote = ''/remote/ns'', ip_category = ''tv'', ip_tags = [''sporos''], ip_resume = CompleteOnly,
    ip_mappings = [sample_mapping],
    ip_injection_state = map_option ir_state row, ip_resume_decision = Option.bind row ir_resume_decision \<rparr>"

lemma sample_rows: "load_link_rows (w_link_sources (sample_world row)) = Inr [sample_mapping]"
proof -
  have "path_parent ''/data/a'' = Some ''/data''" "file_name ''/data/a'' = Some ''a''" by code_simp+
  then show ?thesis by (simp add: sample_world_def sample_mapping_def load_link_row_def source_location_def ok_or_def
      to_u32_def to_u64_def optional_u64_def)
qed

lemma sample_load: "load_plan (sample_env answer) (sample_world row) = Inr (sample_plan row)"
proof -
  have "take 100000 (w_link_sources (sample_world row)) = w_link_sources (sample_world row)" by (simp add: sample_world_def)
  then show ?thesis using sample_rows [of row]
    by (simp add: load_plan_def sample_env_def) (simp add: sample_world_def ok_or_def sample_plan_def)
qed

lemma sample_hash: "plan_hash (sample_plan row) = Inr ''68''"
proof -
  have "encode_hex ''h'' = ''68''" by code_simp
  then show ?thesis by (simp add: plan_hash_def plan_hashes_def sample_plan_def sample_manifest_def)
qed

lemma sample_complete: "inspect_pieces sample_manifest {0} [2, 2] True
     = Inr \<lparr>pi_integrity_safe = True, pi_missing_bytes = 0, pi_present_ratio_ppm = 1000000\<rparr>"
  by (simp add: inspect_pieces_def sample_manifest_def mapped_intervals_def MAX_PIECES_def piece_step_def Let_def
      skip_intervals.simps checked_add_def saturating_mul_def saturating_add_def div_ceil_def)

lemmas run_simps = and_run_def lift_def execute_def send_def update_row_def observed_def to_i64_def ok_or_def

lemma sample_observe:
  "observe (sample_env (Some (sample_state ''stoppedUP''))) sample_input (sample_world (Some (sample_row ''checking'')))
    = (Inr waiting, (sample_world (Some ((sample_row ''finalizing'')\<lparr>ir_qbit_state := ''stoppedUP'',
         ir_progress_ppm := 1000000, ir_integrity_safe := Some True, ir_resume_decision := Some ''resume''\<rparr>)))
       \<lparr>w_sent := [(StartTorrent ''68'', Some ((sample_row ''finalizing'')\<lparr>ir_qbit_state := ''stoppedUP'',
        ir_progress_ppm := 1000000, ir_integrity_safe := Some True, ir_resume_decision := Some ''resume''\<rparr>))]\<rparr>)"
  by (simp add: observe_def load_injection_def sample_load sample_hash and_run_def lift_def)
   (simp add: sample_env_def sample_state_def sample_plan_def sample_row_def sample_world_def recheck_observation_def
     is_checking_def inspect_and_decide_def run_simps mapped_ordinals_def sample_complete resume_allowed_def
     record_resume_decision_def observe_row_def sample_mapping_def)

section \<open>Properties\<close>

text \<open>
  C4: However the activities of an injection are repeated, retried or interrupted,
  qBittorrent is never told to start a torrent unless the injection row, as it is
  stored at that moment, records a piece inspection that found every mapped file
  intact and the decision to resume.
\<close>

theorem started_only_when_safe:
  assumes "(run_step input)\<^sup>*\<^sup>* (phase, w) (phase', w')" and "row_safe (w_injection w)" and "w_sent w = []"
    and "(StartTorrent hash, row) \<in> set (w_sent w')"
  shows "\<exists>r. row = Some r \<and> ir_integrity_safe r = Some True \<and> ir_resume_decision r = Some ''resume''"
proof -
  have "safe_world w" using assms(2,3) by (simp add: safe_world_def)
  then have "start_justified (StartTorrent hash, row)"
    using safe_run [OF assms(1)] assms(4) by (auto simp: safe_world_def list_all_iff)
  then show ?thesis by (cases row) simp_all
qed

theorem started_only_when_safe_witness:
  "\<exists>w' row. (run_step sample_input)\<^sup>*\<^sup>* (Observing, sample_world (Some (sample_row ''checking''))) (Observing, w') \<and>
     (StartTorrent ''68'', Some row) \<in> set (w_sent w') \<and> ir_integrity_safe row = Some True"
proof -
  define world where "world = sample_world (Some (sample_row ''checking''))"
  obtain w' row where o: "observe (sample_env (Some (sample_state ''stoppedUP''))) sample_input world = (Inr waiting, w')"
    and sent: "w_sent w' = [(StartTorrent ''68'', Some row)]"
    using sample_observe unfolding world_def by auto
  have "run_step sample_input (Observing, world) (advance Observing waiting, w')"
    by (rule run_step.advances [where env = "sample_env (Some (sample_state ''stoppedUP''))"])
      (simp_all add: running_def activity_def o)
  then have run: "(run_step sample_input)\<^sup>*\<^sup>* (Observing, world) (Observing, w')"
    by (simp add: advance_def waiting_def r_into_rtranclp)
  have "row_safe (w_injection world)" "w_sent world = []" by (simp_all add: world_def sample_world_def sample_row_def)
  from started_only_when_safe [OF run this] sent have "ir_integrity_safe row = Some True" by auto
  then show ?thesis using run sent unfolding world_def by auto
qed


section \<open>Progress of the observation loop\<close>

text \<open>
  The loop of \<open>run\<close> that observes the torrent until the result is terminal.  Each
  observation is a \<open>step\<close>: the engine delivers it up to five times while its error is
  transient, and what a failed delivery wrote stays written.  An error that is
  permanent, or the fifth one, ends the workflow.  The result comes with the number
  of observations that waited; \<open>None\<close> is a loop that is not over after the given
  deliveries.
\<close>

function observe_loop :: "injection_input \<Rightarrow> 's env list \<Rightarrow> 's world \<Rightarrow> (nat \<times> ('s, step_result) outcome) option" where
  "observe_loop input envs w =
     (case step_activity retryable_injection (\<lambda>env. observe env input) envs w of
        None \<Rightarrow> None
      | Some (Inr (Waiting _), w', rest) \<Rightarrow> map_option (\<lambda>(n, outcome). (Suc n, outcome)) (observe_loop input rest w')
      | Some (r, w', rest) \<Rightarrow> Some (0, r, w'))"
  by pat_completeness auto

termination
  by (relation "measure (\<lambda>(input, envs, w). length envs)") (auto dest: with_retry_rest)

declare observe_loop.simps [simp del]

text \<open>
  How often an injection row can still be found waiting while qBittorrent does not
  report a check: the states before the decision come first, and in every other state,
  a row that an interrupted activity left as completed or failed included, an
  observation that waits counts as a verification attempt.
\<close>

definition stage :: "string \<Rightarrow> nat" where
  "stage state = (if state = ''recheck_requested'' then 32 else if state \<in> {''recheck_settling'', ''checking''} then 31 else 0)"

definition patience :: "injection_row option \<Rightarrow> nat" where
  "patience row = (case row of None \<Rightarrow> 0
     | Some r \<Rightarrow> (MAX_FINAL_VERIFY_ATTEMPTS - ir_verification_attempts r) + stage (ir_state r))"

lemma stage_bound: "stage state \<le> 32"
  by (simp add: stage_def)

lemma patience_bound: "patience row \<le> 62"
proof (cases row)
  case (Some r)
  then show ?thesis using stage_bound [of "ir_state r"] by (simp add: patience_def MAX_FINAL_VERIFY_ATTEMPTS_def)
qed (simp add: patience_def)

definition may_check :: "'s env \<Rightarrow> bool" where
  "may_check env \<longleftrightarrow> (\<exists>h t. en_torrent_state env h = Inr (Some t) \<and> is_checking t)"

subsection \<open>No delivery raises the patience\<close>

abbreviation calm :: "nat \<Rightarrow> ('s, 'a) outcome \<Rightarrow> bool" where
  "calm n \<equiv> keeps (\<lambda>w. patience (w_injection w) \<le> n)"

lemma patience_update:
  assumes "\<And>r. w_injection w = Some r \<Longrightarrow> patience (Some (f r)) \<le> n"
  shows "patience (w_injection (update_row f w)) \<le> n"
  using assms by (cases "w_injection w") (simp_all add: update_row_def patience_def)

lemma patience_row_le:
  "ir_verification_attempts r \<le> ir_verification_attempts r' \<Longrightarrow> stage (ir_state r') \<le> stage (ir_state r) \<Longrightarrow>
   patience (Some r') \<le> patience (Some r)"
  by (simp add: patience_def add_mono diff_le_mono2)

lemma patience_kept:
  assumes "patience (w_injection w) \<le> n" and "\<And>r. ir_verification_attempts r \<le> ir_verification_attempts (f r)"
    and "\<And>r. stage (ir_state (f r)) \<le> stage (ir_state r)"
  shows "patience (w_injection (update_row f w)) \<le> n"
proof (rule patience_update)
  fix r assume "w_injection w = Some r"
  then show "patience (Some (f r)) \<le> n" using patience_row_le [OF assms(2,3), of r] assms(1) by simp
qed

lemma calm_project: "patience (w_injection w) \<le> n \<Longrightarrow> calm n (project_candidate_state env input state reason terminal w)"
  by (simp add: wp split: sum.splits)

lemma calm_fail: "patience (w_injection w) \<le> n \<Longrightarrow> calm n (fail env input reason w)"
  unfolding fail_def fail_injection_def set_plan_state_def
  by (intro keeps_rules calm_project patience_kept) (simp_all add: stage_def)

lemma calm_finish: "patience (w_injection w) \<le> n \<Longrightarrow> calm n (finish_injection env input state resumed w)"
  unfolding finish_injection_def set_plan_state_def case_prod_unfold
  by (intro keeps_rules calm_project patience_kept) (simp_all add: stage_def observe_row_def)

lemma calm_bump: "patience (w_injection w) \<le> n \<Longrightarrow> calm n (bump_verification env state w)"
  unfolding bump_verification_def case_prod_unfold
  by (intro keeps_rules patience_kept) (simp_all add: observe_row_def wp ok_or_def split: option.splits)

lemma calm_settle:
  assumes "map_option ir_state (w_injection w) = Some ''recheck_requested''" and "patience (w_injection w) \<le> n"
  shows "calm n (update_qbit_observation env state ''recheck_settling'' w)"
  unfolding update_qbit_observation_def case_prod_unfold
  by (intro keeps_rules assms(2) patience_update)
    (use assms in \<open>auto simp: wp lift_def patience_def stage_def observe_row_def\<close>)

lemma calm_decision:
  assumes "map_option ir_state (w_injection w) \<in> {Some ''recheck_settling'', Some ''checking''}" and "patience (w_injection w) \<le> n"
  shows "calm n (record_resume_decision env state integrity resume w)"
  unfolding record_resume_decision_def case_prod_unfold
  by (intro keeps_rules assms(2) patience_update)
    (use assms in \<open>auto simp: wp lift_def patience_def stage_def observe_row_def MAX_FINAL_VERIFY_ATTEMPTS_def\<close>)

lemma calm_verify_final: "patience (w_injection w) \<le> n \<Longrightarrow> calm n (verify_final env input plan state w)"
  unfolding verify_final_def Let_def
  by (auto intro!: keeps_rules calm_finish calm_bump calm_fail)

lemma calm_inspect:
  assumes "map_option ir_state (w_injection w) \<in> {Some ''recheck_settling'', Some ''checking''}" and "patience (w_injection w) \<le> n"
  shows "calm n (inspect_and_decide env plan hash state w)"
  unfolding inspect_and_decide_def Let_def case_prod_unfold
  by (intro keeps_rules) (use assms in \<open>auto simp: lift_def intro!: keeps_rules calm_decision\<close>)

lemma calm_observe:
  assumes "\<not> may_check env"
  shows "calm (patience (w_injection w)) (observe env input w)"
proof -
  let ?n = "patience (w_injection w)" and ?row = "map_option ir_state (w_injection w)"
  have rest: "calm ?n (case recheck_observation ?row state of
        ObserveChecking \<Rightarrow> and_run (update_qbit_observation env state ''checking'' w) (\<lambda>_ w. (Inr waiting, w))
      | ObserveSettling \<Rightarrow> and_run (update_qbit_observation env state ''recheck_settling'' w) (\<lambda>_ w. (Inr waiting, w))
      | ObserveWaiting \<Rightarrow> and_run (bump_verification env state w) (\<lambda>attempts w.
          if attempts \<ge> MAX_FINAL_VERIFY_ATTEMPTS
          then fail env input ''ambiguous_qbittorrent_state'' w else (Inr waiting, w))
      | ObserveInspect \<Rightarrow> inspect_and_decide env plan hash state w)"
    if "en_torrent_state env h = Inr (Some state)" for h plan hash state
  proof (cases "recheck_observation ?row state")
    case ObserveChecking
    then show ?thesis using that assms by (auto simp: recheck_observation_def may_check_def split: if_splits)
  next
    case ObserveSettling
    then have "?row = Some ''recheck_requested''" by (auto simp: recheck_observation_def split: if_splits)
    then show ?thesis unfolding ObserveSettling recheck_outcome.case by (intro keeps_and_run calm_settle keeps_result) simp_all
  next
    case ObserveWaiting
    then show ?thesis unfolding ObserveWaiting recheck_outcome.case by (auto intro!: keeps_rules calm_bump calm_fail)
  next
    case ObserveInspect
    then have "?row \<in> {Some ''recheck_settling'', Some ''checking''}" by (auto simp: recheck_observation_def split: if_splits)
    then show ?thesis unfolding ObserveInspect recheck_outcome.case by (rule calm_inspect) simp
  qed
  show ?thesis unfolding observe_def
    by (auto simp: load_injection_def load_plan_row lift_def simp del: map_option_eq_Some split: option.split
        intro!: keeps_and_run keeps_result calm_fail calm_verify_final rest)
qed

lemma keeps_snd: "keeps I r \<Longrightarrow> I (snd r)"
  by (cases r) (auto simp: ensures_def split: sum.splits)

interpretation observing: delivery_potential "\<lambda>env. observe env input" "\<lambda>w. patience (w_injection w)"
    "\<lambda>env. if may_check env then 63 else 0" for input
proof
  fix env :: "'a env" and w
  show "patience (w_injection (snd (observe env input w))) \<le> patience (w_injection w) + (if may_check env then 63 else 0)"
    using keeps_snd [OF calm_observe [where env = env and w = w and input = input]] patience_bound [of "w_injection (snd (observe env input w))"]
    by (cases "may_check env") auto
qed

subsection \<open>An observation that waits lowers it\<close>

lemma fail_not_waiting: "ensures (fail env input reason w) (\<lambda>_. True) (\<lambda>x _. x = Terminal ''failed'' reason)"
  unfolding fail_def by (simp add: ensures_def and_run_def split: prod.splits sum.splits)

definition waits :: "bool \<Rightarrow> injection_row option \<Rightarrow> step_result \<Rightarrow> 's world \<Rightarrow> bool" where
  "waits strict row x w' \<longleftrightarrow> (case x of
      Waiting _ \<Rightarrow> strict \<longrightarrow> patience (w_injection w') < patience row
    | Terminal _ _ \<Rightarrow> True | Ready \<Rightarrow> False)"

abbreviation progresses :: "bool \<Rightarrow> 's world \<Rightarrow> ('s, step_result) outcome \<Rightarrow> bool" where
  "progresses strict w r \<equiv> ensures r (\<lambda>_. True) (waits strict (w_injection w))"

lemma progresses_fail: "progresses strict w (fail env input reason w')"
  by (rule ensures_mono [OF fail_not_waiting]) (simp_all add: waits_def)

lemma patience_bump:
  assumes "bump_verification env state w = (Inr attempts, w')" and "attempts < MAX_FINAL_VERIFY_ATTEMPTS"
  shows "patience (w_injection w') < patience (w_injection w)"
  using assms(1) by (rule bump_row) (use assms(2) in \<open>simp add: patience_def observe_row_def\<close>)

lemma progresses_and_run: "(\<And>x w'. r = (Inr x, w') \<Longrightarrow> progresses strict w (f x w')) \<Longrightarrow> progresses strict w (and_run r f)"
  by (cases r, cases "fst r") (auto simp: wp and_run_def)

lemma progresses_result:
  "progresses strict w (Inr (Terminal state reason), w')"
  "patience (w_injection w') < patience (w_injection w) \<Longrightarrow> progresses strict w (Inr waiting, w')"
  by (simp_all add: wp waits_def waiting_def)

lemma progresses_send:
  "patience (w_injection w') < patience (w_injection w) \<Longrightarrow>
   progresses strict w (and_run (send env c w') (\<lambda>_ w. (Inr waiting, w)))"
  by (simp add: wp waits_def waiting_def Let_def split: sum.splits)

lemma progresses_verify_final: "progresses strict w (verify_final env input plan state w)"
  unfolding verify_final_def Let_def
  by (auto intro!: progresses_and_run progresses_result progresses_fail progresses_send
      simp: not_le lift_def dest: patience_bump)

lemma progresses_inspect:
  assumes "w_injection w = Some row" and "ir_state row \<in> {''recheck_settling'', ''checking''}"
  shows "progresses strict w (inspect_and_decide env plan hash state w)"
proof -
  have "patience (w_injection w') < patience (w_injection w)"
    if "record_resume_decision env state integrity resume w = (Inr (), w')" for integrity resume w'
    using that by (rule decision_row)
      (use assms in \<open>auto simp: update_row_def patience_def observe_row_def stage_def MAX_FINAL_VERIFY_ATTEMPTS_def\<close>)
  then show ?thesis unfolding inspect_and_decide_def Let_def
    by (auto intro!: progresses_and_run progresses_send simp: lift_def)
qed

lemma observation_row:
  assumes "update_qbit_observation env state injection_state w = (Inr (), w')"
  shows "map_option ir_state (w_injection w') = map_option (\<lambda>_. injection_state) (w_injection w)"
    and "map_option ir_verification_attempts (w_injection w') = map_option ir_verification_attempts (w_injection w)"
  using assms by (auto simp: update_qbit_observation_def and_run_def lift_def execute_def update_row_def observe_row_def
      option.map_comp comp_def split: sum.splits prod.splits if_splits)

lemma patience_eq: "patience row = (case (map_option ir_state row, map_option ir_verification_attempts row) of
    (Some state, Some attempts) \<Rightarrow> (MAX_FINAL_VERIFY_ATTEMPTS - attempts) + stage state | _ \<Rightarrow> 0)"
  by (cases row) (simp_all add: patience_def)

lemma patience_observation:
  assumes "update_qbit_observation env state injection_state w = (Inr (), w')"
  shows "patience (w_injection w') = (case w_injection w of None \<Rightarrow> 0
    | Some row \<Rightarrow> (MAX_FINAL_VERIFY_ATTEMPTS - ir_verification_attempts row) + stage injection_state)"
  unfolding patience_eq observation_row [OF assms] by (simp split: option.splits)

lemma progresses_observe:
  assumes "strict \<Longrightarrow> (\<And>h t. en_torrent_state env h = Inr (Some t) \<Longrightarrow> \<not> is_checking t)"
  shows "progresses strict w (observe env input w)"
proof -
  have check_wait: "progresses strict w (Inr waiting, w')"
    if "\<not> strict" for w'
    using that by (simp add: wp waits_def waiting_def)
  have settle_wait: "progresses strict w (Inr waiting, w')"
    if "update_qbit_observation env state ''recheck_settling'' w = (Inr (), w')"
      "map_option ir_state (w_injection w) = Some ''recheck_requested''" for state w'
    using that by (auto simp: wp waits_def waiting_def patience_observation) (auto simp: patience_def stage_def split: option.splits)
  have cases: "(recheck_observation row state = ObserveChecking \<longrightarrow> is_checking state) \<and>
      (recheck_observation row state = ObserveSettling \<longrightarrow> row = Some ''recheck_requested'') \<and>
      (recheck_observation row state = ObserveInspect \<longrightarrow> row = Some ''recheck_settling'' \<or> row = Some ''checking'')" for row state
    by (simp add: recheck_observation_def)
  have rest: "progresses strict w (case recheck_observation (map_option ir_state (w_injection w)) state of
        ObserveChecking \<Rightarrow> and_run (update_qbit_observation env state ''checking'' w) (\<lambda>_ w. (Inr waiting, w))
      | ObserveSettling \<Rightarrow> and_run (update_qbit_observation env state ''recheck_settling'' w) (\<lambda>_ w. (Inr waiting, w))
      | ObserveWaiting \<Rightarrow> and_run (bump_verification env state w) (\<lambda>attempts w.
          if attempts \<ge> MAX_FINAL_VERIFY_ATTEMPTS
          then fail env input ''ambiguous_qbittorrent_state'' w else (Inr waiting, w))
      | ObserveInspect \<Rightarrow> inspect_and_decide env plan hash state w)"
    if "en_torrent_state env h = Inr (Some state)" "map_option ir_state (w_injection w) \<noteq> Some ''finalizing''" for h plan hash state
  proof (cases "recheck_observation (map_option ir_state (w_injection w)) state")
    case ObserveChecking
    then have "\<not> strict" using cases assms that(1) by blast
    then show ?thesis unfolding ObserveChecking recheck_outcome.case
      by (intro progresses_and_run check_wait)
  next
    case ObserveSettling
    then show ?thesis using cases by (auto intro!: progresses_and_run settle_wait)
  next
    case ObserveWaiting
    then show ?thesis
      by (auto intro!: progresses_and_run progresses_fail progresses_result patience_bump simp: not_le)
  next
    case ObserveInspect
    then obtain row where "w_injection w = Some row" "ir_state row \<in> {''recheck_settling'', ''checking''}"
      using cases [of "map_option ir_state (w_injection w)" state] by auto
    from progresses_inspect [OF this] show ?thesis unfolding ObserveInspect recheck_outcome.case .
  qed
  show ?thesis unfolding observe_def
    by (auto simp: load_injection_def load_plan_row lift_def simp del: map_option_eq_Some split: option.split
        intro!: progresses_and_run progresses_fail progresses_verify_final rest)
qed

lemma waiting_observation:
  assumes "observe env input w = (Inr x, w')"
  shows "(\<exists>state reason. x = Terminal state reason) \<or>
    (\<exists>d. x = Waiting d) \<and> patience (w_injection w') < patience (w_injection w) + (if may_check env then 63 else 0)"
proof -
  have "progresses (\<not> may_check env) w (observe env input w)" by (rule progresses_observe) (auto simp: may_check_def)
  then have "waits (\<not> may_check env) (w_injection w) x w'" by (simp add: assms wp)
  then show ?thesis using patience_bound [of "w_injection w'"] by (cases x) (auto simp: waits_def)
qed

text \<open>The deliveries in which qBittorrent may report a check.\<close>

definition checks :: "'s env list \<Rightarrow> nat" where
  "checks envs = length (filter may_check envs)"

lemma checks_append [simp]: "checks (xs @ ys) = checks xs + checks ys" "checks (x # xs) = (if may_check x then 1 else 0) + checks xs"
  by (simp_all add: checks_def)

lemma checks_allowance: "sum_list (map (\<lambda>env. if may_check env then 63 else 0) envs) = 63 * checks envs"
  by (induction envs) (simp_all add: checks_def)

lemma observe_loop_ends:
  assumes "5 * (patience (w_injection w) + 63 * checks envs + 1) \<le> length envs"
  shows "\<exists>n r w'. observe_loop input envs w = Some (n, r, w') \<and> n \<le> patience (w_injection w) + 63 * checks envs \<and>
    (\<forall>x. r = Inr x \<longrightarrow> (\<exists>state reason. x = Terminal state reason))"
  using assms
proof (induction "length envs" arbitrary: envs w rule: less_induct)
  case less
  let ?f = "\<lambda>env. observe env input"
  have "0 < ACTIVITY_ATTEMPTS" "ACTIVITY_ATTEMPTS \<le> length envs" using less.prems by (simp_all add: ACTIVITY_ATTEMPTS_def)
  from with_retry_returns [OF this, of retryable_injection ?f w] obtain failed env rest r w' where
    run: "step_activity retryable_injection ?f envs w = Some (r, w', rest)" and envs: "envs = failed @ env # rest"
    and few: "length failed < ACTIVITY_ATTEMPTS" and last: "observe env input (after_deliveries ?f failed w) = (r, w')" by metis
  show ?case
  proof (cases "\<exists>d. r = Inr (Waiting d)")
    case True
    then obtain d where r: "r = Inr (Waiting d)" by blast
    let ?u = "after_deliveries ?f failed w"
    have "patience (w_injection ?u) \<le> patience (w_injection w) + 63 * checks failed"
      using observing.failed_deliveries [of input failed w] unfolding checks_allowance .
    moreover have "patience (w_injection w') < patience (w_injection ?u) + (if may_check env then 63 else 0)"
      using waiting_observation [OF last [unfolded r]] by auto
    ultimately have less_now: "patience (w_injection w') + 63 * checks rest < patience (w_injection w) + 63 * checks envs"
      by (simp add: envs split: if_splits)
    have "length envs \<le> length rest + 5" using few by (simp add: envs ACTIVITY_ATTEMPTS_def)
    moreover have "5 * (patience (w_injection w') + 63 * checks rest + 1) \<le> 5 * (patience (w_injection w) + 63 * checks envs)"
      using less_now by (intro mult_le_mono2) simp
    ultimately have "5 * (patience (w_injection w') + 63 * checks rest + 1) \<le> length rest" using less.prems by (simp del: One_nat_def)
    from less.hyps [OF _ this] obtain n r' w'' where "observe_loop input rest w' = Some (n, r', w'')"
      "n \<le> patience (w_injection w') + 63 * checks rest" "\<forall>x. r' = Inr x \<longrightarrow> (\<exists>state reason. x = Terminal state reason)"
      by (auto simp: envs)
    then show ?thesis using less_now by (subst observe_loop.simps) (auto simp: run r)
  next
    case False
    then have "observe_loop input envs w = Some (0, r, w')"
      by (subst observe_loop.simps) (auto simp: run split: sum.split step_result.split)
    moreover have "\<exists>state reason. x = Terminal state reason" if "r = Inr x" for x
      using waiting_observation [OF last [unfolded that]] False that by auto
    ultimately show ?thesis by blast
  qed
qed

text \<open>
  C13: The observation loop of an injection is bounded.  Every observation is
  delivered up to five times while it fails with a transient error, and what the
  failed deliveries wrote stays written.  Whatever qBittorrent and the database
  answer, the loop ends with a terminal result or an error after at most 62
  observations that wait, and 63 more for each delivery in which qBittorrent reports
  that it is checking.  (Each verification is limited to 30 attempts, and the recheck
  state only moves towards the final verification, also when an activity was
  interrupted between its statements.)
\<close>

theorem observation_loop_bounded:
  assumes "315 * (checks envs + 1) \<le> length envs"
  shows "\<exists>n r w'. observe_loop input envs w = Some (n, r, w') \<and> n < 63 * (checks envs + 1) \<and>
    (\<forall>x. r = Inr x \<longrightarrow> (\<exists>state reason. x = Terminal state reason))"
proof -
  have b: "patience (w_injection w) \<le> 62" by (rule patience_bound)
  then have "5 * (patience (w_injection w) + 63 * checks envs + 1) \<le> length envs" using assms by simp
  from observe_loop_ends [OF this, of input] show ?thesis using b by fastforce
qed

theorem observation_loop_bounded_witness:
  "\<exists>n r w'. observe_loop sample_input (replicate 315 (sample_env (Some (sample_state ''queuedUP''))))
     (sample_world (Some (sample_row ''recheck_requested''))) = Some (n, r, w') \<and> n < 63"
proof -
  let ?envs = "replicate 315 (sample_env (Some (sample_state ''queuedUP'')))"
  have "\<not> may_check (sample_env (Some (sample_state ''queuedUP'')))"
    by (auto simp: may_check_def sample_env_def sample_state_def is_checking_def)
  then have none: "checks ?envs = 0" by (simp add: checks_def)
  then have "315 * (checks ?envs + 1) \<le> length ?envs" by simp
  from observation_loop_bounded [OF this] show ?thesis unfolding none by fastforce
qed


section \<open>Terminal results\<close>

















definition resumed_row :: injection_row where
  "resumed_row = (sample_row ''finalizing'')\<lparr>ir_integrity_safe := Some True, ir_resume_decision := Some ''resume''\<rparr>"



section \<open>An interrupted completion\<close>

text \<open>
  \<open>finish_injection\<close> writes the state \<open>completed\<close> to the injection row first and the
  plan, the candidate and the task in later statements of their own.
\<close>

definition ended_row :: "'s world \<Rightarrow> bool" where
  "ended_row w \<longleftrightarrow> (\<exists>row. w_injection w = Some row \<and> ir_state row \<in> {''completed'', ''failed''})"

definition not_completed :: "step_result \<Rightarrow> 's world \<Rightarrow> bool" where
  "not_completed x w \<longleftrightarrow> (\<forall>reason. x \<noteq> Terminal ''completed'' reason) \<and> ended_row w"

lemma ended_fail: "ended_row w \<Longrightarrow> ensures (fail env input reason w) ended_row not_completed"
  unfolding fail_def fail_injection_def set_plan_state_def ended_row_def not_completed_def
  by (auto simp: wp update_row_def split: sum.splits)

lemma ended_bump: "ended_row w \<Longrightarrow> ensures (bump_verification env state w) ended_row (\<lambda>_. ended_row)"
  unfolding bump_verification_def ended_row_def
  by (auto simp: wp update_row_def observe_row_def ok_or_def split: sum.splits prod.splits option.splits)

lemma ended_waiting: "ended_row w \<Longrightarrow> not_completed waiting w"
  by (simp add: not_completed_def waiting_def)

lemma ended_observe:
  assumes "ended_row w" and check: "\<And>h t. en_torrent_state env h = Inr (Some t) \<Longrightarrow> \<not> is_checking t"
  shows "ensures (observe env input w) ended_row not_completed"
proof -
  have row: "ip_injection_state plan \<in> {Some ''completed'', Some ''failed''}" if "load_plan env w = Inr plan" for plan
    using load_plan_row(1) [OF that] assms(1) by (auto simp: ended_row_def)
  have o: "recheck_observation s t = ObserveWaiting" if "s \<in> {Some ''completed'', Some ''failed''}" "\<not> is_checking t" for s t
    using that by (auto simp: recheck_observation_def)
  have final: "ip_injection_state plan \<noteq> Some ''finalizing''" if "load_plan env w = Inr plan" for plan
    using row [OF that] by auto
  show ?thesis using assms(1) unfolding observe_def
    by (auto simp: wp final o [OF row] check ended_fail ended_waiting intro!: ensures_mono [OF ended_bump]
        split: sum.split option.split)
qed

text \<open>The world after a sequence of observations, each repeated whatever it answers.\<close>

fun observations :: "injection_input \<Rightarrow> 's env list \<Rightarrow> 's world \<Rightarrow> 's world" where
  "observations input [] w = w"
| "observations input (env # envs) w = observations input envs (snd (observe env input w))"

lemma ended_observations:
  assumes "\<And>env h t. env \<in> set envs \<Longrightarrow> en_torrent_state env h = Inr (Some t) \<Longrightarrow> \<not> is_checking t" and "ended_row w"
  shows "ended_row (observations input envs w)"
  using assms
proof (induction envs arbitrary: w)
  case (Cons env envs)
  have "ensures (observe env input w) ended_row not_completed" by (rule ended_observe) (use Cons.prems in auto)
  then have "ended_row (snd (observe env input w))"
    by (cases "observe env input w") (auto simp: ensures_def not_completed_def split: sum.splits)
  then have "ended_row (observations input envs (snd (observe env input w)))"
    by (rule Cons.IH [rotated]) (use Cons.prems(1) in auto)
  then show ?case by simp
qed simp

text \<open>
  C39: A completion that is interrupted is lost.  When a statement of
  \<open>finish_injection\<close> fails after the first one, the injection row already says
  \<open>completed\<close>; from then on no observation, in which qBittorrent does not report a
  new check, ever completes the injection: each one counts as a failed
  verification attempt, until the injection is marked as failed.
\<close>

theorem interrupted_completion_is_lost:
  assumes "w_injection w = Some row" and "observed state = Inr counters" and "\<not> en_fault env SqlInjectionState"
    and "finish_injection env input state resumed w = (Inl e, w')"
    and "\<forall>env' \<in> set (last_env # envs). \<forall>h t. en_torrent_state env' h = Inr (Some t) \<longrightarrow> \<not> is_checking t"
  shows "fst (observe last_env input (observations input envs w')) \<noteq> Inr (Terminal ''completed'' reason)"
proof -
  have "ensures (finish_injection env input state resumed w) ended_row (\<lambda>_ _. True)"
    using assms(1-3) unfolding finish_injection_def set_plan_state_def
    by (cases counters) (auto simp: wp update_row_def ended_row_def split: sum.splits)
  from ensures_Inl_D [OF this assms(4)] have "ended_row w'" .
  then have "ended_row (observations input envs w')"
    by (rule ended_observations [rotated]) (use assms(5) in auto)
  then have "ensures (observe last_env input (observations input envs w')) ended_row not_completed"
    by (rule ended_observe) (use assms(5) in auto)
  then show ?thesis
    by (cases "observe last_env input (observations input envs w')") (auto simp: ensures_def not_completed_def split: sum.splits)
qed

theorem interrupted_completion_is_lost_witness:
  "\<exists>w'. finish_injection ((sample_env None)\<lparr>en_fault := \<lambda>st. st = SqlPlanState\<rparr>) sample_input (sample_state ''uploading'')
        True (sample_world (Some resumed_row)) = (Inl Database, w') \<and>
      fst (observe (sample_env (Some (sample_state ''uploading''))) sample_input w') \<noteq> Inr (Terminal ''completed'' ''resumed'')"
proof -
  let ?env = "(sample_env None)\<lparr>en_fault := \<lambda>st. st = SqlPlanState\<rparr>"
  have o: "observed (sample_state ''uploading'') = Inr (0, 1000000)"
    by (simp add: observed_def sample_state_def to_i64_def ok_or_def)
  then obtain w' where f: "finish_injection ?env sample_input (sample_state ''uploading'') True (sample_world (Some resumed_row))
      = (Inl Database, w')"
    by (simp add: finish_injection_def set_plan_state_def and_run_def lift_def execute_def)
  have r: "w_injection (sample_world (Some resumed_row)) = Some resumed_row" by (simp add: sample_world_def)
  have "fst (observe (sample_env (Some (sample_state ''uploading''))) sample_input (observations sample_input [] w'))
      \<noteq> Inr (Terminal ''completed'' ''resumed'')"
    by (rule interrupted_completion_is_lost [OF r o _ f])
      (auto simp: sample_env_def sample_state_def is_checking_def)
  then show ?thesis using f by auto
qed


section \<open>Links before a recheck\<close>

definition link_of :: "link_row \<Rightarrow> stored_link \<Rightarrow> bool" where
  "link_of row link \<longleftrightarrow> sl_size link = lr_size row \<and> (\<forall>d. lr_device row = Some d \<longrightarrow> sl_device link = d) \<and>
     (\<forall>i. lr_inode row = Some i \<longrightarrow> sl_inode link = i)"

definition links_stored :: "link_row list \<Rightarrow> (nat \<Rightarrow> stored_link option) \<Rightarrow> bool" where
  "links_stored rows links \<longleftrightarrow> list_all (\<lambda>row. \<exists>link. links (lr_candidate_ordinal row) = Some link \<and> link_of row link) rows"

text \<open>What the plan fixes: the files to link, and that they have different ordinals.\<close>

definition planned_rows :: "link_row list \<Rightarrow> 's world \<Rightarrow> bool" where
  "planned_rows rows w \<longleftrightarrow> load_link_rows (take 100000 (w_link_sources w)) = Inr rows \<and> distinct (map lr_candidate_ordinal rows)"

definition is_recheck :: "qbit_command \<times> injection_row option \<Rightarrow> bool" where
  "is_recheck entry = (case fst entry of ForceRecheck _ \<Rightarrow> True | _ \<Rightarrow> False)"

definition before_recheck :: "link_row list \<Rightarrow> 's world \<Rightarrow> bool" where
  "before_recheck rows w \<longleftrightarrow> planned_rows rows w \<and> \<not> list_ex is_recheck (w_sent w)"

definition after_links :: "link_row list \<Rightarrow> 's world \<Rightarrow> bool" where
  "after_links rows w \<longleftrightarrow> planned_rows rows w \<and> links_stored rows (w_links w)"

lemma planned_rows_frame [simp]:
  "planned_rows rows (w\<lparr>w_fs := s\<rparr>) = planned_rows rows w" "planned_rows rows (w\<lparr>w_store := t\<rparr>) = planned_rows rows w"
  "planned_rows rows (w\<lparr>w_plan_state := p\<rparr>) = planned_rows rows w"
  "planned_rows rows (w\<lparr>w_candidate_state := p\<rparr>) = planned_rows rows w"
  "planned_rows rows (w\<lparr>w_sent := c\<rparr>) = planned_rows rows w" "planned_rows rows (w\<lparr>w_links := l\<rparr>) = planned_rows rows w"
  "planned_rows rows (w\<lparr>w_injection := i\<rparr>) = planned_rows rows w"
  by (simp_all add: planned_rows_def)

interpretation pre: bookkeeping "before_recheck rows" for rows
  by unfold_locales (auto simp: before_recheck_def update_row_def)

interpretation post: bookkeeping "after_links rows" for rows
  by unfold_locales (auto simp: after_links_def update_row_def)

lemma pre_sent [simp]:
  "before_recheck rows (w\<lparr>w_sent := w_sent w @ [(c, row)]\<rparr>) \<longleftrightarrow> before_recheck rows w \<and> \<not> is_recheck (c, row)"
  by (auto simp: before_recheck_def)

lemma post_sent [simp]: "after_links rows (w\<lparr>w_sent := c\<rparr>) = after_links rows w"
  by (simp add: after_links_def)

lemma pre_prepare: "before_recheck rows w \<Longrightarrow> keeps (before_recheck rows) (prepare env input w)"
  unfolding prepare_def record_injection_def set_plan_state_def
  by (auto intro!: keeps_rules pre.keeps_fail pre.keeps_ensure_namespace pre.on_plan_state
      split: torrent_lookup.splits option.splits prod.splits simp: is_recheck_def)
    (auto simp: before_recheck_def)

lemma pre_materialize: "before_recheck rows w \<Longrightarrow> keeps (before_recheck rows) (materialize_activity env input w)"
  unfolding materialize_activity_def persist_links_def Let_def
  by (auto intro!: keeps_rules pre.keeps_fail pre.on_files pre.on_row
      split: option.splits sum.splits prod.splits) (auto simp: before_recheck_def)

lemma post_recheck: "after_links rows w \<Longrightarrow> keeps (after_links rows) (recheck env input w)"
  unfolding recheck_def by (auto intro!: keeps_rules post.keeps_fail post.keeps_observation)

lemma post_observe: "after_links rows w \<Longrightarrow> keeps (after_links rows) (observe env input w)"
  unfolding observe_def verify_final_def inspect_and_decide_def record_resume_decision_def Let_def
  by (auto intro!: keeps_rules post.keeps_fail post.keeps_observation post.keeps_finish
      split: option.splits recheck_outcome.splits prod.splits) (auto simp: after_links_def update_row_def)

lemma materialize_each_matches:
  assumes "materialize_each ops s m name_space links = ((results, None), s')"
  shows "list_all2 (link_matches m) links results"
  using assms
proof (induction links arbitrary: s results)
  case (Cons link links)
  from Cons.prems obtain first s1 rest where f: "materialize ops s m name_space [link] = (Inr first, s1)"
    and r: "materialize_each ops s1 m name_space links = ((rest, None), s')" "results = first @ rest"
    by (auto split: prod.splits sum.splits)
  have "list_all2 (link_matches m) [link] first"
    using f by (auto simp: materialize_def dest: materialize_one_Inr split: prod.splits sum.splits)
  from list_all2_appendI [OF this Cons.IH [OF r(1)]] show ?case by (simp add: r(2))
qed simp

definition planned_as :: "link_row \<Rightarrow> planned_link \<Rightarrow> bool" where
  "planned_as row link \<longleftrightarrow> pl_expected_size link = lr_size row \<and> pl_expected_device link = lr_device row \<and>
     pl_expected_inode link = lr_inode row \<and> pl_destination_relative link = lr_candidate_path row"

lemma plan_links_rows: "plan_links rewrites rows = Inr links \<Longrightarrow> list_all2 planned_as rows links"
  by (induction rows arbitrary: links) (auto simp: planned_as_def and_then_Inr)

lemma stored_link_of_Inr:
  assumes "stored_link_of row link = Inr stored"
  shows "sl_size stored = mk_size link" "sl_device stored = mk_device link" "sl_inode stored = mk_inode link"
  using assms by (auto simp: stored_link_of_def to_i64_def and_then_Inr split: if_splits)

lemma upsert_link_of:
  assumes "stored_link_of row link = Inr stored" and "planned_as row planned" and "link_matches m planned link"
  shows "\<exists>l. upsert_link ordinal stored links ordinal = Some l \<and> link_of row l"
  using assms(2,3) stored_link_of_Inr [OF assms(1)]
  by (auto simp: upsert_link_def link_of_def planned_as_def link_matches_def split: option.splits)

lemma upsert_links_keeps:
  assumes "upsert_links pairs links = Inr stored" and "ordinal \<notin> set (map (lr_candidate_ordinal \<circ> fst) pairs)"
  shows "stored ordinal = links ordinal"
  using assms
proof (induction pairs arbitrary: links)
  case (Cons p pairs)
  obtain row link where p: "p = (row, link)" by (cases p)
  from Cons.prems(1) obtain l where "upsert_links pairs (upsert_link (lr_candidate_ordinal row) l links) = Inr stored"
    by (auto simp: p and_then_Inr)
  from Cons.IH [OF this] Cons.prems(2) show ?case by (simp add: p upsert_link_def)
qed simp

lemma upsert_links_stored:
  assumes "list_all2 planned_as rows planned" and "list_all2 (link_matches m) planned results"
    and "upsert_links (zip rows results) links = Inr stored" and "distinct (map lr_candidate_ordinal rows)"
  shows "links_stored rows stored"
  using assms
proof (induction rows arbitrary: planned results links)
  case (Cons row rows)
  from Cons.prems(1,2) obtain p ps r rs where l: "planned = p # ps" "results = r # rs" "planned_as row p" "link_matches m p r"
    "list_all2 planned_as rows ps" "list_all2 (link_matches m) ps rs"
    by (auto simp: list_all2_Cons1)
  from Cons.prems(3) obtain l where s: "stored_link_of row r = Inr l"
    and rest: "upsert_links (zip rows rs) (upsert_link (lr_candidate_ordinal row) l links) = Inr stored"
    by (auto simp: l and_then_Inr)
  have "lr_candidate_ordinal row \<notin> set (map (lr_candidate_ordinal \<circ> fst) (zip rows rs))"
    using Cons.prems(4) by (auto dest!: set_zip_leftD)
  from upsert_links_keeps [OF rest this] upsert_link_of [OF s l(3,4)]
  have "\<exists>l. stored (lr_candidate_ordinal row) = Some l \<and> link_of row l" by simp
  moreover have "links_stored rows stored" using Cons.IH [OF l(5,6) rest] Cons.prems(4) by simp
  ultimately show ?case by (simp add: links_stored_def)
qed (simp add: links_stored_def)

lemma load_plan_mappings:
  "load_plan env w = Inr plan \<Longrightarrow> planned_rows rows w \<Longrightarrow> ip_mappings plan = rows \<and> distinct (map lr_candidate_ordinal rows)"
  by (auto simp: load_plan_def planned_rows_def and_then_Inr split: if_splits)

lemma persist_links_stores:
  assumes "persist_links env plan results complete w = (Inr (), w')" and "planned_rows rows w"
    and "ip_mappings plan = rows" "distinct (map lr_candidate_ordinal rows)"
    and "planned_links plan = Inr planned" and "list_all2 (link_matches m) planned results"
  shows "after_links rows w'"
proof -
  from assms(1) obtain stored where s: "upsert_links (zip rows results) (w_links w) = Inr stored"
    and w': "w_links w' = stored" "w_link_sources w' = w_link_sources w"
    by (auto simp: persist_links_def assms(3) Let_def and_run_def lift_def execute_def update_row_def
        split: sum.splits if_splits)
  have "links_stored rows stored"
    using plan_links_rows assms(3-6) s upsert_links_stored by (metis planned_links_def)
  then show ?thesis using assms(2) w' by (simp add: after_links_def planned_rows_def)
qed

lemma ready_materialize:
  assumes "materialize_activity env input w = (Inr Ready, w')" and "planned_rows rows w"
  shows "after_links rows w'"
proof -
  have nf: "fail env input reason v \<noteq> (Inr Ready, w')" for reason v
    using ensures_Inr_D [OF fail_not_waiting, of env input reason v Ready w'] by auto
  from assms(1) obtain plan planned name_space mz results s where
    "load_plan env w = Inr plan" "planned_links plan = Inr planned"
    "materialize_each (en_fs env) (w_fs w) mz name_space planned = ((results, None), s)"
    "persist_links env plan results True (w\<lparr>w_fs := s\<rparr>) = (Inr (), w')"
    by (auto simp: materialize_activity_def and_run_def load_injection_def lift_def nf
        split: if_splits sum.splits prod.splits option.splits)
  then show ?thesis using load_plan_mappings [of env w plan rows] assms(2) materialize_each_matches persist_links_stores
    by (metis planned_rows_frame(1))
qed

definition linked_phase :: "link_row list \<Rightarrow> phase \<Rightarrow> 's world \<Rightarrow> bool" where
  "linked_phase rows phase w \<longleftrightarrow>
     (if phase \<in> {Preparing, Materializing} then before_recheck rows w
      else if phase \<in> {Rechecking, Observing} then after_links rows w
      else before_recheck rows w \<or> after_links rows w)"

lemma linked_phase_weaken:
  "linked_phase rows phase w \<Longrightarrow> \<not> running phase' \<Longrightarrow> linked_phase rows phase' w"
  by (auto simp: linked_phase_def running_def split: if_splits)

lemma linked_activity:
  assumes "running phase" "linked_phase rows phase w" "activity phase env input w = (r, w')"
  shows "linked_phase rows phase w'" and "r = Inr x \<Longrightarrow> linked_phase rows (advance phase x) w'"
proof -
  have keep: "I w'" if "keeps I (r, w')" for I using that by (simp add: ensures_def split: sum.splits)
  note acts = pre_prepare [of rows w env input] pre_materialize [of rows w env input]
    post_recheck [of rows w env input] post_observe [of rows w env input]
  show k: "linked_phase rows phase w'"
    using assms acts by (auto simp: running_def activity_def linked_phase_def dest!: keep)
  show "linked_phase rows (advance phase x) w'" if x: "r = Inr x"
  proof (cases "phase = Materializing \<and> x = Ready")
    case True
    then have "after_links rows w'"
      using ready_materialize [of env input w w' rows] assms(2,3) x
      by (simp add: activity_def linked_phase_def before_recheck_def)
    then show ?thesis using True by (simp add: advance_def linked_phase_def)
  next
    case False
    then show ?thesis using k assms(1) linked_phase_weaken [OF k]
      by (cases phase; cases x) (auto simp: running_def advance_def linked_phase_def)
  qed
qed

lemma linked_run:
  "(run_step input)\<^sup>*\<^sup>* (Preparing, w) (phase, w') \<Longrightarrow> before_recheck rows w \<Longrightarrow> linked_phase rows phase w'"
proof (induction "(phase, w')" arbitrary: phase w' rule: rtranclp_induct)
  case base
  then show ?case by (simp add: linked_phase_def)
next
  case (step c)
  obtain p v where c: "c = (p, v)" by (cases c)
  have IH: "linked_phase rows p v" using step c by simp
  from step(2)[unfolded c] show ?case
  proof (rule run_step_activity)
    fix env r
    assume a: "running p" "activity p env input v = (r, w')"
      "\<And>x. r = Inr x \<Longrightarrow> phase = p \<or> phase = advance p x"
      "\<And>e. r = Inl e \<Longrightarrow> phase = Broken \<or> phase = p \<and> retryable_injection e"
    note l = linked_activity [OF a(1) IH a(2)]
    show ?thesis
    proof (cases r)
      case (Inl e)
      then show ?thesis using a(4) l(1) linked_phase_weaken [OF l(1), of Broken] by (auto simp: running_def)
    next
      case (Inr x)
      then show ?thesis using a(3) l by auto
    qed
  qed
qed

text \<open>
  C8: qBittorrent is never asked to recheck a torrent before its files are in place.
  Whenever a recheck has been requested, however the activities before it were
  retried or interrupted, every file that the plan maps has a stored link with the
  size of its source file, and with its device and inode where these are known.
\<close>

theorem recheck_only_after_links:
  assumes "(run_step input)\<^sup>*\<^sup>* (Preparing, w) (phase, w')" and "w_sent w = []"
    and "load_link_rows (take 100000 (w_link_sources w)) = Inr rows" and "distinct (map lr_candidate_ordinal rows)"
    and "(ForceRecheck hash, row) \<in> set (w_sent w')"
  shows "\<forall>mapping \<in> set rows. \<exists>link. w_links w' (lr_candidate_ordinal mapping) = Some link \<and>
    sl_size link = lr_size mapping \<and> (\<forall>d. lr_device mapping = Some d \<longrightarrow> sl_device link = d) \<and>
    (\<forall>i. lr_inode mapping = Some i \<longrightarrow> sl_inode link = i)"
proof -
  have "linked_phase rows phase w'"
    using linked_run [OF assms(1), of rows] assms(2-4) by (simp add: before_recheck_def planned_rows_def)
  moreover have "\<not> before_recheck rows w'"
    using assms(5) by (force simp: before_recheck_def list_ex_iff is_recheck_def)
  ultimately have "links_stored rows (w_links w')"
    by (auto simp: linked_phase_def after_links_def split: if_splits)
  then show ?thesis by (auto simp: links_stored_def link_of_def list_all_iff)
qed

lemma load_plan_cong:
  assumes "w_plan w = w_plan v" and "w_link_sources w = w_link_sources v" and "w_injection w = w_injection v"
  shows "load_plan env w = load_plan env v"
  unfolding load_plan_def assms ..

lemma sample_load_any:
  assumes "w_plan w = w_plan (sample_world None)" and "w_link_sources w = w_link_sources (sample_world None)"
  shows "load_plan (sample_env answer) w = Inr (sample_plan (w_injection w))"
  using sample_load [of answer "w_injection w"]
  by (subst load_plan_cong [where v = "sample_world (w_injection w)"]) (simp_all add: assms sample_world_def)

lemma sample_namespace: "namespace_relative (sample_plan row) = Inr ''ns''"
proof -
  have "path_strip_prefix ''/links/ns'' ''/links'' = Some [Normal ''ns'']" by code_simp
  then show ?thesis by (simp add: namespace_relative_def sample_plan_def)
qed

lemma sample_links: "planned_links (sample_plan row) = Inr [\<lparr> pl_source_root = ''/data'', pl_source_relative = ''a'',
    pl_destination_relative = ''a'', pl_expected_size = 7, pl_expected_device = Some 5, pl_expected_inode = Some 9 \<rparr>]"
  by (simp add: planned_links_def sample_plan_def sample_mapping_def)

lemma sample_open: "open_materializer sample_ops s ''/links'' = Inr \<lparr>mz_link_root = 1, mz_link_device = 5\<rparr>"
  by (simp add: open_materializer_def open_absolute_directory_def is_absolute_def sample_ops_def)

lemma sample_ensure: "materialize sample_ops 0 \<lparr>mz_link_root = 1, mz_link_device = 5\<rparr> ''ns'' [] = (Inr [], 0)"
  by code_simp

lemma sample_each: "materialize sample_ops 0 \<lparr>mz_link_root = 1, mz_link_device = 5\<rparr> ''ns''
    [\<lparr> pl_source_root = ''/data'', pl_source_relative = ''a'',
    pl_destination_relative = ''a'', pl_expected_size = 7, pl_expected_device = Some 5, pl_expected_inode = Some 9 \<rparr>]
   = (Inr [\<lparr> mk_destination_relative = ''a'', mk_device = 5, mk_inode = 9, mk_size = 7, mk_existing = False \<rparr>], 1)"
  by code_simp

definition stopped_env :: "nat env" where
  "stopped_env = sample_env (Some (sample_state ''stoppedDL''))"

lemma sample_prepare:
  "prepare stopped_env sample_input (sample_world None)
     = (Inr Ready, (sample_world (Some ((sample_row ''added_stopped'')\<lparr>ir_progress_ppm := 1000000\<rparr>)))\<lparr>w_plan_state := ''added_stopped''\<rparr>)"
proof -
  have hashes: "plan_hashes (sample_plan None) = Inr [''68'']" for row
    using sample_hash [of None] by (simp add: plan_hash_def plan_hashes_def sample_plan_def sample_manifest_def)
  have "ensure_namespace stopped_env (sample_plan None) (sample_world None) = (Inr (), sample_world None)"
    using sample_open [of 0] sample_ensure sample_namespace [of None]
    by (simp add: ensure_namespace_def stopped_env_def)
      (simp add: sample_env_def sample_plan_def sample_world_def and_run_def lift_def on_fs_def map_err_def)
  then show ?thesis
    by (simp add: prepare_def stopped_env_def load_injection_def sample_load hashes and_run_def lift_def)
     (simp add: sample_env_def sample_state_def sample_plan_def sample_row_def sample_world_def is_stopped_def
       same_save_path_def record_injection_def set_plan_state_def run_simps sample_manifest_def)
qed

definition prepared_world :: "nat world" where
  "prepared_world = (sample_world (Some ((sample_row ''added_stopped'')\<lparr>ir_progress_ppm := 1000000\<rparr>)))\<lparr>w_plan_state := ''added_stopped''\<rparr>"

definition linked_world :: "nat world" where
  "linked_world = (sample_world (Some ((sample_row ''links_complete'')\<lparr>ir_progress_ppm := 1000000\<rparr>)))
     \<lparr>w_plan_state := ''links_complete'', w_fs := 1,
      w_links := [0 \<mapsto> \<lparr>sl_source_file_id = 1, sl_destination = ''a'', sl_device = 5, sl_inode = 9, sl_size = 7\<rparr>]\<rparr>"

lemma sample_plan_fields:
  "ip_save_path_remote (sample_plan row) = ''/remote/ns''" "ip_namespace_local_root (sample_plan row) = ''/links''"
  "ip_mappings (sample_plan row) = [sample_mapping]"
  by (simp_all add: sample_plan_def)

lemma sample_materialize_activity: "materialize_activity stopped_env sample_input prepared_world = (Inr Ready, linked_world)"
proof -
  have l: "load_plan stopped_env prepared_world = Inr (sample_plan (w_injection prepared_world))"
    unfolding stopped_env_def by (rule sample_load_any) (simp_all add: prepared_world_def sample_world_def)
  show ?thesis
    by (simp add: materialize_activity_def load_injection_def l sample_hash and_run_def lift_def)
      (simp add: stopped_env_def sample_namespace sample_links sample_env_def prepared_world_def sample_world_def linked_world_def sample_state_def
        is_stopped_def same_save_path_def sample_plan_fields sample_mapping_def sample_open sample_each persist_links_def run_simps
        stored_link_of_def upsert_link_def sample_row_def Let_def del: One_nat_def)
qed

lemma sample_recheck:
  "\<exists>w'. recheck stopped_env sample_input linked_world = (Inr waiting, w') \<and>
     w_sent w' = [(ForceRecheck ''68'', w_injection linked_world)]"
proof -
  have l: "load_plan stopped_env linked_world = Inr (sample_plan (w_injection linked_world))"
    unfolding stopped_env_def by (rule sample_load_any) (simp_all add: linked_world_def sample_world_def)
  show ?thesis
    by (simp add: recheck_def load_injection_def l sample_hash and_run_def lift_def)
      (simp add: stopped_env_def sample_env_def linked_world_def sample_world_def run_simps set_injection_state_def)
qed

theorem recheck_only_after_links_witness:
  "\<exists>w'. (run_step sample_input)\<^sup>*\<^sup>* (Preparing, sample_world None) (Observing, w') \<and>
     w_sent w' = [(ForceRecheck ''68'', w_injection linked_world)] \<and>
     (\<exists>link. w_links w' 0 = Some link \<and> sl_size link = 7)"
proof -
  obtain w' where r: "recheck stopped_env sample_input linked_world = (Inr waiting, w')"
    and sent: "w_sent w' = [(ForceRecheck ''68'', w_injection linked_world)]"
    using sample_recheck by blast
  note adv = run_step.advances [where env = stopped_env and input = sample_input]
  have "run_step sample_input (Preparing, sample_world None) (Materializing, prepared_world)"
    using adv [of Preparing "sample_world None" Ready prepared_world]
    by (simp add: running_def activity_def sample_prepare prepared_world_def advance_def)
  moreover have "run_step sample_input (Materializing, prepared_world) (Rechecking, linked_world)"
    using adv [of Materializing prepared_world Ready linked_world]
    by (simp add: running_def activity_def sample_materialize_activity advance_def)
  moreover have "run_step sample_input (Rechecking, linked_world) (Observing, w')"
    using adv [of Rechecking linked_world waiting w'] by (simp add: running_def activity_def r advance_def waiting_def)
  ultimately have run: "(run_step sample_input)\<^sup>*\<^sup>* (Preparing, sample_world None) (Observing, w')"
    by (meson r_into_rtranclp rtranclp_trans)
  have rows: "load_link_rows (take 100000 (w_link_sources (sample_world None))) = Inr [sample_mapping]"
    using sample_rows [of None] by (simp add: sample_world_def)
  have "w_sent (sample_world None) = []" by (simp add: sample_world_def)
  from recheck_only_after_links [OF run this rows] sent
  have "\<exists>link. w_links w' 0 = Some link \<and> sl_size link = 7" by (auto simp: sample_mapping_def)
  then show ?thesis using run sent by blast
qed


section \<open>The resume decision\<close>

definition has_sent :: "(qbit_command \<times> injection_row option) list \<Rightarrow> 's world \<Rightarrow> bool" where
  "has_sent entries w \<longleftrightarrow> w_sent w = entries"

interpretation sent: bookkeeping "has_sent entries" for entries
  by unfold_locales (auto simp: has_sent_def update_row_def)

text \<open>The command that an inspection of the pieces leads to, and the row that it stores.\<close>

definition decided ::
  "'s env \<Rightarrow> injection_plan \<Rightarrow> string \<Rightarrow> torrent_state \<Rightarrow> 's world \<Rightarrow> 's world \<Rightarrow> bool" where
  "decided env plan hash state w w' \<longleftrightarrow> (\<exists>states well_formed integrity row.
     en_pieces env hash = Inr (states, well_formed) \<and>
     inspect_pieces (ip_manifest plan) (mapped_ordinals plan) states well_formed = Inr integrity \<and>
     w_injection w' = Some row \<and> ir_state row = ''finalizing'' \<and> ir_verification_attempts row = 0 \<and>
     ir_integrity_safe row = Some (pi_integrity_safe integrity) \<and>
     (if pi_integrity_safe integrity \<and> resume_allowed (ip_resume plan) (ts_amount_left state) integrity
      then ir_resume_decision row = Some ''resume'' \<and> w_sent w' = w_sent w @ [(StartTorrent hash, Some row)]
      else ir_resume_decision row = Some ''stop'' \<and> w_sent w' = w_sent w @ [(StopTorrent hash, Some row)]))"

lemma inspect_decides:
  assumes "w_injection w = Some row"
  shows "ensures (inspect_and_decide env plan hash state w)
    (\<lambda>w'. has_sent (w_sent w) w' \<or> decided env plan hash state w w') (\<lambda>_. decided env plan hash state w)"
  using assms unfolding inspect_and_decide_def record_resume_decision_def decided_def has_sent_def observe_row_def
  by (auto simp: wp Let_def update_row_def split: sum.splits prod.splits)

lemma sent_observe:
  assumes "observe env input w = (r, w')" and "w_sent w' \<noteq> w_sent w"
    and "map_option ir_state (w_injection w) \<noteq> Some ''finalizing''"
  obtains plan hash state where "load_plan env w = Inr plan" "plan_hash plan = Inr hash"
    "en_torrent_state env hash = Inr (Some state)" "\<not> is_checking state" "decided env plan hash state w w'"
proof -
  define Q where "Q = (\<lambda>w'. has_sent (w_sent w) w' \<or> (\<exists>plan hash state. load_plan env w = Inr plan \<and> plan_hash plan = Inr hash \<and>
    en_torrent_state env hash = Inr (Some state) \<and> \<not> is_checking state \<and> decided env plan hash state w w'))"
  have kept: "ensures c Q (\<lambda>_. Q)" if "keeps (has_sent (w_sent w)) c" for c :: "('a, step_result) outcome"
    using that by (rule ensures_mono) (simp_all add: Q_def)
  have here: "has_sent (w_sent w) w" by (simp add: has_sent_def)
  then have Qw: "Q w" by (simp add: Q_def)
  have inspect: "ensures (inspect_and_decide env plan hash state w) Q (\<lambda>_. Q)"
    if "load_plan env w = Inr plan" "plan_hash plan = Inr hash" "en_torrent_state env hash = Inr (Some state)"
      "recheck_observation (map_option ir_state (w_injection w)) state = ObserveInspect" for plan hash state
  proof -
    note insp = that(4)
    obtain row where row: "w_injection w = Some row"
      using insp by (cases "w_injection w") (auto simp: recheck_observation_def split: if_splits)
    have "\<not> is_checking state" using that(4) by (simp add: recheck_observation_def split: if_splits)
    then show ?thesis using that by (intro ensures_mono [OF inspect_decides [OF row]]) (auto simp: Q_def)
  qed
  have waits: "ensures (and_run c (\<lambda>_ w. (Inr waiting, w))) Q (\<lambda>_. Q)" if "keeps (has_sent (w_sent w)) c" for c :: "('a, unit) outcome"
    using that by (intro kept keeps_and_run) (simp_all add: wp)
  have rest: "ensures (case recheck_observation (map_option ir_state (w_injection w)) state of
        ObserveChecking \<Rightarrow> and_run (update_qbit_observation env state ''checking'' w) (\<lambda>_ w. (Inr waiting, w))
      | ObserveSettling \<Rightarrow> and_run (update_qbit_observation env state ''recheck_settling'' w) (\<lambda>_ w. (Inr waiting, w))
      | ObserveWaiting \<Rightarrow> and_run (bump_verification env state w) (\<lambda>attempts w.
          if attempts \<ge> MAX_FINAL_VERIFY_ATTEMPTS
          then fail env input ''ambiguous_qbittorrent_state'' w else (Inr waiting, w))
      | ObserveInspect \<Rightarrow> inspect_and_decide env plan hash state w) Q (\<lambda>_. Q)"
    if "load_plan env w = Inr plan" "plan_hash plan = Inr hash" "en_torrent_state env hash = Inr (Some state)" for plan hash state
    using inspect [OF that] here
    by (auto intro!: waits kept keeps_rules sent.keeps_observation sent.keeps_fail split: recheck_outcome.split)
  have "ensures (observe env input w) Q (\<lambda>_. Q)"
    unfolding observe_def ensures_and_run ensures_load ensures_lift
    using here Qw assms(3) rest
    by (auto simp: wp load_plan_row simp del: map_option_eq_Some intro!: kept sent.keeps_fail split: sum.split option.split)
  then have "Q w'" using assms(1) by (simp add: ensures_def split: sum.splits)
  then show thesis using assms(2) that by (auto simp: Q_def has_sent_def)
qed


lemma decided_start:
  assumes "decided env plan hash' state w w'" and sent: "w_sent w' = w_sent w @ [(StartTorrent hash, row)]"
  obtains states well_formed integrity where "en_pieces env hash = Inr (states, well_formed)"
    "inspect_pieces (ip_manifest plan) (mapped_ordinals plan) states well_formed = Inr integrity"
    "pi_integrity_safe integrity" "resume_allowed (ip_resume plan) (ts_amount_left state) integrity"
proof -
  from assms(1) obtain states well_formed integrity row' where
    p: "en_pieces env hash' = Inr (states, well_formed)"
    "inspect_pieces (ip_manifest plan) (mapped_ordinals plan) states well_formed = Inr integrity"
    and c: "if pi_integrity_safe integrity \<and> resume_allowed (ip_resume plan) (ts_amount_left state) integrity
      then ir_resume_decision row' = Some ''resume'' \<and> w_sent w' = w_sent w @ [(StartTorrent hash', Some row')]
      else ir_resume_decision row' = Some ''stop'' \<and> w_sent w' = w_sent w @ [(StopTorrent hash', Some row')]"
    unfolding decided_def by blast
  have go: "pi_integrity_safe integrity \<and> resume_allowed (ip_resume plan) (ts_amount_left state) integrity"
    by (rule ccontr) (use c sent in simp)
  then have "hash' = hash" using c sent by simp
  then show thesis using that p go by simp
qed

end
