(* ===== verification/Release.thy ===== *)
theory Release
  imports Domain_Model
begin

text \<open>
  \<open>crates/sporos-matcher/src/release.rs\<close>: title normalisation and the parser
  that turns a release name into a \<^typ>\<open>release_descriptor\<close>.

  The Unicode tables the code consults are a parameter, the record \<open>unicode\<close>:
  NFC normalisation comes from the third-party crate \<open>unicode-normalization\<close>,
  and lower-casing and the alphanumeric test of non-ASCII characters from the
  tables of the Unicode standard.  The ASCII range of both is defined here.
  Characters are byte strings (\<^const>\<open>chars\<close>).
\<close>

section \<open>Characters\<close>

record unicode =
  nfc :: "string \<Rightarrow> string"
  lowercase_other :: "string \<Rightarrow> string list"
  alphanumeric_other :: "string \<Rightarrow> bool"

text \<open>The tables restricted to ASCII, the instance that the concrete examples use.\<close>

definition ascii_unicode :: unicode where
  "ascii_unicode = \<lparr>nfc = (\<lambda>s. s), lowercase_other = (\<lambda>c. [c]), alphanumeric_other = (\<lambda>_. False)\<rparr>"

definition to_lowercase :: "unicode \<Rightarrow> string \<Rightarrow> string list" where
  "to_lowercase u c =
     (case c of
        [b] \<Rightarrow> if (of_char b :: nat) < 128 then [[ascii_lower_char b]] else lowercase_other u c
      | _ \<Rightarrow> lowercase_other u c)"

definition is_alphanumeric :: "unicode \<Rightarrow> string \<Rightarrow> bool" where
  "is_alphanumeric u c =
     (case c of
        [b] \<Rightarrow> if (of_char b :: nat) < 128 then is_ascii_alphanumeric b else alphanumeric_other u c
      | _ \<Rightarrow> alphanumeric_other u c)"

section \<open>Title normalisation\<close>

definition normalize_step :: "unicode \<Rightarrow> string \<Rightarrow> string list \<times> bool \<Rightarrow> string list \<times> bool" where
  "normalize_step u character state =
     (case state of (normalized, separator) \<Rightarrow>
        if is_alphanumeric u character then (normalized @ [character], False)
        else if \<not> separator \<and> normalized \<noteq> [] then (normalized @ ['' ''], True)
        else (normalized, separator))"

definition normalize_chars :: "unicode \<Rightarrow> string list \<Rightarrow> string list" where
  "normalize_chars u cs =
     (case fold (normalize_step u) cs ([], True) of (normalized, separator) \<Rightarrow>
        if separator then butlast normalized else normalized)"

definition normalize_title :: "unicode \<Rightarrow> string \<Rightarrow> normalized_title" where
  "normalize_title u value =
     from_normalized (concat (normalize_chars u
       (concat (map (to_lowercase u) (chars (nfc u value))))))"

section \<open>Digits and boundaries\<close>

definition parse_digits :: "string \<Rightarrow> nat" where
  "parse_digits bytes = fold (\<lambda>digit value. value * 10 + (of_char digit - 48)) bytes 0"

function digits_end :: "string \<Rightarrow> nat \<Rightarrow> nat \<Rightarrow> nat \<Rightarrow> nat" where
  "digits_end bytes start maximum stop =
     (if stop < length bytes \<and> stop - start < maximum \<and> is_ascii_digit (bytes ! stop)
      then digits_end bytes start maximum (stop + 1) else stop)"
  by pat_completeness auto
termination
  by (relation "measure (\<lambda>(bytes, start, maximum, stop). length bytes - stop)") auto

declare digits_end.simps [simp del]

definition digits :: "string \<Rightarrow> nat \<Rightarrow> nat \<Rightarrow> nat \<Rightarrow> (nat \<times> nat) option" where
  "digits bytes start minimum maximum =
     (let stop = digits_end bytes start maximum start
      in if stop - start \<ge> minimum then Some (parse_digits (slice bytes start stop), stop)
         else None)"

definition boundary :: "char option \<Rightarrow> bool" where
  "boundary value = (case value of None \<Rightarrow> True | Some b \<Rightarrow> \<not> is_ascii_alphanumeric b)"

definition valid_day :: "nat \<Rightarrow> nat \<Rightarrow> nat \<Rightarrow> bool" where
  "valid_day year month day =
     (let leap = year mod 4 = 0 \<and> (year mod 100 \<noteq> 0 \<or> year mod 400 = 0);
          maximum = (if month = 2 then (if leap then 29 else 28)
                     else if month \<in> {4, 6, 9, 11} then 30 else 31)
      in 1 \<le> day \<and> day \<le> maximum)"

section \<open>Markers\<close>

record episode_marker =
  em_start :: nat
  em_season :: nat
  em_episode :: nat
  em_episode_end :: "nat option"

definition episode_at :: "string \<Rightarrow> nat \<Rightarrow> episode_marker option" where
  "episode_at bytes start =
     (if bytes ! start \<noteq> CHR ''S'' then None
      else case digits bytes (start + 1) 1 2 of
        None \<Rightarrow> None
      | Some (season, after_season) \<Rightarrow>
          if get bytes after_season \<noteq> Some CHR ''E'' then None
          else case digits bytes (after_season + 1) 1 3 of
            None \<Rightarrow> None
          | Some (episode, stop) \<Rightarrow>
              (let stop' = (if get bytes stop = Some CHR ''-'' then stop + 1 else stop);
                   episode_end = (if get bytes stop' = Some CHR ''E''
                     then map_option fst (digits bytes (stop' + 1) 1 3) else None)
               in Some \<lparr>em_start = start, em_season = season, em_episode = episode,
                        em_episode_end = episode_end\<rparr>))"

definition find_episode :: "string \<Rightarrow> episode_marker option" where
  "find_episode bytes = find_map (episode_at bytes) [0..<length bytes]"

definition season_at :: "string \<Rightarrow> nat \<Rightarrow> (nat \<times> nat) option" where
  "season_at bytes start =
     (if bytes ! start \<noteq> CHR ''S'' then None
      else case digits bytes (start + 1) 1 2 of
        None \<Rightarrow> None
      | Some (season, stop) \<Rightarrow>
          if get bytes stop \<noteq> Some CHR ''E'' \<and> boundary (get bytes stop)
          then Some (start, season) else None)"

definition find_season :: "string \<Rightarrow> (nat \<times> nat) option" where
  "find_season bytes = find_map (season_at bytes) [0..<length bytes]"

definition date_at :: "string \<Rightarrow> nat \<Rightarrow> (nat \<times> date) option" where
  "date_at bytes start =
     (let slice10 = slice bytes start (start + 10)
      in if \<not> list_all is_ascii_digit (slice slice10 0 4)
            \<or> \<not> (slice10 ! 4 = CHR ''.'' \<or> slice10 ! 4 = CHR ''-'')
            \<or> \<not> list_all is_ascii_digit (slice slice10 5 7)
            \<or> slice10 ! 7 \<noteq> slice10 ! 4
            \<or> \<not> list_all is_ascii_digit (slice slice10 8 10)
         then None
         else
           (let year = parse_digits (slice slice10 0 4);
                month = parse_digits (slice slice10 5 7);
                day = parse_digits (slice slice10 8 10)
            in if 1900 \<le> year \<and> year \<le> 2099 \<and> 1 \<le> month \<and> month \<le> 12 \<and> valid_day year month day
               then Some (start, \<lparr>date_year = year, date_month = month, date_day = day\<rparr>)
               else None))"

definition find_date :: "string \<Rightarrow> (nat \<times> date) option" where
  "find_date bytes = find_map (date_at bytes) [0..<length bytes - 9]"

definition absolute_at :: "string \<Rightarrow> nat \<Rightarrow> (nat \<times> nat) option" where
  "absolute_at bytes start =
     (if bytes ! start \<noteq> CHR ''['' then None
      else case digits bytes (start + 1) 1 4 of
        None \<Rightarrow> None
      | Some (episode, stop) \<Rightarrow> if get bytes stop = Some CHR '']'' then Some (start, episode) else None)"

definition find_absolute_episode :: "string \<Rightarrow> (nat \<times> nat) option" where
  "find_absolute_episode bytes = find_map (absolute_at bytes) [0..<length bytes]"

definition year_at :: "string \<Rightarrow> nat \<Rightarrow> (nat \<times> nat) option" where
  "year_at bytes start =
     (if start > 0 \<and> is_ascii_digit (bytes ! (start - 1)) then None
      else
        (let slice4 = slice bytes start (start + 4)
         in if list_all is_ascii_digit slice4 \<and> boundary (get bytes (start + 4))
               \<and> 1900 \<le> parse_digits slice4 \<and> parse_digits slice4 \<le> 2099
            then Some (start, parse_digits slice4) else None))"

definition find_year :: "string \<Rightarrow> (nat \<times> nat) option" where
  "find_year bytes = find_map (year_at bytes) [0..<length bytes - 3]"

definition is_disc :: "string \<Rightarrow> bool" where
  "is_disc value \<longleftrightarrow> str_contains value ''BDMV'' \<or> str_contains value ''VIDEO_TS''"

definition technical_suffix_start :: "string \<Rightarrow> nat" where
  "technical_suffix_start value =
     (case find (\<lambda>index. \<exists>marker \<in> set [''2160P'', ''1080P'', ''720P'', ''BLURAY'', ''WEB-DL'', ''WEBRIP'', ''HDTV''].
               prefix marker (to_ascii_uppercase (drop index value))) (char_indices value) of
        Some index \<Rightarrow> index
      | None \<Rightarrow> length value)"

section \<open>Descriptors\<close>

definition descriptor :: "unicode \<Rightarrow> video_kind \<Rightarrow> string \<Rightarrow> release_descriptor" where
  "descriptor u kind title = (unknown (normalize_title u title))\<lparr>rd_kind := kind\<rparr>"

definition leaf_without_extension :: "string \<Rightarrow> string" where
  "leaf_without_extension value =
     (let leaf = (case rsplit_once (\<lambda>c. c = CHR ''/'' \<or> c = CHR 0x5C) value of
                    Some (_, leaf) \<Rightarrow> leaf | None \<Rightarrow> value)
      in case rsplit_once (\<lambda>c. c = CHR ''.'') leaf of
           None \<Rightarrow> leaf
         | Some (stem, extension) \<Rightarrow>
             if to_ascii_lowercase extension \<in> set [''mkv'', ''mp4'', ''m4v'', ''avi'', ''ts'', ''m2ts'',
                  ''mov'', ''wmv'', ''webm'', ''iso'', ''nfo'', ''srt'']
             then stem else leaf)"

definition first_marker :: "string \<Rightarrow> string list \<Rightarrow> string option" where
  "first_marker upper markers = find (\<lambda>marker. str_contains upper marker) markers"

definition add_technical_metadata :: "release_descriptor \<Rightarrow> string \<Rightarrow> release_descriptor" where
  "add_technical_metadata d value =
     (let upper = to_ascii_uppercase value;
          grp = (case rsplit_once (\<lambda>c. c = CHR ''-'') value of
                     None \<Rightarrow> None
                   | Some (_, after_dash) \<Rightarrow>
                       (let g = trim after_dash
                        in if g \<noteq> [] \<and> CHR ''/'' \<notin> set g \<and> CHR 0x5C \<notin> set g then Some g else None))
      in d\<lparr>rd_resolution := first_marker upper [''2160P'', ''1080P'', ''720P'', ''576P'', ''480P''],
           rd_source := first_marker upper [''WEB-DL'', ''WEBRIP'', ''BLURAY'', ''HDTV'', ''DVD''],
           rd_video_codec := first_marker upper [''X265'', ''HEVC'', ''X264'', ''H264'', ''AV1''],
           rd_hdr := first_marker upper [''DOLBY VISION'', ''DV'', ''HDR10+'', ''HDR10'', ''HDR''],
           rd_audio := first_marker upper [''TRUEHD'', ''DTS-HD'', ''DTS'', ''DDP'', ''AAC'', ''FLAC''],
           rd_release_group := grp\<rparr>)"

definition season_marker :: "string \<Rightarrow> (nat \<times> nat \<times> nat option \<times> nat option) option" where
  "season_marker upper =
     (case find_episode upper of
        Some m \<Rightarrow> Some (em_start m, em_season m, Some (em_episode m), em_episode_end m)
      | None \<Rightarrow> map_option (\<lambda>(start, season). (start, season, None, None)) (find_season upper))"

definition parse_release :: "unicode \<Rightarrow> string \<Rightarrow> release_descriptor" where
  "parse_release u value =
     (let name = leaf_without_extension value;
          upper = to_ascii_uppercase name
      in case season_marker upper of
           Some (start, season, episode, episode_end) \<Rightarrow>
             add_technical_metadata
               ((descriptor u (if episode = None then SeasonPack else Episode) (take start name))
                 \<lparr>rd_season := Some season, rd_episode := episode, rd_episode_end := episode_end\<rparr>) name
         | None \<Rightarrow>
         (case find_date upper of
            Some (start, date) \<Rightarrow>
              add_technical_metadata
                ((descriptor u DateEpisode (take start name))\<lparr>rd_air_date := Some date\<rparr>) name
          | None \<Rightarrow>
         (case find_absolute_episode name of
            Some (start, episode) \<Rightarrow>
              add_technical_metadata
                ((descriptor u AbsoluteEpisode (take start name))\<lparr>rd_absolute_episode := Some episode\<rparr>) name
          | None \<Rightarrow>
         (if is_disc upper
          then add_technical_metadata (descriptor u Disc (take (length name) name)) name
          else
         (case find_year upper of
            Some (start, year) \<Rightarrow>
              add_technical_metadata ((descriptor u Movie (take start name))\<lparr>rd_year := Some year\<rparr>) name
          | None \<Rightarrow>
              add_technical_metadata
                (descriptor u UnknownVideo (take (technical_suffix_start name) name)) name)))))"

section \<open>Episode keys\<close>

datatype episode_key = SeasonKey nat nat | DateKey date | AbsoluteKey nat

definition episode_keys :: "unicode \<Rightarrow> string \<Rightarrow> episode_key list" where
  "episode_keys u value =
     (let d = parse_release u value
      in case rd_kind d of
           Episode \<Rightarrow>
             (case (rd_season d, rd_episode d) of
                (Some season, Some first) \<Rightarrow>
                  (let last = (case rd_episode_end d of Some e \<Rightarrow> e | None \<Rightarrow> first)
                   in map (SeasonKey season) [first..<last + 1])
              | _ \<Rightarrow> [])
         | DateEpisode \<Rightarrow> (case rd_air_date d of Some date \<Rightarrow> [DateKey date] | None \<Rightarrow> [])
         | AbsoluteEpisode \<Rightarrow>
             (case rd_absolute_episode d of Some e \<Rightarrow> [AbsoluteKey e] | None \<Rightarrow> [])
         | _ \<Rightarrow> [])"

section \<open>Normalised titles\<close>

text \<open>
  The shape of a normalised title: words of alphanumeric characters separated by
  single spaces, without a space at either end.
\<close>

fun canonical :: "unicode \<Rightarrow> bool \<Rightarrow> string list \<Rightarrow> bool" where
  "canonical u after_space [] = (\<not> after_space)"
| "canonical u after_space (c # cs) =
     (if is_alphanumeric u c then canonical u False cs
      else c = '' '' \<and> \<not> after_space \<and> canonical u True cs)"

definition canonical_title :: "unicode \<Rightarrow> string list \<Rightarrow> bool" where
  "canonical_title u cs \<longleftrightarrow> cs = [] \<or> canonical u True cs"

lemma space_not_alphanumeric [simp]: "\<not> is_alphanumeric u '' ''"
  by (simp add: is_alphanumeric_def is_ascii_alphanumeric_def is_ascii_digit_def
      is_ascii_upper_def is_ascii_lower_def)

text \<open>The loop's state: the text so far is canonical up to a final space, if the flag is set.\<close>

definition normalizing :: "unicode \<Rightarrow> string list \<times> bool \<Rightarrow> bool" where
  "normalizing u state \<longleftrightarrow>
     (case state of (cs, separator) \<Rightarrow>
        (cs = [] \<and> separator) \<or>
        (cs \<noteq> [] \<and> (if separator then last cs = '' '' \<and> canonical u True (butlast cs) \<and> butlast cs \<noteq> []
                   else canonical u True cs)))"

lemma normalize_step_simps:
  "is_alphanumeric u c \<Longrightarrow> normalize_step u c (cs, b) = (cs @ [c], False)"
  "\<not> is_alphanumeric u c \<Longrightarrow> cs \<noteq> [] \<Longrightarrow> normalize_step u c (cs, False) = (cs @ ['' ''], True)"
  by (simp_all add: normalize_step_def)

lemma canonical_snoc_alnum:
  "canonical u b cs \<Longrightarrow> is_alphanumeric u c \<Longrightarrow> canonical u b (cs @ [c])"
  by (induction u b cs rule: canonical.induct) auto

lemma canonical_snoc_space:
  "canonical u b cs \<Longrightarrow> is_alphanumeric u c \<Longrightarrow> canonical u b (cs @ ['' '', c])"
  by (induction u b cs rule: canonical.induct) auto

lemma normalize_step_keeps:
  assumes "normalizing u st"
  shows "normalizing u (normalize_step u c st)"
proof -
  obtain cs sep where st: "st = (cs, sep)" by fastforce
  show ?thesis
  proof (cases "is_alphanumeric u c")
    case True
    show ?thesis
    proof (cases "cs = [] \<or> \<not> sep")
      case True
      with assms \<open>is_alphanumeric u c\<close> show ?thesis
        by (auto simp: st normalizing_def normalize_step_def canonical_snoc_alnum)
    next
      case False
      with assms have cs: "cs = butlast cs @ ['' '']" and can: "canonical u True (butlast cs)"
        by (auto simp: st normalizing_def) (metis append_butlast_last_id)
      have "canonical u True (butlast cs @ ['' '', c])"
        using can \<open>is_alphanumeric u c\<close> by (rule canonical_snoc_space)
      moreover have "cs @ [c] = butlast cs @ ['' '', c]"
        using arg_cong [OF cs, of "\<lambda>xs. xs @ [c]"] by simp
      ultimately have "canonical u True (cs @ [c])" by metis
      then show ?thesis using \<open>is_alphanumeric u c\<close>
        by (simp add: st normalizing_def normalize_step_def)
    qed
  next
    case False
    with assms show ?thesis by (auto simp: st normalizing_def normalize_step_def)
  qed
qed

lemma normalize_fold_keeps: "normalizing u st \<Longrightarrow> normalizing u (fold (normalize_step u) cs st)"
  by (induction cs arbitrary: st) (simp_all add: normalize_step_keeps)

lemma normalize_chars_canonical: "canonical_title u (normalize_chars u cs)"
proof -
  have "normalizing u (fold (normalize_step u) cs ([], True))"
    by (rule normalize_fold_keeps) (simp add: normalizing_def)
  then show ?thesis
    by (auto simp: normalize_chars_def canonical_title_def normalizing_def split: prod.splits if_splits)
qed

lemma normalize_fold_canonical:
  "canonical u b cs \<Longrightarrow> acc \<noteq> [] \<or> b \<Longrightarrow>
     fold (normalize_step u) cs (acc, b) = (acc @ cs, False) \<or> cs = []"
proof (induction u b cs arbitrary: acc rule: canonical.induct)
  case (2 u b c cs)
  show ?case
  proof (cases "is_alphanumeric u c")
    case True
    then have "fold (normalize_step u) cs (acc @ [c], False) = ((acc @ [c]) @ cs, False) \<or> cs = []"
      using "2.prems" by (intro "2.IH"(1)) auto
    then show ?thesis using True by (auto simp: normalize_step_simps)
  next
    case False
    then have c: "c = '' ''" "\<not> b" "canonical u True cs" using "2.prems" by (auto split: if_splits)
    then have "cs \<noteq> []" by auto
    moreover have "fold (normalize_step u) cs (acc @ [c], True) = ((acc @ [c]) @ cs, False) \<or> cs = []"
      using c False by (intro "2.IH"(2)) auto
    ultimately show ?thesis using False c "2.prems" by (simp add: normalize_step_simps)
  qed
qed simp

lemma normalize_chars_fixpoint:
  "canonical_title u cs \<Longrightarrow> normalize_chars u cs = cs"
  using normalize_fold_canonical [of u True cs "[]"]
  by (auto simp: canonical_title_def normalize_chars_def)

text \<open>
  title normalisation produces words separated by single spaces with no
  space at either end, and normalising an already normalised character sequence
  changes nothing, whatever the Unicode tables are.
\<close>

lemma normalize_chars_canonical_idempotent:
  "canonical_title u (normalize_chars u cs) \<and>
   normalize_chars u (normalize_chars u cs) = normalize_chars u cs"
  using normalize_chars_canonical normalize_chars_fixpoint by blast

section \<open>Digits\<close>

lemma parse_digits_fold:
  "fold (\<lambda>digit value. value * 10 + (of_char digit - 48)) ds v = v * 10 ^ length ds + parse_digits ds"
proof (induction ds arbitrary: v)
  case (Cons d ds)
  let ?x = "of_char d - 48 :: nat"
  have "parse_digits (d # ds) = ?x * 10 ^ length ds + parse_digits ds"
    unfolding parse_digits_def [of "d # ds"] using Cons.IH [of ?x] by simp
  then show ?case using Cons.IH [of "v * 10 + ?x"] by (simp add: algebra_simps)
qed (simp add: parse_digits_def)

lemma parse_digits_simps [simp]:
  "parse_digits [] = 0"
  "parse_digits (d # ds) = (of_char d - 48) * 10 ^ length ds + parse_digits ds"
  using parse_digits_fold [of ds "of_char d - 48"] by (simp_all add: parse_digits_def)

lemma parse_digits_append:
  "parse_digits (xs @ ys) = parse_digits xs * 10 ^ length ys + parse_digits ys"
  using parse_digits_fold [of ys "parse_digits xs"] by (simp add: parse_digits_def)

lemma parse_digits_bound:
  "list_all is_ascii_digit ds \<Longrightarrow> parse_digits ds < 10 ^ length ds"
proof (induction ds)
  case (Cons d ds)
  then have "(of_char d :: nat) - 48 \<le> 9" by (auto simp: is_ascii_digit_def)
  then have "((of_char d :: nat) - 48) * 10 ^ length ds \<le> 9 * 10 ^ length ds" by (rule mult_le_mono1)
  moreover have "parse_digits ds < 10 ^ length ds" using Cons by simp
  ultimately have "((of_char d :: nat) - 48) * 10 ^ length ds + parse_digits ds < 10 * 10 ^ length ds"
    by linarith
  then show ?case by simp
qed simp

lemma digits_end_bounds:
  "i \<le> digits_end bytes start maximum i \<and>
   (i \<le> length bytes \<longrightarrow> digits_end bytes start maximum i \<le> length bytes) \<and>
   (start \<le> i \<longrightarrow> i \<le> start + maximum \<longrightarrow> digits_end bytes start maximum i \<le> start + maximum) \<and>
   (\<forall>j. i \<le> j \<longrightarrow> j < digits_end bytes start maximum i \<longrightarrow> is_ascii_digit (bytes ! j))"
proof (induction bytes start maximum i rule: digits_end.induct)
  case (1 bytes start maximum i)
  note unf = digits_end.simps [of bytes start maximum i]
  show ?case
  proof (cases "i < length bytes \<and> i - start < maximum \<and> is_ascii_digit (bytes ! i)")
    case True
    then have e: "digits_end bytes start maximum i = digits_end bytes start maximum (i + 1)"
      using unf by simp
    have "is_ascii_digit (bytes ! j)"
      if "i \<le> j" "j < digits_end bytes start maximum (i + 1)" for j
      using "1.IH" [OF True] True that by (cases "j = i") auto
    then show ?thesis using "1.IH" [OF True] True unfolding e by auto
  next
    case False
    then have "digits_end bytes start maximum i = i" using unf by metis
    then show ?thesis by simp
  qed
qed

lemma digits_SomeD:
  assumes "digits bytes start minimum maximum = Some (v, stop)"
  shows "start + minimum \<le> stop \<or> minimum = 0" "stop \<le> start + maximum" "v < 10 ^ maximum"
proof -
  let ?e = "digits_end bytes start maximum start"
  have e: "stop = ?e" "v = parse_digits (slice bytes start ?e)" "minimum \<le> ?e - start"
    using assms by (auto simp: digits_def Let_def split: if_splits)
  note B = digits_end_bounds [of start bytes start maximum]
  show "start + minimum \<le> stop \<or> minimum = 0" using e by auto
  show "stop \<le> start + maximum" using B e by simp
  have "list_all is_ascii_digit (slice bytes start ?e)"
    using B by (auto simp: list_all_length)
  then have "v < 10 ^ length (slice bytes start ?e)" unfolding e(2) by (rule parse_digits_bound)
  also have "\<dots> \<le> 10 ^ maximum"
    by (rule power_increasing) (use B in auto)
  finally show "v < 10 ^ maximum" .
qed

section \<open>Well-formed descriptors\<close>

definition valid_date :: "date \<Rightarrow> bool" where
  "valid_date d \<longleftrightarrow> 1900 \<le> date_year d \<and> date_year d \<le> 2099 \<and> 1 \<le> date_month d \<and>
     date_month d \<le> 12 \<and> 1 \<le> date_day d \<and> date_day d \<le> 31 \<and>
     (date_month d \<in> {4, 6, 9, 11} \<longrightarrow> date_day d \<le> 30) \<and>
     (date_month d = 2 \<longrightarrow> date_day d \<le> 29) \<and>
     (date_month d = 2 \<and> date_day d = 29 \<longrightarrow> date_year d mod 4 = 0)"

definition wf_release :: "release_descriptor \<Rightarrow> bool" where
  "wf_release d \<longleftrightarrow>
     (case rd_kind d of
        Episode \<Rightarrow> (\<exists>s e. rd_season d = Some s \<and> s < 100 \<and> rd_episode d = Some e \<and> e < 1000) \<and>
          (\<forall>l. rd_episode_end d = Some l \<longrightarrow> l < 1000) \<and>
          rd_year d = None \<and> rd_air_date d = None \<and> rd_absolute_episode d = None
      | SeasonPack \<Rightarrow> (\<exists>s. rd_season d = Some s \<and> s < 100) \<and> rd_episode d = None \<and>
          rd_episode_end d = None \<and>
          rd_year d = None \<and> rd_air_date d = None \<and> rd_absolute_episode d = None
      | DateEpisode \<Rightarrow> (\<exists>a. rd_air_date d = Some a \<and> valid_date a) \<and> rd_season d = None \<and>
          rd_episode d = None \<and> rd_episode_end d = None \<and> rd_year d = None \<and>
          rd_absolute_episode d = None
      | AbsoluteEpisode \<Rightarrow> (\<exists>e. rd_absolute_episode d = Some e \<and> e < 10000) \<and>
          rd_season d = None \<and> rd_episode d = None \<and> rd_episode_end d = None \<and>
          rd_year d = None \<and> rd_air_date d = None
      | Movie \<Rightarrow> (\<exists>y. rd_year d = Some y \<and> 1900 \<le> y \<and> y \<le> 2099) \<and> rd_season d = None \<and>
          rd_episode d = None \<and> rd_episode_end d = None \<and> rd_air_date d = None \<and>
          rd_absolute_episode d = None
      | _ \<Rightarrow> rd_year d = None \<and> rd_season d = None \<and> rd_episode d = None \<and>
          rd_episode_end d = None \<and> rd_air_date d = None \<and> rd_absolute_episode d = None)"

lemma episode_at_bounds:
  assumes "episode_at bytes start = Some m"
  shows "em_start m = start" "em_season m < 100" "em_episode m < 1000"
    "em_episode_end m = Some l \<Longrightarrow> l < 1000"
  using assms digits_SomeD(3)
  by (fastforce simp: episode_at_def Let_def split: if_splits option.splits prod.splits)+

lemma find_episode_bounds:
  assumes "find_episode bytes = Some m"
  shows "em_start m < length bytes" "em_season m < 100" "em_episode m < 1000"
    "em_episode_end m = Some l \<Longrightarrow> l < 1000"
  using find_map_SomeD [OF assms [unfolded find_episode_def]] episode_at_bounds
  by fastforce+

lemma find_season_bounds:
  assumes "find_season bytes = Some (start, season)"
  shows "start < length bytes" "season < 100"
  using find_map_SomeD [OF assms [unfolded find_season_def]] digits_SomeD(3)
  by (fastforce simp: season_at_def split: if_splits option.splits prod.splits)+

lemma find_absolute_bounds:
  assumes "find_absolute_episode bytes = Some (start, episode)"
  shows "start < length bytes" "episode < 10000"
  using find_map_SomeD [OF assms [unfolded find_absolute_episode_def]] digits_SomeD(3)
  by (fastforce simp: absolute_at_def split: if_splits option.splits prod.splits)+

lemma find_date_bounds:
  assumes "find_date bytes = Some (start, date)"
  shows "start < length bytes" "valid_date date"
proof -
  obtain i where i: "i < length bytes - 9" "date_at bytes i = Some (start, date)"
    using find_map_SomeD [OF assms [unfolded find_date_def]] by auto
  then have "start = i" "valid_day (date_year date) (date_month date) (date_day date)"
    "1900 \<le> date_year date" "date_year date \<le> 2099" "1 \<le> date_month date" "date_month date \<le> 12"
    by (auto simp: date_at_def Let_def split: if_splits)
  then show "start < length bytes" "valid_date date"
    using i(1) by (auto simp: valid_date_def valid_day_def Let_def split: if_splits)
qed

lemma find_year_bounds:
  assumes "find_year bytes = Some (start, year)"
  shows "start < length bytes" "1900 \<le> year" "year \<le> 2099"
  using find_map_SomeD [OF assms [unfolded find_year_def]]
  by (auto simp: year_at_def Let_def split: if_splits)

lemma add_technical_metadata_frame:
  "rd_kind (add_technical_metadata d v) = rd_kind d"
  "rd_primary_title (add_technical_metadata d v) = rd_primary_title d"
  "rd_year (add_technical_metadata d v) = rd_year d"
  "rd_season (add_technical_metadata d v) = rd_season d"
  "rd_episode (add_technical_metadata d v) = rd_episode d"
  "rd_episode_end (add_technical_metadata d v) = rd_episode_end d"
  "rd_absolute_episode (add_technical_metadata d v) = rd_absolute_episode d"
  "rd_air_date (add_technical_metadata d v) = rd_air_date d"
  "rd_arr_identity (add_technical_metadata d v) = rd_arr_identity d"
  "rd_alternate_titles (add_technical_metadata d v) = rd_alternate_titles d"
  by (simp_all add: add_technical_metadata_def Let_def)

lemma descriptor_fields:
  "rd_kind (descriptor u k t) = k" "rd_year (descriptor u k t) = None"
  "rd_season (descriptor u k t) = None" "rd_episode (descriptor u k t) = None"
  "rd_episode_end (descriptor u k t) = None" "rd_absolute_episode (descriptor u k t) = None"
  "rd_air_date (descriptor u k t) = None" "rd_arr_identity (descriptor u k t) = None"
  "rd_primary_title (descriptor u k t) = normalize_title u t"
  by (simp_all add: descriptor_def unknown_def)

lemmas release_fields = add_technical_metadata_frame descriptor_fields

lemma season_marker_bounds:
  assumes "season_marker upper = Some (start, season, episode, episode_end)"
  shows "start < length upper" "season < 100" "episode = Some e \<Longrightarrow> e < 1000"
    "episode_end = Some l \<Longrightarrow> l < 1000" "episode = None \<Longrightarrow> episode_end = None"
  using assms find_episode_bounds find_season_bounds
  by (fastforce simp: season_marker_def split: option.splits)+

lemma parse_release_wf: "wf_release (parse_release u value)"
proof -
  let ?name = "leaf_without_extension value"
  let ?upper = "to_ascii_uppercase ?name"
  consider (season) start season episode episode_end where
      "season_marker ?upper = Some (start, season, episode, episode_end)"
    | (date) start date where "season_marker ?upper = None" "find_date ?upper = Some (start, date)"
    | (absolute) start episode where "season_marker ?upper = None" "find_date ?upper = None"
        "find_absolute_episode ?name = Some (start, episode)"
    | (other) "season_marker ?upper = None" "find_date ?upper = None"
        "find_absolute_episode ?name = None"
    by (metis not_None_eq surj_pair)
  then show ?thesis
  proof cases
    case season
    then show ?thesis
      using season_marker_bounds [OF season]
      by (cases episode) (simp_all add: parse_release_def wf_release_def release_fields Let_def)
  next
    case date
    then show ?thesis
      using find_date_bounds(2) [OF date(2)]
      by (simp add: parse_release_def wf_release_def release_fields Let_def)
  next
    case absolute
    then show ?thesis
      using find_absolute_bounds(2) [OF absolute(3)]
      by (simp add: parse_release_def wf_release_def release_fields Let_def)
  next
    case other
    then show ?thesis
      using find_year_bounds(2,3)
      by (auto simp: parse_release_def wf_release_def release_fields Let_def split: option.splits)
  qed
qed

text \<open>
  C31: whatever the name and the Unicode tables, the descriptor that
  \<open>parse_release\<close> returns is consistent with its kind: exactly the fields of
  that kind are set, seasons are below 100, episodes below 1000, absolute
  episodes below 10000, years within 1900 to 2099 and dates are calendar dates
  (so every narrowing cast of the parser keeps its value).
\<close>

theorem parse_release_well_formed: "wf_release (parse_release u value)"
  by (rule parse_release_wf)

section \<open>Printing and finding an episode marker\<close>

lemma digit_char:
  assumes "k < 10"
  shows "of_char (char_of (48 + k)) = 48 + (k :: nat)" "is_ascii_digit (char_of (48 + k :: nat))"
  using assms by (simp_all add: is_ascii_digit_def of_char_of)

lemma decimal_props:
  "decimal n \<noteq> [] \<and> list_all is_ascii_digit (decimal n) \<and> parse_digits (decimal n) = n \<and>
   (\<forall>k > 0. n < 10 ^ k \<longrightarrow> length (decimal n) \<le> k)"
proof (induction n rule: decimal.induct)
  case (1 n)
  note unf = decimal.simps [of n]
  show ?case
  proof (cases "n < 10")
    case True
    then have "decimal n = [char_of (48 + n)]" using unf by simp
    then show ?thesis using digit_char [OF True] by auto
  next
    case False
    note IH = "1.IH" [OF False]
    have d: "decimal n = decimal (n div 10) @ [char_of (48 + n mod 10)]" using unf False by simp
    have m: "n mod 10 < 10" by simp
    have "length (decimal n) \<le> k" if "0 < k" "n < 10 ^ k" for k
    proof -
      obtain k' where k': "k = Suc k'" using \<open>0 < k\<close> gr0_conv_Suc by blast
      then have "n div 10 < 10 ^ k'" using that(2) by (simp add: less_mult_imp_div_less mult.commute)
      moreover from this have "0 < k'" using False by (cases k') auto
      ultimately have "length (decimal (n div 10)) \<le> k'" using IH by blast
      then show ?thesis using d k' by simp
    qed
    moreover have "parse_digits (decimal n) = n"
      using IH digit_char(1) [OF m] by (simp add: d parse_digits_append)
    ultimately show ?thesis using d IH digit_char(2) [OF m] by simp
  qed
qed

lemma digits_end_exact:
  assumes "bytes = xs @ ds @ ys" and "list_all is_ascii_digit ds" and "length ds \<le> maximum"
    and stop: "length ds = maximum \<or> ys = [] \<or> \<not> is_ascii_digit (hd ys)" and "k \<le> length ds"
  shows "digits_end bytes (length xs) maximum (length xs + k) = length xs + length ds"
  using \<open>k \<le> length ds\<close>
proof (induction "length ds - k" arbitrary: k)
  case 0
  then have "k = length ds" by simp
  moreover have "\<not> (length xs + k < length bytes \<and> k < maximum \<and> is_ascii_digit (bytes ! (length xs + k)))"
    using stop calculation by (cases ys) (auto simp: assms(1) nth_append)
  ultimately show ?case by (subst digits_end.simps) auto
next
  case (Suc d)
  then have k: "k < length ds" by simp
  have "bytes ! (length xs + k) = ds ! k" using k by (simp add: assms(1) nth_append)
  then have "is_ascii_digit (bytes ! (length xs + k))" using assms(2) k by (simp add: list_all_length)
  moreover have "length xs + k < length bytes" using k by (simp add: assms(1))
  moreover have "digits_end bytes (length xs) maximum (length xs + Suc k) = length xs + length ds"
    using Suc.hyps(1) [of "Suc k"] Suc.hyps(2) k by simp
  ultimately show ?case using k assms(3) by (subst digits_end.simps) auto
qed

lemma digits_exact:
  assumes "bytes = xs @ ds @ ys" and "list_all is_ascii_digit ds"
    and "1 \<le> length ds" and "length ds \<le> maximum"
    and "length ds = maximum \<or> ys = [] \<or> \<not> is_ascii_digit (hd ys)"
  shows "digits bytes (length xs) 1 maximum = Some (parse_digits ds, length xs + length ds)"
proof -
  have "digits_end bytes (length xs) maximum (length xs) = length xs + length ds"
    using digits_end_exact [OF assms(1,2,4,5), of 0] by simp
  moreover have "slice bytes (length xs) (length xs + length ds) = ds"
    by (simp add: slice_def assms(1))
  ultimately show ?thesis using assms(3) by (simp add: digits_def)
qed

lemma find_map_upt:
  assumes "i < n" and "\<And>k. k < i \<Longrightarrow> f k = None" and "f i = Some y"
  shows "find_map f [0..<n] = Some y"
proof -
  have skip: "find_map f (xs @ i # ys) = Some y" if "\<forall>x \<in> set xs. f x = None" for xs ys
    using that assms(3) by (induction xs) auto
  have "[0..<n] = [0..<i] @ i # [Suc i..<n]"
    using assms(1) upt_add_eq_append [of 0 i "n - i"] upt_conv_Cons [of i n] by simp
  then show ?thesis using skip [of "[0..<i]"] assms(2) by simp
qed

text \<open>
  the marker \<open>S<season>E<episode>\<close> written in decimal after a title
  without an \<open>S\<close> is found again with its position, season and episode, for every
  season below 100 and every episode below 1000.
\<close>

lemma find_episode_roundtrip:
  assumes "CHR ''S'' \<notin> set pre" and "season < 100" and "episode < 1000"
    and "suf = [] \<or> (\<not> is_ascii_digit (hd suf) \<and> hd suf \<noteq> CHR ''-'' \<and> hd suf \<noteq> CHR ''E'')"
  shows "find_episode (pre @ ''S'' @ decimal season @ ''E'' @ decimal episode @ suf) =
    Some \<lparr>em_start = length pre, em_season = season, em_episode = episode, em_episode_end = None\<rparr>"
proof -
  let ?b = "pre @ ''S'' @ decimal season @ ''E'' @ decimal episode @ suf"
  let ?xs = "pre @ ''S''" and ?ys = "pre @ ''S'' @ decimal season @ ''E''"
  let ?e = "length ?ys + length (decimal episode)"
  note S = decimal_props [of season] and E = decimal_props [of episode]
  have len: "1 \<le> length (decimal season)" "length (decimal season) \<le> 2"
    "1 \<le> length (decimal episode)" "length (decimal episode) \<le> 3"
    using S E assms(2,3) by (auto simp: Suc_le_eq)
  have "digits ?b (length ?xs) 1 2 = Some (parse_digits (decimal season), length ?xs + length (decimal season))"
    by (rule digits_exact [where ys = "''E'' @ decimal episode @ suf"])
      (use S len in \<open>simp_all add: is_ascii_digit_def\<close>)
  then have d1: "digits ?b (length pre + 1) 1 2 = Some (season, length pre + 1 + length (decimal season))"
    using S by simp
  have "digits ?b (length ?ys) 1 3 = Some (parse_digits (decimal episode), ?e)"
    by (rule digits_exact [where ys = suf]) (use E len assms(4) in auto)
  then have d2: "digits ?b (length pre + 1 + length (decimal season) + 1) 1 3 = Some (episode, ?e)"
    using E by simp
  define b where "b = ?b"
  have "get b (length pre + 1 + length (decimal season)) = Some CHR ''E''" "b ! length pre = CHR ''S''"
    by (simp_all add: b_def nth_append)
  moreover have "get b ?e \<noteq> Some CHR ''-''" "get b ?e \<noteq> Some CHR ''E''"
    using assms(4) unfolding b_def by (cases suf; auto simp: nth_append)+
  ultimately have at: "episode_at ?b (length pre) =
      Some \<lparr>em_start = length pre, em_season = season, em_episode = episode, em_episode_end = None\<rparr>"
    using d1 d2 unfolding b_def [symmetric] episode_at_def by (simp del: get_Some_iff add: Let_def)
  show ?thesis
    unfolding find_episode_def
  proof (rule find_map_upt)
    show "length pre < length ?b" by simp
    show "episode_at ?b k = None" if "k < length pre" for k
      using that assms(1) by (auto simp: episode_at_def nth_append in_set_conv_nth)
  qed (rule at)
qed

end
