(* ===== verification/Candidate.thy ===== *)
theory Candidate
  imports Release Torrent Tasks Piece_Inspection Paths
begin

text \<open>
  The intake of candidate torrents, \<open>crates/sporos-service/src/candidate.rs\<close>: a
  submission is parsed, its release name is read, the policy is pinned, and the
  torrent, the candidate, the task and the origin of the submission are stored in
  one transaction.  The identities are prefixes of SHA-256 digests.  The record
  \<open>candidate_codec\<close> stands for \<open>serde_json\<close>, \<open>sha2\<close> and the decoder of the torrent
  parser; \<open>IntakePanic\<close> is a panic of the parser.
\<close>

section \<open>Configuration\<close>

record source_filters =
  sf_include_categories :: "string list"
  sf_exclude_categories :: "string list"
  sf_include_tags :: "string list"
  sf_exclude_tags :: "string list"
  sf_exclude_sporos_managed :: bool

record injection_config =
  ij_dry_run :: bool
  ij_category_template :: string
  ij_tag_templates :: "string list"
  ij_inherit_source_category :: bool
  ij_inherit_source_tags :: bool
  ij_resume :: resume_policy

record matching_config =
  mc_policy :: matching_policy
  mc_limits :: matching_limits
  mc_pending_source_timeout_ms :: nat

record candidate_policy =
  cp_matching :: matching_policy
  cp_source_filters :: source_filters
  cp_pending_source_timeout_ms :: nat
  cp_injection :: injection_config
  cp_namespace_local_root :: string
  cp_save_path_remote_root :: string
  cp_path_rewrites :: "path_rewrite list"

record candidate_ingress =
  ci_matching :: matching_config
  ci_source_filters :: source_filters
  ci_injection :: injection_config
  ci_paths :: paths

record candidate_submission =
  su_bytes :: string
  su_announcement_name :: "string option"
  su_indexer :: "string option"
  su_indexer_id :: "int option"
  su_trigger :: string
  su_release_hint :: "release_descriptor option"
  su_category :: "string option"
  su_tags :: "string list"
  su_request_id :: string
  su_dry_run :: bool
  su_received_at :: int

record workflow_input =
  wi_task_id :: task_id
  wi_candidate_id :: candidate_id
  wi_policy_snapshot_id :: policy_snapshot_id

record accepted_candidate =
  ac_candidate_id :: candidate_id
  ac_task_id :: task_id
  ac_duplicate :: bool

record candidate_codec =
  kc_codec :: codec
  kc_manifest :: "torrent_manifest \<Rightarrow> string"
  kc_release :: "release_descriptor \<Rightarrow> string"
  kc_policy :: "candidate_policy \<Rightarrow> string"
  kc_input :: "workflow_input \<Rightarrow> string"
  kc_detail :: "string option \<Rightarrow> string list \<Rightarrow> string"
  kc_decode :: "string \<Rightarrow> bool"
  kc_metainfo :: "string \<Rightarrow> metainfo option"

section \<open>Stored rows\<close>

record candidate_row =
  cr_blob_sha256 :: string
  cr_hashes :: info_hashes
  cr_manifest_digest :: string
  cr_display_name :: string
  cr_release_json :: string
  cr_state :: string
  cr_created_at :: int
  cr_updated_at :: int
  cr_manifest_json :: "string option"

record provenance_row =
  pv_candidate_id :: candidate_id
  pv_trigger :: string
  pv_indexer_id :: "int option"
  pv_indexer_name :: "string option"
  pv_announcement_name :: "string option"
  pv_request_id :: string
  pv_received_at :: int
  pv_detail_json :: string

record candidate_store =
  cs_blobs :: "string \<Rightarrow> string option"
  cs_candidates :: "candidate_id \<Rightarrow> candidate_row option"
  cs_candidate_tasks :: "candidate_id \<times> policy_snapshot_id \<Rightarrow> task_id option"
  cs_provenance :: "provenance_row list"
  cs_tasks :: task_store

datatype intake_error =
    ManifestError candidate_error
  | InvalidUtf8Name
  | InvalidTorrent torrent_parse_error
  | CandidateDatabase
  | DurableIngress ingress_error
  | BlobCollision
  | CandidateCollision
  | CandidateTaskCollision
  | UnmappedLinkRoot
  | IntakePanic

section \<open>Deriving the candidate\<close>

definition CANDIDATE_NAME :: string where "CANDIDATE_NAME = ''ProcessCandidate''"
definition CANDIDATE_VERSION :: string where "CANDIDATE_VERSION = ''1.0.0''"
definition MATCHER_VERSION :: string where "MATCHER_VERSION = ''sporos-matcher/1''"

definition display_name :: "candidate_submission \<Rightarrow> string \<Rightarrow> string" where
  "display_name submission torrent_name =
     (case su_announcement_name submission of
        Some name \<Rightarrow> if name = [] then torrent_name else name
      | None \<Rightarrow> torrent_name)"

definition add_title :: "normalized_title \<Rightarrow> release_descriptor \<Rightarrow> release_descriptor" where
  "add_title title release =
     (if title \<noteq> rd_primary_title release \<and> title \<notin> set (rd_alternate_titles release)
      then release\<lparr>rd_alternate_titles := rd_alternate_titles release @ [title]\<rparr> else release)"

definition apply_hint :: "release_descriptor option \<Rightarrow> release_descriptor \<Rightarrow> release_descriptor" where
  "apply_hint hint release =
     (case hint of
        None \<Rightarrow> release
      | Some h \<Rightarrow>
          if rd_primary_title h = rd_primary_title release
             \<or> rd_primary_title release \<in> set (rd_alternate_titles h)
          then fold add_title (rd_alternate_titles h @ [rd_primary_title h])
                 (release\<lparr>rd_arr_identity := rd_arr_identity h\<rparr>)
          else release)"

definition pinned_policy :: "candidate_ingress \<Rightarrow> bool \<Rightarrow> string \<Rightarrow> candidate_policy" where
  "pinned_policy ingress dry_run remote_root =
     \<lparr> cp_matching = mc_policy (ci_matching ingress), cp_source_filters = ci_source_filters ingress,
       cp_pending_source_timeout_ms = min u64_max (mc_pending_source_timeout_ms (ci_matching ingress)),
       cp_injection = (ci_injection ingress)\<lparr>ij_dry_run := ij_dry_run (ci_injection ingress) \<or> dry_run\<rparr>,
       cp_namespace_local_root = pa_link_root (ci_paths ingress), cp_save_path_remote_root = remote_root,
       cp_path_rewrites = pa_rewrite (ci_paths ingress) \<rparr>"

definition first_16 :: "string \<Rightarrow> string" where
  "first_16 hash = take 16 hash"

definition candidate_task ::
  "candidate_codec \<Rightarrow> candidate_id \<Rightarrow> string \<Rightarrow> int \<Rightarrow> new_task" where
  "candidate_task c candidate policy_json now =
     (let config_hash = cd_sha256 (kc_codec c) policy_json;
          policy = first_16 config_hash;
          digest = cd_sha256 (kc_codec c) (''candidate-task-v1:'' @ candidate @ policy);
          task = first_16 digest
      in \<lparr> nt_id = task, nt_key = digest, nt_kind = ''process_candidate'',
           nt_policy = \<lparr> ps_id = policy, ps_config_hash = config_hash, ps_matcher_version = MATCHER_VERSION,
             ps_payload_json = policy_json, ps_created_at = now \<rparr>,
           nt_orchestration_name = CANDIDATE_NAME, nt_orchestration_version = CANDIDATE_VERSION,
           nt_instance_id = ''candidate-v1:'' @ encode_hex candidate @ '':'' @ encode_hex policy,
           nt_input_json = kc_input c \<lparr> wi_task_id = task, wi_candidate_id = candidate,
             wi_policy_snapshot_id = policy \<rparr>,
           nt_created_at = now \<rparr>)"

section \<open>Statements\<close>

definition insert_blob :: "string \<Rightarrow> string \<Rightarrow> candidate_store \<Rightarrow> candidate_store" where
  "insert_blob hash bytes s = (if cs_blobs s hash = None then s\<lparr>cs_blobs := (cs_blobs s)(hash \<mapsto> bytes)\<rparr> else s)"

definition verify_blob :: "string \<Rightarrow> string \<Rightarrow> candidate_store \<Rightarrow> (intake_error, unit) result" where
  "verify_blob hash bytes s =
     (case cs_blobs s hash of
        None \<Rightarrow> Inl CandidateDatabase
      | Some stored \<Rightarrow> if stored = bytes then Inr () else Inl BlobCollision)"

definition insert_candidate ::
  "codec \<Rightarrow> candidate_id \<Rightarrow> candidate_row \<Rightarrow> candidate_store \<Rightarrow> (intake_error, candidate_store) result" where
  "insert_candidate codec candidate row s =
     (if ih_v1 (cr_hashes row) = None \<and> ih_v2 (cr_hashes row) = None \<or> \<not> cd_json_valid codec (cr_release_json row)
      then Inl CandidateDatabase
      else Inr (if cs_candidates s candidate = None
                then s\<lparr>cs_candidates := (cs_candidates s)(candidate \<mapsto> row)\<rparr> else s))"

definition verify_candidate :: "candidate_id \<Rightarrow> candidate_row \<Rightarrow> candidate_store \<Rightarrow> (intake_error, unit) result" where
  "verify_candidate candidate row s =
     (case cs_candidates s candidate of
        None \<Rightarrow> Inl CandidateDatabase
      | Some stored \<Rightarrow>
          if cr_blob_sha256 stored = cr_blob_sha256 row \<and> cr_manifest_digest stored = cr_manifest_digest row
          then Inr () else Inl CandidateCollision)"

text \<open>\<open>task_id\<close> is unique in this table.\<close>

definition insert_candidate_task ::
  "candidate_id \<Rightarrow> policy_snapshot_id \<Rightarrow> task_id \<Rightarrow> candidate_store \<Rightarrow> (intake_error, candidate_store) result" where
  "insert_candidate_task candidate policy task s =
     (case cs_candidate_tasks s (candidate, policy) of
        Some stored \<Rightarrow> if stored = task then Inr s else Inl CandidateTaskCollision
      | None \<Rightarrow>
          if task \<in> ran (cs_candidate_tasks s) then Inl CandidateDatabase
          else Inr (s\<lparr>cs_candidate_tasks := (cs_candidate_tasks s)((candidate, policy) \<mapsto> task)\<rparr>))"

section \<open>Accepting a submission\<close>

definition parse_submission :: "candidate_codec \<Rightarrow> string \<Rightarrow> (intake_error, parsed_torrent) result" where
  "parse_submission c bytes =
     (case parse_torrent (kc_decode c) (kc_metainfo c) bytes of
        None \<Rightarrow> Inl IntakePanic
      | Some r \<Rightarrow> map_err InvalidTorrent r)"

definition provenance :: "candidate_codec \<Rightarrow> candidate_submission \<Rightarrow> candidate_id \<Rightarrow> provenance_row" where
  "provenance c submission candidate =
     \<lparr> pv_candidate_id = candidate, pv_trigger = su_trigger submission, pv_indexer_id = su_indexer_id submission,
       pv_indexer_name = su_indexer submission, pv_announcement_name = su_announcement_name submission,
       pv_request_id = su_request_id submission, pv_received_at = su_received_at submission,
       pv_detail_json = kc_detail c (su_category submission) (su_tags submission) \<rparr>"

definition store_candidate ::
  "candidate_codec \<Rightarrow> candidate_submission \<Rightarrow> candidate_id \<Rightarrow> candidate_row \<Rightarrow> new_task \<Rightarrow> candidate_store \<Rightarrow>
   (intake_error, bool \<times> candidate_store) result" where
  "store_candidate c submission candidate row task s =
     (if length (su_bytes submission) > i64_max then Inl (ManifestError TorrentTooLarge)
      else let s1 = insert_blob (cr_blob_sha256 row) (su_bytes submission) s
      in and_then (verify_blob (cr_blob_sha256 row) (su_bytes submission) s1) (\<lambda>_.
         and_then (insert_candidate (kc_codec c) candidate row s1) (\<lambda>s2.
         and_then (verify_candidate candidate row s2) (\<lambda>_.
         and_then (map_err DurableIngress (accept_task_in (kc_codec c) task (cs_tasks s2))) (\<lambda>(inserted, tasks).
         and_then (insert_candidate_task candidate (ps_id (nt_policy task)) (nt_id task) (s2\<lparr>cs_tasks := tasks\<rparr>)) (\<lambda>s3.
         if \<not> cd_json_valid (kc_codec c) (pv_detail_json (provenance c submission candidate))
         then Inl CandidateDatabase
         else Inr (inserted, s3\<lparr>cs_provenance := cs_provenance s3 @ [provenance c submission candidate]\<rparr>)))))))"

definition accept_candidate ::
  "candidate_codec \<Rightarrow> unicode \<Rightarrow> candidate_ingress \<Rightarrow> candidate_submission \<Rightarrow> candidate_store \<Rightarrow>
   (intake_error, accepted_candidate \<times> candidate_store) result" where
  "accept_candidate c u ingress submission s =
     (if length (su_bytes submission) > ml_max_torrent_bytes (mc_limits (ci_matching ingress))
      then Inl (ManifestError TorrentTooLarge)
      else and_then (parse_submission c (su_bytes submission)) (\<lambda>parsed.
      and_then (map_err ManifestError (candidate_manifest (mc_limits (ci_matching ingress)) parsed)) (\<lambda>manifest.
      if \<not> utf8_valid (px_name parsed) then Inl InvalidUtf8Name
      else let name = display_name submission (px_name parsed);
               release = apply_hint (su_release_hint submission) (parse_release u name)
      in and_then (ok_or UnmappedLinkRoot (qbit_link_root (ci_paths ingress))) (\<lambda>remote_root.
         let policy_json = kc_policy c (pinned_policy ingress (su_dry_run submission) remote_root);
             manifest_json = kc_manifest c manifest;
             blob_hash = cd_sha256 (kc_codec c) (su_bytes submission);
             candidate = first_16 blob_hash;
             task = candidate_task c candidate policy_json (su_received_at submission);
             row = \<lparr> cr_blob_sha256 = blob_hash, cr_hashes = tm_hashes manifest,
               cr_manifest_digest = cd_sha256 (kc_codec c) manifest_json, cr_display_name = name,
               cr_release_json = kc_release c release, cr_state = ''received'',
               cr_created_at = su_received_at submission, cr_updated_at = su_received_at submission,
               cr_manifest_json = Some manifest_json \<rparr>
         in and_then (store_candidate c submission candidate row task s) (\<lambda>(inserted, s').
              Inr (\<lparr> ac_candidate_id = candidate, ac_task_id = nt_id task, ac_duplicate = (\<not> inserted) \<rparr>, s'))))))"


section \<open>What an acceptance stores\<close>

lemma store_candidate_Inr:
  assumes "store_candidate c submission candidate row task s = Inr (inserted, t)"
  obtains s2 tasks where "cs_blobs t (cr_blob_sha256 row) = Some (su_bytes submission)"
    "insert_candidate (kc_codec c) candidate row (insert_blob (cr_blob_sha256 row) (su_bytes submission) s) = Inr s2"
    "verify_candidate candidate row t = Inr ()"
    "accept_task_in (kc_codec c) task (cs_tasks s) = Inr (inserted, cs_tasks t)"
    "cs_candidate_tasks t (candidate, ps_id (nt_policy task)) = Some (nt_id task)"
    "cs_candidates t = cs_candidates s2" "cs_blobs t = cs_blobs s2"
    "length (su_bytes submission) \<le> i64_max"
    "cs_provenance t = cs_provenance s @ [provenance c submission candidate]"
proof -
  define s1 where "s1 = insert_blob (cr_blob_sha256 row) (su_bytes submission) s"
  have len: "length (su_bytes submission) \<le> i64_max"
    using assms by (auto simp: store_candidate_def split: if_splits)
  obtain s2 tasks s3 where p: "verify_blob (cr_blob_sha256 row) (su_bytes submission) s1 = Inr ()"
    "insert_candidate (kc_codec c) candidate row s1 = Inr s2" "verify_candidate candidate row s2 = Inr ()"
    "accept_task_in (kc_codec c) task (cs_tasks s2) = Inr (inserted, tasks)"
    "insert_candidate_task candidate (ps_id (nt_policy task)) (nt_id task) (s2\<lparr>cs_tasks := tasks\<rparr>) = Inr s3"
    and t: "t = s3\<lparr>cs_provenance := cs_provenance s3 @ [provenance c submission candidate]\<rparr>"
    using assms len unfolding store_candidate_def s1_def [symmetric]
    by (auto simp: Let_def split: if_splits)
  have s1: "cs_tasks s1 = cs_tasks s" "cs_provenance s1 = cs_provenance s"
    by (simp_all add: s1_def insert_blob_def)
  have s2: "cs_tasks s2 = cs_tasks s1" "cs_blobs s2 = cs_blobs s1" "cs_provenance s2 = cs_provenance s1"
    "cs_candidate_tasks s2 = cs_candidate_tasks s1"
    using p(2) by (auto simp: insert_candidate_def split: if_splits)
  have s3: "cs_tasks s3 = tasks" "cs_blobs s3 = cs_blobs s2" "cs_candidates s3 = cs_candidates s2"
    "cs_provenance s3 = cs_provenance s2" "cs_candidate_tasks s3 (candidate, ps_id (nt_policy task)) = Some (nt_id task)"
    using p(5) by (auto simp: insert_candidate_task_def split: if_splits option.splits)
  have blob: "cs_blobs s1 (cr_blob_sha256 row) = Some (su_bytes submission)"
    using p(1) by (auto simp: verify_blob_def split: option.splits if_splits)
  show thesis
  proof (rule that [of s2])
    show "insert_candidate (kc_codec c) candidate row (insert_blob (cr_blob_sha256 row) (su_bytes submission) s) = Inr s2"
      using p(2) by (simp add: s1_def)
    show "verify_candidate candidate row t = Inr ()" using p(3) t s3 by (auto simp: verify_candidate_def)
  qed (use t p(4) s1 s2 s3 blob len in auto)
qed

lemma store_candidate_again:
  assumes "store_candidate c submission candidate row task s = Inr (inserted, t)"
    and "su_bytes later = su_bytes submission" and "cr_blob_sha256 row' = cr_blob_sha256 row"
    and "cr_manifest_digest row' = cr_manifest_digest row" and "cr_hashes row' = cr_hashes row"
    and json: "cd_json_valid (kc_codec c) (cr_release_json row')"
      "cd_json_valid (kc_codec c) (pv_detail_json (provenance c later candidate))"
  shows "store_candidate c later candidate row' (retimed now policy_now task) t
    = Inr (False, t\<lparr>cs_provenance := cs_provenance t @ [provenance c later candidate]\<rparr>)"
  using assms(1)
proof (rule store_candidate_Inr)
  fix s2
  assume p: "cs_blobs t (cr_blob_sha256 row) = Some (su_bytes submission)"
    "insert_candidate (kc_codec c) candidate row (insert_blob (cr_blob_sha256 row) (su_bytes submission) s) = Inr s2"
    "verify_candidate candidate row t = Inr ()"
    "accept_task_in (kc_codec c) task (cs_tasks s) = Inr (inserted, cs_tasks t)"
    "cs_candidate_tasks t (candidate, ps_id (nt_policy task)) = Some (nt_id task)"
    "length (su_bytes submission) \<le> i64_max"
  have blob: "insert_blob (cr_blob_sha256 row') (su_bytes later) t = t"
    "verify_blob (cr_blob_sha256 row') (su_bytes later) t = Inr ()"
    using p(1) assms(2,3) by (simp_all add: insert_blob_def verify_blob_def)
  have hashes: "\<not> (ih_v1 (cr_hashes row') = None \<and> ih_v2 (cr_hashes row') = None)"
    using p(2) assms(5) by (auto simp: insert_candidate_def split: if_splits)
  have stored: "cs_candidates t candidate \<noteq> None" using p(3) by (auto simp: verify_candidate_def split: option.splits)
  then have cand: "insert_candidate (kc_codec c) candidate row' t = Inr t"
    using hashes json(1) by (auto simp: insert_candidate_def)
  have verify: "verify_candidate candidate row' t = Inr ()"
    using p(3) unfolding verify_candidate_def assms(3,4) .
  have tasks: "accept_task_in (kc_codec c) (retimed now policy_now task) (cs_tasks t) = Inr (False, cs_tasks t)"
    by (rule accept_again_at [OF p(4)])
  have link: "insert_candidate_task candidate (ps_id (nt_policy (retimed now policy_now task)))
      (nt_id (retimed now policy_now task)) t = Inr t"
    using p(5) by (simp add: insert_candidate_task_def)
  have short: "\<not> length (su_bytes later) > i64_max" using p(6) assms(2) by simp
  have same: "t\<lparr>cs_tasks := cs_tasks t\<rparr> = t" by simp
  show ?thesis
    unfolding store_candidate_def if_not_P [OF short] Let_def blob and_then_simps cand verify tasks map_err_def
      sum.case prod.case same link
    using json(2) by simp
qed

lemma candidate_task_retimed:
  "candidate_task c candidate policy_json now' = retimed now' now' (candidate_task c candidate policy_json now)"
  by (simp add: candidate_task_def retimed_def Let_def)

definition candidate_row_of ::
  "candidate_codec \<Rightarrow> unicode \<Rightarrow> candidate_submission \<Rightarrow> parsed_torrent \<Rightarrow> torrent_manifest \<Rightarrow> candidate_row" where
  "candidate_row_of c u submission parsed manifest =
     (let name = display_name submission (px_name parsed)
      in \<lparr> cr_blob_sha256 = cd_sha256 (kc_codec c) (su_bytes submission), cr_hashes = tm_hashes manifest,
           cr_manifest_digest = cd_sha256 (kc_codec c) (kc_manifest c manifest), cr_display_name = name,
           cr_release_json = kc_release c (apply_hint (su_release_hint submission) (parse_release u name)),
           cr_state = ''received'', cr_created_at = su_received_at submission, cr_updated_at = su_received_at submission,
           cr_manifest_json = Some (kc_manifest c manifest) \<rparr>)"

lemma accept_candidate_Inr:
  "accept_candidate c u ingress submission s = Inr (accepted, t) \<longleftrightarrow>
   (\<exists>parsed manifest remote_root inserted.
      length (su_bytes submission) \<le> ml_max_torrent_bytes (mc_limits (ci_matching ingress)) \<and>
      parse_submission c (su_bytes submission) = Inr parsed \<and>
      candidate_manifest (mc_limits (ci_matching ingress)) parsed = Inr manifest \<and> utf8_valid (px_name parsed) \<and>
      qbit_link_root (ci_paths ingress) = Some remote_root \<and>
      (let candidate = first_16 (cd_sha256 (kc_codec c) (su_bytes submission));
           task = candidate_task c candidate (kc_policy c (pinned_policy ingress (su_dry_run submission) remote_root))
             (su_received_at submission)
       in store_candidate c submission candidate (candidate_row_of c u submission parsed manifest) task s = Inr (inserted, t) \<and>
          accepted = \<lparr> ac_candidate_id = candidate, ac_task_id = nt_id task, ac_duplicate = (\<not> inserted) \<rparr>))"
  unfolding accept_candidate_def candidate_row_of_def Let_def
  by (auto simp: split: if_splits)

section \<open>Properties\<close>

text \<open>
  C36: Submitting a torrent again is harmless: once a submission was accepted, every
  later submission of the same bytes with the same dry-run flag, whatever its name,
  indexer, hints and time, is accepted as a duplicate with the same candidate and
  the same task, and the only change in the store is one more provenance row.
\<close>

theorem resubmission_is_duplicate:
  assumes "accept_candidate c u ingress submission s = Inr (accepted, t)"
    and "su_bytes later = su_bytes submission" and "su_dry_run later = su_dry_run submission"
    and "\<forall>release. cd_json_valid (kc_codec c) (kc_release c release)"
    and "\<forall>category tags. cd_json_valid (kc_codec c) (kc_detail c category tags)"
  shows "accept_candidate c u ingress later t = Inr (accepted\<lparr>ac_duplicate := True\<rparr>,
    t\<lparr>cs_provenance := cs_provenance t @ [provenance c later (ac_candidate_id accepted)]\<rparr>)"
proof -
  define candidate where "candidate = first_16 (cd_sha256 (kc_codec c) (su_bytes submission))"
  from assms(1) [unfolded accept_candidate_Inr Let_def] obtain parsed manifest remote_root inserted where
    p: "length (su_bytes submission) \<le> ml_max_torrent_bytes (mc_limits (ci_matching ingress))"
    "parse_submission c (su_bytes submission) = Inr parsed"
    "candidate_manifest (mc_limits (ci_matching ingress)) parsed = Inr manifest" "utf8_valid (px_name parsed)"
    "qbit_link_root (ci_paths ingress) = Some remote_root"
    and st: "store_candidate c submission candidate (candidate_row_of c u submission parsed manifest)
      (candidate_task c candidate (kc_policy c (pinned_policy ingress (su_dry_run submission) remote_root))
        (su_received_at submission)) s = Inr (inserted, t)"
    and a: "accepted = \<lparr> ac_candidate_id = candidate, ac_task_id = nt_id (candidate_task c candidate
        (kc_policy c (pinned_policy ingress (su_dry_run submission) remote_root)) (su_received_at submission)),
      ac_duplicate = (\<not> inserted) \<rparr>"
    unfolding candidate_def by blast
  have "store_candidate c later candidate (candidate_row_of c u later parsed manifest)
      (candidate_task c candidate (kc_policy c (pinned_policy ingress (su_dry_run submission) remote_root))
        (su_received_at later)) t
      = Inr (False, t\<lparr>cs_provenance := cs_provenance t @ [provenance c later candidate]\<rparr>)"
    unfolding candidate_task_retimed [of c candidate _ "su_received_at later" "su_received_at submission"]
    by (rule store_candidate_again [OF st assms(2)])
      (use assms(2,4,5) in \<open>simp_all add: candidate_row_of_def Let_def provenance_def\<close>)
  moreover have "nt_id (candidate_task c candidate (kc_policy c (pinned_policy ingress (su_dry_run submission) remote_root))
      (su_received_at later)) = ac_task_id accepted"
    by (simp add: a candidate_task_def Let_def)
  ultimately show ?thesis
    unfolding accept_candidate_Inr Let_def assms(2,3) candidate_def [symmetric]
    using p a by (auto intro!: exI [of _ parsed] exI [of _ manifest] exI [of _ remote_root] exI [of _ False])
qed

definition sample_candidate_codec :: candidate_codec where
  "sample_candidate_codec = \<lparr> kc_codec = \<lparr> cd_json_valid = (\<lambda>_. True), cd_sha256 = (\<lambda>bytes. bytes),
       cd_cancellation_input = (\<lambda>task i. task @ i), cd_cancel_detail = (\<lambda>a b. a @ b),
       cd_retry_detail = (\<lambda>a b. a @ b), cd_completion_detail = (\<lambda>source at. source),
       cd_completion_input = (\<lambda>operation_id task source completed observed. task) \<rparr>,
     kc_manifest = (\<lambda>_. ''m''), kc_release = (\<lambda>_. ''r''), kc_policy = (\<lambda>_. ''p''), kc_input = (\<lambda>_. ''i''),
     kc_detail = (\<lambda>_ _. ''{}''), kc_decode = (\<lambda>_. True),
     kc_metainfo = (\<lambda>_. Some \<lparr>mi_name = ''t'', mi_piece_length = 16,
       mi_v1 = Some \<lparr>mv1_files = Single 20, mv1_pieces = replicate 40 CHR ''x''\<rparr>, mi_v2 = None,
       mi_info_hash = InfoHashV1 ''h'', mi_info_bytes = ''''\<rparr>) \<rparr>"

definition sample_ingress :: candidate_ingress where
  "sample_ingress = \<lparr> ci_matching = \<lparr> mc_policy = default_policy,
       mc_limits = \<lparr>ml_max_torrent_bytes = 1000, ml_max_files_per_torrent = 10, ml_max_path_bytes = 100\<rparr>,
       mc_pending_source_timeout_ms = 60000 \<rparr>,
     ci_source_filters = \<lparr> sf_include_categories = [], sf_exclude_categories = [], sf_include_tags = [],
       sf_exclude_tags = [''no-sporos''], sf_exclude_sporos_managed = True \<rparr>,
     ci_injection = \<lparr> ij_dry_run = False, ij_category_template = ''cross-seed'', ij_tag_templates = [],
       ij_inherit_source_category = False, ij_inherit_source_tags = False, ij_resume = CompleteOnly \<rparr>,
     ci_paths = \<lparr> pa_link_root = ''/links'', pa_rewrite = [\<lparr> rw_remote = ''/remote'', rw_local = ''/links'',
       rw_services = [''qbittorrent''] \<rparr>] \<rparr> \<rparr>"

definition sample_submission :: candidate_submission where
  "sample_submission = \<lparr> su_bytes = ''torrent'', su_announcement_name = None, su_indexer = None, su_indexer_id = None,
     su_trigger = ''announce'', su_release_hint = None, su_category = None, su_tags = [], su_request_id = ''q'',
     su_dry_run = False, su_received_at = 5 \<rparr>"

definition empty_candidates :: candidate_store where
  "empty_candidates = \<lparr> cs_blobs = Map.empty, cs_candidates = Map.empty, cs_candidate_tasks = Map.empty,
     cs_provenance = [], cs_tasks = empty_store \<rparr>"

lemma sample_parse_submission:
  "\<exists>parsed manifest. parse_submission sample_candidate_codec ''torrent'' = Inr parsed \<and>
     candidate_manifest (mc_limits (ci_matching sample_ingress)) parsed = Inr manifest \<and> utf8_valid (px_name parsed) \<and>
     tm_hashes manifest = \<lparr>ih_v1 = Some ''h'', ih_v2 = None\<rparr>"
proof -
  have v: "validate_files [plain_file [''t''] 20] = Inr ()"
    by (simp add: validate_files_def validate_component_def checked_add_def plain_file_def MAX_FILES_def
        MAX_PATH_COMPONENTS_def MAX_COMPONENT_BYTES_def MAX_PATH_BYTES_def MAX_MANIFEST_PATH_BYTES_def)
  have u: "utf8_valid ''t''" by code_simp
  have "v1_files ''t'' (Single 20)
      = Inr \<lparr>fv_files = [plain_file [''t''] 20], fv_piece_files = [\<lparr>pf_file_ordinal = Some 0, pf_offset = 0, pf_length = 20\<rparr>]\<rparr>"
    using v by (simp add: v1_files_def raw_v1_def checked_add_def)
  then show ?thesis
    by (simp add: parse_submission_def parse_torrent_def sample_candidate_codec_def parse_metainfo_def checked_v1_def
        checked_v2_def combine_views_def validate_component_def MAX_COMPONENT_BYTES_def MAX_TORRENT_BYTES_def
        total_length_def saturating_add_def div_ceil_def map_err_def hashes_of_def)
      (simp add: candidate_manifest_def sample_ingress_def plain_file_def u)
qed

lemma accept_task_in_empty:
  assumes "\<And>x. cd_json_valid codec x"
  shows "\<exists>t. accept_task_in codec task empty_store = Inr (True, t)"
  by (simp add: accept_task_in_def insert_policy_def verify_policy_def insert_task_def verify_task_def Let_def
      queued_event_def add_event_def start_once_def insert_outbox_def verify_outbox_def empty_store_def
      row_of_def queued_row_def start_of_def outbox_start_def next_outbox_id_def set_task_def assms)

lemma store_candidate_empty:
  assumes "\<And>x. cd_json_valid (kc_codec c) x" "length (su_bytes submission) \<le> i64_max" "ih_v1 (cr_hashes row) \<noteq> None"
  shows "\<exists>t. store_candidate c submission candidate row task empty_candidates = Inr (True, t)"
proof -
  obtain tasks where "accept_task_in (kc_codec c) task empty_store = Inr (True, tasks)"
    using accept_task_in_empty assms(1) by blast
  then show ?thesis using assms(2,3)
    by (auto simp: store_candidate_def insert_blob_def verify_blob_def insert_candidate_def verify_candidate_def
      Let_def empty_candidates_def map_err_def insert_candidate_task_def assms(1))
qed

lemma sample_accept_candidate:
  "\<exists>accepted t. accept_candidate sample_candidate_codec ascii_unicode sample_ingress sample_submission empty_candidates
     = Inr (accepted, t)"
proof -
  obtain parsed manifest where p: "parse_submission sample_candidate_codec ''torrent'' = Inr parsed"
    "candidate_manifest (mc_limits (ci_matching sample_ingress)) parsed = Inr manifest" "utf8_valid (px_name parsed)"
    "tm_hashes manifest = \<lparr>ih_v1 = Some ''h'', ih_v2 = None\<rparr>" using sample_parse_submission by blast
  have root: "qbit_link_root (ci_paths sample_ingress) = Some ''/remote/''"
    unfolding sample_ingress_def candidate_ingress.simps by code_simp
  have limits: "ml_max_torrent_bytes (mc_limits (ci_matching sample_ingress)) = 1000" by (simp add: sample_ingress_def)
  have bytes: "su_bytes sample_submission = ''torrent''" by (simp add: sample_submission_def)
  have json: "cd_json_valid (kc_codec sample_candidate_codec) x" for x by (simp add: sample_candidate_codec_def)
  have hashes: "cr_hashes (candidate_row_of sample_candidate_codec ascii_unicode sample_submission parsed manifest)
      = \<lparr>ih_v1 = Some ''h'', ih_v2 = None\<rparr>"
    unfolding candidate_row_of_def Let_def candidate_row.simps by (rule p(4))
  have stored: "\<exists>t. store_candidate sample_candidate_codec sample_submission candidate
      (candidate_row_of sample_candidate_codec ascii_unicode sample_submission parsed manifest)
      (candidate_task sample_candidate_codec candidate policy_json (su_received_at sample_submission)) empty_candidates = Inr (True, t)" for candidate policy_json
    by (rule store_candidate_empty) (simp_all add: json bytes hashes)
  have short: "length ''torrent'' \<le> ml_max_torrent_bytes (mc_limits (ci_matching sample_ingress))" by (simp add: limits)
  show ?thesis unfolding accept_candidate_Inr Let_def bytes
    using p(1-3) root short stored by blast
qed

theorem resubmission_is_duplicate_witness:
  "\<exists>accepted t t'. accept_candidate sample_candidate_codec ascii_unicode sample_ingress sample_submission empty_candidates
       = Inr (accepted, t) \<and>
     accept_candidate sample_candidate_codec ascii_unicode sample_ingress (sample_submission\<lparr>su_trigger := ''search''\<rparr>) t
       = Inr (accepted\<lparr>ac_duplicate := True\<rparr>, t')"
proof -
  obtain accepted t where a: "accept_candidate sample_candidate_codec ascii_unicode sample_ingress sample_submission empty_candidates
       = Inr (accepted, t)" using sample_accept_candidate by blast
  from resubmission_is_duplicate [OF a, of "sample_submission\<lparr>su_trigger := ''search''\<rparr>"] a
  show ?thesis by (simp add: sample_candidate_codec_def)
qed

end
