(* ===== verification/Hungarian.thy ===== *)
theory Hungarian
  imports Prelude
begin

text \<open>
  The rectangular Hungarian assignment of \<open>crates/sporos-matcher/src/matcher.rs\<close>
  (\<open>hungarian\<close>): its loops as step functions on a record of the function's
  mutable variables, and its total correctness.  The vectors of the source are
  total functions on indices, 1-based as in the source with index 0 the
  auxiliary column; \<open>i128\<close> values are integers, and the correctness theorem
  carries the bound under which none of them that is read leaves the range of
  \<open>i128\<close>.  The potential of the auxiliary column is only written: it falls
  by every step of every phase, and the bound does not speak about it.
  The two inner loops take fuel \<open>columns + 1\<close>; running out is \<^const>\<open>None\<close>,
  and the main theorem shows that it never happens.
\<close>

section \<open>The algorithm\<close>

record search =
  row_potential :: "nat \<Rightarrow> int"
  column_potential :: "nat \<Rightarrow> int"
  column_row :: "nat \<Rightarrow> nat"
  previous :: "nat \<Rightarrow> nat"
  minimum :: "nat \<Rightarrow> int"
  used :: "nat \<Rightarrow> bool"
  column :: nat
  delta :: int
  next_column :: nat

definition relax_column :: "int list list \<Rightarrow> nat \<Rightarrow> nat \<Rightarrow> search \<Rightarrow> search" where
  "relax_column costs current_row j s =
     (if used s j then s
      else
        let reduced = costs ! (current_row - 1) ! (j - 1)
              - row_potential s current_row - column_potential s j;
            s1 = (if reduced < minimum s j
                  then s\<lparr>minimum := (minimum s)(j := reduced),
                         previous := (previous s)(j := column s)\<rparr>
                  else s)
        in if minimum s1 j < delta s1 then s1\<lparr>delta := minimum s1 j, next_column := j\<rparr> else s1)"

definition shift_column :: "nat \<Rightarrow> search \<Rightarrow> search" where
  "shift_column j s =
     (if used s j
      then s\<lparr>row_potential := (row_potential s)
                (column_row s j := row_potential s (column_row s j) + delta s),
             column_potential := (column_potential s)(j := column_potential s j - delta s)\<rparr>
      else s\<lparr>minimum := (minimum s)(j := minimum s j - delta s)\<rparr>)"

definition search_step :: "int list list \<Rightarrow> nat \<Rightarrow> search \<Rightarrow> search" where
  "search_step costs columns s =
     (let s1 = s\<lparr>used := (used s)(column s := True), delta := i128_max, next_column := 0\<rparr>;
          current_row = column_row s1 (column s1);
          s2 = fold (relax_column costs current_row) [1..<columns + 1] s1;
          s3 = fold shift_column [0..<columns + 1] s2
      in s3\<lparr>column := next_column s3\<rparr>)"

fun search_loop :: "int list list \<Rightarrow> nat \<Rightarrow> nat \<Rightarrow> search \<Rightarrow> search option" where
  "search_loop costs columns 0 s = None"
| "search_loop costs columns (Suc fuel) s =
     (let s' = search_step costs columns s
      in if column_row s' (column s') = 0 then Some s' else search_loop costs columns fuel s')"

fun augment_loop :: "nat \<Rightarrow> search \<Rightarrow> search option" where
  "augment_loop 0 s = None"
| "augment_loop (Suc fuel) s =
     (let prior = previous s (column s);
          s' = s\<lparr>column_row := (column_row s)(column s := column_row s prior), column := prior\<rparr>
      in if prior = 0 then Some s' else augment_loop fuel s')"

definition start_row :: "nat \<Rightarrow> search \<Rightarrow> search" where
  "start_row row s =
     s\<lparr>column_row := (column_row s)(0 := row), column := 0,
       minimum := (\<lambda>_. i128_max), used := (\<lambda>_. False)\<rparr>"

definition insert_row :: "int list list \<Rightarrow> nat \<Rightarrow> nat \<Rightarrow> search \<Rightarrow> search option" where
  "insert_row costs columns row s =
     (case search_loop costs columns (columns + 1) (start_row row s) of
        None \<Rightarrow> None
      | Some s' \<Rightarrow> augment_loop (columns + 1) s')"

fun insert_rows :: "int list list \<Rightarrow> nat \<Rightarrow> nat list \<Rightarrow> search \<Rightarrow> search option" where
  "insert_rows costs columns [] s = Some s"
| "insert_rows costs columns (row # rows) s =
     (case insert_row costs columns row s of
        None \<Rightarrow> None
      | Some s' \<Rightarrow> insert_rows costs columns rows s')"

definition initial_search :: search where
  "initial_search =
     \<lparr>row_potential = (\<lambda>_. 0), column_potential = (\<lambda>_. 0), column_row = (\<lambda>_. 0),
      previous = (\<lambda>_. 0), minimum = (\<lambda>_. i128_max), used = (\<lambda>_. False),
      column = 0, delta = i128_max, next_column = 0\<rparr>"

definition read_assignment :: "nat \<Rightarrow> nat \<Rightarrow> (nat \<Rightarrow> nat) \<Rightarrow> nat list" where
  "read_assignment rows columns p =
     fold (\<lambda>j assignment. if p j \<noteq> 0 then assignment[p j - 1 := j - 1] else assignment)
       [1..<columns + 1] (replicate rows columns)"

definition hungarian :: "int list list \<Rightarrow> nat list option" where
  "hungarian costs =
     (case costs of
        [] \<Rightarrow> None
      | first # _ \<Rightarrow>
          (let rows = length costs; columns = length first
           in case insert_rows costs columns [1..<rows + 1] initial_search of
                None \<Rightarrow> None
              | Some s \<Rightarrow> Some (read_assignment rows columns (column_row s))))"

section \<open>Effect of one scan\<close>

text \<open>
  The two \<open>for\<close> loops of a search step, characterised pointwise: what the
  relaxation does to \<open>minimum\<close>, \<open>previous\<close>, \<open>delta\<close> and \<open>next\<close>, and what the
  shift by \<open>delta\<close> does to the potentials.
\<close>

definition reduced_cost :: "int list list \<Rightarrow> nat \<Rightarrow> search \<Rightarrow> nat \<Rightarrow> int" where
  "reduced_cost costs r s j = costs ! (r - 1) ! (j - 1) - row_potential s r - column_potential s j"

definition relaxed :: "int list list \<Rightarrow> nat \<Rightarrow> nat \<Rightarrow> search \<Rightarrow> search \<Rightarrow> bool" where
  "relaxed costs r k s t \<longleftrightarrow>
     row_potential t = row_potential s \<and> column_potential t = column_potential s \<and>
     column_row t = column_row s \<and> used t = used s \<and> column t = column s \<and>
     (\<forall>j. minimum t j = (if j \<in> {1..k} \<and> \<not> used s j
                          then min (minimum s j) (reduced_cost costs r s j) else minimum s j)) \<and>
     (\<forall>j. previous t j = (if j \<in> {1..k} \<and> \<not> used s j \<and> reduced_cost costs r s j < minimum s j
                           then column s else previous s j)) \<and>
     delta t \<le> delta s \<and>
     (\<forall>j \<in> {1..k}. \<not> used s j \<longrightarrow> delta t \<le> minimum t j) \<and>
     (delta t < delta s \<longrightarrow> next_column t \<in> {1..k} \<and> \<not> used s (next_column t) \<and>
        minimum t (next_column t) = delta t)"

lemma relax_column_relaxed:
  assumes "relaxed costs r k s t"
  shows "relaxed costs r (Suc k) s (relax_column costs r (Suc k) t)"
proof (cases "used s (Suc k)")
  case True
  then have "relax_column costs r (Suc k) t = t"
    using assms by (simp add: relaxed_def relax_column_def)
  then show ?thesis
    using assms True unfolding relaxed_def by (auto simp: le_Suc_eq)
next
  case False
  let ?j = "Suc k"
  let ?red = "reduced_cost costs r s ?j"
  note a = assms [unfolded relaxed_def]
  have fields: "row_potential t = row_potential s" "column_potential t = column_potential s"
    "column_row t = column_row s" "used t = used s" "column t = column s"
    "minimum t ?j = minimum s ?j" "previous t ?j = previous s ?j"
    using a by auto
  let ?min' = "(minimum t)(?j := min (minimum s ?j) ?red)"
  let ?t = "relax_column costs r ?j t"
  have red: "costs ! (r - 1) ! (?j - 1) - row_potential t r - column_potential t ?j = ?red"
    by (simp add: reduced_cost_def fields)
  have t: "row_potential ?t = row_potential s" "column_potential ?t = column_potential s"
    "column_row ?t = column_row s" "used ?t = used s" "column ?t = column s"
    "minimum ?t = ?min'"
    "previous ?t = (if ?red < minimum s ?j then (previous t)(?j := column s) else previous t)"
    "delta ?t = min (delta t) (?min' ?j)"
    "next_column ?t = (if ?min' ?j < delta t then ?j else next_column t)"
    using False fields red
    by (auto simp: relax_column_def Let_def fun_eq_iff min_def)
  show ?thesis
    unfolding relaxed_def t
  proof (intro conjI allI ballI impI)
    fix j assume "j \<in> {1..Suc k}" "\<not> used s j"
    then show "min (delta t) (?min' ?j) \<le> ?min' j"
      using a by (cases "j = Suc k") (auto simp: min_le_iff_disj)
  next
    assume less: "min (delta t) (?min' ?j) < delta s"
    let ?n = "if ?min' ?j < delta t then ?j else next_column t"
    have n: "?n \<in> {1..Suc k} \<and> \<not> used s ?n \<and> ?min' ?n = min (delta t) (?min' ?j)"
    proof (cases "?min' ?j < delta t")
      case True
      then show ?thesis using False by simp
    next
      case f: False
      then have "delta t < delta s" using less by simp
      then have "next_column t \<in> {1..k} \<and> \<not> used s (next_column t) \<and> minimum t (next_column t) = delta t"
        using a by blast
      then show ?thesis using f by auto
    qed
    show "?n \<in> {1..Suc k}" and "\<not> used s ?n" and "?min' ?n = min (delta t) (?min' ?j)"
      using n by blast+
  qed (use a False in \<open>auto simp: le_Suc_eq min_le_iff_disj\<close>)
qed

lemma fold_relax_column: "relaxed costs r k s (fold (relax_column costs r) [1..<k + 1] s)"
proof (induction k)
  case 0
  then show ?case by (simp add: relaxed_def)
next
  case (Suc k)
  then show ?case using relax_column_relaxed by simp
qed

definition shifted :: "nat set \<Rightarrow> search \<Rightarrow> search \<Rightarrow> bool" where
  "shifted K s t \<longleftrightarrow>
     column_row t = column_row s \<and> used t = used s \<and> column t = column s \<and>
     previous t = previous s \<and> delta t = delta s \<and> next_column t = next_column s \<and>
     (\<forall>r. row_potential t r =
        row_potential s r + (if \<exists>j \<in> K. used s j \<and> column_row s j = r then delta s else 0)) \<and>
     (\<forall>j. column_potential t j = column_potential s j - (if j \<in> K \<and> used s j then delta s else 0)) \<and>
     (\<forall>j. minimum t j = minimum s j - (if j \<in> K \<and> \<not> used s j then delta s else 0))"

lemma shift_column_shifted:
  assumes "shifted K s t" and "j \<notin> K"
    and "\<And>i. i \<in> K \<Longrightarrow> used s i \<Longrightarrow> used s j \<Longrightarrow> column_row s i \<noteq> column_row s j"
  shows "shifted (insert j K) s (shift_column j t)"
  using assms unfolding shifted_def shift_column_def by auto

lemma fold_shift_column:
  assumes inj: "inj_on (column_row s) {j. j \<le> m \<and> used s j}"
  shows "k \<le> m + 1 \<Longrightarrow> shifted {0..<k} s (fold shift_column [0..<k] s)"
proof (induction k)
  case 0
  then show ?case by (simp add: shifted_def)
next
  case (Suc k)
  then have "shifted {0..<k} s (fold shift_column [0..<k] s)" by simp
  then have "shifted (insert k {0..<k}) s (shift_column k (fold shift_column [0..<k] s))"
    using Suc.prems by (intro shift_column_shifted) (auto dest: inj_onD [OF inj])
  then show ?case by (simp add: atLeast0_lessThan_Suc)
qed

section \<open>The search invariant\<close>

definition matching_rows :: "nat \<Rightarrow> nat \<Rightarrow> (nat \<Rightarrow> nat) \<Rightarrow> bool" where
  "matching_rows m i p \<longleftrightarrow>
     1 \<le> i \<and> i \<le> m \<and> p 0 = i \<and> p ` {1..m} - {0} = {1..<i} \<and>
     inj_on p {j \<in> {0..m}. p j \<noteq> 0}"

definition bounded_costs :: "(nat \<Rightarrow> nat \<Rightarrow> int) \<Rightarrow> nat \<Rightarrow> nat \<Rightarrow> int \<Rightarrow> bool" where
  "bounded_costs c n m B \<longleftrightarrow>
     2 * B < i128_max \<and> (\<forall>r \<in> {1..n}. \<forall>j \<in> {1..m}. - B \<le> c r j \<and> c r j \<le> 0)"

definition dual_inv :: "(nat \<Rightarrow> nat \<Rightarrow> int) \<Rightarrow> nat \<Rightarrow> nat set \<Rightarrow> search \<Rightarrow> bool" where
  "dual_inv c m R s \<longleftrightarrow>
     (\<forall>r \<in> R. \<forall>j \<in> {1..m}. row_potential s r + column_potential s j \<le> c r j) \<and>
     (\<forall>j \<in> {1..m}. column_row s j \<noteq> 0 \<longrightarrow>
        row_potential s (column_row s j) + column_potential s j = c (column_row s j) j) \<and>
     (\<forall>j \<in> {1..m}. column_potential s j \<le> 0 \<and>
        (column_row s j = 0 \<longrightarrow> column_potential s j = 0))"

definition tree_inv :: "(nat \<Rightarrow> nat \<Rightarrow> int) \<Rightarrow> search \<Rightarrow> bool" where
  "tree_inv c s \<longleftrightarrow>
     (\<forall>k \<in> insert (column s) (Collect (used s)) - {0}. used s (previous s k) \<and>
        row_potential s (column_row s (previous s k)) + column_potential s k
          = c (column_row s (previous s k)) k) \<and>
     (\<exists>rank N. (\<forall>k \<in> insert (column s) (Collect (used s)). rank k \<le> (N::nat)) \<and>
        (\<forall>k \<in> insert (column s) (Collect (used s)) - {0}. rank (previous s k) < rank k))"

definition minimum_inv :: "(nat \<Rightarrow> nat \<Rightarrow> int) \<Rightarrow> nat \<Rightarrow> search \<Rightarrow> bool" where
  "minimum_inv c m s \<longleftrightarrow>
     (\<forall>j \<in> {1..m}. \<not> used s j \<longrightarrow>
        (Collect (used s) = {} \<longrightarrow> minimum s j = i128_max) \<and>
        (Collect (used s) \<noteq> {} \<longrightarrow>
           0 \<le> minimum s j \<and> used s (previous s j) \<and>
           minimum s j = c (column_row s (previous s j)) j
             - row_potential s (column_row s (previous s j)) - column_potential s j \<and>
           (\<forall>k. used s k \<longrightarrow>
              minimum s j \<le> c (column_row s k) j - row_potential s (column_row s k)
                - column_potential s j)))"

definition covered :: "nat \<Rightarrow> search \<Rightarrow> nat set" where
  "covered i s = (if Collect (used s) = {} then {1..<i} else {1..i})"

definition search_inv :: "(nat \<Rightarrow> nat \<Rightarrow> int) \<Rightarrow> nat \<Rightarrow> nat \<Rightarrow> search \<Rightarrow> bool" where
  "search_inv c m i s \<longleftrightarrow>
     matching_rows m i (column_row s) \<and>
     Collect (used s) \<subseteq> {0..m} \<and> column s \<le> m \<and> \<not> used s (column s) \<and>
     (Collect (used s) = {} \<longrightarrow> column s = 0) \<and>
     (Collect (used s) \<noteq> {} \<longrightarrow> used s 0) \<and>
     (\<forall>j. used s j \<longrightarrow> column_row s j \<noteq> 0) \<and>
     dual_inv c m (covered i s) s \<and>
     (\<forall>r > i. row_potential s r = 0) \<and>
     (Collect (used s) = {} \<longrightarrow> row_potential s i = 0) \<and>
     tree_inv c s \<and> minimum_inv c m s"

lemma matching_rowsD:
  assumes "matching_rows m i p"
  shows "1 \<le> i" "i \<le> m" "p 0 = i" "p ` {1..m} - {0} = {1..<i}"
    "inj_on p {j \<in> {0..m}. p j \<noteq> 0}"
  using assms by (simp_all only: matching_rows_def)

lemma matching_rows_free_column:
  assumes "matching_rows m i p"
  shows "\<exists>f \<in> {1..m}. p f = 0"
proof (rule ccontr)
  assume "\<not> (\<exists>f \<in> {1..m}. p f = 0)"
  then have nz: "\<forall>f \<in> {1..m}. p f \<noteq> 0" by simp
  then have "{1..m} \<subseteq> {j \<in> {0..m}. p j \<noteq> 0}" by auto
  with matching_rowsD(5) [OF assms] have "inj_on p {1..m}" by (rule inj_on_subset)
  then have "card (p ` {1..m}) = m" by (simp add: card_image)
  moreover have "p ` {1..m} - {0} = p ` {1..m}" using nz by auto
  ultimately have "m = i - 1" using matching_rowsD(4) [OF assms] by (metis card_atLeastLessThan)
  then show False using matching_rowsD(1,2) [OF assms] by simp
qed

lemma matching_rows_row:
  assumes "matching_rows m i p" and "j \<in> {1..m}" and "p j \<noteq> 0"
  shows "p j \<in> {1..<i}"
proof -
  have "p j \<in> p ` {1..m} - {0}" using assms(2,3) by simp
  then show ?thesis by (simp only: matching_rowsD(4) [OF assms(1)])
qed

text \<open>
  Bounds on the potentials: with costs in \<open>[-B, 0]\<close> every column potential is
  in \<open>[-B, 0]\<close> and every matched row has potential at least \<open>-B\<close>, so no reduced
  cost of the scan exceeds \<open>2B\<close>.
\<close>

lemma column_potential_bound:
  assumes m: "matching_rows m i (column_row s)" and d: "dual_inv c m R s" and R: "{1..<i} \<subseteq> R"
    and b: "bounded_costs c n m B" and "i \<le> n" and j: "j \<in> {1..m}"
  shows "- B \<le> column_potential s j"
proof (cases "column_row s j = 0")
  case True
  have "i \<in> {1..n}" using m \<open>i \<le> n\<close> by (simp add: matching_rows_def)
  then have "- B \<le> c i j \<and> c i j \<le> 0" using b j by (simp add: bounded_costs_def)
  then have "- B \<le> 0" by linarith
  then show ?thesis using True d j by (simp add: dual_inv_def)
next
  case False
  let ?r = "column_row s j"
  have r: "?r \<in> {1..<i}" using matching_rows_row [OF m j False] .
  obtain f where f: "f \<in> {1..m}" "column_row s f = 0"
    using matching_rows_free_column [OF m] by blast
  have "row_potential s ?r + column_potential s f \<le> c ?r f"
    using d r R f(1) unfolding dual_inv_def by blast
  moreover have "column_potential s f = 0" using d f by (simp add: dual_inv_def)
  moreover have "c ?r f \<le> 0" "- B \<le> c ?r j"
    using b r f(1) j \<open>i \<le> n\<close> by (auto simp: bounded_costs_def)
  moreover have "row_potential s ?r + column_potential s j = c ?r j"
    using d False j by (simp add: dual_inv_def)
  ultimately show ?thesis by linarith
qed

lemma matched_row_potential_bound:
  assumes m: "matching_rows m i (column_row s)" and d: "dual_inv c m R s"
    and b: "bounded_costs c n m B" and "i \<le> n" and j: "j \<in> {1..m}" and nz: "column_row s j \<noteq> 0"
  shows "- B \<le> row_potential s (column_row s j)"
proof -
  have "column_row s j \<in> {1..<i}" using matching_rows_row [OF m j nz] .
  then have "- B \<le> c (column_row s j) j"
    using b j \<open>i \<le> n\<close> by (auto simp: bounded_costs_def)
  moreover have "row_potential s (column_row s j) + column_potential s j = c (column_row s j) j"
    "column_potential s j \<le> 0"
    using d j nz by (auto simp: dual_inv_def)
  ultimately show ?thesis by linarith
qed

text \<open>
  The step with its two loops resolved: \<open>d\<close> is the \<open>delta\<close> of the step and
  \<open>active s\<close> the columns that are used after it.
\<close>

definition active :: "search \<Rightarrow> nat set" where
  "active s = insert (column s) (Collect (used s))"

definition step_effect :: "int list list \<Rightarrow> nat \<Rightarrow> search \<Rightarrow> search \<Rightarrow> int \<Rightarrow> bool" where
  "step_effect costs m s t d \<longleftrightarrow>
     column_row t = column_row s \<and> Collect (used t) = active s \<and>
     column t \<in> {1..m} - active s \<and> minimum t (column t) = 0 \<and>
     (\<forall>k. row_potential t k =
        row_potential s k + (if k \<in> column_row s ` active s then d else 0)) \<and>
     (\<forall>j. column_potential t j = column_potential s j - (if j \<in> active s then d else 0)) \<and>
     (\<forall>j \<in> active s. previous t j = previous s j) \<and>
     (\<forall>j \<in> {1..m} - active s.
        minimum t j = min (minimum s j) (reduced_cost costs (column_row s (column s)) s j) - d \<and>
        d \<le> min (minimum s j) (reduced_cost costs (column_row s (column s)) s j) \<and>
        previous t j = (if reduced_cost costs (column_row s (column s)) s j < minimum s j
                        then column s else previous s j))"

text \<open>
  The step with its two loops resolved: \<open>d\<close> is the \<open>delta\<close> of the step and
  \<open>U\<close> the columns that are used after it.
\<close>

lemma search_step_effect:
  fixes costs m s
  defines "t \<equiv> search_step costs m s" and "r \<equiv> column_row s (column s)" and "U \<equiv> active s"
  assumes inj: "inj_on (column_row s) U" and U: "U \<subseteq> {0..m}"
    and f: "f \<in> {1..m}" "f \<notin> U" "reduced_cost costs r s f < i128_max"
  shows "\<exists>d. step_effect costs m s t d"
proof -
  define s1 where "s1 = s\<lparr>used := (used s)(column s := True), delta := i128_max, next_column := 0\<rparr>"
  define s2 where "s2 = fold (relax_column costs r) [1..<m + 1] s1"
  define s3 where "s3 = fold shift_column [0..<m + 1] s2"
  have t: "t = s3\<lparr>column := next_column s3\<rparr>"
    by (simp add: t_def search_step_def Let_def s1_def s2_def s3_def r_def)
  have s1: "row_potential s1 = row_potential s" "column_potential s1 = column_potential s"
    "column_row s1 = column_row s" "column s1 = column s" "minimum s1 = minimum s"
    "previous s1 = previous s" "delta s1 = i128_max"
    by (simp_all add: s1_def)
  have used1: "used s1 j \<longleftrightarrow> j \<in> U" for j by (auto simp: s1_def U_def active_def)
  have red1: "reduced_cost costs r s1 j = reduced_cost costs r s j" for j
    by (simp add: reduced_cost_def s1)
  have rel: "relaxed costs r m s1 s2" unfolding s2_def by (rule fold_relax_column)
  note rl = rel [unfolded relaxed_def]
  have s2: "row_potential s2 = row_potential s" "column_potential s2 = column_potential s"
    "column_row s2 = column_row s" "used s2 = used s1"
    "previous s2 j = (if j \<in> {1..m} \<and> \<not> used s1 j \<and> reduced_cost costs r s1 j < minimum s1 j
       then column s1 else previous s1 j)"
    "minimum s2 j = (if j \<in> {1..m} \<and> \<not> used s1 j
       then min (minimum s1 j) (reduced_cost costs r s1 j) else minimum s1 j)" for j
    using rl by (simp_all only: s1)
  have used2: "used s2 j \<longleftrightarrow> j \<in> U" for j by (simp only: s2 used1)
  have "inj_on (column_row s2) {j. j \<le> m \<and> used s2 j}"
    by (rule inj_on_subset [of _ U]) (auto simp: s2(3) inj used2)
  then have sh: "shifted {0..<m + 1} s2 s3"
    unfolding s3_def by (rule fold_shift_column) simp
  note st = sh [unfolded shifted_def]
  let ?d = "delta s2"
  have s3: "column_row s3 = column_row s2" "used s3 = used s2" "previous s3 = previous s2"
    "next_column s3 = next_column s2"
    "row_potential s3 k = row_potential s2 k
       + (if \<exists>j \<in> {0..<m + 1}. used s2 j \<and> column_row s2 j = k then ?d else 0)"
    "column_potential s3 j = column_potential s2 j - (if j \<in> {0..<m + 1} \<and> used s2 j then ?d else 0)"
    "minimum s3 j = minimum s2 j - (if j \<in> {0..<m + 1} \<and> \<not> used s2 j then ?d else 0)" for k j
    using st by blast+
  have min2: "minimum s2 j = min (minimum s j) (reduced_cost costs r s j)" if "j \<in> {1..m} - U" for j
    using that by (simp add: s2(6) used1 red1 s1)
  have delta_le: "?d \<le> minimum s2 j" if "j \<in> {1..m} - U" for j
  proof -
    have "\<forall>j \<in> {1..m}. \<not> used s1 j \<longrightarrow> delta s2 \<le> minimum s2 j" using rl by blast
    then show ?thesis using that used1 by blast
  qed
  have "?d < delta s1"
    using delta_le [of f] min2 [of f] f by (auto simp: s1)
  then have "next_column s2 \<in> {1..m} \<and> \<not> used s1 (next_column s2) \<and> minimum s2 (next_column s2) = ?d"
    using rl by blast
  then have nxt: "next_column s2 \<in> {1..m}" "next_column s2 \<notin> U" "minimum s2 (next_column s2) = ?d"
    using used1 by blast+
  have in_range: "j \<in> U \<Longrightarrow> j < m + 1" for j using U by auto
  have "step_effect costs m s t ?d"
    unfolding step_effect_def U_def [symmetric] r_def [symmetric]
  proof (intro conjI allI ballI)
    show "column_row t = column_row s" by (simp add: t s3 s2)
    show "Collect (used t) = U" by (auto simp: t s3 used2)
    show "column t \<in> {1..m} - U" using nxt by (simp add: t s3)
    show "minimum t (column t) = 0" using nxt by (simp add: t s3 used2)
    show "row_potential t k = row_potential s k + (if k \<in> column_row s ` U then ?d else 0)" for k
    proof -
      have "(\<exists>j \<in> {0..<m + 1}. used s2 j \<and> column_row s2 j = k) \<longleftrightarrow> k \<in> column_row s ` U"
        using in_range by (auto simp: used2 s2(3))
      then show ?thesis by (simp add: t s3 s2(1))
    qed
    show "column_potential t j = column_potential s j - (if j \<in> U then ?d else 0)" for j
      using in_range [of j] by (simp add: t s3 used2 s2(2))
    show "previous t j = previous s j" if "j \<in> U" for j
      using that by (simp add: t s3 s2(5) used1 s1)
    fix j assume j: "j \<in> {1..m} - U"
    show "minimum t j = min (minimum s j) (reduced_cost costs r s j) - ?d"
      using j min2 [OF j] by (simp add: t s3 used2)
    show "?d \<le> min (minimum s j) (reduced_cost costs r s j)"
      using delta_le [OF j] min2 [OF j] by simp
    show "previous t j = (if reduced_cost costs r s j < minimum s j then column s else previous s j)"
      using j by (simp add: t s3 s2(5) used1 red1 s1)
  qed
  then show ?thesis ..
qed

section \<open>One search step keeps the invariant\<close>

lemma search_invD:
  assumes "search_inv c m i s"
  shows "matching_rows m i (column_row s)" "Collect (used s) \<subseteq> {0..m}" "column s \<le> m"
    "\<not> used s (column s)" "Collect (used s) = {} \<Longrightarrow> column s = 0"
    "Collect (used s) \<noteq> {} \<Longrightarrow> used s 0"
    "\<And>j. used s j \<Longrightarrow> column_row s j \<noteq> 0"
    "dual_inv c m (covered i s) s"
    "\<And>r. r > i \<Longrightarrow> row_potential s r = 0"
    "Collect (used s) = {} \<Longrightarrow> row_potential s i = 0"
    "tree_inv c s" "minimum_inv c m s"
  using assms unfolding search_inv_def by blast+

lemma minimum_invD:
  assumes "minimum_inv c m s" and "j \<in> {1..m}" and "\<not> used s j"
  shows "Collect (used s) = {} \<Longrightarrow> minimum s j = i128_max"
    "used s k \<Longrightarrow> 0 \<le> minimum s j"
    "used s k \<Longrightarrow> used s (previous s j)"
    "used s k \<Longrightarrow> minimum s j = c (column_row s (previous s j)) j
       - row_potential s (column_row s (previous s j)) - column_potential s j"
    "used s k \<Longrightarrow> minimum s j \<le> c (column_row s k) j
       - row_potential s (column_row s k) - column_potential s j"
  using assms unfolding minimum_inv_def by blast+

lemma dual_invD:
  assumes "dual_inv c m R s" and "j \<in> {1..m}"
  shows "r \<in> R \<Longrightarrow> row_potential s r + column_potential s j \<le> c r j"
    "column_row s j \<noteq> 0 \<Longrightarrow>
       row_potential s (column_row s j) + column_potential s j = c (column_row s j) j"
    "column_potential s j \<le> 0" "column_row s j = 0 \<Longrightarrow> column_potential s j = 0"
  using assms unfolding dual_inv_def by auto

lemma covered_below: "{1..<i} \<subseteq> covered i s"
  by (auto simp: covered_def)

definition costs_of :: "int list list \<Rightarrow> nat \<Rightarrow> nat \<Rightarrow> int" where
  "costs_of costs r j = costs ! (r - 1) ! (j - 1)"

lemma reduced_cost_eq:
  "reduced_cost costs r s j = costs_of costs r j - row_potential s r - column_potential s j"
  by (simp add: reduced_cost_def costs_of_def)

lemma reduced_cost_bound:
  assumes inv: "search_inv (costs_of costs) m i s" and nz: "column_row s (column s) \<noteq> 0"
    and b: "bounded_costs (costs_of costs) n m B" and "i \<le> n" and j: "j \<in> {1..m}"
  shows "reduced_cost costs (column_row s (column s)) s j < i128_max"
proof -
  note I = search_invD [OF inv]
  let ?r = "column_row s (column s)"
  have i: "i \<in> {1..n}" using matching_rowsD(1) [OF I(1)] \<open>i \<le> n\<close> by simp
  have r: "?r \<in> {1..n} \<and> - B \<le> row_potential s ?r"
  proof (cases "column s = 0")
    case True
    then have "?r = i" using matching_rowsD(3) [OF I(1)] by simp
    moreover have "Collect (used s) = {}" using I(4,6) True by metis
    moreover have "- B \<le> costs_of costs i j \<and> costs_of costs i j \<le> 0"
      using b i j by (simp add: bounded_costs_def)
    ultimately show ?thesis using I(10) i by auto
  next
    case False
    then have c: "column s \<in> {1..m}" using I(3) by auto
    show ?thesis
      using matching_rows_row [OF I(1) c nz] matched_row_potential_bound [OF I(1,8) b \<open>i \<le> n\<close> c nz]
        i by auto
  qed
  moreover have "- B \<le> column_potential s j"
    by (rule column_potential_bound [OF I(1,8) covered_below b \<open>i \<le> n\<close> j])
  moreover have "costs_of costs ?r j \<le> 0" "2 * B < i128_max"
    using b r j by (simp_all add: bounded_costs_def)
  ultimately show ?thesis unfolding reduced_cost_eq by linarith
qed

lemma step_effectD:
  assumes "step_effect costs m s t d"
  shows "column_row t = column_row s" "Collect (used t) = active s"
    "column t \<in> {1..m} - active s" "minimum t (column t) = 0"
    "row_potential t k = row_potential s k + (if k \<in> column_row s ` active s then d else 0)"
    "column_potential t j = column_potential s j - (if j \<in> active s then d else 0)"
    "j \<in> active s \<Longrightarrow> previous t j = previous s j"
    "j \<in> {1..m} - active s \<Longrightarrow>
       minimum t j = min (minimum s j) (reduced_cost costs (column_row s (column s)) s j) - d"
    "j \<in> {1..m} - active s \<Longrightarrow>
       d \<le> min (minimum s j) (reduced_cost costs (column_row s (column s)) s j)"
    "j \<in> {1..m} - active s \<Longrightarrow>
       previous t j = (if reduced_cost costs (column_row s (column s)) s j < minimum s j
         then column s else previous s j)"
  using assms unfolding step_effect_def by blast+

lemma active_facts:
  assumes inv: "search_inv c m i s" and nz: "column_row s (column s) \<noteq> 0"
  shows "active s \<subseteq> {0..m}" "\<And>j. j \<in> active s \<Longrightarrow> column_row s j \<noteq> 0" "0 \<in> active s"
    "inj_on (column_row s) (active s)"
    "j \<in> {0..m} \<Longrightarrow> column_row s j \<noteq> 0 \<Longrightarrow>
       column_row s j \<in> column_row s ` active s \<longleftrightarrow> j \<in> active s"
    "Collect (used s) = {} \<Longrightarrow> active s = {0}"
    "Collect (used s) \<noteq> {} \<Longrightarrow> column s \<in> {1..m}"
proof -
  note I = search_invD [OF inv]
  show sub: "active s \<subseteq> {0..m}" using I(2,3) by (auto simp: active_def)
  show anz: "\<And>j. j \<in> active s \<Longrightarrow> column_row s j \<noteq> 0" using I(7) nz by (auto simp: active_def)
  have pinj: "inj_on (column_row s) {j \<in> {0..m}. column_row s j \<noteq> 0}"
    using matching_rowsD(5) [OF I(1)] .
  show "0 \<in> active s" using I(5,6) by (auto simp: active_def)
  have subset: "active s \<subseteq> {j \<in> {0..m}. column_row s j \<noteq> 0}" using sub anz by auto
  show "inj_on (column_row s) (active s)" by (rule inj_on_subset [OF pinj subset])
  show "column_row s j \<in> column_row s ` active s \<longleftrightarrow> j \<in> active s"
    if "j \<in> {0..m}" "column_row s j \<noteq> 0"
    using inj_on_image_mem_iff [OF pinj _ subset, of j] that by simp
  show "Collect (used s) = {} \<Longrightarrow> active s = {0}" using I(5) by (auto simp: active_def)
  show "column s \<in> {1..m}" if "Collect (used s) \<noteq> {}"
    using I(3,4) I(6) [OF that] by (cases "column s") auto
qed

lemma step_delta_nonneg:
  assumes inv: "search_inv (costs_of costs) m i s" and nz: "column_row s (column s) \<noteq> 0"
    and e: "step_effect costs m s t d" and "Collect (used s) \<noteq> {}"
  shows "0 \<le> d"
proof -
  note I = search_invD [OF inv] and E = step_effectD [OF e] and A = active_facts [OF inv nz]
  let ?r = "column_row s (column s)" and ?j = "column t"
  have j: "?j \<in> {1..m}" "\<not> used s ?j" using E(3) by (auto simp: active_def)
  from assms(4) obtain k where k: "used s k" by blast
  have "?r \<in> covered i s"
    using matching_rows_row [OF I(1) A(7) nz] assms(4) covered_below [of i s] by blast
  then have "0 \<le> reduced_cost costs ?r s ?j"
    using dual_invD(1) [OF I(8) j(1), of ?r] by (simp add: reduced_cost_eq)
  moreover have "0 \<le> minimum s ?j" using minimum_invD(2) [OF I(12) j k] .
  moreover have "d = min (minimum s ?j) (reduced_cost costs ?r s ?j)"
    using E(8) [OF E(3)] E(4) by simp
  ultimately show ?thesis by simp
qed

lemma step_slack:
  assumes inv: "search_inv (costs_of costs) m i s"
    and e: "step_effect costs m s t d" and j: "j \<in> {1..m} - active s" and k: "k \<in> active s"
  shows "min (minimum s j) (reduced_cost costs (column_row s (column s)) s j)
    \<le> reduced_cost costs (column_row s k) s j"
proof (cases "k = column s")
  case False
  then have "used s k" "\<not> used s j" "j \<in> {1..m}" using j k by (auto simp: active_def)
  then show ?thesis
    using minimum_invD(5) [OF search_invD(12) [OF inv], of j k] by (simp add: reduced_cost_eq)
qed simp

lemma step_dual_inv:
  assumes inv: "search_inv (costs_of costs) m i s" and nz: "column_row s (column s) \<noteq> 0"
    and e: "step_effect costs m s t d"
  shows "dual_inv (costs_of costs) m {1..i} t"
proof -
  note I = search_invD [OF inv] and E = step_effectD [OF e] and A = active_facts [OF inv nz]
  note D = dual_invD [OF I(8)] and dn = step_delta_nonneg [OF inv nz e]
  let ?p = "column_row s" and ?U = "active s"
  have nonempty: "Collect (used s) \<noteq> {}" if "j \<in> ?U" "j \<in> {1..m}" for j
    using that A(6) by force
  have feasible: "row_potential t r + column_potential t j \<le> costs_of costs r j"
    if r: "r \<in> {1..i}" and j: "j \<in> {1..m}" for r j
  proof (cases "r \<in> ?p ` ?U")
    case True
    then obtain k where k: "k \<in> ?U" "r = ?p k" by blast
    show ?thesis
    proof (cases "j \<in> ?U")
      case True
      then have "covered i s = {1..i}" using nonempty [OF True j] unfolding covered_def by metis
      then show ?thesis using D(1) [OF j, of r] r \<open>r \<in> ?p ` ?U\<close> True by (simp add: E(5,6))
    next
      case False
      then have jU: "j \<in> {1..m} - ?U" using j by simp
      then have "d \<le> reduced_cost costs (?p k) s j"
        using E(9) [OF jU] step_slack [OF inv e jU k(1)] by linarith
      then show ?thesis using \<open>r \<in> ?p ` ?U\<close> False k(2) by (simp add: E(5,6) reduced_cost_eq)
    qed
  next
    case False
    have "r \<noteq> i" using False A(3) matching_rowsD(3) [OF I(1)] by force
    then have "r \<in> covered i s" using r covered_below [of i s] by auto
    then show ?thesis
      using D(1) [OF j, of r] dn nonempty [OF _ j] False by (auto simp: E(5,6))
  qed
  have tight: "row_potential t (?p j) + column_potential t j = costs_of costs (?p j) j"
    if "j \<in> {1..m}" "?p j \<noteq> 0" for j
    using D(2) [OF that] A(5) [of j] that by (simp add: E(5,6))
  have sign: "column_potential t j \<le> 0 \<and> (?p j = 0 \<longrightarrow> column_potential t j = 0)"
    if j: "j \<in> {1..m}" for j
    using D(3,4) [OF j] dn nonempty [OF _ j] A(2) [of j] by (auto simp: E(6))
  show ?thesis unfolding dual_inv_def using feasible tight sign by (simp add: E(1))
qed

lemma step_minimum_inv:
  assumes inv: "search_inv (costs_of costs) m i s" and nz: "column_row s (column s) \<noteq> 0"
    and b: "bounded_costs (costs_of costs) n m B" and "i \<le> n"
    and e: "step_effect costs m s t d"
  shows "minimum_inv (costs_of costs) m t"
proof -
  note I = search_invD [OF inv] and E = step_effectD [OF e] and A = active_facts [OF inv nz]
  note red = reduced_cost_bound [OF inv nz b \<open>i \<le> n\<close>]
  let ?c = "costs_of costs" and ?p = "column_row s" and ?r = "column_row s (column s)"
  have used: "used t j \<longleftrightarrow> j \<in> active s" for j using E(2) by blast
  have ne: "Collect (used t) \<noteq> {}" using E(2) A(3) by blast
  have slack_t: "?c (?p k) j - row_potential t (?p k) - column_potential t j
      = reduced_cost costs (?p k) s j - d" if "j \<notin> active s" "k \<in> active s" for j k
    using that by (simp add: E(5,6) reduced_cost_eq)
  have prev: "previous t j \<in> active s \<and>
      reduced_cost costs (?p (previous t j)) s j = min (minimum s j) (reduced_cost costs ?r s j)"
    if j: "j \<in> {1..m} - active s" for j
  proof (cases "reduced_cost costs ?r s j < minimum s j")
    case True
    then show ?thesis using E(10) [OF j] by (simp add: active_def)
  next
    case False
    have ju: "j \<in> {1..m}" "\<not> used s j" using j by (auto simp: active_def)
    have "Collect (used s) \<noteq> {}"
      using minimum_invD(1) [OF I(12) ju] red [OF ju(1)] False by force
    then obtain k where k: "used s k" by blast
    have "used s (previous s j)" using minimum_invD(3) [OF I(12) ju k] .
    then show ?thesis
      using minimum_invD(4) [OF I(12) ju k] False E(10) [OF j]
      by (simp add: active_def reduced_cost_eq min_def)
  qed
  show ?thesis
    unfolding minimum_inv_def
  proof (intro ballI impI conjI allI)
    fix j assume "j \<in> {1..m}" "\<not> used t j"
    then have j: "j \<in> {1..m} - active s" using used by blast
    then have jn: "j \<notin> active s" by simp
    show "Collect (used t) = {} \<Longrightarrow> minimum t j = i128_max" using ne by blast
    show "0 \<le> minimum t j" using E(8,9) [OF j] by simp
    show "used t (previous t j)" using prev [OF j] used by blast
    show "minimum t j = ?c (column_row t (previous t j)) j
        - row_potential t (column_row t (previous t j)) - column_potential t j"
      using prev [OF j] slack_t [OF jn, of "previous t j"] E(8) [OF j] by (simp add: E(1))
    fix k assume "used t k"
    then have k: "k \<in> active s" using used by blast
    show "minimum t j \<le> ?c (column_row t k) j - row_potential t (column_row t k)
        - column_potential t j"
      using slack_t [OF jn k] step_slack [OF inv e j k] E(8) [OF j] by (simp add: E(1))
  qed
qed

lemma step_tree_inv:
  assumes inv: "search_inv (costs_of costs) m i s" and nz: "column_row s (column s) \<noteq> 0"
    and e: "step_effect costs m s t d" and mn: "minimum_inv (costs_of costs) m t"
  shows "tree_inv (costs_of costs) t"
proof -
  note I = search_invD [OF inv] and E = step_effectD [OF e] and A = active_facts [OF inv nz]
  note T = I(11) [unfolded tree_inv_def active_def [symmetric]]
  let ?c = "costs_of costs" and ?p = "column_row s"
  have used: "used t j \<longleftrightarrow> j \<in> active s" for j using E(2) by blast
  have act: "insert (column t) (Collect (used t)) = insert (column t) (active s)" by (simp add: E(2))
  have edge: "used t (previous t k) \<and>
      row_potential t (?p (previous t k)) + column_potential t k = ?c (?p (previous t k)) k"
    if k: "k \<in> active s - {0}" for k
  proof -
    have p: "used s (previous s k)"
      "row_potential s (?p (previous s k)) + column_potential s k = ?c (?p (previous s k)) k"
      using T k by blast+
    then have "previous s k \<in> active s" by (simp add: active_def)
    then show ?thesis using k p(2) E(7) [of k] by (simp add: used E(5,6))
  qed
  have cur: "column t \<in> {1..m}" "\<not> used t (column t)" "used t 0" using E(3) used A(3) by auto
  have new_edge: "used t (previous t (column t)) \<and>
      row_potential t (?p (previous t (column t))) + column_potential t (column t)
        = ?c (?p (previous t (column t))) (column t)"
    using minimum_invD(3,4) [OF mn cur] E(4) by (simp add: E(1))
  obtain rank N where rank: "\<And>k. k \<in> active s \<Longrightarrow> rank k \<le> (N::nat)"
    "\<And>k. k \<in> active s - {0} \<Longrightarrow> rank (previous s k) < rank k"
    using T by blast
  let ?rank = "rank(column t := Suc N)"
  have fresh: "column t \<notin> active s" using E(3) by simp
  have "\<forall>k \<in> insert (column t) (active s). ?rank k \<le> Suc N" using rank(1) by (auto intro: le_SucI)
  moreover have "?rank (previous t k) < ?rank k" if k: "k \<in> insert (column t) (active s) - {0}" for k
  proof (cases "k = column t")
    case True
    then show ?thesis using new_edge rank(1) fresh used by (auto simp: less_Suc_eq_le)
  next
    case False
    then have k': "k \<in> active s - {0}" using k by simp
    then have "previous t k \<in> active s" using edge used by blast
    then show ?thesis using False k' fresh rank(2) [OF k'] E(7) [of k] by auto
  qed
  ultimately have "\<exists>rank N. (\<forall>k \<in> insert (column t) (active s). rank k \<le> (N::nat)) \<and>
      (\<forall>k \<in> insert (column t) (active s) - {0}. rank (previous t k) < rank k)" by blast
  then show ?thesis unfolding tree_inv_def act using edge new_edge by (auto simp: E(1))
qed

lemma search_step_inv:
  assumes inv: "search_inv (costs_of costs) m i s" and nz: "column_row s (column s) \<noteq> 0"
    and b: "bounded_costs (costs_of costs) n m B" and "i \<le> n"
  shows "search_inv (costs_of costs) m i (search_step costs m s) \<and>
    column_row (search_step costs m s) = column_row s \<and>
    Collect (used (search_step costs m s)) = active s"
proof -
  note I = search_invD [OF inv] and A = active_facts [OF inv nz]
  let ?t = "search_step costs m s"
  obtain f where f: "f \<in> {1..m}" "column_row s f = 0"
    using matching_rows_free_column [OF I(1)] by blast
  then have "f \<notin> active s" using A(2) by metis
  then obtain d where e: "step_effect costs m s ?t d"
    using search_step_effect [OF A(4,1) f(1) _ reduced_cost_bound [OF inv nz b \<open>i \<le> n\<close> f(1)]] by blast
  note E = step_effectD [OF e]
  have mn: "minimum_inv (costs_of costs) m ?t" by (rule step_minimum_inv [OF inv nz b \<open>i \<le> n\<close> e])
  have used: "used ?t j \<longleftrightarrow> j \<in> active s" for j using E(2) by blast
  have ne: "Collect (used ?t) \<noteq> {}" using E(2) A(3) by blast
  have cov: "covered i ?t = {1..i}" using ne unfolding covered_def by metis
  have rows: "k \<notin> column_row s ` active s" if "k > i" for k
  proof
    assume "k \<in> column_row s ` active s"
    then obtain j where j: "j \<in> active s" "k = column_row s j" by blast
    then have "j \<in> {0..m}" "column_row s j \<noteq> 0" using A(1,2) by blast+
    then have "column_row s j \<le> i"
      using matching_rows_row [OF I(1), of j] matching_rowsD(3) [OF I(1)] by (cases "j = 0") auto
    then show False using j that by simp
  qed
  have "search_inv (costs_of costs) m i ?t"
    unfolding search_inv_def cov
  proof (intro conjI allI impI)
    show "matching_rows m i (column_row ?t)" using I(1) by (simp only: E(1))
    show "Collect (used ?t) \<subseteq> {0..m}" using A(1) by (simp only: E(2))
    show "column ?t \<le> m" "\<not> used ?t (column ?t)" "used ?t 0" using E(3) A(3) used by auto
    show "column ?t = 0" if "Collect (used ?t) = {}" using that ne by blast
    show "row_potential ?t i = 0" if "Collect (used ?t) = {}" using that ne by blast
    show "column_row ?t j \<noteq> 0" if "used ?t j" for j using that A(2) used by (simp add: E(1))
    show "row_potential ?t r = 0" if "i < r" for r using I(9) [OF that] rows [OF that] by (simp add: E(5))
    show "dual_inv (costs_of costs) m {1..i} ?t" by (rule step_dual_inv [OF inv nz e])
    show "tree_inv (costs_of costs) ?t" by (rule step_tree_inv [OF inv nz e mn])
    show "minimum_inv (costs_of costs) m ?t" by (rule mn)
  qed
  then show ?thesis using E(1,2) by blast
qed

section \<open>The search ends at a free column\<close>

lemma search_loop_total:
  assumes "search_inv (costs_of costs) m i s" and "column_row s (column s) \<noteq> 0"
    and b: "bounded_costs (costs_of costs) n m B" and "i \<le> n"
    and "m + 1 \<le> fuel + card (Collect (used s))"
  shows "\<exists>t. search_loop costs m fuel s = Some t \<and> search_inv (costs_of costs) m i t \<and>
    column_row t = column_row s \<and> column_row t (column t) = 0"
  using assms(1,2,5)
proof (induction fuel arbitrary: s)
  case 0
  note I = search_invD [OF "0.prems"(1)]
  have "Collect (used s) \<subseteq> {0..m} - {column s}" using I(2,4) by auto
  then have "card (Collect (used s)) \<le> card ({0..m} - {column s})" by (intro card_mono) auto
  then have "card (Collect (used s)) \<le> m" using I(3) by simp
  then show ?case using "0.prems"(3) by simp
next
  case (Suc fuel)
  let ?t = "search_step costs m s"
  have t: "search_inv (costs_of costs) m i ?t" "column_row ?t = column_row s"
    "Collect (used ?t) = active s"
    using search_step_inv [OF Suc.prems(1,2) b \<open>i \<le> n\<close>] by blast+
  have I: "Collect (used s) \<subseteq> {0..m}" "column s \<notin> Collect (used s)"
    using search_invD(2,4) [OF Suc.prems(1)] by auto
  have "card (active s) = Suc (card (Collect (used s)))"
    using finite_subset [OF I(1)] I(2) by (simp add: active_def)
  then have fuel: "m + 1 \<le> fuel + card (Collect (used ?t))" using Suc.prems(3) t(3) by simp
  show ?case
  proof (cases "column_row ?t (column ?t) = 0")
    case True
    then show ?thesis using t by (simp add: Let_def)
  next
    case False
    with Suc.IH [OF t(1) False fuel] show ?thesis by (simp add: Let_def t(2))
  qed
qed

section \<open>Augmenting along the search tree\<close>

definition hole_inv :: "(nat \<Rightarrow> nat \<Rightarrow> int) \<Rightarrow> nat \<Rightarrow> nat \<Rightarrow> search \<Rightarrow> search \<Rightarrow> bool" where
  "hole_inv c m i s a \<longleftrightarrow>
     row_potential a = row_potential s \<and> column_potential a = column_potential s \<and>
     previous a = previous s \<and>
     inj_on (column_row a) {j \<in> {0..m} - {column a}. column_row a j \<noteq> 0} \<and>
     column_row a ` ({0..m} - {column a}) - {0} = {1..i} \<and>
     (\<forall>j \<in> {1..m} - {column a}. column_row a j \<noteq> 0 \<longrightarrow>
        row_potential a (column_row a j) + column_potential a j = c (column_row a j) j) \<and>
     (\<forall>j \<in> {1..m} - {column a}. column_row a j = 0 \<longrightarrow> column_potential a j = 0)"

lemma hole_inv_step:
  assumes h: "hole_inv c m i s a" and col: "column a \<in> {1..m}"
    and prior: "prior \<in> {0..m}" "prior \<noteq> column a" "column_row a prior \<noteq> 0"
    and edge: "row_potential a (column_row a prior) + column_potential a (column a)
      = c (column_row a prior) (column a)"
  shows "hole_inv c m i s
    (a\<lparr>column_row := (column_row a)(column a := column_row a prior), column := prior\<rparr>)"
proof -
  note H = h [unfolded hole_inv_def]
  let ?q = "column_row a" and ?k = "column a"
  let ?q' = "?q(?k := ?q prior)"
  have img: "?q' ` ({0..m} - {prior}) = ?q ` ({0..m} - {?k})"
    using prior col by (auto simp: image_iff)
  have inj: "inj_on ?q' {j \<in> {0..m} - {prior}. ?q' j \<noteq> 0}"
  proof (rule inj_onI)
    have i0: "inj_on ?q {j \<in> {0..m} - {?k}. ?q j \<noteq> 0}" using H by blast
    fix x y
    assume x: "x \<in> {j \<in> {0..m} - {prior}. ?q' j \<noteq> 0}"
      and y: "y \<in> {j \<in> {0..m} - {prior}. ?q' j \<noteq> 0}" and eq: "?q' x = ?q' y"
    have old: "?q z \<noteq> ?q prior" if "z \<in> {j \<in> {0..m} - {prior}. ?q' j \<noteq> 0}" "z \<noteq> ?k" for z
      using inj_onD [OF i0, of z prior] that prior by auto
    show "x = y"
    proof (cases "x = ?k \<or> y = ?k")
      case True
      then show ?thesis using old [OF x] old [OF y] eq by (auto split: if_splits)
    next
      case False
      then show ?thesis using inj_onD [OF i0, of x y] x y eq by auto
    qed
  qed
  show ?thesis
    unfolding hole_inv_def
    using H img inj edge prior col by (auto simp: Ball_def)
qed

lemma augment_loop_total:
  fixes rank :: "nat \<Rightarrow> nat"
  assumes V: "V \<subseteq> {0..m}" and anz: "\<And>k. k \<in> V - {0} \<Longrightarrow> previous s k \<in> V"
    and nz: "\<And>k. k \<in> V - {0} \<Longrightarrow> p (previous s k) \<noteq> 0"
    and edge: "\<And>k. k \<in> V - {0} \<Longrightarrow>
      row_potential s (p (previous s k)) + column_potential s k = c (p (previous s k)) k"
    and rank: "\<And>k. k \<in> V - {0} \<Longrightarrow> rank (previous s k) < rank k"
    and h: "hole_inv c m i s a" and col: "column a \<in> V - {0}"
    and same: "\<And>k. k \<in> V \<Longrightarrow> rank k < rank (column a) \<Longrightarrow> column_row a k = p k"
    and fuel: "card {k \<in> V. rank k < rank (column a)} < Suc fuel"
  shows "\<exists>t. augment_loop fuel a = Some t \<and> hole_inv c m i s t \<and> column t = 0"
  using h col same fuel
proof (induction fuel arbitrary: a)
  case 0
  let ?k = "column a"
  have "previous s ?k \<in> {k \<in> V. rank k < rank ?k}" using "0.prems"(2) anz rank by blast
  moreover have "finite {k \<in> V. rank k < rank ?k}" using finite_subset [OF V] by simp
  ultimately show ?case using "0.prems"(4) by (metis card_gt_0_iff empty_iff less_Suc0 not_less_zero)
next
  case (Suc fuel)
  let ?k = "column a" and ?prior = "previous a (column a)"
  have prev: "previous a = previous s" "row_potential a = row_potential s"
    "column_potential a = column_potential s"
    using Suc.prems(1) unfolding hole_inv_def by blast+
  have prior: "?prior \<in> V" "rank ?prior < rank ?k" using anz [OF Suc.prems(2)] rank [OF Suc.prems(2)] by (simp_all add: prev)
  have p: "column_row a ?prior = p ?prior" using Suc.prems(3) prior by blast
  let ?a = "a\<lparr>column_row := (column_row a)(?k := column_row a ?prior), column := ?prior\<rparr>"
  have h': "hole_inv c m i s ?a"
  proof (rule hole_inv_step [OF Suc.prems(1)])
    show "?k \<in> {1..m}" using Suc.prems(2) V by (auto simp: Suc_le_eq)
    show "?prior \<in> {0..m}" using prior V by blast
    show "?prior \<noteq> ?k" using prior(2) by auto
    show "column_row a ?prior \<noteq> 0" using nz [OF Suc.prems(2)] p by (simp add: prev)
    show "row_potential a (column_row a ?prior) + column_potential a ?k = c (column_row a ?prior) ?k"
      using edge [OF Suc.prems(2)] p by (simp add: prev)
  qed
  show ?case
  proof (cases "?prior = 0")
    case True
    then show ?thesis using h' by (auto simp: Let_def)
  next
    case False
    have fin: "finite {k \<in> V. rank k < rank ?k}" using finite_subset [OF V] by simp
    have "{k \<in> V. rank k < rank ?prior} \<subset> {k \<in> V. rank k < rank ?k}" using prior by auto
    then have "card {k \<in> V. rank k < rank ?prior} < card {k \<in> V. rank k < rank ?k}"
      by (rule psubset_card_mono [OF fin])
    then have "\<exists>t. augment_loop fuel ?a = Some t \<and> hole_inv c m i s t \<and> column t = 0"
      using Suc.prems(3,4) prior False by (intro Suc.IH [OF h']) auto
    then show ?thesis using False by (simp add: Let_def)
  qed
qed

section \<open>One row, all rows\<close>

definition phase_inv :: "(nat \<Rightarrow> nat \<Rightarrow> int) \<Rightarrow> nat \<Rightarrow> nat \<Rightarrow> search \<Rightarrow> bool" where
  "phase_inv c m i s \<longleftrightarrow>
     dual_inv c m {1..i} s \<and> column_row s ` {1..m} - {0} = {1..i} \<and>
     inj_on (column_row s) {j \<in> {1..m}. column_row s j \<noteq> 0} \<and>
     (\<forall>r > i. row_potential s r = 0)"

lemma start_row_inv:
  assumes "phase_inv c m (i - 1) s" and "1 \<le> i" and "i \<le> m"
  shows "search_inv c m i (start_row i s)"
proof -
  note P = assms(1) [unfolded phase_inv_def]
  let ?t = "start_row i s"
  have f: "row_potential ?t = row_potential s" "column_potential ?t = column_potential s"
    "column_row ?t = (column_row s)(0 := i)" "column ?t = 0" "used ?t = (\<lambda>_. False)"
    "minimum ?t = (\<lambda>_. i128_max)"
    by (simp_all add: start_row_def)
  have on: "column_row ?t j = column_row s j" if "j \<in> {1..m}" for j using that by (simp add: f)
  have img: "column_row ?t ` {1..m} - {0} = {1..<i}"
  proof -
    have "column_row ?t ` {1..m} = column_row s ` {1..m}" by (rule image_cong [OF refl on])
    moreover have "column_row s ` {1..m} - {0} = {1..i - 1}" using P by blast
    moreover have "{1..i - 1} = {1..<i}" using assms(2) by auto
    ultimately show ?thesis by metis
  qed
  have "inj_on (column_row ?t) {j \<in> {0..m}. column_row ?t j \<noteq> 0}"
  proof (rule inj_onI)
    fix x y
    assume x: "x \<in> {j \<in> {0..m}. column_row ?t j \<noteq> 0}" and y: "y \<in> {j \<in> {0..m}. column_row ?t j \<noteq> 0}"
      and eq: "column_row ?t x = column_row ?t y"
    have not_i: "column_row ?t z \<noteq> i" if "z \<in> {1..m}" for z
    proof
      assume "column_row ?t z = i"
      then have "i \<in> column_row ?t ` {1..m} - {0}"
        using imageI [OF that, of "column_row ?t"] assms(2) by simp
      then show False unfolding img by simp
    qed
    have inj: "inj_on (column_row s) {j \<in> {1..m}. column_row s j \<noteq> 0}" using P by blast
    show "x = y"
    proof (cases "x = 0 \<or> y = 0")
      case True
      then show ?thesis using not_i [of x] not_i [of y] x y eq by (auto simp: f split: if_splits)
    next
      case False
      then show ?thesis using inj_onD [OF inj, of x y] x y eq by (auto simp: f)
    qed
  qed
  then have "matching_rows m i (column_row ?t)"
    unfolding matching_rows_def using assms(2,3) img by (simp add: f)
  moreover have "dual_inv c m (covered i ?t) ?t"
  proof -
    have "covered i ?t = {1..i - 1}" using assms(2) by (auto simp: covered_def f)
    then show ?thesis using P by (auto simp: dual_inv_def f)
  qed
  moreover have "row_potential ?t r = 0" if "r \<ge> i" for r using P that assms(2) by (simp add: f)
  ultimately show ?thesis
    unfolding search_inv_def by (auto simp: f tree_inv_def minimum_inv_def)
qed

lemma search_inv_hole:
  assumes inv: "search_inv c m i s" and "column_row s (column s) = 0"
    and ne: "Collect (used s) \<noteq> {}"
  shows "hole_inv c m i s s"
proof -
  note I = search_invD [OF inv] and M = matching_rowsD [OF search_invD(1) [OF inv]]
  have drop: "{j \<in> {0..m} - {column s}. column_row s j \<noteq> 0} = {j \<in> {0..m}. column_row s j \<noteq> 0}"
    using assms(2) by auto
  have "column_row s ` ({0..m} - {column s}) - {0} = column_row s ` {0..m} - {0}"
    using assms(2) by auto
  moreover have "column_row s ` {0..m} - {0} = insert i (column_row s ` {1..m} - {0})"
  proof -
    have "{0..m} = insert 0 {1..m}" by auto
    then show ?thesis using M(1,3) by auto
  qed
  moreover have "insert i {1..<i} = {1..i}" using M(1) by auto
  ultimately have "column_row s ` ({0..m} - {column s}) - {0} = {1..i}" using M(4) by metis
  then show ?thesis
    unfolding hole_inv_def drop using M(5) dual_invD(2,4) [OF I(8)] by simp
qed

lemma hole_inv_phase:
  assumes h: "hole_inv c m i s a" and "column a = 0" and d: "dual_inv c m {1..i} s"
    and "\<And>r. r > i \<Longrightarrow> row_potential s r = 0"
  shows "phase_inv c m i a"
proof -
  have e: "{0..m} - {0} = {1..m}" "{1..m} - {0} = {1..m}" by auto
  note H = h [unfolded hole_inv_def \<open>column a = 0\<close> e]
  have "dual_inv c m {1..i} a"
    using H dual_invD(1,3) [OF d] unfolding dual_inv_def by metis
  then show ?thesis unfolding phase_inv_def using H assms(4) by metis
qed

lemma insert_row_phase:
  assumes "phase_inv (costs_of costs) m (i - 1) s" and "1 \<le> i" and "i \<le> m" and "i \<le> n"
    and b: "bounded_costs (costs_of costs) n m B"
  shows "\<exists>t. insert_row costs m i s = Some t \<and> phase_inv (costs_of costs) m i t"
proof -
  let ?c = "costs_of costs" and ?s = "start_row i s"
  have start: "search_inv ?c m i ?s" by (rule start_row_inv [OF assms(1-3)])
  have "column_row ?s (column ?s) \<noteq> 0" using assms(2) by (simp add: start_row_def)
  from search_loop_total [OF start this b \<open>i \<le> n\<close>, of "m + 1"] obtain t where
    t: "search_loop costs m (m + 1) ?s = Some t" "search_inv ?c m i t" "column_row t (column t) = 0"
    by auto
  note I = search_invD [OF t(2)] and T = search_invD(11) [OF t(2), unfolded tree_inv_def]
  have ne: "Collect (used t) \<noteq> {}"
    using I(5) t(3) matching_rowsD(1,3) [OF I(1)] by (metis not_one_le_zero)
  have col: "column t \<noteq> 0" using t(3) matching_rowsD(1,3) [OF I(1)] by (metis not_one_le_zero)
  let ?V = "insert (column t) (Collect (used t))"
  obtain rank N where rank: "\<And>k. k \<in> ?V - {0} \<Longrightarrow> rank (previous t k) < (rank k :: nat)"
    using T by blast
  have V: "?V \<subseteq> {0..m}" using I(2,3) by auto
  have "{k \<in> ?V. rank k < rank (column t)} \<subseteq> {0..m} - {column t}" using V by auto
  then have "card {k \<in> ?V. rank k < rank (column t)} \<le> card ({0..m} - {column t})"
    by (intro card_mono) auto
  then have card: "card {k \<in> ?V. rank k < rank (column t)} < Suc (m + 1)" using I(3) by simp
  have "\<exists>a. augment_loop (m + 1) t = Some a \<and> hole_inv ?c m i t a \<and> column a = 0"
  proof (rule augment_loop_total [where p = "column_row t" and rank = rank, OF V])
    show "previous t k \<in> ?V" "column_row t (previous t k) \<noteq> 0"
      "row_potential t (column_row t (previous t k)) + column_potential t k
         = ?c (column_row t (previous t k)) k" if "k \<in> ?V - {0}" for k
      using T that I(7) by blast+
  qed (use rank card col search_inv_hole [OF t(2,3) ne] in auto)
  then obtain a where a: "augment_loop (m + 1) t = Some a" "hole_inv ?c m i t a" "column a = 0"
    by blast
  have "covered i t = {1..i}" using ne unfolding covered_def by metis
  then have "phase_inv ?c m i a" using hole_inv_phase [OF a(2,3)] I(8,9) by simp
  then show ?thesis using t(1) a(1) by (simp add: insert_row_def)
qed

lemma insert_rows_phase:
  assumes "phase_inv (costs_of costs) m i s" and "i + k \<le> m" and "i + k \<le> n"
    and b: "bounded_costs (costs_of costs) n m B"
  shows "\<exists>t. insert_rows costs m [i + 1..<i + k + 1] s = Some t \<and>
    phase_inv (costs_of costs) m (i + k) t"
  using assms(1-3)
proof (induction k arbitrary: i s)
  case 0
  then show ?case by simp
next
  case (Suc k)
  then obtain t where t: "insert_row costs m (i + 1) s = Some t"
    "phase_inv (costs_of costs) m (i + 1) t"
    using insert_row_phase [of costs m "i + 1" s n, OF _ _ _ _ b] by auto
  have "[i + 1..<i + Suc k + 1] = (i + 1) # [i + 1 + 1..<i + 1 + k + 1]"
    by (simp add: upt_rec)
  then show ?case using Suc.IH [OF t(2)] Suc.prems t(1) by simp
qed

section \<open>Optimality\<close>

definition valid_assignment :: "nat \<Rightarrow> nat \<Rightarrow> nat list \<Rightarrow> bool" where
  "valid_assignment rows columns a \<longleftrightarrow>
     length a = rows \<and> distinct a \<and> (\<forall>j \<in> set a. j < columns)"

definition assignment_cost :: "int list list \<Rightarrow> nat list \<Rightarrow> int" where
  "assignment_cost costs a = (\<Sum>r < length costs. costs ! r ! (a ! r))"

definition cost_matrix :: "int \<Rightarrow> nat \<Rightarrow> int list list \<Rightarrow> bool" where
  "cost_matrix B columns costs \<longleftrightarrow>
     costs \<noteq> [] \<and> length costs \<le> columns \<and> 2 * B < i128_max \<and>
     (\<forall>row \<in> set costs. length row = columns \<and> (\<forall>x \<in> set row. - B \<le> x \<and> x \<le> 0))"

lemma read_assignment_nth:
  assumes "p ` {1..m} - {0} = {1..n}" and inj: "inj_on p {j \<in> {1..m}. p j \<noteq> 0}"
  shows "length (read_assignment n m p) = n"
    "\<And>j. j \<in> {1..m} \<Longrightarrow> p j \<noteq> 0 \<Longrightarrow> read_assignment n m p ! (p j - 1) = j - 1"
proof -
  let ?f = "\<lambda>j a. if p j \<noteq> 0 then a[p j - 1 := j - 1] else a"
  have "length (fold ?f [1..<k + 1] (replicate n m)) = n \<and>
      (\<forall>j \<in> {1..k}. p j \<noteq> 0 \<longrightarrow> fold ?f [1..<k + 1] (replicate n m) ! (p j - 1) = j - 1)"
    if "k \<le> m" for k
    using that
  proof (induction k)
    case (Suc k)
    let ?a = "fold ?f [1..<k + 1] (replicate n m)"
    have a: "length ?a = n" "\<forall>j \<in> {1..k}. p j \<noteq> 0 \<longrightarrow> ?a ! (p j - 1) = j - 1"
      using Suc.IH Suc.prems by (simp_all del: upt_Suc)
    have "?f (Suc k) ?a ! (p j - 1) = j - 1" if j: "j \<in> {1..Suc k}" "p j \<noteq> 0" for j
    proof -
      have m: "j \<in> {1..m}" using j(1) Suc.prems by auto
      have "p j \<in> p ` {1..m} - {0}" using imageI [OF m, of p] j(2) by simp
      then have "p j \<in> {1..n}" by (simp only: assms(1))
      moreover have "p j \<noteq> p (Suc k)" if "j \<noteq> Suc k"
        using inj_onD [OF inj, of j "Suc k"] that j m Suc.prems by auto
      ultimately show ?thesis using a j by (cases "j = Suc k") (auto simp: nth_list_update)
    qed
    moreover have "fold ?f [1..<Suc k + 1] (replicate n m) = ?f (Suc k) ?a" by simp
    ultimately show ?case using a(1) by (simp del: upt_Suc)
  qed simp
  from this [of m] show "length (read_assignment n m p) = n"
    "\<And>j. j \<in> {1..m} \<Longrightarrow> p j \<noteq> 0 \<Longrightarrow> read_assignment n m p ! (p j - 1) = j - 1"
    by (simp_all add: read_assignment_def del: upt_Suc)
qed

lemma phase_inv_read:
  assumes "phase_inv c m n s" and "r < n"
  shows "read_assignment n m (column_row s) ! r < m"
    "column_row s (read_assignment n m (column_row s) ! r + 1) = r + 1"
proof -
  note P = assms(1) [unfolded phase_inv_def]
  have img: "column_row s ` {1..m} - {0} = {1..n}" using P by blast
  have "r + 1 \<in> column_row s ` {1..m} - {0}" unfolding img using assms(2) by simp
  then obtain j where j: "j \<in> {1..m}" "column_row s j = r + 1" by auto
  then have "read_assignment n m (column_row s) ! r = j - 1"
    using read_assignment_nth(2) [OF img, of j] P by simp
  then show "read_assignment n m (column_row s) ! r < m"
    "column_row s (read_assignment n m (column_row s) ! r + 1) = r + 1"
    using j by auto
qed

lemma phase_inv_valid:
  assumes "phase_inv c m n s"
  shows "valid_assignment n m (read_assignment n m (column_row s))"
proof -
  let ?a = "read_assignment n m (column_row s)"
  have len: "length ?a = n" using assms read_assignment_nth(1) unfolding phase_inv_def by blast
  have "distinct ?a"
    unfolding distinct_conv_nth len using phase_inv_read(2) [OF assms] by (metis add_right_cancel)
  moreover have "\<forall>j \<in> set ?a. j < m"
    using phase_inv_read(1) [OF assms] by (auto simp: in_set_conv_nth len)
  ultimately show ?thesis using len by (simp add: valid_assignment_def)
qed

text \<open>Weak duality: the potentials bound the cost of every assignment from below.\<close>

lemma dual_bound:
  assumes d: "dual_inv (costs_of costs) m {1..length costs} s"
    and b: "valid_assignment (length costs) m b"
  shows "(\<Sum>r < length costs. row_potential s (r + 1)) + (\<Sum>j < m. column_potential s (j + 1))
    \<le> assignment_cost costs b"
proof -
  let ?n = "length costs"
  have V: "length b = ?n" "distinct b" "set b \<subseteq> {..<m}" using b by (auto simp: valid_assignment_def)
  have nonpos: "column_potential s (j + 1) \<le> 0" if "j < m" for j
    using dual_invD(3) [OF d, of "j + 1"] that by simp
  have "(\<Sum>j < m. column_potential s (j + 1)) \<le> (\<Sum>j \<in> set b. column_potential s (j + 1))"
    using sum_mono2 [of "{..<m}" "set b" "\<lambda>j. - column_potential s (j + 1)"] V(3) nonpos
    by (simp add: sum_negf subset_iff)
  also have "(\<Sum>j \<in> set b. column_potential s (j + 1)) = (\<Sum>r < ?n. column_potential s (b ! r + 1))"
  proof -
    have "bij_betw ((!) b) {..<?n} (set b)" using V(1,2) by (metis bij_betw_nth)
    then show ?thesis by (rule sum.reindex_bij_betw [symmetric])
  qed
  finally have "(\<Sum>r < ?n. row_potential s (r + 1)) + (\<Sum>j < m. column_potential s (j + 1))
      \<le> (\<Sum>r < ?n. row_potential s (r + 1) + column_potential s (b ! r + 1))"
    by (simp add: sum.distrib)
  also have "\<dots> \<le> (\<Sum>r < ?n. costs ! r ! (b ! r))"
  proof (rule sum_mono)
    fix r assume "r \<in> {..<?n}"
    moreover from this have "b ! r < m" using V(1,3) by (metis lessThan_iff nth_mem subsetD)
    ultimately show "row_potential s (r + 1) + column_potential s (b ! r + 1) \<le> costs ! r ! (b ! r)"
      using dual_invD(1) [OF d, of "b ! r + 1" "r + 1"] by (simp add: costs_of_def)
  qed
  finally show ?thesis by (simp add: assignment_cost_def)
qed

text \<open>Strong duality: the assignment read from a finished phase attains the bound.\<close>

lemma phase_inv_cost:
  assumes P: "phase_inv (costs_of costs) m (length costs) s"
  shows "assignment_cost costs (read_assignment (length costs) m (column_row s))
    = (\<Sum>r < length costs. row_potential s (r + 1)) + (\<Sum>j < m. column_potential s (j + 1))"
proof -
  let ?n = "length costs" and ?a = "read_assignment (length costs) m (column_row s)"
  note V = phase_inv_valid [OF P, unfolded valid_assignment_def]
  have d: "dual_inv (costs_of costs) m {1..?n} s" using P by (simp add: phase_inv_def)
  have "costs ! r ! (?a ! r) = row_potential s (r + 1) + column_potential s (?a ! r + 1)"
    if "r < ?n" for r
    using dual_invD(2) [OF d, of "?a ! r + 1"] phase_inv_read [OF P that] by (simp add: costs_of_def)
  then have "assignment_cost costs ?a
      = (\<Sum>r < ?n. row_potential s (r + 1)) + (\<Sum>r < ?n. column_potential s (?a ! r + 1))"
    by (simp add: assignment_cost_def sum.distrib)
  also have "(\<Sum>r < ?n. column_potential s (?a ! r + 1)) = (\<Sum>j \<in> set ?a. column_potential s (j + 1))"
  proof -
    have "bij_betw ((!) ?a) {..<?n} (set ?a)" using V by (metis bij_betw_nth)
    then show ?thesis by (rule sum.reindex_bij_betw)
  qed
  also have "\<dots> = (\<Sum>j < m. column_potential s (j + 1))"
  proof (rule sum.mono_neutral_left)
    show "set ?a \<subseteq> {..<m}" using V by auto
    have "column_potential s (j + 1) = 0" if "j < m" "j \<notin> set ?a" for j
    proof (rule dual_invD(4) [OF d])
      show "j + 1 \<in> {1..m}" using that by simp
      show "column_row s (j + 1) = 0"
      proof (rule ccontr)
        assume nz: "column_row s (j + 1) \<noteq> 0"
        have img: "column_row s ` {1..m} - {0} = {1..?n}" using P unfolding phase_inv_def by blast
        have "column_row s (j + 1) \<in> column_row s ` {1..m} - {0}" using that nz by simp
        then have "column_row s (j + 1) \<in> {1..?n}" by (simp only: img)
        moreover have "?a ! (column_row s (j + 1) - 1) = j"
          using read_assignment_nth(2) [OF img, of "j + 1"] P that nz by (simp add: phase_inv_def)
        ultimately have "j \<in> set ?a" using V by (metis Suc_pred atLeastAtMost_iff less_eq_Suc_le nth_mem One_nat_def)
        then show False using that by simp
      qed
    qed
    then show "\<forall>j \<in> {..<m} - set ?a. column_potential s (j + 1) = 0" by simp
  qed simp
  finally show ?thesis .
qed

lemma cost_matrix_bounded:
  assumes "cost_matrix B columns costs"
  shows "bounded_costs (costs_of costs) (length costs) columns B"
proof -
  have "- B \<le> costs_of costs r j \<and> costs_of costs r j \<le> 0"
    if "r \<in> {1..length costs}" "j \<in> {1..columns}" for r j
  proof -
    have r: "costs ! (r - 1) \<in> set costs" using that by auto
    then have "costs ! (r - 1) ! (j - 1) \<in> set (costs ! (r - 1))"
      using assms that(2) by (auto simp: cost_matrix_def)
    then show ?thesis using assms r by (auto simp: cost_matrix_def costs_of_def)
  qed
  then show ?thesis using assms by (simp add: bounded_costs_def cost_matrix_def)
qed

lemma hungarian_total:
  assumes C: "cost_matrix B columns costs"
  shows "\<exists>a. hungarian costs = Some a \<and> valid_assignment (length costs) columns a \<and>
    (\<forall>b. valid_assignment (length costs) columns b \<longrightarrow>
       assignment_cost costs a \<le> assignment_cost costs b)"
proof -
  let ?n = "length costs"
  obtain first rest where costs: "costs = first # rest" using C by (cases costs) (auto simp: cost_matrix_def)
  have columns: "length first = columns" using C costs by (simp add: cost_matrix_def)
  have init: "phase_inv (costs_of costs) columns 0 initial_search"
    by (auto simp: phase_inv_def dual_inv_def initial_search_def)
  have "0 + ?n \<le> columns" using C by (simp add: cost_matrix_def)
  from insert_rows_phase [OF init this _ cost_matrix_bounded [OF C]] obtain s where
    s: "insert_rows costs columns [1..<?n + 1] initial_search = Some s"
    "phase_inv (costs_of costs) columns ?n s"
    by auto
  have "hungarian costs = Some (read_assignment ?n columns (column_row s))"
    using s(1) columns unfolding hungarian_def Let_def by (simp add: costs)
  moreover have "valid_assignment ?n columns (read_assignment ?n columns (column_row s))"
    by (rule phase_inv_valid [OF s(2)])
  moreover have "dual_inv (costs_of costs) columns {1..?n} s" using s(2) by (simp add: phase_inv_def)
  ultimately show ?thesis using phase_inv_cost [OF s(2)] dual_bound by metis
qed

text \<open>
  C5: on every rectangular cost matrix with at least one row, at least as many
  columns as rows and entries in \<open>[-B, 0]\<close> with \<open>2B < i128::MAX\<close>,
  \<open>hungarian\<close> terminates (its loops never exhaust their fuel), assigns a
  different existing column to every row, and no other such assignment costs less.
\<close>

theorem hungarian_optimal:
  assumes "cost_matrix B columns costs"
  shows "\<exists>a. hungarian costs = Some a \<and> valid_assignment (length costs) columns a \<and>
    (\<forall>b. valid_assignment (length costs) columns b \<longrightarrow>
       assignment_cost costs a \<le> assignment_cost costs b)"
  by (rule hungarian_total [OF assms])

theorem hungarian_optimal_witness:
  "cost_matrix 10 3 [[-10, 0, 0], [-5, 0, 0]] \<and>
   (\<exists>a. hungarian [[-10, 0, 0], [-5, 0, 0]] = Some a \<and> valid_assignment 2 3 a)"
proof -
  have C: "cost_matrix 10 3 [[-10, 0, 0], [-5, 0, 0]]"
    by (simp add: cost_matrix_def i128_max_def)
  show ?thesis using C hungarian_optimal [OF C] by (auto simp: numeral_2_eq_2)
qed

end
