(* ===== verification/File_Roles.thy ===== *)
theory File_Roles
  imports Release
begin

text \<open>
  The classification of files in \<open>crates/sporos-matcher/src/matcher.rs\<close>:
  path components, optional, required and primary files, the size buckets and
  the score of an edge between a candidate file and a source file, together with
  the safety checks on a torrent manifest.
\<close>

section \<open>Path components\<close>

definition basename :: "string \<Rightarrow> string" where
  "basename path = (case rsplit_once (\<lambda>c. c = CHR ''/'') path of Some (_, b) \<Rightarrow> b | None \<Rightarrow> path)"

definition parent_basename :: "string \<Rightarrow> string option" where
  "parent_basename path =
     map_option (\<lambda>(parent, _). basename parent) (rsplit_once (\<lambda>c. c = CHR ''/'') path)"

definition extension :: "string \<Rightarrow> string option" where
  "extension path = map_option snd (rsplit_once (\<lambda>c. c = CHR ''.'') (basename path))"

definition stem :: "string \<Rightarrow> string" where
  "stem path = (case rsplit_once (\<lambda>c. c = CHR ''.'') path of Some (s, _) \<Rightarrow> s | None \<Rightarrow> path)"

section \<open>Roles\<close>

definition optional :: "string \<Rightarrow> matching_policy \<Rightarrow> bool" where
  "optional path policy \<longleftrightarrow>
     eq_ignore_ascii_case (stem (basename path)) ''sample''
     \<or> (case extension path of
          Some e \<Rightarrow> list_ex (\<lambda>configured. eq_ignore_ascii_case configured e) (mp_optional_extensions policy)
        | None \<Rightarrow> False)
     \<or> list_ex (\<lambda>component. list_ex (\<lambda>configured. eq_ignore_ascii_case configured component)
          (mp_optional_path_components policy)) (split_char CHR ''/'' path)"

definition primary_path :: "string \<Rightarrow> matching_policy \<Rightarrow> bool" where
  "primary_path path policy \<longleftrightarrow>
     (let upper = to_ascii_uppercase path
      in prefix ''BDMV/'' upper \<or> str_contains upper ''/BDMV/''
         \<or> prefix ''VIDEO_TS/'' upper \<or> str_contains upper ''/VIDEO_TS/''
         \<or> (case extension path of
              Some e \<Rightarrow> list_ex (\<lambda>configured. eq_ignore_ascii_case configured e)
                (mp_primary_video_extensions policy)
            | None \<Rightarrow> False))"

definition required :: "torrent_file \<Rightarrow> matching_policy \<Rightarrow> bool" where
  "required file policy \<longleftrightarrow> \<not> tf_padding file \<and> \<not> optional (tf_path file) policy"

definition primary :: "torrent_file \<Rightarrow> matching_policy \<Rightarrow> bool" where
  "primary file policy \<longleftrightarrow>
     \<not> tf_padding file \<and> \<not> optional (tf_path file) policy \<and> primary_path (tf_path file) policy"

section \<open>Buckets\<close>

record bucket_key =
  bk_size :: nat
  bk_primary :: bool
  bk_extension :: "string option"

definition bucket :: "nat \<Rightarrow> string \<Rightarrow> bool \<Rightarrow> bucket_key" where
  "bucket file_size path is_primary =
     \<lparr>bk_size = file_size, bk_primary = is_primary,
      bk_extension = (if is_primary then None
        else Some (to_ascii_lowercase (case extension path of Some e \<Rightarrow> e | None \<Rightarrow> '''')))\<rparr>"

section \<open>Edge scores\<close>

definition SCORE_EXACT_PATH :: nat where "SCORE_EXACT_PATH = 1000000"
definition SCORE_EXACT_BASENAME :: nat where "SCORE_EXACT_BASENAME = 100000"
definition SCORE_EPISODE :: nat where "SCORE_EPISODE = 10000"
definition SCORE_PRIMARY_EXTENSION :: nat where "SCORE_PRIMARY_EXTENSION = 1000"
definition SCORE_NORMALIZED_BASENAME :: nat where "SCORE_NORMALIZED_BASENAME = 100"
definition SCORE_DIRECTORY :: nat where "SCORE_DIRECTORY = 10"
definition SCORE_ROLE :: nat where "SCORE_ROLE = 1"

definition episode_agreement :: "unicode \<Rightarrow> string \<Rightarrow> string \<Rightarrow> bool" where
  "episode_agreement u a b \<longleftrightarrow>
     episode_keys u a \<noteq> [] \<and> episode_keys u b \<noteq> [] \<and>
     list_ex (\<lambda>key. key \<in> set (episode_keys u b)) (episode_keys u a)"

definition edge_score ::
  "unicode \<Rightarrow> bool \<Rightarrow> torrent_file \<Rightarrow> local_source_file \<Rightarrow> matching_policy \<Rightarrow> nat option" where
  "edge_score u season_mode candidate source policy =
     (let candidate_primary = primary candidate policy;
          source_primary = primary_path (lf_path source) policy;
          candidate_extension = extension (tf_path candidate);
          source_extension = extension (lf_path source);
          candidate_keys = episode_keys u (tf_path candidate);
          source_keys = episode_keys u (lf_path source);
          agreement = episode_agreement u (tf_path candidate) (lf_path source);
          candidate_basename = basename (tf_path candidate);
          source_basename = basename (lf_path source);
          normalized_basename = (normalize_title u (stem candidate_basename)
            = normalize_title u (stem source_basename));
          directory_agreement = (case (parent_basename (tf_path candidate), parent_basename (lf_path source)) of
            (Some c, Some s) \<Rightarrow> normalize_title u c = normalize_title u s | _ \<Rightarrow> False)
      in if tf_size candidate \<noteq> lf_size source then None
         else if candidate_primary \<noteq> source_primary then None
         else if \<not> candidate_primary \<and> candidate_extension \<noteq> source_extension then None
         else if candidate_keys \<noteq> [] \<and> source_keys \<noteq> [] \<and> \<not> agreement then None
         else if season_mode \<and> candidate_primary \<and> \<not> agreement then None
         else Some (SCORE_ROLE
           + of_bool (tf_path candidate = lf_path source) * SCORE_EXACT_PATH
           + of_bool (candidate_basename = source_basename) * SCORE_EXACT_BASENAME
           + of_bool agreement * SCORE_EPISODE
           + of_bool (candidate_primary \<and> candidate_extension = source_extension) * SCORE_PRIMARY_EXTENSION
           + of_bool normalized_basename * SCORE_NORMALIZED_BASENAME
           + of_bool directory_agreement * SCORE_DIRECTORY))"

section \<open>Manifest safety\<close>

definition unsafe_path :: "unicode \<Rightarrow> string \<Rightarrow> bool" where
  "unsafe_path u path \<longleftrightarrow>
     path = [] \<or> prefix ''/'' path \<or> prefix ''//'' path \<or> CHR 0x5C \<in> set path \<or> CHR 0x00 \<in> set path
     \<or> get path 1 = Some CHR '':''
     \<or> list_ex (\<lambda>component. component = [] \<or> component = ''.'' \<or> component = ''..''
          \<or> nfc u component = ''.'' \<or> nfc u component = ''..'') (split_char CHR ''/'' path)"

fun insert_paths ::
  "unicode \<Rightarrow> torrent_file list \<Rightarrow> nat list \<Rightarrow> string list \<Rightarrow> (match_reason, string list) result" where
  "insert_paths u [] ordinals paths = Inr paths"
| "insert_paths u (file # files) ordinals paths =
     (if tf_ordinal file \<in> set ordinals \<or> unsafe_path u (tf_path file) then Inl UnsafeTorrentPath
      else if nfc u (tf_path file) \<in> set paths then Inl UnsafeTorrentPath
      else insert_paths u files (tf_ordinal file # ordinals) (nfc u (tf_path file) # paths))"

text \<open>The proper path prefixes that end at a component boundary, in the order of the loop.\<close>

fun parent_prefixes :: "string \<Rightarrow> string list \<Rightarrow> string list" where
  "parent_prefixes pre [] = []"
| "parent_prefixes pre [component] = []"
| "parent_prefixes pre (component # components) =
     (pre @ component) # parent_prefixes (pre @ component @ ''/'') components"

definition validate_manifest :: "unicode \<Rightarrow> torrent_manifest \<Rightarrow> match_reason option" where
  "validate_manifest u manifest =
     (if tm_files manifest = [] \<or> tm_piece_length manifest = Some 0 then Some UnsupportedTorrent
      else case insert_paths u (tm_files manifest) [] [] of
        Inl reason \<Rightarrow> Some reason
      | Inr paths \<Rightarrow>
          if list_ex (\<lambda>path. list_ex (\<lambda>p. p \<in> set paths)
               (parent_prefixes '''' (split_char CHR ''/'' path))) paths
          then Some UnsafeTorrentPath else None)"

section \<open>Lemmas on edges\<close>

lemma edge_score_SomeD:
  assumes "edge_score u mode candidate source policy = Some v"
  shows "tf_size candidate = lf_size source" "primary candidate policy = primary_path (lf_path source) policy"
    "\<not> primary candidate policy \<Longrightarrow> extension (tf_path candidate) = extension (lf_path source)"
    "1 \<le> v" "v \<le> 1111111"
    "mode \<Longrightarrow> primary candidate policy \<Longrightarrow> episode_agreement u (tf_path candidate) (lf_path source)"
    "episode_keys u (tf_path candidate) \<noteq> [] \<Longrightarrow> episode_keys u (lf_path source) \<noteq> [] \<Longrightarrow>
       episode_agreement u (tf_path candidate) (lf_path source)"
  using assms
  by (auto simp: edge_score_def Let_def SCORE_EXACT_PATH_def SCORE_EXACT_BASENAME_def SCORE_EPISODE_def
      SCORE_PRIMARY_EXTENSION_def SCORE_NORMALIZED_BASENAME_def SCORE_DIRECTORY_def SCORE_ROLE_def
      of_bool_def split: if_splits)

lemma edge_score_bucket:
  assumes "edge_score u mode candidate source policy = Some v"
  shows "bucket (tf_size candidate) (tf_path candidate) (primary candidate policy)
    = bucket (lf_size source) (lf_path source) (primary_path (lf_path source) policy)"
  using edge_score_SomeD [OF assms] by (auto simp: bucket_def)

section \<open>Soundness and completeness of the manifest checks\<close>

lemma parent_prefixes_Cons:
  "cs \<noteq> [] \<Longrightarrow> parent_prefixes pre (c # cs) = (pre @ c) # parent_prefixes (pre @ c @ ''/'') cs"
  by (cases cs) auto

lemma parent_prefixes_push:
  "cs \<noteq> [] \<Longrightarrow> parent_prefixes pre ((x # hd cs) # tl cs) = parent_prefixes (pre @ [x]) cs"
  by (cases cs; cases "tl cs") auto

lemma split_char_Cons_other:
  "x \<noteq> c \<Longrightarrow> split_char c (x # s) = (x # hd (split_char c s)) # tl (split_char c s)"
  by (cases "split_char c s") auto

lemma set_parent_prefixes:
  "set (parent_prefixes pre (split_char CHR ''/'' s)) = (@) pre ` {p. prefix (p @ ''/'') s}"
proof (induction s arbitrary: pre)
  case Nil
  then show ?case by simp
next
  case (Cons x s)
  show ?case
  proof (cases "x = CHR ''/''")
    case True
    then have "parent_prefixes pre (split_char CHR ''/'' (x # s))
        = pre # parent_prefixes (pre @ ''/'') (split_char CHR ''/'' s)"
      using parent_prefixes_Cons [of "split_char CHR ''/'' s" pre "[]"] by simp
    moreover have "{p. prefix (p @ ''/'') (x # s)} = insert [] ((#) x ` {p. prefix (p @ ''/'') s})"
    proof (intro set_eqI iffI)
      fix p assume "p \<in> {p. prefix (p @ ''/'') (x # s)}"
      then show "p \<in> insert [] ((#) x ` {p. prefix (p @ ''/'') s})" by (cases p) auto
    qed (use True in auto)
    ultimately show ?thesis using Cons.IH [of "pre @ ''/''"] True by (auto simp: image_image)
  next
    case False
    then have "parent_prefixes pre (split_char CHR ''/'' (x # s))
        = parent_prefixes (pre @ [x]) (split_char CHR ''/'' s)"
      using parent_prefixes_push [of "split_char CHR ''/'' s" pre x]
      by (simp only: split_char_Cons_other split_char_nonempty not_False_eq_True)
    moreover have "{p. prefix (p @ ''/'') (x # s)} = (#) x ` {p. prefix (p @ ''/'') s}"
    proof (intro set_eqI iffI)
      fix p assume "p \<in> {p. prefix (p @ ''/'') (x # s)}"
      then show "p \<in> (#) x ` {p. prefix (p @ ''/'') s}" using False by (cases p) auto
    qed auto
    ultimately show ?thesis using Cons.IH [of "pre @ [x]"] by (simp add: image_image)
  qed
qed

lemma insert_paths_Inr_iff:
  "insert_paths u files ordinals paths = Inr result \<longleftrightarrow>
     result = rev (map (\<lambda>f. nfc u (tf_path f)) files) @ paths \<and>
     (\<forall>f \<in> set files. \<not> unsafe_path u (tf_path f)) \<and>
     distinct (map tf_ordinal files) \<and> tf_ordinal ` set files \<inter> set ordinals = {} \<and>
     distinct (map (\<lambda>f. nfc u (tf_path f)) files) \<and>
     (\<lambda>f. nfc u (tf_path f)) ` set files \<inter> set paths = {}"
  by (induction files arbitrary: ordinals paths) auto

lemma insert_paths_reason: "insert_paths u files ordinals paths = Inl r \<Longrightarrow> r = UnsafeTorrentPath"
  by (induction files arbitrary: ordinals paths) (auto split: if_splits)

lemma validate_manifest_ordinals:
  "validate_manifest u manifest = None \<Longrightarrow> distinct (map tf_ordinal (tm_files manifest))"
  using insert_paths_Inr_iff [of u "tm_files manifest" "[]" "[]"]
  by (auto simp: validate_manifest_def split: if_splits sum.splits)

text \<open>
  \<open>validate_manifest\<close> accepts a manifest exactly when it has files and a
  non-zero piece length, its ordinals are distinct, every path is safe, the
  NFC-normalised paths are distinct, and no normalised path is a directory prefix
  of another one.
\<close>

lemma validate_manifest_iff:
  "validate_manifest u manifest = None \<longleftrightarrow>
     tm_files manifest \<noteq> [] \<and> tm_piece_length manifest \<noteq> Some 0 \<and>
     distinct (map tf_ordinal (tm_files manifest)) \<and>
     (\<forall>f \<in> set (tm_files manifest). \<not> unsafe_path u (tf_path f)) \<and>
     distinct (map (\<lambda>f. nfc u (tf_path f)) (tm_files manifest)) \<and>
     (\<forall>f \<in> set (tm_files manifest). \<forall>g \<in> set (tm_files manifest).
        \<not> prefix (nfc u (tf_path f) @ ''/'') (nfc u (tf_path g)))"
proof -
  let ?files = "tm_files manifest" and ?nfc = "\<lambda>f. nfc u (tf_path f)"
  let ?ok = "(\<forall>f \<in> set ?files. \<not> unsafe_path u (tf_path f)) \<and> distinct (map tf_ordinal ?files) \<and>
    distinct (map ?nfc ?files)"
  have prefixes: "list_ex (\<lambda>path. list_ex (\<lambda>p. p \<in> set paths)
      (parent_prefixes '''' (split_char CHR ''/'' path))) paths \<longleftrightarrow>
      (\<exists>p \<in> set paths. \<exists>q \<in> set paths. prefix (p @ ''/'') q)" for paths
    by (auto simp: list_ex_iff set_parent_prefixes)
  show ?thesis
  proof (cases "insert_paths u ?files [] []")
    case (Inl r)
    moreover have "\<not> ?ok" using Inl insert_paths_Inr_iff [of u ?files "[]" "[]"] by auto
    ultimately show ?thesis by (auto simp: validate_manifest_def)
  next
    case (Inr paths)
    then have paths: "set paths = ?nfc ` set ?files" and ok: ?ok
      using insert_paths_Inr_iff [of u ?files "[]" "[]" paths] by auto
    have "list_ex (\<lambda>path. list_ex (\<lambda>p. p \<in> set paths)
        (parent_prefixes '''' (split_char CHR ''/'' path))) paths \<longleftrightarrow>
        (\<exists>f \<in> set ?files. \<exists>g \<in> set ?files. prefix (?nfc f @ ''/'') (?nfc g))"
      by (subst prefixes) (simp add: paths)
    then show ?thesis using Inr ok by (auto simp: validate_manifest_def)
  qed
qed

end
