(* ===== verification/Assignment.thy ===== *)
theory Assignment
  imports Hungarian File_Roles
begin

text \<open>
  The assignment of candidate files to source files in
  \<open>crates/sporos-matcher/src/matcher.rs\<close>: buckets and edges (\<open>assign_with\<close>),
  the connected components of the edge graph (\<open>component\<close>), the maximum-weight
  matching of one component (\<open>optimal_assignment\<close>, on top of
  \<open>Hungarian.hungarian\<close>) and the detection of equal-best alternatives.

  \<^const>\<open>None\<close> as the result of \<open>optimal_assignment\<close>, \<open>solve_component\<close> and
  \<open>assign_with\<close> is a panic of the source (the \<open>assert!\<close> on the objective, a
  missing map key, an unmatched \<open>expect\<close>); budget errors are values.
\<close>

section \<open>Maximum-weight matching of one component\<close>

type_synonym weight_table = "nat option list list"

definition source_columns :: "weight_table \<Rightarrow> nat" where
  "source_columns weights = (case weights of [] \<Rightarrow> 0 | row # _ \<Rightarrow> length row)"

definition weight_at :: "weight_table \<Rightarrow> nat \<Rightarrow> nat \<Rightarrow> nat" where
  "weight_at weights row col = (case weights ! row ! col of None \<Rightarrow> 0 | Some w \<Rightarrow> w)"

definition maximum_weight :: "weight_table \<Rightarrow> (nat \<times> nat) option \<Rightarrow> nat" where
  "maximum_weight weights banned =
     fold (\<lambda>row m. fold (\<lambda>col m. if banned \<noteq> Some (row, col)
            then max m (weight_at weights row col) else m) [0..<length (weights ! row)] m)
       [0..<length weights] 0"

definition cost_table :: "weight_table \<Rightarrow> (nat \<times> nat) option \<Rightarrow> int list list" where
  "cost_table weights banned =
     map (\<lambda>row. map (\<lambda>col.
            if col < source_columns weights \<and> banned \<noteq> Some (row, col)
            then - int (weight_at weights row col) else 0)
          [0..<source_columns weights + length weights]) [0..<length weights]"

definition selected_pairs ::
  "weight_table \<Rightarrow> (nat \<times> nat) option \<Rightarrow> nat list \<Rightarrow> (nat \<times> nat) list" where
  "selected_pairs weights banned assignment =
     filter (\<lambda>(row, col). col < source_columns weights \<and> banned \<noteq> Some (row, col)
         \<and> weights ! row ! col \<noteq> None) (enumerate 0 assignment)"

definition pairs_weight :: "weight_table \<Rightarrow> (nat \<times> nat) list \<Rightarrow> nat" where
  "pairs_weight weights pairs = sum_list (map (\<lambda>(row, col). weight_at weights row col) pairs)"

definition optimal_assignment ::
  "weight_table \<Rightarrow> (nat \<times> nat) option \<Rightarrow> (nat \<times> (nat \<times> nat) list) option" where
  "optimal_assignment weights banned =
     (if weights = [] then Some (0, [])
      else if \<not> int (maximum_weight weights banned) \<le> i128_max then None
      else case hungarian (cost_table weights banned) of
        None \<Rightarrow> None
      | Some assignment \<Rightarrow>
          (let pairs = selected_pairs weights banned assignment
           in Some (pairs_weight weights pairs mod 2 ^ 128, pairs)))"

section \<open>Connected components\<close>

fun mark_unseen :: "nat list \<Rightarrow> bool list \<Rightarrow> bool list \<times> nat list" where
  "mark_unseen [] seen = (seen, [])"
| "mark_unseen (i # is) seen =
     (if i < length seen \<and> \<not> seen ! i
      then (case mark_unseen is (seen[i := True]) of (seen', queued) \<Rightarrow> (seen', i # queued))
      else mark_unseen is seen)"

definition unseen :: "bool list \<Rightarrow> nat" where
  "unseen seen = length (filter Not seen)"

lemma unseen_update: "i < length seen \<Longrightarrow> \<not> seen ! i \<Longrightarrow> Suc (unseen (seen[i := True])) = unseen seen"
proof (induction seen arbitrary: i)
  case (Cons b seen)
  then show ?case by (cases i) (auto simp: unseen_def)
qed simp

lemma mark_unseen_measure:
  "mark_unseen is seen = (seen', queued) \<Longrightarrow> unseen seen' + length queued = unseen seen"
proof (induction "is" arbitrary: seen seen' queued)
  case (Cons i "is")
  show ?case
  proof (cases "i < length seen \<and> \<not> seen ! i")
    case True
    with Cons.prems obtain q where q: "mark_unseen is (seen[i := True]) = (seen', q)" "queued = i # q"
      by (auto split: prod.splits)
    then show ?thesis using Cons.IH [OF q(1)] unseen_update [of i seen] True by simp
  next
    case False
    then show ?thesis using Cons by auto
  qed
qed simp

function component_loop ::
  "(nat \<times> nat) list list \<Rightarrow> nat list list \<Rightarrow> (bool \<times> nat) list \<Rightarrow> bool list \<Rightarrow> bool list
    \<Rightarrow> nat list \<Rightarrow> nat list \<Rightarrow> (nat list \<times> nat list) \<times> bool list \<times> bool list" where
  "component_loop edges reverse [] candidate_seen source_seen candidates sources =
     ((candidates, sources), candidate_seen, source_seen)"
| "component_loop edges reverse ((candidate_side, index) # queue) candidate_seen source_seen
     candidates sources =
     (if candidate_side
      then (case mark_unseen (map fst (edges ! index)) source_seen of (source_seen', queued) \<Rightarrow>
        component_loop edges reverse (queue @ map (Pair False) queued) candidate_seen source_seen'
          (candidates @ [index]) sources)
      else (case mark_unseen (reverse ! index) candidate_seen of (candidate_seen', queued) \<Rightarrow>
        component_loop edges reverse (queue @ map (Pair True) queued) candidate_seen' source_seen
          candidates (sources @ [index])))"
  by pat_completeness auto
termination
  by (relation "measure (\<lambda>(edges, reverse, queue, cs, ss, candidates, sources).
        unseen cs + unseen ss + length queue)")
    (auto dest!: mark_unseen_measure [OF sym])

definition component ::
  "nat \<Rightarrow> (nat \<times> nat) list list \<Rightarrow> nat list list \<Rightarrow> bool list \<Rightarrow> bool list
    \<Rightarrow> (nat list \<times> nat list) \<times> bool list \<times> bool list" where
  "component start edges reverse candidate_seen source_seen =
     (case component_loop edges reverse [(True, start)] (candidate_seen[start := True]) source_seen [] [] of
        ((candidates, sources), candidate_seen', source_seen') \<Rightarrow>
          ((sort candidates, sort sources), candidate_seen', source_seen'))"

section \<open>Edges between candidate and source files\<close>

datatype assignment_error = BudgetExceeded

record assignment =
  as_pairs :: "(nat \<times> nat \<times> nat) list"
  as_ambiguous :: bool

record edge_state =
  es_edges :: "(nat \<times> nat) list list"
  es_reverse :: "nat list list"
  es_count :: nat

type_synonym score_fun = "torrent_file \<Rightarrow> local_source_file \<Rightarrow> matching_policy \<Rightarrow> nat option"

definition source_buckets ::
  "(source_id \<times> local_source_file) list \<Rightarrow> matching_policy \<Rightarrow> bucket_key \<Rightarrow> nat list" where
  "source_buckets sources policy =
     fold (\<lambda>(index, (_, source)) buckets.
             (let key = bucket (lf_size source) (lf_path source) (primary_path (lf_path source) policy)
              in buckets(key := buckets key @ [index])))
       (enumerate 0 sources) (\<lambda>_. [])"

fun scan_bucket ::
  "score_fun \<Rightarrow> matching_policy \<Rightarrow> (source_id \<times> local_source_file) list \<Rightarrow> nat \<Rightarrow> torrent_file
    \<Rightarrow> nat list \<Rightarrow> edge_state \<Rightarrow> (assignment_error, edge_state) result" where
  "scan_bucket score policy sources candidate_index candidate [] st = Inr st"
| "scan_bucket score policy sources candidate_index candidate (source_index # rest) st =
     (case score candidate (snd (sources ! source_index)) policy of
        None \<Rightarrow> scan_bucket score policy sources candidate_index candidate rest st
      | Some v \<Rightarrow>
          and_then (ok_or BudgetExceeded (checked_add u64_max (es_count st) 1)) (\<lambda>edge_count.
            if edge_count > mp_max_candidate_edges policy then Inl BudgetExceeded
            else scan_bucket score policy sources candidate_index candidate rest
              (st\<lparr>es_count := edge_count,
                  es_edges := (es_edges st)[candidate_index := es_edges st ! candidate_index @ [(source_index, v)]],
                  es_reverse := (es_reverse st)[source_index := es_reverse st ! source_index @ [candidate_index]]\<rparr>)))"

fun scan_candidates ::
  "score_fun \<Rightarrow> matching_policy \<Rightarrow> (source_id \<times> local_source_file) list \<Rightarrow> (nat \<times> torrent_file) list
    \<Rightarrow> edge_state \<Rightarrow> (assignment_error, edge_state) result" where
  "scan_candidates score policy sources [] st = Inr st"
| "scan_candidates score policy sources ((candidate_index, candidate) # rest) st =
     and_then (scan_bucket score policy sources candidate_index candidate
         (source_buckets sources policy
           (bucket (tf_size candidate) (tf_path candidate) (primary candidate policy))) st)
       (scan_candidates score policy sources rest)"

section \<open>Solving one component\<close>

fun position :: "'a \<Rightarrow> 'a list \<Rightarrow> nat option" where
  "position x [] = None"
| "position x (y # ys) = (if x = y then Some 0 else map_option Suc (position x ys))"

text \<open>One row of a matrix: each edge writes its value at the col of its source.\<close>

fun fill_row :: "nat list \<Rightarrow> (nat \<Rightarrow> 'b) \<Rightarrow> (nat \<times> nat) list \<Rightarrow> 'b option list \<Rightarrow> 'b option list option" where
  "fill_row component_sources f [] row = Some row"
| "fill_row component_sources f ((source_index, v) # rest) row =
     (case position source_index component_sources of
        None \<Rightarrow> None
      | Some col \<Rightarrow> fill_row component_sources f rest (row[col := Some (f v)]))"

fun fill_rows ::
  "(nat \<Rightarrow> nat \<Rightarrow> 'b) \<Rightarrow> nat list \<Rightarrow> (nat \<times> nat) list list \<Rightarrow> nat list \<Rightarrow> 'b option list list option" where
  "fill_rows f component_sources edges [] = Some []"
| "fill_rows f component_sources edges (candidate_index # rest) =
     (case fill_row component_sources (f candidate_index) (edges ! candidate_index)
             (replicate (length component_sources) None) of
        None \<Rightarrow> None
      | Some row \<Rightarrow> map_option ((#) row) (fill_rows f component_sources edges rest))"

text \<open>Arithmetic on \<open>u128\<close> as the release profile compiles it.\<close>

definition wrap_u128 :: "nat \<Rightarrow> nat" where
  "wrap_u128 n = n mod 2 ^ 128"

definition edge_weight ::
  "torrent_file list \<Rightarrow> matching_policy \<Rightarrow> nat \<Rightarrow> nat \<Rightarrow> nat \<Rightarrow> nat \<Rightarrow> nat" where
  "edge_weight candidates policy score_unit required_unit candidate_index v =
     wrap_u128 (v + (if primary (candidates ! candidate_index) policy
          then wrap_u128 (tf_size (candidates ! candidate_index) * score_unit) else 0)
       + (if required (candidates ! candidate_index) policy then required_unit else 0))"

text \<open>Does banning some selected edge leave a matching that is as good?\<close>

fun equal_best_alternative :: "weight_table \<Rightarrow> nat \<Rightarrow> (nat \<times> nat) list \<Rightarrow> bool option" where
  "equal_best_alternative weights best [] = Some False"
| "equal_best_alternative weights best (p # ps) =
     (case optimal_assignment weights (Some p) of
        None \<Rightarrow> None
      | Some (alternative, _) \<Rightarrow>
          if alternative = best then Some True else equal_best_alternative weights best ps)"

fun scored_pairs ::
  "nat option list list \<Rightarrow> nat list \<Rightarrow> nat list \<Rightarrow> (nat \<times> nat) list \<Rightarrow> (nat \<times> nat \<times> nat) list option" where
  "scored_pairs raw component_candidates component_sources [] = Some []"
| "scored_pairs raw component_candidates component_sources ((c, s) # rest) =
     (case raw ! c ! s of
        None \<Rightarrow> None
      | Some v \<Rightarrow> map_option ((#) (component_candidates ! c, component_sources ! s, v))
          (scored_pairs raw component_candidates component_sources rest))"

text \<open>
  \<open>Some None\<close> is the early return of an ambiguous component, \<open>Some (Some pairs)\<close>
  its unique best selection.
\<close>

definition solve_component ::
  "(nat \<Rightarrow> nat \<Rightarrow> nat) \<Rightarrow> (nat \<times> nat) list list \<Rightarrow> nat list \<Rightarrow> nat list
    \<Rightarrow> (nat \<times> nat \<times> nat) list option option" where
  "solve_component weight edges component_candidates component_sources =
     (case (fill_rows (\<lambda>_ v. v) component_sources edges component_candidates,
            fill_rows weight component_sources edges component_candidates) of
        (Some raw, Some weights) \<Rightarrow>
          (case optimal_assignment weights None of
             None \<Rightarrow> None
           | Some (best, selected) \<Rightarrow>
               (case equal_best_alternative weights best selected of
                  None \<Rightarrow> None
                | Some True \<Rightarrow> Some None
                | Some False \<Rightarrow>
                    map_option Some (scored_pairs raw component_candidates component_sources selected)))
      | _ \<Rightarrow> None)"

section \<open>All components\<close>

fun assign_components ::
  "(nat \<Rightarrow> nat \<Rightarrow> nat) \<Rightarrow> matching_policy \<Rightarrow> (nat \<times> nat) list list \<Rightarrow> nat list list \<Rightarrow> nat list
    \<Rightarrow> bool list \<Rightarrow> bool list \<Rightarrow> nat \<Rightarrow> (nat \<times> nat \<times> nat) list
    \<Rightarrow> (assignment_error, assignment) result option" where
  "assign_components weight policy edges reverse [] candidate_seen source_seen operations pairs =
     Some (Inr \<lparr>as_pairs = pairs, as_ambiguous = False\<rparr>)"
| "assign_components weight policy edges reverse (start # starts) candidate_seen source_seen operations pairs =
     (if candidate_seen ! start \<or> edges ! start = []
      then assign_components weight policy edges reverse starts candidate_seen source_seen operations pairs
      else case component start edges reverse candidate_seen source_seen of
        ((component_candidates, component_sources), candidate_seen', source_seen') \<Rightarrow>
          (let n = length component_candidates; k = length component_sources;
               operations' = saturating_add u128_max operations (wrap_u128 ((min n k + 1) * n * n * (k + n)))
           in if n + k > mp_max_assignment_component_files policy \<or> n + k > mp_max_assignment_files policy
              then Some (Inl BudgetExceeded)
              else if operations' > mp_max_assignment_operations policy then Some (Inl BudgetExceeded)
              else case solve_component weight edges component_candidates component_sources of
                None \<Rightarrow> None
              | Some None \<Rightarrow> Some (Inr \<lparr>as_pairs = [], as_ambiguous = True\<rparr>)
              | Some (Some selected) \<Rightarrow>
                  assign_components weight policy edges reverse starts candidate_seen' source_seen'
                    operations' (pairs @ selected)))"

definition score_unit :: "(nat \<times> nat) list list \<Rightarrow> nat" where
  "score_unit edges = sum_u64 (map snd (concat edges)) + 1"

definition primary_bytes :: "torrent_file list \<Rightarrow> matching_policy \<Rightarrow> nat" where
  "primary_bytes candidates policy =
     fold (\<lambda>c acc. wrap_u128 (acc + tf_size c)) (filter (\<lambda>c. primary c policy) candidates) 0"

definition assign_with ::
  "score_fun \<Rightarrow> torrent_file list \<Rightarrow> (source_id \<times> local_source_file) list \<Rightarrow> matching_policy
    \<Rightarrow> (assignment_error, assignment) result option" where
  "assign_with score candidates sources policy =
     (if length candidates > mp_max_assignment_files policy
         \<or> length sources > mp_max_assignment_files policy - length candidates
      then Some (Inl BudgetExceeded)
      else case scan_candidates score policy sources (enumerate 0 candidates)
                  \<lparr>es_edges = replicate (length candidates) [],
                   es_reverse = replicate (length sources) [], es_count = 0\<rparr> of
        Inl e \<Rightarrow> Some (Inl e)
      | Inr st \<Rightarrow>
          (let unit = score_unit (es_edges st);
               required_unit = wrap_u128 ((primary_bytes candidates policy + 1) * unit)
           in assign_components (edge_weight candidates policy unit required_unit) policy
                (es_edges st) (es_reverse st) [0..<length candidates]
                (replicate (length candidates) False) (replicate (length sources) False) 0 []))"

definition assign ::
  "unicode \<Rightarrow> torrent_file list \<Rightarrow> (source_id \<times> local_source_file) list \<Rightarrow> matching_policy
    \<Rightarrow> (assignment_error, assignment) result option" where
  "assign u candidates sources policy = assign_with (edge_score u False) candidates sources policy"

definition assign_season ::
  "unicode \<Rightarrow> torrent_file list \<Rightarrow> (source_id \<times> local_source_file) list \<Rightarrow> matching_policy
    \<Rightarrow> (assignment_error, assignment) result option" where
  "assign_season u candidates sources policy = assign_with (edge_score u True) candidates sources policy"

section \<open>Matchings and the solver interface\<close>

definition table_ok :: "nat \<Rightarrow> weight_table \<Rightarrow> bool" where
  "table_ok W weights \<longleftrightarrow>
     weights \<noteq> [] \<and> 2 * int W < i128_max \<and> length weights * W < 2 ^ 128 \<and>
     (\<forall>row \<in> set weights. length row = source_columns weights \<and>
        (\<forall>w. Some w \<in> set row \<longrightarrow> w \<le> W))"

definition is_matching :: "weight_table \<Rightarrow> (nat \<times> nat) option \<Rightarrow> (nat \<times> nat) set \<Rightarrow> bool" where
  "is_matching weights banned M \<longleftrightarrow>
     (\<forall>(row, col) \<in> M. row < length weights \<and> col < source_columns weights \<and>
        weights ! row ! col \<noteq> None \<and> banned \<noteq> Some (row, col)) \<and>
     inj_on fst M \<and> inj_on snd M"

definition matching_weight :: "weight_table \<Rightarrow> (nat \<times> nat) set \<Rightarrow> nat" where
  "matching_weight weights M = (\<Sum>(row, col) \<in> M. weight_at weights row col)"

text \<open>
  What the matcher relies on from its assignment solver: on every bounded cost
  matrix with enough columns it returns a cheapest assignment.
\<close>

locale assignment_solver =
  fixes solve :: "int list list \<Rightarrow> nat list option"
  assumes solve_optimal: "cost_matrix B columns costs \<Longrightarrow>
    \<exists>a. solve costs = Some a \<and> valid_assignment (length costs) columns a \<and>
      (\<forall>b. valid_assignment (length costs) columns b \<longrightarrow>
         assignment_cost costs a \<le> assignment_cost costs b)"

lemma weight_at_bound:
  assumes "table_ok W weights" and "row < length weights" and "col < source_columns weights"
  shows "weight_at weights row col \<le> W"
proof (cases "weights ! row ! col")
  case (Some w)
  have r: "weights ! row \<in> set weights" using assms(2) by simp
  then have "col < length (weights ! row)" using assms(1,3) by (simp add: table_ok_def)
  then have "Some w \<in> set (weights ! row)" using Some by (metis nth_mem)
  then show ?thesis using assms(1) r Some by (simp add: table_ok_def weight_at_def)
qed (simp add: weight_at_def)

lemma cost_table_matrix:
  assumes "table_ok W weights"
  shows "cost_matrix (int W) (source_columns weights + length weights) (cost_table weights banned)"
  using assms weight_at_bound [OF assms]
  by (auto simp: cost_matrix_def cost_table_def table_ok_def)

lemma length_cost_table [simp]: "length (cost_table weights banned) = length weights"
  by (simp add: cost_table_def)

lemma cost_table_nth:
  "r < length weights \<Longrightarrow> c < source_columns weights + length weights \<Longrightarrow>
     cost_table weights banned ! r ! c =
       (if c < source_columns weights \<and> banned \<noteq> Some (r, c) then - int (weight_at weights r c) else 0)"
  by (simp add: cost_table_def)

lemma sum_list_enumerate:
  fixes f :: "nat \<times> 'a \<Rightarrow> nat"
  shows "sum_list (map f (filter P (enumerate 0 a)))
    = (\<Sum>r < length a. if P (r, a ! r) then f (r, a ! r) else 0)"
proof -
  have "sum_list (map f (filter P (enumerate 0 a)))
      = sum_list (map (\<lambda>x. if P x then f x else 0) (enumerate 0 a))"
    by (simp add: sum_list_map_filter')
  also have "\<dots> = (\<Sum>r = 0..<length a. if P (r, a ! r) then f (r, a ! r) else 0)"
    unfolding sum_list_sum_nth by (rule sum.cong) (simp_all add: nth_enumerate_eq)
  finally show ?thesis by (simp add: lessThan_atLeast0)
qed

lemma assignment_cost_selected:
  assumes "valid_assignment (length weights) (source_columns weights + length weights) a"
  shows "assignment_cost (cost_table weights banned) a
    = - int (pairs_weight weights (selected_pairs weights banned a))"
proof -
  let ?n = "length weights"
  let ?P = "\<lambda>(r, c). c < source_columns weights \<and> banned \<noteq> Some (r, c) \<and> weights ! r ! c \<noteq> None"
  have a: "length a = ?n" "\<And>r. r < ?n \<Longrightarrow> a ! r < source_columns weights + ?n"
    using assms by (auto simp: valid_assignment_def)
  have "int (pairs_weight weights (selected_pairs weights banned a))
      = (\<Sum>r < ?n. int (if ?P (r, a ! r) then weight_at weights r (a ! r) else 0))"
    unfolding pairs_weight_def selected_pairs_def sum_list_enumerate a(1) of_nat_sum
    by (rule sum.cong) (auto simp: case_prod_beta)
  also have "\<dots> = (\<Sum>r < ?n. - (cost_table weights banned ! r ! (a ! r)))"
    by (rule sum.cong) (auto simp: cost_table_nth a(2) weight_at_def)
  finally show ?thesis by (simp add: assignment_cost_def sum_negf)
qed

lemma selected_pairs_matching:
  assumes "valid_assignment (length weights) (source_columns weights + length weights) a"
  shows "is_matching weights banned (set (selected_pairs weights banned a))"
    "distinct (selected_pairs weights banned a)"
    "matching_weight weights (set (selected_pairs weights banned a))
       = pairs_weight weights (selected_pairs weights banned a)"
proof -
  let ?s = "selected_pairs weights banned a"
  have a: "length a = length weights" "distinct a" using assms by (simp_all add: valid_assignment_def)
  have mem: "(r, c) \<in> set ?s \<longleftrightarrow> r < length weights \<and> c = a ! r \<and> c < source_columns weights \<and>
      banned \<noteq> Some (r, c) \<and> weights ! r ! c \<noteq> None" for r c
    by (auto simp: selected_pairs_def in_set_enumerate_eq a(1))
  have "inj_on fst (set ?s)" by (rule inj_onI) (auto simp: mem)
  moreover have "inj_on snd (set ?s)"
    using a by (intro inj_onI) (auto simp: mem nth_eq_iff_index_eq)
  moreover have "\<forall>(r, c) \<in> set ?s. r < length weights \<and> c < source_columns weights \<and>
      weights ! r ! c \<noteq> None \<and> banned \<noteq> Some (r, c)"
    by (intro ballI, clarsimp simp only: mem) simp
  ultimately show "is_matching weights banned (set ?s)" by (simp add: is_matching_def)
  show d: "distinct ?s" by (simp add: selected_pairs_def distinct_enumerate)
  show "matching_weight weights (set ?s) = pairs_weight weights ?s"
    by (simp add: matching_weight_def pairs_weight_def sum_list_distinct_conv_sum_set [OF d])
qed

text \<open>Every matching extends to an assignment with private dummy columns of the same cost.\<close>

lemma matching_assignment:
  assumes M: "is_matching weights banned M"
  shows "\<exists>b. valid_assignment (length weights) (source_columns weights + length weights) b \<and>
    assignment_cost (cost_table weights banned) b = - int (matching_weight weights M)"
proof -
  let ?n = "length weights" and ?sc = "source_columns weights"
  have el: "r < ?n \<and> c < ?sc \<and> weights ! r ! c \<noteq> None \<and> banned \<noteq> Some (r, c)" if "(r, c) \<in> M" for r c
    using M that by (auto simp: is_matching_def)
  have inj: "inj_on fst M" "inj_on snd M" using M by (simp_all add: is_matching_def)
  have fst_inj: "c = c'" if "(r, c) \<in> M" "(r, c') \<in> M" for r c c'
    using inj_onD [OF inj(1) _ that] by simp
  have snd_inj: "r = r'" if "(r, c) \<in> M" "(r', c) \<in> M" for r r' c
    using inj_onD [OF inj(2) _ that] by simp
  define g where "g r = (if \<exists>c. (r, c) \<in> M then SOME c. (r, c) \<in> M else ?sc + r)" for r
  have g_in: "(r, g r) \<in> M" if "\<exists>c. (r, c) \<in> M" for r using that someI_ex by (simp add: g_def)
  have g_eq: "g r = c" if "(r, c) \<in> M" for r c using fst_inj g_in that by blast
  have g_out: "g r = ?sc + r" if "\<nexists>c. (r, c) \<in> M" for r using that by (simp add: g_def)
  let ?b = "map g [0..<?n]"
  have "inj_on g {0..<?n}"
  proof (rule inj_onI)
    fix x y assume "x \<in> {0..<?n}" "y \<in> {0..<?n}" and eq: "g x = g y"
    consider "\<exists>c. (x, c) \<in> M" "\<exists>c. (y, c) \<in> M" | "\<nexists>c. (x, c) \<in> M" "\<nexists>c. (y, c) \<in> M"
      | "\<exists>c. (x, c) \<in> M" "\<nexists>c. (y, c) \<in> M" | "\<nexists>c. (x, c) \<in> M" "\<exists>c. (y, c) \<in> M" by blast
    then show "x = y"
    proof cases
      case 1
      then show ?thesis using snd_inj g_in eq by metis
    next
      case 2
      then show ?thesis using g_out eq by simp
    next
      case 3
      then show ?thesis using g_in el g_out eq by fastforce
    next
      case 4
      then show ?thesis using g_in el g_out eq by fastforce
    qed
  qed
  moreover have "g r < ?sc + ?n" if "r < ?n" for r
    using that g_in [of r] el [of r "g r"] g_out [of r] by (cases "\<exists>c. (r, c) \<in> M") auto
  ultimately have valid: "valid_assignment ?n (?sc + ?n) ?b"
    by (auto simp: valid_assignment_def distinct_map)
  have rows: "fst ` M \<subseteq> {..<?n}" using el by force
  have "assignment_cost (cost_table weights banned) ?b = (\<Sum>r < ?n. cost_table weights banned ! r ! g r)"
    by (simp add: assignment_cost_def)
  also have "\<dots> = (\<Sum>r \<in> fst ` M. cost_table weights banned ! r ! g r)"
  proof (rule sum.mono_neutral_right)
    show "\<forall>r \<in> {..<?n} - fst ` M. cost_table weights banned ! r ! g r = 0"
    proof
      fix r assume r: "r \<in> {..<?n} - fst ` M"
      then have "\<nexists>c. (r, c) \<in> M" by force
      then show "cost_table weights banned ! r ! g r = 0" using r g_out by (simp add: cost_table_nth)
    qed
  qed (use rows in auto)
  also have "\<dots> = (\<Sum>p \<in> M. cost_table weights banned ! fst p ! g (fst p))"
    using M by (simp add: is_matching_def sum.reindex)
  also have "\<dots> = (\<Sum>p \<in> M. - int (weight_at weights (fst p) (snd p)))"
  proof (rule sum.cong)
    fix p assume p: "p \<in> M"
    obtain r c where rc: "p = (r, c)" by fastforce
    show "cost_table weights banned ! fst p ! g (fst p) = - int (weight_at weights (fst p) (snd p))"
      using p el [of r c] g_eq [of r c] by (simp add: rc cost_table_nth)
  qed simp
  finally show ?thesis
    using valid by (intro exI [of _ ?b]) (simp add: matching_weight_def sum_negf case_prod_beta)
qed

context assignment_solver
begin

lemma solve_selects_best:
  assumes "table_ok W weights"
  shows "\<exists>a. solve (cost_table weights banned) = Some a \<and>
    is_matching weights banned (set (selected_pairs weights banned a)) \<and>
    distinct (selected_pairs weights banned a) \<and>
    pairs_weight weights (selected_pairs weights banned a)
      = matching_weight weights (set (selected_pairs weights banned a)) \<and>
    (\<forall>M. is_matching weights banned M \<longrightarrow>
       matching_weight weights M \<le> pairs_weight weights (selected_pairs weights banned a))"
proof -
  from solve_optimal [OF cost_table_matrix [OF assms]] obtain a where
    a: "solve (cost_table weights banned) = Some a"
      "valid_assignment (length weights) (source_columns weights + length weights) a"
    and best: "\<And>b. valid_assignment (length weights) (source_columns weights + length weights) b \<Longrightarrow>
      assignment_cost (cost_table weights banned) a \<le> assignment_cost (cost_table weights banned) b"
    by auto
  have "matching_weight weights M \<le> pairs_weight weights (selected_pairs weights banned a)"
    if "is_matching weights banned M" for M
    using matching_assignment [OF that] best assignment_cost_selected [OF a(2), of banned] by force
  then show ?thesis using a selected_pairs_matching [OF a(2)] by metis
qed

end

interpretation hungarian_solver: assignment_solver hungarian
  by unfold_locales (rule hungarian_total)



section \<open>The best selection of one component\<close>

lemma maximum_weight_bound:
  assumes "table_ok W weights"
  shows "maximum_weight weights banned \<le> W"
proof -
  have inner: "fold (\<lambda>col m. if banned \<noteq> Some (row, col) then max m (weight_at weights row col) else m) cols m \<le> W"
    if "\<And>c. c \<in> set cols \<Longrightarrow> weight_at weights row c \<le> W" "m \<le> W" for row cols m
    using that by (induction cols arbitrary: m) auto
  have outer: "fold (\<lambda>row m. fold (\<lambda>col m. if banned \<noteq> Some (row, col)
      then max m (weight_at weights row col) else m) [0..<length (weights ! row)] m) rows m \<le> W"
    if "\<And>r. r \<in> set rows \<Longrightarrow> r < length weights" "m \<le> W" for rows m
    using that
  proof (induction rows arbitrary: m)
    case (Cons r rows)
    have "r < length weights" using Cons.prems by simp
    moreover from this have "length (weights ! r) = source_columns weights"
      using assms by (auto simp: table_ok_def)
    ultimately have "fold (\<lambda>col m. if banned \<noteq> Some (r, col)
        then max m (weight_at weights r col) else m) [0..<length (weights ! r)] m \<le> W"
      using Cons.prems by (intro inner) (auto intro!: weight_at_bound [OF assms])
    then show ?case using Cons by simp
  qed simp
  show ?thesis unfolding maximum_weight_def by (rule outer) auto
qed

lemma matching_finite:
  assumes "is_matching weights banned M"
  shows "finite M" "card M \<le> length weights"
proof -
  have sub: "fst ` M \<subseteq> {..<length weights}" using assms by (force simp: is_matching_def)
  have inj: "inj_on fst M" using assms by (simp add: is_matching_def)
  show "finite M" using finite_subset [OF sub] finite_imageD [OF _ inj] by simp
  show "card M \<le> length weights" using card_mono [OF _ sub] card_image [OF inj] by simp
qed

lemma matching_weight_bound:
  assumes "table_ok W weights" and "is_matching weights banned M"
  shows "matching_weight weights M < 2 ^ 128"
proof -
  have "weight_at weights (fst p) (snd p) \<le> W" if "p \<in> M" for p
    using assms(2) that by (intro weight_at_bound [OF assms(1)]) (auto simp: is_matching_def)
  then have "matching_weight weights M \<le> card M * W"
    unfolding matching_weight_def using sum_bounded_above [of M _ W] by (simp add: case_prod_beta)
  also have "\<dots> \<le> length weights * W" using matching_finite [OF assms(2)] by simp
  also have "\<dots> < 2 ^ 128" using assms(1) by (simp add: table_ok_def)
  finally show ?thesis .
qed

lemma optimal_assignment_best:
  assumes "table_ok W weights"
  obtains pairs where "optimal_assignment weights banned = Some (matching_weight weights (set pairs), pairs)"
    and "is_matching weights banned (set pairs)" and "distinct pairs"
    and "\<And>M. is_matching weights banned M \<Longrightarrow> matching_weight weights M \<le> matching_weight weights (set pairs)"
proof -
  obtain a where a: "hungarian (cost_table weights banned) = Some a"
    and m: "is_matching weights banned (set (selected_pairs weights banned a))"
      "distinct (selected_pairs weights banned a)"
    and w: "pairs_weight weights (selected_pairs weights banned a)
      = matching_weight weights (set (selected_pairs weights banned a))"
    and best: "\<And>M. is_matching weights banned M \<Longrightarrow>
       matching_weight weights M \<le> pairs_weight weights (selected_pairs weights banned a)"
    using hungarian_solver.solve_selects_best [OF assms, of banned] by auto
  have "int (maximum_weight weights banned) \<le> i128_max"
    using maximum_weight_bound [OF assms, of banned] assms by (simp add: table_ok_def)
  then have "optimal_assignment weights banned
      = Some (pairs_weight weights (selected_pairs weights banned a) mod 2 ^ 128, selected_pairs weights banned a)"
    using a assms by (simp add: optimal_assignment_def table_ok_def Let_def)
  then show ?thesis
    using that [of "selected_pairs weights banned a"] m w best matching_weight_bound [OF assms m(1)] by simp
qed

lemma equal_best_alternative_iff:
  assumes "table_ok W weights"
  shows "\<exists>b. equal_best_alternative weights best ps = Some b \<and>
    (b \<longleftrightarrow> (\<exists>p \<in> set ps. \<exists>M. is_matching weights (Some p) M \<and> matching_weight weights M = best \<and>
       (\<forall>M'. is_matching weights (Some p) M' \<longrightarrow> matching_weight weights M' \<le> best)))"
proof (induction ps)
  case (Cons p ps)
  obtain pairs where p: "optimal_assignment weights (Some p) = Some (matching_weight weights (set pairs), pairs)"
    "is_matching weights (Some p) (set pairs)"
    "\<And>M. is_matching weights (Some p) M \<Longrightarrow> matching_weight weights M \<le> matching_weight weights (set pairs)"
    using optimal_assignment_best [OF assms, of "Some p"] by metis
  have "(\<exists>M. is_matching weights (Some p) M \<and> matching_weight weights M = best \<and>
       (\<forall>M'. is_matching weights (Some p) M' \<longrightarrow> matching_weight weights M' \<le> best))
     \<longleftrightarrow> matching_weight weights (set pairs) = best"
    using p(2,3) le_antisym by metis
  then show ?case using Cons p(1) by auto
qed auto

lemma matching_unban: "is_matching weights (Some p) M \<Longrightarrow> is_matching weights None M"
  by (auto simp: is_matching_def)

lemma matching_ban: "is_matching weights None M \<Longrightarrow> p \<notin> M \<Longrightarrow> is_matching weights (Some p) M"
  by (auto simp: is_matching_def)

lemma matching_weight_strict_mono:
  assumes "is_matching weights None M" and "S \<subset> M" and "\<And>p. p \<in> M \<Longrightarrow> 0 < weight_at weights (fst p) (snd p)"
  shows "matching_weight weights S < matching_weight weights M"
proof -
  have fin: "finite M" by (rule matching_finite [OF assms(1)])
  from assms(2) obtain p where p: "p \<in> M - S" by blast
  show ?thesis unfolding matching_weight_def case_prod_beta
    by (rule sum_strict_mono2 [OF fin _ p]) (use assms p in auto)
qed

text \<open>
  Without an equal-best alternative the selection is the only matching of maximum
  weight: any other one either omits a selected edge, and then it is an
  alternative, or extends the selection by an edge of positive weight.
\<close>

lemma no_alternative_unique:
  assumes ok: "table_ok W weights"
    and pos: "\<And>row col w. row < length weights \<Longrightarrow> col < source_columns weights \<Longrightarrow>
      weights ! row ! col = Some w \<Longrightarrow> 0 < w"
    and sel: "is_matching weights None (set selected)"
    and best: "\<And>M. is_matching weights None M \<Longrightarrow> matching_weight weights M \<le> matching_weight weights (set selected)"
    and alt: "equal_best_alternative weights (matching_weight weights (set selected)) selected = Some False"
    and M: "is_matching weights None M" "M \<noteq> set selected"
  shows "matching_weight weights M < matching_weight weights (set selected)"
proof (rule ccontr)
  assume "\<not> ?thesis"
  with best [OF M(1)] have eq: "matching_weight weights M = matching_weight weights (set selected)" by simp
  show False
  proof (cases "set selected \<subseteq> M")
    case True
    have pos': "0 < weight_at weights (fst p) (snd p)" if p: "p \<in> M" for p
    proof -
      have "fst p < length weights" "snd p < source_columns weights" "weights ! fst p ! snd p \<noteq> None"
        using M(1) p by (auto simp: is_matching_def)
      then show ?thesis using pos by (auto simp: weight_at_def)
    qed
    from True M(2) have "set selected \<subset> M" by blast
    from matching_weight_strict_mono [OF M(1) this pos'] eq show False by simp
  next
    case False
    then obtain p where p: "p \<in> set selected" "p \<notin> M" by blast
    then have "is_matching weights (Some p) M" using matching_ban M(1) by blast
    moreover have "\<forall>M'. is_matching weights (Some p) M' \<longrightarrow>
        matching_weight weights M' \<le> matching_weight weights (set selected)"
      using best matching_unban by blast
    ultimately show False
      using equal_best_alternative_iff [OF ok, of "matching_weight weights (set selected)" selected] alt eq p(1)
      by auto
  qed
qed

lemma alternative_not_unique:
  assumes "table_ok W weights"
    and "equal_best_alternative weights best selected = Some True"
  obtains M where "is_matching weights None M" "M \<noteq> set selected" "matching_weight weights M = best"
proof -
  from equal_best_alternative_iff [OF assms(1), of best selected] assms(2) obtain p M where
    "p \<in> set selected" "is_matching weights (Some p) M" "matching_weight weights M = best"
    by auto
  moreover from this have "M \<noteq> set selected" by (auto simp: is_matching_def)
  ultimately show ?thesis using that matching_unban by blast
qed


section \<open>The matrices of a component\<close>

lemma position_Some_iff:
  "distinct xs \<Longrightarrow> position x xs = Some i \<longleftrightarrow> i < length xs \<and> xs ! i = x"
proof (induction xs arbitrary: i)
  case (Cons y xs)
  then show ?case by (cases i) (auto dest: nth_mem)
qed simp

lemma position_None_iff: "position x xs = None \<longleftrightarrow> x \<notin> set xs"
  by (induction xs) auto

lemma fill_row_spec:
  assumes "distinct ss" and "fst ` set es \<subseteq> set ss" and "distinct (map fst es)"
    and "length row = length ss"
  obtains row' where "fill_row ss f es row = Some row'" and "length row' = length ss"
    and "\<And>k. k < length ss \<Longrightarrow>
      row' ! k = (case map_of es (ss ! k) of Some v \<Rightarrow> Some (f v) | None \<Rightarrow> row ! k)"
  using assms
proof (induction es arbitrary: row thesis)
  case (Cons e es)
  obtain s v where e: "e = (s, v)" by fastforce
  obtain i where i: "position s ss = Some i" "i < length ss" "ss ! i = s"
    using Cons.prems position_None_iff [of s ss] position_Some_iff [of ss s] e by (cases "position s ss") auto
  obtain row' where r: "fill_row ss f es (row[i := Some (f v)]) = Some row'" "length row' = length ss"
    "\<And>k. k < length ss \<Longrightarrow>
      row' ! k = (case map_of es (ss ! k) of Some v \<Rightarrow> Some (f v) | None \<Rightarrow> row[i := Some (f v)] ! k)"
    using Cons.IH [of "row[i := Some (f v)]"] Cons.prems by auto
  have "row' ! k = (case map_of (e # es) (ss ! k) of Some v \<Rightarrow> Some (f v) | None \<Rightarrow> row ! k)"
    if k: "k < length ss" for k
  proof (cases "k = i")
    case True
    then have "map_of es (ss ! k) = None"
      using Cons.prems(4) i e by (auto simp: map_of_eq_None_iff)
    then show ?thesis using r(3) [OF k] True i Cons.prems(5) e by simp
  next
    case False
    then have "ss ! k \<noteq> s" using i k Cons.prems(2) by (auto simp: nth_eq_iff_index_eq)
    then show ?thesis using r(3) [OF k] False e by (auto split: option.splits)
  qed
  then show ?case using Cons.prems(1) r i e by simp
qed simp

lemma fill_rows_spec:
  assumes "distinct ss"
    and "\<And>c. c \<in> set cs \<Longrightarrow> fst ` set (edges ! c) \<subseteq> set ss \<and> distinct (map fst (edges ! c))"
  obtains rows where "fill_rows f ss edges cs = Some rows" and "length rows = length cs"
    and "\<And>r. r < length cs \<Longrightarrow> length (rows ! r) = length ss"
    and "\<And>r k. r < length cs \<Longrightarrow> k < length ss \<Longrightarrow>
      rows ! r ! k = map_option (f (cs ! r)) (map_of (edges ! (cs ! r)) (ss ! k))"
  using assms(2)
proof (induction cs arbitrary: thesis)
  case (Cons c cs)
  obtain rows where IH: "fill_rows f ss edges cs = Some rows" "length rows = length cs"
    "\<And>r. r < length cs \<Longrightarrow> length (rows ! r) = length ss"
    "\<And>r k. r < length cs \<Longrightarrow> k < length ss \<Longrightarrow>
      rows ! r ! k = map_option (f (cs ! r)) (map_of (edges ! (cs ! r)) (ss ! k))"
    using Cons.IH Cons.prems(2) by (metis list.set_intros(2))
  obtain row where row: "fill_row ss (f c) (edges ! c) (replicate (length ss) None) = Some row"
    "length row = length ss"
    "\<And>k. k < length ss \<Longrightarrow> row ! k = (case map_of (edges ! c) (ss ! k) of
        Some v \<Rightarrow> Some (f c v) | None \<Rightarrow> replicate (length ss) None ! k)"
    using fill_row_spec [OF assms(1), of "edges ! c" "replicate (length ss) None" "f c"] Cons.prems(2) [of c]
    by auto
  have "(row # rows) ! r ! k = map_option (f ((c # cs) ! r)) (map_of (edges ! ((c # cs) ! r)) (ss ! k))"
    if "r < length (c # cs)" "k < length ss" for r k
    using that IH(4) row(3) by (cases r) (auto split: option.splits)
  moreover have "length ((row # rows) ! r) = length ss" if "r < length (c # cs)" for r
    using that IH(3) row(2) by (cases r) auto
  ultimately show ?case using Cons.prems(1) [of "row # rows"] IH(1,2) row(1) by simp
qed simp

section \<open>Breadth-first search of a component\<close>

definition marked :: "bool list \<Rightarrow> nat set" where
  "marked seen = {i. i < length seen \<and> seen ! i}"

lemma marked_update: "i < length seen \<Longrightarrow> marked (seen[i := True]) = insert i (marked seen)"
  by (auto simp: marked_def nth_list_update)

lemma marked_replicate [simp]: "marked (replicate n False) = {}"
  by (auto simp: marked_def)

lemma mark_unseen_spec:
  assumes "mark_unseen is seen = (seen', queued)" and "set is \<subseteq> {..<length seen}"
  shows "length seen' = length seen" "marked seen' = marked seen \<union> set queued"
    "set queued = set is - marked seen" "distinct queued"
proof -
  have "length seen' = length seen \<and> marked seen' = marked seen \<union> set queued \<and>
      set queued = set is - marked seen \<and> distinct queued"
    using assms
  proof (induction "is" arbitrary: seen seen' queued)
    case (Cons i "is")
    show ?case
    proof (cases "seen ! i")
      case True
      then have "i \<in> marked seen" "mark_unseen is seen = (seen', queued)"
        using Cons.prems by (auto simp: marked_def)
      then show ?thesis using Cons.IH [of seen seen' queued] Cons.prems(2) by auto
    next
      case False
      with Cons.prems obtain q where q: "mark_unseen is (seen[i := True]) = (seen', q)" "queued = i # q"
        by (auto split: prod.splits)
      have "i < length seen" using Cons.prems by simp
      moreover from this have "i \<notin> marked seen" using False by (simp add: marked_def)
      ultimately show ?thesis
        using Cons.IH [OF q(1)] Cons.prems(2) q(2) by (auto simp: marked_update)
    qed
  qed simp
  then show "length seen' = length seen" "marked seen' = marked seen \<union> set queued"
    "set queued = set is - marked seen" "distinct queued" by blast+
qed

definition side :: "bool \<Rightarrow> (bool \<times> nat) list \<Rightarrow> nat list" where
  "side b queue = map snd (filter (\<lambda>p. fst p = b) queue)"

lemma side_simps [simp]:
  "side b [] = []" "side b ((b', i) # queue) = (if b' = b then i # side b queue else side b queue)"
  "side b (queue @ queue') = side b queue @ side b queue'"
  "side b (map (Pair b') is) = (if b' = b then is else [])"
  by (auto simp: side_def filter_map comp_def)

definition graph_ok :: "nat \<Rightarrow> nat \<Rightarrow> (nat \<times> nat) list list \<Rightarrow> nat list list \<Rightarrow> bool" where
  "graph_ok n m edges reverse \<longleftrightarrow> length edges = n \<and> length reverse = m \<and>
     (\<forall>c < n. distinct (map fst (edges ! c)) \<and> fst ` set (edges ! c) \<subseteq> {..<m}) \<and>
     (\<forall>s < m. set (reverse ! s) = {c. c < n \<and> s \<in> fst ` set (edges ! c)})"

text \<open>
  What one run of the loop adds: \<open>Cn\<close> and \<open>Sn\<close> are the vertices it visits, each
  once; apart from the queued ones they were unmarked, and at the end the
  neighbours of every visited vertex are marked.
\<close>

definition bfs_result ::
  "(nat \<times> nat) list list \<Rightarrow> nat list list \<Rightarrow> (bool \<times> nat) list \<Rightarrow> bool list \<Rightarrow> bool list
    \<Rightarrow> bool list \<Rightarrow> bool list \<Rightarrow> nat list \<Rightarrow> nat list \<Rightarrow> bool" where
  "bfs_result edges reverse queue cs ss cs' ss' Cn Sn \<longleftrightarrow>
     length cs' = length cs \<and> length ss' = length ss \<and>
     marked cs' = marked cs \<union> set Cn \<and> marked ss' = marked ss \<union> set Sn \<and>
     distinct Cn \<and> distinct Sn \<and>
     set (side True queue) \<subseteq> set Cn \<and> set (side False queue) \<subseteq> set Sn \<and>
     (set Cn - set (side True queue)) \<inter> marked cs = {} \<and>
     (set Sn - set (side False queue)) \<inter> marked ss = {} \<and>
     (\<forall>c \<in> set Cn. fst ` set (edges ! c) \<subseteq> marked ss') \<and>
     (\<forall>s \<in> set Sn. set (reverse ! s) \<subseteq> marked cs')"

lemma bfs_resultD:
  assumes "bfs_result edges reverse queue cs ss cs' ss' Cn Sn"
  shows "length cs' = length cs" "length ss' = length ss"
    "marked cs' = marked cs \<union> set Cn" "marked ss' = marked ss \<union> set Sn"
    "distinct Cn" "distinct Sn"
    "set (side True queue) \<subseteq> set Cn" "set (side False queue) \<subseteq> set Sn"
    "(set Cn - set (side True queue)) \<inter> marked cs = {}"
    "(set Sn - set (side False queue)) \<inter> marked ss = {}"
    "\<forall>c \<in> set Cn. fst ` set (edges ! c) \<subseteq> marked ss'"
    "\<forall>s \<in> set Sn. set (reverse ! s) \<subseteq> marked cs'"
  using assms unfolding bfs_result_def by - (elim conjE, assumption)+

lemma bfs_result_candidate:
  assumes r: "bfs_result edges reverse (queue @ map (Pair False) queued) cs ss1 cs' ss' Cn Sn"
    and ss: "length ss1 = length ss" "marked ss1 = marked ss \<union> set queued"
    and q: "set queued = fst ` set (edges ! i) - marked ss"
    and i: "distinct (i # side True queue)" "i \<in> marked cs"
  shows "bfs_result edges reverse ((True, i) # queue) cs ss cs' ss' (i # Cn) Sn"
proof -
  note f = bfs_resultD [OF r]
  have C: "set (side True queue) \<subseteq> set Cn" "(set Cn - set (side True queue)) \<inter> marked cs = {}"
    using f(7,9) by simp_all
  have S: "set (side False queue) \<subseteq> set Sn" "set queued \<subseteq> set Sn"
    "(set Sn - set (side False queue) - set queued) \<inter> (marked ss \<union> set queued) = {}"
    using f(8,10) ss(2) by auto
  have "i \<notin> set Cn" using C i by auto
  moreover have "marked ss' = marked ss \<union> set Sn" using f(4) ss(2) S(2) by blast
  moreover have "(set Sn - set (side False queue)) \<inter> marked ss = {}" using S(3) q by blast
  moreover have "fst ` set (edges ! i) \<subseteq> marked ss \<union> set Sn" using q S(2) by blast
  moreover have "(set Cn - insert i (set (side True queue))) \<inter> marked cs = {}" using C(2) by blast
  ultimately show ?thesis using f(1-3,5,6,11,12) ss C(1) S(1) i(2)
    by (simp add: bfs_result_def insert_absorb subset_insertI2)
qed

lemma bfs_result_source:
  assumes r: "bfs_result edges reverse (queue @ map (Pair True) queued) cs1 ss cs' ss' Cn Sn"
    and cs: "length cs1 = length cs" "marked cs1 = marked cs \<union> set queued"
    and q: "set queued = set (reverse ! i) - marked cs"
    and i: "distinct (i # side False queue)" "i \<in> marked ss"
  shows "bfs_result edges reverse ((False, i) # queue) cs ss cs' ss' Cn (i # Sn)"
proof -
  note f = bfs_resultD [OF r]
  have S: "set (side False queue) \<subseteq> set Sn" "(set Sn - set (side False queue)) \<inter> marked ss = {}"
    using f(8,10) by simp_all
  have C: "set (side True queue) \<subseteq> set Cn" "set queued \<subseteq> set Cn"
    "(set Cn - set (side True queue) - set queued) \<inter> (marked cs \<union> set queued) = {}"
    using f(7,9) cs(2) by auto
  have "i \<notin> set Sn" using S i by auto
  moreover have "marked cs' = marked cs \<union> set Cn" using f(3) cs(2) C(2) by blast
  moreover have "(set Cn - set (side True queue)) \<inter> marked cs = {}" using C(3) q by blast
  moreover have "set (reverse ! i) \<subseteq> marked cs \<union> set Cn" using q C(2) by blast
  moreover have "(set Sn - insert i (set (side False queue))) \<inter> marked ss = {}" using S(2) by blast
  ultimately show ?thesis using f(1,2,4-6,11,12) cs S(1) C(1) i(2)
    by (simp add: bfs_result_def insert_absorb subset_insertI2)
qed

lemma component_loop_spec:
  assumes "component_loop edges reverse queue cs ss C S = ((C', S'), cs', ss')"
    and "graph_ok n m edges reverse" "length cs = n" "length ss = m"
    and "set (side True queue) \<subseteq> marked cs" "set (side False queue) \<subseteq> marked ss"
    and "distinct (side True queue)" "distinct (side False queue)"
  shows "\<exists>Cn Sn. C' = C @ Cn \<and> S' = S @ Sn \<and> bfs_result edges reverse queue cs ss cs' ss' Cn Sn"
  using assms
proof (induction edges reverse queue cs ss C S rule: component_loop.induct)
  case (1 edges reverse cs ss C S)
  then show ?case by (auto simp: bfs_result_def)
next
  case (2 edges reverse candidate_side i queue cs ss C S)
  show ?case
  proof (cases candidate_side)
    case True
    obtain ss1 queued where mk: "mark_unseen (map fst (edges ! i)) ss = (ss1, queued)" by fastforce
    have i: "i \<in> marked cs" "i < n" using "2.prems"(3,5) True by (auto simp: marked_def)
    then have "set (map fst (edges ! i)) \<subseteq> {..<length ss}" using "2.prems"(2,4) by (auto simp: graph_ok_def)
    note sp = mark_unseen_spec [OF mk this]
    have fresh: "set queued \<inter> set (side False queue) = {}" using sp(3) "2.prems"(6) True by auto
    have "\<exists>Cn Sn. C' = (C @ [i]) @ Cn \<and> S' = S @ Sn \<and>
        bfs_result edges reverse (queue @ map (Pair False) queued) cs ss1 cs' ss' Cn Sn"
      using "2.prems" True mk sp fresh
      by (intro "2.IH"(1) [OF True mk [symmetric]]) auto
    then obtain Cn Sn where r: "C' = (C @ [i]) @ Cn" "S' = S @ Sn"
      "bfs_result edges reverse (queue @ map (Pair False) queued) cs ss1 cs' ss' Cn Sn" by blast
    have "bfs_result edges reverse ((True, i) # queue) cs ss cs' ss' (i # Cn) Sn"
      using "2.prems"(7) True i(1) sp by (intro bfs_result_candidate [OF r(3)]) auto
    with r True show ?thesis by (metis append.assoc append_Cons append_Nil)
  next
    case False
    obtain cs1 queued where mk: "mark_unseen (reverse ! i) cs = (cs1, queued)" by fastforce
    have i: "i \<in> marked ss" "i < m" using "2.prems"(4,6) False by (auto simp: marked_def)
    then have "set (reverse ! i) \<subseteq> {..<length cs}" using "2.prems"(2,3) by (auto simp: graph_ok_def)
    note sp = mark_unseen_spec [OF mk this]
    have fresh: "set queued \<inter> set (side True queue) = {}" using sp(3) "2.prems"(5) False by auto
    have "\<exists>Cn Sn. C' = C @ Cn \<and> S' = (S @ [i]) @ Sn \<and>
        bfs_result edges reverse (queue @ map (Pair True) queued) cs1 ss cs' ss' Cn Sn"
      using "2.prems" False mk sp fresh
      by (intro "2.IH"(2) [OF False mk [symmetric]]) auto
    then obtain Cn Sn where r: "C' = C @ Cn" "S' = (S @ [i]) @ Sn"
      "bfs_result edges reverse (queue @ map (Pair True) queued) cs1 ss cs' ss' Cn Sn" by blast
    have "bfs_result edges reverse ((False, i) # queue) cs ss cs' ss' Cn (i # Sn)"
      using "2.prems"(8) False i(1) sp by (intro bfs_result_source [OF r(3)]) auto
    with r False show ?thesis by (metis append.assoc append_Cons append_Nil)
  qed
qed


definition closed_marks ::
  "(nat \<times> nat) list list \<Rightarrow> nat list list \<Rightarrow> bool list \<Rightarrow> bool list \<Rightarrow> bool" where
  "closed_marks edges reverse cs ss \<longleftrightarrow>
     (\<forall>c \<in> marked cs. fst ` set (edges ! c) \<subseteq> marked ss) \<and>
     (\<forall>s \<in> marked ss. set (reverse ! s) \<subseteq> marked cs)"

lemma component_spec:
  assumes comp: "component start edges reverse cs ss = ((C, S), cs', ss')"
    and g: "graph_ok n m edges reverse" and len: "length cs = n" "length ss = m"
    and cl: "closed_marks edges reverse cs ss" and start: "start < n" "start \<notin> marked cs"
  shows "length cs' = n" "length ss' = m"
    "marked cs' = marked cs \<union> set C" "marked ss' = marked ss \<union> set S"
    "distinct C" "distinct S" "start \<in> set C" "set C \<inter> marked cs = {}" "set S \<inter> marked ss = {}"
    "closed_marks edges reverse cs' ss'"
    "\<And>c. c \<in> set C \<Longrightarrow> fst ` set (edges ! c) \<subseteq> set S"
proof -
  obtain C0 S0 where loop: "component_loop edges reverse [(True, start)] (cs[start := True]) ss [] []
      = ((C0, S0), cs', ss')" and CS: "C = sort C0" "S = sort S0"
    using comp by (auto simp: component_def split: prod.splits)
  have mk: "marked (cs[start := True]) = insert start (marked cs)" using marked_update start len by simp
  have "bfs_result edges reverse [(True, start)] (cs[start := True]) ss cs' ss' C0 S0"
    using component_loop_spec [OF loop g] len mk by simp
  note f = bfs_resultD [OF this]
  show "length cs' = n" "length ss' = m" using f(1,2) len by simp_all
  show C': "marked cs' = marked cs \<union> set C" using f(3,7) mk CS by auto
  show S': "marked ss' = marked ss \<union> set S" using f(4) CS by simp
  show "distinct C" "distinct S" "start \<in> set C" using f(5-7) CS by simp_all
  show dC: "set C \<inter> marked cs = {}" using f(9) mk CS start by auto
  show "set S \<inter> marked ss = {}" using f(10) CS by simp
  show cl': "closed_marks edges reverse cs' ss'"
    unfolding closed_marks_def
  proof (intro conjI ballI)
    fix c assume "c \<in> marked cs'"
    then consider "c \<in> marked cs" | "c \<in> set C0" using C' CS by auto
    then show "fst ` set (edges ! c) \<subseteq> marked ss'"
      by cases (use cl S' f(11) in \<open>unfold closed_marks_def, blast+\<close>)
  next
    fix s assume "s \<in> marked ss'"
    then consider "s \<in> marked ss" | "s \<in> set S0" using S' CS by auto
    then show "set (reverse ! s) \<subseteq> marked cs'"
      by cases (use cl C' f(12) in \<open>unfold closed_marks_def, blast+\<close>)
  qed
  fix c assume c: "c \<in> set C"
  show "fst ` set (edges ! c) \<subseteq> set S"
  proof
    fix s assume s: "s \<in> fst ` set (edges ! c)"
    have cn: "c < n" using c C' f(1) len by (auto simp: marked_def)
    then have "s < m" using g s by (auto simp: graph_ok_def)
    then have "c \<in> set (reverse ! s)" using g s cn by (auto simp: graph_ok_def)
    then have "s \<notin> marked ss" using cl dC c unfolding closed_marks_def by blast
    moreover have "s \<in> marked ss'" using cl' C' c s unfolding closed_marks_def by blast
    ultimately show "s \<in> set S" using S' by blast
  qed
qed

section \<open>Matchings of the edge graph\<close>

definition edge_matching :: "(nat \<times> nat) list list \<Rightarrow> nat set \<Rightarrow> (nat \<times> nat) set \<Rightarrow> bool" where
  "edge_matching edges C M \<longleftrightarrow>
     (\<forall>(c, s) \<in> M. c \<in> C \<and> s \<in> fst ` set (edges ! c)) \<and> inj_on fst M \<and> inj_on snd M"

definition edge_value :: "(nat \<times> nat) list list \<Rightarrow> nat \<times> nat \<Rightarrow> nat" where
  "edge_value edges p = the (map_of (edges ! fst p) (snd p))"

definition edges_weight :: "(nat \<Rightarrow> nat \<Rightarrow> nat) \<Rightarrow> (nat \<times> nat) list list \<Rightarrow> (nat \<times> nat) set \<Rightarrow> nat" where
  "edges_weight weight edges M = (\<Sum>p \<in> M. weight (fst p) (edge_value edges p))"

definition unique_best ::
  "(nat \<Rightarrow> nat \<Rightarrow> nat) \<Rightarrow> (nat \<times> nat) list list \<Rightarrow> nat set \<Rightarrow> (nat \<times> nat) set \<Rightarrow> bool" where
  "unique_best weight edges C P \<longleftrightarrow> edge_matching edges C P \<and>
     (\<forall>M. edge_matching edges C M \<and> M \<noteq> P \<longrightarrow> edges_weight weight edges M < edges_weight weight edges P)"

definition tied_best ::
  "(nat \<Rightarrow> nat \<Rightarrow> nat) \<Rightarrow> (nat \<times> nat) list list \<Rightarrow> nat set \<Rightarrow> bool" where
  "tied_best weight edges C \<longleftrightarrow>
     (\<exists>P Q. edge_matching edges C P \<and> edge_matching edges C Q \<and> P \<noteq> Q \<and>
        edges_weight weight edges P = edges_weight weight edges Q \<and>
        (\<forall>M. edge_matching edges C M \<longrightarrow> edges_weight weight edges M \<le> edges_weight weight edges P))"

definition pair_set :: "(nat \<times> nat \<times> nat) list \<Rightarrow> (nat \<times> nat) set" where
  "pair_set pairs = (\<lambda>(c, s, v). (c, s)) ` set pairs"

definition pairs_on_edges :: "(nat \<times> nat) list list \<Rightarrow> nat set \<Rightarrow> (nat \<times> nat \<times> nat) list \<Rightarrow> bool" where
  "pairs_on_edges edges C pairs \<longleftrightarrow>
     (\<forall>(c, s, v) \<in> set pairs. c \<in> C \<and> (s, v) \<in> set (edges ! c)) \<and>
     distinct (map fst pairs) \<and> distinct (map (fst \<circ> snd) pairs)"

definition cell :: "nat list \<Rightarrow> nat list \<Rightarrow> nat \<times> nat \<Rightarrow> nat \<times> nat" where
  "cell C S p = (C ! fst p, S ! snd p)"

text \<open>The table that the solver sees is the edge graph of the component, row by row.\<close>

definition table_of ::
  "(nat \<Rightarrow> nat \<Rightarrow> nat) \<Rightarrow> (nat \<times> nat) list list \<Rightarrow> nat list \<Rightarrow> nat list \<Rightarrow> weight_table \<Rightarrow> bool" where
  "table_of weight edges C S weights \<longleftrightarrow> length weights = length C \<and>
     (\<forall>r < length C. length (weights ! r) = length S \<and> (\<forall>k < length S.
        weights ! r ! k = map_option (weight (C ! r)) (map_of (edges ! (C ! r)) (S ! k))))"

lemma table_of_columns: "table_of weight edges C S weights \<Longrightarrow> C \<noteq> [] \<Longrightarrow> source_columns weights = length S"
  by (cases weights) (force simp: table_of_def source_columns_def)+

lemma cell_inj:
  assumes "distinct C" "distinct S"
  shows "inj_on (cell C S) ({..<length C} \<times> {..<length S})"
  using assms by (auto simp: inj_on_def cell_def nth_eq_iff_index_eq)

lemma matching_cells:
  assumes t: "table_of weight edges C S weights" and C: "C \<noteq> []" "distinct C" and S: "distinct S"
    and M: "is_matching weights None M"
  shows "edge_matching edges (set C) (cell C S ` M)"
    "edges_weight weight edges (cell C S ` M) = matching_weight weights M"
proof -
  have el: "r < length C \<and> k < length S \<and> weights ! r ! k = Some (weight (C ! r) (edge_value edges (cell C S (r, k)))) \<and>
      S ! k \<in> fst ` set (edges ! (C ! r))" if rk: "(r, k) \<in> M" for r k
  proof -
    have "r < length C" "k < length S" "weights ! r ! k \<noteq> None"
      using M rk table_of_columns [OF t C(1)] t by (auto simp: is_matching_def table_of_def)
    moreover from this obtain v where "map_of (edges ! (C ! r)) (S ! k) = Some v"
      using t by (auto simp: table_of_def)
    moreover from this have "S ! k \<in> fst ` set (edges ! (C ! r))" by (force dest: map_of_SomeD)
    ultimately show ?thesis using t by (simp add: table_of_def edge_value_def cell_def)
  qed
  have sub: "M \<subseteq> {..<length C} \<times> {..<length S}" using el by auto
  have inj: "inj_on (cell C S) M" by (rule inj_on_subset [OF cell_inj [OF C(2) S] sub])
  have injs: "inj_on fst M" "inj_on snd M" using M by (simp_all add: is_matching_def)
  have "inj_on fst (cell C S ` M)"
  proof (rule inj_onI)
    fix p q assume "p \<in> cell C S ` M" "q \<in> cell C S ` M" and eq: "fst p = fst q"
    then obtain p' q' where p': "p' \<in> M" "p = cell C S p'" and q': "q' \<in> M" "q = cell C S q'" by blast
    have "fst p' < length C" "fst q' < length C" using subsetD [OF sub] p'(1) q'(1) by (auto simp: mem_Times_iff)
    then have "fst p' = fst q'" using eq p' q' C(2) by (simp add: cell_def nth_eq_iff_index_eq)
    then have "p' = q'" by (rule inj_onD [OF injs(1) _ p'(1) q'(1)])
    then show "p = q" using p' q' by simp
  qed
  moreover have "inj_on snd (cell C S ` M)"
  proof (rule inj_onI)
    fix p q assume "p \<in> cell C S ` M" "q \<in> cell C S ` M" and eq: "snd p = snd q"
    then obtain p' q' where p': "p' \<in> M" "p = cell C S p'" and q': "q' \<in> M" "q = cell C S q'" by blast
    have "snd p' < length S" "snd q' < length S" using subsetD [OF sub] p'(1) q'(1) by (auto simp: mem_Times_iff)
    then have "snd p' = snd q'" using eq p' q' S by (simp add: cell_def nth_eq_iff_index_eq)
    then have "p' = q'" by (rule inj_onD [OF injs(2) _ p'(1) q'(1)])
    then show "p = q" using p' q' by simp
  qed
  ultimately show "edge_matching edges (set C) (cell C S ` M)"
    using el by (auto simp: edge_matching_def cell_def)
  have "(\<Sum>p \<in> M. weight (fst (cell C S p)) (edge_value edges (cell C S p)))
      = (\<Sum>p \<in> M. weight_at weights (fst p) (snd p))"
    by (rule sum.cong) (use el in \<open>auto simp: weight_at_def cell_def\<close>)
  then show "edges_weight weight edges (cell C S ` M) = matching_weight weights M"
    unfolding edges_weight_def matching_weight_def by (simp add: sum.reindex [OF inj] case_prod_beta)
qed

lemma cells_matching:
  assumes t: "table_of weight edges C S weights" and C: "C \<noteq> []" "distinct C" and S: "distinct S"
    and cover: "\<And>c. c \<in> set C \<Longrightarrow> fst ` set (edges ! c) \<subseteq> set S"
    and M: "edge_matching edges (set C) M"
  obtains M0 where "is_matching weights None M0" "cell C S ` M0 = M"
proof -
  define M0 where "M0 = {p \<in> {..<length C} \<times> {..<length S}. cell C S p \<in> M}"
  have img: "cell C S ` M0 = M"
  proof (intro set_eqI iffI)
    fix p assume p: "p \<in> M"
    then have "fst p \<in> set C" "snd p \<in> set S" using M cover by (force simp: edge_matching_def)+
    then obtain r k where "r < length C" "C ! r = fst p" "k < length S" "S ! k = snd p"
      by (metis in_set_conv_nth)
    then have "(r, k) \<in> M0" "cell C S (r, k) = p" using p by (auto simp: M0_def cell_def)
    then show "p \<in> cell C S ` M0" by (metis imageI)
  qed (auto simp: M0_def)
  have injs: "inj_on fst M" "inj_on snd M" using M by (simp_all add: edge_matching_def)
  have inj: "inj_on (cell C S) M0" by (rule inj_on_subset [OF cell_inj [OF C(2) S]]) (auto simp: M0_def)
  have "inj_on fst M0"
  proof (rule inj_onI)
    fix p q assume pq: "p \<in> M0" "q \<in> M0" "fst p = fst q"
    have "cell C S p = cell C S q"
      by (rule inj_onD [OF injs(1)]) (use pq in \<open>auto simp: M0_def cell_def\<close>)
    then show "p = q" by (rule inj_onD [OF inj _ pq(1,2)])
  qed
  moreover have "inj_on snd M0"
  proof (rule inj_onI)
    fix p q assume pq: "p \<in> M0" "q \<in> M0" "snd p = snd q"
    have "cell C S p = cell C S q"
      by (rule inj_onD [OF injs(2)]) (use pq in \<open>auto simp: M0_def cell_def\<close>)
    then show "p = q" by (rule inj_onD [OF inj _ pq(1,2)])
  qed
  moreover have "r < length weights \<and> k < source_columns weights \<and> weights ! r ! k \<noteq> None"
    if rk: "(r, k) \<in> M0" for r k
  proof -
    have b: "r < length C" "k < length S" "(C ! r, S ! k) \<in> M" using rk by (auto simp: M0_def cell_def)
    then have "S ! k \<in> fst ` set (edges ! (C ! r))" using M by (auto simp: edge_matching_def)
    then have "map_of (edges ! (C ! r)) (S ! k) \<noteq> None" by (simp add: map_of_eq_None_iff)
    then show ?thesis using b t table_of_columns [OF t C(1)] by (auto simp: table_of_def)
  qed
  ultimately have "is_matching weights None M0" unfolding is_matching_def by auto
  then show ?thesis using that img by blast
qed


lemma fill_rows_table:
  assumes "distinct S"
    and "\<And>c. c \<in> set C \<Longrightarrow> fst ` set (edges ! c) \<subseteq> set S \<and> distinct (map fst (edges ! c))"
  obtains rows where "fill_rows f S edges C = Some rows" and "table_of f edges C S rows"
  by (rule fill_rows_spec [OF assms, where f = f]) (auto simp: table_of_def intro: that)

lemma table_of_ok:
  assumes t: "table_of weight edges C S weights" and C: "C \<noteq> []"
    and bound: "\<And>c s v. c \<in> set C \<Longrightarrow> (s, v) \<in> set (edges ! c) \<Longrightarrow> 0 < weight c v \<and> weight c v \<le> W"
    and W: "2 * int W < i128_max" "length C * W < 2 ^ 128"
  shows "table_ok W weights"
    "\<And>r k w. r < length weights \<Longrightarrow> k < source_columns weights \<Longrightarrow> weights ! r ! k = Some w \<Longrightarrow> 0 < w"
proof -
  have len: "length weights = length C" "source_columns weights = length S"
    using t table_of_columns [OF t C] by (simp_all add: table_of_def)
  have entry: "0 < w \<and> w \<le> W" if "r < length C" "k < length S" "weights ! r ! k = Some w" for r k w
  proof -
    from that t obtain v where "map_of (edges ! (C ! r)) (S ! k) = Some v" "w = weight (C ! r) v"
      by (auto simp: table_of_def)
    then show ?thesis using bound [of "C ! r" "S ! k" v] that(1) by (auto dest: map_of_SomeD)
  qed
  show "0 < w" if "r < length weights" "k < source_columns weights" "weights ! r ! k = Some w" for r k w
    using entry that len by simp
  have "length row = source_columns weights \<and> (\<forall>w. Some w \<in> set row \<longrightarrow> w \<le> W)" if row: "row \<in> set weights" for row
  proof -
    obtain r where r: "r < length C" "row = weights ! r" using row len by (metis in_set_conv_nth)
    moreover from this have "length row = length S" using t by (simp add: table_of_def)
    ultimately show ?thesis using entry len by (auto simp: in_set_conv_nth)
  qed
  then show "table_ok W weights" using len C W by (auto simp: table_ok_def)
qed

lemma scored_pairs_Some:
  "(\<And>c s. (c, s) \<in> set sel \<Longrightarrow> raw ! c ! s \<noteq> None) \<Longrightarrow>
     scored_pairs raw C S sel = Some (map (\<lambda>p. (C ! fst p, S ! snd p, the (raw ! fst p ! snd p))) sel)"
  by (induction sel) (auto split: option.splits)

lemma inj_on_set_distinct: "distinct xs \<Longrightarrow> inj_on f (set xs) \<Longrightarrow> distinct (map f xs)"
  by (simp add: distinct_map)

lemma selected_on_edges:
  assumes "distinct C" "distinct S" and m: "is_matching weights banned (set sel)" and "distinct sel"
    and el: "\<And>r k. (r, k) \<in> set sel \<Longrightarrow> r < length C \<and> k < length S \<and> raw ! r ! k \<noteq> None \<and>
      (S ! k, the (raw ! r ! k)) \<in> set (edges ! (C ! r))"
  shows "pairs_on_edges edges (set C) (map (\<lambda>p. (C ! fst p, S ! snd p, the (raw ! fst p ! snd p))) sel)"
proof -
  have inj: "inj_on fst (set sel)" "inj_on snd (set sel)" using m by (simp_all add: is_matching_def)
  have "inj_on (\<lambda>p. C ! fst p) (set sel)"
  proof (rule inj_onI)
    fix p q assume pq: "p \<in> set sel" "q \<in> set sel" "C ! fst p = C ! fst q"
    have "fst p = fst q" using pq el [of "fst p" "snd p"] el [of "fst q" "snd q"] assms(1)
      by (simp add: nth_eq_iff_index_eq)
    then show "p = q" by (rule inj_onD [OF inj(1) _ pq(1,2)])
  qed
  moreover have "inj_on (\<lambda>p. S ! snd p) (set sel)"
  proof (rule inj_onI)
    fix p q assume pq: "p \<in> set sel" "q \<in> set sel" "S ! snd p = S ! snd q"
    have "snd p = snd q" using pq el [of "fst p" "snd p"] el [of "fst q" "snd q"] assms(2)
      by (simp add: nth_eq_iff_index_eq)
    then show "p = q" by (rule inj_onD [OF inj(2) _ pq(1,2)])
  qed
  ultimately show ?thesis using assms(4) el
    by (auto simp: pairs_on_edges_def comp_def intro!: inj_on_set_distinct)
qed

lemma solve_component_spec:
  assumes C: "C \<noteq> []" "distinct C" and S: "distinct S"
    and cover: "\<And>c. c \<in> set C \<Longrightarrow> fst ` set (edges ! c) \<subseteq> set S \<and> distinct (map fst (edges ! c))"
    and bound: "\<And>c s v. c \<in> set C \<Longrightarrow> (s, v) \<in> set (edges ! c) \<Longrightarrow> 0 < weight c v \<and> weight c v \<le> W"
    and W: "2 * int W < i128_max" "length C * W < 2 ^ 128"
  obtains (tied) "solve_component weight edges C S = Some None" "tied_best weight edges (set C)"
    | (unique) sel where "solve_component weight edges C S = Some (Some sel)"
        "pairs_on_edges edges (set C) sel" "unique_best weight edges (set C) (pair_set sel)"
proof -
  obtain raw where raw: "fill_rows (\<lambda>_ v. v) S edges C = Some raw" and raw_t: "table_of (\<lambda>_ v. v) edges C S raw"
    by (rule fill_rows_table [OF S cover])
  obtain weights where weights: "fill_rows weight S edges C = Some weights" and t: "table_of weight edges C S weights"
    by (rule fill_rows_table [OF S cover])
  have ok: "table_ok W weights" using table_of_ok(1) [OF t C(1) _ W] bound by blast
  have pos: "0 < w" if "r < length weights" "k < source_columns weights" "weights ! r ! k = Some w" for r k w
    using table_of_ok(2) [OF t C(1) _ W that] bound by blast
  obtain sel where sel: "optimal_assignment weights None = Some (matching_weight weights (set sel), sel)"
    "is_matching weights None (set sel)" "distinct sel"
    "\<And>M. is_matching weights None M \<Longrightarrow> matching_weight weights M \<le> matching_weight weights (set sel)"
    using optimal_assignment_best [OF ok, of None] by metis
  have cells: "edge_matching edges (set C) (cell C S ` M)"
    "edges_weight weight edges (cell C S ` M) = matching_weight weights M" if "is_matching weights None M" for M
    using matching_cells [OF t C S that] by auto
  have pull: "\<exists>M0. is_matching weights None M0 \<and> cell C S ` M0 = M" if "edge_matching edges (set C) M" for M
    using cells_matching [OF t C S _ that] cover by metis
  obtain b where b: "equal_best_alternative weights (matching_weight weights (set sel)) sel = Some b"
    using equal_best_alternative_iff [OF ok] by blast
  show thesis
  proof (cases b)
    case True
    then obtain M where M: "is_matching weights None M" "M \<noteq> set sel"
      "matching_weight weights M = matching_weight weights (set sel)"
      using alternative_not_unique [OF ok] b by metis
    have "cell C S ` M \<noteq> cell C S ` set sel"
    proof
      assume eq: "cell C S ` M = cell C S ` set sel"
      have "N \<subseteq> {..<length C} \<times> {..<length S}" if "is_matching weights None N" for N
        using that t table_of_columns [OF t C(1)] by (auto simp: is_matching_def table_of_def)
      then have "M = set sel"
        using inj_on_image_eq_iff [OF cell_inj [OF C(2) S]] eq M(1) sel(2) by metis
      with M(2) show False ..
    qed
    moreover have "edges_weight weight edges N \<le> edges_weight weight edges (cell C S ` set sel)"
      if "edge_matching edges (set C) N" for N
      using pull [OF that] cells sel(2,4) by metis
    ultimately have "tied_best weight edges (set C)"
      unfolding tied_best_def using cells [OF M(1)] cells [OF sel(2)] M(3) by metis
    moreover have "solve_component weight edges C S = Some None"
      using raw weights sel(1) b True by (simp add: solve_component_def)
    ultimately show thesis by (rule tied [rotated])
  next
    case False
    let ?f = "\<lambda>p. (C ! fst p, S ! snd p, the (raw ! fst p ! snd p))"
    have el: "r < length C \<and> k < length S \<and> raw ! r ! k \<noteq> None \<and>
        (S ! k, the (raw ! r ! k)) \<in> set (edges ! (C ! r))" if rk: "(r, k) \<in> set sel" for r k
    proof -
      have "r < length C" "k < length S" "weights ! r ! k \<noteq> None"
        using sel(2) rk t table_of_columns [OF t C(1)] by (auto simp: is_matching_def table_of_def)
      then show ?thesis using t raw_t by (auto simp: table_of_def dest: map_of_SomeD)
    qed
    have "scored_pairs raw C S sel = Some (map ?f sel)" by (rule scored_pairs_Some) (use el in blast)
    then have solve: "solve_component weight edges C S = Some (Some (map ?f sel))"
      using raw weights sel(1) b False by (simp add: solve_component_def)
    have P: "pair_set (map ?f sel) = cell C S ` set sel"
      by (force simp: pair_set_def cell_def)
    have m: "edge_matching edges (set C) (cell C S ` set sel)" using cells sel(2) by blast
    have "unique_best weight edges (set C) (pair_set (map ?f sel))"
      unfolding unique_best_def P
    proof (intro conjI allI impI m)
      fix M assume M: "edge_matching edges (set C) M \<and> M \<noteq> cell C S ` set sel"
      then obtain M0 where M0: "is_matching weights None M0" "cell C S ` M0 = M" using pull by blast
      have ne: "M0 \<noteq> set sel" using M M0 by blast
      have "matching_weight weights M0 < matching_weight weights (set sel)"
        by (rule no_alternative_unique [OF ok _ sel(2) _ _ M0(1) ne]) (use pos sel(4) b False in auto)
      then show "edges_weight weight edges M < edges_weight weight edges (cell C S ` set sel)"
        using cells M0 sel(2) by metis
    qed
    moreover have "pairs_on_edges edges (set C) (map ?f sel)"
      by (rule selected_on_edges [OF C(2) S sel(2,3) el])
    ultimately show thesis using unique solve by blast
  qed
qed


section \<open>Combining components\<close>

lemma edge_matching_finite:
  assumes "edge_matching edges C M" and "finite C"
  shows "finite M"
proof (rule finite_imageD [of fst])
  have "fst ` M \<subseteq> C" using assms(1) by (auto simp: edge_matching_def)
  then show "finite (fst ` M)" using assms(2) by (rule finite_subset)
qed (use assms(1) in \<open>simp add: edge_matching_def\<close>)

definition separate :: "(nat \<times> nat) list list \<Rightarrow> nat set \<Rightarrow> nat set \<Rightarrow> bool" where
  "separate edges A B \<longleftrightarrow> A \<inter> B = {} \<and>
     (\<forall>a \<in> A. \<forall>b \<in> B. fst ` set (edges ! a) \<inter> fst ` set (edges ! b) = {})"

lemma edge_matching_restrict:
  "edge_matching edges (A \<union> B) M \<Longrightarrow> edge_matching edges A {p \<in> M. fst p \<in> A}"
  unfolding edge_matching_def by (auto intro: inj_on_subset)

lemma edge_matching_Un:
  assumes sep: "separate edges A B" and P: "edge_matching edges A P" and Q: "edge_matching edges B Q"
  shows "edge_matching edges (A \<union> B) (P \<union> Q)" and "P \<inter> Q = {}"
proof -
  have el: "fst p \<in> A \<and> snd p \<in> fst ` set (edges ! fst p)" if "p \<in> P" for p
    using P that unfolding edge_matching_def case_prod_beta by blast
  have el': "fst p \<in> B \<and> snd p \<in> fst ` set (edges ! fst p)" if "p \<in> Q" for p
    using Q that unfolding edge_matching_def case_prod_beta by blast
  have ne: "fst p \<noteq> fst q \<and> snd p \<noteq> snd q" if "p \<in> P" "q \<in> Q" for p q
  proof -
    have a: "fst p \<in> A" "fst q \<in> B" using el el' that by blast+
    have "fst p \<noteq> fst q" using a sep by (auto simp: separate_def)
    moreover have "fst ` set (edges ! fst p) \<inter> fst ` set (edges ! fst q) = {}"
      using a sep by (simp add: separate_def)
    ultimately show ?thesis
      using el [OF that(1), THEN conjunct2] el' [OF that(2), THEN conjunct2] by (metis disjoint_iff)
  qed
  show "P \<inter> Q = {}" using ne by blast
  have inj: "inj_on fst P" "inj_on snd P" "inj_on fst Q" "inj_on snd Q"
    using P Q by (simp_all add: edge_matching_def)
  have "inj_on fst (P \<union> Q)" using inj ne by (auto simp: inj_on_Un)
  moreover have "inj_on snd (P \<union> Q)" using inj ne by (auto simp: inj_on_Un)
  moreover have "\<forall>p \<in> P \<union> Q. fst p \<in> A \<union> B \<and> snd p \<in> fst ` set (edges ! fst p)" using el el' by blast
  ultimately show "edge_matching edges (A \<union> B) (P \<union> Q)" by (simp add: edge_matching_def case_prod_beta)
qed

lemma edges_weight_Un:
  "finite P \<Longrightarrow> finite Q \<Longrightarrow> P \<inter> Q = {} \<Longrightarrow>
     edges_weight weight edges (P \<union> Q) = edges_weight weight edges P + edges_weight weight edges Q"
  by (simp add: edges_weight_def sum.union_disjoint)

lemma edge_matching_split:
  assumes M: "edge_matching edges (A \<union> B) M" and fin: "finite A" "finite B" and sep: "separate edges A B"
  obtains M1 M2 where "M = M1 \<union> M2" "edge_matching edges A M1" "edge_matching edges B M2"
    "edges_weight weight edges M = edges_weight weight edges M1 + edges_weight weight edges M2"
proof -
  let ?M1 = "{p \<in> M. fst p \<in> A}" and ?M2 = "{p \<in> M. fst p \<in> B}"
  have m: "edge_matching edges A ?M1" "edge_matching edges B ?M2"
    using edge_matching_restrict [OF M] edge_matching_restrict [of edges B A M] M by (simp_all add: Un_commute)
  have eq: "M = ?M1 \<union> ?M2" using M by (auto simp: edge_matching_def)
  have "?M1 \<inter> ?M2 = {}" using sep by (auto simp: separate_def)
  then have "edges_weight weight edges M = edges_weight weight edges ?M1 + edges_weight weight edges ?M2"
    using edges_weight_Un [of ?M1 ?M2 weight edges] edge_matching_finite [OF m(1) fin(1)]
      edge_matching_finite [OF m(2) fin(2)] eq by simp
  then show ?thesis using that [OF eq m] by blast
qed

lemma unique_best_le:
  "unique_best weight edges C P \<Longrightarrow> edge_matching edges C M \<Longrightarrow>
     edges_weight weight edges M \<le> edges_weight weight edges P"
  by (cases "M = P") (auto simp: unique_best_def less_imp_le)

lemma unique_best_Un:
  assumes P: "unique_best weight edges A P" and Q: "unique_best weight edges B Q"
    and fin: "finite A" "finite B" and sep: "separate edges A B"
  shows "unique_best weight edges (A \<union> B) (P \<union> Q)"
proof -
  have m: "edge_matching edges A P" "edge_matching edges B Q" using P Q by (simp_all add: unique_best_def)
  note PQ = edge_matching_Un [OF sep m]
  have w: "edges_weight weight edges (P \<union> Q) = edges_weight weight edges P + edges_weight weight edges Q"
    by (rule edges_weight_Un [OF edge_matching_finite [OF m(1) fin(1)] edge_matching_finite [OF m(2) fin(2)] PQ(2)])
  have "edges_weight weight edges M < edges_weight weight edges (P \<union> Q)"
    if M: "edge_matching edges (A \<union> B) M" "M \<noteq> P \<union> Q" for M
  proof -
    obtain M1 M2 where s: "M = M1 \<union> M2" "edge_matching edges A M1" "edge_matching edges B M2"
      "edges_weight weight edges M = edges_weight weight edges M1 + edges_weight weight edges M2"
      by (rule edge_matching_split [OF M(1) fin sep])
    then have "M1 \<noteq> P \<or> M2 \<noteq> Q" using M(2) by blast
    then have "edges_weight weight edges M1 < edges_weight weight edges P \<or>
        edges_weight weight edges M2 < edges_weight weight edges Q"
      using P Q s(2,3) by (auto simp: unique_best_def)
    then show ?thesis
      using unique_best_le [OF P s(2)] unique_best_le [OF Q s(3)] s(4) w by linarith
  qed
  then show ?thesis using PQ(1) by (simp add: unique_best_def)
qed

lemma best_matching_exists:
  assumes "finite C" and "\<And>c. c \<in> C \<Longrightarrow> fst ` set (edges ! c) \<subseteq> {..<m}"
  obtains R where "edge_matching edges C R"
    "\<And>M. edge_matching edges C M \<Longrightarrow> edges_weight weight edges M \<le> edges_weight weight edges R"
proof -
  let ?Ms = "{M. edge_matching edges C M}"
  have "?Ms \<subseteq> Pow (C \<times> {..<m})" using assms(2) by (fastforce simp: edge_matching_def)
  then have fin: "finite ?Ms" by (rule finite_subset) (use assms(1) in simp)
  have ne: "?Ms \<noteq> {}" by (auto simp: edge_matching_def intro: exI [of _ "{}"])
  let ?w = "edges_weight weight edges"
  have "Max (?w ` ?Ms) \<in> ?w ` ?Ms" using fin ne by simp
  then obtain R where R: "R \<in> ?Ms" "?w R = Max (?w ` ?Ms)" by auto
  show ?thesis
  proof (rule that)
    fix M assume "edge_matching edges C M"
    then show "?w M \<le> ?w R" using R(2) fin by simp
  qed (use R(1) in simp)
qed

lemma tied_best_extend:
  assumes tied: "tied_best weight edges A" and fin: "finite A" "finite B" and sep: "separate edges A B"
    and range: "\<And>c. c \<in> B \<Longrightarrow> fst ` set (edges ! c) \<subseteq> {..<m}"
  shows "tied_best weight edges (A \<union> B)"
proof -
  obtain P Q where PQ: "edge_matching edges A P" "edge_matching edges A Q" "P \<noteq> Q"
    "edges_weight weight edges P = edges_weight weight edges Q"
    "\<And>M. edge_matching edges A M \<Longrightarrow> edges_weight weight edges M \<le> edges_weight weight edges P"
    using tied unfolding tied_best_def by blast
  obtain R where R: "edge_matching edges B R"
    "\<And>M. edge_matching edges B M \<Longrightarrow> edges_weight weight edges M \<le> edges_weight weight edges R"
    using best_matching_exists [OF fin(2) range] by metis
  note u = edge_matching_Un [OF sep PQ(1) R(1)] edge_matching_Un [OF sep PQ(2) R(1)]
  have w: "edges_weight weight edges (P \<union> R) = edges_weight weight edges P + edges_weight weight edges R"
    "edges_weight weight edges (Q \<union> R) = edges_weight weight edges Q + edges_weight weight edges R"
    by (rule edges_weight_Un; use edge_matching_finite PQ(1,2) R(1) fin u(2,4) in blast)+
  have "P \<union> R \<noteq> Q \<union> R" using PQ(3) u(2,4) by blast
  moreover have "edges_weight weight edges M \<le> edges_weight weight edges (P \<union> R)"
    if M: "edge_matching edges (A \<union> B) M" for M
  proof -
    obtain M1 M2 where "edge_matching edges A M1" "edge_matching edges B M2"
      "edges_weight weight edges M = edges_weight weight edges M1 + edges_weight weight edges M2"
      by (rule edge_matching_split [OF M fin sep])
    then show ?thesis using PQ(5) R(2) w(1) by (simp add: add_mono)
  qed
  ultimately show ?thesis unfolding tied_best_def using u(1,3) w PQ(4) by metis
qed


lemma pairs_on_edges_append:
  assumes "separate edges A B" and p: "pairs_on_edges edges A ps" and q: "pairs_on_edges edges B qs"
  shows "pairs_on_edges edges (A \<union> B) (ps @ qs)"
proof -
  have "x \<noteq> y \<and> x' \<noteq> y'" if "(x, x', v) \<in> set ps" "(y, y', w) \<in> set qs" for x x' v y y' w
  proof -
    have a: "x \<in> A" "y \<in> B" using p q that by (auto simp: pairs_on_edges_def)
    have s: "x' \<in> fst ` set (edges ! x)" "y' \<in> fst ` set (edges ! y)"
      using p q that by (force simp: pairs_on_edges_def)+
    have "fst ` set (edges ! x) \<inter> fst ` set (edges ! y) = {}" "x \<noteq> y"
      using a assms(1) by (auto simp: separate_def)
    then show ?thesis using s by (metis disjoint_iff)
  qed
  then have "fst ` set ps \<inter> fst ` set qs = {}" "(fst \<circ> snd) ` set ps \<inter> (fst \<circ> snd) ` set qs = {}"
    by fastforce+
  then show ?thesis using p q by (auto simp: pairs_on_edges_def)
qed

lemma pair_set_append [simp]: "pair_set (ps @ qs) = pair_set ps \<union> pair_set qs"
  by (simp add: pair_set_def image_Un)

definition components_inv ::
  "(nat \<Rightarrow> nat \<Rightarrow> nat) \<Rightarrow> (nat \<times> nat) list list \<Rightarrow> nat list list \<Rightarrow> nat \<Rightarrow> nat \<Rightarrow> nat list
    \<Rightarrow> bool list \<Rightarrow> bool list \<Rightarrow> (nat \<times> nat \<times> nat) list \<Rightarrow> bool" where
  "components_inv weight edges reverse n m starts cs ss pairs \<longleftrightarrow>
     length cs = n \<and> length ss = m \<and> closed_marks edges reverse cs ss \<and> set starts \<subseteq> {..<n} \<and>
     (\<forall>c < n. c \<in> set starts \<or> c \<in> marked cs \<or> edges ! c = []) \<and>
     pairs_on_edges edges (marked cs) pairs \<and> unique_best weight edges (marked cs) (pair_set pairs)"

lemma components_invD:
  assumes "components_inv weight edges reverse n m starts cs ss pairs"
  shows "length cs = n" "length ss = m" "closed_marks edges reverse cs ss" "set starts \<subseteq> {..<n}"
    "\<forall>c < n. c \<in> set starts \<or> c \<in> marked cs \<or> edges ! c = []"
    "pairs_on_edges edges (marked cs) pairs" "unique_best weight edges (marked cs) (pair_set pairs)"
  using assms unfolding components_inv_def by blast+

definition assign_result_ok ::
  "(nat \<Rightarrow> nat \<Rightarrow> nat) \<Rightarrow> (nat \<times> nat) list list \<Rightarrow> nat \<Rightarrow> (assignment_error, assignment) result option \<Rightarrow> bool" where
  "assign_result_ok weight edges n r \<longleftrightarrow>
     (case r of
        None \<Rightarrow> False
      | Some (Inl _) \<Rightarrow> True
      | Some (Inr a) \<Rightarrow>
          if as_ambiguous a then as_pairs a = [] \<and> tied_best weight edges {..<n}
          else pairs_on_edges edges {..<n} (as_pairs a) \<and>
               unique_best weight edges {..<n} (pair_set (as_pairs a)))"

lemma finite_marked [simp]: "finite (marked cs)"
  by (rule finite_subset [of _ "{..<length cs}"]) (auto simp: marked_def)

lemma component_separate:
  assumes comp: "component start edges reverse cs ss = ((C, S), cs', ss')"
    and g: "graph_ok n m edges reverse" and inv: "length cs = n" "length ss = m" "closed_marks edges reverse cs ss"
    and start: "start < n" "start \<notin> marked cs"
  shows "separate edges (marked cs) (set C)" "separate edges (set C) ({..<n} - set C)"
proof -
  note sp = component_spec [OF comp g inv start]
  show "separate edges (marked cs) (set C)"
    unfolding separate_def
  proof (intro conjI ballI)
    fix a b assume "a \<in> marked cs" "b \<in> set C"
    then have "fst ` set (edges ! a) \<subseteq> marked ss" "fst ` set (edges ! b) \<subseteq> set S"
      using inv(3) sp(11) unfolding closed_marks_def by blast+
    then show "fst ` set (edges ! a) \<inter> fst ` set (edges ! b) = {}" using sp(9) by blast
  qed (use sp(8) in blast)
  show "separate edges (set C) ({..<n} - set C)"
    unfolding separate_def
  proof (intro conjI ballI)
    fix a b assume a: "a \<in> set C" and b: "b \<in> {..<n} - set C"
    have "s \<notin> fst ` set (edges ! b)" if s: "s \<in> fst ` set (edges ! a)" for s
    proof
      assume sb: "s \<in> fst ` set (edges ! b)"
      have "s \<in> set S" using sp(11) [OF a] s by blast
      moreover have "s < m" using calculation sp(2,4) by (auto simp: marked_def)
      then have "b \<in> set (reverse ! s)" using g b sb by (auto simp: graph_ok_def)
      moreover have "s \<in> marked ss'" using calculation(1) sp(4) by blast
      ultimately have "b \<in> marked cs'" using sp(10) unfolding closed_marks_def by blast
      then have "b \<in> marked cs" using b sp(3) by blast
      then have "s \<in> marked ss" using sb inv(3) unfolding closed_marks_def by blast
      then show False using \<open>s \<in> set S\<close> sp(9) by blast
    qed
    then show "fst ` set (edges ! a) \<inter> fst ` set (edges ! b) = {}" by blast
  qed blast
qed

lemma unique_best_all:
  assumes "unique_best weight edges A P" and "A \<subseteq> B" and "\<And>b. b \<in> B - A \<Longrightarrow> edges ! b = []"
  shows "unique_best weight edges B P"
proof -
  have "edge_matching edges B M \<longleftrightarrow> edge_matching edges A M" for M
    using assms(2,3) unfolding edge_matching_def by fastforce
  then show ?thesis using assms(1) by (simp add: unique_best_def)
qed

lemma assign_components_spec:
  assumes g: "graph_ok n m edges reverse"
    and bound: "\<And>c s v. c < n \<Longrightarrow> (s, v) \<in> set (edges ! c) \<Longrightarrow> 0 < weight c v \<and> weight c v \<le> W"
    and W: "2 * int W < i128_max" "n * W < 2 ^ 128"
    and inv: "components_inv weight edges reverse n m starts cs ss pairs"
  shows "assign_result_ok weight edges n
    (assign_components weight policy edges reverse starts cs ss operations pairs)"
  using inv
proof (induction starts arbitrary: cs ss operations pairs)
  case Nil
  note i = components_invD [OF Nil]
  have sub: "marked cs \<subseteq> {..<n}" using i(1) by (auto simp: marked_def)
  then have "unique_best weight edges {..<n} (pair_set pairs)"
    using i(5) by (intro unique_best_all [OF i(7)]) auto
  moreover have "pairs_on_edges edges {..<n} pairs" using i(6) sub by (auto simp: pairs_on_edges_def)
  ultimately show ?case by (simp add: assign_result_ok_def)
next
  case (Cons start starts)
  note i = components_invD [OF Cons.prems]
  show ?case
  proof (cases "cs ! start \<or> edges ! start = []")
    case True
    moreover have "start < length cs" using i(1,4) by simp
    ultimately have "components_inv weight edges reverse n m starts cs ss pairs"
      using Cons.prems by (auto simp: components_inv_def marked_def)
    then show ?thesis using True Cons.IH by simp
  next
    case False
    obtain C S cs' ss' where comp: "component start edges reverse cs ss = ((C, S), cs', ss')"
      by (metis prod.exhaust)
    have start: "start < n" "start \<notin> marked cs" using i(4) False by (auto simp: marked_def)
    note sp = component_spec [OF comp g i(1-3) start]
    note sep = component_separate [OF comp g i(1-3) start]
    have Cn: "set C \<subseteq> {..<n}" using sp(1,3) by (auto simp: marked_def)
    then have "length C \<le> n" using distinct_card [OF sp(5)] card_mono [of "{..<n}" "set C"] by simp
    then have "length C * W \<le> n * W" by simp
    then have WC: "length C * W < 2 ^ 128" using W(2) by linarith
    have C: "C \<noteq> []" using sp(7) by auto
    have cover: "fst ` set (edges ! c) \<subseteq> set S \<and> distinct (map fst (edges ! c))" if "c \<in> set C" for c
      using sp(11) [OF that] g Cn that by (auto simp: graph_ok_def)
    have bd: "0 < weight c v \<and> weight c v \<le> W" if "c \<in> set C" "(s, v) \<in> set (edges ! c)" for c s v
      using bound Cn that by blast
    consider (tied) "solve_component weight edges C S = Some None" "tied_best weight edges (set C)"
      | (unique) sel where "solve_component weight edges C S = Some (Some sel)"
          "pairs_on_edges edges (set C) sel" "unique_best weight edges (set C) (pair_set sel)"
    proof (rule solve_component_spec [OF C sp(5,6) _ _ W(1) WC, where edges = edges and weight = weight])
      show "fst ` set (edges ! c) \<subseteq> set S \<and> distinct (map fst (edges ! c))" if "c \<in> set C" for c
        by (rule cover [OF that])
      show "0 < weight c v \<and> weight c v \<le> W" if "c \<in> set C" "(s, v) \<in> set (edges ! c)" for c s v
        by (rule bd [OF that])
    qed
    then show ?thesis
    proof cases
      case s: tied
      have "tied_best weight edges (set C \<union> ({..<n} - set C))"
        by (rule tied_best_extend [OF s(2) _ _ sep(2), of m]) (use g in \<open>auto simp: graph_ok_def\<close>)
      then show ?thesis using False comp s(1) Cn
        by (auto simp: assign_result_ok_def Let_def Un_absorb1)
    next
      case s: unique
      have "components_inv weight edges reverse n m starts cs' ss' (pairs @ sel)"
        unfolding components_inv_def sp(3) pair_set_append
        using i(4,5) sp(1,2,7,10) pairs_on_edges_append [OF sep(1) i(6) s(2)]
          unique_best_Un [OF i(7) s(3) _ _ sep(1)] by auto
      then show ?thesis using False comp s(1) Cons.IH by (simp add: assign_result_ok_def [of _ _ _ "Some (Inl _)"] Let_def)
    qed
  qed
qed


section \<open>Building the edge graph\<close>

text \<open>What the edge construction relies on from a scoring function.\<close>

locale edge_scorer =
  fixes score :: score_fun
  assumes score_bucket: "score candidate source policy = Some v \<Longrightarrow>
      bucket (tf_size candidate) (tf_path candidate) (primary candidate policy)
        = bucket (lf_size source) (lf_path source) (primary_path (lf_path source) policy)"
    and score_range: "score candidate source policy = Some v \<Longrightarrow> 1 \<le> v \<and> v \<le> 1111111"
    and score_size: "score candidate source policy = Some v \<Longrightarrow> tf_size candidate = lf_size source"

lemma graph_ok_add:
  assumes g: "graph_ok n m E R" and "c < n" "s < m" "s \<notin> fst ` set (E ! c)"
  shows "graph_ok n m (E[c := E ! c @ [(s, v)]]) (R[s := R ! s @ [c]])"
  unfolding graph_ok_def
proof (intro conjI allI impI)
  fix c' assume "c' < n"
  then show "distinct (map fst (E[c := E ! c @ [(s, v)]] ! c'))" "fst ` set (E[c := E ! c @ [(s, v)]] ! c') \<subseteq> {..<m}"
    using assms by (auto simp: graph_ok_def nth_list_update)
next
  fix s' assume s': "s' < m"
  then have "set (R ! s') = {c. c < n \<and> s' \<in> fst ` set (E ! c)}" using g by (simp add: graph_ok_def)
  then show "set (R[s := R ! s @ [c]] ! s') = {c'. c' < n \<and> s' \<in> fst ` set (E[c := E ! c @ [(s, v)]] ! c')}"
    using assms s' by (auto simp: graph_ok_def nth_list_update)
qed (use g in \<open>auto simp: graph_ok_def\<close>)

lemma length_concat_update:
  "c < length E \<Longrightarrow> length (concat (E[c := E ! c @ [e]])) = Suc (length (concat E))"
proof (induction E arbitrary: c)
  case (Cons x E)
  then show ?case by (cases c) auto
qed simp

definition scan_ok :: "nat \<Rightarrow> nat \<Rightarrow> matching_policy \<Rightarrow> edge_state \<Rightarrow> bool" where
  "scan_ok n m policy st \<longleftrightarrow> graph_ok n m (es_edges st) (es_reverse st) \<and>
     es_count st = length (concat (es_edges st)) \<and> es_count st \<le> mp_max_candidate_edges policy"

lemma scan_bucket_spec:
  assumes "scan_bucket score policy sources c candidate bs st = Inr st'"
    and "distinct bs" "set bs \<subseteq> {..<m}" "c < n" "scan_ok n m policy st"
    and "fst ` set (es_edges st ! c) \<inter> set bs = {}"
  shows "scan_ok n m policy st' \<and> (\<forall>c'. c' \<noteq> c \<longrightarrow> es_edges st' ! c' = es_edges st ! c') \<and>
    set (es_edges st' ! c) = set (es_edges st ! c)
      \<union> {(s, v). s \<in> set bs \<and> score candidate (snd (sources ! s)) policy = Some v}"
  using assms
proof (induction bs arbitrary: st)
  case (Cons s bs)
  show ?case
  proof (cases "score candidate (snd (sources ! s)) policy")
    case None
    then have "scan_bucket score policy sources c candidate bs st = Inr st'" using Cons.prems(1) by simp
    from Cons.IH [OF this] Cons.prems None show ?thesis by auto
  next
    case (Some v)
    let ?E = "es_edges st" and ?R = "es_reverse st"
    let ?st = "st\<lparr>es_count := es_count st + 1, es_edges := ?E[c := ?E ! c @ [(s, v)]],
      es_reverse := ?R[s := ?R ! s @ [c]]\<rparr>"
    have run: "scan_bucket score policy sources c candidate bs ?st = Inr st'"
      and le: "es_count st + 1 \<le> mp_max_candidate_edges policy"
      using Cons.prems(1) Some by (auto split: if_splits)
    have g: "graph_ok n m ?E ?R" using Cons.prems(5) by (simp add: scan_ok_def)
    have c: "c < length ?E" using g Cons.prems(4) by (simp add: graph_ok_def)
    have "graph_ok n m (es_edges ?st) (es_reverse ?st)"
      using graph_ok_add [OF g Cons.prems(4), of s v] Cons.prems(3,6) by auto
    moreover have "es_count ?st = length (concat (es_edges ?st))"
      using Cons.prems(5) length_concat_update [OF c] by (simp add: scan_ok_def)
    ultimately have "scan_ok n m policy ?st" using le by (simp add: scan_ok_def)
    moreover have "fst ` set (es_edges ?st ! c) \<inter> set bs = {}" using Cons.prems(2,6) c by auto
    ultimately have "scan_ok n m policy st' \<and> (\<forall>c'. c' \<noteq> c \<longrightarrow> es_edges st' ! c' = es_edges ?st ! c') \<and>
      set (es_edges st' ! c) = set (es_edges ?st ! c)
        \<union> {(s, v). s \<in> set bs \<and> score candidate (snd (sources ! s)) policy = Some v}"
      using Cons.IH [OF run] Cons.prems(2-4) by simp
    then show ?thesis using c Some by auto
  qed
qed simp

lemma fold_buckets:
  "fold (\<lambda>(i, x) m. m(f x := m (f x) @ [i])) (enumerate k xs) m0 key
     = m0 key @ map fst (filter (\<lambda>(i, x). f x = key) (enumerate k xs))"
  by (induction xs arbitrary: k m0) auto

lemma source_buckets_spec:
  "distinct (source_buckets sources policy key)"
  "set (source_buckets sources policy key) = {i. i < length sources \<and>
     bucket (lf_size (snd (sources ! i))) (lf_path (snd (sources ! i)))
       (primary_path (lf_path (snd (sources ! i))) policy) = key}"
proof -
  let ?f = "\<lambda>x. bucket (lf_size (snd x)) (lf_path (snd x)) (primary_path (lf_path (snd x)) policy)"
  have eq: "source_buckets sources policy key
      = map fst (filter (\<lambda>(i, x). ?f x = key) (enumerate 0 sources))"
    unfolding source_buckets_def
    using fold_buckets [of ?f 0 sources "\<lambda>_. []" key] by (simp add: case_prod_unfold Let_def)
  show "distinct (source_buckets sources policy key)"
    unfolding eq by (rule distinct_map_filter) simp
  show "set (source_buckets sources policy key) = {i. i < length sources \<and> ?f (sources ! i) = key}"
    unfolding eq by (force simp: in_set_enumerate_eq image_iff)
qed

context edge_scorer
begin

text \<open>Bucketing loses no edge: the graph has exactly the pairs with a score.\<close>

lemma scan_candidates_spec:
  assumes "scan_candidates score policy sources (enumerate k files) st = Inr st'"
    and "scan_ok n (length sources) policy st" and "k + length files = n"
    and "\<And>c. k \<le> c \<Longrightarrow> c < n \<Longrightarrow> es_edges st ! c = []"
  shows "scan_ok n (length sources) policy st' \<and> (\<forall>c < k. es_edges st' ! c = es_edges st ! c) \<and>
    (\<forall>i < length files. set (es_edges st' ! (k + i)) =
       {(s, v). s < length sources \<and> score (files ! i) (snd (sources ! s)) policy = Some v})"
  using assms
proof (induction files arbitrary: k st)
  case (Cons f files)
  let ?bs = "source_buckets sources policy (bucket (tf_size f) (tf_path f) (primary f policy))"
  from Cons.prems(1) obtain st1 where st1: "scan_bucket score policy sources k f ?bs st = Inr st1"
    and rest: "scan_candidates score policy sources (enumerate (Suc k) files) st1 = Inr st'" by auto
  have k: "k < n" "es_edges st ! k = []" using Cons.prems(3,4) by auto
  have bs: "set ?bs \<subseteq> {..<length sources}" using source_buckets_spec(2) by auto
  have s1: "scan_ok n (length sources) policy st1"
      "\<And>c'. c' \<noteq> k \<Longrightarrow> es_edges st1 ! c' = es_edges st ! c'"
      "set (es_edges st1 ! k) = {(s, v). s \<in> set ?bs \<and> score f (snd (sources ! s)) policy = Some v}"
    using scan_bucket_spec [OF st1 source_buckets_spec(1) bs k(1) Cons.prems(2)] k(2) by auto
  have IH: "scan_ok n (length sources) policy st'" "\<And>c. c < Suc k \<Longrightarrow> es_edges st' ! c = es_edges st1 ! c"
    "\<And>i. i < length files \<Longrightarrow> set (es_edges st' ! (Suc k + i)) =
       {(s, v). s < length sources \<and> score (files ! i) (snd (sources ! s)) policy = Some v}"
    using Cons.IH [OF rest s1(1)] Cons.prems(3,4) s1(2) by auto
  have "set (es_edges st' ! (k + i)) =
      {(s, v). s < length sources \<and> score ((f # files) ! i) (snd (sources ! s)) policy = Some v}"
    if "i < length (f # files)" for i
  proof (cases i)
    case 0
    have "set (es_edges st1 ! k)
        = {(s, v). s < length sources \<and> score f (snd (sources ! s)) policy = Some v}"
      unfolding s1(3) source_buckets_spec(2) using score_bucket by fastforce
    then show ?thesis using 0 IH(2) by simp
  next
    case (Suc j)
    then show ?thesis using IH(3) [of j] that by simp
  qed
  then show ?case using IH(1,2) s1(2) by simp
qed simp

end

lemma edge_score_scorer: "edge_scorer (edge_score u mode)"
  by unfold_locales (erule edge_score_bucket, blast dest: edge_score_SomeD(4,5), erule edge_score_SomeD(1))

interpretation plain_scorer: edge_scorer "edge_score u False" for u
  by (rule edge_score_scorer)

interpretation season_scorer: edge_scorer "edge_score u True" for u
  by (rule edge_score_scorer)


section \<open>The objective\<close>

definition file_matching ::
  "score_fun \<Rightarrow> torrent_file list \<Rightarrow> (source_id \<times> local_source_file) list \<Rightarrow> matching_policy
    \<Rightarrow> (nat \<times> nat) set \<Rightarrow> bool" where
  "file_matching score candidates sources policy M \<longleftrightarrow>
     (\<forall>(c, s) \<in> M. c < length candidates \<and> s < length sources \<and>
        score (candidates ! c) (snd (sources ! s)) policy \<noteq> None) \<and> inj_on fst M \<and> inj_on snd M"

text \<open>
  What the weights encode, in the order of importance: required files matched,
  bytes of primary video matched, and the total score of the pairs.
\<close>

definition objective ::
  "score_fun \<Rightarrow> torrent_file list \<Rightarrow> (source_id \<times> local_source_file) list \<Rightarrow> matching_policy
    \<Rightarrow> (nat \<times> nat) set \<Rightarrow> nat \<times> nat \<times> nat" where
  "objective score candidates sources policy M =
     (\<Sum>p \<in> M. if required (candidates ! fst p) policy then 1 else 0,
      \<Sum>p \<in> M. if primary (candidates ! fst p) policy then tf_size (candidates ! fst p) else 0,
      \<Sum>p \<in> M. the (score (candidates ! fst p) (snd (sources ! snd p)) policy))"

definition edges_of ::
  "score_fun \<Rightarrow> torrent_file list \<Rightarrow> (source_id \<times> local_source_file) list \<Rightarrow> matching_policy
    \<Rightarrow> (nat \<times> nat) list list \<Rightarrow> bool" where
  "edges_of score candidates sources policy E \<longleftrightarrow> length E = length candidates \<and>
     (\<forall>c < length candidates. distinct (map fst (E ! c)) \<and>
        set (E ! c) = {(s, v). s < length sources \<and> score (candidates ! c) (snd (sources ! s)) policy = Some v})"

lemma edges_of_value:
  assumes "edges_of score candidates sources policy E" "c < length candidates" "s < length sources"
    "score (candidates ! c) (snd (sources ! s)) policy = Some v"
  shows "edge_value E (c, s) = v"
proof -
  have "(s, v) \<in> set (E ! c)" "distinct (map fst (E ! c))" using assms by (auto simp: edges_of_def)
  then show ?thesis by (simp add: edge_value_def)
qed

lemma edges_of_matching:
  assumes "edges_of score candidates sources policy E"
  shows "edge_matching E {..<length candidates} M \<longleftrightarrow> file_matching score candidates sources policy M"
proof -
  have "s \<in> fst ` set (E ! c) \<longleftrightarrow> s < length sources \<and> score (candidates ! c) (snd (sources ! s)) policy \<noteq> None"
    if "c < length candidates" for c s
    using assms that by (force simp: edges_of_def image_iff)
  then show ?thesis unfolding edge_matching_def file_matching_def case_prod_beta
    by (intro conj_cong ball_cong refl) auto
qed

lemma sum_matching_le:
  fixes f :: "nat \<Rightarrow> nat"
  assumes "edge_matching E {..<n} M"
  shows "(\<Sum>p \<in> M. f (fst p)) \<le> (\<Sum>c < n. f c)"
proof -
  have inj: "inj_on fst M" and sub: "fst ` M \<subseteq> {..<n}" using assms by (auto simp: edge_matching_def)
  have "(\<Sum>p \<in> M. f (fst p)) = (\<Sum>c \<in> fst ` M. f c)" by (simp add: sum.reindex [OF inj])
  also have "\<dots> \<le> (\<Sum>c < n. f c)" by (rule sum_mono2) (use sub in auto)
  finally show ?thesis .
qed

lemma score_total_le:
  assumes "edge_matching E {..<length E} M"
  shows "(\<Sum>p \<in> M. edge_value E p) \<le> sum_list (map snd (concat E))"
proof -
  have "edge_value E p \<le> sum_list (map snd (E ! fst p))" if p: "p \<in> M" for p
  proof -
    have "snd p \<in> fst ` set (E ! fst p)" using assms p unfolding edge_matching_def case_prod_beta by blast
    then obtain v where "map_of (E ! fst p) (snd p) = Some v" by (metis map_of_eq_None_iff not_None_eq)
    then have "v \<in> set (map snd (E ! fst p))" "edge_value E p = v"
      by (force dest: map_of_SomeD simp: edge_value_def)+
    then show ?thesis using member_le_sum_list [of v "map snd (E ! fst p)"] by simp
  qed
  then have "(\<Sum>p \<in> M. edge_value E p) \<le> (\<Sum>p \<in> M. sum_list (map snd (E ! fst p)))" by (rule sum_mono)
  also have "\<dots> \<le> (\<Sum>c < length E. sum_list (map snd (E ! c)))"
    by (rule sum_matching_le [OF assms, of "\<lambda>c. sum_list (map snd (E ! c))"])
  also have "\<dots> = sum_list (map (\<lambda>es. sum_list (map snd es)) E)"
    by (simp add: sum_list_sum_nth lessThan_atLeast0)
  also have "\<dots> = sum_list (map snd (concat E))" by (induction E) simp_all
  finally show ?thesis .
qed

lemma primary_bytes_exact:
  assumes "sum_list (map tf_size candidates) < 2 ^ 64"
  shows "primary_bytes candidates policy = sum_list (map tf_size (filter (\<lambda>c. primary c policy) candidates))"
proof -
  have fold: "fold (\<lambda>c acc. wrap_u128 (acc + tf_size c)) cs a = a + sum_list (map tf_size cs)"
    if "a + sum_list (map tf_size cs) < 2 ^ 128" for cs a
    using that by (induction cs arbitrary: a) (auto simp: wrap_u128_def)
  have "sum_list (map tf_size (filter (\<lambda>c. primary c policy) candidates)) \<le> sum_list (map tf_size candidates)"
    by (induction candidates) auto
  then have "0 + sum_list (map tf_size (filter (\<lambda>c. primary c policy) candidates)) < 2 ^ 128" using assms by simp
  from fold [OF this] show ?thesis unfolding primary_bytes_def by simp
qed

lemma sum_filter_nth:
  "sum_list (map f (filter P xs)) = (\<Sum>c < length xs. if P (xs ! c) then f (xs ! c) else (0::nat))"
  unfolding sum_list_map_filter' by (simp add: sum_list_sum_nth lessThan_atLeast0)

lemma lex_step:
  fixes a :: nat
  assumes "a < u" "a' < u"
  shows "a + b * u < a' + b' * u \<longleftrightarrow> (b, a) < (b', a')"
proof -
  have mult: "Suc x * u \<le> y * u" if "x < y" for x y :: nat using that by (simp only: mult_le_mono1 Suc_leI)
  consider "b < b'" | "b = b'" | "b' < b" by linarith
  then show ?thesis by cases (use assms mult [of b b'] mult [of b' b] in auto)
qed

lemma lex_weights:
  fixes sc :: nat
  assumes "sc < u" "sc' < u" "pr \<le> pb" "pr' \<le> pb"
  shows "sc + pr * u + rq * ((pb + 1) * u) < sc' + pr' * u + rq' * ((pb + 1) * u)
    \<longleftrightarrow> (rq, pr, sc) < (rq', pr', sc')"
proof -
  have lt: "a + b * u < (pb + 1) * u" if "a < u" "b \<le> pb" for a b
    using that by (auto intro: add_less_le_mono)
  show ?thesis using lex_step [OF lt [OF assms(1,3)] lt [OF assms(2,4)], of rq rq']
      lex_step [OF assms(1,2), of pr pr'] by auto
qed


definition capacity_ok :: "torrent_file list \<Rightarrow> matching_policy \<Rightarrow> bool" where
  "capacity_ok candidates policy \<longleftrightarrow> sum_list (map tf_size candidates) < 2 ^ 64 \<and>
     mp_max_candidate_edges policy \<le> 2 ^ 24 \<and> mp_max_assignment_files policy \<le> 2 ^ 16"

definition exact_units :: "torrent_file list \<Rightarrow> matching_policy \<Rightarrow> (nat \<times> nat) list list \<Rightarrow> nat \<Rightarrow> nat \<Rightarrow> nat \<Rightarrow> bool" where
  "exact_units candidates policy E unit pb req \<longleftrightarrow>
     unit = score_unit E \<and> pb = primary_bytes candidates policy \<and> req = (pb + 1) * unit \<and>
     wrap_u128 req = req \<and> unit = sum_list (map snd (concat E)) + 1 \<and> req \<le> 2 ^ 109 \<and>
     pb = (\<Sum>c < length candidates. if primary (candidates ! c) policy then tf_size (candidates ! c) else 0)"

lemma exact_unitsD:
  assumes "exact_units candidates policy E unit pb req"
  shows "unit = score_unit E" "pb = primary_bytes candidates policy" "req = (pb + 1) * unit"
    "wrap_u128 req = req" "unit = sum_list (map snd (concat E)) + 1" "req \<le> 2 ^ 109"
    "pb = (\<Sum>c < length candidates. if primary (candidates ! c) policy then tf_size (candidates ! c) else 0)"
  using assms unfolding exact_units_def by blast+

lemma edge_weight_exact:
  assumes u: "exact_units candidates policy E unit pb req" and c: "c < length candidates" and v: "v < unit"
  shows "edge_weight candidates policy unit req c v =
      v + (if primary (candidates ! c) policy then tf_size (candidates ! c) else 0) * unit
        + (if required (candidates ! c) policy then 1 else 0) * req"
    and "edge_weight candidates policy unit req c v \<le> 2 ^ 110"
proof -
  note f = exact_unitsD [OF u]
  let ?p = "if primary (candidates ! c) policy then tf_size (candidates ! c) else 0"
  let ?r = "if required (candidates ! c) policy then 1 else 0 :: nat"
  have "?p \<le> pb" unfolding f(7)
    using member_le_sum [of c "{..<length candidates}"
        "\<lambda>c. if primary (candidates ! c) policy then tf_size (candidates ! c) else 0"] c by simp
  then have "?p * unit \<le> pb * unit" by (rule mult_le_mono1)
  then have pu: "v + ?p * unit < req" unfolding f(3) using add_less_le_mono [OF v] by simp
  have pow: "(2::nat) ^ 109 + 2 ^ 109 = 2 ^ 110" "(2::nat) ^ 110 < 2 ^ 128" by simp_all
  have rr: "?r * req \<le> req" by simp
  have le: "v + ?p * unit + ?r * req \<le> 2 ^ 110" using add_mono [OF less_imp_le [OF pu] rr] f(6) pow(1) by linarith
  have "?p * unit < 2 ^ 128" using le pow(2) by linarith
  then have small: "?p * unit mod 2 ^ 128 = ?p * unit" by (rule mod_less)
  have "edge_weight candidates policy unit req c v = wrap_u128 (v + ?p * unit + ?r * req)"
    unfolding edge_weight_def using small by (auto simp: wrap_u128_def)
  moreover have "wrap_u128 (v + ?p * unit + ?r * req) = v + ?p * unit + ?r * req"
    unfolding wrap_u128_def using le pow(2) by (intro mod_less) (rule le_less_trans)
  ultimately show "edge_weight candidates policy unit req c v = v + ?p * unit + ?r * req" by simp
  then show "edge_weight candidates policy unit req c v \<le> 2 ^ 110" using le by simp
qed

lemma objective_order:
  assumes u: "exact_units candidates policy E unit pb req" and E: "edges_of score candidates sources policy E"
    and M: "file_matching score candidates sources policy M" and N: "file_matching score candidates sources policy N"
  shows "edges_weight (edge_weight candidates policy unit req) E M
      < edges_weight (edge_weight candidates policy unit req) E N
    \<longleftrightarrow> objective score candidates sources policy M < objective score candidates sources policy N"
proof -
  note f = exact_unitsD [OF u]
  have len: "length E = length candidates" using E by (simp add: edges_of_def)
  let ?rq = "\<lambda>M. \<Sum>p \<in> M. if required (candidates ! fst p) policy then 1 else 0 :: nat"
  let ?pr = "\<lambda>M. \<Sum>p \<in> M. if primary (candidates ! fst p) policy then tf_size (candidates ! fst p) else 0"
  let ?sc = "\<lambda>M. \<Sum>p \<in> M. edge_value E p"
  have weight: "edges_weight (edge_weight candidates policy unit req) E M = ?sc M + ?pr M * unit + ?rq M * ((pb + 1) * unit)"
    and sc: "?sc M < unit" and pr: "?pr M \<le> pb"
    and obj: "objective score candidates sources policy M = (?rq M, ?pr M, ?sc M)"
    if M: "file_matching score candidates sources policy M" for M
  proof -
    have m: "edge_matching E {..<length candidates} M" using edges_of_matching [OF E] M by simp
    show sc: "?sc M < unit" using score_total_le [of E M] m len f(5) by simp
    show "?pr M \<le> pb" unfolding f(7) by (rule sum_matching_le [OF m])
    have el: "fst p < length candidates" if "p \<in> M" for p using m that by (auto simp: edge_matching_def)
    have "edge_value E p < unit" if p: "p \<in> M" for p
      using member_le_sum [OF p, of "edge_value E"] edge_matching_finite [OF m] sc by simp
    then have "edges_weight (edge_weight candidates policy unit req) E M = (\<Sum>p \<in> M. edge_value E p
        + (if primary (candidates ! fst p) policy then tf_size (candidates ! fst p) else 0) * unit
        + (if required (candidates ! fst p) policy then 1 else 0) * req)"
      unfolding edges_weight_def by (intro sum.cong refl edge_weight_exact(1) [OF u] el)
    then show "edges_weight (edge_weight candidates policy unit req) E M
        = ?sc M + ?pr M * unit + ?rq M * ((pb + 1) * unit)"
      by (simp only: sum.distrib sum_distrib_right f(3))
    have "edge_value E p = the (score (candidates ! fst p) (snd (sources ! snd p)) policy)" if p: "p \<in> M" for p
      using M p edges_of_value [OF E, of "fst p" "snd p"] by (auto simp: file_matching_def)
    then show "objective score candidates sources policy M = (?rq M, ?pr M, ?sc M)"
      by (simp add: objective_def)
  qed
  show ?thesis unfolding weight [OF M] weight [OF N] obj [OF M] obj [OF N]
    by (rule lex_weights [OF sc [OF M] sc [OF N] pr [OF M] pr [OF N]])
qed


section \<open>Correctness of the assignment\<close>

definition assignment_correct ::
  "score_fun \<Rightarrow> torrent_file list \<Rightarrow> (source_id \<times> local_source_file) list \<Rightarrow> matching_policy
    \<Rightarrow> assignment \<Rightarrow> bool" where
  "assignment_correct score candidates sources policy a \<longleftrightarrow>
     (if as_ambiguous a
      then as_pairs a = [] \<and>
        (\<exists>P Q. file_matching score candidates sources policy P \<and> file_matching score candidates sources policy Q \<and>
           P \<noteq> Q \<and> objective score candidates sources policy P = objective score candidates sources policy Q \<and>
           (\<forall>M. file_matching score candidates sources policy M \<longrightarrow>
              objective score candidates sources policy M \<le> objective score candidates sources policy P))
      else (\<forall>(c, s, v) \<in> set (as_pairs a). c < length candidates \<and> s < length sources \<and>
              score (candidates ! c) (snd (sources ! s)) policy = Some v) \<and>
           distinct (map fst (as_pairs a)) \<and> distinct (map (fst \<circ> snd) (as_pairs a)) \<and>
           (\<forall>M. file_matching score candidates sources policy M \<and> M \<noteq> pair_set (as_pairs a) \<longrightarrow>
              objective score candidates sources policy M
                < objective score candidates sources policy (pair_set (as_pairs a))))"

lemma result_assignment_correct:
  assumes u: "exact_units candidates policy E unit pb req" and E: "edges_of score candidates sources policy E"
    and r: "assign_result_ok (edge_weight candidates policy unit req) E (length candidates) (Some (Inr a))"
  shows "assignment_correct score candidates sources policy a"
proof -
  note match = edges_of_matching [OF E] and order = objective_order [OF u E]
  show ?thesis
  proof (cases "as_ambiguous a")
    case True
    then have "tied_best (edge_weight candidates policy unit req) E {..<length candidates}" and pairs: "as_pairs a = []"
      using r by (auto simp: assign_result_ok_def)
    then obtain P Q where PQ: "file_matching score candidates sources policy P"
      "file_matching score candidates sources policy Q" "P \<noteq> Q"
      and le: "\<And>M. file_matching score candidates sources policy M \<Longrightarrow>
        \<not> objective score candidates sources policy P < objective score candidates sources policy M"
      and eq: "\<not> objective score candidates sources policy Q < objective score candidates sources policy P"
      unfolding tied_best_def match by (metis order order.strict_iff_not)
    have "objective score candidates sources policy P = objective score candidates sources policy Q"
      using le [OF PQ(2)] eq by (metis linorder_neqE)
    then show ?thesis using PQ pairs le True unfolding assignment_correct_def by (metis linorder_not_less)
  next
    case False
    then have best: "unique_best (edge_weight candidates policy unit req) E {..<length candidates} (pair_set (as_pairs a))"
      and on: "pairs_on_edges E {..<length candidates} (as_pairs a)"
      using r by (auto simp: assign_result_ok_def)
    have "file_matching score candidates sources policy (pair_set (as_pairs a))"
      using best match by (simp add: unique_best_def)
    then have "\<forall>M. file_matching score candidates sources policy M \<and> M \<noteq> pair_set (as_pairs a) \<longrightarrow>
        objective score candidates sources policy M
          < objective score candidates sources policy (pair_set (as_pairs a))"
      using best match order unfolding unique_best_def by blast
    moreover have "\<forall>(c, s, v) \<in> set (as_pairs a). c < length candidates \<and> s < length sources \<and>
        score (candidates ! c) (snd (sources ! s)) policy = Some v"
      using on E by (fastforce simp: pairs_on_edges_def edges_of_def)
    ultimately show ?thesis using on False by (simp add: assignment_correct_def pairs_on_edges_def)
  qed
qed

lemma sum_list_bound: "(\<And>v. v \<in> set xs \<Longrightarrow> v \<le> k) \<Longrightarrow> sum_list xs \<le> length xs * (k::nat)"
  by (induction xs) (auto intro: add_mono)

lemma initial_components:
  "components_inv weight E R (length E) (length R) [0..<length E]
     (replicate (length E) False) (replicate (length R) False) []"
  by (auto simp: components_inv_def closed_marks_def pairs_on_edges_def unique_best_def edge_matching_def pair_set_def)

context edge_scorer
begin

lemma scan_edges_of:
  assumes "scan_candidates score policy sources (enumerate 0 candidates)
      \<lparr>es_edges = replicate (length candidates) [], es_reverse = replicate (length sources) [], es_count = 0\<rparr> = Inr st"
  shows "edges_of score candidates sources policy (es_edges st)"
    "graph_ok (length candidates) (length sources) (es_edges st) (es_reverse st)"
    "length (concat (es_edges st)) \<le> mp_max_candidate_edges policy"
proof -
  have "scan_ok (length candidates) (length sources) policy
      \<lparr>es_edges = replicate (length candidates) [], es_reverse = replicate (length sources) [], es_count = 0\<rparr>"
    by (auto simp: scan_ok_def graph_ok_def)
  from scan_candidates_spec [OF assms this] have
    ok: "scan_ok (length candidates) (length sources) policy st" and
    el: "\<forall>i < length candidates. set (es_edges st ! i) =
       {(s, v). s < length sources \<and> score (candidates ! i) (snd (sources ! s)) policy = Some v}" by auto
  show g: "graph_ok (length candidates) (length sources) (es_edges st) (es_reverse st)"
    and "length (concat (es_edges st)) \<le> mp_max_candidate_edges policy"
    using ok by (simp_all add: scan_ok_def)
  show "edges_of score candidates sources policy (es_edges st)"
    using g el by (simp add: edges_of_def graph_ok_def)
qed

lemma exact_units_exist:
  assumes cap: "capacity_ok candidates policy" and E: "edges_of score candidates sources policy E"
    and count: "length (concat E) \<le> mp_max_candidate_edges policy"
  obtains "exact_units candidates policy E (score_unit E) (primary_bytes candidates policy)
    ((primary_bytes candidates policy + 1) * score_unit E)"
proof -
  have sizes: "sum_list (map tf_size candidates) < 2 ^ 64" and count': "length (concat E) \<le> 2 ^ 24"
    using cap count by (simp_all add: capacity_ok_def)
  have "v \<le> 1111111" if v: "v \<in> set (map snd (concat E))" for v
  proof -
    obtain s es where "es \<in> set E" "(s, v) \<in> set es" using v by auto
    then obtain c where "c < length candidates" "(s, v) \<in> set (E ! c)"
      using E by (auto simp: edges_of_def in_set_conv_nth [of es])
    then show ?thesis using E score_range by (auto simp: edges_of_def)
  qed
  then have "sum_list (map snd (concat E)) \<le> length (concat E) * 1111111"
    using sum_list_bound [of "map snd (concat E)" 1111111] by (simp only: length_map)
  also have "\<dots> \<le> 2 ^ 24 * 1111111" using count' by (rule mult_le_mono1)
  finally have sum: "sum_list (map snd (concat E)) \<le> 2 ^ 24 * 1111111" .
  then have unit: "score_unit E = sum_list (map snd (concat E)) + 1" "score_unit E \<le> 2 ^ 45"
    using sum_u64_exact [of "map snd (concat E)"] by (simp_all add: score_unit_def)
  have pb: "primary_bytes candidates policy
      = (\<Sum>c < length candidates. if primary (candidates ! c) policy then tf_size (candidates ! c) else 0)"
    unfolding primary_bytes_exact [OF sizes] by (rule sum_filter_nth)
  have "primary_bytes candidates policy \<le> sum_list (map tf_size candidates)"
    unfolding primary_bytes_exact [OF sizes] by (induction candidates) auto
  then have "primary_bytes candidates policy + 1 \<le> 2 ^ 64" using sizes by simp
  from mult_le_mono [OF this unit(2)] have req: "(primary_bytes candidates policy + 1) * score_unit E \<le> 2 ^ 109"
    by (simp flip: power_add)
  then have "(primary_bytes candidates policy + 1) * score_unit E < 2 ^ 128" by (rule le_less_trans) simp
  then show thesis using that unit pb req by (simp add: exact_units_def wrap_u128_def del: power_numeral)
qed

lemma assign_with_correct:
  assumes cap: "capacity_ok candidates policy"
  shows "\<exists>r. assign_with score candidates sources policy = Some r \<and>
    (\<forall>a. r = Inr a \<longrightarrow> assignment_correct score candidates sources policy a)"
proof (cases "length candidates > mp_max_assignment_files policy
    \<or> length sources > mp_max_assignment_files policy - length candidates")
  case True
  then show ?thesis by (simp add: assign_with_def)
next
  case False
  let ?st0 = "\<lparr>es_edges = replicate (length candidates) [], es_reverse = replicate (length sources) [], es_count = 0\<rparr>"
  show ?thesis
  proof (cases "scan_candidates score policy sources (enumerate 0 candidates) ?st0")
    case (Inl e)
    then show ?thesis using False by (simp add: assign_with_def)
  next
    case (Inr st)
    note sc = scan_edges_of [OF Inr]
    let ?E = "es_edges st" and ?n = "length candidates"
    let ?unit = "score_unit ?E" and ?req = "(primary_bytes candidates policy + 1) * score_unit ?E"
    obtain u: "exact_units candidates policy ?E ?unit (primary_bytes candidates policy) ?req"
      by (rule exact_units_exist [OF cap sc(1,3)])
    let ?w = "edge_weight candidates policy ?unit ?req"
    let ?r = "assign_components ?w policy ?E (es_reverse st) [0..<?n]
      (replicate ?n False) (replicate (length sources) False) 0 []"
    have run: "assign_with score candidates sources policy = ?r"
      using False Inr exact_unitsD(4) [OF u] by (simp add: assign_with_def Let_def)
    have n: "?n \<le> 2 ^ 16" using False cap by (simp add: capacity_ok_def)
    then have "?n * 2 ^ 110 \<le> 2 ^ 16 * 2 ^ 110" by (rule mult_le_mono1)
    then have nW: "?n * 2 ^ 110 < 2 ^ 128" by simp
    have bound: "0 < ?w c v \<and> ?w c v \<le> 2 ^ 110" if cv: "c < ?n" "(s, v) \<in> set (?E ! c)" for c s v
    proof -
      have v1: "1 \<le> v" using cv sc(1) score_range by (auto simp: edges_of_def)
      have "?E ! c \<in> set ?E" using cv(1) sc(1) by (simp add: edges_of_def)
      then have "(s, v) \<in> set (concat ?E)" using cv(2) by auto
      then have "v \<in> set (map snd (concat ?E))" by (metis imageI list.set_map snd_conv)
      then have "v < ?unit" using member_le_sum_list [of v] exact_unitsD(5) [OF u] by (simp add: less_Suc_eq_le)
      then show ?thesis using edge_weight_exact [OF u cv(1)] v1 by simp
    qed
    have "components_inv ?w ?E (es_reverse st) ?n (length sources) [0..<?n]
        (replicate ?n False) (replicate (length sources) False) []"
      using initial_components [of ?w ?E "es_reverse st"] sc(2) by (simp add: graph_ok_def)
    then have "assign_result_ok ?w ?E ?n ?r"
      by (intro assign_components_spec [OF sc(2) _ _ nW]) (auto simp: i128_max_def dest: bound)
    then show ?thesis using run result_assignment_correct [OF u sc(1)]
      by (cases ?r) (auto simp: assign_result_ok_def [of _ _ _ None])
  qed
qed

end


section \<open>Properties\<close>

text \<open>
  C2: On inputs that fit the integer widths (candidate sizes that sum below
  2^64 and budgets of at most 2^24 edges and 2^16 files), \<open>assign\<close> and
  \<open>assign_season\<close> never panic, and a result that is not a budget error is right.
  Without ambiguity the pairs are scored edges, use every candidate and every
  source at most once, and are the one matching that is lexicographically best in
  required files, primary bytes and score; with ambiguity no pair is returned and
  two different matchings really share the best value.
\<close>

theorem assign_correct:
  assumes "capacity_ok candidates policy"
  shows "(\<exists>r. assign u candidates sources policy = Some r \<and>
      (\<forall>a. r = Inr a \<longrightarrow> assignment_correct (edge_score u False) candidates sources policy a)) \<and>
    (\<exists>r. assign_season u candidates sources policy = Some r \<and>
      (\<forall>a. r = Inr a \<longrightarrow> assignment_correct (edge_score u True) candidates sources policy a))"
  unfolding assign_def assign_season_def
  using plain_scorer.assign_with_correct [OF assms] season_scorer.assign_with_correct [OF assms] by blast

theorem assign_correct_witness:
  "capacity_ok [\<lparr>tf_ordinal = 0, tf_path = ''a.mkv'', tf_size = 700, tf_padding = False\<rparr>] default_policy \<and>
   (\<exists>r. assign ascii_unicode
      [\<lparr>tf_ordinal = 0, tf_path = ''a.mkv'', tf_size = 700, tf_padding = False\<rparr>]
      [(''s'', \<lparr>lf_id = 1, lf_path = ''b.mkv'', lf_size = 700, lf_device_id = None, lf_inode = None\<rparr>)]
      default_policy = Some r)"
proof -
  have "capacity_ok [\<lparr>tf_ordinal = 0, tf_path = ''a.mkv'', tf_size = 700, tf_padding = False\<rparr>] default_policy"
    by (simp add: capacity_ok_def default_policy_def default_max_candidate_edges_def default_max_assignment_files_def)
  from this assign_correct [OF this] show ?thesis by blast
qed

text \<open>
  On every weight table that fits the integer widths and has only positive
  weights, \<open>optimal_assignment\<close> returns a matching of maximum weight, and the
  re-solving with each selected edge banned reports no alternative exactly when
  that matching is the only one of maximum weight.
\<close>

lemma optimal_assignment_unique:
  assumes ok: "table_ok W weights"
    and pos: "\<And>row col w. row < length weights \<Longrightarrow> col < source_columns weights \<Longrightarrow>
      weights ! row ! col = Some w \<Longrightarrow> 0 < w"
  shows "\<exists>best selected.
    optimal_assignment weights None = Some (best, selected) \<and> is_matching weights None (set selected) \<and>
    best = matching_weight weights (set selected) \<and>
    (\<forall>M. is_matching weights None M \<longrightarrow> matching_weight weights M \<le> best) \<and>
    (equal_best_alternative weights best selected = Some False \<longleftrightarrow>
       (\<forall>M. is_matching weights None M \<and> M \<noteq> set selected \<longrightarrow> matching_weight weights M < best))"
proof -
  obtain selected where s: "optimal_assignment weights None = Some (matching_weight weights (set selected), selected)"
    "is_matching weights None (set selected)"
    "\<And>M. is_matching weights None M \<Longrightarrow> matching_weight weights M \<le> matching_weight weights (set selected)"
    using optimal_assignment_best [OF ok, of None] by metis
  let ?best = "matching_weight weights (set selected)"
  obtain b where b: "equal_best_alternative weights ?best selected = Some b"
    using equal_best_alternative_iff [OF ok] by blast
  have "\<not> b \<longleftrightarrow> (\<forall>M. is_matching weights None M \<and> M \<noteq> set selected \<longrightarrow> matching_weight weights M < ?best)"
  proof
    assume "\<not> b"
    then have alt: "equal_best_alternative weights ?best selected = Some False" using b by simp
    show "\<forall>M. is_matching weights None M \<and> M \<noteq> set selected \<longrightarrow> matching_weight weights M < ?best"
    proof (intro allI impI)
      fix M assume "is_matching weights None M \<and> M \<noteq> set selected"
      then have M: "is_matching weights None M" "M \<noteq> set selected" by blast+
      show "matching_weight weights M < ?best"
        by (rule no_alternative_unique [OF ok _ s(2) _ alt M]) (use pos s(3) in auto)
    qed
  next
    assume unique: "\<forall>M. is_matching weights None M \<and> M \<noteq> set selected \<longrightarrow> matching_weight weights M < ?best"
    show "\<not> b" using alternative_not_unique [OF ok, of ?best selected] b unique by (metis less_irrefl)
  qed
  then show ?thesis using s b by auto
qed

end
