(* ===== verification/Matcher.thy ===== *)
theory Matcher
  imports Assignment "HOL-Library.Multiset"
begin

text \<open>
  The matcher itself, the rest of \<open>crates/sporos-matcher/src/matcher.rs\<close>: the
  compatibility of two releases, the evaluation of one source and of a season
  from its episodes, the decision with its evidence, the choice among decisions
  and the entry point \<open>PureMatcher::evaluate\<close>.  \<^const>\<open>None\<close> is a panic of the
  assignment; the theorems below show that it does not happen.
\<close>

section \<open>Requests\<close>

record match_request =
  mr_candidate :: torrent_manifest
  mr_candidate_release :: release_descriptor
  mr_sources :: "local_source_manifest list"
  mr_policy :: matching_policy

datatype source_evaluation =
    EvalDecision match_decision
  | EvalAmbiguous
  | EvalNoMatch match_reason

definition candidate_files :: "torrent_manifest \<Rightarrow> torrent_file list" where
  "candidate_files manifest = sort_key tf_ordinal (filter (\<lambda>f. \<not> tf_padding f) (tm_files manifest))"

fun budget_fold :: "matching_policy \<Rightarrow> nat \<Rightarrow> local_source_manifest list \<Rightarrow> nat \<Rightarrow> nat option" where
  "budget_fold policy file_count [] acc = Some acc"
| "budget_fold policy file_count (source # sources) acc =
     (case checked_add u64_max acc (length (ls_files source)) of
        None \<Rightarrow> None
      | Some acc' \<Rightarrow>
          if length (ls_files source) \<le> mp_max_assignment_files policy - file_count
             \<and> acc' \<le> mp_max_assignment_files policy
          then budget_fold policy file_count sources acc' else None)"

definition input_budget_exceeded :: "match_request \<Rightarrow> bool" where
  "input_budget_exceeded request =
     (let file_count = length (filter (\<lambda>f. \<not> tf_padding f) (tm_files (mr_candidate request)))
      in if file_count > mp_max_assignment_files (mr_policy request) then True
         else budget_fold (mr_policy request) file_count
                (filter ls_available (mr_sources request)) file_count = None)"

section \<open>Compatibility of releases\<close>

definition titles_overlap :: "release_descriptor \<Rightarrow> release_descriptor \<Rightarrow> bool" where
  "titles_overlap candidate source \<longleftrightarrow>
     list_ex (\<lambda>title. title \<in> set (rd_primary_title candidate # rd_alternate_titles candidate))
       (rd_primary_title source # rd_alternate_titles source)"

definition arr_agrees :: "arr_identity \<Rightarrow> arr_identity \<Rightarrow> bool" where
  "arr_agrees a b \<longleftrightarrow>
     ai_kind a = ai_kind b \<and> ai_instance a = ai_instance b \<and> ai_entity_id a = ai_entity_id b"

definition differ :: "'a option \<Rightarrow> 'a option \<Rightarrow> bool" where
  "differ a b = (case (a, b) of (Some x, Some y) \<Rightarrow> x \<noteq> y | _ \<Rightarrow> False)"

definition compatible ::
  "release_descriptor \<Rightarrow> release_descriptor \<Rightarrow> bool \<Rightarrow> (match_reason, unit) result" where
  "compatible candidate source season_mode =
     (let same_arr_identity = (case (rd_arr_identity candidate, rd_arr_identity source) of
            (Some a, Some b) \<Rightarrow> arr_agrees a b | _ \<Rightarrow> False)
      in if (case (rd_arr_identity candidate, rd_arr_identity source) of
               (Some a, Some b) \<Rightarrow> \<not> arr_agrees a b | _ \<Rightarrow> False) then Inl SeriesConflict
         else if rd_kind candidate \<noteq> UnknownVideo \<and> rd_kind source \<noteq> UnknownVideo
              \<and> rd_kind candidate \<noteq> rd_kind source
              \<and> \<not> (season_mode \<and> rd_kind candidate = SeasonPack \<and> rd_kind source = Episode)
         then Inl MediaTypeConflict
         else if \<not> same_arr_identity \<and> \<not> titles_overlap candidate source then Inl TitleConflict
         else if differ (rd_year candidate) (rd_year source) then Inl YearConflict
         else if differ (rd_season candidate) (rd_season source) then Inl SeasonConflict
         else if \<not> season_mode \<and> rd_kind candidate = Episode \<and> rd_kind source = Episode
              \<and> (rd_episode candidate, rd_episode_end candidate) \<noteq> (rd_episode source, rd_episode_end source)
         then Inl EpisodeConflict
         else if differ (rd_air_date candidate) (rd_air_date source) then Inl DateConflict
         else if differ (rd_absolute_episode candidate) (rd_absolute_episode source) then Inl EpisodeConflict
         else Inr ())"

section \<open>Decisions\<close>

definition build_mappings ::
  "torrent_file list \<Rightarrow> (source_id \<times> local_source_file) list \<Rightarrow> assignment \<Rightarrow> file_mapping list" where
  "build_mappings candidates sources assignment =
     sort_key fm_candidate_ordinal
       (map (\<lambda>(candidate_index, source_index, v).
          \<lparr> fm_candidate_ordinal = tf_ordinal (candidates ! candidate_index),
            fm_source_id = fst (sources ! source_index),
            fm_source_file_id = lf_id (snd (sources ! source_index)),
            fm_candidate_path = tf_path (candidates ! candidate_index),
            fm_source_path = lf_path (snd (sources ! source_index)),
            fm_size = tf_size (candidates ! candidate_index),
            fm_score = v \<rparr>) (as_pairs assignment))"

definition base_evidence :: "match_request \<Rightarrow> match_evidence" where
  "base_evidence request =
     default_evidence\<lparr>
       me_candidate_files := length (tm_files (mr_candidate request)),
       me_required_files := length (filter (\<lambda>f. required f (mr_policy request)) (tm_files (mr_candidate request))),
       me_primary_files := length (filter (\<lambda>f. primary f (mr_policy request)) (tm_files (mr_candidate request)))\<rparr>"

definition required_bytes :: "match_request \<Rightarrow> nat" where
  "required_bytes request =
     sum_u64 (map tf_size (filter (\<lambda>f. required f (mr_policy request)) (tm_files (mr_candidate request))))"

text \<open>The file with the ordinal of a mapping, tested by \<open>is_some_and\<close>.\<close>

definition mapped_file_is :: "(torrent_file \<Rightarrow> bool) \<Rightarrow> torrent_file list \<Rightarrow> file_mapping \<Rightarrow> bool" where
  "mapped_file_is p files mapping =
     (case find (\<lambda>f. tf_ordinal f = fm_candidate_ordinal mapping) files of
        Some f \<Rightarrow> p f | None \<Rightarrow> False)"

definition mode_reason :: "match_mode \<Rightarrow> match_reason" where
  "mode_reason mode = (case mode of Strict \<Rightarrow> MatchStrict | Flexible \<Rightarrow> MatchFlexible
     | Partial \<Rightarrow> MatchPartial | SeasonFromEpisodes \<Rightarrow> MatchSeasonFromEpisodes)"

definition decision :: "match_request \<Rightarrow> match_mode \<Rightarrow> file_mapping list \<Rightarrow> nat \<Rightarrow> match_decision" where
  "decision request mode mappings compatible_sources =
     (let files = tm_files (mr_candidate request);
          policy = mr_policy request;
          mapped_bytes = sum_u64 (map fm_size mappings);
          total_bytes = required_bytes request;
          mapped_required = sum_u64 (map fm_size
            (filter (mapped_file_is (\<lambda>f. required f policy) files) mappings));
          primary_mappings = filter (mapped_file_is (\<lambda>f. primary f policy) files) mappings;
          source_ids = remdups_adj (sort (map fm_source_id mappings))
      in \<lparr> md_outcome = Match, md_mode = Some mode, md_reason = mode_reason mode,
           md_source_ids = source_ids, md_mappings = mappings,
           md_mapped_bytes = mapped_bytes,
           md_missing_bytes = total_bytes - mapped_required,
           md_present_ratio = from_bytes mapped_required total_bytes,
           md_requires_recheck = True,
           md_evidence = (base_evidence request)\<lparr>
             me_compatible_sources := compatible_sources,
             me_mapped_files := length mappings,
             me_mapped_primary_files := length primary_mappings,
             me_mapped_primary_bytes := sum_u64 (map fm_size primary_mappings),
             me_exact_path_mappings := length (filter (\<lambda>m. fm_candidate_path m = fm_source_path m) mappings),
             me_qbit_sources := length (filter (\<lambda>source_id. list_ex (\<lambda>source.
               ls_id source = source_id \<and> ls_kind source = QbittorrentTorrent) (mr_sources request)) source_ids)\<rparr> \<rparr>)"

definition rejection :: "match_reason \<Rightarrow> match_evidence \<Rightarrow> match_decision" where
  "rejection reason evidence =
     \<lparr> md_outcome = Rejected, md_mode = None, md_reason = reason, md_source_ids = [], md_mappings = [],
       md_mapped_bytes = 0, md_missing_bytes = 0, md_present_ratio = ratio_zero,
       md_requires_recheck = False, md_evidence = evidence \<rparr>"

definition no_match :: "match_reason \<Rightarrow> match_evidence \<Rightarrow> match_request \<Rightarrow> match_decision" where
  "no_match reason evidence request =
     \<lparr> md_outcome = NoMatch, md_mode = None, md_reason = reason, md_source_ids = [], md_mappings = [],
       md_mapped_bytes = 0, md_missing_bytes = required_bytes request, md_present_ratio = ratio_zero,
       md_requires_recheck = False, md_evidence = evidence \<rparr>"

definition already_present :: "match_evidence \<Rightarrow> match_request \<Rightarrow> match_decision" where
  "already_present evidence request =
     \<lparr> md_outcome = AlreadyPresent, md_mode = None, md_reason = ReasonAlreadyPresent, md_source_ids = [],
       md_mappings = [], md_mapped_bytes = 0, md_missing_bytes = required_bytes request,
       md_present_ratio = ratio_zero, md_requires_recheck = False, md_evidence = evidence \<rparr>"

definition file_failure_reason ::
  "torrent_file list \<Rightarrow> (source_id \<times> local_source_file) list \<Rightarrow> matching_policy \<Rightarrow> match_reason" where
  "file_failure_reason candidates sources policy =
     (if list_ex (\<lambda>candidate. required candidate policy \<and>
           list_ex (\<lambda>(_, source). (tf_path candidate = lf_path source
               \<or> basename (tf_path candidate) = basename (lf_path source))
             \<and> tf_size candidate \<noteq> lf_size source) sources) candidates
      then FileSizeConflict else NoPrimaryVideoOverlap)"

definition PRIORITY :: "match_reason list" where
  "PRIORITY = [MatcherBudgetExceeded, SeriesConflict, MediaTypeConflict, SeasonConflict, EpisodeConflict,
     DateConflict, YearConflict, TitleConflict, FileSizeConflict, NoPrimaryVideoOverlap]"

definition best_reason :: "match_reason list \<Rightarrow> match_reason" where
  "best_reason reasons =
     (case find (\<lambda>reason. reason \<in> set reasons) PRIORITY of Some r \<Rightarrow> r | None \<Rightarrow> NoPlausibleSource)"

section \<open>Evaluation of one source and of a season\<close>

definition select_mode ::
  "matching_policy \<Rightarrow> torrent_file list \<Rightarrow> file_mapping list \<Rightarrow> match_mode option" where
  "select_mode policy files mappings =
     (let required_files = filter (\<lambda>f. required f policy) files;
          all_required = list_all (\<lambda>f. tf_ordinal f \<in> set (map fm_candidate_ordinal mappings)) required_files;
          exact_required = list_all (\<lambda>f. list_ex (\<lambda>m. fm_candidate_ordinal m = tf_ordinal f
            \<and> fm_candidate_path m = fm_source_path m) mappings) required_files;
          mapped_primary = length (filter (mapped_file_is (\<lambda>f. primary f policy) files) mappings)
      in if all_required \<and> exact_required then Some Strict
         else if all_required \<and> mp_allow_flexible policy then Some Flexible
         else if mapped_primary > 0 \<and> mp_allow_partial policy then Some Partial
         else None)"

definition evaluate_source ::
  "unicode \<Rightarrow> match_request \<Rightarrow> local_source_manifest \<Rightarrow> source_evaluation option" where
  "evaluate_source u request source =
     (let files = candidate_files (mr_candidate request);
          source_files = map (Pair (ls_id source)) (ls_files source)
      in case assign u files source_files (mr_policy request) of
           None \<Rightarrow> None
         | Some (Inl BudgetExceeded) \<Rightarrow> Some (EvalNoMatch MatcherBudgetExceeded)
         | Some (Inr assignment) \<Rightarrow>
             if as_ambiguous assignment then Some EvalAmbiguous
             else (let mappings = build_mappings files source_files assignment
                   in case select_mode (mr_policy request) files mappings of
                        None \<Rightarrow> Some (EvalNoMatch (file_failure_reason files source_files (mr_policy request)))
                      | Some mode \<Rightarrow> Some (EvalDecision (decision request mode mappings 1))))"

definition episode_sources ::
  "match_request \<Rightarrow> local_source_manifest list \<Rightarrow> (source_id \<times> local_source_file) list" where
  "episode_sources request sources =
     concat (map (\<lambda>source. map (Pair (ls_id source)) (ls_files source))
       (filter (\<lambda>source. compatible (mr_candidate_release request) (ls_release source) True = Inr ()
          \<and> rd_kind (ls_release source) = Episode
          \<and> rd_season (ls_release source) = rd_season (mr_candidate_release request)) sources))"

definition evaluate_season ::
  "unicode \<Rightarrow> match_request \<Rightarrow> local_source_manifest list \<Rightarrow> source_evaluation option" where
  "evaluate_season u request sources =
     (let episodes = episode_sources request sources
      in if episodes = [] then Some (EvalNoMatch NoPrimaryVideoOverlap)
         else (let files = candidate_files (mr_candidate request)
           in case assign_season u files episodes (mr_policy request) of
                None \<Rightarrow> None
              | Some (Inl BudgetExceeded) \<Rightarrow> Some (EvalNoMatch MatcherBudgetExceeded)
              | Some (Inr assignment) \<Rightarrow>
                  if as_ambiguous assignment then Some EvalAmbiguous
                  else (let mappings = build_mappings files episodes assignment
                        in if \<not> list_ex (mapped_file_is (\<lambda>f. primary f (mr_policy request)) files) mappings
                           then Some (EvalNoMatch NoPrimaryVideoOverlap)
                           else Some (EvalDecision (decision request SeasonFromEpisodes mappings
                             (card (set (map fm_source_id mappings))))))))"

section \<open>Choosing among decisions\<close>

definition rank :: "match_mode option \<Rightarrow> nat" where
  "rank mode = (case mode of Some Strict \<Rightarrow> 4 | Some Flexible \<Rightarrow> 3 | Some Partial \<Rightarrow> 2
     | Some SeasonFromEpisodes \<Rightarrow> 1 | None \<Rightarrow> 0)"

definition quality :: "match_decision \<Rightarrow> nat \<times> nat \<times> nat \<times> nat Reverse \<times> nat \<times> nat" where
  "quality d = (rank (md_mode d), me_mapped_primary_bytes (md_evidence d),
     me_exact_path_mappings (md_evidence d), Reverse (length (md_source_ids d)),
     me_qbit_sources (md_evidence d), length (md_mappings d))"

definition choose_decision :: "match_decision list \<Rightarrow> match_decision option" where
  "choose_decision choices =
     (case sort_key (\<lambda>d. Reverse (quality d)) choices of
        [] \<Rightarrow> None
      | [first] \<Rightarrow> Some first
      | first # second # _ \<Rightarrow>
          if quality first = quality second \<and> md_mappings first \<noteq> md_mappings second
          then Some (rejection AmbiguousFileMapping (md_evidence first))
          else Some first)"

section \<open>The entry point\<close>

datatype source_scan = ScanAmbiguous | ScanResult "match_decision list" "match_reason list"

fun scan_sources ::
  "unicode \<Rightarrow> match_request \<Rightarrow> local_source_manifest list \<Rightarrow> match_decision list \<Rightarrow> match_reason list
    \<Rightarrow> source_scan option" where
  "scan_sources u request [] choices conflicts = Some (ScanResult choices conflicts)"
| "scan_sources u request (source # rest) choices conflicts =
     (case compatible (mr_candidate_release request) (ls_release source) False of
        Inl reason \<Rightarrow> scan_sources u request rest choices (conflicts @ [reason])
      | Inr _ \<Rightarrow>
          (case evaluate_source u request source of
             None \<Rightarrow> None
           | Some (EvalDecision d) \<Rightarrow> scan_sources u request rest (choices @ [d]) conflicts
           | Some EvalAmbiguous \<Rightarrow> Some ScanAmbiguous
           | Some (EvalNoMatch reason) \<Rightarrow> scan_sources u request rest choices (conflicts @ [reason])))"

definition finish :: "match_request \<Rightarrow> match_decision list \<Rightarrow> match_reason list \<Rightarrow> match_decision" where
  "finish request choices conflicts =
     (case choose_decision choices of
        Some d \<Rightarrow> d
      | None \<Rightarrow> no_match (best_reason conflicts) (base_evidence request) request)"

definition hash_present :: "info_hashes \<Rightarrow> info_hashes \<Rightarrow> bool" where
  "hash_present candidate source \<longleftrightarrow>
     (ih_v1 candidate \<noteq> None \<and> ih_v1 candidate = ih_v1 source)
     \<or> (ih_v2 candidate \<noteq> None \<and> ih_v2 candidate = ih_v2 source)"

definition evaluate :: "unicode \<Rightarrow> match_request \<Rightarrow> match_decision option" where
  "evaluate u request =
     (let evidence = base_evidence request;
          sources = sort_key ls_id (filter ls_available (mr_sources request))
      in case validate_manifest u (mr_candidate request) of
           Some reason \<Rightarrow> Some (rejection reason evidence)
         | None \<Rightarrow>
             if list_ex (\<lambda>source. hash_present (tm_hashes (mr_candidate request)) (ls_hashes source))
                  (mr_sources request)
             then Some (already_present evidence request)
             else if input_budget_exceeded request then Some (rejection MatcherBudgetExceeded evidence)
             else case scan_sources u request sources [] [] of
                    None \<Rightarrow> None
                  | Some ScanAmbiguous \<Rightarrow> Some (rejection AmbiguousFileMapping evidence)
                  | Some (ScanResult choices conflicts) \<Rightarrow>
                      if mp_allow_season_from_episodes (mr_policy request)
                         \<and> rd_kind (mr_candidate_release request) = SeasonPack
                      then (case evaluate_season u request sources of
                              None \<Rightarrow> None
                            | Some (EvalDecision d) \<Rightarrow> Some (finish request (choices @ [d]) conflicts)
                            | Some EvalAmbiguous \<Rightarrow> Some (rejection AmbiguousFileMapping evidence)
                            | Some (EvalNoMatch reason) \<Rightarrow> Some (finish request choices (conflicts @ [reason])))
                      else Some (finish request choices conflicts))"


section \<open>Mappings\<close>

definition mapping_for :: "torrent_file \<Rightarrow> source_id \<Rightarrow> local_source_file \<Rightarrow> nat \<Rightarrow> file_mapping" where
  "mapping_for f source_id lf v =
     \<lparr> fm_candidate_ordinal = tf_ordinal f, fm_source_id = source_id, fm_source_file_id = lf_id lf,
       fm_candidate_path = tf_path f, fm_source_path = lf_path lf, fm_size = tf_size f, fm_score = v \<rparr>"

definition mappings_sound ::
  "score_fun \<Rightarrow> torrent_file list \<Rightarrow> (source_id \<times> local_source_file) list \<Rightarrow> matching_policy
    \<Rightarrow> file_mapping list \<Rightarrow> bool" where
  "mappings_sound score files sources policy mappings \<longleftrightarrow>
     (\<forall>m \<in> set mappings. \<exists>f \<in> set files. \<exists>(source_id, lf) \<in> set sources. \<exists>v.
        m = mapping_for f source_id lf v \<and> score f lf policy = Some v) \<and>
     distinct (map fm_candidate_ordinal mappings) \<and> sorted (map fm_candidate_ordinal mappings) \<and>
     (distinct (map (\<lambda>p. (fst p, lf_id (snd p))) sources) \<longrightarrow>
        distinct (map (\<lambda>m. (fm_source_id m, fm_source_file_id m)) mappings))"

lemma distinct_map_sort_key: "distinct (map f (sort_key k xs)) = distinct (map f xs)"
  by (metis distinct_map distinct_sort set_sort)

lemma distinct_map_nth_comp:
  assumes "distinct (map g ps)" "distinct (map h xs)" "\<And>p. p \<in> set ps \<Longrightarrow> g p < length xs"
  shows "distinct (map (\<lambda>p. h (xs ! g p)) ps)"
proof -
  have "inj_on (\<lambda>p. h (xs ! g p)) (set ps)"
  proof (rule inj_onI)
    fix p q assume pq: "p \<in> set ps" "q \<in> set ps" "h (xs ! g p) = h (xs ! g q)"
    then have "g p = g q" using assms(2,3) nth_eq_iff_index_eq [of "map h xs" "g p" "g q"] by simp
    then show "p = q" using assms(1) pq by (auto simp: distinct_map dest: inj_onD)
  qed
  then show ?thesis using assms(1) by (simp add: distinct_map)
qed

lemma build_mappings_sound:
  assumes a: "assignment_correct score files sources policy a" and "\<not> as_ambiguous a"
    and d: "distinct (map tf_ordinal files)"
  shows "mappings_sound score files sources policy (build_mappings files sources a)"
proof -
  have el: "c < length files \<and> s < length sources \<and> score (files ! c) (snd (sources ! s)) policy = Some v"
    if "(c, s, v) \<in> set (as_pairs a)" for c s v
    using assms(1,2) that by (auto simp: assignment_correct_def)
  have dist: "distinct (map fst (as_pairs a))" "distinct (map (fst \<circ> snd) (as_pairs a))"
    using assms(1,2) by (simp_all add: assignment_correct_def)
  let ?m = "\<lambda>(c, s, v). mapping_for (files ! c) (fst (sources ! s)) (snd (sources ! s)) v"
  have bm: "build_mappings files sources a = sort_key fm_candidate_ordinal (map ?m (as_pairs a))"
    by (simp add: build_mappings_def mapping_for_def case_prod_beta')
  have "distinct (map (\<lambda>p. tf_ordinal (files ! fst p)) (as_pairs a))"
    by (rule distinct_map_nth_comp [OF dist(1) d]) (use el in fastforce)
  then have "distinct (map fm_candidate_ordinal (map ?m (as_pairs a)))"
    by (simp add: comp_def case_prod_beta' mapping_for_def)
  moreover have "distinct (map (\<lambda>m. (fm_source_id m, fm_source_file_id m)) (map ?m (as_pairs a)))"
    if "distinct (map (\<lambda>p. (fst p, lf_id (snd p))) sources)"
  proof -
    have "distinct (map (\<lambda>p. (fst (sources ! (fst \<circ> snd) p), lf_id (snd (sources ! (fst \<circ> snd) p)))) (as_pairs a))"
      by (rule distinct_map_nth_comp [OF dist(2) that]) (use el in fastforce)
    then show ?thesis by (simp add: comp_def case_prod_beta' mapping_for_def)
  qed
  moreover have "\<exists>f \<in> set files. \<exists>(source_id, lf) \<in> set sources. \<exists>v.
      m = mapping_for f source_id lf v \<and> score f lf policy = Some v"
    if m: "m \<in> set (build_mappings files sources a)" for m
  proof -
    from m obtain c s v where csv: "(c, s, v) \<in> set (as_pairs a)" "m = ?m (c, s, v)"
      unfolding bm by auto
    then show ?thesis using el [OF csv(1)]
      by (intro bexI [of _ "files ! c"] bexI [of _ "sources ! s"]) (auto simp: case_prod_beta')
  qed
  ultimately show ?thesis
    unfolding mappings_sound_def by (simp add: bm distinct_map_sort_key)
qed

section \<open>Evaluations do not panic and are sound\<close>

definition request_capacity :: "match_request \<Rightarrow> bool" where
  "request_capacity request \<longleftrightarrow>
     sum_list (map tf_size (tm_files (mr_candidate request))) < 2 ^ 64 \<and>
     mp_max_candidate_edges (mr_policy request) \<le> 2 ^ 24 \<and> mp_max_assignment_files (mr_policy request) \<le> 2 ^ 16"

lemma set_candidate_files: "set (candidate_files manifest) = {f \<in> set (tm_files manifest). \<not> tf_padding f}"
  by (simp add: candidate_files_def)

lemma distinct_candidate_files:
  "distinct (map tf_ordinal (tm_files manifest)) \<Longrightarrow> distinct (map tf_ordinal (candidate_files manifest))"
  by (simp add: candidate_files_def distinct_map_sort_key distinct_map_filter)

lemma request_capacity_ok:
  assumes "request_capacity request"
  shows "capacity_ok (candidate_files (mr_candidate request)) (mr_policy request)"
proof -
  let ?files = "tm_files (mr_candidate request)"
  have "sum_list (map tf_size (candidate_files (mr_candidate request)))
      = sum_list (map tf_size (filter (\<lambda>f. \<not> tf_padding f) ?files))"
    by (simp add: candidate_files_def flip: sum_mset_sum_list)
  also have "\<dots> \<le> sum_list (map tf_size ?files)" by (rule sum_list_filter_le_nat)
  finally show ?thesis using assms by (simp add: request_capacity_def capacity_ok_def)
qed

text \<open>What a decision of one evaluation guarantees about its files and its mode.\<close>

definition mode_justified :: "matching_policy \<Rightarrow> torrent_file list \<Rightarrow> match_mode \<Rightarrow> file_mapping list \<Rightarrow> bool" where
  "mode_justified policy files mode mappings \<longleftrightarrow>
     (case mode of
        Strict \<Rightarrow> \<forall>f \<in> set files. required f policy \<longrightarrow>
          (\<exists>m \<in> set mappings. fm_candidate_ordinal m = tf_ordinal f \<and> fm_candidate_path m = fm_source_path m)
      | Flexible \<Rightarrow> mp_allow_flexible policy \<and>
          (\<forall>f \<in> set files. required f policy \<longrightarrow> (\<exists>m \<in> set mappings. fm_candidate_ordinal m = tf_ordinal f))
      | Partial \<Rightarrow> mp_allow_partial policy \<and>
          (\<exists>m \<in> set mappings. mapped_file_is (\<lambda>f. primary f policy) files m)
      | SeasonFromEpisodes \<Rightarrow> mp_allow_season_from_episodes policy \<and>
          (\<exists>m \<in> set mappings. mapped_file_is (\<lambda>f. primary f policy) files m))"

lemma select_mode_justified:
  "select_mode policy files mappings = Some mode \<Longrightarrow> mode_justified policy files mode mappings"
  by (fastforce simp: select_mode_def Let_def mode_justified_def list_all_iff list_ex_iff filter_empty_conv
      split: if_splits)

lemma select_mode_not_season: "select_mode policy files mappings \<noteq> Some SeasonFromEpisodes"
  by (simp add: select_mode_def Let_def)

definition sound_decision ::
  "unicode \<Rightarrow> match_request \<Rightarrow> bool \<Rightarrow> local_source_manifest list \<Rightarrow> match_decision \<Rightarrow> bool" where
  "sound_decision u request season sources d \<longleftrightarrow>
     (\<exists>mode mappings k. d = decision request mode mappings k \<and>
        (season \<longleftrightarrow> mode = SeasonFromEpisodes) \<and>
        mappings_sound (edge_score u season) (candidate_files (mr_candidate request))
          (concat (map (\<lambda>s. map (Pair (ls_id s)) (ls_files s)) sources)) (mr_policy request) mappings \<and>
        mode_justified (mr_policy request) (candidate_files (mr_candidate request)) mode mappings) \<and>
     (\<forall>s \<in> set sources. compatible (mr_candidate_release request) (ls_release s) season = Inr ())"

lemma evaluate_source_spec:
  assumes cap: "request_capacity request" and d: "distinct (map tf_ordinal (tm_files (mr_candidate request)))"
    and compat: "compatible (mr_candidate_release request) (ls_release source) False = Inr ()"
  obtains e where "evaluate_source u request source = Some e"
    "\<And>d. e = EvalDecision d \<Longrightarrow> sound_decision u request False [source] d"
proof -
  let ?files = "candidate_files (mr_candidate request)" and ?policy = "mr_policy request"
  let ?sources = "map (Pair (ls_id source)) (ls_files source)"
  obtain r where r: "assign u ?files ?sources ?policy = Some r"
    "\<And>a. r = Inr a \<Longrightarrow> assignment_correct (edge_score u False) ?files ?sources ?policy a"
    using plain_scorer.assign_with_correct [OF request_capacity_ok [OF cap]] unfolding assign_def by metis
  show thesis
  proof (cases r)
    case (Inl e)
    then show ?thesis using r(1) that by (cases e) (simp add: evaluate_source_def)
  next
    case (Inr a)
    show ?thesis
    proof (cases "as_ambiguous a")
      case True
      then show ?thesis using Inr r(1) that by (simp add: evaluate_source_def)
    next
      case False
      let ?ms = "build_mappings ?files ?sources a"
      have ms: "mappings_sound (edge_score u False) ?files ?sources ?policy ?ms"
        by (rule build_mappings_sound [OF r(2) [OF Inr] False distinct_candidate_files [OF d]])
      show ?thesis
      proof (cases "select_mode ?policy ?files ?ms")
        case None
        then show ?thesis using Inr False r(1) that by (simp add: evaluate_source_def Let_def)
      next
        case (Some mode)
        then have "sound_decision u request False [source] (decision request mode ?ms 1)"
          unfolding sound_decision_def
          using ms select_mode_justified [OF Some] select_mode_not_season compat
          by (intro conjI exI [of _ mode] exI [of _ ?ms] exI [of _ 1]) auto
        then show ?thesis using Some Inr False r(1) that by (simp add: evaluate_source_def Let_def)
      qed
    qed
  qed
qed

definition season_sources :: "match_request \<Rightarrow> local_source_manifest list \<Rightarrow> local_source_manifest list" where
  "season_sources request sources =
     filter (\<lambda>source. compatible (mr_candidate_release request) (ls_release source) True = Inr ()
       \<and> rd_kind (ls_release source) = Episode
       \<and> rd_season (ls_release source) = rd_season (mr_candidate_release request)) sources"

lemma evaluate_season_spec:
  assumes cap: "request_capacity request" and d: "distinct (map tf_ordinal (tm_files (mr_candidate request)))"
    and allow: "mp_allow_season_from_episodes (mr_policy request)"
  obtains e where "evaluate_season u request sources = Some e"
    "\<And>d. e = EvalDecision d \<Longrightarrow> sound_decision u request True (season_sources request sources) d"
proof -
  let ?files = "candidate_files (mr_candidate request)" and ?policy = "mr_policy request"
  let ?sources = "episode_sources request sources"
  have eps: "?sources = concat (map (\<lambda>s. map (Pair (ls_id s)) (ls_files s)) (season_sources request sources))"
    by (simp add: episode_sources_def season_sources_def)
  obtain r where r: "assign_season u ?files ?sources ?policy = Some r"
    "\<And>a. r = Inr a \<Longrightarrow> assignment_correct (edge_score u True) ?files ?sources ?policy a"
    using season_scorer.assign_with_correct [OF request_capacity_ok [OF cap]] unfolding assign_season_def by metis
  show thesis
  proof (cases "?sources = []")
    case True
    then show ?thesis using that by (simp add: evaluate_season_def)
  next
    case nonempty: False
    show ?thesis
    proof (cases r)
      case (Inl e)
      then show ?thesis using nonempty r(1) that by (cases e) (simp add: evaluate_season_def Let_def)
    next
      case (Inr a)
      let ?ms = "build_mappings ?files ?sources a"
      let ?d = "decision request SeasonFromEpisodes ?ms (card (set (map fm_source_id ?ms)))"
      have "sound_decision u request True (season_sources request sources) ?d"
        if amb: "\<not> as_ambiguous a" and prim: "list_ex (mapped_file_is (\<lambda>f. primary f ?policy) ?files) ?ms"
      proof -
        have "mappings_sound (edge_score u True) ?files ?sources ?policy ?ms"
          by (rule build_mappings_sound [OF r(2) [OF Inr] amb distinct_candidate_files [OF d]])
        moreover have "mode_justified ?policy ?files SeasonFromEpisodes ?ms"
          using allow prim by (auto simp: mode_justified_def list_ex_iff)
        ultimately show ?thesis unfolding sound_decision_def eps [symmetric]
          by (intro conjI exI [of _ SeasonFromEpisodes] exI [of _ ?ms] exI [of _ "card (set (map fm_source_id ?ms))"])
            (auto simp: season_sources_def)
      qed
      moreover have "evaluate_season u request sources = Some
          (if as_ambiguous a then EvalAmbiguous
           else if \<not> list_ex (mapped_file_is (\<lambda>f. primary f ?policy) ?files) ?ms
           then EvalNoMatch NoPrimaryVideoOverlap else EvalDecision ?d)"
        using nonempty Inr r(1) by (simp add: evaluate_season_def Let_def)
      ultimately show ?thesis using that by (auto split: if_splits)
    qed
  qed
qed


section \<open>The choice\<close>

lemma choose_decision_spec:
  assumes "choices \<noteq> []"
  obtains first where "first \<in> set choices" "\<And>c. c \<in> set choices \<Longrightarrow> quality c \<le> quality first"
    "choose_decision choices = Some first \<or>
      (choose_decision choices = Some (rejection AmbiguousFileMapping (md_evidence first)) \<and>
       (\<exists>second \<in> set choices. quality second = quality first \<and> md_mappings second \<noteq> md_mappings first))"
proof -
  let ?s = "sort_key (\<lambda>d. Reverse (quality d)) choices"
  obtain first rest where s: "?s = first # rest" using assms by (cases ?s) (auto simp: set_empty [symmetric] simp del: set_empty)
  have mem: "set choices = insert first (set rest)" using s by (metis list.simps(15) set_sort)
  have "sorted (map (\<lambda>d. Reverse (quality d)) (first # rest))" unfolding s [symmetric] by simp
  then have best: "quality c \<le> quality first" if "c \<in> set choices" for c
    using that mem by (auto simp: less_eq_Reverse_def)
  show thesis
  proof (cases rest)
    case Nil
    then show ?thesis using that [of first] best mem s by (simp add: choose_decision_def)
  next
    case (Cons second others)
    let ?tie = "quality first = quality second \<and> md_mappings first \<noteq> md_mappings second"
    have c: "choose_decision choices = (if ?tie
        then Some (rejection AmbiguousFileMapping (md_evidence first)) else Some first)"
      using s Cons by (simp add: choose_decision_def)
    show ?thesis
    proof (rule that [OF _ best])
      show "first \<in> set choices" using mem by simp
      have "second \<in> set choices" using mem Cons by simp
      then show "choose_decision choices = Some first \<or>
          (choose_decision choices = Some (rejection AmbiguousFileMapping (md_evidence first)) \<and>
           (\<exists>second \<in> set choices. quality second = quality first \<and> md_mappings second \<noteq> md_mappings first))"
        using c by (cases ?tie) auto
    qed
  qed
qed

lemma choose_decision_Nil [simp]: "choose_decision [] = None"
  by (simp add: choose_decision_def)

lemma finish_cases:
  "finish request choices conflicts \<in> set choices \<or> md_outcome (finish request choices conflicts) \<noteq> Match"
proof (cases "choices = []")
  case False
  then show ?thesis
    by (rule choose_decision_spec) (auto simp: finish_def rejection_def)
qed (simp add: finish_def no_match_def)

section \<open>The scan over the sources\<close>

lemma scan_sources_spec:
  assumes cap: "request_capacity request" and d: "distinct (map tf_ordinal (tm_files (mr_candidate request)))"
  obtains r where "scan_sources u request sources choices conflicts = Some r"
    "\<And>choices' conflicts' c. r = ScanResult choices' conflicts' \<Longrightarrow> c \<in> set choices' \<Longrightarrow>
       c \<in> set choices \<or> (\<exists>s \<in> set sources. sound_decision u request False [s] c)"
proof (induction sources arbitrary: choices conflicts thesis)
  case Nil
  then show ?case by simp
next
  case (Cons s sources)
  show ?case
  proof (cases "compatible (mr_candidate_release request) (ls_release s) False")
    case (Inl reason)
    show ?thesis
    proof (rule Cons.IH [of choices "conflicts @ [reason]"])
      fix r assume "scan_sources u request sources choices (conflicts @ [reason]) = Some r"
        "\<And>choices' conflicts' c. r = ScanResult choices' conflicts' \<Longrightarrow> c \<in> set choices' \<Longrightarrow>
           c \<in> set choices \<or> (\<exists>s \<in> set sources. sound_decision u request False [s] c)"
      then show thesis using Cons.prems [of r] Inl by auto
    qed
  next
    case (Inr x)
    then have compat: "compatible (mr_candidate_release request) (ls_release s) False = Inr ()" by simp
    obtain e where e: "evaluate_source u request s = Some e"
      "\<And>d. e = EvalDecision d \<Longrightarrow> sound_decision u request False [s] d"
      using evaluate_source_spec [OF cap d compat] by metis
    show ?thesis
    proof (cases e)
      case (EvalDecision d)
      show ?thesis
      proof (rule Cons.IH [of "choices @ [d]" conflicts])
        fix r assume "scan_sources u request sources (choices @ [d]) conflicts = Some r"
          "\<And>choices' conflicts' c. r = ScanResult choices' conflicts' \<Longrightarrow> c \<in> set choices' \<Longrightarrow>
             c \<in> set (choices @ [d]) \<or> (\<exists>s \<in> set sources. sound_decision u request False [s] c)"
        then show thesis using Cons.prems [of r] Inr e EvalDecision by auto
      qed
    next
      case EvalAmbiguous
      then show ?thesis using Cons.prems Inr e by simp
    next
      case (EvalNoMatch reason)
      show ?thesis
      proof (rule Cons.IH [of choices "conflicts @ [reason]"])
        fix r assume "scan_sources u request sources choices (conflicts @ [reason]) = Some r"
          "\<And>choices' conflicts' c. r = ScanResult choices' conflicts' \<Longrightarrow> c \<in> set choices' \<Longrightarrow>
             c \<in> set choices \<or> (\<exists>s \<in> set sources. sound_decision u request False [s] c)"
        then show thesis using Cons.prems [of r] Inr e EvalNoMatch by auto
      qed
    qed
  qed
qed

lemma evaluate_early:
  assumes "validate_manifest u (mr_candidate request) = None"
    and "list_ex (\<lambda>source. hash_present (tm_hashes (mr_candidate request)) (ls_hashes source)) (mr_sources request)
      \<or> input_budget_exceeded request"
  obtains d where "evaluate u request = Some d" "md_outcome d \<noteq> Match"
proof (cases "list_ex (\<lambda>source. hash_present (tm_hashes (mr_candidate request)) (ls_hashes source))
    (mr_sources request)")
  case True
  then have "evaluate u request = Some (already_present (base_evidence request) request)"
    using assms by (simp add: evaluate_def)
  then show ?thesis using that by (simp add: already_present_def)
next
  case False
  then have "evaluate u request = Some (rejection MatcherBudgetExceeded (base_evidence request))"
    using assms by (simp add: evaluate_def)
  then show ?thesis using that by (simp add: rejection_def)
qed

lemma evaluate_spec:
  assumes cap: "request_capacity request"
  obtains d where "evaluate u request = Some d"
    "md_outcome d = Match \<Longrightarrow> validate_manifest u (mr_candidate request) = None \<and>
      (\<exists>season sources. set sources \<subseteq> {s \<in> set (mr_sources request). ls_available s} \<and>
         (distinct (map ls_id (mr_sources request)) \<longrightarrow> distinct (map ls_id sources)) \<and>
         (season \<longrightarrow> rd_kind (mr_candidate_release request) = SeasonPack) \<and>
         sound_decision u request season sources d)"
proof (cases "validate_manifest u (mr_candidate request)")
  case (Some reason)
  then show ?thesis using that by (simp add: evaluate_def rejection_def)
next
  case valid: None
  let ?sources = "sort_key ls_id (filter ls_available (mr_sources request))"
  have avail: "set ?sources = {s \<in> set (mr_sources request). ls_available s}" by auto
  have d: "distinct (map tf_ordinal (tm_files (mr_candidate request)))"
    using valid by (simp add: validate_manifest_ordinals)
  let ?early = "list_ex (\<lambda>source. hash_present (tm_hashes (mr_candidate request)) (ls_hashes source))
     (mr_sources request) \<or> input_budget_exceeded request"
  show ?thesis
  proof (cases ?early)
    case True
    show ?thesis by (rule evaluate_early [OF valid True]) (use that in blast)
  next
    case late: False
    obtain r where r: "scan_sources u request ?sources [] [] = Some r"
      "\<And>choices conflicts c. r = ScanResult choices conflicts \<Longrightarrow> c \<in> set choices \<Longrightarrow>
         \<exists>s \<in> set ?sources. sound_decision u request False [s] c"
      by (rule scan_sources_spec [OF cap d, of u ?sources "[]" "[]"]) auto
    show ?thesis
    proof (cases r)
      case ScanAmbiguous
      then show ?thesis using valid late r(1) that by (simp add: evaluate_def rejection_def)
    next
      case (ScanResult choices conflicts)
      let ?ok = "\<lambda>d. \<exists>season sources. set sources \<subseteq> {s \<in> set (mr_sources request). ls_available s} \<and>
         (distinct (map ls_id (mr_sources request)) \<longrightarrow> distinct (map ls_id sources)) \<and>
        (season \<longrightarrow> rd_kind (mr_candidate_release request) = SeasonPack) \<and> sound_decision u request season sources d"
      have plain: "?ok c" if c: "c \<in> set choices" for c
      proof -
        obtain s where "s \<in> set ?sources" "sound_decision u request False [s] c"
          using r(2) [OF ScanResult c] by blast
        then show ?thesis using avail by (intro exI [of _ False] exI [of _ "[s]"]) simp
      qed
      show ?thesis
      proof (cases "mp_allow_season_from_episodes (mr_policy request)
          \<and> rd_kind (mr_candidate_release request) = SeasonPack")
        case False
        have "md_outcome (finish request choices conflicts) = Match \<Longrightarrow> ?ok (finish request choices conflicts)"
          using finish_cases [of request choices conflicts] plain by blast
        moreover have "evaluate u request = Some (finish request choices conflicts)"
          using valid late r(1) ScanResult by (simp add: evaluate_def if_not_P [OF False])
        ultimately show ?thesis using that valid by blast
      next
        case season: True
        obtain e where e: "evaluate_season u request ?sources = Some e"
          "\<And>d. e = EvalDecision d \<Longrightarrow> sound_decision u request True (season_sources request ?sources) d"
          using evaluate_season_spec [OF cap d] season by metis
        have eps: "?ok c" if "e = EvalDecision c" for c
          using e(2) [OF that] season
          by (intro exI [of _ True] exI [of _ "season_sources request ?sources"])
            (auto simp: season_sources_def distinct_map_filter distinct_map_sort_key)
        define d' where "d' = (case e of EvalDecision d \<Rightarrow> finish request (choices @ [d]) conflicts
          | EvalAmbiguous \<Rightarrow> rejection AmbiguousFileMapping (base_evidence request)
          | EvalNoMatch reason \<Rightarrow> finish request choices (conflicts @ [reason]))"
        have run: "evaluate u request = Some d'"
          using valid late r(1) ScanResult season e(1)
          by (simp add: evaluate_def d'_def split: source_evaluation.split)
        have "?ok d'" if m: "md_outcome d' = Match"
        proof (cases e)
          case (EvalDecision d)
          then have "d' = finish request (choices @ [d]) conflicts" by (simp add: d'_def)
          then consider "d' \<in> set choices" | "d' = d"
            using finish_cases [of request "choices @ [d]" conflicts] m by force
          then show ?thesis by cases (rule plain, assumption, rule eps, simp add: EvalDecision)
        next
          case EvalAmbiguous
          then show ?thesis using m by (simp add: d'_def rejection_def)
        next
          case (EvalNoMatch reason)
          then have "d' = finish request choices (conflicts @ [reason])" by (simp add: d'_def)
          then have "d' \<in> set choices"
            using finish_cases [of request choices "conflicts @ [reason]"] m by force
          then show ?thesis by (rule plain)
        qed
        then show ?thesis using that run valid by blast
      qed
    qed
  qed
qed


section \<open>Byte accounting\<close>

lemma mapped_file_is_iff:
  assumes "distinct (map tf_ordinal files)"
  shows "mapped_file_is p files m \<longleftrightarrow> (\<exists>f \<in> set files. tf_ordinal f = fm_candidate_ordinal m \<and> p f)"
proof (cases "find (\<lambda>f. tf_ordinal f = fm_candidate_ordinal m) files")
  case None
  then have "\<not> mapped_file_is p files m" by (simp add: mapped_file_is_def)
  with None show ?thesis by (auto simp: find_None_iff)
next
  case (Some f)
  then have f: "f \<in> set files" "tf_ordinal f = fm_candidate_ordinal m"
    by (auto simp: find_Some_iff)
  have "g = f" if "g \<in> set files" "tf_ordinal g = fm_candidate_ordinal m" for g
    using inj_onD [of tf_ordinal "set files" g f] assms f that by (simp add: distinct_map)
  moreover have "mapped_file_is p files m = p f" using Some by (simp add: mapped_file_is_def)
  ultimately show ?thesis using f by blast
qed

definition mapped_from :: "torrent_file list \<Rightarrow> file_mapping list \<Rightarrow> bool" where
  "mapped_from files mappings \<longleftrightarrow> distinct (map fm_candidate_ordinal mappings) \<and>
     (\<forall>m \<in> set mappings. \<exists>f \<in> set files. tf_ordinal f = fm_candidate_ordinal m \<and> tf_size f = fm_size m)"

lemma mapped_bytes_sums:
  assumes d: "distinct (map tf_ordinal files)" and m: "mapped_from files mappings"
  obtains size_of where
    "sum_list (map fm_size (filter q mappings)) = (\<Sum>i \<in> fm_candidate_ordinal ` set (filter q mappings). size_of i)"
    "sum_list (map tf_size (filter p files)) = (\<Sum>i \<in> tf_ordinal ` set (filter p files). size_of i)"
proof -
  define size_of where "size_of i = the (map_of (map (\<lambda>f. (tf_ordinal f, tf_size f)) files) i)" for i
  have size: "size_of (tf_ordinal f) = tf_size f" if "f \<in> set files" for f
  proof -
    have "map_of (map (\<lambda>f. (tf_ordinal f, tf_size f)) files) (tf_ordinal f) = Some (tf_size f)"
      using that d by (intro map_of_is_SomeI) (auto simp: comp_def)
    then show ?thesis by (simp add: size_of_def)
  qed
  then have msize: "size_of (fm_candidate_ordinal x) = fm_size x" if "x \<in> set mappings" for x
    using m that by (force simp: mapped_from_def)
  have "sum_list (map fm_size (filter q mappings)) = sum_list (map size_of (map fm_candidate_ordinal (filter q mappings)))"
    using msize by (intro arg_cong [of _ _ sum_list]) simp
  also have "\<dots> = (\<Sum>i \<in> set (map fm_candidate_ordinal (filter q mappings)). size_of i)"
    using m by (intro sum_list_distinct_conv_sum_set) (auto simp: mapped_from_def intro: distinct_map_filter)
  finally have one: "sum_list (map fm_size (filter q mappings))
      = (\<Sum>i \<in> fm_candidate_ordinal ` set (filter q mappings). size_of i)" by simp
  have "sum_list (map tf_size (filter p files)) = sum_list (map size_of (map tf_ordinal (filter p files)))"
    using size by (intro arg_cong [of _ _ sum_list]) simp
  also have "\<dots> = (\<Sum>i \<in> set (map tf_ordinal (filter p files)). size_of i)"
    using d by (intro sum_list_distinct_conv_sum_set) (auto intro: distinct_map_filter)
  finally have "sum_list (map tf_size (filter p files)) = (\<Sum>i \<in> tf_ordinal ` set (filter p files). size_of i)" by simp
  with one show ?thesis by (rule that)
qed

lemma mapped_bytes_le:
  assumes d: "distinct (map tf_ordinal files)" and m: "mapped_from files mappings"
  shows "sum_list (map fm_size (filter (mapped_file_is p files) mappings)) \<le> sum_list (map tf_size (filter p files))"
proof (rule mapped_bytes_sums [OF d m, of "mapped_file_is p files" p])
  fix size_of :: "nat \<Rightarrow> nat"
  assume eqs: "sum_list (map fm_size (filter (mapped_file_is p files) mappings))
      = (\<Sum>i \<in> fm_candidate_ordinal ` set (filter (mapped_file_is p files) mappings). size_of i)"
    "sum_list (map tf_size (filter p files)) = (\<Sum>i \<in> tf_ordinal ` set (filter p files). size_of i)"
  have "fm_candidate_ordinal ` set (filter (mapped_file_is p files) mappings) \<subseteq> tf_ordinal ` set (filter p files)"
    by (force simp: mapped_file_is_iff [OF d])
  then show ?thesis unfolding eqs by (intro sum_mono2) auto
qed

lemma mapped_bytes_eq:
  assumes d: "distinct (map tf_ordinal files)" and m: "mapped_from files mappings"
    and all: "\<And>f. f \<in> set files \<Longrightarrow> p f \<Longrightarrow> \<exists>x \<in> set mappings. fm_candidate_ordinal x = tf_ordinal f"
  shows "sum_list (map fm_size (filter (mapped_file_is p files) mappings)) = sum_list (map tf_size (filter p files))"
proof (rule mapped_bytes_sums [OF d m, of "mapped_file_is p files" p])
  fix size_of :: "nat \<Rightarrow> nat"
  assume eqs: "sum_list (map fm_size (filter (mapped_file_is p files) mappings))
      = (\<Sum>i \<in> fm_candidate_ordinal ` set (filter (mapped_file_is p files) mappings). size_of i)"
    "sum_list (map tf_size (filter p files)) = (\<Sum>i \<in> tf_ordinal ` set (filter p files). size_of i)"
  have "fm_candidate_ordinal ` set (filter (mapped_file_is p files) mappings) = tf_ordinal ` set (filter p files)"
  proof
    show "tf_ordinal ` set (filter p files) \<subseteq> fm_candidate_ordinal ` set (filter (mapped_file_is p files) mappings)"
    proof
      fix i assume "i \<in> tf_ordinal ` set (filter p files)"
      then obtain f where f: "f \<in> set files" "p f" "i = tf_ordinal f" by auto
      from all [OF f(1,2)] obtain x where "x \<in> set mappings" "fm_candidate_ordinal x = i" using f(3) by blast
      then show "i \<in> fm_candidate_ordinal ` set (filter (mapped_file_is p files) mappings)"
        using f by (force simp: mapped_file_is_iff [OF d])
    qed
  qed (force simp: mapped_file_is_iff [OF d])
  then show ?thesis unfolding eqs by simp
qed

lemma mappings_sound_mapped_from:
  assumes "mappings_sound (edge_score u season) (candidate_files manifest) sources policy mappings"
  shows "mapped_from (tm_files manifest) mappings"
  using assms unfolding mappings_sound_def mapped_from_def
  by (fastforce simp: set_candidate_files mapping_for_def)

lemma required_bytes_exact:
  assumes "request_capacity request"
  shows "required_bytes request
    = sum_list (map tf_size (filter (\<lambda>f. required f (mr_policy request)) (tm_files (mr_candidate request))))"
proof -
  let ?files = "tm_files (mr_candidate request)"
  have "sum_list (map tf_size (filter (\<lambda>f. required f (mr_policy request)) ?files)) \<le> sum_list (map tf_size ?files)"
    by (rule sum_list_filter_le_nat)
  then show ?thesis using assms sum_u64_exact by (simp add: required_bytes_def request_capacity_def)
qed

definition mapped_required_bytes :: "match_request \<Rightarrow> match_decision \<Rightarrow> nat" where
  "mapped_required_bytes request d = sum_list (map fm_size
     (filter (mapped_file_is (\<lambda>f. required f (mr_policy request)) (tm_files (mr_candidate request))) (md_mappings d)))"

lemma sound_decision_bytes:
  assumes cap: "request_capacity request" and d: "distinct (map tf_ordinal (tm_files (mr_candidate request)))"
    and s: "sound_decision u request season sources dec"
  shows "mapped_required_bytes request dec \<le> required_bytes request"
    "md_missing_bytes dec = required_bytes request - mapped_required_bytes request dec"
    "md_present_ratio dec = from_bytes (mapped_required_bytes request dec) (required_bytes request)"
    "md_mapped_bytes dec = sum_list (map fm_size (md_mappings dec))"
    "md_mode dec \<in> {Some Strict, Some Flexible} \<Longrightarrow> mapped_required_bytes request dec = required_bytes request"
proof -
  let ?files = "tm_files (mr_candidate request)" and ?p = "\<lambda>f. required f (mr_policy request)"
  obtain mode ms k where dec: "dec = decision request mode ms k"
    and j: "mode_justified (mr_policy request) (candidate_files (mr_candidate request)) mode ms"
    and m: "mapped_from ?files ms"
    using s mappings_sound_mapped_from unfolding sound_decision_def by blast
  have ms: "md_mappings dec = ms" and mode: "md_mode dec = Some mode" using dec by (simp_all add: decision_def Let_def)
  show le: "mapped_required_bytes request dec \<le> required_bytes request"
    unfolding mapped_required_bytes_def ms required_bytes_exact [OF cap] by (rule mapped_bytes_le [OF d m])
  have "sum_list (map tf_size (filter (\<lambda>_. True) ?files)) < 2 ^ 64" using cap by (simp add: request_capacity_def)
  moreover have "sum_list (map fm_size (filter (mapped_file_is (\<lambda>_. True) ?files) ms))
      \<le> sum_list (map tf_size (filter (\<lambda>_. True) ?files))" by (rule mapped_bytes_le [OF d m])
  moreover have "filter (mapped_file_is (\<lambda>_. True) ?files) ms = ms"
    using m by (auto simp: filter_id_conv mapped_file_is_iff [OF d] mapped_from_def)
  ultimately have all: "sum_list (map fm_size ms) < 2 ^ 64" by simp
  then have "sum_u64 (map fm_size (filter q ms)) = sum_list (map fm_size (filter q ms))" for q
    using sum_list_filter_le_nat [of fm_size q ms] by (intro sum_u64_exact) simp
  then show "md_missing_bytes dec = required_bytes request - mapped_required_bytes request dec"
    "md_present_ratio dec = from_bytes (mapped_required_bytes request dec) (required_bytes request)"
    unfolding mapped_required_bytes_def ms unfolding dec by (simp_all add: decision_def Let_def)
  show "md_mapped_bytes dec = sum_list (map fm_size (md_mappings dec))"
    unfolding ms unfolding dec using sum_u64_exact [OF all] by (simp add: decision_def Let_def)
  assume "md_mode dec \<in> {Some Strict, Some Flexible}"
  then have "mode = Strict \<or> mode = Flexible" using mode by simp
  then have mapped: "\<exists>x \<in> set ms. fm_candidate_ordinal x = tf_ordinal f" if f: "f \<in> set ?files" "?p f" for f
  proof -
    have "f \<in> set (candidate_files (mr_candidate request))" using f by (simp add: set_candidate_files required_def)
    then show ?thesis using j f \<open>mode = Strict \<or> mode = Flexible\<close> unfolding mode_justified_def
      by (elim disjE; simp; blast)
  qed
  show "mapped_required_bytes request dec = required_bytes request"
    unfolding mapped_required_bytes_def ms required_bytes_exact [OF cap]
    by (rule mapped_bytes_eq [OF d m]) (rule mapped)
qed


section \<open>Order independence\<close>

lemma budget_fold_Some_iff:
  "budget_fold policy file_count sources acc \<noteq> None \<longleftrightarrow> sources = [] \<or>
     ((\<forall>s \<in> set sources. length (ls_files s) \<le> mp_max_assignment_files policy - file_count) \<and>
      acc + (\<Sum>s \<leftarrow> sources. length (ls_files s)) \<le> mp_max_assignment_files policy \<and>
      acc + (\<Sum>s \<leftarrow> sources. length (ls_files s)) \<le> u64_max)"
proof (induction sources arbitrary: acc)
  case (Cons s sources)
  show ?case
  proof (cases "acc + length (ls_files s) \<le> u64_max")
    case True
    then show ?thesis
      using Cons.IH [of "acc + length (ls_files s)"] True by (cases "sources = []") (auto simp: checked_add_def add.assoc)
  next
    case False
    then show ?thesis by (simp add: checked_add_def)
  qed
qed simp

lemma input_budget_permute:
  assumes "mset xs = mset (mr_sources request)"
  shows "input_budget_exceeded (request\<lparr>mr_sources := xs\<rparr>) = input_budget_exceeded request"
proof -
  have "mset (filter ls_available xs) = mset (filter ls_available (mr_sources request))" using assms by simp
  moreover from this have "set (filter ls_available xs) = set (filter ls_available (mr_sources request))"
    by (rule mset_eq_setD)
  moreover have "(\<Sum>s \<leftarrow> filter ls_available xs. length (ls_files s))
      = (\<Sum>s \<leftarrow> filter ls_available (mr_sources request). length (ls_files s))"
    unfolding sum_mset_sum_list [symmetric] mset_map using calculation(1) by simp
  ultimately have "budget_fold policy c (filter ls_available xs) a = None \<longleftrightarrow>
      budget_fold policy c (filter ls_available (mr_sources request)) a = None" for policy c a
    using budget_fold_Some_iff [of policy c "filter ls_available xs" a]
      budget_fold_Some_iff [of policy c "filter ls_available (mr_sources request)" a]
    by (metis mset_zero_iff)
  then show ?thesis by (simp add: input_budget_exceeded_def Let_def)
qed

lemma sort_sources_permute:
  assumes "mset xs = mset ys" "distinct (map ls_id ys)"
  shows "sort_key ls_id (filter ls_available xs) = sort_key ls_id (filter ls_available ys)"
proof (rule map_sorted_distinct_set_unique)
  have sets: "set (filter ls_available xs) = set (filter ls_available ys)"
    using assms(1) by (metis mset_eq_setD mset_filter)
  then show "set (sort_key ls_id (filter ls_available xs)) = set (sort_key ls_id (filter ls_available ys))" by simp
  have "distinct (map ls_id xs)" using assms by (metis mset_eq_imp_distinct_iff mset_map)
  then show "distinct (map ls_id (sort_key ls_id (filter ls_available xs)))"
    by (simp add: distinct_map_sort_key distinct_map_filter)
  show "distinct (map ls_id (sort_key ls_id (filter ls_available ys)))"
    using assms(2) by (simp add: distinct_map_sort_key distinct_map_filter)
  show "inj_on ls_id (set (sort_key ls_id (filter ls_available xs)) \<union> set (sort_key ls_id (filter ls_available ys)))"
    using assms(2) sets by (auto simp: distinct_map inj_on_def)
qed simp_all

lemma decision_permute:
  assumes "set xs = set (mr_sources request)"
  shows "decision (request\<lparr>mr_sources := xs\<rparr>) mode mappings k = decision request mode mappings k"
  using assms by (simp add: decision_def Let_def base_evidence_def required_bytes_def list_ex_iff)

lemma evaluate_source_permute:
  "set xs = set (mr_sources request) \<Longrightarrow>
     evaluate_source u (request\<lparr>mr_sources := xs\<rparr>) s = evaluate_source u request s"
  by (simp add: evaluate_source_def Let_def decision_permute
      split: option.split sum.split assignment_error.split)

lemma evaluate_season_permute:
  "set xs = set (mr_sources request) \<Longrightarrow>
     evaluate_season u (request\<lparr>mr_sources := xs\<rparr>) sources = evaluate_season u request sources"
  by (simp add: evaluate_season_def Let_def episode_sources_def decision_permute
      split: option.split sum.split assignment_error.split)

lemma scan_sources_permute:
  "set xs = set (mr_sources request) \<Longrightarrow>
     scan_sources u (request\<lparr>mr_sources := xs\<rparr>) sources choices conflicts
       = scan_sources u request sources choices conflicts"
  by (induction sources arbitrary: choices conflicts)
    (simp_all add: evaluate_source_permute split: sum.split option.split source_evaluation.split)

lemma request_permute:
  "base_evidence (request\<lparr>mr_sources := xs\<rparr>) = base_evidence request"
  "already_present evidence (request\<lparr>mr_sources := xs\<rparr>) = already_present evidence request"
  "finish (request\<lparr>mr_sources := xs\<rparr>) choices conflicts = finish request choices conflicts"
  by (simp_all add: finish_def no_match_def already_present_def base_evidence_def required_bytes_def split: option.split)

lemma arr_agrees_sym: "arr_agrees a b = arr_agrees b a"
  by (auto simp: arr_agrees_def)

lemma differ_sym: "differ a b = differ b a"
  by (auto simp: differ_def split: option.split)

lemma titles_overlap_sym: "titles_overlap a b = titles_overlap b a"
  by (auto simp: titles_overlap_def list_ex_iff)

section \<open>The shape of the answers\<close>

definition answer_shape :: "match_decision \<Rightarrow> bool" where
  "answer_shape d \<longleftrightarrow>
     (if md_outcome d = Match then md_mode d \<noteq> None \<and> md_requires_recheck d
      else md_mode d = None \<and> md_mappings d = [] \<and> md_source_ids d = [] \<and> md_mapped_bytes d = 0 \<and>
        \<not> md_requires_recheck d)"

lemma answer_shapes [simp]:
  "answer_shape (rejection reason evidence)" "answer_shape (no_match reason evidence request)"
  "answer_shape (already_present evidence request)" "answer_shape (decision request mode mappings k)"
  by (simp_all add: answer_shape_def rejection_def no_match_def already_present_def decision_def Let_def)

lemma evaluate_source_shape:
  "evaluate_source u request s = Some (EvalDecision d) \<Longrightarrow> answer_shape d"
  by (auto simp: evaluate_source_def Let_def split: option.splits sum.splits assignment_error.splits if_splits)

lemma evaluate_season_shape:
  "evaluate_season u request sources = Some (EvalDecision d) \<Longrightarrow> answer_shape d"
  by (auto simp: evaluate_season_def Let_def split: option.splits sum.splits assignment_error.splits if_splits)

lemma scan_sources_shape:
  "scan_sources u request sources choices conflicts = Some (ScanResult choices' conflicts') \<Longrightarrow>
     \<forall>c \<in> set choices. answer_shape c \<Longrightarrow> \<forall>c \<in> set choices'. answer_shape c"
proof (induction sources arbitrary: choices conflicts)
  case (Cons s sources)
  show ?case
  proof (cases "compatible (mr_candidate_release request) (ls_release s) False")
    case (Inl reason)
    then show ?thesis using Cons.IH [of choices "conflicts @ [reason]"] Cons.prems by simp
  next
    case (Inr x)
    show ?thesis
    proof (cases "evaluate_source u request s")
      case (Some e)
      show ?thesis
      proof (cases e)
        case (EvalDecision d)
        have "answer_shape d" using evaluate_source_shape Some EvalDecision by simp
        then show ?thesis using Cons.IH [of "choices @ [d]" conflicts] Cons.prems Inr Some EvalDecision by simp
      next
        case EvalAmbiguous
        then show ?thesis using Cons.prems(1) Inr Some by simp
      next
        case (EvalNoMatch reason)
        then show ?thesis using Cons.IH [of choices "conflicts @ [reason]"] Cons.prems Inr Some by simp
      qed
    qed (use Inr Cons.prems in simp)
  qed
qed simp

lemma finish_shape: "\<forall>c \<in> set choices. answer_shape c \<Longrightarrow> answer_shape (finish request choices conflicts)"
proof (cases "choices = []")
  case False
  assume all: "\<forall>c \<in> set choices. answer_shape c"
  show ?thesis by (rule choose_decision_spec [OF False]) (use all in \<open>auto simp: finish_def\<close>)
qed (simp add: finish_def)

lemma evaluate_shape:
  assumes "evaluate u request = Some d"
  shows "answer_shape d"
proof -
  have scan: "answer_shape (finish request choices conflicts')"
    if "scan_sources u request sources [] [] = Some (ScanResult choices conflicts)" for sources choices conflicts conflicts'
    using scan_sources_shape [OF that] by (intro finish_shape) simp
  have scan': "answer_shape (finish request (choices @ [e]) conflicts')"
    if "scan_sources u request sources [] [] = Some (ScanResult choices conflicts)"
      "evaluate_season u request sources' = Some (EvalDecision e)" for sources sources' choices conflicts conflicts' e
    using scan_sources_shape [OF that(1)] evaluate_season_shape [OF that(2)] by (intro finish_shape) simp
  show ?thesis using assms unfolding evaluate_def Let_def
    by (auto split: option.splits if_splits source_scan.splits source_evaluation.splits intro: scan scan')
qed

section \<open>A worked example\<close>

abbreviation sample_file :: torrent_file where
  "sample_file \<equiv> \<lparr>tf_ordinal = 0, tf_path = ''a.mkv'', tf_size = 700, tf_padding = False\<rparr>"

abbreviation sample_local_file :: local_source_file where
  "sample_local_file \<equiv> \<lparr>lf_id = 7, lf_path = ''b.mkv'', lf_size = 700, lf_device_id = None, lf_inode = None\<rparr>"


text \<open>The request of the examples: one primary video, one source with a file of the same size.\<close>

definition sample_request :: match_request where
  "sample_request =
     \<lparr> mr_candidate = \<lparr>tm_hashes = \<lparr>ih_v1 = Some ''c'', ih_v2 = None\<rparr>,
         tm_files = [sample_file],
         tm_piece_length = Some 16, tm_piece_files = []\<rparr>,
       mr_candidate_release = unknown (NormalizedTitle ''a''),
       mr_sources = [\<lparr>ls_id = ''ssssssssssssssss'', ls_kind = DataDirectoryFile, ls_release = unknown (NormalizedTitle ''a''),
         ls_hashes = \<lparr>ih_v1 = None, ih_v2 = None\<rparr>,
         ls_files = [sample_local_file],
         ls_available = True\<rparr>],
       mr_policy = default_policy \<rparr>"

lemma sample_request_capacity: "request_capacity sample_request"
  by (simp add: request_capacity_def sample_request_def default_policy_def
      default_max_candidate_edges_def default_max_assignment_files_def)

lemma default_budgets: "mp_max_candidate_edges default_policy = 100000" "mp_max_assignment_files default_policy = 4096"
  "mp_max_assignment_component_files default_policy = 128" "mp_max_assignment_operations default_policy = 50000000"
  by (simp_all add: default_policy_def default_max_candidate_edges_def  default_max_assignment_files_def default_max_assignment_component_files_def default_max_assignment_operations_def)

lemma sample_candidate_keys: "episode_keys ascii_unicode ''a.mkv'' = []"
  by code_simp

lemma sample_source_keys: "episode_keys ascii_unicode ''b.mkv'' = []"
  by code_simp

lemma sample_titles_differ: "normalize_title ascii_unicode (stem (basename ''a.mkv'')) \<noteq> normalize_title ascii_unicode (stem (basename ''b.mkv''))"
  by code_simp

lemma sample_candidate_primary: "primary_path ''a.mkv'' default_policy"  
 by (simp add: primary_path_def default_policy_def Let_def extension_def basename_def eq_ignore_ascii_case_def to_ascii_lowercase_def ascii_lower_char_def is_ascii_upper_def)

lemma sample_source_primary: "primary_path ''b.mkv'' default_policy"  
 by (simp add: primary_path_def default_policy_def Let_def extension_def basename_def eq_ignore_ascii_case_def to_ascii_lowercase_def ascii_lower_char_def is_ascii_upper_def)

lemma sample_candidate_required: "\<not> optional ''a.mkv'' default_policy"
 by (simp add: optional_def default_policy_def Let_def stem_def extension_def basename_def eq_ignore_ascii_case_def to_ascii_lowercase_def ascii_lower_char_def is_ascii_upper_def)

lemma sample_hungarian: "hungarian [[-1404803, 0]] = Some [0]"
  by code_simp

lemma sample_hungarian_banned: "hungarian [[0, 0]] = Some [0]"
  by code_simp

lemma sample_edge: "edge_score ascii_unicode False sample_file sample_local_file default_policy = Some 1001"
  using sample_titles_differ by (simp add: edge_score_def Let_def primary_def sample_candidate_required sample_candidate_primary sample_source_primary sample_candidate_keys sample_source_keys extension_def basename_def parent_basename_def
    SCORE_EXACT_PATH_def SCORE_EXACT_BASENAME_def SCORE_EPISODE_def SCORE_PRIMARY_EXTENSION_def
    SCORE_NORMALIZED_BASENAME_def SCORE_DIRECTORY_def SCORE_ROLE_def episode_agreement_def)

lemma sample_buckets: "source_buckets [(''ssssssssssssssss'', sample_local_file)] default_policy (bucket 700 ''a.mkv'' True) = [0]"
  by (simp add: source_buckets_def sample_source_primary bucket_def)

lemma sample_scan: "scan_candidates (edge_score ascii_unicode False) default_policy [(''ssssssssssssssss'', sample_local_file)] (enumerate 0 [sample_file])
   \<lparr>es_edges = [[]], es_reverse = [[]], es_count = 0\<rparr> = Inr \<lparr>es_edges = [[(0, 1001)]], es_reverse = [[0]], es_count = 1\<rparr>"
  by (simp add: primary_def sample_candidate_required sample_candidate_primary sample_buckets sample_edge checked_add_def default_budgets)

lemma sample_component: "component 0 [[(0, 1001)]] [[0]] [False] [False] = (([0], [0]), [True], [True])"
  by (simp add: component_def)

lemma sample_optimal: "optimal_assignment [[Some 1404803]] None = Some (1404803, [(0, 0)])"
  by (simp add: optimal_assignment_def maximum_weight_def weight_at_def i128_max_def cost_table_def source_columns_def sample_hungarian selected_pairs_def pairs_weight_def)

lemma sample_optimal_banned: "optimal_assignment [[Some 1404803]] (Some (0, 0)) = Some (0, [])"
  by (simp add: optimal_assignment_def maximum_weight_def weight_at_def i128_max_def cost_table_def source_columns_def sample_hungarian_banned selected_pairs_def pairs_weight_def)

lemma sample_solve: "solve_component (edge_weight [sample_file] default_policy 1002 702402) [[(0, 1001)]] [0] [0] = Some (Some [(0, 0, 1001)])"
  by (simp add: solve_component_def edge_weight_def primary_def required_def sample_candidate_required sample_candidate_primary wrap_u128_def sample_optimal sample_optimal_banned)

lemma sample_assign: "assign ascii_unicode [sample_file] [(''ssssssssssssssss'', sample_local_file)] default_policy = Some (Inr \<lparr>as_pairs = [(0, 0, 1001)], as_ambiguous = False\<rparr>)"
  unfolding assign_def assign_with_def
  using sample_scan by (simp add: score_unit_def sum_u64_def primary_bytes_def primary_def sample_candidate_required sample_candidate_primary wrap_u128_def saturating_add_def default_budgets sample_component sample_solve del: enumerate_simps)

lemma sample_mappings: "build_mappings [sample_file] [(''ssssssssssssssss'', sample_local_file)] \<lparr>as_pairs = [(0, 0, 1001)], as_ambiguous = False\<rparr> = [mapping_for sample_file ''ssssssssssssssss'' sample_local_file 1001]"
  by (simp add: build_mappings_def mapping_for_def)

lemma sample_mode: "select_mode default_policy [sample_file] [mapping_for sample_file ''ssssssssssssssss'' sample_local_file 1001] = Some Flexible"
  by (simp add: select_mode_def Let_def required_def sample_candidate_required mapping_for_def)(simp add: default_policy_def)

definition sample_result :: match_decision where
  "sample_result = decision sample_request Flexible [mapping_for sample_file ''ssssssssssssssss'' sample_local_file 1001] 1"

lemma sample_decision: "md_outcome sample_result = Match" "md_mappings sample_result \<noteq> []"
  "md_mode sample_result = Some Flexible"
  by (simp_all add: sample_result_def decision_def Let_def)

lemma sample_evaluate: "evaluate ascii_unicode sample_request = Some sample_result"
proof -
  have v: "validate_manifest ascii_unicode (mr_candidate sample_request) = None"
    by (simp add: sample_request_def validate_manifest_def unsafe_path_def ascii_unicode_def get_def)
  have b: "\<not> input_budget_exceeded sample_request"
    by (simp add: sample_request_def input_budget_exceeded_def checked_add_def default_budgets)
  have src: "evaluate_source ascii_unicode sample_request (hd (mr_sources sample_request))
    = Some (EvalDecision sample_result)"
    unfolding evaluate_source_def sample_result_def by (simp add: sample_request_def candidate_files_def sample_assign sample_mappings sample_mode)
  have compat: "compatible (mr_candidate_release sample_request) (ls_release (hd (mr_sources sample_request))) False = Inr ()"
   by (simp add: sample_request_def unknown_def compatible_def titles_overlap_def differ_def)
  have rest: "mr_sources sample_request = [hd (mr_sources sample_request)]" "ls_available (hd (mr_sources sample_request))"
    "rd_kind (mr_candidate_release sample_request) \<noteq> SeasonPack"
    "\<not> hash_present (tm_hashes (mr_candidate sample_request)) (ls_hashes (hd (mr_sources sample_request)))"
    by (simp_all add: sample_request_def unknown_def hash_present_def)
  have "sort_key ls_id (filter ls_available (mr_sources sample_request)) = [hd (mr_sources sample_request)]"
    by (subst rest(1)) (simp add: rest(2))
  moreover have "\<not> list_ex (\<lambda>source. hash_present (tm_hashes (mr_candidate sample_request)) (ls_hashes source)) (mr_sources sample_request)"
    by (subst rest(1)) (simp add: rest(4))
  ultimately show ?thesis
    unfolding evaluate_def Let_def v using b src compat rest(3)
    by (simp add: finish_def choose_decision_def)
qed

lemma distinct_source_files:
  assumes "distinct (map ls_id sources)" and "\<forall>s \<in> set sources. distinct (map lf_id (ls_files s))"
  shows "distinct (map (\<lambda>p. (fst p, lf_id (snd p))) (concat (map (\<lambda>s. map (Pair (ls_id s)) (ls_files s)) sources)))"
  using assms
proof (induction sources)
  case (Cons s sources)
  have "distinct (map (\<lambda>p. (fst p, lf_id (snd p))) (map (Pair (ls_id s)) (ls_files s)))"
    using Cons.prems(2) by (simp add: comp_def distinct_map inj_on_def)
  then show ?case using Cons by auto
qed simp

lemma sound_decision_mapping:
  assumes s: "sound_decision u request season sources d"
    and sub: "set sources \<subseteq> {s \<in> set (mr_sources request). ls_available s}" and m: "m \<in> set (md_mappings d)"
  shows "\<exists>f \<in> set (tm_files (mr_candidate request)). \<exists>s \<in> set (mr_sources request). \<exists>lf \<in> set (ls_files s).
    \<not> tf_padding f \<and> ls_available s \<and> tf_size f = lf_size lf \<and>
    compatible (mr_candidate_release request) (ls_release s) season = Inr () \<and> m = mapping_for f (ls_id s) lf (fm_score m)"
proof -
  from s obtain mode ms k where d: "d = decision request mode ms k"
    and snd: "mappings_sound (edge_score u season) (candidate_files (mr_candidate request))
      (concat (map (\<lambda>s. map (Pair (ls_id s)) (ls_files s)) sources)) (mr_policy request) ms"
    unfolding sound_decision_def by blast
  have "md_mappings d = ms" using d by (simp add: decision_def Let_def)
  with snd m obtain f i lf v where f: "f \<in> set (candidate_files (mr_candidate request))"
    and il: "(i, lf) \<in> set (concat (map (\<lambda>s. map (Pair (ls_id s)) (ls_files s)) sources))"
    and mv: "m = mapping_for f i lf v" "edge_score u season f lf (mr_policy request) = Some v"
    unfolding mappings_sound_def by fastforce
  from il obtain src where src: "src \<in> set sources" "lf \<in> set (ls_files src)" "i = ls_id src" by auto
  then have "compatible (mr_candidate_release request) (ls_release src) season = Inr ()"
    using s by (simp add: sound_decision_def)
  moreover have "src \<in> set (mr_sources request)" "ls_available src" using sub src(1) by auto
  ultimately show ?thesis using f src mv edge_score_SomeD(1) [OF mv(2)]
    by (intro bexI [of _ f] bexI [of _ src] bexI [of _ lf]) (simp_all add: set_candidate_files mapping_for_def)
qed

section \<open>Properties of the matcher\<close>

text \<open>
  C1: A request whose file sizes sum below 2^64 and whose budgets are at most
  2^24 edges and 2^16 files is always answered, and an answer \<open>Match\<close> is sound:
  the manifest is valid, every mapping pairs a real non-padding candidate file with
  a real file of an available and compatible source of exactly the same size, no
  candidate file is mapped twice, no source file is used twice (when the ids of the
  sources, and those of the files of each source, are unique, as they are in the
  database), and the mode has the evidence that it claims.
\<close>

theorem evaluate_sound:
  assumes "request_capacity request"
  shows "\<exists>d. evaluate u request = Some d \<and> (md_outcome d = Match \<longrightarrow>
    validate_manifest u (mr_candidate request) = None \<and>
    distinct (map fm_candidate_ordinal (md_mappings d)) \<and>
    (distinct (map ls_id (mr_sources request)) \<longrightarrow> (\<forall>s \<in> set (mr_sources request). distinct (map lf_id (ls_files s))) \<longrightarrow>
       distinct (map (\<lambda>m. (fm_source_id m, fm_source_file_id m)) (md_mappings d))) \<and>
    (\<exists>mode. md_mode d = Some mode \<and>
       mode_justified (mr_policy request) (candidate_files (mr_candidate request)) mode (md_mappings d) \<and>
       (\<forall>m \<in> set (md_mappings d). \<exists>f \<in> set (tm_files (mr_candidate request)). \<exists>s \<in> set (mr_sources request).
          \<exists>lf \<in> set (ls_files s). \<not> tf_padding f \<and> ls_available s \<and> tf_size f = lf_size lf \<and>
            compatible (mr_candidate_release request) (ls_release s) (mode = SeasonFromEpisodes) = Inr () \<and>
            m = mapping_for f (ls_id s) lf (fm_score m))))"
proof (rule evaluate_spec [OF assms, of u])
  fix d assume run: "evaluate u request = Some d"
    and ok: "md_outcome d = Match \<Longrightarrow> validate_manifest u (mr_candidate request) = None \<and>
      (\<exists>season sources. set sources \<subseteq> {s \<in> set (mr_sources request). ls_available s} \<and>
         (distinct (map ls_id (mr_sources request)) \<longrightarrow> distinct (map ls_id sources)) \<and>
         (season \<longrightarrow> rd_kind (mr_candidate_release request) = SeasonPack) \<and>
         sound_decision u request season sources d)"
  show ?thesis
  proof (intro exI [of _ d] conjI impI run)
    assume match: "md_outcome d = Match"
    from ok [OF match] show "validate_manifest u (mr_candidate request) = None" ..
    from ok [OF match] obtain season sources where sub: "set sources \<subseteq> {s \<in> set (mr_sources request). ls_available s}"
      and ids: "distinct (map ls_id (mr_sources request)) \<longrightarrow> distinct (map ls_id sources)"
      and s: "sound_decision u request season sources d" by blast
    from s obtain mode ms k where d: "d = decision request mode ms k" "season \<longleftrightarrow> mode = SeasonFromEpisodes"
      and snd: "mappings_sound (edge_score u season) (candidate_files (mr_candidate request))
        (concat (map (\<lambda>s. map (Pair (ls_id s)) (ls_files s)) sources)) (mr_policy request) ms"
      and j: "mode_justified (mr_policy request) (candidate_files (mr_candidate request)) mode ms"
      unfolding sound_decision_def by blast
    have ms: "md_mappings d = ms" "md_mode d = Some mode" using d(1) by (simp_all add: decision_def Let_def)
    show "distinct (map fm_candidate_ordinal (md_mappings d))" using snd by (simp add: ms mappings_sound_def)
    show "distinct (map (\<lambda>m. (fm_source_id m, fm_source_file_id m)) (md_mappings d))"
      if "distinct (map ls_id (mr_sources request))" and "\<forall>s \<in> set (mr_sources request). distinct (map lf_id (ls_files s))"
    proof -
      have "distinct (map ls_id sources)" "\<forall>s \<in> set sources. distinct (map lf_id (ls_files s))" using that ids sub by auto
      from distinct_source_files [OF this] show ?thesis using snd by (simp add: ms mappings_sound_def)
    qed
    have "\<exists>f \<in> set (tm_files (mr_candidate request)). \<exists>s \<in> set (mr_sources request).
        \<exists>lf \<in> set (ls_files s). \<not> tf_padding f \<and> ls_available s \<and> tf_size f = lf_size lf \<and>
          compatible (mr_candidate_release request) (ls_release s) (mode = SeasonFromEpisodes) = Inr () \<and>
          m = mapping_for f (ls_id s) lf (fm_score m)" if "m \<in> set ms" for m
      using sound_decision_mapping [OF s sub, of m] that d(2) by (simp add: ms)
    then show "\<exists>mode. md_mode d = Some mode \<and>
       mode_justified (mr_policy request) (candidate_files (mr_candidate request)) mode (md_mappings d) \<and>
       (\<forall>m \<in> set (md_mappings d). \<exists>f \<in> set (tm_files (mr_candidate request)). \<exists>s \<in> set (mr_sources request).
          \<exists>lf \<in> set (ls_files s). \<not> tf_padding f \<and> ls_available s \<and> tf_size f = lf_size lf \<and>
            compatible (mr_candidate_release request) (ls_release s) (mode = SeasonFromEpisodes) = Inr () \<and>
            m = mapping_for f (ls_id s) lf (fm_score m))"
      using j by (intro exI [of _ mode]) (simp add: ms)
  qed
qed

theorem evaluate_sound_witness:
  "request_capacity sample_request \<and>
   (\<exists>d. evaluate ascii_unicode sample_request = Some d \<and> md_outcome d = Match \<and> md_mappings d \<noteq> [] \<and>
      validate_manifest ascii_unicode (mr_candidate sample_request) = None \<and>
      distinct (map (\<lambda>m. (fm_source_id m, fm_source_file_id m)) (md_mappings d)))"
proof -
  have "distinct (map ls_id (mr_sources sample_request))" "\<forall>s \<in> set (mr_sources sample_request). distinct (map lf_id (ls_files s))"
    by (simp_all add: sample_request_def)
  then show ?thesis using sample_request_capacity evaluate_sound [OF sample_request_capacity, of ascii_unicode]
    unfolding sample_evaluate by (simp add: sample_decision)
qed

text \<open>
  C26: The byte counts of a \<open>Match\<close> are exact.  The required bytes are the sum of the
  sizes of the required files, without overflow; the mapped required bytes never
  exceed them, the missing bytes are the difference, the mapped bytes are the sum
  over the mappings, the present ratio is the quotient of mapped and required bytes in parts per
  million, rounded down (0 when nothing is required) and never above one million,
  and in the strict and flexible modes no required byte is missing.
\<close>

theorem evaluate_bytes:
  assumes "request_capacity request" and "evaluate u request = Some d" and "md_outcome d = Match"
    and "needed = sum_list (map tf_size (filter (\<lambda>f. required f (mr_policy request)) (tm_files (mr_candidate request))))"
  shows "mapped_required_bytes request d \<le> needed \<and>
    md_missing_bytes d = needed - mapped_required_bytes request d \<and>
    as_ppm (md_present_ratio d) = mapped_required_bytes request d * 1000000 div needed \<and>
    as_ppm (md_present_ratio d) \<le> 1000000 \<and>
    md_mapped_bytes d = sum_list (map fm_size (md_mappings d)) \<and>
    (md_mode d \<in> {Some Strict, Some Flexible} \<longrightarrow> md_missing_bytes d = 0)"
proof (rule evaluate_spec [OF assms(1), of u])
  fix d' assume run: "evaluate u request = Some d'"
    and ok: "md_outcome d' = Match \<Longrightarrow> validate_manifest u (mr_candidate request) = None \<and>
      (\<exists>season sources. set sources \<subseteq> {s \<in> set (mr_sources request). ls_available s} \<and>
         (distinct (map ls_id (mr_sources request)) \<longrightarrow> distinct (map ls_id sources)) \<and>
         (season \<longrightarrow> rd_kind (mr_candidate_release request) = SeasonPack) \<and>
         sound_decision u request season sources d')"
  have d': "d' = d" using run assms(2) by simp
  from ok assms(3) obtain season sources where
    "distinct (map tf_ordinal (tm_files (mr_candidate request)))" "sound_decision u request season sources d"
    unfolding d' using validate_manifest_ordinals by blast
  note b = sound_decision_bytes [OF assms(1) this, unfolded required_bytes_exact [OF assms(1)], folded assms(4)]
  have "as_ppm (md_present_ratio d) = mapped_required_bytes request d * 1000000 div needed"
    unfolding b(3) by (rule from_bytes_ppm [OF b(1)])
  moreover have "as_ppm (md_present_ratio d) \<le> 1000000" unfolding b(3) by (rule from_bytes_bounded [OF b(1)])
  ultimately show ?thesis using b by auto
qed

theorem evaluate_bytes_witness:
  "\<exists>d. request_capacity sample_request \<and> evaluate ascii_unicode sample_request = Some d \<and>
     md_outcome d = Match \<and> md_missing_bytes d = 0 \<and> as_ppm (md_present_ratio d) = 1000000"
proof -
  have files: "sum_list (map tf_size (filter (\<lambda>f. required f (mr_policy sample_request)) (tm_files (mr_candidate sample_request)))) = 700"
    by (simp add: sample_request_def required_def sample_candidate_required)
  note b = evaluate_bytes [OF sample_request_capacity sample_evaluate sample_decision(1) refl, unfolded files]
  then have "md_missing_bytes sample_result = 0" using sample_decision(3) by blast
  moreover from this have "mapped_required_bytes sample_request sample_result = 700" using b by linarith
  ultimately show ?thesis using b sample_request_capacity sample_evaluate sample_decision(1) by auto
qed

text \<open>
  C28: The answer does not depend on the order in which the sources are listed,
  as long as their ids differ.
\<close>

theorem evaluate_order_independent:
  assumes "mset sources = mset (mr_sources request)" and "distinct (map ls_id (mr_sources request))"
  shows "evaluate u (request\<lparr>mr_sources := sources\<rparr>) = evaluate u request"
proof -
  have sets: "set sources = set (mr_sources request)" using assms(1) by (rule mset_eq_setD)
  let ?r = "request\<lparr>mr_sources := sources\<rparr>"
  have fields: "mr_candidate ?r = mr_candidate request" "mr_candidate_release ?r = mr_candidate_release request"
    "mr_policy ?r = mr_policy request" "mr_sources ?r = sources" by simp_all
  show ?thesis
    unfolding evaluate_def Let_def fields request_permute scan_sources_permute [OF sets]
      evaluate_season_permute [OF sets] sort_sources_permute [OF assms] input_budget_permute [OF assms(1)]
      list_ex_iff sets ..
qed

theorem evaluate_order_independent_witness:
  "let first = hd (mr_sources sample_request); second = first\<lparr>ls_id := ''tttttttttttttttt'', ls_kind := QbittorrentTorrent\<rparr>
   in [second, first] \<noteq> [first, second] \<and> mset [second, first] = mset [first, second] \<and>
      distinct (map ls_id [first, second]) \<and>
      evaluate ascii_unicode (sample_request\<lparr>mr_sources := [second, first]\<rparr>)
        = evaluate ascii_unicode (sample_request\<lparr>mr_sources := [first, second]\<rparr>)"
proof -
  let ?first = "hd (mr_sources sample_request)"
  let ?second = "?first\<lparr>ls_id := ''tttttttttttttttt'', ls_kind := QbittorrentTorrent\<rparr>"
  let ?request = "sample_request\<lparr>mr_sources := [?first, ?second]\<rparr>"
  have "ls_id ?first \<noteq> ls_id ?second" by (simp add: sample_request_def)
  then have "?second \<noteq> ?first" "distinct (map ls_id (mr_sources ?request))" by (metis, simp)
  then have "[?second, ?first] \<noteq> [?first, ?second]" "distinct (map ls_id (mr_sources ?request))" by simp_all
  moreover have "mset [?second, ?first] = mset (mr_sources ?request)" by simp
  ultimately show ?thesis using evaluate_order_independent [of "[?second, ?first]" ?request ascii_unicode]
    by (simp add: Let_def)
qed

text \<open>
  Among the decisions of the sources \<open>choose\<close> takes one of the best quality,
  unless it finds another decision of the same quality with different mappings:
  then it rejects the candidate as ambiguous.
\<close>

lemma choose_best:
  assumes "choices \<noteq> []"
  shows "\<exists>first \<in> set choices. (\<forall>c \<in> set choices. quality c \<le> quality first) \<and>
    (choose_decision choices = Some first \<or>
     (choose_decision choices = Some (rejection AmbiguousFileMapping (md_evidence first)) \<and>
      (\<exists>second \<in> set choices. quality second = quality first \<and> md_mappings second \<noteq> md_mappings first)))"
  by (rule choose_decision_spec [OF assms]) blast

text \<open>
  Outside season mode the compatibility of two releases is symmetric, with
  the same conflict reported both ways, and a release is compatible with itself.
\<close>

lemma compatible_symmetric:
  "compatible a b False = compatible b a False \<and> compatible a a season_mode = Inr ()"
proof
  let ?arr = "\<lambda>P a b. case (rd_arr_identity a, rd_arr_identity b) of (Some x, Some y) \<Rightarrow> P (arr_agrees x y) | _ \<Rightarrow> False"
  have arr: "?arr P a b = ?arr P b a" for P
    by (simp add: arr_agrees_sym split: option.split)
  have kind: "(rd_kind a \<noteq> UnknownVideo \<and> rd_kind b \<noteq> UnknownVideo \<and> rd_kind a \<noteq> rd_kind b \<and> \<not> (False \<and> X))
      = (rd_kind b \<noteq> UnknownVideo \<and> rd_kind a \<noteq> UnknownVideo \<and> rd_kind b \<noteq> rd_kind a \<and> \<not> (False \<and> Y))" for X Y
    by auto
  have episode: "(\<not> False \<and> rd_kind a = Episode \<and> rd_kind b = Episode
        \<and> (rd_episode a, rd_episode_end a) \<noteq> (rd_episode b, rd_episode_end b))
      = (\<not> False \<and> rd_kind b = Episode \<and> rd_kind a = Episode
        \<and> (rd_episode b, rd_episode_end b) \<noteq> (rd_episode a, rd_episode_end a))"
    by auto
  show "compatible a b False = compatible b a False"
    unfolding compatible_def Let_def titles_overlap_sym [of a b] differ_sym [of "rd_year a"]
      differ_sym [of "rd_season a"] differ_sym [of "rd_air_date a"] differ_sym [of "rd_absolute_episode a"]
    by (intro if_cong arr kind episode refl) (use arr [of "\<lambda>x. x"] in simp)
  show "compatible a a season_mode = Inr ()"
    by (simp add: compatible_def Let_def differ_def titles_overlap_def arr_agrees_def split: option.split)
qed

text \<open>
  Only a \<open>Match\<close> carries mappings, names sources or asks for a recheck; every
  other answer of \<open>evaluate\<close> leaves them empty, and a \<open>Match\<close> always asks for a
  recheck.
\<close>

lemma evaluate_only_match_maps:
  assumes "evaluate u request = Some d"
  shows "if md_outcome d = Match then md_mode d \<noteq> None \<and> md_requires_recheck d
    else md_mode d = None \<and> md_mappings d = [] \<and> md_source_ids d = [] \<and> md_mapped_bytes d = 0 \<and>
      \<not> md_requires_recheck d"
  using evaluate_shape [OF assms] by (simp add: answer_shape_def)

text \<open>
  A torrent without a required file is accepted as a strict match by every
  source whose evaluation is not ambiguous, even when no file is mapped at all:
  the conditions on the required files hold vacuously.
\<close>

lemma strict_without_required_files:
  assumes "list_all (\<lambda>f. \<not> required f (mr_policy request)) (candidate_files (mr_candidate request))"
    and "assign u (candidate_files (mr_candidate request)) (map (Pair (ls_id source)) (ls_files source))
      (mr_policy request) = Some (Inr assignment)"
    and "\<not> as_ambiguous assignment"
  shows "evaluate_source u request source = Some (EvalDecision (decision request Strict
    (build_mappings (candidate_files (mr_candidate request)) (map (Pair (ls_id source)) (ls_files source))
      assignment) 1))"
proof -
  have "filter (\<lambda>f. required f (mr_policy request)) (candidate_files (mr_candidate request)) = []"
    using assms(1) by (simp add: filter_empty_conv list_all_iff)
  then show ?thesis using assms(2,3) by (simp add: evaluate_source_def select_mode_def Let_def)
qed

end
