(* ===== verification/Template.thy ===== *)
theory Template
  imports Release
begin

text \<open>
  Category and tag templates, \<open>crates/sporos-service/src/template.rs\<close>.  The
  context is a map from variable names to values.
\<close>

section \<open>Definitions\<close>

datatype template_error =
    UnsupportedSyntax | UnknownVariable string | UndefinedVariable string | OutputLimit

definition MAX_OUTPUT_BYTES :: nat where "MAX_OUTPUT_BYTES = 128"

definition VARIABLES :: "string list" where
  "VARIABLES = [''trigger'', ''indexer_id'', ''indexer_name'', ''indexer_slug'', ''match_mode'', ''source_category'',
     ''source_kind'', ''video_kind'', ''year'', ''season'', ''episode'']"

type_synonym template_context = "string \<Rightarrow> string option"

fun find_str :: "string \<Rightarrow> string \<Rightarrow> nat option" where
  "find_str pat s = (if prefix pat s then Some 0
     else case s of [] \<Rightarrow> None | _ # t \<Rightarrow> map_option Suc (find_str pat t))"

declare find_str.simps [simp del]

lemma find_str_bound: "find_str pat s = Some i \<Longrightarrow> i + length pat \<le> length s"
proof (induction s arbitrary: i)
  case Nil
  then show ?case by (auto simp: find_str.simps [of pat "[]"] split: if_splits dest: prefix_length_le)
next
  case (Cons a s)
  then show ?case by (fastforce simp: find_str.simps [of pat "a # s"] split: if_splits dest: prefix_length_le)
qed

function render_loop ::
  "template_context \<Rightarrow> string \<Rightarrow> string \<Rightarrow> (template_error, string) result" where
  "render_loop values out rest =
     (case find_str ''{{'' rest of
        None \<Rightarrow> if str_contains rest ''}}'' then Inl UnsupportedSyntax else Inr (out @ rest)
      | Some start \<Rightarrow>
          if str_contains (take start rest) ''}}'' then Inl UnsupportedSyntax
          else let after = drop (start + 2) rest
               in case find_str ''}}'' after of
                    None \<Rightarrow> Inl UnsupportedSyntax
                  | Some stop \<Rightarrow>
                      let name = trim (take stop after)
                      in if name = [] \<or> name \<notin> set VARIABLES then Inl (UnknownVariable name)
                         else case values name of
                                None \<Rightarrow> Inl (UndefinedVariable name)
                              | Some v \<Rightarrow> render_loop values (out @ take start rest @ v) (drop (stop + 2) after))"
  by pat_completeness auto
termination
  by (relation "measure (\<lambda>(_, _, rest). length rest)") (auto dest!: find_str_bound)

declare render_loop.simps [simp del]

definition render :: "string \<Rightarrow> template_context \<Rightarrow> (template_error, string) result" where
  "render template values =
     (if str_contains template ''{%'' \<or> str_contains template ''{#'' then Inl UnsupportedSyntax
      else render_loop values [] template)"

definition validate_template :: "string \<Rightarrow> (template_error, unit) result" where
  "validate_template template =
     and_then (render template (\<lambda>name. if name \<in> set VARIABLES then Some [] else None)) (\<lambda>_. Inr ())"

fun sanitize_chars :: "bool \<Rightarrow> string list \<Rightarrow> string list \<Rightarrow> string list" where
  "sanitize_chars tag out [] = out"
| "sanitize_chars tag out (c # cs) =
     (if is_control c \<or> tag \<and> c = '','' then sanitize_chars tag out cs
      else if length (concat out) + length c > MAX_OUTPUT_BYTES then out
      else sanitize_chars tag (out @ [c]) cs)"

definition sanitize :: "string \<Rightarrow> bool \<Rightarrow> (template_error, string) result" where
  "sanitize value tag =
     (let out = trim (concat (sanitize_chars tag [] (chars (trim value))))
      in if length out > MAX_OUTPUT_BYTES then Inl OutputLimit else Inr out)"

definition render_category :: "template_context \<Rightarrow> string \<Rightarrow> (template_error, string) result" where
  "render_category values template = and_then (render template values) (\<lambda>value. sanitize value False)"

fun collect_tags :: "(template_error, string) result list \<Rightarrow> string list \<Rightarrow> (template_error, string list) result" where
  "collect_tags [] tags = Inr tags"
| "collect_tags (value # values) tags =
     and_then value (\<lambda>v. and_then (sanitize v True) (\<lambda>tag.
       collect_tags values (if tag \<noteq> [] \<and> tag \<notin> set tags then tags @ [tag] else tags)))"

definition render_tags :: "template_context \<Rightarrow> string list \<Rightarrow> string list \<Rightarrow> (template_error, string list) result" where
  "render_tags values templates inherited =
     collect_tags (map (\<lambda>template. render template values) templates @ map Inr inherited) []"

definition is_slug_char :: "string \<Rightarrow> bool" where
  "is_slug_char c \<longleftrightarrow> (case c of [b] \<Rightarrow> is_ascii_alphanumeric b | _ \<Rightarrow> False)"

definition slug_step :: "string \<times> bool \<Rightarrow> string \<Rightarrow> string \<times> bool" where
  "slug_step = (\<lambda>(out, separator) c.
     if is_slug_char c
     then ((if separator \<and> out \<noteq> [] then out @ ''-'' else out) @ c, False)
     else (out, True))"

definition slug :: "unicode \<Rightarrow> string \<Rightarrow> string" where
  "slug u value = fst (foldl slug_step ([], False) (concat (map (to_lowercase u) (chars value))))"

section \<open>Rendering\<close>

definition same_shape :: "(template_error, string) result \<Rightarrow> (template_error, string) result \<Rightarrow> bool" where
  "same_shape a b \<longleftrightarrow> (\<exists>e. a = Inl e \<and> b = Inl e) \<or> (\<exists>x y. a = Inr x \<and> b = Inr y)"

lemma same_shape_simps [simp]: "same_shape (Inl e) (Inl e)" "same_shape (Inr x) (Inr y)"
  by (simp_all add: same_shape_def)

lemma render_loop_shape:
  assumes "\<And>name. name \<in> set VARIABLES \<Longrightarrow> \<exists>v. values name = Some v"
    and "\<And>name. name \<in> set VARIABLES \<Longrightarrow> \<exists>v. values' name = Some v"
  shows "same_shape (render_loop values out rest) (render_loop values' out' rest)"
proof (induction rest arbitrary: out out' rule: measure_induct_rule [where f = length])
  case (less rest)
  show ?case
  proof (cases "find_str ''{{'' rest")
    case None
    then show ?thesis by (simp add: render_loop.simps [of _ _ rest])
  next
    case (Some start)
    define after where "after = drop (start + 2) rest"
    have len: "length after < length rest" using find_str_bound [OF Some] by (simp add: after_def)
    show ?thesis
    proof (cases "find_str ''}}'' after")
      case None
      then show ?thesis using Some by (simp add: render_loop.simps [of _ _ rest] after_def)
    next
      case (Some stop)
      define name where "name = trim (take stop after)"
      note eqs = \<open>find_str ''{{'' rest = Some start\<close> Some
      have short: "length (drop (stop + 2) after) < length rest" using len by simp
      show ?thesis
      proof (cases "name \<in> set VARIABLES \<and> name \<noteq> [] \<and> \<not> str_contains (take start rest) ''}}''")
        case True
        then obtain v v' where "values name = Some v" "values' name = Some v'" using assms by blast
        then show ?thesis using True eqs less.IH [OF short]
          by (simp add: render_loop.simps [of _ _ rest] after_def name_def)
      next
        case False
        then show ?thesis using eqs by (auto simp: render_loop.simps [of _ _ rest] after_def name_def)
      qed
    qed
  qed
qed

section \<open>Sanitising\<close>

text \<open>A list of the characters of a string: only the last one can be cut short.\<close>

fun chunked :: "string list \<Rightarrow> bool" where
  "chunked [] = True"
| "chunked [c] = (c \<noteq> [] \<and> length c \<le> utf8_len (hd c))"
| "chunked (c # cs) = (c \<noteq> [] \<and> length c = utf8_len (hd c) \<and> chunked cs)"

lemma chunked_Cons: "chunked (c # cs) \<longleftrightarrow> c \<noteq> [] \<and> length c \<le> utf8_len (hd c) \<and>
    (cs \<noteq> [] \<longrightarrow> length c = utf8_len (hd c)) \<and> chunked cs"
  by (cases cs) auto

lemma chars_concat: "chunked cs \<Longrightarrow> chars (concat cs) = cs"
proof (induction cs)
  case (Cons c cs)
  then obtain b bs where c: "c = b # bs" by (cases c) (auto simp: chunked_Cons)
  show ?case
  proof (cases "cs = []")
    case True
    have "length c \<le> utf8_len b" using Cons.prems c by (simp add: chunked_Cons)
    then show ?thesis using True c by simp
  next
    case False
    then have l: "utf8_len b = length c" using Cons.prems c by (simp add: chunked_Cons)
    have "take (utf8_len b) (c @ concat cs) = c" "drop (utf8_len b) (c @ concat cs) = concat cs" by (simp_all add: l)
    then have "chars (concat (c # cs)) = c # chars (concat cs)" by (simp add: c)
    then show ?thesis using Cons by (simp add: chunked_Cons)
  qed
qed simp

lemma chunked_chars: "chunked (chars s)"
proof (induction s rule: chars.induct)
  case (2 b bs)
  let ?c = "take (utf8_len b) (b # bs)" and ?rest = "drop (utf8_len b) (b # bs)"
  have h: "hd ?c = b" "?c \<noteq> []" using utf8_len_pos [of b] by (cases "utf8_len b"; simp)+
  have full: "length ?c = utf8_len b" if "chars ?rest \<noteq> []"
  proof -
    have "?rest \<noteq> []" using that by (cases ?rest) auto
    then show ?thesis by (simp add: min_def split: if_splits)
  qed
  show ?case unfolding chars.simps(2) chunked_Cons using h full "2.IH" by simp
qed simp

lemma chunked_subseq: "subseq ds cs \<Longrightarrow> chunked cs \<Longrightarrow> chunked ds"
proof (induction rule: list_emb.induct)
  case (list_emb_Cons2 x y xs ys)
  then show ?case by (auto simp: chunked_Cons)
qed (auto simp: chunked_Cons)

lemma trim_chars_subseq: "subseq (trim_chars cs) cs"
proof -
  have d: "subseq (dropWhile p xs) xs" for p and xs :: "string list"
    using suffix_dropWhile suffix_imp_subseq by blast
  have "prefix (rev (dropWhile is_whitespace (rev (dropWhile is_whitespace cs)))) (dropWhile is_whitespace cs)"
    using suffix_dropWhile [of is_whitespace "rev (dropWhile is_whitespace cs)"] by (simp add: suffix_to_prefix)
  then show ?thesis unfolding trim_chars_def
    using d [of is_whitespace cs] prefix_imp_subseq subseq_order.trans by blast
qed

lemma sanitize_chars_short:
  "length (concat out) \<le> MAX_OUTPUT_BYTES \<Longrightarrow> length (concat (sanitize_chars tag out cs)) \<le> MAX_OUTPUT_BYTES"
  by (induction cs arbitrary: out) simp_all

lemma sanitize_chars_subseq: "\<exists>ds. sanitize_chars tag out cs = out @ ds \<and> subseq ds cs \<and>
    (\<forall>c \<in> set ds. \<not> is_control c \<and> \<not> (tag \<and> c = '',''))"
proof (induction cs arbitrary: out)
  case (Cons c cs)
  show ?case
  proof (cases "is_control c \<or> tag \<and> c = '',''")
    case True
    then show ?thesis using Cons.IH [of out] by (auto intro: list_emb_Cons)
  next
    case False
    obtain ds where ds: "sanitize_chars tag (out @ [c]) cs = (out @ [c]) @ ds" "subseq ds cs"
      "\<forall>c \<in> set ds. \<not> is_control c \<and> \<not> (tag \<and> c = '','')" using Cons.IH [of "out @ [c]"] by blast
    show ?thesis
    proof (cases "length (concat out) + length c > MAX_OUTPUT_BYTES")
      case True
      then show ?thesis using False by auto
    next
      case fits: False
      have "sanitize_chars tag out (c # cs) = out @ (c # ds)" using False fits ds(1) by auto
      moreover have "subseq (c # ds) (c # cs)" using ds(2) by simp
      ultimately show ?thesis using ds(3) False by (metis set_ConsD)
    qed
  qed
qed simp

lemma trim_length: "length (trim s) \<le> length s"
proof -
  have "length (concat ds) \<le> length (concat cs)" if "subseq ds cs" for ds cs :: "string list"
    using that by (induction rule: list_emb.induct) simp_all
  from this [OF trim_chars_subseq [of "chars s"]] show ?thesis by (simp add: trim_def)
qed

lemma chars_trim: "chars (trim s) = trim_chars (chars s)"
  unfolding trim_def by (rule chars_concat [OF chunked_subseq [OF trim_chars_subseq chunked_chars]])

lemma subseq_set: "subseq ds cs \<Longrightarrow> set ds \<subseteq> set cs"
  by (induction rule: list_emb.induct) auto

lemma trim_idem: "trim (trim s) = trim s"
proof -
  have d: "dropWhile p (rev (dropWhile p (rev (dropWhile p xs)))) = rev (dropWhile p (rev (dropWhile p xs)))"
    for p and xs :: "string list"
  proof (cases "dropWhile p xs")
    case (Cons y ys)
    then have ny: "\<not> p y" by (metis dropWhile_eq_Cons_conv)
    have "rev (dropWhile p (rev ys @ [y])) = y # rev (dropWhile p (rev ys))"
      using ny by (simp add: dropWhile_append)
    then show ?thesis using Cons ny by simp
  next
    case Nil
    then show ?thesis unfolding Nil by simp
  qed
  have "dropWhile p (dropWhile p xs) = dropWhile p xs" for p and xs :: "string list" by (induction xs) auto
  then have "trim_chars (trim_chars cs) = trim_chars cs" for cs
    unfolding trim_chars_def d by simp
  then show ?thesis by (simp add: trim_def [of "trim s"] chars_trim) (simp add: trim_def)
qed

lemma sanitize_spec:
  "\<exists>result. sanitize value tag = Inr result \<and> length result \<le> MAX_OUTPUT_BYTES \<and> trim result = result \<and>
     (\<forall>c \<in> set (chars result). \<not> is_control c \<and> \<not> (tag \<and> c = '',''))"
proof -
  define kept where "kept = sanitize_chars tag [] (chars (trim value))"
  have short: "length (concat kept) \<le> MAX_OUTPUT_BYTES" unfolding kept_def by (rule sanitize_chars_short) simp
  obtain ds where ds: "kept = ds" "subseq ds (chars (trim value))" "\<forall>c \<in> set ds. \<not> is_control c \<and> \<not> (tag \<and> c = '','')"
    using sanitize_chars_subseq [of tag "[]" "chars (trim value)"] unfolding kept_def by auto
  have "chars (concat kept) = kept" using ds(1,2) chunked_subseq [OF _ chunked_chars] chars_concat by blast
  then have "chars (trim (concat kept)) = trim_chars kept" by (simp add: chars_trim)
  then have "\<forall>c \<in> set (chars (trim (concat kept))). \<not> is_control c \<and> \<not> (tag \<and> c = '','')"
    using ds(1,3) subseq_set [OF trim_chars_subseq] by auto
  moreover have "length (trim (concat kept)) \<le> MAX_OUTPUT_BYTES" using short trim_length le_trans by blast
  ultimately show ?thesis by (simp add: sanitize_def kept_def [symmetric] trim_idem)
qed


lemma collect_tags_spec:
  assumes "collect_tags values tags = Inr result" and "distinct tags"
    and "\<forall>tag \<in> set tags. tag \<noteq> [] \<and> length tag \<le> MAX_OUTPUT_BYTES \<and> trim tag = tag \<and>
      (\<forall>c \<in> set (chars tag). \<not> is_control c \<and> c \<noteq> '','')"
  shows "distinct result \<and> (\<forall>tag \<in> set result. tag \<noteq> [] \<and> length tag \<le> MAX_OUTPUT_BYTES \<and> trim tag = tag \<and>
      (\<forall>c \<in> set (chars tag). \<not> is_control c \<and> c \<noteq> '',''))"
  using assms
proof (induction "values" arbitrary: tags)
  case (Cons item vs)
  from Cons.prems(1) obtain v tag where v: "item = Inr v" "sanitize v True = Inr tag"
    "collect_tags vs (if tag \<noteq> [] \<and> tag \<notin> set tags then tags @ [tag] else tags) = Inr result" by auto
  have "length tag \<le> MAX_OUTPUT_BYTES \<and> trim tag = tag \<and> (\<forall>c \<in> set (chars tag). \<not> is_control c \<and> c \<noteq> '','')"
    using sanitize_spec [of v True] v(2) by auto
  then show ?case using Cons.prems(2,3) by (intro Cons.IH [OF v(3)]) auto
qed auto

section \<open>Slugs\<close>

text \<open>A slug: runs of letters and digits that are separated by single dashes.\<close>

fun slug_runs :: "string \<Rightarrow> bool" where
  "slug_runs [] = True"
| "slug_runs [c] = is_ascii_alphanumeric c"
| "slug_runs (c # d # s) = (is_ascii_alphanumeric c \<and>
     (if d = CHR ''-'' then s \<noteq> [] \<and> slug_runs s else slug_runs (d # s)))"

lemma dash_not_alphanumeric [simp]: "\<not> is_ascii_alphanumeric CHR ''-''"
  by code_simp

lemma slug_runs_snoc:
  "slug_runs s \<Longrightarrow> is_ascii_alphanumeric c \<Longrightarrow> slug_runs (s @ [c])"
  "slug_runs s \<Longrightarrow> s \<noteq> [] \<Longrightarrow> is_ascii_alphanumeric c \<Longrightarrow> slug_runs (s @ [CHR ''-'', c])"
  by (induction s rule: slug_runs.induct) (auto split: if_splits)

lemma slug_step_runs: "slug_runs (fst state) \<Longrightarrow> slug_runs (fst (slug_step state c))"
proof (cases "is_slug_char c")
  case True
  then obtain b where b: "c = [b]" "is_ascii_alphanumeric b" by (auto simp: is_slug_char_def split: list.splits)
  assume "slug_runs (fst state)"
  then show ?thesis using True b slug_runs_snoc by (cases state) (auto simp: slug_step_def)
next
  case False
  assume "slug_runs (fst state)"
  then show ?thesis using False by (cases state) (simp add: slug_step_def)
qed

lemma slug_fold_runs: "slug_runs (fst state) \<Longrightarrow> slug_runs (fst (foldl slug_step state cs))"
  by (induction cs arbitrary: state) (simp_all add: slug_step_runs)

section \<open>Properties\<close>

text \<open>
  Validating a template is exact: when a context defines every variable,
  rendering a template succeeds if and only if the template validates, and a
  template that does not validate fails with the same error whatever the values.
\<close>

lemma validated_templates_render:
  assumes "\<forall>name \<in> set VARIABLES. values name \<noteq> None"
  shows "(validate_template template = Inr () \<longleftrightarrow> (\<exists>text. render template values = Inr text)) \<and>
    (validate_template template = Inl e \<longleftrightarrow> render template values = Inl e)"
proof -
  have "same_shape (render_loop values [] template)
      (render_loop (\<lambda>name. if name \<in> set VARIABLES then Some [] else None) [] template)"
    by (rule render_loop_shape) (use assms in auto)
  then show ?thesis by (auto simp: validate_template_def render_def same_shape_def and_then_Inl_iff)
qed

text \<open>
  The tags of a torrent are well formed: rendering never exceeds the output
  limit, and the tags it returns are distinct, not empty, without surrounding white
  space, at most 128 bytes long and without commas and control characters, also
  those that are inherited from the source torrent.
\<close>

lemma rendered_tags_well_formed:
  "render_tags values templates inherited \<noteq> Inl OutputLimit \<and>
   (case render_tags values templates inherited of
      Inl _ \<Rightarrow> True
    | Inr tags \<Rightarrow> distinct tags \<and> list_all (\<lambda>tag. tag \<noteq> [] \<and> length tag \<le> 128 \<and> trim tag = tag \<and>
        list_all (\<lambda>c. \<not> is_control c \<and> c \<noteq> '','') (chars tag)) tags)"
proof -
  have s: "sanitize v tag \<noteq> Inl OutputLimit" for v tag using sanitize_spec [of v tag] by auto
  have r: "render_loop values out rest \<noteq> Inl OutputLimit" for out rest
    by (induction "values" out rest rule: render_loop.induct)
      (simp add: render_loop.simps Let_def split: option.split)
  then have rendered: "render template values \<noteq> Inl OutputLimit" for template by (simp add: render_def)
  have collected: "collect_tags vs tags \<noteq> Inl OutputLimit" if "Inl OutputLimit \<notin> set vs" for vs tags
    using that s by (induction vs arbitrary: tags) (auto simp: and_then_Inl_iff)
  have "render_tags values templates inherited \<noteq> Inl OutputLimit"
    unfolding render_tags_def by (rule collected) (use rendered in \<open>auto dest!: sym [of "Inl OutputLimit"]\<close>)
  moreover have "distinct tags \<and> list_all (\<lambda>tag. tag \<noteq> [] \<and> length tag \<le> 128 \<and> trim tag = tag \<and>
        list_all (\<lambda>c. \<not> is_control c \<and> c \<noteq> '','') (chars tag)) tags"
    if "render_tags values templates inherited = Inr tags" for tags
    using collect_tags_spec [of _ "[]" tags] that by (simp add: render_tags_def list_all_iff MAX_OUTPUT_BYTES_def)
  ultimately show ?thesis by (auto split: sum.split)
qed

text \<open>
  The slug of an indexer name consists of ASCII letters and digits in runs that are
  separated by single dashes, without a dash at either end.
\<close>

lemma slug_well_formed: "slug_runs (slug u value)"
  unfolding slug_def by (rule slug_fold_runs) simp

end
