(* ===== verification/Candidate_Sources.thy ===== *)
theory Candidate_Sources
  imports Candidate Matcher Template
begin

text \<open>
  The first half of \<open>crates/sporos-service/src/candidate_workflow.rs\<close>: the tables
  that the evaluation of a candidate reads, and the selection of the plausible
  sources with the admission of their files.

  The queries of an evaluation run outside a transaction.  \<open>seen\<close> is the store that
  the queries on the sources saw and \<open>s\<close> the store when the files are read.
  \<open>serde_json\<close>, SHA-256 and the \<open>json_each\<close> of SQLite are the record
  \<open>workflow_codec\<close>; a statement that fails is a fault of the environment.
\<close>

section \<open>Errors and rows\<close>

datatype workflow_error =
    WfDatabase | WfJson | WfProjection projection_error | WfMissingCandidate | WfMissingManifest | WfMissingTask
  | WfRange string | WfStoredRange string | MatchCollision | PlanCollision | WfTemplate | WfPanic

record qbit_torrent_row =
  qt_id :: source_id
  qt_v1_hash :: "string option"
  qt_v2_hash :: "string option"
  qt_category :: string
  qt_tags_json :: string
  qt_is_complete :: bool
  qt_available :: bool
  qt_manifest_version :: int
  qt_manifest_state :: string
  qt_release_json :: "string option"

record data_source_row =
  da_id :: source_id
  da_kind :: string
  da_release_json :: "string option"
  da_available :: bool
  da_last_seen_generation :: int

record source_file_row =
  fr_id :: int
  fr_source_id :: source_id
  fr_manifest_version :: int
  fr_display_path :: string
  fr_size :: int
  fr_device :: "int option"
  fr_inode :: "int option"
  fr_available :: bool
  fr_ordinal :: int

record title_row =
  ti_source_id :: source_id
  ti_source_type :: string
  ti_normalized_title :: string

record external_id_row =
  ex_source_id :: source_id
  ex_source_type :: string
  ex_namespace :: string
  ex_value :: string

record waiting_row =
  wt_task_id :: task_id
  wt_source_id :: source_id
  wt_created_at :: int

record match_row =
  mt_candidate_id :: candidate_id
  mt_matcher_version :: string
  mt_mode :: "string option"
  mt_outcome :: string
  mt_reason_code :: string
  mt_mapped_bytes :: nat
  mt_missing_bytes :: nat
  mt_present_ratio_ppm :: nat
  mt_evidence_json :: string
  mt_decision_digest :: string

record mapping_row =
  mw_source_id :: source_id
  mw_source_file_id :: nat
  mw_candidate_path :: string
  mw_size :: nat
  mw_score :: nat

record stored_plan =
  pn_match_id :: string
  pn_candidate_id :: candidate_id
  pn_namespace_local :: string
  pn_save_path_remote :: string
  pn_category :: string
  pn_tags_json :: string
  pn_resume_policy_json :: string
  pn_digest :: string
  pn_state :: string

record workflow_store =
  ws_intake :: candidate_store
  ws_torrents :: "qbit_torrent_row list"
  ws_data :: "data_source_row list"
  ws_files :: "source_file_row list"
  ws_titles :: "title_row list"
  ws_external_ids :: "external_id_row list"
  ws_waiting :: "waiting_row list"
  ws_matches :: "string \<Rightarrow> match_row option"
  ws_mappings :: "string \<times> nat \<Rightarrow> mapping_row option"
  ws_plans :: "string \<Rightarrow> stored_plan option"

section \<open>The environment\<close>

datatype workflow_statement =
    SelectCandidate | SelectTorrents | SelectData | SelectFiles source_id | RequestManifest source_id
  | PersistWaiting | PersistTerminal | ProjectTask

record plan_material =
  pm_match_id :: string
  pm_candidate_id :: string
  pm_namespace_local :: string
  pm_save_path_remote :: string
  pm_category :: string
  pm_tags :: "string list"
  pm_resume_policy :: string
  pm_mappings :: "file_mapping list"

record workflow_codec =
  wc_codec :: codec
  wc_manifest :: "string \<Rightarrow> torrent_manifest option"
  wc_release :: "string \<Rightarrow> release_descriptor option"
  wc_policy :: "string \<Rightarrow> candidate_policy option"
  wc_tags_of :: "string \<Rightarrow> string list option"
  wc_json_each :: "string \<Rightarrow> string list"
  wc_decision :: "match_decision \<Rightarrow> string"
  wc_evidence :: "match_evidence \<Rightarrow> string"
  wc_tags :: "string list \<Rightarrow> string"
  wc_resume :: "resume_policy \<Rightarrow> string"
  wc_material :: "plan_material \<Rightarrow> string"
  wc_waiting_detail :: "nat \<Rightarrow> int \<Rightarrow> string"
  wc_terminal_detail :: "string \<Rightarrow> string option \<Rightarrow> string"

record workflow_env =
  we_fault :: "workflow_statement \<Rightarrow> bool"
  we_codec :: workflow_codec
  we_unicode :: unicode
  we_now :: int

definition query :: "workflow_env \<Rightarrow> workflow_statement \<Rightarrow> 'a \<Rightarrow> (workflow_error, 'a) result" where
  "query env statement answer = (if we_fault env statement then Inl WfDatabase else Inr answer)"

section \<open>Reading columns\<close>

definition fixed_bytes :: "nat \<Rightarrow> string \<Rightarrow> string \<Rightarrow> (workflow_error, string) result" where
  "fixed_bytes n field value = (if length value = n then Inr value else Inl (WfStoredRange field))"

definition optional_bytes :: "nat \<Rightarrow> string \<Rightarrow> string option \<Rightarrow> (workflow_error, string option) result" where
  "optional_bytes n field value =
     (case value of None \<Rightarrow> Inr None | Some v \<Rightarrow> and_then (fixed_bytes n field v) (\<lambda>b. Inr (Some b)))"

definition stored_u64 :: "string \<Rightarrow> int \<Rightarrow> (workflow_error, nat) result" where
  "stored_u64 field value = (if value < 0 then Inl (WfStoredRange field) else Inr (nat value))"

definition stored_optional_u64 :: "string \<Rightarrow> int option \<Rightarrow> (workflow_error, nat option) result" where
  "stored_optional_u64 field value =
     (case value of None \<Rightarrow> Inr None | Some v \<Rightarrow> and_then (stored_u64 field v) (\<lambda>n. Inr (Some n)))"

fun try_map :: "('a \<Rightarrow> ('e, 'b) result) \<Rightarrow> 'a list \<Rightarrow> ('e, 'b list) result" where
  "try_map f [] = Inr []"
| "try_map f (x # xs) = and_then (f x) (\<lambda>y. and_then (try_map f xs) (\<lambda>ys. Inr (y # ys)))"

section \<open>Plausible sources\<close>

definition MAX_PLAUSIBLE_SOURCES :: nat where "MAX_PLAUSIBLE_SOURCES = 64"
definition MAX_ALTERNATE_TITLES :: nat where "MAX_ALTERNATE_TITLES = 32"

definition int_text :: "int \<Rightarrow> string" where
  "int_text i = (if i < 0 then ''-'' @ decimal (nat (- i)) else decimal (nat i))"

definition reduction_titles :: "release_descriptor \<Rightarrow> string list" where
  "reduction_titles release =
     map as_str (rd_primary_title release # take MAX_ALTERNATE_TITLES (rd_alternate_titles release))"

definition reduction_external_ids :: "release_descriptor \<Rightarrow> (string \<times> string) list" where
  "reduction_external_ids release =
     (case rd_arr_identity release of
        None \<Rightarrow> []
      | Some arr \<Rightarrow>
          (''arr:'' @ (case ai_kind arr of ArrMovie \<Rightarrow> ''movie'' | ArrSeries \<Rightarrow> ''series'') @ '':'' @ ai_instance arr,
           int_text (ai_entity_id arr)) #
          List.map_filter (\<lambda>(namespace, value). map_option (Pair namespace) value)
            [(''tvdb'', map_option int_text (ai_tvdb_id arr)), (''tmdb'', map_option int_text (ai_tmdb_id arr)),
             (''imdb'', ai_imdb_id arr)])"

definition source_reduction ::
  "workflow_store \<Rightarrow> string \<Rightarrow> string list \<Rightarrow> (string \<times> string) list \<Rightarrow> source_id \<Rightarrow> bool" where
  "source_reduction s source_type titles external_ids source \<longleftrightarrow>
     list_ex (\<lambda>t. ti_source_id t = source \<and> ti_source_type t = source_type \<and> ti_normalized_title t \<in> set titles)
       (ws_titles s)
     \<or> external_ids \<noteq> [] \<and>
       list_ex (\<lambda>e. ex_source_id e = source \<and> ex_source_type e = source_type
         \<and> (ex_namespace e, ex_value e) \<in> set external_ids) (ws_external_ids s)"

text \<open>\<open>LIKE 'sporos:%'\<close> ignores the case of ASCII letters.\<close>

definition sporos_managed :: "string \<Rightarrow> bool" where
  "sporos_managed tag \<longleftrightarrow> tag = ''sporos'' \<or> prefix ''sporos:'' (to_ascii_lowercase tag)"

definition filters_admit :: "workflow_codec \<Rightarrow> source_filters \<Rightarrow> qbit_torrent_row \<Rightarrow> bool" where
  "filters_admit c filters row \<longleftrightarrow>
     (let tags = wc_json_each c (qt_tags_json row)
      in (sf_include_categories filters = [] \<or> qt_category row \<in> set (sf_include_categories filters))
       \<and> (sf_exclude_categories filters = [] \<or> qt_category row \<notin> set (sf_exclude_categories filters))
       \<and> (sf_include_tags filters = [] \<or> list_ex (\<lambda>tag. tag \<in> set (sf_include_tags filters)) tags)
       \<and> (sf_exclude_tags filters = [] \<or> \<not> list_ex (\<lambda>tag. tag \<in> set (sf_exclude_tags filters)) tags)
       \<and> (sf_exclude_sporos_managed filters \<longrightarrow> \<not> list_ex sporos_managed tags))"

record loaded_source =
  lo_complete :: bool
  lo_manifest_loaded :: bool
  lo_manifest_version :: int
  lo_file_count :: nat
  lo_manifest :: local_source_manifest

definition file_rows :: "workflow_store \<Rightarrow> source_id \<Rightarrow> int \<Rightarrow> source_file_row list" where
  "file_rows s source version =
     filter (\<lambda>f. fr_source_id f = source \<and> fr_manifest_version f = version \<and> fr_available f) (ws_files s)"

definition read_release :: "workflow_codec \<Rightarrow> string option \<Rightarrow> (workflow_error, release_descriptor) result" where
  "read_release c release_json =
     and_then (ok_or WfDatabase release_json) (\<lambda>json. ok_or WfJson (wc_release c json))"

definition torrent_source ::
  "workflow_codec \<Rightarrow> workflow_store \<Rightarrow> qbit_torrent_row \<Rightarrow> (workflow_error, loaded_source) result" where
  "torrent_source c s row =
     and_then (fixed_bytes 16 ''source ID'' (qt_id row)) (\<lambda>source.
     and_then (read_release c (qt_release_json row)) (\<lambda>release.
     and_then (optional_bytes 20 ''v1 hash'' (qt_v1_hash row)) (\<lambda>v1.
     and_then (optional_bytes 32 ''v2 hash'' (qt_v2_hash row)) (\<lambda>v2.
       Inr \<lparr> lo_complete = qt_is_complete row,
             lo_manifest_loaded = (qt_manifest_version row > 0 \<and> qt_manifest_state row = ''loaded''),
             lo_manifest_version = qt_manifest_version row,
             lo_file_count = length (file_rows s (qt_id row) (qt_manifest_version row)),
             lo_manifest = \<lparr> ls_id = source, ls_kind = QbittorrentTorrent, ls_release = release,
               ls_hashes = \<lparr>ih_v1 = v1, ih_v2 = v2\<rparr>, ls_files = [], ls_available = True \<rparr> \<rparr>))))"

definition data_source ::
  "workflow_codec \<Rightarrow> workflow_store \<Rightarrow> data_source_row \<Rightarrow> (workflow_error, loaded_source) result" where
  "data_source c s row =
     and_then (fixed_bytes 16 ''source ID'' (da_id row)) (\<lambda>source.
     and_then (read_release c (da_release_json row)) (\<lambda>release.
       Inr \<lparr> lo_complete = True, lo_manifest_loaded = True, lo_manifest_version = da_last_seen_generation row,
             lo_file_count = length (file_rows s (da_id row) (da_last_seen_generation row)),
             lo_manifest = \<lparr> ls_id = source,
               ls_kind = (if da_kind row = ''file'' then DataDirectoryFile else DataDirectoryRelease),
               ls_release = release, ls_hashes = \<lparr>ih_v1 = None, ih_v2 = None\<rparr>, ls_files = [],
               ls_available = True \<rparr> \<rparr>))"

definition torrent_rows ::
  "workflow_codec \<Rightarrow> workflow_store \<Rightarrow> release_descriptor \<Rightarrow> source_filters \<Rightarrow> qbit_torrent_row list" where
  "torrent_rows c s release filters =
     take MAX_PLAUSIBLE_SOURCES (sort_key (\<lambda>row. (\<not> qt_is_complete row, qt_id row))
       (filter (\<lambda>row. qt_available row
           \<and> source_reduction s ''qbittorrent'' (reduction_titles release) (reduction_external_ids release) (qt_id row)
           \<and> filters_admit c filters row) (ws_torrents s)))"

definition data_rows :: "workflow_store \<Rightarrow> release_descriptor \<Rightarrow> nat \<Rightarrow> data_source_row list" where
  "data_rows s release remaining =
     take remaining (sort_key da_id
       (filter (\<lambda>row. da_available row
           \<and> source_reduction s ''data'' (reduction_titles release) (reduction_external_ids release) (da_id row))
         (ws_data s)))"

section \<open>Admitting the files\<close>

definition same_identity :: "torrent_manifest \<Rightarrow> local_source_manifest \<Rightarrow> bool" where
  "same_identity candidate source \<longleftrightarrow>
     (ih_v1 (tm_hashes candidate) \<noteq> None \<and> ih_v1 (tm_hashes candidate) = ih_v1 (ls_hashes source))
     \<or> (ih_v2 (tm_hashes candidate) \<noteq> None \<and> ih_v2 (tm_hashes candidate) = ih_v2 (ls_hashes source))"

definition needs_files :: "torrent_manifest \<Rightarrow> loaded_source \<Rightarrow> bool" where
  "needs_files candidate source \<longleftrightarrow>
     lo_complete source \<and> lo_manifest_loaded source \<and> \<not> same_identity candidate (lo_manifest source)"

fun admit_files :: "torrent_manifest \<Rightarrow> matching_policy \<Rightarrow> nat \<Rightarrow> loaded_source list \<Rightarrow> nat \<Rightarrow> bool" where
  "admit_files candidate policy file_count [] admitted \<longleftrightarrow> True"
| "admit_files candidate policy file_count (source # sources) admitted \<longleftrightarrow>
     (if \<not> needs_files candidate source then admit_files candidate policy file_count sources admitted
      else if lo_file_count source > mp_max_assignment_files policy - file_count then False
      else case checked_add u64_max admitted (lo_file_count source) of
             None \<Rightarrow> False
           | Some admitted_files \<Rightarrow>
               if admitted_files > mp_max_assignment_files policy then False
               else admit_files candidate policy file_count sources admitted_files)"

definition read_file :: "source_file_row \<Rightarrow> (workflow_error, local_source_file) result" where
  "read_file row =
     and_then (stored_u64 ''source file ID'' (fr_id row)) (\<lambda>file.
     and_then (stored_u64 ''source file size'' (fr_size row)) (\<lambda>size.
     and_then (stored_optional_u64 ''source device'' (fr_device row)) (\<lambda>device.
     and_then (stored_optional_u64 ''source inode'' (fr_inode row)) (\<lambda>inode.
       Inr \<lparr> lf_id = file, lf_path = fr_display_path row, lf_size = size, lf_device_id = device,
             lf_inode = inode \<rparr>))))"

definition source_files ::
  "workflow_env \<Rightarrow> source_id \<Rightarrow> int \<Rightarrow> nat \<Rightarrow> workflow_store \<Rightarrow>
   (workflow_error, local_source_file list option) result" where
  "source_files env source version limit s =
     and_then (query env (SelectFiles source)
         (take (min i64_max (saturating_add u64_max limit 1)) (sort_key fr_ordinal (file_rows s source version)))) (\<lambda>rows.
       if length rows > limit then Inr None
       else and_then (try_map read_file rows) (\<lambda>files. Inr (Some files)))"

fun load_files ::
  "workflow_env \<Rightarrow> torrent_manifest \<Rightarrow> workflow_store \<Rightarrow> loaded_source list \<Rightarrow>
   (workflow_error, loaded_source list option) result" where
  "load_files env candidate s [] = Inr (Some [])"
| "load_files env candidate s (source # sources) =
     (if needs_files candidate source
      then and_then (source_files env (ls_id (lo_manifest source)) (lo_manifest_version source) (lo_file_count source) s)
        (\<lambda>found. case found of
           None \<Rightarrow> Inr None
         | Some files \<Rightarrow> and_then (load_files env candidate s sources) (\<lambda>rest.
             Inr (map_option (\<lambda>xs. source\<lparr>lo_manifest := (lo_manifest source)\<lparr>ls_files := files\<rparr>\<rparr> # xs) rest)))
      else and_then (load_files env candidate s sources) (\<lambda>rest. Inr (map_option (\<lambda>xs. source # xs) rest)))"

datatype candidate_sources_result = SourcesLoaded "loaded_source list" | SourcesBudgetExceeded

definition candidate_sources ::
  "workflow_env \<Rightarrow> torrent_manifest \<Rightarrow> release_descriptor \<Rightarrow> candidate_policy \<Rightarrow> workflow_store \<Rightarrow> workflow_store \<Rightarrow>
   (workflow_error, candidate_sources_result) result" where
  "candidate_sources env candidate release policy seen s =
     and_then (query env SelectTorrents (torrent_rows (we_codec env) seen release (cp_source_filters policy))) (\<lambda>rows.
     and_then (try_map (torrent_source (we_codec env) seen) rows) (\<lambda>torrents.
     let remaining = MAX_PLAUSIBLE_SOURCES - length torrents
     in and_then (if remaining > 0 then query env SelectData (data_rows seen release remaining) else Inr []) (\<lambda>rows.
     and_then (try_map (data_source (we_codec env) seen) rows) (\<lambda>directories.
     let sources = torrents @ directories;
         file_count = length (filter (\<lambda>f. \<not> tf_padding f) (tm_files candidate))
     in if \<not> admit_files candidate (cp_matching policy) file_count sources file_count then Inr SourcesBudgetExceeded
        else and_then (load_files env candidate s sources) (\<lambda>loaded.
          Inr (case loaded of None \<Rightarrow> SourcesBudgetExceeded | Some xs \<Rightarrow> SourcesLoaded xs))))))"


section \<open>What is loaded\<close>

lemma try_map_Inr: "try_map f xs = Inr ys \<longleftrightarrow> list_all2 (\<lambda>x y. f x = Inr y) xs ys"
  by (induction xs arbitrary: ys) (auto simp: list_all2_Cons1)

lemma list_all2_in_set2: "list_all2 P xs ys \<Longrightarrow> y \<in> set ys \<Longrightarrow> \<exists>x \<in> set xs. P x y"
  by (metis in_set_conv_nth list_all2_conv_all_nth)

lemma query_Inr [simp]: "query env statement answer = Inr x \<longleftrightarrow> \<not> we_fault env statement \<and> x = answer"
  by (auto simp: query_def)

lemma read_file_Inr:
  "read_file row = Inr f \<Longrightarrow> lf_id f = nat (fr_id row) \<and> 0 \<le> fr_id row \<and> lf_path f = fr_display_path row \<and>
     lf_size f = nat (fr_size row) \<and> 0 \<le> fr_size row"
  by (auto simp: read_file_def stored_u64_def split: if_splits)

lemma source_files_Some:
  assumes "source_files env source version limit s = Inr (Some files)"
  shows "length files \<le> limit" "\<And>f. f \<in> set files \<Longrightarrow> \<exists>row \<in> set (file_rows s source version). read_file row = Inr f"
proof -
  define rows where "rows = take (min i64_max (saturating_add u64_max limit 1)) (sort_key fr_ordinal (file_rows s source version))"
  have all: "list_all2 (\<lambda>row f. read_file row = Inr f) rows files" and len: "length rows \<le> limit"
    using assms unfolding source_files_def rows_def [symmetric] by (auto simp: try_map_Inr split: if_splits)
  show "length files \<le> limit" using all len by (simp add: list_all2_lengthD)
  have "set rows \<subseteq> set (sort_key fr_ordinal (file_rows s source version))" unfolding rows_def by (rule set_take_subset)
  then have sub: "set rows \<subseteq> set (file_rows s source version)" by simp
  fix f assume "f \<in> set files"
  then obtain row where "row \<in> set rows" "read_file row = Inr f" using list_all2_in_set2 [OF all] by blast
  then show "\<exists>row \<in> set (file_rows s source version). read_file row = Inr f" using sub by blast
qed

definition loads :: "workflow_env \<Rightarrow> torrent_manifest \<Rightarrow> workflow_store \<Rightarrow> loaded_source \<Rightarrow> loaded_source \<Rightarrow> bool" where
  "loads env candidate s source loaded \<longleftrightarrow>
     (if needs_files candidate source
      then \<exists>files. loaded = source\<lparr>lo_manifest := (lo_manifest source)\<lparr>ls_files := files\<rparr>\<rparr> \<and>
        source_files env (ls_id (lo_manifest source)) (lo_manifest_version source) (lo_file_count source) s = Inr (Some files)
      else loaded = source)"

lemma load_files_Inr:
  "load_files env candidate s sources = Inr (Some loaded) \<Longrightarrow> list_all2 (loads env candidate s) sources loaded"
  by (induction sources arbitrary: loaded) (auto simp: loads_def split: if_splits option.splits)

definition usable :: "torrent_manifest \<Rightarrow> loaded_source \<Rightarrow> bool" where
  "usable candidate source \<longleftrightarrow>
     lo_complete source \<and> (lo_manifest_loaded source \<or> same_identity candidate (lo_manifest source))"

lemma loads_frame:
  assumes "loads env candidate s source loaded"
  shows "usable candidate loaded = usable candidate source" "ls_id (lo_manifest loaded) = ls_id (lo_manifest source)"
    "ls_available (lo_manifest loaded) = ls_available (lo_manifest source)"
    "lo_complete loaded = lo_complete source" "lo_manifest_loaded loaded = lo_manifest_loaded source"
    "same_identity candidate (lo_manifest loaded) = same_identity candidate (lo_manifest source)"
  using assms by (auto simp: loads_def usable_def same_identity_def split: if_splits)

definition fresh_source :: "loaded_source \<Rightarrow> bool" where
  "fresh_source source \<longleftrightarrow> ls_files (lo_manifest source) = [] \<and> ls_available (lo_manifest source)"

lemma fresh_sources:
  "torrent_source c s row = Inr source \<Longrightarrow> fresh_source source"
  "data_source c s row' = Inr source \<Longrightarrow> fresh_source source"
  by (auto simp: torrent_source_def data_source_def fresh_source_def)

lemma loaded_step:
  "(if \<not> admitted then Inr SourcesBudgetExceeded
    else and_then r (\<lambda>loaded. Inr (case loaded of None \<Rightarrow> SourcesBudgetExceeded | Some xs \<Rightarrow> SourcesLoaded xs)))
     = Inr (SourcesLoaded loaded) \<longleftrightarrow> admitted \<and> r = Inr (Some loaded)"
  by (auto split: option.splits)

lemma candidate_sources_loaded:
  assumes "candidate_sources env candidate release policy seen s = Inr (SourcesLoaded loaded)"
  obtains sources where "list_all2 (loads env candidate s) sources loaded" "length sources \<le> MAX_PLAUSIBLE_SOURCES"
    "\<forall>source \<in> set sources. fresh_source source"
    "let n = length (filter (\<lambda>f. \<not> tf_padding f) (tm_files candidate))
     in admit_files candidate (cp_matching policy) n sources n"
proof -
  define rows where "rows = torrent_rows (we_codec env) seen release (cp_source_filters policy)"
  define n where "n = length (filter (\<lambda>f. \<not> tf_padding f) (tm_files candidate))"
  from assms obtain torrents rows' directories where p: "list_all2 (\<lambda>row x. torrent_source (we_codec env) seen row = Inr x) rows torrents"
    "(if 0 < MAX_PLAUSIBLE_SOURCES - length torrents
      then query env SelectData (data_rows seen release (MAX_PLAUSIBLE_SOURCES - length torrents)) else Inr []) = Inr rows'"
    "list_all2 (\<lambda>row x. data_source (we_codec env) seen row = Inr x) rows' directories"
    "admit_files candidate (cp_matching policy) n (torrents @ directories) n"
    "load_files env candidate s (torrents @ directories) = Inr (Some loaded)"
    unfolding candidate_sources_def Let_def rows_def [symmetric] n_def [symmetric] and_then_Inr_iff query_Inr loaded_step
      try_map_Inr by blast
  have "length torrents = length rows" "length directories = length rows'"
    using p(1,3) by (simp_all add: list_all2_lengthD)
  moreover have "length rows \<le> MAX_PLAUSIBLE_SOURCES" by (simp add: rows_def torrent_rows_def)
  moreover have "length rows' \<le> MAX_PLAUSIBLE_SOURCES - length torrents" using p(2) by (auto simp: data_rows_def split: if_splits)
  ultimately have len: "length (torrents @ directories) \<le> MAX_PLAUSIBLE_SOURCES" by simp
  have "\<forall>source \<in> set (torrents @ directories). fresh_source source"
    unfolding set_append using list_all2_in_set2 [OF p(1)] list_all2_in_set2 [OF p(3)] fresh_sources by blast
  then show thesis using that load_files_Inr [OF p(5)] len p(4) by (simp add: n_def Let_def)
qed

lemma admitted_within_budget:
  assumes "list_all2 (loads env candidate s) sources loaded" "admit_files candidate policy n sources a"
    and "\<forall>source \<in> set sources. fresh_source source" "acc \<le> a" "a \<le> mp_max_assignment_files policy"
    and "mp_max_assignment_files policy \<le> u64_max"
  shows "budget_fold policy n (map lo_manifest (filter (usable candidate) loaded)) acc \<noteq> None"
  using assms(1-5)
proof (induction arbitrary: a acc rule: list_all2_induct)
  case (Cons x xs y ys)
  show ?case
  proof (cases "needs_files candidate x")
    case True
    then obtain files where y: "y = x\<lparr>lo_manifest := (lo_manifest x)\<lparr>ls_files := files\<rparr>\<rparr>"
      and f: "source_files env (ls_id (lo_manifest x)) (lo_manifest_version x) (lo_file_count x) s = Inr (Some files)"
      using Cons.hyps(1) by (auto simp: loads_def)
    have u: "usable candidate y" using True loads_frame(1) [OF Cons.hyps(1)] by (simp add: usable_def needs_files_def)
    have a: "lo_file_count x \<le> mp_max_assignment_files policy - n" "a + lo_file_count x \<le> mp_max_assignment_files policy"
      "admit_files candidate policy n xs (a + lo_file_count x)"
      using Cons.prems(1) True by (auto split: if_splits option.splits)
    have len: "length files \<le> lo_file_count x" by (rule source_files_Some(1) [OF f])
    have fresh: "\<forall>source \<in> set xs. fresh_source source" using Cons.prems(2) by simp
    have acc: "acc + length files \<le> a + lo_file_count x" using len Cons.prems(3) by simp
    have ok: "checked_add u64_max acc (length files) = Some (acc + length files)"
      using acc a(2) assms(6) by (simp add: checked_add_def)
    have lf: "ls_files (lo_manifest y) = files" by (simp add: y)
    have small: "length files \<le> mp_max_assignment_files policy - n" "acc + length files \<le> mp_max_assignment_files policy"
      using len a(1,2) acc by linarith+
    have "budget_fold policy n (lo_manifest y # ms) acc = budget_fold policy n ms (acc + length files)" for ms
      unfolding budget_fold.simps lf ok option.case using small by simp
    then show ?thesis using Cons.IH [OF a(3) fresh acc a(2)] u by simp
  next
    case False
    then have y: "y = x" using Cons.hyps(1) by (simp add: loads_def)
    have rest: "budget_fold policy n (map lo_manifest (filter (usable candidate) ys)) acc \<noteq> None"
      using Cons.IH [of a acc] Cons.prems False by simp
    have files: "ls_files (lo_manifest x) = []" using Cons.prems(2) by (simp add: fresh_source_def)
    have ok: "checked_add u64_max acc (length []) = Some acc" using Cons.prems(3,4) assms(6) by (simp add: checked_add_def)
    have "budget_fold policy n (lo_manifest x # ms) acc = budget_fold policy n ms acc" for ms
      unfolding budget_fold.simps files ok option.case using Cons.prems(3,4) by simp
    then show ?thesis using rest by (simp add: y)
  qed
qed simp

section \<open>What is refused\<close>

text \<open>The sources that the two queries find, before any file is read.\<close>

definition found_sources ::
  "workflow_env \<Rightarrow> release_descriptor \<Rightarrow> candidate_policy \<Rightarrow> workflow_store \<Rightarrow> loaded_source list \<Rightarrow> bool" where
  "found_sources env release policy seen sources \<longleftrightarrow> (\<exists>torrents directories. sources = torrents @ directories \<and>
     list_all2 (\<lambda>row x. torrent_source (we_codec env) seen row = Inr x)
       (torrent_rows (we_codec env) seen release (cp_source_filters policy)) torrents \<and>
     list_all2 (\<lambda>row x. data_source (we_codec env) seen row = Inr x)
       (data_rows seen release (MAX_PLAUSIBLE_SOURCES - length torrents)) directories)"

definition stored_files :: "workflow_store \<Rightarrow> loaded_source \<Rightarrow> nat" where
  "stored_files s source = length (file_rows s (ls_id (lo_manifest source)) (lo_manifest_version source))"

lemma found_source:
  assumes "found_sources env release policy seen sources" and "source \<in> set sources"
  shows "fresh_source source" "lo_file_count source = stored_files seen source"
proof -
  have "(\<exists>row. torrent_source (we_codec env) seen row = Inr source) \<or> (\<exists>row. data_source (we_codec env) seen row = Inr source)"
    using assms unfolding found_sources_def by (auto dest!: list_all2_in_set2)
  then show "fresh_source source" "lo_file_count source = stored_files seen source"
    by (auto simp: torrent_source_def data_source_def fixed_bytes_def stored_files_def fresh_source_def split: if_splits)
qed

lemma candidate_sources_refused:
  assumes "candidate_sources env candidate release policy seen s = Inr SourcesBudgetExceeded"
  obtains sources where "found_sources env release policy seen sources"
    "let n = length (filter (\<lambda>f. \<not> tf_padding f) (tm_files candidate))
     in \<not> admit_files candidate (cp_matching policy) n sources n \<or> load_files env candidate s sources = Inr None"
proof -
  define n where "n = length (filter (\<lambda>f. \<not> tf_padding f) (tm_files candidate))"
  have refused: "(if \<not> admitted then Inr SourcesBudgetExceeded
      else and_then r (\<lambda>loaded. Inr (case loaded of None \<Rightarrow> SourcesBudgetExceeded | Some xs \<Rightarrow> SourcesLoaded xs)))
       = Inr SourcesBudgetExceeded \<longleftrightarrow> \<not> admitted \<or> r = Inr None" for admitted r
    by (auto split: option.splits)
  from assms obtain torrents rows' directories where p:
    "list_all2 (\<lambda>row x. torrent_source (we_codec env) seen row = Inr x)
       (torrent_rows (we_codec env) seen release (cp_source_filters policy)) torrents"
    "(if 0 < MAX_PLAUSIBLE_SOURCES - length torrents
      then query env SelectData (data_rows seen release (MAX_PLAUSIBLE_SOURCES - length torrents)) else Inr []) = Inr rows'"
    "list_all2 (\<lambda>row x. data_source (we_codec env) seen row = Inr x) rows' directories"
    "\<not> admit_files candidate (cp_matching policy) n (torrents @ directories) n \<or>
     load_files env candidate s (torrents @ directories) = Inr None"
    unfolding candidate_sources_def Let_def n_def [symmetric] and_then_Inr_iff query_Inr refused try_map_Inr by blast
  have "rows' = data_rows seen release (MAX_PLAUSIBLE_SOURCES - length torrents)"
    using p(2) by (auto simp: data_rows_def split: if_splits)
  then have "found_sources env release policy seen (torrents @ directories)"
    unfolding found_sources_def using p(1,3) by blast
  then show thesis using that p(4) by (simp add: n_def Let_def)
qed

lemma load_files_refused:
  assumes "load_files env candidate s sources = Inr None" and "\<forall>source \<in> set sources. lo_file_count source = counted source"
  shows "\<exists>source \<in> set sources. needs_files candidate source \<and> counted source < stored_files s source"
  using assms
proof (induction sources)
  case (Cons x xs)
  show ?case
  proof (cases "needs_files candidate x \<and>
      source_files env (ls_id (lo_manifest x)) (lo_manifest_version x) (lo_file_count x) s = Inr None")
    case True
    then have "lo_file_count x < stored_files s x"
      by (auto simp: source_files_def stored_files_def split: if_splits)
    then show ?thesis using True Cons.prems(2) by auto
  next
    case False
    then have "load_files env candidate s xs = Inr None"
      using Cons.prems(1) by (auto split: if_splits option.splits)
    then show ?thesis using Cons.IH Cons.prems(2) by auto
  qed
qed simp

text \<open>What the matcher would be asked, had the files of the sources been read.\<close>

definition request_with_files ::
  "torrent_manifest \<Rightarrow> release_descriptor \<Rightarrow> candidate_policy \<Rightarrow> (loaded_source \<Rightarrow> local_source_file list) \<Rightarrow> loaded_source list \<Rightarrow>
   match_request" where
  "request_with_files candidate release policy files sources =
     \<lparr> mr_candidate = candidate, mr_candidate_release = release,
       mr_sources = map (\<lambda>source. (lo_manifest source)\<lparr>ls_files := files source\<rparr>) (filter (usable candidate) sources),
       mr_policy = cp_matching policy \<rparr>"

lemma refused_beyond_budget:
  assumes "\<not> admit_files candidate policy n sources a"
    and "\<forall>source \<in> set sources. length (files source) = (if needs_files candidate source then lo_file_count source else 0)"
  shows "budget_fold policy n (map (\<lambda>source. (lo_manifest source)\<lparr>ls_files := files source\<rparr>) (filter (usable candidate) sources)) a = None"
  using assms
proof (induction sources arbitrary: a)
  case (Cons x xs)
  show ?case
  proof (cases "needs_files candidate x")
    case True
    then have "usable candidate x" by (simp add: usable_def needs_files_def)
    then show ?thesis using Cons True by (auto simp: split: option.splits if_splits)
  next
    case False
    have "budget_fold policy n (map (\<lambda>source. (lo_manifest source)\<lparr>ls_files := files source\<rparr>) (filter (usable candidate) xs)) a = None"
      using Cons False by simp
    then show ?thesis using Cons.prems(2) False by (simp add: checked_add_def)
  qed
qed simp


section \<open>An example\<close>

definition sample_policy :: candidate_policy where
  "sample_policy =
     \<lparr> cp_matching = default_policy, cp_source_filters = ci_source_filters sample_ingress,
       cp_pending_source_timeout_ms = 600000, cp_injection = ci_injection sample_ingress,
       cp_namespace_local_root = ''/links'', cp_save_path_remote_root = ''/remote/'', cp_path_rewrites = [] \<rparr>"

definition sample_workflow_codec :: workflow_codec where
  "sample_workflow_codec =
     \<lparr> wc_codec = kc_codec sample_candidate_codec, wc_manifest = (\<lambda>_. Some (mr_candidate sample_request)),
       wc_release = (\<lambda>_. Some (unknown (NormalizedTitle ''a''))), wc_policy = (\<lambda>_. Some sample_policy),
       wc_tags_of = (\<lambda>_. Some []), wc_json_each = (\<lambda>_. []), wc_decision = (\<lambda>_. ''d''), wc_evidence = (\<lambda>_. ''{}''),
       wc_tags = (\<lambda>_. ''[]''), wc_resume = (\<lambda>_. ''{}''), wc_material = (\<lambda>_. ''m''),
       wc_waiting_detail = (\<lambda>_ _. ''{}''), wc_terminal_detail = (\<lambda>_ _. ''{}'') \<rparr>"

definition sample_workflow_env :: "int \<Rightarrow> workflow_env" where
  "sample_workflow_env now =
     \<lparr> we_fault = (\<lambda>_. False), we_codec = sample_workflow_codec, we_unicode = ascii_unicode, we_now = now \<rparr>"

definition sample_data_row :: data_source_row where
  "sample_data_row = \<lparr> da_id = ''ssssssssssssssss'', da_kind = ''file'', da_release_json = Some ''r'', da_available = True,
     da_last_seen_generation = 1 \<rparr>"

definition sample_file_row :: source_file_row where
  "sample_file_row = \<lparr> fr_id = 7, fr_source_id = ''ssssssssssssssss'', fr_manifest_version = 1, fr_display_path = ''b.mkv'',
     fr_size = 700, fr_device = None, fr_inode = None, fr_available = True, fr_ordinal = 0 \<rparr>"

definition sample_workflow_store :: "candidate_store \<Rightarrow> workflow_store" where
  "sample_workflow_store intake =
     \<lparr> ws_intake = intake, ws_torrents = [], ws_data = [sample_data_row], ws_files = [sample_file_row],
       ws_titles = [\<lparr>ti_source_id = ''ssssssssssssssss'', ti_source_type = ''data'', ti_normalized_title = ''a''\<rparr>],
       ws_external_ids = [], ws_waiting = [], ws_matches = Map.empty, ws_mappings = Map.empty, ws_plans = Map.empty \<rparr>"

lemma sample_data_rows:
  "data_rows (sample_workflow_store intake) (unknown (NormalizedTitle ''a'')) 64 = [sample_data_row]"
  by (simp add: data_rows_def sample_workflow_store_def sample_data_row_def source_reduction_def reduction_titles_def unknown_def)

lemma sample_file_rows:
  "file_rows (sample_workflow_store intake) ''ssssssssssssssss'' 1 = [sample_file_row]"
  by (simp add: file_rows_def sample_workflow_store_def sample_file_row_def)

lemma sample_read_file: "read_file sample_file_row = Inr sample_local_file"
  by (simp add: read_file_def sample_file_row_def stored_u64_def stored_optional_u64_def)

definition sample_loaded :: loaded_source where
  "sample_loaded = \<lparr> lo_complete = True, lo_manifest_loaded = True, lo_manifest_version = 1, lo_file_count = 1,
     lo_manifest = hd (mr_sources sample_request) \<rparr>"

lemma sample_candidate_sources:
  "candidate_sources (sample_workflow_env now) (mr_candidate sample_request) (unknown (NormalizedTitle ''a'')) sample_policy
     (sample_workflow_store intake) (sample_workflow_store intake) = Inr (SourcesLoaded [sample_loaded])"
proof -
  let ?s = "sample_workflow_store intake"
  define fresh where "fresh = sample_loaded\<lparr>lo_manifest := (lo_manifest sample_loaded)\<lparr>ls_files := []\<rparr>\<rparr>"
  have torrents: "torrent_rows sample_workflow_codec ?s (unknown (NormalizedTitle ''a'')) (cp_source_filters sample_policy) = []"
    by (simp add: torrent_rows_def sample_workflow_store_def)
  have directories: "data_source sample_workflow_codec ?s sample_data_row = Inr fresh"
    by (simp add: data_source_def sample_data_row_def fixed_bytes_def read_release_def sample_workflow_codec_def
        sample_file_rows fresh_def sample_loaded_def sample_request_def)
  have needs: "needs_files (mr_candidate sample_request) fresh"
    by (simp add: needs_files_def fresh_def sample_loaded_def sample_request_def same_identity_def)
  have count: "length (filter (\<lambda>f. \<not> tf_padding f) (tm_files (mr_candidate sample_request))) = 1"
    by (simp add: sample_request_def)
  have admit: "admit_files (mr_candidate sample_request) (cp_matching sample_policy) 1 [fresh] 1"
    using needs by (simp add: checked_add_def sample_policy_def default_budgets fresh_def sample_loaded_def)
  have files: "source_files (sample_workflow_env now) ''ssssssssssssssss'' 1 1 ?s = Inr (Some [sample_local_file])"
    by (simp add: source_files_def sample_file_rows sample_workflow_env_def query_def saturating_add_def sample_read_file)
  have load: "load_files (sample_workflow_env now) (mr_candidate sample_request) ?s [fresh] = Inr (Some [sample_loaded])"
  proof -
    have k: "ls_id (lo_manifest fresh) = ''ssssssssssssssss''" "lo_manifest_version fresh = 1" "lo_file_count fresh = 1"
      by (simp_all add: fresh_def sample_loaded_def sample_request_def)
    show ?thesis unfolding load_files.simps k files using needs
      by (simp add: fresh_def) (simp add: sample_loaded_def sample_request_def)
  qed
  show ?thesis
    using torrents directories admit load sample_data_rows [of intake]
    by (simp add: candidate_sources_def Let_def sample_workflow_env_def query_def count MAX_PLAUSIBLE_SOURCES_def)
qed

section \<open>Properties\<close>

text \<open>
  The admitted direction: whatever is loaded is within the budget of the matcher.
\<close>

lemma loaded_within_budget:
  assumes "candidate_sources env candidate release policy seen s = Inr (SourcesLoaded loaded)"
    and "mp_max_assignment_files (cp_matching policy) \<le> u64_max"
  shows "length loaded \<le> 64 \<and> (\<forall>source \<in> set loaded. ls_available (lo_manifest source)) \<and>
    (input_budget_exceeded \<lparr> mr_candidate = candidate, mr_candidate_release = release,
        mr_sources = map lo_manifest (filter (usable candidate) loaded), mr_policy = cp_matching policy \<rparr> \<longleftrightarrow>
     mp_max_assignment_files (cp_matching policy) < length (filter (\<lambda>f. \<not> tf_padding f) (tm_files candidate)))"
proof -
  define n where "n = length (filter (\<lambda>f. \<not> tf_padding f) (tm_files candidate))"
  obtain sources where p: "list_all2 (loads env candidate s) sources loaded" "length sources \<le> MAX_PLAUSIBLE_SOURCES"
    "\<forall>source \<in> set sources. fresh_source source" "admit_files candidate (cp_matching policy) n sources n"
    using candidate_sources_loaded [OF assms(1)] unfolding n_def Let_def by blast
  have len: "length loaded \<le> 64" using p(1,2) by (simp add: list_all2_lengthD MAX_PLAUSIBLE_SOURCES_def)
  have av: "\<forall>source \<in> set loaded. ls_available (lo_manifest source)"
  proof
    fix source assume "source \<in> set loaded"
    then obtain x where "x \<in> set sources" "loads env candidate s x source" using list_all2_in_set2 [OF p(1)] by blast
    then show "ls_available (lo_manifest source)" using p(3) loads_frame(3) by (metis fresh_source_def)
  qed
  have "filter ls_available (map lo_manifest (filter (usable candidate) loaded)) = map lo_manifest (filter (usable candidate) loaded)"
    using av by (auto intro: filter_True)
  moreover have "budget_fold (cp_matching policy) n (map lo_manifest (filter (usable candidate) loaded)) n \<noteq> None"
    if "n \<le> mp_max_assignment_files (cp_matching policy)"
    by (rule admitted_within_budget [OF p(1,4,3) le_refl that assms(2)])
  ultimately show ?thesis using len av
    by (auto simp: input_budget_exceeded_def Let_def not_le simp flip: n_def)
qed

text \<open>
  C29: The admission of the sources agrees with the budget of the matcher, in both
  directions.  When the sources of a candidate are loaded, there are at most 64, all
  of them are available, and the matcher, asked with the sources that are complete
  and loaded, exceeds its input budget only when the files of the candidate alone
  do; this holds although the files are read after they were counted.  When they are
  refused, then either a source had more files when they were read than when they
  were counted, or the matcher, asked with the sources that were found and as many
  files as were counted, exceeds its input budget.
\<close>

theorem admission_agrees_with_matcher:
  assumes "candidate_sources env candidate release policy seen s = Inr result"
    and "mp_max_assignment_files (cp_matching policy) \<le> u64_max"
  shows "case result of
     SourcesLoaded loaded \<Rightarrow> length loaded \<le> 64 \<and> (\<forall>source \<in> set loaded. ls_available (lo_manifest source)) \<and>
       (input_budget_exceeded \<lparr> mr_candidate = candidate, mr_candidate_release = release,
           mr_sources = map lo_manifest (filter (usable candidate) loaded), mr_policy = cp_matching policy \<rparr> \<longleftrightarrow>
        mp_max_assignment_files (cp_matching policy) < length (filter (\<lambda>f. \<not> tf_padding f) (tm_files candidate)))
   | SourcesBudgetExceeded \<Rightarrow> \<exists>sources. found_sources env release policy seen sources \<and>
       ((\<exists>source \<in> set sources. needs_files candidate source \<and> stored_files seen source < stored_files s source) \<or>
        (\<forall>files. (\<forall>source \<in> set sources. length (files source) = (if needs_files candidate source then stored_files seen source else 0)) \<longrightarrow>
           input_budget_exceeded (request_with_files candidate release policy files sources)))"
proof (cases result)
  case (SourcesLoaded loaded)
  then show ?thesis using loaded_within_budget [OF assms(1) [unfolded SourcesLoaded] assms(2)] by simp
next
  case SourcesBudgetExceeded
  define n where "n = length (filter (\<lambda>f. \<not> tf_padding f) (tm_files candidate))"
  obtain sources where found: "found_sources env release policy seen sources"
    and refused: "\<not> admit_files candidate (cp_matching policy) n sources n \<or> load_files env candidate s sources = Inr None"
    using candidate_sources_refused [OF assms(1) [unfolded SourcesBudgetExceeded]] unfolding n_def Let_def by blast
  note counts = found_source [OF found]
  have "input_budget_exceeded (request_with_files candidate release policy files sources)"
    if no: "\<not> admit_files candidate (cp_matching policy) n sources n"
      and files: "\<forall>source \<in> set sources. length (files source) = (if needs_files candidate source then stored_files seen source else 0)" for files
  proof -
    let ?ms = "map (\<lambda>source. (lo_manifest source)\<lparr>ls_files := files source\<rparr>) (filter (usable candidate) sources)"
    have "filter ls_available ?ms = ?ms" using counts(1) by (auto simp: fresh_source_def intro!: filter_True)
    moreover have "budget_fold (cp_matching policy) n ?ms n = None"
      by (rule refused_beyond_budget [OF no]) (use files counts(2) in auto)
    ultimately show ?thesis by (simp add: input_budget_exceeded_def request_with_files_def Let_def flip: n_def)
  qed
  moreover have "\<exists>source \<in> set sources. needs_files candidate source \<and> stored_files seen source < stored_files s source"
    if "load_files env candidate s sources = Inr None"
    by (rule load_files_refused [OF that]) (use counts(2) in blast)
  ultimately show ?thesis using found refused SourcesBudgetExceeded by auto
qed

theorem admission_agrees_with_matcher_witness:
  "\<exists>loaded. candidate_sources (sample_workflow_env 0) (mr_candidate sample_request) (unknown (NormalizedTitle ''a'')) sample_policy
     (sample_workflow_store empty_candidates) (sample_workflow_store empty_candidates) = Inr (SourcesLoaded loaded) \<and>
   \<not> input_budget_exceeded \<lparr> mr_candidate = mr_candidate sample_request, mr_candidate_release = unknown (NormalizedTitle ''a''),
        mr_sources = map lo_manifest (filter (usable (mr_candidate sample_request)) loaded), mr_policy = cp_matching sample_policy \<rparr>"
proof -
  have "mp_max_assignment_files (cp_matching sample_policy) \<le> u64_max" "mp_max_assignment_files (cp_matching sample_policy) = 4096"
    by (simp_all add: sample_policy_def default_budgets)
  moreover have "length (filter (\<lambda>f. \<not> tf_padding f) (tm_files (mr_candidate sample_request))) = 1" by (simp add: sample_request_def)
  ultimately show ?thesis using admission_agrees_with_matcher [OF sample_candidate_sources] sample_candidate_sources by auto
qed

end
