(* ===== verification/Candidate_Workflow.thy ===== *)
theory Candidate_Workflow
  imports Candidate_Sources Task_Machine Engine
begin

text \<open>
  The second half of \<open>crates/sporos-service/src/candidate_workflow.rs\<close>: the
  evaluation of a candidate, the waiting for sources, the match, its mappings and
  the injection plan, and the loop of the workflow.  A transaction that fails
  changes nothing; the statements of an evaluation that are not in one transaction
  keep their effect when a later one fails.
\<close>

section \<open>Codes\<close>

definition mode_text :: "match_mode \<Rightarrow> string" where
  "mode_text mode =
     (case mode of
        Strict \<Rightarrow> ''strict'' | Flexible \<Rightarrow> ''flexible'' | Partial \<Rightarrow> ''partial''
      | SeasonFromEpisodes \<Rightarrow> ''season_from_episodes'')"

definition outcome_text :: "match_outcome \<Rightarrow> string" where
  "outcome_text outcome =
     (case outcome of
        Match \<Rightarrow> ''match'' | NoMatch \<Rightarrow> ''no_match'' | AlreadyPresent \<Rightarrow> ''already_present'' | Rejected \<Rightarrow> ''rejected'')"

definition reason_text :: "match_reason \<Rightarrow> string" where
  "reason_text reason =
     (case reason of
        MatchStrict \<Rightarrow> ''match_strict'' | MatchFlexible \<Rightarrow> ''match_flexible'' | MatchPartial \<Rightarrow> ''match_partial''
      | MatchSeasonFromEpisodes \<Rightarrow> ''match_season_from_episodes'' | ReasonAlreadyPresent \<Rightarrow> ''already_present''
      | NoPlausibleSource \<Rightarrow> ''no_plausible_source'' | MediaTypeConflict \<Rightarrow> ''media_type_conflict''
      | TitleConflict \<Rightarrow> ''title_conflict'' | YearConflict \<Rightarrow> ''year_conflict'' | SeriesConflict \<Rightarrow> ''series_conflict''
      | SeasonConflict \<Rightarrow> ''season_conflict'' | EpisodeConflict \<Rightarrow> ''episode_conflict'' | DateConflict \<Rightarrow> ''date_conflict''
      | NoPrimaryVideoOverlap \<Rightarrow> ''no_primary_video_overlap'' | FileSizeConflict \<Rightarrow> ''file_size_conflict''
      | AmbiguousFileMapping \<Rightarrow> ''ambiguous_file_mapping'' | UnsupportedTorrent \<Rightarrow> ''unsupported_torrent''
      | UnsafeTorrentPath \<Rightarrow> ''unsafe_torrent_path'' | HardlinkDeviceMismatch \<Rightarrow> ''hardlink_device_mismatch''
      | MatcherBudgetExceeded \<Rightarrow> ''matcher_budget_exceeded'')"

definition kind_text :: "video_kind \<Rightarrow> string" where
  "kind_text kind =
     (case kind of
        Movie \<Rightarrow> ''movie'' | Episode \<Rightarrow> ''episode'' | SeasonPack \<Rightarrow> ''season_pack'' | DateEpisode \<Rightarrow> ''date_episode''
      | AbsoluteEpisode \<Rightarrow> ''absolute_episode'' | Disc \<Rightarrow> ''disc'' | UnknownVideo \<Rightarrow> ''unknown'')"

section \<open>Loading the candidate\<close>

record loaded_candidate =
  lc_id :: candidate_id
  lc_manifest :: torrent_manifest
  lc_release :: release_descriptor
  lc_policy :: candidate_policy
  lc_created_at :: int
  lc_trigger :: string
  lc_indexer_id :: "int option"
  lc_indexer_name :: "string option"

definition candidate_join ::
  "workflow_input \<Rightarrow> candidate_store \<Rightarrow> (candidate_row \<times> policy_snapshot \<times> provenance_row) option" where
  "candidate_join input s =
     Option.bind (cs_candidates s (wi_candidate_id input)) (\<lambda>row.
     if cs_candidate_tasks s (wi_candidate_id input, wi_policy_snapshot_id input) \<noteq> Some (wi_task_id input) then None
     else Option.bind (st_policies (cs_tasks s) (wi_policy_snapshot_id input)) (\<lambda>policy.
       map_option (\<lambda>origin. (row, policy, origin))
         (find (\<lambda>p. pv_candidate_id p = wi_candidate_id input) (cs_provenance s))))"

definition load_candidate ::
  "workflow_env \<Rightarrow> workflow_input \<Rightarrow> workflow_store \<Rightarrow> (workflow_error, loaded_candidate) result" where
  "load_candidate env input s =
     and_then (query env SelectCandidate (candidate_join input (ws_intake s))) (\<lambda>joined.
     and_then (ok_or WfMissingCandidate joined) (\<lambda>(row, policy, origin).
     and_then (ok_or WfMissingManifest (cr_manifest_json row)) (\<lambda>manifest_json.
     and_then (ok_or WfJson (wc_manifest (we_codec env) manifest_json)) (\<lambda>manifest.
     and_then (ok_or WfJson (wc_release (we_codec env) (cr_release_json row))) (\<lambda>release.
     and_then (ok_or WfJson (wc_policy (we_codec env) (ps_payload_json policy))) (\<lambda>pinned.
       Inr \<lparr> lc_id = wi_candidate_id input, lc_manifest = manifest, lc_release = release, lc_policy = pinned,
             lc_created_at = cr_created_at row, lc_trigger = pv_trigger origin,
             lc_indexer_id = pv_indexer_id origin, lc_indexer_name = pv_indexer_name origin \<rparr>))))))"

definition checked_i64 :: "string \<Rightarrow> nat \<Rightarrow> (workflow_error, nat) result" where
  "checked_i64 field value = (if value > i64_max then Inl (WfRange field) else Inr value)"

definition deadline :: "loaded_candidate \<Rightarrow> (workflow_error, int) result" where
  "deadline loaded =
     and_then (checked_i64 ''pending source timeout'' (cp_pending_source_timeout_ms (lc_policy loaded))) (\<lambda>timeout.
       Inr (min (int i64_max) (lc_created_at loaded + int timeout)))"

section \<open>Decisions of the workflow itself\<close>

definition rejected_source_timeout :: "match_decision \<Rightarrow> match_decision" where
  "rejected_source_timeout d = d\<lparr>md_outcome := Rejected, md_reason := NoPlausibleSource\<rparr>"

definition matcher_budget_rejection :: "loaded_candidate \<Rightarrow> match_decision" where
  "matcher_budget_rejection loaded =
     (let files = filter (\<lambda>f. \<not> tf_padding f) (tm_files (lc_manifest loaded))
      in \<lparr> md_outcome = Rejected, md_mode = None, md_reason = MatcherBudgetExceeded, md_source_ids = [],
           md_mappings = [], md_mapped_bytes = 0, md_missing_bytes = sum_u64 (map tf_size files),
           md_present_ratio = ratio_zero, md_requires_recheck = False,
           md_evidence = default_evidence\<lparr>me_candidate_files := length files\<rparr> \<rparr>)"

definition terminal_state :: "match_decision \<Rightarrow> bool \<Rightarrow> string" where
  "terminal_state d dry_run =
     (case md_outcome d of
        Match \<Rightarrow> if dry_run then ''dry_run_complete'' else ''planned''
      | AlreadyPresent \<Rightarrow> ''already_present''
      | NoMatch \<Rightarrow> ''rejected''
      | Rejected \<Rightarrow> ''rejected'')"

section \<open>The plan\<close>

record template_source =
  sd_category :: string
  sd_tags :: "string list"
  sd_kind :: string

fun template_data_loop ::
  "workflow_codec \<Rightarrow> workflow_store \<Rightarrow> source_id list \<Rightarrow> template_source \<Rightarrow>
   (workflow_error, template_source) result" where
  "template_data_loop c s [] acc = Inr acc"
| "template_data_loop c s (source # sources) acc =
     (case find (\<lambda>row. qt_id row = source) (ws_torrents s) of
        None \<Rightarrow> template_data_loop c s sources acc
      | Some row \<Rightarrow>
          and_then (ok_or WfJson (wc_tags_of c (qt_tags_json row))) (\<lambda>tags.
            template_data_loop c s sources
              \<lparr> sd_category = (if sd_category acc = [] then qt_category row else sd_category acc),
                sd_tags = sd_tags acc @ tags, sd_kind = ''qbittorrent_torrent'' \<rparr>))"

definition source_template_data ::
  "workflow_codec \<Rightarrow> workflow_store \<Rightarrow> source_id list \<Rightarrow> (workflow_error, template_source) result" where
  "source_template_data c s source_ids =
     template_data_loop c s (sort source_ids) \<lparr> sd_category = [], sd_tags = [], sd_kind = ''data_directory_release'' \<rparr>"

definition default_text :: "string option \<Rightarrow> string" where
  "default_text value = (case value of None \<Rightarrow> [] | Some v \<Rightarrow> v)"

definition plan_context :: "unicode \<Rightarrow> loaded_candidate \<Rightarrow> match_decision \<Rightarrow> template_source \<Rightarrow> template_context" where
  "plan_context u loaded d source =
     [''trigger'' \<mapsto> lc_trigger loaded,
      ''indexer_id'' \<mapsto> default_text (map_option int_text (lc_indexer_id loaded)),
      ''indexer_name'' \<mapsto> default_text (lc_indexer_name loaded),
      ''indexer_slug'' \<mapsto> slug u (default_text (lc_indexer_name loaded)),
      ''match_mode'' \<mapsto> default_text (map_option mode_text (md_mode d)),
      ''source_category'' \<mapsto> sd_category source, ''source_kind'' \<mapsto> sd_kind source,
      ''video_kind'' \<mapsto> kind_text (rd_kind (lc_release loaded)),
      ''year'' \<mapsto> default_text (map_option decimal (rd_year (lc_release loaded))),
      ''season'' \<mapsto> default_text (map_option decimal (rd_season (lc_release loaded))),
      ''episode'' \<mapsto> default_text (map_option decimal (rd_episode (lc_release loaded)))]"

text \<open>\<open>Path::join\<close> with a relative path of one component.\<close>

definition join_component :: "string \<Rightarrow> string \<Rightarrow> string" where
  "join_component base part = (if base = [] \<or> last base = CHR ''/'' then base @ part else base @ ''/'' @ part)"

definition plan_category ::
  "loaded_candidate \<Rightarrow> template_source \<Rightarrow> template_context \<Rightarrow> (workflow_error, string) result" where
  "plan_category loaded source context =
     (if ij_inherit_source_category (cp_injection (lc_policy loaded)) \<and> sd_category source \<noteq> []
      then Inr (sd_category source)
      else map_err (\<lambda>_. WfTemplate) (render_category context (ij_category_template (cp_injection (lc_policy loaded)))))"

definition plan_tags ::
  "loaded_candidate \<Rightarrow> template_source \<Rightarrow> template_context \<Rightarrow> (workflow_error, string list) result" where
  "plan_tags loaded source context =
     and_then (map_err (\<lambda>_. WfTemplate) (render_tags context (ij_tag_templates (cp_injection (lc_policy loaded)))
       (if ij_inherit_source_tags (cp_injection (lc_policy loaded)) then sd_tags source else []))) (\<lambda>tags.
     Inr (if list_ex (\<lambda>tag. tag = ''sporos'') tags then tags else ''sporos'' # tags))"

definition insert_plan :: "codec \<Rightarrow> string \<Rightarrow> stored_plan \<Rightarrow> workflow_store \<Rightarrow> (workflow_error, workflow_store) result" where
  "insert_plan codec plan_id row s =
     (if \<not> cd_json_valid codec (pn_tags_json row) \<or> \<not> cd_json_valid codec (pn_resume_policy_json row) then Inl WfDatabase
      else Inr (if ws_plans s plan_id = None then s\<lparr>ws_plans := (ws_plans s)(plan_id \<mapsto> row)\<rparr> else s))"

definition verify_plan :: "string \<Rightarrow> string \<Rightarrow> workflow_store \<Rightarrow> (workflow_error, unit) result" where
  "verify_plan plan_id digest s =
     (case ws_plans s plan_id of
        None \<Rightarrow> Inl WfDatabase
      | Some stored \<Rightarrow> if pn_digest stored = digest then Inr () else Inl PlanCollision)"

definition persist_plan ::
  "workflow_env \<Rightarrow> workflow_input \<Rightarrow> loaded_candidate \<Rightarrow> match_decision \<Rightarrow> string \<Rightarrow> workflow_store \<Rightarrow>
   (workflow_error, string \<times> workflow_store) result" where
  "persist_plan env input loaded d match_id s =
     (let c = we_codec env;
          candidate_key = ''cand_'' @ encode_hex (lc_id loaded);
          shard = encode_hex (take 2 (lc_id loaded));
          namespace_local = join_component (join_component (cp_namespace_local_root (lc_policy loaded)) shard) candidate_key;
          save_path_remote = join_component (join_component (cp_save_path_remote_root (lc_policy loaded)) shard) candidate_key
      in and_then (source_template_data c s (md_source_ids d)) (\<lambda>source.
         let context = plan_context (we_unicode env) loaded d source
         in and_then (plan_category loaded source context) (\<lambda>category.
            and_then (plan_tags loaded source context) (\<lambda>tags.
            let resume = wc_resume c (ij_resume (cp_injection (lc_policy loaded)));
                digest = cd_sha256 (wc_codec c) (wc_material c
                  \<lparr> pm_match_id = encode_hex match_id, pm_candidate_id = encode_hex (wi_candidate_id input),
                    pm_namespace_local = namespace_local, pm_save_path_remote = save_path_remote, pm_category = category,
                    pm_tags = tags, pm_resume_policy = resume, pm_mappings = md_mappings d \<rparr>);
                plan_id = first_16 digest
            in and_then (insert_plan (wc_codec c) plan_id
                 \<lparr> pn_match_id = match_id, pn_candidate_id = wi_candidate_id input, pn_namespace_local = namespace_local,
                   pn_save_path_remote = save_path_remote, pn_category = category, pn_tags_json = wc_tags c tags,
                   pn_resume_policy_json = resume, pn_digest = digest,
                   pn_state = (if ij_dry_run (cp_injection (lc_policy loaded)) then ''dry_run_complete'' else ''planned'') \<rparr> s) (\<lambda>s'.
               and_then (verify_plan plan_id digest s') (\<lambda>_. Inr (plan_id, s')))))))"

section \<open>Writing a result\<close>

definition delete_waiting :: "task_id \<Rightarrow> workflow_store \<Rightarrow> workflow_store" where
  "delete_waiting task s = s\<lparr>ws_waiting := filter (\<lambda>w. wt_task_id w \<noteq> task) (ws_waiting s)\<rparr>"

fun insert_waiting :: "task_id \<Rightarrow> int \<Rightarrow> source_id list \<Rightarrow> workflow_store \<Rightarrow> (workflow_error, workflow_store) result" where
  "insert_waiting task now [] s = Inr s"
| "insert_waiting task now (source # sources) s =
     (if list_ex (\<lambda>w. wt_task_id w = task \<and> wt_source_id w = source) (ws_waiting s) then Inl WfDatabase
      else insert_waiting task now sources
        (s\<lparr>ws_waiting := ws_waiting s @ [\<lparr>wt_task_id = task, wt_source_id = source, wt_created_at = now\<rparr>]\<rparr>))"

definition set_candidate_state :: "candidate_id \<Rightarrow> string \<Rightarrow> int \<Rightarrow> workflow_store \<Rightarrow> workflow_store" where
  "set_candidate_state candidate state now s =
     s\<lparr>ws_intake := (ws_intake s)\<lparr>cs_candidates := (cs_candidates (ws_intake s))
        (candidate := map_option (\<lambda>row. row\<lparr>cr_state := state, cr_updated_at := now\<rparr>)
           (cs_candidates (ws_intake s) candidate))\<rparr>\<rparr>"

definition transaction ::
  "workflow_env \<Rightarrow> workflow_statement \<Rightarrow> (workflow_error, 'a \<times> workflow_store) result \<Rightarrow> workflow_store \<Rightarrow>
   (workflow_error, 'a) result \<times> workflow_store" where
  "transaction env statement r s =
     (if we_fault env statement then (Inl WfDatabase, s)
      else case r of Inl e \<Rightarrow> (Inl e, s) | Inr (x, t) \<Rightarrow> (Inr x, t))"

definition persist_waiting ::
  "workflow_env \<Rightarrow> workflow_input \<Rightarrow> source_id list \<Rightarrow> workflow_store \<Rightarrow> (workflow_error, unit) result \<times> workflow_store" where
  "persist_waiting env input source_ids s =
     transaction env PersistWaiting
       (and_then (insert_waiting (wi_task_id input) (we_now env) source_ids (delete_waiting (wi_task_id input) s)) (\<lambda>t.
          Inr ((), set_candidate_state (wi_candidate_id input) ''waiting_for_source'' (we_now env) t))) s"

definition insert_match :: "codec \<Rightarrow> string \<Rightarrow> match_row \<Rightarrow> workflow_store \<Rightarrow> (workflow_error, workflow_store) result" where
  "insert_match codec match_id row s =
     and_then (checked_i64 ''mapped bytes'' (mt_mapped_bytes row)) (\<lambda>_.
     and_then (checked_i64 ''missing bytes'' (mt_missing_bytes row)) (\<lambda>_.
       if mt_present_ratio_ppm row > 1000000 \<or> \<not> cd_json_valid codec (mt_evidence_json row) then Inl WfDatabase
       else Inr (if ws_matches s match_id = None then s\<lparr>ws_matches := (ws_matches s)(match_id \<mapsto> row)\<rparr> else s)))"

definition verify_match :: "string \<Rightarrow> string \<Rightarrow> workflow_store \<Rightarrow> (workflow_error, unit) result" where
  "verify_match match_id digest s =
     (case ws_matches s match_id of
        None \<Rightarrow> Inl WfDatabase
      | Some stored \<Rightarrow> if mt_decision_digest stored = digest then Inr () else Inl MatchCollision)"

definition row_of_mapping :: "file_mapping \<Rightarrow> mapping_row" where
  "row_of_mapping m =
     \<lparr> mw_source_id = fm_source_id m, mw_source_file_id = fm_source_file_id m, mw_candidate_path = fm_candidate_path m,
       mw_size = fm_size m, mw_score = fm_score m \<rparr>"

fun insert_mappings :: "string \<Rightarrow> file_mapping list \<Rightarrow> workflow_store \<Rightarrow> (workflow_error, workflow_store) result" where
  "insert_mappings match_id [] s = Inr s"
| "insert_mappings match_id (m # ms) s =
     and_then (checked_i64 ''source file ID'' (fm_source_file_id m)) (\<lambda>_.
     and_then (checked_i64 ''mapping size'' (fm_size m)) (\<lambda>_.
       insert_mappings match_id ms
         (if ws_mappings s (match_id, fm_candidate_ordinal m) = None
          then s\<lparr>ws_mappings := (ws_mappings s)((match_id, fm_candidate_ordinal m) \<mapsto> row_of_mapping m)\<rparr> else s)))"

definition decision_digest :: "workflow_codec \<Rightarrow> match_decision \<Rightarrow> string" where
  "decision_digest c d = cd_sha256 (wc_codec c) (wc_decision c d)"

definition match_identity :: "workflow_codec \<Rightarrow> workflow_input \<Rightarrow> loaded_candidate \<Rightarrow> match_decision \<Rightarrow> string" where
  "match_identity c input loaded d =
     first_16 (cd_sha256 (wc_codec c)
       (''candidate-match-v1:'' @ lc_id loaded @ wi_policy_snapshot_id input @ decision_digest c d))"

definition match_row_of :: "workflow_codec \<Rightarrow> workflow_input \<Rightarrow> match_decision \<Rightarrow> match_row" where
  "match_row_of c input d =
     \<lparr> mt_candidate_id = wi_candidate_id input, mt_matcher_version = MATCHER_VERSION, mt_mode = map_option mode_text (md_mode d),
       mt_outcome = outcome_text (md_outcome d), mt_reason_code = reason_text (md_reason d),
       mt_mapped_bytes = md_mapped_bytes d, mt_missing_bytes = md_missing_bytes d,
       mt_present_ratio_ppm = as_ppm (md_present_ratio d), mt_evidence_json = wc_evidence c (md_evidence d),
       mt_decision_digest = decision_digest c d \<rparr>"

definition terminal_transaction ::
  "workflow_env \<Rightarrow> workflow_input \<Rightarrow> loaded_candidate \<Rightarrow> match_decision \<Rightarrow> workflow_store \<Rightarrow>
   (workflow_error, string option \<times> workflow_store) result" where
  "terminal_transaction env input loaded d s =
     (let c = we_codec env;
          match_id = match_identity c input loaded d;
          state = terminal_state d (ij_dry_run (cp_injection (lc_policy loaded)))
      in and_then (insert_match (wc_codec c) match_id (match_row_of c input d) (delete_waiting (wi_task_id input) s)) (\<lambda>s1.
         and_then (verify_match match_id (decision_digest c d) s1) (\<lambda>_.
         and_then (insert_mappings match_id (md_mappings d) s1) (\<lambda>s2.
         and_then (if md_outcome d = Match
                   then and_then (persist_plan env input loaded d match_id s2) (\<lambda>(plan, s3). Inr (Some plan, s3))
                   else Inr (None, s2)) (\<lambda>(plan, s3).
           Inr (plan, set_candidate_state (wi_candidate_id input) state (we_now env) s3))))))"

definition wf_error_of :: "candidate_projection_error \<Rightarrow> workflow_error" where
  "wf_error_of e = (case e of MissingTask \<Rightarrow> WfMissingTask | TaskProjection p \<Rightarrow> WfProjection p)"

definition project_state ::
  "workflow_env \<Rightarrow> workflow_input \<Rightarrow> string \<Rightarrow> string option \<Rightarrow> bool \<Rightarrow> string \<Rightarrow> workflow_store \<Rightarrow>
   (workflow_error, unit) result \<times> workflow_store" where
  "project_state env input state reason terminal detail s =
     transaction env ProjectTask
       (and_then (map_err wf_error_of (project_candidate_task (wc_codec (we_codec env)) (wi_task_id input) state reason terminal
          detail (we_now env) (cs_tasks (ws_intake s)))) (\<lambda>tasks.
        Inr ((), s\<lparr>ws_intake := (ws_intake s)\<lparr>cs_tasks := tasks\<rparr>\<rparr>))) s"

datatype evaluation_result =
    CandidateWaiting nat "source_id list"
  | CandidateTerminal string string string "string option"

definition and_do ::
  "(workflow_error, 'a) result \<times> workflow_store \<Rightarrow> ('a \<Rightarrow> workflow_store \<Rightarrow> (workflow_error, 'b) result \<times> workflow_store) \<Rightarrow>
   (workflow_error, 'b) result \<times> workflow_store" where
  "and_do r f = (case r of (Inl e, s) \<Rightarrow> (Inl e, s) | (Inr x, s) \<Rightarrow> f x s)"

definition persist_terminal ::
  "workflow_env \<Rightarrow> workflow_input \<Rightarrow> loaded_candidate \<Rightarrow> match_decision \<Rightarrow> workflow_store \<Rightarrow>
   (workflow_error, evaluation_result) result \<times> workflow_store" where
  "persist_terminal env input loaded d s =
     (let match_id = match_identity (we_codec env) input loaded d;
          state = terminal_state d (ij_dry_run (cp_injection (lc_policy loaded)));
          reason = reason_text (md_reason d)
      in and_do (transaction env PersistTerminal (terminal_transaction env input loaded d s) s) (\<lambda>plan t.
         and_do (project_state env input state (Some reason) (state \<noteq> ''planned'')
             (wc_terminal_detail (we_codec env) (encode_hex match_id) (map_option encode_hex plan)) t) (\<lambda>_ t'.
           (Inr (CandidateTerminal state reason match_id plan), t'))))"

section \<open>Evaluating a candidate\<close>

definition RECONCILE_INTERVAL_MS :: nat where "RECONCILE_INTERVAL_MS = 300000"

definition request_manifest ::
  "workflow_env \<Rightarrow> source_id \<Rightarrow> workflow_store \<Rightarrow> (workflow_error, unit) result \<times> workflow_store" where
  "request_manifest env source s =
     transaction env (RequestManifest source)
       (Inr ((), s\<lparr>ws_torrents := map (\<lambda>row. if qt_id row = source \<and> qt_manifest_state row = ''unloaded''
          then row\<lparr>qt_manifest_state := ''stale''\<rparr> else row) (ws_torrents s)\<rparr>)) s"

fun classify ::
  "workflow_env \<Rightarrow> torrent_manifest \<Rightarrow> loaded_source list \<Rightarrow> source_id list \<Rightarrow> local_source_manifest list \<Rightarrow> workflow_store \<Rightarrow>
   (workflow_error, source_id list \<times> local_source_manifest list) result \<times> workflow_store" where
  "classify env candidate [] waits available s = (Inr (waits, available), s)"
| "classify env candidate (source # sources) waits available s =
     (if \<not> lo_complete source then classify env candidate sources (waits @ [ls_id (lo_manifest source)]) available s
      else if lo_manifest_loaded source \<or> same_identity candidate (lo_manifest source)
      then classify env candidate sources waits (available @ [lo_manifest source]) s
      else and_do (request_manifest env (ls_id (lo_manifest source)) s) (\<lambda>_ t.
        classify env candidate sources (waits @ [ls_id (lo_manifest source)]) available t))"

definition wait_delay :: "int \<Rightarrow> int \<Rightarrow> nat" where
  "wait_delay stop now = min (nat (min (int i64_max) (stop - now))) RECONCILE_INTERVAL_MS"

definition conclude ::
  "workflow_env \<Rightarrow> workflow_input \<Rightarrow> loaded_candidate \<Rightarrow> source_id list \<Rightarrow> match_decision \<Rightarrow> workflow_store \<Rightarrow>
   (workflow_error, evaluation_result) result \<times> workflow_store" where
  "conclude env input loaded waits d s =
     (if md_outcome d = NoMatch \<and> waits \<noteq> []
      then case deadline loaded of
             Inl e \<Rightarrow> (Inl e, s)
           | Inr stop \<Rightarrow>
               if we_now env < stop
               then let source_ids = remdups_adj (sort waits)
                    in and_do (persist_waiting env input source_ids s) (\<lambda>_ t.
                       and_do (project_state env input ''waiting_for_source'' None False
                           (wc_waiting_detail (we_codec env) (length source_ids) stop) t) (\<lambda>_ t'.
                         (Inr (CandidateWaiting (wait_delay stop (we_now env)) source_ids), t')))
               else persist_terminal env input loaded (rejected_source_timeout d) s
      else persist_terminal env input loaded d s)"

definition evaluate_candidate ::
  "workflow_env \<Rightarrow> workflow_input \<Rightarrow> workflow_store \<Rightarrow> workflow_store \<Rightarrow>
   (workflow_error, evaluation_result) result \<times> workflow_store" where
  "evaluate_candidate env input seen s =
     (case load_candidate env input seen of
        Inl e \<Rightarrow> (Inl e, s)
      | Inr loaded \<Rightarrow>
          (case candidate_sources env (lc_manifest loaded) (lc_release loaded) (lc_policy loaded) seen s of
             Inl e \<Rightarrow> (Inl e, s)
           | Inr SourcesBudgetExceeded \<Rightarrow> persist_terminal env input loaded (matcher_budget_rejection loaded) s
           | Inr (SourcesLoaded sources) \<Rightarrow>
               and_do (classify env (lc_manifest loaded) sources [] [] s) (\<lambda>(waits, available) t.
                 case evaluate (we_unicode env)
                        \<lparr> mr_candidate = lc_manifest loaded, mr_candidate_release = lc_release loaded,
                          mr_sources = available, mr_policy = cp_matching (lc_policy loaded) \<rparr> of
                   None \<Rightarrow> (Inl WfPanic, t)
                 | Some d \<Rightarrow> conclude env input loaded waits d t)))"

section \<open>The workflow\<close>

definition MAX_WAITERS_PER_COMPLETION :: nat where "MAX_WAITERS_PER_COMPLETION = 1024"

definition waiting_candidate_instances :: "source_id \<Rightarrow> workflow_store \<Rightarrow> string list" where
  "waiting_candidate_instances source s =
     take MAX_WAITERS_PER_COMPLETION (sort (remdups (List.map_filter (\<lambda>w.
       if wt_source_id w \<noteq> source then None
       else Option.bind (st_tasks (cs_tasks (ws_intake s)) (wt_task_id w)) (\<lambda>task.
         if tk_terminal_at task = None then Some (tk_instance_id task) else None)) (ws_waiting s))))"

text \<open>Which errors the engine may deliver the evaluation again after.\<close>

definition retryable_workflow :: "workflow_error \<Rightarrow> bool" where
  "retryable_workflow e = (case e of WfDatabase \<Rightarrow> True | WfProjection ProjectionDatabase \<Rightarrow> True | _ \<Rightarrow> False)"

text \<open>
  The loop of the workflow.  A delivery of the evaluation reads the clock some time
  after it was scheduled, and has an environment and a store of its own: between two
  evaluations other parts of the service change the store.  The wait after an
  evaluation ends when the timer with the returned delay fires, or earlier with the
  event that a source was completed (\<open>select2\<close>), so the clock of the next evaluation
  is computed from the delay; the clock does not run backwards.  \<open>None\<close> means that the
  workflow is not over after the given waits and deliveries; the result of a workflow
  that stops is the last evaluation and the number of waits before it.
\<close>

datatype wake = TimerFired | SourceCompleted nat

type_synonym evaluation_delivery = "nat \<times> workflow_env \<times> workflow_store"

definition deliver_evaluation :: "workflow_input \<Rightarrow> evaluation_delivery \<Rightarrow> int \<Rightarrow> (workflow_error, evaluation_result) result \<times> int" where
  "deliver_evaluation input = (\<lambda>(late, env, s) clock.
     let now = clock + int late in (fst (evaluate_candidate (env\<lparr>we_now := now\<rparr>) input s s), now))"

definition woken :: "wake \<Rightarrow> nat \<Rightarrow> int \<Rightarrow> int" where
  "woken wake delay clock =
     clock + int (case wake of TimerFired \<Rightarrow> delay | SourceCompleted elapsed \<Rightarrow> min elapsed delay)"

fun candidate_loop ::
  "workflow_input \<Rightarrow> int \<Rightarrow> wake list \<Rightarrow> evaluation_delivery list \<Rightarrow> (nat \<times> (workflow_error, evaluation_result) result) option" where
  "candidate_loop input clock wakes deliveries =
     (case step_activity retryable_workflow (deliver_evaluation input) deliveries clock of
        None \<Rightarrow> None
      | Some (Inr (CandidateWaiting delay sources), now, rest) \<Rightarrow>
          (case wakes of
             [] \<Rightarrow> None
           | wake # wakes' \<Rightarrow>
               map_option (\<lambda>(n, r). (Suc n, r)) (candidate_loop input (woken wake delay now) wakes' rest))
      | Some (r, now, rest) \<Rightarrow> Some (0, r))"

declare candidate_loop.simps [simp del]


section \<open>Sequencing\<close>

lemma transaction_Inr [simp]:
  "transaction env statement r s = (Inr x, t) \<longleftrightarrow> \<not> we_fault env statement \<and> r = Inr (x, t)"
  by (auto simp: transaction_def split: sum.splits)

lemma and_do_Inr [simp]: "and_do r f = (Inr y, t) \<longleftrightarrow> (\<exists>x s'. r = (Inr x, s') \<and> f x s' = (Inr y, t))"
  by (auto simp: and_do_def split: prod.splits sum.splits)

lemma map_err_Inr [simp]: "map_err f r = Inr x \<longleftrightarrow> r = Inr x"
  by (cases r) (simp_all add: map_err_def)

lemma checked_i64_Inr [simp]: "checked_i64 field value = Inr x \<longleftrightarrow> value \<le> i64_max \<and> x = value"
  by (auto simp: checked_i64_def)

section \<open>The torrents that an evaluation asks for\<close>

definition staled :: "qbit_torrent_row \<Rightarrow> qbit_torrent_row \<Rightarrow> bool" where
  "staled row row' \<longleftrightarrow> row' = row \<or> qt_manifest_state row = ''unloaded'' \<and> row' = row\<lparr>qt_manifest_state := ''stale''\<rparr>"

definition asks :: "(qbit_torrent_row \<Rightarrow> qbit_torrent_row) \<Rightarrow> bool" where
  "asks f \<longleftrightarrow> (\<forall>row. staled row (f row))"

lemma asks_id: "asks (\<lambda>row. row)" by (simp add: asks_def staled_def)

lemma asks_comp:
  assumes "asks f" "asks g" shows "asks (\<lambda>row. g (f row))"
  unfolding asks_def
proof
  fix row
  have f: "staled row (f row)" and g: "staled (f row) (g (f row))" using assms by (simp_all add: asks_def)
  show "staled row (g (f row))"
  proof (cases "f row = row")
    case False
    then have "qt_manifest_state (f row) = ''stale''" using f by (auto simp: staled_def)
    then have "g (f row) = f row" using g by (simp add: staled_def)
    then show ?thesis using f by simp
  qed (use g in simp)
qed

lemma request_manifest_asks:
  assumes "request_manifest env source s = (r, t)"
  obtains f where "asks f" "t = s\<lparr>ws_torrents := map f (ws_torrents s)\<rparr>"
proof -
  let ?f = "\<lambda>row. if qt_id row = source \<and> qt_manifest_state row = ''unloaded'' then row\<lparr>qt_manifest_state := ''stale''\<rparr> else row"
  have f: "asks ?f" by (simp add: asks_def staled_def)
  have i: "s\<lparr>ws_torrents := map (\<lambda>row. row) (ws_torrents s)\<rparr> = s" by simp
  from assms have "t = s\<lparr>ws_torrents := map ?f (ws_torrents s)\<rparr> \<or> t = s"
    by (auto simp: request_manifest_def transaction_def split: if_splits)
  then show thesis using that [OF f] that [OF asks_id] i by auto
qed

lemma classify_Inr:
  assumes "classify env candidate sources waits available s = (Inr (waits', available'), t)"
  shows "waits' = waits @ map (\<lambda>x. ls_id (lo_manifest x)) (filter (\<lambda>x. \<not> usable candidate x) sources) \<and>
    available' = available @ map lo_manifest (filter (usable candidate) sources) \<and>
    (\<exists>f. asks f \<and> t = s\<lparr>ws_torrents := map f (ws_torrents s)\<rparr>)"
  using assms
proof (induction sources arbitrary: waits available s)
  case Nil
  have "s\<lparr>ws_torrents := map (\<lambda>row. row) (ws_torrents s)\<rparr> = s" by simp
  then show ?case using Nil asks_id by auto
next
  case (Cons x xs)
  show ?case
  proof (cases "lo_complete x \<and> \<not> (lo_manifest_loaded x \<or> same_identity candidate (lo_manifest x))")
    case True
    then obtain u where req: "request_manifest env (ls_id (lo_manifest x)) s = (Inr (), u)"
      and rest: "classify env candidate xs (waits @ [ls_id (lo_manifest x)]) available u = (Inr (waits', available'), t)"
      using Cons.prems by auto
    obtain f where f: "asks f" "u = s\<lparr>ws_torrents := map f (ws_torrents s)\<rparr>" by (rule request_manifest_asks [OF req])
    note ih = Cons.IH [OF rest]
    then obtain g where g: "asks g" "t = u\<lparr>ws_torrents := map g (ws_torrents u)\<rparr>" by blast
    have "t = s\<lparr>ws_torrents := map (\<lambda>row. g (f row)) (ws_torrents s)\<rparr>" using f(2) g(2) by (simp add: comp_def)
    moreover have "\<not> usable candidate x" using True by (simp add: usable_def)
    ultimately show ?thesis using ih asks_comp [OF f(1) g(1)] by auto
  next
    case False
    then have "usable candidate x = lo_complete x" by (auto simp: usable_def)
    then have "classify env candidate xs (if usable candidate x then waits else waits @ [ls_id (lo_manifest x)])
        (if usable candidate x then available @ [lo_manifest x] else available) s = (Inr (waits', available'), t)"
      using Cons.prems False by (cases "lo_complete x") auto
    from Cons.IH [OF this] show ?thesis by auto
  qed
qed

section \<open>Waiting\<close>

lemma insert_waiting_Inr:
  assumes "insert_waiting task now sources s = Inr t"
  shows "t = s\<lparr>ws_waiting := ws_waiting s @ map (\<lambda>source. \<lparr>wt_task_id = task, wt_source_id = source, wt_created_at = now\<rparr>) sources\<rparr>"
  using assms
proof (induction sources arbitrary: s)
  case (Cons source sources)
  from Cons.prems have "insert_waiting task now sources
      (s\<lparr>ws_waiting := ws_waiting s @ [\<lparr>wt_task_id = task, wt_source_id = source, wt_created_at = now\<rparr>]\<rparr>) = Inr t"
    by (simp split: if_splits)
  from Cons.IH [OF this] show ?case by simp
qed simp

lemma insert_waiting_ok:
  assumes "distinct sources" "\<forall>w \<in> set (ws_waiting s). wt_task_id w = task \<longrightarrow> wt_source_id w \<notin> set sources"
  shows "\<exists>t. insert_waiting task now sources s = Inr t"
  using assms by (induction sources arbitrary: s) (auto simp: list_ex_iff)

lemma waiting_rows:
  assumes "insert_waiting task now sources (delete_waiting task s) = Inr t"
  shows "map wt_source_id (filter (\<lambda>w. wt_task_id w = task) (ws_waiting t)) = sources"
    "filter (\<lambda>w. wt_task_id w \<noteq> task) (ws_waiting t) = filter (\<lambda>w. wt_task_id w \<noteq> task) (ws_waiting s)"
    "t = s\<lparr>ws_waiting := ws_waiting t\<rparr>"
  using insert_waiting_Inr [OF assms] by (simp_all add: delete_waiting_def filter_map comp_def)

lemma sorted_remdups_adj_distinct: "sorted xs \<Longrightarrow> distinct (remdups_adj xs)" for xs :: "'a :: linorder list"
proof (induction xs rule: remdups_adj.induct)
  case (3 x y xs)
  then show ?case by (cases "x = y") (auto simp: not_le dest: order_antisym)
qed simp_all

lemma remdups_adj_sort: "set (remdups_adj (sort xs)) = set xs" "sorted (remdups_adj (sort xs))" "distinct (remdups_adj (sort xs))"
  for xs :: "'a :: linorder list"
  by (simp_all add: sorted_remdups_adj_distinct)

lemma wait_delay_bounds:
  assumes "now < stop" shows "0 < wait_delay stop now" "wait_delay stop now \<le> 300000" "now + int (wait_delay stop now) \<le> stop"
proof -
  define d where "d = min (int i64_max) (stop - now)"
  have "0 < d" "d \<le> stop - now" using assms by (simp_all add: d_def)
  then show "0 < wait_delay stop now" "wait_delay stop now \<le> 300000" "now + int (wait_delay stop now) \<le> stop"
    unfolding wait_delay_def d_def [symmetric] RECONCILE_INTERVAL_MS_def by auto
qed


section \<open>The cases of an evaluation\<close>

definition request_of_sources :: "loaded_candidate \<Rightarrow> loaded_source list \<Rightarrow> match_request" where
  "request_of_sources loaded sources =
     \<lparr> mr_candidate = lc_manifest loaded, mr_candidate_release = lc_release loaded,
       mr_sources = map lo_manifest (filter (usable (lc_manifest loaded)) sources), mr_policy = cp_matching (lc_policy loaded) \<rparr>"

definition pending_ids :: "loaded_candidate \<Rightarrow> loaded_source list \<Rightarrow> source_id list" where
  "pending_ids loaded sources =
     map (\<lambda>x. ls_id (lo_manifest x)) (filter (\<lambda>x. \<not> usable (lc_manifest loaded) x) sources)"

text \<open>The decision that an evaluation reaches, when the sources are loaded.\<close>

lemma evaluate_candidate_cases:
  assumes "evaluate_candidate env input seen s = (Inr r, t)"
  obtains
    (budget) loaded where "load_candidate env input seen = Inr loaded"
      "candidate_sources env (lc_manifest loaded) (lc_release loaded) (lc_policy loaded) seen s = Inr SourcesBudgetExceeded"
      "persist_terminal env input loaded (matcher_budget_rejection loaded) s = (Inr r, t)"
  | (evaluated) loaded sources f d where "load_candidate env input seen = Inr loaded"
      "candidate_sources env (lc_manifest loaded) (lc_release loaded) (lc_policy loaded) seen s = Inr (SourcesLoaded sources)"
      "asks f" "evaluate (we_unicode env) (request_of_sources loaded sources) = Some d"
      "classify env (lc_manifest loaded) sources [] [] s
        = (Inr (pending_ids loaded sources, map lo_manifest (filter (usable (lc_manifest loaded)) sources)),
           s\<lparr>ws_torrents := map f (ws_torrents s)\<rparr>)"
      "conclude env input loaded (pending_ids loaded sources) d (s\<lparr>ws_torrents := map f (ws_torrents s)\<rparr>) = (Inr r, t)"
proof (cases "load_candidate env input seen")
  case (Inr loaded)
  note l = Inr
  show thesis
  proof (cases "candidate_sources env (lc_manifest loaded) (lc_release loaded) (lc_policy loaded) seen s")
    case (Inr x)
    show thesis
    proof (cases x)
      case (SourcesLoaded sources)
      from assms Inr obtain waits available u where c: "classify env (lc_manifest loaded) sources [] [] s = (Inr (waits, available), u)"
        and e: "(case evaluate (we_unicode env) \<lparr> mr_candidate = lc_manifest loaded, mr_candidate_release = lc_release loaded,
            mr_sources = available, mr_policy = cp_matching (lc_policy loaded) \<rparr> of
          None \<Rightarrow> (Inl WfPanic, u) | Some d \<Rightarrow> conclude env input loaded waits d u) = (Inr r, t)"
        by (auto simp: evaluate_candidate_def l SourcesLoaded)
      from classify_Inr [OF c] obtain f where w: "waits = pending_ids loaded sources"
        "available = map lo_manifest (filter (usable (lc_manifest loaded)) sources)" "asks f" "u = s\<lparr>ws_torrents := map f (ws_torrents s)\<rparr>"
        by (auto simp: pending_ids_def)
      from e obtain d where d: "evaluate (we_unicode env) (request_of_sources loaded sources) = Some d"
        "conclude env input loaded waits d u = (Inr r, t)" by (auto simp: request_of_sources_def w(2) split: option.splits)
      show thesis by (rule evaluated [OF l _ w(3) d(1)]) (use Inr SourcesLoaded c d(2) w in simp_all)
    next
      case SourcesBudgetExceeded
      then show thesis using assms l Inr by (intro budget [OF l]) (simp_all add: evaluate_candidate_def)
    qed
  qed (use assms l in \<open>simp add: evaluate_candidate_def\<close>)
qed (use assms in \<open>simp add: evaluate_candidate_def\<close>)

lemma persist_terminal_result:
  assumes "persist_terminal env input loaded d s = (Inr r, t)"
  shows "\<exists>plan. r = CandidateTerminal (terminal_state d (ij_dry_run (cp_injection (lc_policy loaded)))) (reason_text (md_reason d))
    (match_identity (we_codec env) input loaded d) plan"
  using assms by (auto simp: persist_terminal_def Let_def)

lemma conclude_waiting:
  assumes "conclude env input loaded waits d s = (Inr (CandidateWaiting delay source_ids), t)"
  obtains stop u where "deadline loaded = Inr stop" "we_now env < stop" "delay = wait_delay stop (we_now env)"
    "source_ids = remdups_adj (sort waits)" "waits \<noteq> []" "md_outcome d = NoMatch" "persist_waiting env input source_ids s = (Inr (), u)"
    "project_state env input ''waiting_for_source'' None False (wc_waiting_detail (we_codec env) (length source_ids) stop) u
      = (Inr (), t)"
proof (cases "md_outcome d = NoMatch \<and> waits \<noteq> []")
  case True
  obtain stop where stop: "deadline loaded = Inr stop" using assms True by (cases "deadline loaded") (auto simp: conclude_def)
  show thesis
  proof (cases "we_now env < stop")
    case now: True
    then show thesis using that assms True stop by (auto simp: conclude_def Let_def)
  next
    case False
    then show thesis using assms True stop persist_terminal_result by (fastforce simp: conclude_def)
  qed
next
  case False
  then have "persist_terminal env input loaded d s = (Inr (CandidateWaiting delay source_ids), t)"
    using assms unfolding conclude_def by (simp only: if_False)
  then show thesis using persist_terminal_result by blast
qed

lemma project_state_frame:
  assumes "project_state env input state reason terminal detail s = (Inr (), t)"
  obtains tasks where "project_candidate_task (wc_codec (we_codec env)) (wi_task_id input) state reason terminal detail
      (we_now env) (cs_tasks (ws_intake s)) = Inr tasks" "t = s\<lparr>ws_intake := (ws_intake s)\<lparr>cs_tasks := tasks\<rparr>\<rparr>"
  using assms by (auto simp: project_state_def)

lemma set_candidate_state_frame [simp]:
  "ws_waiting (set_candidate_state candidate state now s) = ws_waiting s" "ws_matches (set_candidate_state candidate state now s) = ws_matches s"
  "ws_plans (set_candidate_state candidate state now s) = ws_plans s" "ws_mappings (set_candidate_state candidate state now s) = ws_mappings s"
  "ws_torrents (set_candidate_state candidate state now s) = ws_torrents s" "ws_files (set_candidate_state candidate state now s) = ws_files s"
  "cs_tasks (ws_intake (set_candidate_state candidate state now s)) = cs_tasks (ws_intake s)"
  by (simp_all add: set_candidate_state_def)

lemma waiting_instance_listed:
  assumes "w \<in> set (ws_waiting s)" "wt_source_id w = source" "st_tasks (cs_tasks (ws_intake s)) (wt_task_id w) = Some task"
    and "tk_terminal_at task = None"
  shows "tk_instance_id task \<in> set (waiting_candidate_instances source s) \<or> length (waiting_candidate_instances source s) = 1024"
proof -
  define ids where "ids = List.map_filter (\<lambda>w. if wt_source_id w \<noteq> source then None
       else Option.bind (st_tasks (cs_tasks (ws_intake s)) (wt_task_id w)) (\<lambda>task.
         if tk_terminal_at task = None then Some (tk_instance_id task) else None)) (ws_waiting s)"
  have mem: "tk_instance_id task \<in> set (sort (remdups ids))"
    unfolding ids_def map_filter_def using assms by (auto intro!: image_eqI [of _ _ w])
  have eq: "waiting_candidate_instances source s = take 1024 (sort (remdups ids))"
    by (simp add: waiting_candidate_instances_def ids_def MAX_WAITERS_PER_COMPLETION_def)
  show ?thesis
  proof (cases "length (sort (remdups ids)) \<le> 1024")
    case True
    then show ?thesis unfolding eq using mem by (simp del: set_sort length_sort)
  next
    case False
    then show ?thesis unfolding eq by simp
  qed
qed


section \<open>Examples\<close>

definition sample_workflow_input :: workflow_input where
  "sample_workflow_input = \<lparr> wi_task_id = ''t'', wi_candidate_id = ''cc'', wi_policy_snapshot_id = ''p'' \<rparr>"

definition sample_intake :: candidate_store where
  "sample_intake =
     \<lparr> cs_blobs = Map.empty,
       cs_candidates = [''cc'' \<mapsto> \<lparr> cr_blob_sha256 = ''b'', cr_hashes = \<lparr>ih_v1 = Some ''c'', ih_v2 = None\<rparr>, cr_manifest_digest = ''d'',
         cr_display_name = ''a'', cr_release_json = ''r'', cr_state = ''received'', cr_created_at = 0, cr_updated_at = 0, cr_manifest_json = Some ''m'' \<rparr>],
       cs_candidate_tasks = [(''cc'', ''p'') \<mapsto> ''t''],
       cs_provenance = [\<lparr> pv_candidate_id = ''cc'', pv_trigger = ''announce'', pv_indexer_id = None, pv_indexer_name = None,
         pv_announcement_name = None, pv_request_id = ''q'', pv_received_at = 0, pv_detail_json = ''{}'' \<rparr>],
       cs_tasks = sample_store \<rparr>"

definition sample_loaded_candidate :: loaded_candidate where
  "sample_loaded_candidate =
     \<lparr> lc_id = ''cc'', lc_manifest = mr_candidate sample_request, lc_release = unknown (NormalizedTitle ''a''), lc_policy = sample_policy,
       lc_created_at = 0, lc_trigger = ''announce'', lc_indexer_id = None, lc_indexer_name = None \<rparr>"

lemma sample_load_candidate:
  assumes "ws_intake s = sample_intake"
  shows "load_candidate (sample_workflow_env now) sample_workflow_input s = Inr sample_loaded_candidate"
  by (simp add: load_candidate_def assms candidate_join_def sample_intake_def sample_workflow_input_def sample_store_def
      sample_workflow_env_def query_def sample_workflow_codec_def sample_loaded_candidate_def)

lemma sample_deadline: "deadline sample_loaded_candidate = Inr 600000"
  by (simp add: deadline_def checked_i64_def sample_loaded_candidate_def sample_policy_def)

definition pending_torrent :: qbit_torrent_row where
  "pending_torrent = \<lparr> qt_id = ''ssssssssssssssss'', qt_v1_hash = Some (replicate 20 CHR ''h''), qt_v2_hash = None, qt_category = [],
     qt_tags_json = ''[]'', qt_is_complete = False, qt_available = True, qt_manifest_version = 0, qt_manifest_state = ''unloaded'',
     qt_release_json = Some ''r'' \<rparr>"

definition pending_workflow_store :: workflow_store where
  "pending_workflow_store = (sample_workflow_store sample_intake)\<lparr>ws_torrents := [pending_torrent], ws_data := [],
     ws_titles := [\<lparr>ti_source_id = ''ssssssssssssssss'', ti_source_type = ''qbittorrent'', ti_normalized_title = ''a''\<rparr>]\<rparr>"

definition pending_source :: loaded_source where
  "pending_source = \<lparr> lo_complete = False, lo_manifest_loaded = False, lo_manifest_version = 0, lo_file_count = 0,
     lo_manifest = \<lparr> ls_id = ''ssssssssssssssss'', ls_kind = QbittorrentTorrent, ls_release = unknown (NormalizedTitle ''a''),
       ls_hashes = \<lparr>ih_v1 = Some (replicate 20 CHR ''h''), ih_v2 = None\<rparr>, ls_files = [], ls_available = True \<rparr> \<rparr>"

lemma pending_candidate_sources:
  "candidate_sources (sample_workflow_env now) (mr_candidate sample_request) (unknown (NormalizedTitle ''a'')) sample_policy
     pending_workflow_store pending_workflow_store = Inr (SourcesLoaded [pending_source])"
proof -
  let ?s = pending_workflow_store
  have rows: "torrent_rows sample_workflow_codec ?s (unknown (NormalizedTitle ''a'')) (cp_source_filters sample_policy) = [pending_torrent]"
    by (simp add: torrent_rows_def pending_workflow_store_def pending_torrent_def source_reduction_def reduction_titles_def unknown_def
        filters_admit_def sample_policy_def sample_ingress_def sample_workflow_codec_def MAX_PLAUSIBLE_SOURCES_def)
  have source: "torrent_source sample_workflow_codec ?s pending_torrent = Inr pending_source"
    by (simp add: torrent_source_def pending_torrent_def fixed_bytes_def read_release_def optional_bytes_def sample_workflow_codec_def
        file_rows_def pending_workflow_store_def sample_workflow_store_def sample_file_row_def pending_source_def)
  have data: "data_rows ?s release n = []" for release n by (simp add: data_rows_def pending_workflow_store_def)
  have "\<not> needs_files (mr_candidate sample_request) pending_source" by (simp add: needs_files_def pending_source_def)
  then show ?thesis
    using rows source data
    by (simp add: candidate_sources_def Let_def sample_workflow_env_def query_def)
qed

lemma sample_evaluate_nothing:
  "\<exists>d. evaluate ascii_unicode (sample_request\<lparr>mr_sources := []\<rparr>) = Some d \<and> md_outcome d = NoMatch"
proof -
  have v: "validate_manifest ascii_unicode (mr_candidate sample_request) = None"
    by (simp add: sample_request_def validate_manifest_def unsafe_path_def ascii_unicode_def get_def)
  have b: "\<not> input_budget_exceeded (sample_request\<lparr>mr_sources := []\<rparr>)"
    by (simp add: sample_request_def input_budget_exceeded_def default_budgets)
  have k: "rd_kind (mr_candidate_release sample_request) \<noteq> SeasonPack" by (simp add: sample_request_def unknown_def)
  show ?thesis using v b k by (simp add: evaluate_def Let_def finish_def choose_decision_def no_match_def)
qed

lemma pending_request: "request_of_sources sample_loaded_candidate [pending_source] = sample_request\<lparr>mr_sources := []\<rparr>"
  by (simp add: request_of_sources_def usable_def pending_source_def sample_loaded_candidate_def sample_request_def sample_policy_def)

lemma pending_evaluation:
  assumes "now < 600000"
  shows "\<exists>t. evaluate_candidate (sample_workflow_env now) sample_workflow_input pending_workflow_store pending_workflow_store
    = (Inr (CandidateWaiting (wait_delay 600000 now) [''ssssssssssssssss'']), t)"
proof -
  obtain d where d: "evaluate ascii_unicode (sample_request\<lparr>mr_sources := []\<rparr>) = Some d" "md_outcome d = NoMatch"
    using sample_evaluate_nothing by blast
  have l: "load_candidate (sample_workflow_env now) sample_workflow_input pending_workflow_store = Inr sample_loaded_candidate"
    by (rule sample_load_candidate) (simp add: pending_workflow_store_def sample_workflow_store_def)
  have c: "lc_manifest sample_loaded_candidate = mr_candidate sample_request" "lc_release sample_loaded_candidate = unknown (NormalizedTitle ''a'')"
    "lc_policy sample_loaded_candidate = sample_policy" by (simp_all add: sample_loaded_candidate_def)
  have r: "\<lparr> mr_candidate = mr_candidate sample_request, mr_candidate_release = unknown (NormalizedTitle ''a''), mr_sources = [],
      mr_policy = cp_matching sample_policy \<rparr> = sample_request\<lparr>mr_sources := []\<rparr>"
    by (simp add: sample_request_def sample_policy_def)
  have u: "we_unicode (sample_workflow_env now) = ascii_unicode" "we_now (sample_workflow_env now) = now"
    by (simp_all add: sample_workflow_env_def)
  have p: "\<not> lo_complete pending_source" "ls_id (lo_manifest pending_source) = ''ssssssssssssssss''" by (simp_all add: pending_source_def)
  obtain w where w: "persist_waiting (sample_workflow_env now) sample_workflow_input [''ssssssssssssssss''] pending_workflow_store = (Inr (), w)"
    "cs_tasks (ws_intake w) = sample_store"
    by (simp add: persist_waiting_def transaction_def sample_workflow_env_def delete_waiting_def pending_workflow_store_def
        sample_workflow_store_def) (simp add: sample_intake_def)
  obtain t where t: "project_state (sample_workflow_env now) sample_workflow_input ''waiting_for_source'' None False ''{}'' w = (Inr (), t)"
    by (simp add: project_state_def transaction_def w(2) sample_workflow_env_def sample_workflow_codec_def sample_candidate_codec_def
        sample_workflow_input_def project_candidate_task_def sample_store_def project_task_def validate_update_def apply_projection_def
        row_of_def queued_row_def checked_add_def add_event_def set_task_def map_err_def)
  have detail: "wc_waiting_detail (we_codec (sample_workflow_env now)) n stop = ''{}''" for n stop
    by (simp add: sample_workflow_env_def sample_workflow_codec_def)
  show ?thesis
    using assms unfolding evaluate_candidate_def l sum.case c pending_candidate_sources candidate_sources_result.case
    by (simp add: p and_do_def u r d conclude_def sample_deadline w(1) detail t)
qed


section \<open>Properties\<close>

text \<open>
  C22: A candidate that waits is registered for its wake-up.  An evaluation answers
  that it waits only before the deadline, with a delay of at most five minutes that
  does not pass the deadline and a sorted, duplicate-free list of sources; the
  waiting rows of its task are then exactly these sources, the rows of other tasks,
  the matches and the plans are as before, and the completion of each of these
  sources finds the instance of the task, unless 1024 other instances wait for it.
\<close>

theorem waiting_is_registered:
  assumes "evaluate_candidate env input seen s = (Inr (CandidateWaiting delay source_ids), t)"
  shows "(\<exists>loaded stop. load_candidate env input seen = Inr loaded \<and> deadline loaded = Inr stop \<and> we_now env + int delay \<le> stop) \<and>
    0 < delay \<and> delay \<le> 300000 \<and> source_ids \<noteq> [] \<and> sorted source_ids \<and> distinct source_ids \<and>
    map wt_source_id (filter (\<lambda>w. wt_task_id w = wi_task_id input) (ws_waiting t)) = source_ids \<and>
    filter (\<lambda>w. wt_task_id w \<noteq> wi_task_id input) (ws_waiting t) = filter (\<lambda>w. wt_task_id w \<noteq> wi_task_id input) (ws_waiting s) \<and>
    ws_matches t = ws_matches s \<and> ws_mappings t = ws_mappings s \<and> ws_plans t = ws_plans s \<and>
    (\<forall>source \<in> set source_ids. \<forall>task.
       st_tasks (cs_tasks (ws_intake t)) (wi_task_id input) = Some task \<and> tk_terminal_at task = None \<longrightarrow>
       tk_instance_id task \<in> set (waiting_candidate_instances source t) \<or> length (waiting_candidate_instances source t) = 1024)"
proof (rule evaluate_candidate_cases [OF assms])
  fix loaded assume "persist_terminal env input loaded (matcher_budget_rejection loaded) s
    = (Inr (CandidateWaiting delay source_ids), t)"
  then show ?thesis using persist_terminal_result by blast
next
  fix loaded sources f d
  assume l: "load_candidate env input seen = Inr loaded"
    and "conclude env input loaded (pending_ids loaded sources) d (s\<lparr>ws_torrents := map f (ws_torrents s)\<rparr>)
      = (Inr (CandidateWaiting delay source_ids), t)"
  then obtain stop u where w: "deadline loaded = Inr stop" "we_now env < stop" "delay = wait_delay stop (we_now env)"
      "source_ids = remdups_adj (sort (pending_ids loaded sources))" "pending_ids loaded sources \<noteq> []"
      "persist_waiting env input source_ids (s\<lparr>ws_torrents := map f (ws_torrents s)\<rparr>) = (Inr (), u)"
      "project_state env input ''waiting_for_source'' None False (wc_waiting_detail (we_codec env) (length source_ids) stop) u
        = (Inr (), t)" by (elim conclude_waiting)
  obtain v where v: "insert_waiting (wi_task_id input) (we_now env) source_ids
      (delete_waiting (wi_task_id input) (s\<lparr>ws_torrents := map f (ws_torrents s)\<rparr>)) = Inr v"
      "u = set_candidate_state (wi_candidate_id input) ''waiting_for_source'' (we_now env) v"
    using w(6) by (auto simp: persist_waiting_def)
  note rows = waiting_rows [OF v(1)]
  obtain tasks where tasks: "t = u\<lparr>ws_intake := (ws_intake u)\<lparr>cs_tasks := tasks\<rparr>\<rparr>" by (rule project_state_frame [OF w(7)])
  have same: "ws_waiting t = ws_waiting v" "ws_matches t = ws_matches v" "ws_mappings t = ws_mappings v" "ws_plans t = ws_plans v"
    by (simp_all add: tasks v(2))
  have frame: "ws_matches v = ws_matches s" "ws_mappings v = ws_mappings s" "ws_plans v = ws_plans s"
    by (subst rows(3), simp)+
  have ids: "source_ids \<noteq> []" "sorted source_ids" "distinct source_ids"
    using w(4,5) remdups_adj_sort [of "pending_ids loaded sources"] by (metis set_empty, simp, simp)
  have listed: "\<forall>source \<in> set source_ids. \<exists>x \<in> set (ws_waiting t). wt_source_id x = source \<and> wt_task_id x = wi_task_id input"
    using rows(1) unfolding same(1) by (force simp flip: rows(1))
  have wake: "\<forall>source \<in> set source_ids. \<forall>task. st_tasks (cs_tasks (ws_intake t)) (wi_task_id input) = Some task \<and> tk_terminal_at task = None \<longrightarrow>
       tk_instance_id task \<in> set (waiting_candidate_instances source t) \<or> length (waiting_candidate_instances source t) = 1024"
    using listed waiting_instance_listed by metis
  have bounds: "0 < delay" "delay \<le> 300000" "we_now env + int delay \<le> stop" using wait_delay_bounds [OF w(2)] w(3) by simp_all
  show ?thesis using l w(1) bounds ids rows(1,2) wake by (intro conjI exI [of _ loaded] exI [of _ stop]) (simp_all add: same frame)
qed

theorem waiting_is_registered_witness:
  "\<exists>t. evaluate_candidate (sample_workflow_env 0) sample_workflow_input pending_workflow_store pending_workflow_store
      = (Inr (CandidateWaiting 300000 [''ssssssssssssssss'']), t) \<and> ws_plans t = Map.empty"
proof -
  have d: "wait_delay 600000 0 = 300000" by (simp add: wait_delay_def RECONCILE_INTERVAL_MS_def)
  obtain t where t: "evaluate_candidate (sample_workflow_env 0) sample_workflow_input pending_workflow_store pending_workflow_store
      = (Inr (CandidateWaiting 300000 [''ssssssssssssssss'']), t)" using pending_evaluation [of 0] unfolding d by auto
  have "ws_plans pending_workflow_store = Map.empty" by (simp add: pending_workflow_store_def sample_workflow_store_def)
  then show ?thesis using waiting_is_registered [OF t] t by auto
qed

lemma waits_before_deadline:
  assumes "evaluate_candidate env input seen s = (Inr (CandidateWaiting delay source_ids), t)"
    and "\<forall>loaded. load_candidate env input seen = Inr loaded \<longrightarrow> deadline loaded = Inr stop"
  shows "we_now env < stop \<and> delay = wait_delay stop (we_now env)"
proof (rule evaluate_candidate_cases [OF assms(1)])
  fix loaded assume "persist_terminal env input loaded (matcher_budget_rejection loaded) s = (Inr (CandidateWaiting delay source_ids), t)"
  then show ?thesis using persist_terminal_result by blast
next
  fix loaded xs f d
  assume l: "load_candidate env input seen = Inr loaded"
    and "conclude env input loaded (pending_ids loaded xs) d (s\<lparr>ws_torrents := map f (ws_torrents s)\<rparr>)
      = (Inr (CandidateWaiting delay source_ids), t)"
  then obtain stop' where "deadline loaded = Inr stop'" "we_now env < stop'" "delay = wait_delay stop' (we_now env)"
    by (elim conclude_waiting)
  then show ?thesis using assms(2) l by simp
qed

definition rounds_left :: "int \<Rightarrow> int \<Rightarrow> nat" where
  "rounds_left stop now = (if stop \<le> now then 0 else nat (stop - now) div 300000 + 1)"

lemma rounds_left_step:
  assumes "now < stop" "min stop (now + 300000) \<le> later"
  shows "rounds_left stop later < rounds_left stop now"
proof (cases "stop \<le> later")
  case False
  then have k: "nat (stop - later) \<le> nat (stop - now) - 300000" "300000 \<le> nat (stop - now)" using assms(2) by auto
  then have "nat (stop - later) div 300000 \<le> (nat (stop - now) - 300000) div 300000" by (intro div_le_mono)
  then have "nat (stop - later) div 300000 < nat (stop - now) div 300000" using k(2) le_div_geq [of 300000 "nat (stop - now)"] by simp
  then show ?thesis using assms(1) False by (simp add: rounds_left_def)
qed (use assms(1) in \<open>simp add: rounds_left_def\<close>)

lemma rounds_left_later: "now \<le> later \<Longrightarrow> rounds_left stop later \<le> rounds_left stop now"
  by (auto simp: rounds_left_def intro!: div_le_mono)

lemma load_candidate_clock [simp]: "load_candidate (env\<lparr>we_now := now\<rparr>) input s = load_candidate env input s"
  by (simp add: load_candidate_def query_def)

interpretation evaluating: delivery_potential "deliver_evaluation input" "rounds_left stop" "\<lambda>_. 0" for input stop
  by unfold_locales (auto simp: deliver_evaluation_def Let_def intro: rounds_left_later)

text \<open>A wait that ends with the timer uses up one of the rounds; an early wake uses up none and gives none back.\<close>

lemma woken_rounds:
  assumes "now < stop"
  shows "rounds_left stop (woken wake (wait_delay stop now) now) \<le> rounds_left stop now - (if wake = TimerFired then 1 else 0)"
proof (cases wake)
  case TimerFired
  have "min stop (now + 300000) \<le> now + int (wait_delay stop now)"
    using assms by (auto simp: wait_delay_def RECONCILE_INTERVAL_MS_def min_def)
  from rounds_left_step [OF assms this] show ?thesis by (simp add: TimerFired woken_def)
next
  case (SourceCompleted elapsed)
  then show ?thesis by (simp add: woken_def rounds_left_later)
qed

definition deadline_fixed :: "workflow_input \<Rightarrow> int \<Rightarrow> evaluation_delivery list \<Rightarrow> bool" where
  "deadline_fixed input stop deliveries \<longleftrightarrow>
     (\<forall>(late, env, s) \<in> set deliveries. \<forall>loaded. load_candidate env input s = Inr loaded \<longrightarrow> deadline loaded = Inr stop)"

lemma waiting_delivery:
  assumes "deliver_evaluation input d clock = (Inr (CandidateWaiting delay sources), now)" and "deadline_fixed input stop (xs @ d # ys)"
  shows "now < stop \<and> delay = wait_delay stop now"
proof -
  obtain late env s where d: "d = (late, env, s)" by (cases d)
  then obtain t where "evaluate_candidate (env\<lparr>we_now := now\<rparr>) input s s = (Inr (CandidateWaiting delay sources), t)"
    using assms(1) by (cases "evaluate_candidate (env\<lparr>we_now := now\<rparr>) input s s") (auto simp: deliver_evaluation_def Let_def)
  from waits_before_deadline [OF this, of stop] show ?thesis using assms(2) by (auto simp: deadline_fixed_def d)
qed

lemma evaluation_round:
  assumes "deadline_fixed input stop deliveries" and "5 \<le> length deliveries"
  obtains r now rest where "step_activity retryable_workflow (deliver_evaluation input) deliveries clock = Some (r, now, rest)"
    "deadline_fixed input stop rest" "length deliveries \<le> length rest + 5" "rounds_left stop now \<le> rounds_left stop clock"
    "\<And>delay sources. r = Inr (CandidateWaiting delay sources) \<Longrightarrow> now < stop \<and> delay = wait_delay stop now"
proof -
  have "0 < ACTIVITY_ATTEMPTS" "ACTIVITY_ATTEMPTS \<le> length deliveries" using assms(2) by (simp_all add: ACTIVITY_ATTEMPTS_def)
  from with_retry_returns [OF this, of retryable_workflow "deliver_evaluation input" clock] obtain failed d rest r now where
    run: "step_activity retryable_workflow (deliver_evaluation input) deliveries clock = Some (r, now, rest)"
    and split: "deliveries = failed @ d # rest" and few: "length failed < ACTIVITY_ATTEMPTS"
    and last: "deliver_evaluation input d (after_deliveries (deliver_evaluation input) failed clock) = (r, now)" by metis
  let ?u = "after_deliveries (deliver_evaluation input) failed clock"
  have "rounds_left stop ?u \<le> rounds_left stop clock"
    using evaluating.failed_deliveries [of stop input failed clock] by (simp add: map_replicate_const sum_list_replicate)
  moreover have "rounds_left stop now \<le> rounds_left stop ?u" using evaluating.delivery [of stop input d ?u] last by simp
  ultimately have left: "rounds_left stop now \<le> rounds_left stop clock" by simp
  have fixed: "deadline_fixed input stop rest" using assms(1) by (simp add: split deadline_fixed_def)
  have "length deliveries \<le> length rest + 5" using few by (simp add: split ACTIVITY_ATTEMPTS_def)
  then show thesis using that run fixed left waiting_delivery [OF _ assms(1) [unfolded split]] last by metis
qed

lemma candidate_loop_ends:
  assumes "deadline_fixed input stop deliveries" and "rounds_left stop clock \<le> length (filter ((=) TimerFired) wakes)"
    and "5 * (length wakes + 1) \<le> length deliveries"
  shows "\<exists>n r. candidate_loop input clock wakes deliveries = Some (n, r) \<and> n \<le> length wakes \<and>
    length (filter ((=) TimerFired) (take n wakes)) \<le> rounds_left stop clock \<and>
    (\<forall>delay sources. r \<noteq> Inr (CandidateWaiting delay sources))"
  using assms
proof (induction wakes arbitrary: clock deliveries)
  case Nil
  obtain r now rest where run: "step_activity retryable_workflow (deliver_evaluation input) deliveries clock = Some (r, now, rest)"
    and "deadline_fixed input stop rest" "length deliveries \<le> length rest + 5"
    and left: "rounds_left stop now \<le> rounds_left stop clock"
    and waits: "\<And>delay sources. r = Inr (CandidateWaiting delay sources) \<Longrightarrow> now < stop \<and> delay = wait_delay stop now"
    by (rule evaluation_round [OF Nil.prems(1), of clock]) (use Nil.prems(3) in simp, rule that)
  have "rounds_left stop now = 0" using left Nil.prems(2) by simp
  then have "\<not> now < stop" by (simp add: rounds_left_def split: if_splits)
  then have "\<forall>delay sources. r \<noteq> Inr (CandidateWaiting delay sources)" using waits by blast
  then show ?case by (subst candidate_loop.simps) (auto simp: run split: sum.split evaluation_result.split)
next
  case (Cons wake wakes)
  obtain r now rest where run: "step_activity retryable_workflow (deliver_evaluation input) deliveries clock = Some (r, now, rest)"
    and rest: "deadline_fixed input stop rest" "length deliveries \<le> length rest + 5"
    and left: "rounds_left stop now \<le> rounds_left stop clock"
    and waits: "\<And>delay sources. r = Inr (CandidateWaiting delay sources) \<Longrightarrow> now < stop \<and> delay = wait_delay stop now"
    by (rule evaluation_round [OF Cons.prems(1), of clock]) (use Cons.prems(3) in simp, rule that)
  show ?case
  proof (cases "\<exists>delay sources. r = Inr (CandidateWaiting delay sources)")
    case False
    then have "candidate_loop input clock (wake # wakes) deliveries = Some (0, r)"
      by (subst candidate_loop.simps) (auto simp: run split: sum.split evaluation_result.split)
    then show ?thesis using False by auto
  next
    case True
    then obtain delay sources where r: "r = Inr (CandidateWaiting delay sources)" by blast
    let ?k = "if wake = TimerFired then 1 else 0"
    have now: "now < stop" "delay = wait_delay stop now" using waits [OF r] by simp_all
    have step: "rounds_left stop (woken wake delay now) \<le> rounds_left stop clock - ?k" "?k \<le> rounds_left stop clock"
      using woken_rounds [OF now(1), of wake] left now by (auto simp: rounds_left_def split: if_splits)
    have "rounds_left stop (woken wake delay now) \<le> length (filter ((=) TimerFired) wakes)"
      using step Cons.prems(2) by (auto split: if_splits)
    moreover have "5 * (length wakes + 1) \<le> length rest" using rest(2) Cons.prems(3) by simp
    ultimately obtain n r' where "candidate_loop input (woken wake delay now) wakes rest = Some (n, r')" "n \<le> length wakes"
      "length (filter ((=) TimerFired) (take n wakes)) \<le> rounds_left stop (woken wake delay now)"
      "\<forall>delay sources. r' \<noteq> Inr (CandidateWaiting delay sources)" using Cons.IH [OF rest(1)] by blast
    then show ?thesis using step by (subst candidate_loop.simps) (auto simp: run r split: if_splits)
  qed
qed

text \<open>
  C14: The workflow does not wait for ever.  A workflow whose deadline is \<open>stop\<close> ends,
  with a result or an error, before more waits end with the timer than there are full
  five minutes until the deadline and one more.  The waits are as long as the
  evaluation asked for; in between it may be woken early by completed sources any number
  of times, and every evaluation may be delivered up to five times.  (The deadline
  follows from the creation time and the pinned policy of the candidate, which never
  change.)
\<close>

theorem candidate_workflow_ends:
  assumes "deadline_fixed input stop deliveries"
    and "nat (stop - clock) div 300000 + 1 \<le> length (filter ((=) TimerFired) wakes)"
    and "5 * (length wakes + 1) \<le> length deliveries"
  shows "\<exists>n r. candidate_loop input clock wakes deliveries = Some (n, r) \<and> n \<le> length wakes \<and>
    length (filter ((=) TimerFired) (take n wakes)) \<le> nat (stop - clock) div 300000 + 1 \<and>
    (\<forall>delay sources. r \<noteq> Inr (CandidateWaiting delay sources))"
proof -
  have b: "rounds_left stop clock \<le> nat (stop - clock) div 300000 + 1" by (simp add: rounds_left_def)
  then have "rounds_left stop clock \<le> length (filter ((=) TimerFired) wakes)" using assms(2) by simp
  from candidate_loop_ends [OF assms(1) this assms(3)] show ?thesis using b by (meson le_trans)
qed

theorem candidate_workflow_ends_witness:
  "\<exists>n r. candidate_loop sample_workflow_input 0 [TimerFired, SourceCompleted 7, TimerFired, TimerFired]
      (replicate 25 (0, sample_workflow_env 0, pending_workflow_store)) = Some (n, r) \<and>
     (\<forall>delay sources. r \<noteq> Inr (CandidateWaiting delay sources))"
proof -
  let ?wakes = "[TimerFired, SourceCompleted 7, TimerFired, TimerFired]"
  let ?deliveries = "replicate 25 (0::nat, sample_workflow_env 0, pending_workflow_store)"
  have l: "load_candidate (sample_workflow_env 0) sample_workflow_input pending_workflow_store = Inr sample_loaded_candidate"
    by (rule sample_load_candidate) (simp add: pending_workflow_store_def sample_workflow_store_def)
  have "deadline_fixed sample_workflow_input 600000 ?deliveries"
    by (simp add: deadline_fixed_def l sample_deadline)
  moreover have "nat (600000 - 0) div 300000 + 1 \<le> length (filter ((=) TimerFired) ?wakes)" by simp
  moreover have "5 * (length ?wakes + 1) \<le> length ?deliveries" by simp
  ultimately show ?thesis using candidate_workflow_ends by blast
qed


section \<open>What a terminal result stores\<close>

lemma insert_mappings_Inr:
  assumes "insert_mappings m ms s = Inr t"
  shows "t = s\<lparr>ws_mappings := ws_mappings t\<rparr>"
    and "ws_mappings s k \<noteq> None \<Longrightarrow> ws_mappings t k = ws_mappings s k"
    and "ws_mappings s k = None \<Longrightarrow> ws_mappings t k = Some row \<Longrightarrow>
      \<exists>x \<in> set ms. k = (m, fm_candidate_ordinal x) \<and> row = row_of_mapping x"
    and "x \<in> set ms \<Longrightarrow> ws_mappings t (m, fm_candidate_ordinal x) \<noteq> None \<and> fm_source_file_id x \<le> i64_max \<and> fm_size x \<le> i64_max"
proof -
  have "t = s\<lparr>ws_mappings := ws_mappings t\<rparr> \<and> (\<forall>k. ws_mappings s k \<noteq> None \<longrightarrow> ws_mappings t k = ws_mappings s k) \<and>
      (\<forall>k row. ws_mappings s k = None \<longrightarrow> ws_mappings t k = Some row \<longrightarrow>
        (\<exists>x \<in> set ms. k = (m, fm_candidate_ordinal x) \<and> row = row_of_mapping x)) \<and>
      (\<forall>x \<in> set ms. ws_mappings t (m, fm_candidate_ordinal x) \<noteq> None \<and> fm_source_file_id x \<le> i64_max \<and> fm_size x \<le> i64_max)"
    using assms
  proof (induction ms arbitrary: s)
    case (Cons x ms)
    define u where "u = (if ws_mappings s (m, fm_candidate_ordinal x) = None
      then s\<lparr>ws_mappings := (ws_mappings s)((m, fm_candidate_ordinal x) \<mapsto> row_of_mapping x)\<rparr> else s)"
    have p: "insert_mappings m ms u = Inr t" "fm_source_file_id x \<le> i64_max" "fm_size x \<le> i64_max"
      using Cons.prems by (auto simp: u_def)
    have frame: "u = s\<lparr>ws_mappings := ws_mappings u\<rparr>" by (simp add: u_def)
    have keep: "ws_mappings u k = ws_mappings s k" if "ws_mappings s k \<noteq> None" for k using that by (auto simp: u_def)
    have new: "k = (m, fm_candidate_ordinal x) \<and> row = row_of_mapping x" if "ws_mappings s k = None" "ws_mappings u k = Some row" for k row
      using that by (auto simp: u_def split: if_splits)
    have there: "ws_mappings u (m, fm_candidate_ordinal x) \<noteq> None" by (simp add: u_def)
    note ih = Cons.IH [OF p(1)]
    have "u\<lparr>ws_mappings := x\<rparr> = s\<lparr>ws_mappings := x\<rparr>" for x by (subst frame) simp
    then have "t = s\<lparr>ws_mappings := ws_mappings t\<rparr>" using conjunct1 [OF ih] by simp
    moreover have "\<exists>y \<in> set (x # ms). k = (m, fm_candidate_ordinal y) \<and> row = row_of_mapping y"
      if "ws_mappings s k = None" "ws_mappings t k = Some row" for k row
    proof (cases "ws_mappings u k")
      case None
      then show ?thesis using ih that(2) by (cases k) auto
    next
      case (Some row')
      then have "ws_mappings t k = Some row'" using ih by (cases k) simp
      then show ?thesis using new [OF that(1) Some] that(2) by simp
    qed
    ultimately show ?case using ih keep there p(2,3) by auto
  qed auto
  then show "t = s\<lparr>ws_mappings := ws_mappings t\<rparr>"
    and "ws_mappings s k \<noteq> None \<Longrightarrow> ws_mappings t k = ws_mappings s k"
    and "ws_mappings s k = None \<Longrightarrow> ws_mappings t k = Some row \<Longrightarrow>
      \<exists>x \<in> set ms. k = (m, fm_candidate_ordinal x) \<and> row = row_of_mapping x"
    and "x \<in> set ms \<Longrightarrow> ws_mappings t (m, fm_candidate_ordinal x) \<noteq> None \<and> fm_source_file_id x \<le> i64_max \<and> fm_size x \<le> i64_max"
    by blast+
qed

lemma plan_tags_Inr:
  assumes "plan_tags loaded source context = Inr tags"
  shows "''sporos'' \<in> set tags" "distinct tags"
proof -
  obtain rendered where r: "render_tags context (ij_tag_templates (cp_injection (lc_policy loaded)))
      (if ij_inherit_source_tags (cp_injection (lc_policy loaded)) then sd_tags source else []) = Inr rendered"
    and t: "tags = (if list_ex (\<lambda>tag. tag = ''sporos'') rendered then rendered else ''sporos'' # rendered)"
    using assms by (auto simp: plan_tags_def)
  have "distinct rendered" using collect_tags_spec [of _ "[]" rendered] r by (simp add: render_tags_def)
  then show "''sporos'' \<in> set tags" "distinct tags" using t by (auto simp: list_ex_iff)
qed

lemma persist_plan_Inr:
  assumes "persist_plan env input loaded d m s = Inr (p, t)"
  obtains row where "t = s\<lparr>ws_plans := ws_plans t\<rparr>" "ws_plans t = (if ws_plans s p = None then (ws_plans s)(p \<mapsto> row) else ws_plans s)"
    "\<exists>stored. ws_plans t p = Some stored \<and> pn_digest stored = pn_digest row"
    "pn_match_id row = m" "pn_candidate_id row = wi_candidate_id input"
    "pn_state row = (if ij_dry_run (cp_injection (lc_policy loaded)) then ''dry_run_complete'' else ''planned'')"
    "\<exists>tags. pn_tags_json row = wc_tags (we_codec env) tags \<and> ''sporos'' \<in> set tags \<and> distinct tags"
proof -
  define c where "c = we_codec env"
  define namespace_local where "namespace_local = join_component (join_component (cp_namespace_local_root (lc_policy loaded))
    (encode_hex (take 2 (lc_id loaded)))) (''cand_'' @ encode_hex (lc_id loaded))"
  define save_path_remote where "save_path_remote = join_component (join_component (cp_save_path_remote_root (lc_policy loaded))
    (encode_hex (take 2 (lc_id loaded)))) (''cand_'' @ encode_hex (lc_id loaded))"
  define resume where "resume = wc_resume c (ij_resume (cp_injection (lc_policy loaded)))"
  define digest where "digest = (\<lambda>category tags. cd_sha256 (wc_codec c) (wc_material c
    \<lparr> pm_match_id = encode_hex m, pm_candidate_id = encode_hex (wi_candidate_id input),
      pm_namespace_local = namespace_local, pm_save_path_remote = save_path_remote, pm_category = category,
      pm_tags = tags, pm_resume_policy = resume, pm_mappings = md_mappings d \<rparr>))"
  define row where "row = (\<lambda>category tags. \<lparr> pn_match_id = m, pn_candidate_id = wi_candidate_id input, pn_namespace_local = namespace_local,
    pn_save_path_remote = save_path_remote, pn_category = category, pn_tags_json = wc_tags c tags,
    pn_resume_policy_json = resume, pn_digest = digest category tags,
    pn_state = (if ij_dry_run (cp_injection (lc_policy loaded)) then ''dry_run_complete'' else ''planned'') \<rparr>)"
  from assms obtain source category tags where p:
    "plan_tags loaded source (plan_context (we_unicode env) loaded d source) = Inr tags"
    "insert_plan (wc_codec c) (first_16 (digest category tags)) (row category tags) s = Inr t"
    "verify_plan (first_16 (digest category tags)) (digest category tags) t = Inr ()" "p = first_16 (digest category tags)"
    unfolding persist_plan_def Let_def c_def [symmetric] namespace_local_def [symmetric] save_path_remote_def [symmetric]
      resume_def [symmetric] digest_def row_def by auto
  have k: "pn_match_id (row category tags) = m" "pn_candidate_id (row category tags) = wi_candidate_id input"
    "pn_state (row category tags) = (if ij_dry_run (cp_injection (lc_policy loaded)) then ''dry_run_complete'' else ''planned'')"
    "pn_tags_json (row category tags) = wc_tags (we_codec env) tags" "pn_digest (row category tags) = digest category tags"
    by (simp_all add: row_def c_def)
  show thesis
  proof (rule that [of "row category tags"])
    show "t = s\<lparr>ws_plans := ws_plans t\<rparr>"
      "ws_plans t = (if ws_plans s p = None then (ws_plans s)(p \<mapsto> row category tags) else ws_plans s)"
      using p(2,4) by (auto simp: insert_plan_def split: if_splits)
    show "\<exists>stored. ws_plans t p = Some stored \<and> pn_digest stored = pn_digest (row category tags)"
      using p(3,4) k(5) by (auto simp: verify_plan_def split: option.splits if_splits)
    show "\<exists>ts. pn_tags_json (row category tags) = wc_tags (we_codec env) ts \<and> ''sporos'' \<in> set ts \<and> distinct ts"
      using k(4) plan_tags_Inr [OF p(1)] by auto
  qed (use k in auto)
qed


lemma terminal_transaction_Inr:
  assumes "terminal_transaction env input loaded d s = Inr (plan, t)"
  defines "m \<equiv> match_identity (we_codec env) input loaded d"
  obtains s1 s2 s3 where
    "insert_match (wc_codec (we_codec env)) m (match_row_of (we_codec env) input d) (delete_waiting (wi_task_id input) s) = Inr s1"
    "verify_match m (decision_digest (we_codec env) d) s1 = Inr ()" "insert_mappings m (md_mappings d) s1 = Inr s2"
    "t = set_candidate_state (wi_candidate_id input) (terminal_state d (ij_dry_run (cp_injection (lc_policy loaded)))) (we_now env) s3"
    "if md_outcome d = Match then \<exists>p. plan = Some p \<and> persist_plan env input loaded d m s2 = Inr (p, s3) else plan = None \<and> s3 = s2"
  using assms(1) unfolding terminal_transaction_def Let_def m_def [symmetric]
  by (auto split: if_splits intro: that)

lemma insert_match_Inr:
  assumes "insert_match codec m row s = Inr t"
  shows "t = s\<lparr>ws_matches := ws_matches t\<rparr>" "ws_matches t = (if ws_matches s m = None then (ws_matches s)(m \<mapsto> row) else ws_matches s)"
  using assms by (auto simp: insert_match_def split: if_splits)

lemma terminal_transaction_mappings:
  assumes "terminal_transaction env input loaded d s = Inr (plan, t)"
    and "ws_mappings s k = None" "ws_mappings t k = Some row"
  shows "\<exists>x \<in> set (md_mappings d). k = (match_identity (we_codec env) input loaded d, fm_candidate_ordinal x) \<and> row = row_of_mapping x"
proof -
  from terminal_transaction_Inr [OF assms(1)] obtain s1 s2 s3 where p:
    "insert_match (wc_codec (we_codec env)) (match_identity (we_codec env) input loaded d) (match_row_of (we_codec env) input d)
      (delete_waiting (wi_task_id input) s) = Inr s1"
    "insert_mappings (match_identity (we_codec env) input loaded d) (md_mappings d) s1 = Inr s2"
    "t = set_candidate_state (wi_candidate_id input) (terminal_state d (ij_dry_run (cp_injection (lc_policy loaded)))) (we_now env) s3"
    "if md_outcome d = Match then \<exists>p. plan = Some p \<and> persist_plan env input loaded d (match_identity (we_codec env) input loaded d) s2
      = Inr (p, s3) else plan = None \<and> s3 = s2" by metis
  have s1: "ws_mappings s1 = ws_mappings s" by (subst insert_match_Inr(1) [OF p(1)]) (simp add: delete_waiting_def)
  have s3: "ws_mappings s3 = ws_mappings s2"
  proof (cases "md_outcome d = Match")
    case True
    with p(4) obtain q where "persist_plan env input loaded d (match_identity (we_codec env) input loaded d) s2 = Inr (q, s3)" by auto
    then obtain r where "s3 = s2\<lparr>ws_plans := ws_plans s3\<rparr>" by (elim persist_plan_Inr)
    from arg_cong [OF this, of ws_mappings] show ?thesis by simp
  qed (use p(4) in simp)
  show ?thesis using insert_mappings_Inr(3) [OF p(2), of k row] assms(2,3) by (simp add: s1 s3 p(3))
qed

lemma terminal_transaction_plan:
  assumes "terminal_transaction env input loaded d s = Inr (plan, t)"
  shows "plan = None \<longleftrightarrow> md_outcome d \<noteq> Match"
    and "plan = Some p \<Longrightarrow> \<exists>row. ws_plans t p = Some row \<and> (ws_plans s p = None \<longrightarrow>
      pn_match_id row = match_identity (we_codec env) input loaded d \<and> pn_candidate_id row = wi_candidate_id input \<and>
      pn_state row = terminal_state d (ij_dry_run (cp_injection (lc_policy loaded))) \<and>
      (\<exists>tags. pn_tags_json row = wc_tags (we_codec env) tags \<and> ''sporos'' \<in> set tags \<and> distinct tags))"
proof -
  from terminal_transaction_Inr [OF assms(1)] obtain s1 s2 s3 where p:
    "insert_match (wc_codec (we_codec env)) (match_identity (we_codec env) input loaded d) (match_row_of (we_codec env) input d)
      (delete_waiting (wi_task_id input) s) = Inr s1"
    "insert_mappings (match_identity (we_codec env) input loaded d) (md_mappings d) s1 = Inr s2"
    "t = set_candidate_state (wi_candidate_id input) (terminal_state d (ij_dry_run (cp_injection (lc_policy loaded)))) (we_now env) s3"
    "if md_outcome d = Match then \<exists>p. plan = Some p \<and> persist_plan env input loaded d (match_identity (we_codec env) input loaded d) s2
      = Inr (p, s3) else plan = None \<and> s3 = s2" by metis
  show "plan = None \<longleftrightarrow> md_outcome d \<noteq> Match" using p(4) by (auto split: if_splits)
  have "ws_plans s1 = ws_plans s" by (subst insert_match_Inr(1) [OF p(1)]) (simp add: delete_waiting_def)
  moreover have "ws_plans s2 = ws_plans s1" by (subst insert_mappings_Inr(1) [OF p(2)]) simp
  ultimately have s2: "ws_plans s2 = ws_plans s" by simp
  assume "plan = Some p"
  with p(4) have m: "md_outcome d = Match" and q: "persist_plan env input loaded d (match_identity (we_codec env) input loaded d) s2 = Inr (p, s3)"
    by (auto split: if_splits)
  obtain row where r: "ws_plans s3 = (if ws_plans s2 p = None then (ws_plans s2)(p \<mapsto> row) else ws_plans s2)"
    "\<exists>stored. ws_plans s3 p = Some stored \<and> pn_digest stored = pn_digest row"
    "pn_match_id row = match_identity (we_codec env) input loaded d" "pn_candidate_id row = wi_candidate_id input"
    "pn_state row = (if ij_dry_run (cp_injection (lc_policy loaded)) then ''dry_run_complete'' else ''planned'')"
    "\<exists>tags. pn_tags_json row = wc_tags (we_codec env) tags \<and> ''sporos'' \<in> set tags \<and> distinct tags"
    using q by (elim persist_plan_Inr)
  have t: "ws_plans t = ws_plans s3" by (simp add: p(3))
  show "\<exists>row. ws_plans t p = Some row \<and> (ws_plans s p = None \<longrightarrow>
      pn_match_id row = match_identity (we_codec env) input loaded d \<and> pn_candidate_id row = wi_candidate_id input \<and>
      pn_state row = terminal_state d (ij_dry_run (cp_injection (lc_policy loaded))) \<and>
      (\<exists>tags. pn_tags_json row = wc_tags (we_codec env) tags \<and> ''sporos'' \<in> set tags \<and> distinct tags))"
  proof (cases "ws_plans s p = None")
    case True
    then have "ws_plans t p = Some row" using r(1) by (simp add: t s2)
    then show ?thesis using r(3-6) m by (auto simp: terminal_state_def)
  next
    case False
    then show ?thesis using r(2) by (auto simp: t)
  qed
qed

lemma loaded_file_stored:
  assumes "candidate_sources env candidate release policy seen s = Inr (SourcesLoaded sources)"
    and "source \<in> set sources" "lf \<in> set (ls_files (lo_manifest source))"
  shows "\<exists>file \<in> set (ws_files s). fr_available file \<and> fr_source_id file = ls_id (lo_manifest source) \<and>
    fr_id file = int (lf_id lf) \<and> fr_size file = int (lf_size lf)"
proof -
  obtain xs where p: "list_all2 (loads env candidate s) xs sources" "\<forall>x \<in> set xs. fresh_source x"
    using candidate_sources_loaded [OF assms(1)] by metis
  obtain x where x: "x \<in> set xs" "loads env candidate s x source" using list_all2_in_set2 [OF p(1) assms(2)] by blast
  have "needs_files candidate x"
    using x p(2) assms(3) by (auto simp: loads_def fresh_source_def split: if_splits)
  then obtain files where f: "source = x\<lparr>lo_manifest := (lo_manifest x)\<lparr>ls_files := files\<rparr>\<rparr>"
    "source_files env (ls_id (lo_manifest x)) (lo_manifest_version x) (lo_file_count x) s = Inr (Some files)"
    using x(2) by (auto simp: loads_def)
  have "lf \<in> set files" using assms(3) by (simp add: f(1))
  then obtain row where r: "row \<in> set (file_rows s (ls_id (lo_manifest x)) (lo_manifest_version x))" "read_file row = Inr lf"
    using source_files_Some(2) [OF f(2)] by blast
  then show ?thesis using read_file_Inr [OF r(2)] by (intro bexI [of _ row]) (auto simp: file_rows_def f(1))
qed


text \<open>A mapping that names a file of the candidate and a stored file of the same size.\<close>

definition mapping_stored :: "torrent_manifest \<Rightarrow> workflow_store \<Rightarrow> nat \<Rightarrow> mapping_row \<Rightarrow> bool" where
  "mapping_stored manifest s ordinal row \<longleftrightarrow>
     (\<exists>f \<in> set (tm_files manifest). tf_ordinal f = ordinal \<and> \<not> tf_padding f \<and>
        tf_path f = mw_candidate_path row \<and> tf_size f = mw_size row \<and>
        (\<exists>file \<in> set (ws_files s). fr_available file \<and> fr_source_id file = mw_source_id row \<and>
           fr_id file = int (mw_source_file_id row) \<and> fr_size file = int (tf_size f)))"

lemma evaluated_mapping_stored:
  assumes "candidate_sources env (lc_manifest loaded) (lc_release loaded) (lc_policy loaded) seen s = Inr (SourcesLoaded sources)"
    and "request_capacity (request_of_sources loaded sources)"
    and "evaluate u (request_of_sources loaded sources) = Some d" and "x \<in> set (md_mappings d)"
  shows "mapping_stored (lc_manifest loaded) s (fm_candidate_ordinal x) (row_of_mapping x)"
proof -
  have match: "md_outcome d = Match" using evaluate_shape [OF assms(3)] assms(4) by (auto simp: answer_shape_def split: if_splits)
  have "\<exists>season srcs. set srcs \<subseteq> {s \<in> set (mr_sources (request_of_sources loaded sources)). ls_available s} \<and>
      sound_decision u (request_of_sources loaded sources) season srcs d"
  proof (rule evaluate_spec [OF assms(2), of u])
    fix d' assume "evaluate u (request_of_sources loaded sources) = Some d'"
      and "md_outcome d' = Match \<Longrightarrow> validate_manifest u (mr_candidate (request_of_sources loaded sources)) = None \<and>
        (\<exists>season srcs. set srcs \<subseteq> {s \<in> set (mr_sources (request_of_sources loaded sources)). ls_available s} \<and>
           (distinct (map ls_id (mr_sources (request_of_sources loaded sources))) \<longrightarrow> distinct (map ls_id srcs)) \<and>
           (season \<longrightarrow> rd_kind (mr_candidate_release (request_of_sources loaded sources)) = SeasonPack) \<and>
           sound_decision u (request_of_sources loaded sources) season srcs d')"
    then show ?thesis using assms(3) match by auto
  qed
  then obtain season srcs where s: "set srcs \<subseteq> {s \<in> set (mr_sources (request_of_sources loaded sources)). ls_available s}"
    "sound_decision u (request_of_sources loaded sources) season srcs d" by blast
  obtain g src lf where g: "g \<in> set (tm_files (lc_manifest loaded))" "src \<in> set (mr_sources (request_of_sources loaded sources))"
    "lf \<in> set (ls_files src)" "\<not> tf_padding g" "tf_size g = lf_size lf" "x = mapping_for g (ls_id src) lf (fm_score x)"
    using sound_decision_mapping [OF s(2,1) assms(4)] by (auto simp: request_of_sources_def)
  obtain source where source: "source \<in> set sources" "src = lo_manifest source"
    using g(2) by (auto simp: request_of_sources_def)
  have x: "fm_candidate_ordinal x = tf_ordinal g" "fm_candidate_path x = tf_path g" "fm_size x = tf_size g"
    "fm_source_id x = ls_id src" "fm_source_file_id x = lf_id lf"
    by (subst g(6), simp add: mapping_for_def)+
  have "\<exists>file \<in> set (ws_files s). fr_available file \<and> fr_source_id file = ls_id src \<and>
      fr_id file = int (lf_id lf) \<and> fr_size file = int (lf_size lf)"
    using loaded_file_stored [OF assms(1) source(1)] g(3) by (simp add: source(2))
  then show ?thesis unfolding mapping_stored_def row_of_mapping_def using g(1,4,5) x by (intro bexI [of _ g]) auto
qed

text \<open>The effect of a terminal result, whatever the decision.\<close>

definition terminal_effect ::
  "workflow_env \<Rightarrow> workflow_input \<Rightarrow> loaded_candidate \<Rightarrow> workflow_store \<Rightarrow> string \<Rightarrow> string \<Rightarrow> string option \<Rightarrow> workflow_store \<Rightarrow> bool" where
  "terminal_effect env input loaded s state m plan t \<longleftrightarrow>
     (state = ''planned'' \<longleftrightarrow> plan \<noteq> None \<and> \<not> ij_dry_run (cp_injection (lc_policy loaded))) \<and>
     (\<forall>k row. ws_mappings s k = None \<and> ws_mappings t k = Some row \<longrightarrow>
        plan \<noteq> None \<and> fst k = m \<and> mapping_stored (lc_manifest loaded) s (snd k) row) \<and>
     (\<forall>p. plan = Some p \<longrightarrow> (\<exists>row. ws_plans t p = Some row \<and> (ws_plans s p = None \<longrightarrow>
        pn_match_id row = m \<and> pn_candidate_id row = wi_candidate_id input \<and> pn_state row = state \<and>
        (\<exists>tags. pn_tags_json row = wc_tags (we_codec env) tags \<and> ''sporos'' \<in> set tags \<and> distinct tags))))"

lemma persist_terminal_effect:
  assumes "persist_terminal env input loaded d u = (Inr (CandidateTerminal state reason m plan), t)"
    and frame: "ws_mappings u = ws_mappings s" "ws_plans u = ws_plans s"
    and "md_outcome d \<noteq> Match \<Longrightarrow> md_mappings d = []"
    and sound: "\<And>x. x \<in> set (md_mappings d) \<Longrightarrow> mapping_stored (lc_manifest loaded) s (fm_candidate_ordinal x) (row_of_mapping x)"
  shows "terminal_effect env input loaded s state m plan t"
proof -
  obtain v where v: "terminal_transaction env input loaded d u = Inr (plan, v)"
    and r: "state = terminal_state d (ij_dry_run (cp_injection (lc_policy loaded)))" "m = match_identity (we_codec env) input loaded d"
    and p: "\<exists>detail terminal. project_state env input state (Some reason) terminal detail v = (Inr (), t)"
    using assms(1) by (auto simp: persist_terminal_def Let_def)
  obtain tasks where tasks: "t = v\<lparr>ws_intake := (ws_intake v)\<lparr>cs_tasks := tasks\<rparr>\<rparr>"
    using p by (elim exE project_state_frame)
  have same: "ws_mappings t = ws_mappings v" "ws_plans t = ws_plans v" by (simp_all add: tasks)
  note plan = terminal_transaction_plan [OF v]
  have state: "state = ''planned'' \<longleftrightarrow> plan \<noteq> None \<and> \<not> ij_dry_run (cp_injection (lc_policy loaded))"
    using plan(1) by (auto simp: r terminal_state_def split: match_outcome.splits)
  have mapped: "plan \<noteq> None \<and> fst k = m \<and> mapping_stored (lc_manifest loaded) s (snd k) row"
    if k: "ws_mappings s k = None" "ws_mappings t k = Some row" for k row
  proof -
    obtain x where x: "x \<in> set (md_mappings d)" "k = (m, fm_candidate_ordinal x)" "row = row_of_mapping x"
      using terminal_transaction_mappings [OF v, of k row] k by (auto simp: frame same r)
    have "md_outcome d = Match" using assms(4) x(1) by fastforce
    then show ?thesis using sound [OF x(1)] plan(1) by (simp add: x)
  qed
  have "\<exists>row. ws_plans t p = Some row \<and> (ws_plans s p = None \<longrightarrow>
      pn_match_id row = m \<and> pn_candidate_id row = wi_candidate_id input \<and> pn_state row = state \<and>
      (\<exists>tags. pn_tags_json row = wc_tags (we_codec env) tags \<and> ''sporos'' \<in> set tags \<and> distinct tags))" if "plan = Some p" for p
    using plan(2) [OF that] by (simp add: frame same r)
  then show ?thesis unfolding terminal_effect_def using state mapped by blast
qed

lemma conclude_terminal:
  assumes "conclude env input loaded waits d s = (Inr (CandidateTerminal state reason m plan), t)"
  obtains d' where "persist_terminal env input loaded d' s = (Inr (CandidateTerminal state reason m plan), t)"
    "d' = d \<or> md_outcome d = NoMatch \<and> waits \<noteq> [] \<and> d' = rejected_source_timeout d"
proof (cases "md_outcome d = NoMatch \<and> waits \<noteq> []")
  case True
  then have "persist_terminal env input loaded (rejected_source_timeout d) s = (Inr (CandidateTerminal state reason m plan), t)"
    using assms by (auto simp: conclude_def Let_def split: sum.splits if_splits)
  then show thesis using that True by blast
next
  case False
  then have "persist_terminal env input loaded d s = (Inr (CandidateTerminal state reason m plan), t)"
    using assms unfolding conclude_def by (simp only: if_False)
  then show thesis using that by blast
qed

text \<open>
  C6: What is planned exists.  When the evaluation of a candidate ends, the state is
  \<open>planned\<close> exactly when a plan was made outside a dry run; every mapping that it
  adds belongs to a match, names a file of the candidate that is not padding, with
  its path, and a stored, available file of the named source with exactly the size
  of the file of the candidate; and a new plan belongs to this match, carries the
  tag \<open>sporos\<close> and has the state of the result.
\<close>

theorem planned_files_exist:
  assumes "evaluate_candidate env input seen s = (Inr (CandidateTerminal state reason m plan), t)"
    and "load_candidate env input seen = Inr loaded"
    and "sum_list (map tf_size (tm_files (lc_manifest loaded))) < 2 ^ 64"
    and "mp_max_candidate_edges (cp_matching (lc_policy loaded)) \<le> 2 ^ 24"
    and "mp_max_assignment_files (cp_matching (lc_policy loaded)) \<le> 2 ^ 16"
  shows "(state = ''planned'' \<longleftrightarrow> plan \<noteq> None \<and> \<not> ij_dry_run (cp_injection (lc_policy loaded))) \<and>
    (\<forall>k row. ws_mappings s k = None \<and> ws_mappings t k = Some row \<longrightarrow> plan \<noteq> None \<and> fst k = m \<and>
       (\<exists>f \<in> set (tm_files (lc_manifest loaded)). tf_ordinal f = snd k \<and> \<not> tf_padding f \<and>
          tf_path f = mw_candidate_path row \<and> tf_size f = mw_size row \<and>
          (\<exists>file \<in> set (ws_files s). fr_available file \<and> fr_source_id file = mw_source_id row \<and>
             fr_id file = int (mw_source_file_id row) \<and> fr_size file = int (tf_size f)))) \<and>
    (\<forall>p. plan = Some p \<longrightarrow> (\<exists>row. ws_plans t p = Some row \<and> (ws_plans s p = None \<longrightarrow>
       pn_match_id row = m \<and> pn_candidate_id row = wi_candidate_id input \<and> pn_state row = state \<and>
       (\<exists>tags. pn_tags_json row = wc_tags (we_codec env) tags \<and> ''sporos'' \<in> set tags \<and> distinct tags))))"
proof -
  have "terminal_effect env input loaded s state m plan t"
  proof (rule evaluate_candidate_cases [OF assms(1)])
    fix loaded' assume "load_candidate env input seen = Inr loaded'"
      "persist_terminal env input loaded' (matcher_budget_rejection loaded') s = (Inr (CandidateTerminal state reason m plan), t)"
    then have "persist_terminal env input loaded (matcher_budget_rejection loaded) s = (Inr (CandidateTerminal state reason m plan), t)"
      using assms(2) by simp
    then show ?thesis by (rule persist_terminal_effect) (simp_all add: matcher_budget_rejection_def Let_def)
  next
    fix loaded' sources f d
    assume "load_candidate env input seen = Inr loaded'"
      and "candidate_sources env (lc_manifest loaded') (lc_release loaded') (lc_policy loaded') seen s = Inr (SourcesLoaded sources)"
      and "evaluate (we_unicode env) (request_of_sources loaded' sources) = Some d"
      and "conclude env input loaded' (pending_ids loaded' sources) d (s\<lparr>ws_torrents := map f (ws_torrents s)\<rparr>)
        = (Inr (CandidateTerminal state reason m plan), t)"
    then have l: "candidate_sources env (lc_manifest loaded) (lc_release loaded) (lc_policy loaded) seen s = Inr (SourcesLoaded sources)"
      "evaluate (we_unicode env) (request_of_sources loaded sources) = Some d"
      "conclude env input loaded (pending_ids loaded sources) d (s\<lparr>ws_torrents := map f (ws_torrents s)\<rparr>)
        = (Inr (CandidateTerminal state reason m plan), t)" using assms(2) by simp_all
    have cap: "request_capacity (request_of_sources loaded sources)"
      using assms(3-5) by (simp add: request_capacity_def request_of_sources_def)
    have no: "md_outcome d \<noteq> Match \<Longrightarrow> md_mappings d = []"
      using evaluate_shape [OF l(2)] by (simp add: answer_shape_def)
    note yes = evaluated_mapping_stored [OF l(1) cap l(2)]
    obtain d' where d': "persist_terminal env input loaded d' (s\<lparr>ws_torrents := map f (ws_torrents s)\<rparr>)
        = (Inr (CandidateTerminal state reason m plan), t)"
      "d' = d \<or> md_outcome d = NoMatch \<and> pending_ids loaded sources \<noteq> [] \<and> d' = rejected_source_timeout d"
      by (rule conclude_terminal [OF l(3)])
    have "md_mappings d' = md_mappings d" "md_outcome d' \<noteq> Match \<Longrightarrow> md_mappings d' = []"
      using d'(2) no by (auto simp: rejected_source_timeout_def)
    then show ?thesis using yes by (intro persist_terminal_effect [OF d'(1)]) simp_all
  qed
  then show ?thesis unfolding terminal_effect_def mapping_stored_def .
qed


lemma sample_category: "render_category context ''cross-seed'' = Inr ''cross-seed''"
  by code_simp

lemma sample_plan_tags: "plan_tags sample_loaded_candidate source context = Inr [''sporos'']"
  by (simp add: plan_tags_def sample_loaded_candidate_def sample_policy_def sample_ingress_def render_tags_def map_err_def)

lemma sample_plan_category: "plan_category sample_loaded_candidate source context = Inr ''cross-seed''"
  by (simp add: plan_category_def sample_loaded_candidate_def sample_policy_def sample_ingress_def map_err_def sample_category)

lemma sample_persist_plan:
  assumes "ws_plans s = Map.empty" "ws_torrents s = []"
  shows "\<exists>p t. persist_plan (sample_workflow_env now) sample_workflow_input sample_loaded_candidate d m s = Inr (p, t) \<and>
    ws_intake t = ws_intake s \<and> ws_mappings t = ws_mappings s"
proof -
  have data: "source_template_data c s ids = Inr \<lparr> sd_category = [], sd_tags = [], sd_kind = ''data_directory_release'' \<rparr>" for c ids
  proof -
    have "template_data_loop c s xs acc = Inr acc" for xs acc by (induction xs) (simp_all add: assms(2))
    then show ?thesis by (simp add: source_template_data_def)
  qed
  have json: "cd_json_valid (wc_codec (we_codec (sample_workflow_env now))) x" for x
    by (simp add: sample_workflow_env_def sample_workflow_codec_def sample_candidate_codec_def)
  show ?thesis unfolding persist_plan_def Let_def data and_then_simps sample_plan_category sample_plan_tags
    by (simp add: insert_plan_def verify_plan_def json assms(1))
qed

lemma sample_result_bytes:
  "md_mapped_bytes sample_result = 700" "md_missing_bytes sample_result = 0" "as_ppm (md_present_ratio sample_result) \<le> 1000000"
  "md_mappings sample_result = [mapping_for sample_file ''ssssssssssssssss'' sample_local_file 1001]" "md_outcome sample_result = Match"
proof -
  have r: "required sample_file default_policy" by (simp add: required_def sample_candidate_required)
  have total_bytes: "required_bytes sample_request = 700"
    using r by (simp add: required_bytes_def sample_request_def sum_u64_def candidate_files_def)
  have mapped: "mapped_file_is (\<lambda>f. required f (mr_policy sample_request)) (tm_files (mr_candidate sample_request))
      (mapping_for sample_file ''ssssssssssssssss'' sample_local_file 1001)"
    using r by (simp add: mapped_file_is_def sample_request_def mapping_for_def)
  have fm_size: "fm_size (mapping_for sample_file ''ssssssssssssssss'' sample_local_file 1001) = 700" by (simp add: mapping_for_def)
  show "md_mapped_bytes sample_result = 700" "md_missing_bytes sample_result = 0" "as_ppm (md_present_ratio sample_result) \<le> 1000000"
    "md_mappings sample_result = [mapping_for sample_file ''ssssssssssssssss'' sample_local_file 1001]" "md_outcome sample_result = Match"
    by (simp_all add: sample_result_def decision_def Let_def fm_size mapped total_bytes sum_u64_def from_bytes_def)
qed

lemma sample_terminal_transaction:
  assumes "s = sample_workflow_store sample_intake"
  shows "\<exists>p t. terminal_transaction (sample_workflow_env now) sample_workflow_input sample_loaded_candidate sample_result s
      = Inr (Some p, t) \<and> cs_tasks (ws_intake t) = sample_store \<and>
    ws_mappings t (match_identity sample_workflow_codec sample_workflow_input sample_loaded_candidate sample_result, 0) \<noteq> None"
proof -
  define m where "m = match_identity (we_codec (sample_workflow_env now)) sample_workflow_input sample_loaded_candidate sample_result"
  define row where "row = match_row_of (we_codec (sample_workflow_env now)) sample_workflow_input sample_result"
  define s1 where "s1 = s\<lparr>ws_matches := [m \<mapsto> row]\<rparr>"
  note result = sample_result_bytes
  have json: "cd_json_valid (wc_codec (we_codec (sample_workflow_env now))) x" for x
    by (simp add: sample_workflow_env_def sample_workflow_codec_def sample_candidate_codec_def)
  have del: "delete_waiting (wi_task_id sample_workflow_input) s = s"
    by (simp add: delete_waiting_def assms sample_workflow_store_def)
  have empty: "ws_matches s = Map.empty" "ws_mappings s = Map.empty" "ws_plans s = Map.empty" "ws_torrents s = []"
    "ws_intake s = sample_intake" by (simp_all add: assms sample_workflow_store_def)
  have rowk: "mt_mapped_bytes row = 700" "mt_missing_bytes row = 0" "mt_present_ratio_ppm row \<le> 1000000"
    "mt_decision_digest row = decision_digest (we_codec (sample_workflow_env now)) sample_result"
    using result by (simp_all add: row_def match_row_of_def)
  have ins: "insert_match (wc_codec (we_codec (sample_workflow_env now))) m row s = Inr s1"
    using rowk json empty by (simp add: insert_match_def checked_i64_def s1_def)
  have ver: "verify_match m (decision_digest (we_codec (sample_workflow_env now)) sample_result) s1 = Inr ()"
    using rowk by (simp add: verify_match_def s1_def)
  define s2 where "s2 = s1\<lparr>ws_mappings := [(m, 0) \<mapsto> row_of_mapping (mapping_for sample_file ''ssssssssssssssss'' sample_local_file 1001)]\<rparr>"
  have maps: "insert_mappings m (md_mappings sample_result) s1 = Inr s2"
    using empty by (simp add: result(4) checked_i64_def mapping_for_def s2_def s1_def)
  obtain p s3 where plan: "persist_plan (sample_workflow_env now) sample_workflow_input sample_loaded_candidate sample_result m s2 = Inr (p, s3)"
    "ws_intake s3 = ws_intake s2" "ws_mappings s3 = ws_mappings s2"
    using sample_persist_plan [of s2 now sample_result m] empty by (auto simp: s2_def s1_def)
  have "terminal_transaction (sample_workflow_env now) sample_workflow_input sample_loaded_candidate sample_result s
      = Inr (Some p, set_candidate_state (wi_candidate_id sample_workflow_input)
          (terminal_state sample_result (ij_dry_run (cp_injection (lc_policy sample_loaded_candidate))))
          (we_now (sample_workflow_env now)) s3)"
    unfolding terminal_transaction_def Let_def m_def [symmetric] row_def [symmetric] del ins ver and_then_simps maps
    by (simp add: result(5) plan(1))
  moreover have "m = match_identity sample_workflow_codec sample_workflow_input sample_loaded_candidate sample_result"
    by (simp add: m_def sample_workflow_env_def)
  moreover have "cs_tasks (ws_intake s3) = sample_store" "ws_mappings s3 (m, 0) \<noteq> None"
    using plan(2,3) empty by (simp_all add: s2_def s1_def sample_intake_def)
  ultimately show ?thesis by auto
qed

lemma sample_request_of_sources: "request_of_sources sample_loaded_candidate [sample_loaded] = sample_request"
  by (simp add: request_of_sources_def usable_def sample_loaded_def sample_loaded_candidate_def sample_request_def sample_policy_def)

lemma planned_evaluation:
  "\<exists>reason m p t. evaluate_candidate (sample_workflow_env now) sample_workflow_input (sample_workflow_store sample_intake)
      (sample_workflow_store sample_intake) = (Inr (CandidateTerminal ''planned'' reason m (Some p)), t) \<and> ws_mappings t (m, 0) \<noteq> None"
proof -
  let ?s = "sample_workflow_store sample_intake" and ?env = "sample_workflow_env now"
  have l: "load_candidate ?env sample_workflow_input ?s = Inr sample_loaded_candidate"
    by (rule sample_load_candidate) (simp add: sample_workflow_store_def)
  have c: "lc_manifest sample_loaded_candidate = mr_candidate sample_request" "lc_release sample_loaded_candidate = unknown (NormalizedTitle ''a'')"
    "lc_policy sample_loaded_candidate = sample_policy" by (simp_all add: sample_loaded_candidate_def)
  have classified: "classify ?env (mr_candidate sample_request) [sample_loaded] [] [] ?s = (Inr ([], mr_sources sample_request), ?s)"
    by (simp add: sample_loaded_def) (simp add: sample_request_def)
  have r: "\<lparr> mr_candidate = mr_candidate sample_request, mr_candidate_release = unknown (NormalizedTitle ''a''),
      mr_sources = mr_sources sample_request, mr_policy = cp_matching sample_policy \<rparr> = sample_request"
    by (simp add: sample_request_def sample_policy_def)
  have u: "we_unicode ?env = ascii_unicode" "\<not> we_fault ?env statement" for statement by (simp_all add: sample_workflow_env_def)
  obtain p v where v: "terminal_transaction ?env sample_workflow_input sample_loaded_candidate sample_result ?s = Inr (Some p, v)"
    "cs_tasks (ws_intake v) = sample_store"
    "ws_mappings v (match_identity sample_workflow_codec sample_workflow_input sample_loaded_candidate sample_result, 0) \<noteq> None"
    using sample_terminal_transaction [OF refl, of now] by blast
  have planned: "terminal_state sample_result (ij_dry_run (cp_injection sample_policy)) = ''planned''"
    by (simp add: terminal_state_def sample_result_bytes(5) sample_policy_def sample_ingress_def)
  define tasks where "tasks = (\<lambda>reason. cs_tasks (ws_intake (snd (project_state ?env sample_workflow_input ''planned'' reason False ''{}'' v))))"
  have proj: "project_state ?env sample_workflow_input ''planned'' reason False ''{}'' v
      = (Inr (), v\<lparr>ws_intake := (ws_intake v)\<lparr>cs_tasks := tasks reason\<rparr>\<rparr>)" for reason unfolding tasks_def
    by (simp add: project_state_def transaction_def v(2) sample_workflow_env_def sample_workflow_codec_def sample_candidate_codec_def
        sample_workflow_input_def project_candidate_task_def sample_store_def project_task_def validate_update_def apply_projection_def
        row_of_def queued_row_def checked_add_def add_event_def set_task_def map_err_def)
  have detail: "wc_terminal_detail (we_codec ?env) x y = ''{}''" for x y by (simp add: sample_workflow_env_def sample_workflow_codec_def)
  have codec: "we_codec ?env = sample_workflow_codec" by (simp add: sample_workflow_env_def)
  have "persist_terminal ?env sample_workflow_input sample_loaded_candidate sample_result ?s
      = (Inr (CandidateTerminal ''planned'' (reason_text (md_reason sample_result))
          (match_identity sample_workflow_codec sample_workflow_input sample_loaded_candidate sample_result) (Some p)),
         v\<lparr>ws_intake := (ws_intake v)\<lparr>cs_tasks := tasks (Some (reason_text (md_reason sample_result)))\<rparr>\<rparr>)"
    unfolding persist_terminal_def Let_def v(1) c planned detail
    by (simp add: transaction_def u(2) and_do_def proj codec)
  then show ?thesis using v(3)
    unfolding evaluate_candidate_def l sum.case c sample_candidate_sources candidate_sources_result.case classified
    by (simp add: and_do_def u(1) r sample_evaluate conclude_def sample_result_bytes(5))
qed

theorem planned_files_exist_witness:
  "\<exists>reason m p t row. evaluate_candidate (sample_workflow_env 0) sample_workflow_input (sample_workflow_store sample_intake)
      (sample_workflow_store sample_intake) = (Inr (CandidateTerminal ''planned'' reason m (Some p)), t) \<and>
     ws_mappings t (m, 0) = Some row \<and> mw_size row = 700"
proof -
  obtain reason m p t row where e: "evaluate_candidate (sample_workflow_env 0) sample_workflow_input (sample_workflow_store sample_intake)
      (sample_workflow_store sample_intake) = (Inr (CandidateTerminal ''planned'' reason m (Some p)), t)" "ws_mappings t (m, 0) = Some row"
    using planned_evaluation [of 0] by blast
  have l: "load_candidate (sample_workflow_env 0) sample_workflow_input (sample_workflow_store sample_intake) = Inr sample_loaded_candidate"
    by (rule sample_load_candidate) (simp add: sample_workflow_store_def)
  have k: "sum_list (map tf_size (tm_files (lc_manifest sample_loaded_candidate))) < 2 ^ 64"
    "mp_max_candidate_edges (cp_matching (lc_policy sample_loaded_candidate)) \<le> 2 ^ 24"
    "mp_max_assignment_files (cp_matching (lc_policy sample_loaded_candidate)) \<le> 2 ^ 16"
    by (simp_all add: sample_loaded_candidate_def sample_request_def sample_policy_def default_budgets)
  have "ws_mappings (sample_workflow_store sample_intake) (m, 0) = None" by (simp add: sample_workflow_store_def)
  then have "\<exists>f \<in> set (tm_files (lc_manifest sample_loaded_candidate)). tf_size f = mw_size row"
    using planned_files_exist [OF e(1) l k] e(2) by (metis (no_types, lifting))
  then have "mw_size row = 700" by (simp add: sample_loaded_candidate_def sample_request_def)
  then show ?thesis using e by blast
qed

end
