(* ===== verification/Candidate_Replay.thy ===== *)
theory Candidate_Replay
  imports Candidate_Workflow
begin

text \<open>
  The evaluation of a candidate runs as an activity that is delivered at least
  once.  This theory shows that an evaluation that has ended can be repeated: the
  tables that it reads are unchanged where it reads them, and every insertion finds
  its own row.
\<close>

section \<open>Repeating a successful computation\<close>

lemma and_then_again:
  "and_then a f = Inr r \<Longrightarrow> (\<And>x. a = Inr x \<Longrightarrow> a' = Inr x) \<Longrightarrow> (\<And>x. f x = Inr r \<Longrightarrow> f' x = Inr r) \<Longrightarrow> and_then a' f' = Inr r"
  by auto

lemma if_again:
  "(if b then p else q) = r \<Longrightarrow> (p = r \<Longrightarrow> p' = r) \<Longrightarrow> (q = r \<Longrightarrow> q' = r) \<Longrightarrow> (if b then p' else q') = r"
  by (cases b) auto

lemma option_again:
  "(case x of None \<Rightarrow> p | Some y \<Rightarrow> q y) = r \<Longrightarrow> (p = r \<Longrightarrow> p' = r) \<Longrightarrow> (\<And>y. q y = r \<Longrightarrow> q' y = r) \<Longrightarrow>
   (case x of None \<Rightarrow> p' | Some y \<Rightarrow> q' y) = r"
  by (cases x) auto

lemmas again = and_then_again if_again option_again

section \<open>Reading again\<close>

lemma insort_key_map:
  assumes "\<And>x. k (f x) = k x" shows "insort_key k (f x) (map f xs) = map f (insort_key k x xs)"
  by (induction xs) (simp_all add: assms)

lemma sort_key_map:
  assumes "\<And>x. k (f x) = k x" shows "sort_key k (map f xs) = map f (sort_key k xs)"
  by (induction xs) (simp_all add: insort_key_map assms)

lemma asks_fields:
  assumes "asks f"
  shows "qt_id (f row) = qt_id row" "qt_v1_hash (f row) = qt_v1_hash row" "qt_v2_hash (f row) = qt_v2_hash row"
    "qt_category (f row) = qt_category row" "qt_tags_json (f row) = qt_tags_json row" "qt_is_complete (f row) = qt_is_complete row"
    "qt_available (f row) = qt_available row" "qt_manifest_version (f row) = qt_manifest_version row"
    "qt_release_json (f row) = qt_release_json row" "(qt_manifest_state (f row) = ''loaded'') = (qt_manifest_state row = ''loaded'')"
  using assms [unfolded asks_def, rule_format, of row] by (auto simp: staled_def)

text \<open>The tables that an evaluation reads agree up to the torrents that were asked for.\<close>

definition reads_as :: "workflow_store \<Rightarrow> workflow_store \<Rightarrow> bool" where
  "reads_as s t \<longleftrightarrow> (\<exists>f. asks f \<and> ws_torrents t = map f (ws_torrents s)) \<and> ws_data t = ws_data s \<and> ws_files t = ws_files s \<and>
     ws_titles t = ws_titles s \<and> ws_external_ids t = ws_external_ids s"

lemma reads_as_reduction: "reads_as s t \<Longrightarrow> source_reduction t = source_reduction s"
  by (intro ext) (simp add: reads_as_def source_reduction_def)

lemma reads_as_file_rows: "reads_as s t \<Longrightarrow> file_rows t = file_rows s"
  by (intro ext) (simp add: reads_as_def file_rows_def)

lemma reads_as_torrents:
  assumes "reads_as s t"
  obtains f where "asks f" "torrent_rows c t release filters = map f (torrent_rows c s release filters)"
    "torrent_source c t \<circ> f = torrent_source c s"
proof -
  obtain f where f: "asks f" "ws_torrents t = map f (ws_torrents s)" using assms by (auto simp: reads_as_def)
  note k = asks_fields [OF f(1)]
  have adm: "filters_admit c filters (f row) = filters_admit c filters row" for row by (simp add: filters_admit_def k)
  have "torrent_rows c t release filters = map f (torrent_rows c s release filters)"
    by (simp add: torrent_rows_def f(2) filter_map comp_def k adm reads_as_reduction [OF assms] take_map
        sort_key_map [of "\<lambda>row. (\<not> qt_is_complete row, qt_id row)" f])
  moreover have "torrent_source c t \<circ> f = torrent_source c s"
    by (rule ext) (simp add: torrent_source_def k reads_as_file_rows [OF assms])
  ultimately show thesis using f(1) that by blast
qed

lemma try_map_map: "try_map g (map f xs) = try_map (g \<circ> f) xs"
  by (induction xs) simp_all

lemma reads_as_data:
  assumes "reads_as s t"
  shows "data_rows t = data_rows s" "data_source c t = data_source c s"
  using assms by (intro ext; simp add: data_rows_def data_source_def reads_as_reduction reads_as_file_rows; simp add: reads_as_def)+

lemma query_again:
  assumes "\<And>statement. \<not> we_fault env' statement" "query env statement x = Inr y"
  shows "query env' statement x = Inr y"
  using assms by simp

lemma reads_as_load_files:
  assumes "reads_as s t" "\<And>statement. \<not> we_fault env' statement" "load_files env candidate s sources = Inr r"
  shows "load_files env' candidate t sources = Inr r"
proof -
  have files: "source_files env' source version limit t = Inr x" if "source_files env source version limit s = Inr x"
    for source version limit x
    using that assms(2) by (auto simp: source_files_def reads_as_file_rows [OF assms(1)])
  show ?thesis using assms(3)
  proof (induction sources arbitrary: r)
    case (Cons source sources)
    note step = Cons.prems [unfolded load_files.simps]
    show ?case unfolding load_files.simps
    proof (rule if_again [OF step])
      assume "and_then (source_files env (ls_id (lo_manifest source)) (lo_manifest_version source) (lo_file_count source) s)
        (\<lambda>found. case found of None \<Rightarrow> Inr None | Some files \<Rightarrow> and_then (load_files env candidate s sources) (\<lambda>rest.
           Inr (map_option (\<lambda>xs. source\<lparr>lo_manifest := (lo_manifest source)\<lparr>ls_files := files\<rparr>\<rparr> # xs) rest))) = Inr r"
      then show "and_then (source_files env' (ls_id (lo_manifest source)) (lo_manifest_version source) (lo_file_count source) t)
        (\<lambda>found. case found of None \<Rightarrow> Inr None | Some files \<Rightarrow> and_then (load_files env' candidate t sources) (\<lambda>rest.
           Inr (map_option (\<lambda>xs. source\<lparr>lo_manifest := (lo_manifest source)\<lparr>ls_files := files\<rparr>\<rparr> # xs) rest))) = Inr r"
        by (rule and_then_again) (erule files, erule option_again, assumption, erule and_then_again, erule Cons.IH, assumption)
    next
      assume "and_then (load_files env candidate s sources) (\<lambda>rest. Inr (map_option (\<lambda>xs. source # xs) rest)) = Inr r"
      then show "and_then (load_files env' candidate t sources) (\<lambda>rest. Inr (map_option (\<lambda>xs. source # xs) rest)) = Inr r"
        by (rule and_then_again) (erule Cons.IH, assumption)
    qed
  qed simp
qed

lemma candidate_sources_again:
  assumes "reads_as s t" "we_codec env' = we_codec env" "\<And>statement. \<not> we_fault env' statement"
    and "candidate_sources env candidate release policy s s = Inr r"
  shows "candidate_sources env' candidate release policy t t = Inr r"
proof -
  obtain f where f: "asks f" "torrent_rows (we_codec env) t release (cp_source_filters policy)
      = map f (torrent_rows (we_codec env) s release (cp_source_filters policy))"
    "torrent_source (we_codec env) t \<circ> f = torrent_source (we_codec env) s"
    by (rule reads_as_torrents [OF assms(1)])
  define n where "n = length (filter (\<lambda>f. \<not> tf_padding f) (tm_files candidate))"
  define rest where "rest = (\<lambda>env s torrents.
    and_then (if 0 < MAX_PLAUSIBLE_SOURCES - length torrents
      then query env SelectData (data_rows s release (MAX_PLAUSIBLE_SOURCES - length torrents)) else Inr []) (\<lambda>rows.
    and_then (try_map (data_source (we_codec env) s) rows) (\<lambda>directories.
      if \<not> admit_files candidate (cp_matching policy) n (torrents @ directories) n then Inr SourcesBudgetExceeded
      else and_then (load_files env candidate s (torrents @ directories)) (\<lambda>loaded.
        Inr (case loaded of None \<Rightarrow> SourcesBudgetExceeded | Some xs \<Rightarrow> SourcesLoaded xs)))))"
  have unfold: "candidate_sources env candidate release policy s s =
      and_then (query env SelectTorrents (torrent_rows (we_codec env) s release (cp_source_filters policy))) (\<lambda>rows.
      and_then (try_map (torrent_source (we_codec env) s) rows) (rest env s))" for env s
    unfolding candidate_sources_def Let_def n_def [symmetric] rest_def ..
  obtain torrents where torrents: "try_map (torrent_source (we_codec env) s)
      (torrent_rows (we_codec env) s release (cp_source_filters policy)) = Inr torrents" "rest env s torrents = Inr r"
    using assms(4) unfolding unfold by auto
  have "rest env' t torrents = Inr r"
    using torrents(2) unfolding rest_def assms(2) reads_as_data [OF assms(1)]
    by (elim and_then_again if_again reads_as_load_files [OF assms(1,3)] query_again [OF assms(3)])
  then show ?thesis using torrents(1) unfolding unfold by (simp add: assms(2,3) f(2,3) try_map_map query_def)
qed

section \<open>Asking again\<close>

definition requested :: "torrent_manifest \<Rightarrow> loaded_source list \<Rightarrow> source_id set" where
  "requested candidate sources = {ls_id (lo_manifest x) | x. x \<in> set sources \<and> lo_complete x \<and> \<not> usable candidate x}"

lemma classify_asked:
  assumes "classify env candidate sources waits available s = (Inr r, t)"
  shows "\<forall>row \<in> set (ws_torrents t). qt_id row \<in> requested candidate sources \<longrightarrow> qt_manifest_state row \<noteq> ''unloaded''"
  using assms
proof (induction sources arbitrary: waits available s)
  case (Cons x xs)
  show ?case
  proof (cases "lo_complete x \<and> \<not> usable candidate x")
    case True
    then obtain u where req: "request_manifest env (ls_id (lo_manifest x)) s = (Inr (), u)"
      and rest: "classify env candidate xs (waits @ [ls_id (lo_manifest x)]) available u = (Inr r, t)"
      using Cons.prems by (auto simp: usable_def)
    have asked: "\<forall>row \<in> set (ws_torrents u). qt_id row = ls_id (lo_manifest x) \<longrightarrow> qt_manifest_state row \<noteq> ''unloaded''"
      using req by (auto simp: request_manifest_def)
    obtain waits' available' where r: "r = (waits', available')" by (cases r)
    obtain f where f: "asks f" "t = u\<lparr>ws_torrents := map f (ws_torrents u)\<rparr>"
      using classify_Inr [OF rest [unfolded r]] by blast
    have "qt_manifest_state (f row) = ''unloaded'' \<Longrightarrow> qt_manifest_state row = ''unloaded''" for row
      using f(1) [unfolded asks_def, rule_format, of row] by (auto simp: staled_def)
    then have "\<forall>row \<in> set (ws_torrents t). qt_id row = ls_id (lo_manifest x) \<longrightarrow> qt_manifest_state row \<noteq> ''unloaded''"
      using asked by (auto simp: f(2) asks_fields [OF f(1)])
    then show ?thesis using Cons.IH [OF rest] by (auto simp: requested_def)
  next
    case False
    then have "\<exists>waits available. classify env candidate xs waits available s = (Inr r, t)"
      using Cons.prems by (cases "lo_complete x") (auto simp: usable_def)
    moreover have "requested candidate (x # xs) = requested candidate xs" using False by (auto simp: requested_def)
    ultimately show ?thesis using Cons.IH by auto
  qed
qed (simp add: requested_def)

lemma classify_again:
  assumes "classify env candidate sources waits available s = (Inr r, t)" "\<And>statement. \<not> we_fault env' statement"
    and "\<forall>row \<in> set (ws_torrents u). qt_id row \<in> requested candidate sources \<longrightarrow> qt_manifest_state row \<noteq> ''unloaded''"
  shows "classify env' candidate sources waits available u = (Inr r, u)"
  using assms(1,3)
proof (induction sources arbitrary: waits available s)
  case (Cons x xs)
  show ?case
  proof (cases "lo_complete x \<and> \<not> usable candidate x")
    case True
    then obtain v where rest: "classify env candidate xs (waits @ [ls_id (lo_manifest x)]) available v = (Inr r, t)"
      using Cons.prems(1) by (auto simp: usable_def)
    have "\<forall>row \<in> set (ws_torrents u). \<not> (qt_id row = ls_id (lo_manifest x) \<and> qt_manifest_state row = ''unloaded'')"
      using Cons.prems(2) True by (auto simp: requested_def)
    then have "request_manifest env' (ls_id (lo_manifest x)) u = (Inr (), u)"
      using assms(2) by (simp add: request_manifest_def transaction_def map_idI)
    moreover have "classify env' candidate xs (waits @ [ls_id (lo_manifest x)]) available u = (Inr r, u)"
      by (rule Cons.IH [OF rest]) (use Cons.prems(2) in \<open>auto simp: requested_def\<close>)
    ultimately show ?thesis using True by (auto simp: usable_def)
  next
    case False
    have "\<forall>row \<in> set (ws_torrents u). qt_id row \<in> requested candidate xs \<longrightarrow> qt_manifest_state row \<noteq> ''unloaded''"
      using Cons.prems(2) by (auto simp: requested_def)
    then show ?thesis using Cons.prems(1) Cons.IH False by (cases "lo_complete x") (auto simp: usable_def)
  qed
qed simp

section \<open>Writing again\<close>

lemma project_candidate_task_again:
  assumes "project_candidate_task codec task state reason terminal detail now s = Inr t"
  shows "project_candidate_task codec task state reason' terminal' detail' now' t = Inr t" "st_policies t = st_policies s"
proof -
  have "(case st_tasks t task of None \<Rightarrow> True | Some row \<Rightarrow> tk_state row = state \<or> tk_terminal_at row \<noteq> None) \<and> st_policies t = st_policies s"
  proof (cases "st_tasks s task")
    case (Some row)
    show ?thesis
    proof (cases "tk_state row = state \<or> tk_terminal_at row \<noteq> None")
      case False
      define update where "update = \<lparr> pu_task_id = task, pu_expected_generation = tk_generation row, pu_state = state,
        pu_reason_code = reason, pu_execution_id = None, pu_observed_retry_count = 0,
        pu_detail_json = Some detail, pu_occurred_at = now, pu_terminal = terminal \<rparr>"
      have k: "pu_task_id update = task" "pu_expected_generation update = tk_generation row" "pu_state update = state"
        by (simp_all add: update_def)
      have "project_candidate_task codec task state reason terminal detail now s
          = (case project_task codec update s s of Inl e \<Rightarrow> Inl (TaskProjection e) | Inr (Missing, _) \<Rightarrow> Inl MissingTask | Inr (_, s') \<Rightarrow> Inr s')"
        using False by (simp add: project_candidate_task_def Some update_def)
      with assms obtain out where "project_task codec update s s = Inr (out, t)"
        by (auto split: sum.splits projection_outcome.splits)
      then obtain next_generation where "apply_projection update next_generation s = Inr (out, t)"
        using False by (auto simp: project_task_def k Some split: if_splits)
      then show ?thesis using False
        by (auto simp: apply_projection_def k Some add_event_def set_task_def projected_row_def split: if_splits)
    qed (use assms Some in \<open>simp add: project_candidate_task_def\<close>)
  qed (use assms in \<open>simp add: project_candidate_task_def\<close>)
  then show "project_candidate_task codec task state reason' terminal' detail' now' t = Inr t" "st_policies t = st_policies s"
    by (auto simp: project_candidate_task_def split: option.splits)
qed

definition planned_row ::
  "workflow_env \<Rightarrow> workflow_input \<Rightarrow> loaded_candidate \<Rightarrow> match_decision \<Rightarrow> string \<Rightarrow> workflow_store \<Rightarrow> (workflow_error, stored_plan) result" where
  "planned_row env input loaded d m s =
     (let c = we_codec env; key = ''cand_'' @ encode_hex (lc_id loaded); shard = encode_hex (take 2 (lc_id loaded));
          ns = join_component (join_component (cp_namespace_local_root (lc_policy loaded)) shard) key;
          save = join_component (join_component (cp_save_path_remote_root (lc_policy loaded)) shard) key
      in and_then (source_template_data c s (md_source_ids d)) (\<lambda>source.
         let context = plan_context (we_unicode env) loaded d source
         in and_then (plan_category loaded source context) (\<lambda>category.
            and_then (plan_tags loaded source context) (\<lambda>tags.
            let resume = wc_resume c (ij_resume (cp_injection (lc_policy loaded)))
            in Inr \<lparr> pn_match_id = m, pn_candidate_id = wi_candidate_id input, pn_namespace_local = ns, pn_save_path_remote = save,
                 pn_category = category, pn_tags_json = wc_tags c tags, pn_resume_policy_json = resume,
                 pn_digest = cd_sha256 (wc_codec c) (wc_material c \<lparr> pm_match_id = encode_hex m,
                   pm_candidate_id = encode_hex (wi_candidate_id input), pm_namespace_local = ns, pm_save_path_remote = save,
                   pm_category = category, pm_tags = tags, pm_resume_policy = resume, pm_mappings = md_mappings d \<rparr>),
                 pn_state = (if ij_dry_run (cp_injection (lc_policy loaded)) then ''dry_run_complete'' else ''planned'') \<rparr>))))"

lemma and_then_assoc: "and_then (and_then a f) g = and_then a (\<lambda>x. and_then (f x) g)"
  by (cases a) simp_all

lemma persist_plan_split:
  "persist_plan env input loaded d m s =
     and_then (planned_row env input loaded d m s) (\<lambda>row.
     and_then (insert_plan (wc_codec (we_codec env)) (first_16 (pn_digest row)) row s) (\<lambda>s'.
     and_then (verify_plan (first_16 (pn_digest row)) (pn_digest row) s') (\<lambda>_. Inr (first_16 (pn_digest row), s'))))"
  by (simp add: persist_plan_def planned_row_def Let_def and_then_assoc)

lemma template_data_again:
  "ws_torrents t = ws_torrents s \<Longrightarrow> source_template_data c t ids = source_template_data c s ids"
proof -
  assume a: "ws_torrents t = ws_torrents s"
  have "template_data_loop c t xs acc = template_data_loop c s xs acc" for xs acc
    by (induction xs arbitrary: acc) (simp_all add: a split: option.split)
  then show ?thesis by (simp add: source_template_data_def)
qed

lemma persist_plan_again:
  assumes "persist_plan env input loaded d m s = Inr (p, s')" and "we_codec env' = we_codec env" "we_unicode env' = we_unicode env"
    and "ws_torrents t = ws_torrents s" "ws_plans t = ws_plans s'"
  shows "persist_plan env' input loaded d m t = Inr (p, t)"
proof -
  have same: "planned_row env' input loaded d m t = planned_row env input loaded d m s"
    unfolding planned_row_def Let_def assms(2,3) template_data_again [OF assms(4)] ..
  obtain row where row: "planned_row env input loaded d m s = Inr row"
    "insert_plan (wc_codec (we_codec env)) (first_16 (pn_digest row)) row s = Inr s'"
    "verify_plan (first_16 (pn_digest row)) (pn_digest row) s' = Inr ()" "p = first_16 (pn_digest row)"
    using assms(1) unfolding persist_plan_split by auto
  have v: "verify_plan (first_16 (pn_digest row)) (pn_digest row) t = Inr ()" using row(3) by (simp add: verify_plan_def assms(5))
  have "ws_plans t (first_16 (pn_digest row)) \<noteq> None" using v by (auto simp: verify_plan_def split: option.splits)
  then have "insert_plan (wc_codec (we_codec env)) (first_16 (pn_digest row)) row t = Inr t"
    using row(2) by (auto simp: insert_plan_def split: if_splits)
  then show ?thesis unfolding persist_plan_split same assms(2) row(1) and_then_simps using v row(4) by simp
qed

lemma insert_mappings_again:
  assumes "insert_mappings m ms s = Inr s'" "ws_mappings t = ws_mappings s'"
  shows "insert_mappings m ms t = Inr t"
proof -
  have "\<forall>x \<in> set ms. ws_mappings t (m, fm_candidate_ordinal x) \<noteq> None \<and> fm_source_file_id x \<le> i64_max \<and> fm_size x \<le> i64_max"
    using insert_mappings_Inr(4) [OF assms(1)] assms(2) by simp
  then show ?thesis by (induction ms) (auto simp: checked_i64_def)
qed

text \<open>The write of the time stamp of a candidate, all that an evaluation changes when it is repeated.\<close>

definition touch_candidate :: "candidate_id \<Rightarrow> int \<Rightarrow> workflow_store \<Rightarrow> workflow_store" where
  "touch_candidate candidate now s =
     s\<lparr>ws_intake := (ws_intake s)\<lparr>cs_candidates := (cs_candidates (ws_intake s))
        (candidate := map_option (\<lambda>row. row\<lparr>cr_updated_at := now\<rparr>) (cs_candidates (ws_intake s) candidate))\<rparr>\<rparr>"

lemma terminal_transaction_again:
  assumes "terminal_transaction env input loaded d s = Inr (plan, v)" and "we_codec env' = we_codec env" "we_unicode env' = we_unicode env"
    and t: "t = v\<lparr>ws_intake := (ws_intake v)\<lparr>cs_tasks := tasks\<rparr>\<rparr>"
  shows "terminal_transaction env' input loaded d t = Inr (plan, touch_candidate (wi_candidate_id input) (we_now env') t)" "ws_torrents v = ws_torrents s"
    "ws_data v = ws_data s" "ws_files v = ws_files s" "ws_titles v = ws_titles s" "ws_external_ids v = ws_external_ids s"
    "ws_intake v = ws_intake (set_candidate_state (wi_candidate_id input) (terminal_state d (ij_dry_run (cp_injection (lc_policy loaded)))) (we_now env) s)"
proof -
  define m where "m = match_identity (we_codec env) input loaded d"
  obtain s1 s2 s3 where p:
    "insert_match (wc_codec (we_codec env)) m (match_row_of (we_codec env) input d) (delete_waiting (wi_task_id input) s) = Inr s1"
    "verify_match m (decision_digest (we_codec env) d) s1 = Inr ()" "insert_mappings m (md_mappings d) s1 = Inr s2"
    "v = set_candidate_state (wi_candidate_id input) (terminal_state d (ij_dry_run (cp_injection (lc_policy loaded)))) (we_now env) s3"
    "if md_outcome d = Match then \<exists>p. plan = Some p \<and> persist_plan env input loaded d m s2 = Inr (p, s3) else plan = None \<and> s3 = s2"
    unfolding m_def by (rule terminal_transaction_Inr [OF assms(1)])
  have s1: "s1 = (delete_waiting (wi_task_id input) s)\<lparr>ws_matches := ws_matches s1\<rparr>" by (rule insert_match_Inr(1) [OF p(1)])
  have s2: "s2 = s1\<lparr>ws_mappings := ws_mappings s2\<rparr>" by (rule insert_mappings_Inr(1) [OF p(3)])
  have s3: "s3 = s2\<lparr>ws_plans := ws_plans s3\<rparr>"
  proof (cases "md_outcome d = Match")
    case True
    with p(5) obtain q where "persist_plan env input loaded d m s2 = Inr (q, s3)" by auto
    then show ?thesis by (elim persist_plan_Inr)
  qed (use p(5) in simp)
  note s1f = arg_cong [OF s1] and s2f = arg_cong [OF s2] and s3f = arg_cong [OF s3]
  have w: "ws_waiting s3 = filter (\<lambda>w. wt_task_id w \<noteq> wi_task_id input) (ws_waiting s)"
    using s1f [of ws_waiting] s2f [of ws_waiting] s3f [of ws_waiting] by (simp add: delete_waiting_def)
  have i: "ws_intake s3 = ws_intake s" using s1f [of ws_intake] s2f [of ws_intake] s3f [of ws_intake] by (simp add: delete_waiting_def)
  have tor: "ws_torrents s2 = ws_torrents s" "ws_torrents s3 = ws_torrents s2"
    using s1f [of ws_torrents] s2f [of ws_torrents] s3f [of ws_torrents] by (simp_all add: delete_waiting_def)
  show "ws_torrents v = ws_torrents s" using tor by (simp add: p(4))
  show "ws_data v = ws_data s" using s1f [of ws_data] s2f [of ws_data] s3f [of ws_data]
    by (simp add: p(4) delete_waiting_def set_candidate_state_def)
  show "ws_files v = ws_files s" using s1f [of ws_files] s2f [of ws_files] s3f [of ws_files]
    by (simp add: p(4) delete_waiting_def set_candidate_state_def)
  show "ws_titles v = ws_titles s" using s1f [of ws_titles] s2f [of ws_titles] s3f [of ws_titles]
    by (simp add: p(4) delete_waiting_def set_candidate_state_def)
  show "ws_external_ids v = ws_external_ids s" using s1f [of ws_external_ids] s2f [of ws_external_ids] s3f [of ws_external_ids]
    by (simp add: p(4) delete_waiting_def set_candidate_state_def)
  show "ws_intake v = ws_intake (set_candidate_state (wi_candidate_id input) (terminal_state d (ij_dry_run (cp_injection (lc_policy loaded)))) (we_now env) s)"
    by (simp add: p(4) set_candidate_state_def i)
  have tf: "ws_waiting t = ws_waiting s3" "ws_matches t = ws_matches s3" "ws_mappings t = ws_mappings s3" "ws_plans t = ws_plans s3"
    "ws_torrents t = ws_torrents s3" by (simp_all add: t p(4))
  have ma: "ws_matches s3 = ws_matches s1" "ws_mappings s3 = ws_mappings s2"
    using s2f [of ws_matches] s3f [of ws_matches] s3f [of ws_mappings] by simp_all
  have del: "delete_waiting (wi_task_id input) t = t" by (simp add: delete_waiting_def tf(1) w)
  have ver: "verify_match m (decision_digest (we_codec env) d) t = Inr ()" using p(2) by (simp add: verify_match_def tf(2) ma)
  then have "ws_matches t m \<noteq> None" by (auto simp: verify_match_def split: option.splits)
  then have ins: "insert_match (wc_codec (we_codec env)) m (match_row_of (we_codec env) input d) t = Inr t"
    using p(1) by (auto simp: insert_match_def checked_i64_def split: if_splits)
  have maps: "insert_mappings m (md_mappings d) t = Inr t" by (rule insert_mappings_again [OF p(3)]) (simp add: tf(3) ma)
  have state: "set_candidate_state (wi_candidate_id input) (terminal_state d (ij_dry_run (cp_injection (lc_policy loaded)))) (we_now env') t =
      touch_candidate (wi_candidate_id input) (we_now env') t"
    by (simp add: t p(4) set_candidate_state_def touch_candidate_def option.map_comp comp_def)
  have plan: "(if md_outcome d = Match then and_then (persist_plan env' input loaded d m t) (\<lambda>(plan, s3). Inr (Some plan, s3))
      else Inr (None, t)) = Inr (plan, t)"
  proof (cases "md_outcome d = Match")
    case True
    with p(5) obtain q where q: "plan = Some q" "persist_plan env input loaded d m s2 = Inr (q, s3)" by auto
    have "persist_plan env' input loaded d m t = Inr (q, t)"
      by (rule persist_plan_again [OF q(2) assms(2,3)]) (simp_all add: tf tor)
    then show ?thesis by (simp add: True q(1))
  qed (use p(5) in simp)
  show "terminal_transaction env' input loaded d t = Inr (plan, touch_candidate (wi_candidate_id input) (we_now env') t)"
    unfolding terminal_transaction_def Let_def assms(2) m_def [symmetric] del ins and_then_simps ver maps plan prod.case state ..
qed

lemma load_candidate_again:
  assumes "load_candidate env input s = Inr loaded" "we_codec env' = we_codec env" "\<And>statement. \<not> we_fault env' statement"
    and "ws_intake t = (ws_intake (set_candidate_state (wi_candidate_id input) state now s))\<lparr>cs_tasks := tasks\<rparr>"
    and "st_policies tasks = st_policies (cs_tasks (ws_intake s))"
  shows "load_candidate env' input t = Inr loaded"
proof -
  have "candidate_join input (ws_intake t) = map_option (\<lambda>(row, policy, origin). (row\<lparr>cr_state := state, cr_updated_at := now\<rparr>, policy, origin))
      (candidate_join input (ws_intake s))"
    by (simp add: candidate_join_def assms(4,5) set_candidate_state_def option.map_comp comp_def
        split: option.split bind_splits)
  then show ?thesis using assms(1)
    by (auto simp: load_candidate_def assms(2,3) query_def split: if_splits)
qed

lemma persist_terminal_again:
  assumes "persist_terminal env input loaded d s = (Inr r, t)" and env': "we_codec env' = we_codec env" "we_unicode env' = we_unicode env"
    "\<And>statement. \<not> we_fault env' statement"
  shows "persist_terminal env' input loaded d t = (Inr r, touch_candidate (wi_candidate_id input) (we_now env') t)" "reads_as s t"
    "\<exists>tasks. ws_intake t = (ws_intake (set_candidate_state (wi_candidate_id input)
        (terminal_state d (ij_dry_run (cp_injection (lc_policy loaded)))) (we_now env) s))\<lparr>cs_tasks := tasks\<rparr> \<and>
      st_policies tasks = st_policies (cs_tasks (ws_intake s))"
    "ws_torrents t = ws_torrents s"
proof -
  define state where "state = terminal_state d (ij_dry_run (cp_injection (lc_policy loaded)))"
  define m where "m = match_identity (we_codec env) input loaded d"
  define detail where "detail = (\<lambda>plan. wc_terminal_detail (we_codec env) (encode_hex m) (map_option encode_hex plan))"
  obtain plan v where v: "terminal_transaction env input loaded d s = Inr (plan, v)"
    "project_state env input state (Some (reason_text (md_reason d))) (state \<noteq> ''planned'') (detail plan) v = (Inr (), t)"
    "r = CandidateTerminal state (reason_text (md_reason d)) m plan"
    using assms(1) by (auto simp: persist_terminal_def Let_def simp flip: state_def m_def simp: detail_def)
  obtain tasks where tasks: "project_candidate_task (wc_codec (we_codec env)) (wi_task_id input) state (Some (reason_text (md_reason d)))
      (state \<noteq> ''planned'') (detail plan) (we_now env) (cs_tasks (ws_intake v)) = Inr tasks"
    "t = v\<lparr>ws_intake := (ws_intake v)\<lparr>cs_tasks := tasks\<rparr>\<rparr>" by (rule project_state_frame [OF v(2)])
  note tx = terminal_transaction_again [OF v(1) env'(1,2) tasks(2)]
  have "cs_tasks (ws_intake t) = tasks" by (simp add: tasks(2))
  then have proj: "project_state env' input state (Some (reason_text (md_reason d))) (state \<noteq> ''planned'') (detail plan)
      (touch_candidate (wi_candidate_id input) (we_now env') t) = (Inr (), touch_candidate (wi_candidate_id input) (we_now env') t)"
    using project_candidate_task_again(1) [OF tasks(1)] by (simp add: project_state_def env'(1,3) map_err_def touch_candidate_def)
  show "persist_terminal env' input loaded d t = (Inr r, touch_candidate (wi_candidate_id input) (we_now env') t)"
    unfolding persist_terminal_def Let_def env'(1) state_def [symmetric] m_def [symmetric] tx(1)
    using proj by (simp add: transaction_def env'(3) and_do_def v(3) detail_def)
  show tor: "ws_torrents t = ws_torrents s" using tx(2) by (simp add: tasks(2))
  have "map (\<lambda>row. row) (ws_torrents s) = ws_torrents s" by simp
  then have "\<exists>f. asks f \<and> ws_torrents t = map f (ws_torrents s)" using tor asks_id by metis
  then show "reads_as s t" unfolding reads_as_def using tx(3-6) by (simp add: tasks(2))
  have "cs_tasks (ws_intake v) = cs_tasks (ws_intake s)" by (simp add: tx(7))
  then show "\<exists>tasks. ws_intake t = (ws_intake (set_candidate_state (wi_candidate_id input)
        (terminal_state d (ij_dry_run (cp_injection (lc_policy loaded)))) (we_now env) s))\<lparr>cs_tasks := tasks\<rparr> \<and>
      st_policies tasks = st_policies (cs_tasks (ws_intake s))"
    using project_candidate_task_again(2) [OF tasks(1)] tx(7) by (intro exI [of _ tasks]) (simp add: tasks(2))
qed

lemma conclude_again:
  assumes "conclude env input loaded waits d s = (Inr (CandidateTerminal state reason m plan), t)" "we_now env \<le> we_now env'"
  obtains d' where "persist_terminal env input loaded d' s = (Inr (CandidateTerminal state reason m plan), t)"
    "conclude env' input loaded waits d u = persist_terminal env' input loaded d' u"
proof (cases "md_outcome d = NoMatch \<and> waits \<noteq> []")
  case True
  then obtain stop where stop: "deadline loaded = Inr stop" using assms(1) by (cases "deadline loaded") (auto simp: conclude_def)
  then have "\<not> we_now env < stop" using assms(1) True by (auto simp: conclude_def Let_def)
  then show thesis using that [of "rejected_source_timeout d"] assms True stop by (simp add: conclude_def)
next
  case False
  then have c: "conclude e input loaded waits d s = persist_terminal e input loaded d s" for e s
    unfolding conclude_def by (simp only: if_False)
  show thesis using that [of d] assms(1) unfolding c by blast
qed

section \<open>Properties\<close>

text \<open>
  C35: An evaluation that has ended can be repeated.  When the same evaluation runs
  again at any later time, after the activity was delivered twice or its answer was
  lost, and the store has not changed in between, it gives the same answer, with the
  same match and the same plan, and the only change in the store is the time stamp
  \<open>updated_at\<close> of the candidate row.
\<close>

theorem reevaluation_is_stable:
  assumes "evaluate_candidate env input s s = (Inr (CandidateTerminal state reason m plan), t)"
    and "we_codec env' = we_codec env" "we_unicode env' = we_unicode env" "\<forall>statement. \<not> we_fault env' statement"
    and "we_now env \<le> we_now env'"
  shows "evaluate_candidate env' input t t =
    (Inr (CandidateTerminal state reason m plan), touch_candidate (wi_candidate_id input) (we_now env') t)"
proof (rule evaluate_candidate_cases [OF assms(1)])
  have env': "\<And>statement. \<not> we_fault env' statement" using assms(4) by simp
  {
    fix loaded
    assume l: "load_candidate env input s = Inr loaded"
      "candidate_sources env (lc_manifest loaded) (lc_release loaded) (lc_policy loaded) s s = Inr SourcesBudgetExceeded"
      "persist_terminal env input loaded (matcher_budget_rejection loaded) s = (Inr (CandidateTerminal state reason m plan), t)"
    note again = persist_terminal_again [OF l(3) assms(2,3) env']
    obtain tasks where "load_candidate env' input t = Inr loaded"
      using again(3) load_candidate_again [OF l(1) assms(2) env'] by blast
    then show ?thesis
      using candidate_sources_again [OF again(2) assms(2) env' l(2)] again(1) by (simp add: evaluate_candidate_def)
  next
    fix loaded sources f d
    let ?u = "s\<lparr>ws_torrents := map f (ws_torrents s)\<rparr>"
    assume l: "load_candidate env input s = Inr loaded"
      "candidate_sources env (lc_manifest loaded) (lc_release loaded) (lc_policy loaded) s s = Inr (SourcesLoaded sources)"
      "asks f" "evaluate (we_unicode env) (request_of_sources loaded sources) = Some d"
      "classify env (lc_manifest loaded) sources [] []  s = (Inr (pending_ids loaded sources,
         map lo_manifest (filter (usable (lc_manifest loaded)) sources)), ?u)"
      "conclude env input loaded (pending_ids loaded sources) d ?u = (Inr (CandidateTerminal state reason m plan), t)"
    obtain d' where d': "persist_terminal env input loaded d' ?u = (Inr (CandidateTerminal state reason m plan), t)"
      "conclude env' input loaded (pending_ids loaded sources) d t = persist_terminal env' input loaded d' t"
      by (rule conclude_again [OF l(6) assms(5)])
    note again = persist_terminal_again [OF d'(1) assms(2,3) env']
    have reads: "reads_as s t" using again(2,4) l(3) by (auto simp: reads_as_def)
    have load: "load_candidate env' input t = Inr loaded"
      using again(3) load_candidate_again [OF l(1) assms(2) env', of t] by (auto simp: set_candidate_state_def)
    have "\<forall>row \<in> set (ws_torrents t). qt_id row \<in> requested (lc_manifest loaded) sources \<longrightarrow> qt_manifest_state row \<noteq> ''unloaded''"
      using classify_asked [OF l(5)] by (simp add: again(4))
    from classify_again [OF l(5) env' this]
    show ?thesis
      unfolding evaluate_candidate_def load sum.case candidate_sources_again [OF reads assms(2) env' l(2)] candidate_sources_result.case
      using l(4) again(1) d'(2) by (simp add: and_do_def assms(3) request_of_sources_def)
  }
qed

theorem reevaluation_is_stable_witness:
  "\<exists>reason m p t. evaluate_candidate (sample_workflow_env 0) sample_workflow_input (sample_workflow_store sample_intake)
      (sample_workflow_store sample_intake) = (Inr (CandidateTerminal ''planned'' reason m (Some p)), t) \<and>
     evaluate_candidate (sample_workflow_env 900000) sample_workflow_input t t =
       (Inr (CandidateTerminal ''planned'' reason m (Some p)), touch_candidate ''cc'' 900000 t)"
proof -
  obtain reason m p t where e: "evaluate_candidate (sample_workflow_env 0) sample_workflow_input (sample_workflow_store sample_intake)
      (sample_workflow_store sample_intake) = (Inr (CandidateTerminal ''planned'' reason m (Some p)), t)"
    using planned_evaluation [of 0] by blast
  have "evaluate_candidate (sample_workflow_env 900000) sample_workflow_input t t =
      (Inr (CandidateTerminal ''planned'' reason m (Some p)),
       touch_candidate (wi_candidate_id sample_workflow_input) (we_now (sample_workflow_env 900000)) t)"
    by (rule reevaluation_is_stable [OF e]) (simp_all add: sample_workflow_env_def)
  then show ?thesis using e by (auto simp: sample_workflow_input_def sample_workflow_env_def)
qed

end
