(* ===== verification/Inventory.thy ===== *)
theory Inventory
  imports Prelude
begin

text \<open>
  The inventory responses of qBittorrent, \<open>crates/sporos-service/src/inventory.rs\<close>.

  The tokens are decoded by \<open>serde_json\<close>; what the visitors of this file see of a
  response is a list of decoded entries and whether the response ends there or the
  decoder fails (\<open>body_end\<close>).  A progress value is the parts per million that
  the code computes from the \<open>f64\<close>, and \<open>None\<close> outside of 0 to 1.  A visitor hands
  what it accepts to the receiver before it fails, so its result is the list of what
  was emitted together with the outcome.  \<open>usize\<close> counters are unbounded.
\<close>

definition MAX_HASH_BYTES :: nat where "MAX_HASH_BYTES = 64"
definition MAX_NAME_BYTES :: nat where "MAX_NAME_BYTES = 4096"
definition MAX_INVENTORY_PATH_BYTES :: nat where "MAX_INVENTORY_PATH_BYTES = 16384"
definition MAX_LABEL_BYTES :: nat where "MAX_LABEL_BYTES = 4096"
definition MAX_STATE_BYTES :: nat where "MAX_STATE_BYTES = 64"

record inventory_torrent =
  it_hash :: string
  it_infohash_v1 :: string
  it_infohash_v2 :: string
  it_name :: string
  it_total_size :: nat
  it_amount_left :: nat
  it_progress :: "nat option"
  it_state :: string
  it_save_path :: string
  it_content_path :: string
  it_category :: string
  it_tags :: string
  it_added_on :: int
  it_completion_on :: int

record inventory_delta =
  dl_infohash_v1 :: "string option"
  dl_infohash_v2 :: "string option"
  dl_name :: "string option"
  dl_total_size :: "nat option"
  dl_amount_left :: "nat option"
  dl_progress :: "nat option option"
  dl_state :: "string option"
  dl_save_path :: "string option"
  dl_content_path :: "string option"
  dl_category :: "string option"
  dl_tags :: "string option"
  dl_added_on :: "int option"
  dl_completion_on :: "int option"

datatype inventory_change =
    Upsert string inventory_delta
  | Removed string

record main_data =
  mn_response_id :: nat
  mn_full_update :: bool
  mn_changed :: nat
  mn_removed :: nat

record inventory_file =
  vf_index :: nat
  vf_name :: string
  vf_size :: nat
  vf_progress :: "nat option"

datatype inventory_parse_error = InventoryLimitExceeded | InventoryJson

datatype body_end = EndOk | EndError inventory_parse_error

definition finish_body :: "body_end \<Rightarrow> 'a \<Rightarrow> (inventory_parse_error, 'a) result" where
  "finish_body stop x = (case stop of EndOk \<Rightarrow> Inr x | EndError e \<Rightarrow> Inl e)"

section \<open>Validation\<close>

definition is_ascii_hexdigit :: "char \<Rightarrow> bool" where
  "is_ascii_hexdigit c \<longleftrightarrow> is_ascii_digit c
     \<or> 65 \<le> (of_char c :: nat) \<and> (of_char c :: nat) \<le> 70 \<or> 97 \<le> (of_char c :: nat) \<and> (of_char c :: nat) \<le> 102"

definition validate_id :: "string \<Rightarrow> (string, unit) result" where
  "validate_id value =
     (if value = [] \<or> length value > MAX_HASH_BYTES \<or> \<not> list_all is_ascii_hexdigit value
      then Inl ''invalid qBittorrent torrent ID'' else Inr ())"

definition validate_hash :: "nat \<Rightarrow> string \<Rightarrow> (string, unit) result" where
  "validate_hash n value =
     (if value \<noteq> [] \<and> (length value \<noteq> n \<or> \<not> list_all is_ascii_hexdigit value)
      then Inl ''invalid infohash'' else Inr ())"

fun validate_limits :: "(string option \<times> nat \<times> string) list \<Rightarrow> (string, unit) result" where
  "validate_limits [] = Inr ()"
| "validate_limits ((value, limit, field) # rest) =
     (case value of
        Some v \<Rightarrow> if length v > limit then Inl field else validate_limits rest
      | None \<Rightarrow> validate_limits rest)"

definition validate_torrent :: "inventory_torrent \<Rightarrow> (string, unit) result" where
  "validate_torrent torrent =
     and_then (validate_id (it_hash torrent)) (\<lambda>_.
     and_then (validate_hash 40 (it_infohash_v1 torrent)) (\<lambda>_.
     and_then (validate_hash 64 (it_infohash_v2 torrent)) (\<lambda>_.
       if it_progress torrent = None then Inl ''invalid progress''
       else validate_limits
         [(Some (it_name torrent), MAX_NAME_BYTES, ''name''), (Some (it_state torrent), MAX_STATE_BYTES, ''state''),
          (Some (it_save_path torrent), MAX_INVENTORY_PATH_BYTES, ''save path''),
          (Some (it_content_path torrent), MAX_INVENTORY_PATH_BYTES, ''content path''),
          (Some (it_category torrent), MAX_LABEL_BYTES, ''category''), (Some (it_tags torrent), MAX_LABEL_BYTES, ''tags'')])))"

definition validate_optional_hash :: "nat \<Rightarrow> string option \<Rightarrow> (string, unit) result" where
  "validate_optional_hash n value = (case value of None \<Rightarrow> Inr () | Some v \<Rightarrow> validate_hash n v)"

definition validate_delta :: "inventory_delta \<Rightarrow> (string, unit) result" where
  "validate_delta delta =
     and_then (validate_optional_hash 40 (dl_infohash_v1 delta)) (\<lambda>_.
     and_then (validate_optional_hash 64 (dl_infohash_v2 delta)) (\<lambda>_.
       if dl_progress delta = Some None then Inl ''invalid progress''
       else validate_limits
         [(dl_name delta, MAX_NAME_BYTES, ''name''), (dl_state delta, MAX_STATE_BYTES, ''state''),
          (dl_save_path delta, MAX_INVENTORY_PATH_BYTES, ''save path''),
          (dl_content_path delta, MAX_INVENTORY_PATH_BYTES, ''content path''),
          (dl_category delta, MAX_LABEL_BYTES, ''category''), (dl_tags delta, MAX_LABEL_BYTES, ''tags'')]))"

section \<open>Sequences\<close>

text \<open>The body of \<open>parse_inventory\<close>: the array of all torrents.\<close>

fun visit_torrents :: "inventory_torrent list \<Rightarrow> inventory_torrent list \<times> inventory_parse_error option" where
  "visit_torrents [] = ([], None)"
| "visit_torrents (torrent # rest) =
     (case validate_torrent torrent of
        Inl _ \<Rightarrow> ([], Some InventoryJson)
      | Inr _ \<Rightarrow> (case visit_torrents rest of (emitted, e) \<Rightarrow> (torrent # emitted, e)))"

definition parse_inventory ::
  "inventory_torrent list \<times> body_end \<Rightarrow> inventory_torrent list \<times> (inventory_parse_error, nat) result" where
  "parse_inventory body =
     (case visit_torrents (fst body) of
        (emitted, Some e) \<Rightarrow> (emitted, Inl e)
      | (emitted, None) \<Rightarrow> (emitted, finish_body (snd body) (length emitted)))"

definition valid_file :: "inventory_file \<Rightarrow> bool" where
  "valid_file file \<longleftrightarrow> \<not> (length (vf_name file) > MAX_INVENTORY_PATH_BYTES \<or> vf_progress file = None)"

fun visit_files :: "nat \<Rightarrow> nat \<Rightarrow> inventory_file list \<Rightarrow> inventory_file list \<times> inventory_parse_error option" where
  "visit_files limit count [] = ([], None)"
| "visit_files limit count (file # rest) =
     (if count = limit then ([], Some InventoryJson)
      else if \<not> valid_file file then ([], Some InventoryJson)
      else (case visit_files limit (count + 1) rest of (emitted, e) \<Rightarrow> (file # emitted, e)))"

definition parse_files ::
  "nat \<Rightarrow> inventory_file list \<times> body_end \<Rightarrow> inventory_file list \<times> (inventory_parse_error, nat) result" where
  "parse_files limit body =
     (case visit_files limit 0 (fst body) of
        (emitted, Some e) \<Rightarrow> (emitted, Inl e)
      | (emitted, None) \<Rightarrow> (emitted, finish_body (snd body) (length emitted)))"

section \<open>Main data\<close>

datatype main_entry =
    RidEntry nat
  | FullUpdateEntry bool
  | TorrentsEntry "(string \<times> inventory_delta) list" body_end
  | RemovedEntry "string list" body_end
  | IgnoredEntry

datatype main_data_message = Header main_data | Change inventory_change

record main_scan =
  ms_response_id :: "nat option"
  ms_full_update :: bool
  ms_emitted :: bool
  ms_changed :: nat
  ms_removed :: nat
  ms_messages :: "main_data_message list"

type_synonym 'a scan = "main_scan \<Rightarrow> (inventory_parse_error, 'a) result \<times> main_scan"

definition scan_then :: "'a scan \<Rightarrow> ('a \<Rightarrow> 'b scan) \<Rightarrow> 'b scan" where
  "scan_then m f st = (case m st of (Inl e, st') \<Rightarrow> (Inl e, st') | (Inr x, st') \<Rightarrow> f x st')"

definition emit_main_data_header :: "unit scan" where
  "emit_main_data_header st =
     (if ms_emitted st then (Inr (), st)
      else case ms_response_id st of
             None \<Rightarrow> (Inl InventoryJson, st)
           | Some rid \<Rightarrow> (Inr (), st\<lparr>ms_emitted := True, ms_messages := ms_messages st @
               [Header \<lparr>mn_response_id = rid, mn_full_update = ms_full_update st, mn_changed = 0, mn_removed = 0\<rparr>]\<rparr>))"

definition emit_change :: "inventory_change \<Rightarrow> main_scan \<Rightarrow> main_scan" where
  "emit_change change st = st\<lparr>ms_messages := ms_messages st @ [Change change]\<rparr>"

fun visit_deltas :: "(string \<times> inventory_delta) list \<Rightarrow> body_end \<Rightarrow> nat \<Rightarrow> nat scan" where
  "visit_deltas [] stop count st = (finish_body stop count, st)"
| "visit_deltas ((qbit_id, delta) # rest) stop count st =
     (case and_then (validate_id qbit_id) (\<lambda>_. validate_delta delta) of
        Inl _ \<Rightarrow> (Inl InventoryJson, st)
      | Inr _ \<Rightarrow> visit_deltas rest stop (count + 1) (emit_change (Upsert qbit_id delta) st))"

fun visit_removed :: "string list \<Rightarrow> body_end \<Rightarrow> nat \<Rightarrow> nat scan" where
  "visit_removed [] stop count st = (finish_body stop count, st)"
| "visit_removed (qbit_id # rest) stop count st =
     (case validate_id qbit_id of
        Inl _ \<Rightarrow> (Inl InventoryJson, st)
      | Inr _ \<Rightarrow> visit_removed rest stop (count + 1) (emit_change (Removed qbit_id) st))"

definition visit_entry :: "main_entry \<Rightarrow> unit scan" where
  "visit_entry entry st =
     (case entry of
        RidEntry value \<Rightarrow>
          if ms_emitted st \<and> ms_response_id st \<noteq> Some value then (Inl InventoryJson, st)
          else (Inr (), st\<lparr>ms_response_id := Some value\<rparr>)
      | FullUpdateEntry value \<Rightarrow>
          if ms_emitted st \<and> ms_full_update st \<noteq> value then (Inl InventoryJson, st)
          else (Inr (), st\<lparr>ms_full_update := value\<rparr>)
      | TorrentsEntry deltas stop \<Rightarrow>
          scan_then emit_main_data_header (\<lambda>_.
          scan_then (visit_deltas deltas stop 0) (\<lambda>changed st. (Inr (), st\<lparr>ms_changed := changed\<rparr>))) st
      | RemovedEntry ids stop \<Rightarrow>
          scan_then emit_main_data_header (\<lambda>_.
          scan_then (visit_removed ids stop 0) (\<lambda>removed st. (Inr (), st\<lparr>ms_removed := removed\<rparr>))) st
      | IgnoredEntry \<Rightarrow> (Inr (), st))"

fun visit_entries :: "main_entry list \<Rightarrow> unit scan" where
  "visit_entries [] st = (Inr (), st)"
| "visit_entries (entry # rest) st = scan_then (visit_entry entry) (\<lambda>_. visit_entries rest) st"

definition main_data_of :: "main_data scan" where
  "main_data_of st =
     (case ms_response_id st of
        None \<Rightarrow> (Inl InventoryJson, st)
      | Some rid \<Rightarrow> (Inr \<lparr>mn_response_id = rid, mn_full_update = ms_full_update st,
          mn_changed = ms_changed st, mn_removed = ms_removed st\<rparr>, st))"

definition initial_scan :: main_scan where
  "initial_scan = \<lparr>ms_response_id = None, ms_full_update = False, ms_emitted = False, ms_changed = 0,
     ms_removed = 0, ms_messages = []\<rparr>"

text \<open>
  The object of the response: \<open>inner\<close> is how its entries end, \<open>outer\<close> what follows
  the object.
\<close>

definition parse_main_data_with_header ::
  "main_entry list \<times> body_end \<times> body_end \<Rightarrow> main_data_message list \<times> (inventory_parse_error, main_data) result" where
  "parse_main_data_with_header body =
     (case body of (entries, inner, outer) \<Rightarrow>
       (case scan_then (visit_entries entries) (\<lambda>_.
               scan_then (\<lambda>st. (finish_body inner (), st)) (\<lambda>_.
               scan_then emit_main_data_header (\<lambda>_.
               scan_then main_data_of (\<lambda>result st. (finish_body outer result, st))))) initial_scan of
          (outcome, st) \<Rightarrow> (ms_messages st, outcome)))"

section \<open>What the receiver sees\<close>

text \<open>
  The changes follow one header, and a header that was emitted is what the parser
  reports at the end.
\<close>

definition changes_of :: "main_data_message list \<Rightarrow> inventory_change list" where
  "changes_of messages = List.map_filter (\<lambda>m. case m of Change c \<Rightarrow> Some c | Header _ \<Rightarrow> None) messages"

definition header_first :: "main_scan \<Rightarrow> bool" where
  "header_first st \<longleftrightarrow>
     (if ms_emitted st
      then \<exists>rid changes. ms_response_id st = Some rid \<and> ms_messages st =
        Header \<lparr>mn_response_id = rid, mn_full_update = ms_full_update st, mn_changed = 0, mn_removed = 0\<rparr> # map Change changes
      else ms_messages st = [])"

lemma header_first_emit: "header_first st \<Longrightarrow> header_first (snd (emit_main_data_header st))"
  "fst (emit_main_data_header st) = Inr x \<Longrightarrow> ms_emitted (snd (emit_main_data_header st))"
  by (auto simp: emit_main_data_header_def header_first_def split: option.splits if_splits)

lemma header_first_change: "header_first st \<Longrightarrow> ms_emitted st \<Longrightarrow> header_first (emit_change change st)"
proof -
  assume "header_first st" "ms_emitted st"
  then obtain rid changes where "ms_response_id st = Some rid" "ms_messages st =
      Header \<lparr>mn_response_id = rid, mn_full_update = ms_full_update st, mn_changed = 0, mn_removed = 0\<rparr> # map Change changes"
    by (auto simp: header_first_def)
  then show ?thesis using \<open>ms_emitted st\<close>
    by (auto simp: header_first_def emit_change_def intro!: exI [of _ "changes @ [change]"])
qed

lemma emit_change_emitted [simp]: "ms_emitted (emit_change change st) = ms_emitted st"
  by (simp add: emit_change_def)

lemma header_first_deltas:
  "header_first st \<Longrightarrow> ms_emitted st \<Longrightarrow> header_first (snd (visit_deltas deltas stop n st)) \<and> ms_emitted (snd (visit_deltas deltas stop n st))"
  by (induction deltas stop n st rule: visit_deltas.induct) (auto simp: header_first_change split: sum.splits)

lemma header_first_removed:
  "header_first st \<Longrightarrow> ms_emitted st \<Longrightarrow> header_first (snd (visit_removed ids stop n st)) \<and> ms_emitted (snd (visit_removed ids stop n st))"
  by (induction ids stop n st rule: visit_removed.induct) (auto simp: header_first_change split: sum.splits)

lemma header_first_counters [simp]:
  "header_first (st\<lparr>ms_changed := n\<rparr>) = header_first st" "header_first (st\<lparr>ms_removed := n\<rparr>) = header_first st"
  by (simp_all add: header_first_def)

lemma header_first_payload:
  assumes "header_first st" and "\<And>st. header_first st \<Longrightarrow> ms_emitted st \<Longrightarrow> header_first (snd (m st))"
    and "\<And>n st. header_first (f n st) = header_first st"
  shows "header_first (snd (scan_then emit_main_data_header (\<lambda>_. scan_then m (\<lambda>n st. (Inr (), f n st))) st))"
proof (cases "emit_main_data_header st")
  case (Pair r st')
  have h: "header_first st'" using header_first_emit(1) [OF assms(1)] Pair by simp
  show ?thesis
  proof (cases r)
    case (Inr x)
    then have "ms_emitted st'" using header_first_emit(2) [of st] Pair by simp
    from assms(2) [OF h this] show ?thesis using Pair Inr assms(3)
      by (cases "m st'") (auto simp: scan_then_def split: sum.splits)
  qed (use Pair h in \<open>simp add: scan_then_def\<close>)
qed

lemma header_first_entry:
  assumes "header_first st" shows "header_first (snd (visit_entry entry st))"
proof (cases entry)
  case (TorrentsEntry deltas stop)
  show ?thesis unfolding visit_entry_def TorrentsEntry main_entry.case
    by (rule header_first_payload) (use assms header_first_deltas in auto)
next
  case (RemovedEntry ids stop)
  show ?thesis unfolding visit_entry_def RemovedEntry main_entry.case
    by (rule header_first_payload) (use assms header_first_removed in auto)
qed (use assms in \<open>auto simp: visit_entry_def header_first_def\<close>)

lemma header_first_entries: "header_first st \<Longrightarrow> header_first (snd (visit_entries entries st))"
proof (induction entries arbitrary: st)
  case (Cons entry rest)
  from header_first_entry [OF Cons.prems, of entry] Cons.IH show ?case
    by (cases "visit_entry entry st") (auto simp: scan_then_def split: sum.splits)
qed simp

lemma initial_header_first: "header_first initial_scan"
  by (simp add: header_first_def initial_scan_def)

text \<open>A response that parses: the receiver sees its header, then changes only, and both agree.\<close>

lemma parse_main_data_Inr:
  assumes "parse_main_data_with_header body = (messages, Inr result)"
  obtains header changes where "messages = Header header # map Change changes"
    "mn_response_id header = mn_response_id result" "mn_full_update header = mn_full_update result"
proof -
  obtain entries inner outer where b: "body = (entries, inner, outer)" by (cases body)
  obtain r st where v: "visit_entries entries initial_scan = (r, st)" by (cases "visit_entries entries initial_scan")
  have h: "header_first st" using header_first_entries [OF initial_header_first, of entries] v by simp
  obtain r' st' where e: "emit_main_data_header st = (r', st')" by (cases "emit_main_data_header st")
  have h': "header_first st'" using header_first_emit(1) [OF h] e by simp
  from assms have parts: "r' = Inr ()" "ms_messages st' = messages"
      "ms_response_id st' = Some (mn_response_id result)" "ms_full_update st' = mn_full_update result"
    unfolding parse_main_data_with_header_def b prod.case
    by (auto simp: scan_then_def v e main_data_of_def finish_body_def split: sum.splits body_end.splits option.splits)
  have "ms_emitted st'" using header_first_emit(2) [of st] e parts(1) by simp
  then obtain changes where "messages = Header \<lparr>mn_response_id = mn_response_id result,
      mn_full_update = mn_full_update result, mn_changed = 0, mn_removed = 0\<rparr> # map Change changes"
    using h' parts by (auto simp: header_first_def)
  then show thesis by (rule that) simp_all
qed

lemma visit_files_prefix:
  "visit_files limit n files = (emitted, e) \<Longrightarrow> prefix emitted files \<and> (e = None \<longrightarrow> emitted = files) \<and> (\<forall>f \<in> set emitted. valid_file f)"
  by (induction limit n files arbitrary: emitted e rule: visit_files.induct) (auto split: if_splits prod.splits)

lemma parse_files_Inr:
  assumes "parse_files limit body = (emitted, Inr n)"
  shows "emitted = fst body" "n = length emitted" "\<forall>f \<in> set emitted. valid_file f"
proof -
  obtain files e where v: "visit_files limit 0 (fst body) = (files, e)" by (cases "visit_files limit 0 (fst body)")
  show "emitted = fst body" "n = length emitted" "\<forall>f \<in> set emitted. valid_file f"
    using assms visit_files_prefix [OF v] unfolding parse_files_def v
    by (auto simp: finish_body_def split: option.splits body_end.splits)
qed


lemma header_first_then:
  assumes "header_first st" and "\<And>st. header_first st \<Longrightarrow> header_first (snd (m st))"
    and "\<And>x st. header_first st \<Longrightarrow> header_first (snd (f x st))"
  shows "header_first (snd (scan_then m f st))"
  using assms(2) [OF assms(1)] assms(3) by (cases "m st") (auto simp: scan_then_def split: sum.splits)

text \<open>Also a response that fails to parse has emitted nothing, or its header and then changes only.\<close>

lemma parse_main_data_messages:
  assumes "parse_main_data_with_header body = (messages, r)"
  shows "messages = [] \<or> (\<exists>header changes. messages = Header header # map Change changes)"
proof -
  obtain entries inner outer where b: "body = (entries, inner, outer)" by (cases body)
  define run where "run = scan_then (visit_entries entries) (\<lambda>_. scan_then (\<lambda>st. (finish_body inner (), st)) (\<lambda>_.
    scan_then emit_main_data_header (\<lambda>_. scan_then main_data_of (\<lambda>result st. (finish_body outer result, st)))))"
  have "header_first (snd (run initial_scan))" unfolding run_def
    by (intro header_first_then initial_header_first header_first_entries header_first_emit(1))
      (auto simp: main_data_of_def split: option.split)
  moreover have "messages = ms_messages (snd (run initial_scan))"
    using assms unfolding parse_main_data_with_header_def b by (auto simp: run_def split: prod.splits)
  ultimately show ?thesis by (auto simp: header_first_def split: if_splits)
qed

end
