(* ===== verification/Qbit_Projection.thy ===== *)
theory Qbit_Projection
  imports Inventory Candidate_Workflow
begin

text \<open>
  The projection of the qBittorrent inventory into the tables,
  \<open>crates/sporos-service/src/qbit_projection.rs\<close>, and the facts about the releases
  of sources, \<open>source_facts.rs\<close>.

  The rows extend the columns that the evaluation of candidates reads
  (\<open>Candidate_Sources\<close>) by the columns that only the projection uses.  A function on
  the store is one transaction: it returns the new store only when it commits.  The
  two unique indexes on the infohashes, the primary key and the unique index on the
  id of qBittorrent are part of the insertion; \<open>serde_json\<close> and SHA-256 are the
  record \<open>inventory_codec\<close>.
\<close>

section \<open>Tables\<close>

record release_columns =
  rc_normalized_title :: string
  rc_video_kind :: string
  rc_release_year :: "nat option"
  rc_season :: "nat option"
  rc_episode :: "nat option"
  rc_episode_end :: "nat option"
  rc_absolute_episode :: "nat option"
  rc_air_date :: "string option"

record inventory_row = qbit_torrent_row +
  qi_qbit_id :: string
  qi_name :: string
  qi_total_size :: int
  qi_amount_left :: int
  qi_progress_ppm :: int
  qi_state :: string
  qi_save_path :: string
  qi_content_path :: string
  qi_fingerprint :: "string option"
  qi_manifest_loaded_at :: "int option"
  qi_added_at :: "int option"
  qi_completed_at :: "int option"
  qi_columns :: release_columns
  qi_last_seen_generation :: int
  qi_updated_at :: int

record inventory_file_row = source_file_row +
  fi_relative_path :: string
  fi_file_kind :: string

record title_fact = title_row +
  tf_kind :: string

record inventory_state_row =
  is_response_id :: "int option"
  is_generation :: int
  is_baseline_at :: "int option"
  is_last_success_at :: "int option"
  is_last_full_reconcile_at :: "int option"
  is_reconcile_requested_at :: "int option"
  is_application_version :: "string option"
  is_web_api_version :: "string option"

record inventory_store =
  iv_state :: inventory_state_row
  iv_torrents :: "inventory_row list"
  iv_files :: "inventory_file_row list"
  iv_titles :: "title_fact list"
  iv_external_ids :: "external_id_row list"
  iv_tasks :: task_store

record inventory_codec =
  ic_codec :: codec
  ic_unicode :: unicode
  ic_release :: "release_descriptor \<Rightarrow> string"
  ic_tags :: "string list \<Rightarrow> string"

datatype qbit_error =
    QpDatabase | QpMissingField string | QpRange string | QpStoredRange string | QpInvalidHash string
  | QpInvalidProgress | QpMissingSource | QpCompletion ingress_error

text \<open>What the evaluation of a candidate sees of these tables.\<close>

definition inventory_view :: "inventory_store \<Rightarrow> workflow_store \<Rightarrow> workflow_store" where
  "inventory_view s w =
     w\<lparr> ws_torrents := map qbit_torrent_row.truncate (iv_torrents s),
        ws_files := map source_file_row.truncate (iv_files s),
        ws_titles := map title_row.truncate (iv_titles s), ws_external_ids := iv_external_ids s \<rparr>"

section \<open>Facts about releases\<close>

definition insert_title :: "source_id \<Rightarrow> string \<Rightarrow> string \<Rightarrow> string \<Rightarrow> inventory_store \<Rightarrow> inventory_store" where
  "insert_title source source_type kind title s =
     (if list_ex (\<lambda>t. ti_source_id t = source \<and> ti_source_type t = source_type \<and> ti_normalized_title t = title) (iv_titles s)
      then s
      else s\<lparr>iv_titles := iv_titles s @ [\<lparr>ti_source_id = source, ti_source_type = source_type,
        ti_normalized_title = title, tf_kind = kind\<rparr>]\<rparr>)"

definition insert_external :: "source_id \<Rightarrow> string \<Rightarrow> string \<times> string \<Rightarrow> inventory_store \<Rightarrow> inventory_store" where
  "insert_external source source_type entry s =
     (let row = \<lparr>ex_source_id = source, ex_source_type = source_type, ex_namespace = fst entry, ex_value = snd entry\<rparr>
      in if row \<in> set (iv_external_ids s) then s else s\<lparr>iv_external_ids := iv_external_ids s @ [row]\<rparr>)"

definition external_facts :: "arr_identity \<Rightarrow> (string \<times> string) list" where
  "external_facts arr =
     (''arr:'' @ (case ai_kind arr of ArrMovie \<Rightarrow> ''movie'' | ArrSeries \<Rightarrow> ''series'') @ '':'' @ ai_instance arr,
       int_text (ai_entity_id arr)) #
     List.map_filter (\<lambda>(namespace, value). map_option (Pair namespace) value)
       [(''tvdb'', map_option int_text (ai_tvdb_id arr)), (''tmdb'', map_option int_text (ai_tmdb_id arr)),
        (''imdb'', ai_imdb_id arr)]"

definition replace_facts :: "source_id \<Rightarrow> string \<Rightarrow> release_descriptor \<Rightarrow> inventory_store \<Rightarrow> inventory_store" where
  "replace_facts source source_type release s =
     (let s1 = s\<lparr>iv_titles := filter (\<lambda>t. \<not> (ti_source_id t = source \<and> ti_source_type t = source_type)) (iv_titles s),
                 iv_external_ids := filter (\<lambda>e. \<not> (ex_source_id e = source \<and> ex_source_type e = source_type))
                   (iv_external_ids s)\<rparr>;
          s2 = insert_title source source_type ''primary'' (as_str (rd_primary_title release)) s1;
          s3 = fold (\<lambda>title. insert_title source source_type ''alternate'' (as_str title))
                 (take MAX_ALTERNATE_TITLES (rd_alternate_titles release)) s2
      in case rd_arr_identity release of
           None \<Rightarrow> s3
         | Some arr \<Rightarrow> fold (insert_external source source_type) (external_facts arr) s3)"

section \<open>Reading and checking values\<close>

definition to_i64 :: "string \<Rightarrow> nat \<Rightarrow> (qbit_error, int) result" where
  "to_i64 field value = (if value \<le> i64_max then Inr (int value) else Inl (QpRange field))"

definition required_u64 :: "string \<Rightarrow> int \<Rightarrow> (qbit_error, nat) result" where
  "required_u64 field value = (if value < 0 then Inl (QpStoredRange field) else Inr (nat value))"

definition optional_u64 :: "string \<Rightarrow> int option \<Rightarrow> (qbit_error, nat option) result" where
  "optional_u64 field value =
     (case value of None \<Rightarrow> Inr None | Some v \<Rightarrow> and_then (required_u64 field v) (\<lambda>n. Inr (Some n)))"

definition or_stored :: "'a option \<Rightarrow> inventory_row option \<Rightarrow> (inventory_row \<Rightarrow> 'a) \<Rightarrow> 'a option" where
  "or_stored value existing field_of = (case value of Some v \<Rightarrow> Some v | None \<Rightarrow> map_option field_of existing)"

definition or_stored_option :: "'a option \<Rightarrow> inventory_row option \<Rightarrow> (inventory_row \<Rightarrow> 'a option) \<Rightarrow> 'a option" where
  "or_stored_option value existing field_of =
     (case value of Some v \<Rightarrow> Some v | None \<Rightarrow> (case existing of None \<Rightarrow> None | Some row \<Rightarrow> field_of row))"

definition text_value ::
  "string \<Rightarrow> string option \<Rightarrow> inventory_row option \<Rightarrow> (inventory_row \<Rightarrow> string) \<Rightarrow> (qbit_error, string) result" where
  "text_value field value existing field_of = ok_or (QpMissingField field) (or_stored value existing field_of)"

definition integer_value ::
  "string \<Rightarrow> nat option \<Rightarrow> inventory_row option \<Rightarrow> (inventory_row \<Rightarrow> int) \<Rightarrow> (qbit_error, int) result" where
  "integer_value field value existing field_of =
     and_then (case value of None \<Rightarrow> Inr None | Some v \<Rightarrow> and_then (to_i64 field v) (\<lambda>i. Inr (Some i))) (\<lambda>i.
       ok_or (QpMissingField field) (or_stored i existing field_of))"

definition timestamp_value ::
  "int option \<Rightarrow> inventory_row option \<Rightarrow> (inventory_row \<Rightarrow> int option) \<Rightarrow> int option" where
  "timestamp_value value existing field_of =
     or_stored_option (case value of Some v \<Rightarrow> if v > 0 then Some v else None | None \<Rightarrow> None) existing field_of"

definition progress_ppm :: "nat option \<Rightarrow> (qbit_error, int) result" where
  "progress_ppm value = (case value of None \<Rightarrow> Inl QpInvalidProgress | Some ppm \<Rightarrow> Inr (int ppm))"

definition tag_list :: "string \<Rightarrow> string list" where
  "tag_list value = filter (\<lambda>tag. tag \<noteq> []) (map trim (split_char (CHR '','') value))"

definition nibble :: "char \<Rightarrow> nat option" where
  "nibble c =
     (let n = of_char c :: nat
      in if 48 \<le> n \<and> n \<le> 57 then Some (n - 48)
         else if 97 \<le> n \<and> n \<le> 102 then Some (n - 97 + 10)
         else if 65 \<le> n \<and> n \<le> 70 then Some (n - 65 + 10) else None)"

fun decode_pairs :: "string \<Rightarrow> string \<Rightarrow> (qbit_error, string) result" where
  "decode_pairs field (a # b # rest) =
     and_then (ok_or (QpInvalidHash field) (nibble a)) (\<lambda>high.
     and_then (ok_or (QpInvalidHash field) (nibble b)) (\<lambda>low.
     and_then (decode_pairs field rest) (\<lambda>bytes. Inr (char_of (high * 16 + low) # bytes))))"
| "decode_pairs field _ = Inr []"

definition decode_hex :: "nat \<Rightarrow> string \<Rightarrow> string \<Rightarrow> (qbit_error, string) result" where
  "decode_hex bytes field value =
     (if length value \<noteq> bytes * 2 then Inl (QpInvalidHash field) else decode_pairs field value)"

definition optional_hash :: "nat \<Rightarrow> string \<Rightarrow> string option \<Rightarrow> (qbit_error, string option) result" where
  "optional_hash bytes field value =
     (case value of
        None \<Rightarrow> Inr None
      | Some v \<Rightarrow> if v = [] then Inr None else and_then (decode_hex bytes field v) (\<lambda>b. Inr (Some b)))"

definition complete_state :: "int \<Rightarrow> int \<Rightarrow> string \<Rightarrow> bool" where
  "complete_state amount_left ppm state \<longleftrightarrow> amount_left = 0 \<and> ppm = 1000000
     \<and> state \<in> set [''uploading'', ''stoppedUP'', ''queuedUP'', ''stalledUP'', ''checkingUP'', ''forcedUP'']"

definition default_bytes :: "string option \<Rightarrow> string" where
  "default_bytes value = (case value of None \<Rightarrow> [] | Some v \<Rightarrow> v)"

definition fingerprint_input :: "string list \<Rightarrow> string" where
  "fingerprint_input values = concat (map (\<lambda>v. be_bytes 8 (length v) @ v) values)"

definition fingerprint ::
  "codec \<Rightarrow> string option \<Rightarrow> string option \<Rightarrow> string \<Rightarrow> int \<Rightarrow> string \<Rightarrow> string \<Rightarrow> string" where
  "fingerprint codec v1 v2 name total_size save_path content_path =
     cd_sha256 codec (fingerprint_input
       [default_bytes v1, default_bytes v2, name, i64_bytes total_size, save_path, content_path])"

definition torrent_source_id :: "codec \<Rightarrow> string \<Rightarrow> source_id" where
  "torrent_source_id codec qbit_id = take 16 (cd_sha256 codec (''qbit:'' @ qbit_id))"

definition video_kind_text :: "video_kind \<Rightarrow> string" where
  "video_kind_text kind =
     (case kind of
        Movie \<Rightarrow> ''movie'' | Episode \<Rightarrow> ''episode'' | SeasonPack \<Rightarrow> ''season_pack'' | DateEpisode \<Rightarrow> ''date_episode''
      | AbsoluteEpisode \<Rightarrow> ''absolute_episode'' | Disc \<Rightarrow> ''disc'' | UnknownVideo \<Rightarrow> ''unknown_video'')"

definition padded :: "nat \<Rightarrow> nat \<Rightarrow> string" where
  "padded width n = replicate (width - length (decimal n)) (CHR ''0'') @ decimal n"

definition date_text :: "date \<Rightarrow> string" where
  "date_text d = padded 4 (date_year d) @ ''-'' @ padded 2 (date_month d) @ ''-'' @ padded 2 (date_day d)"

definition columns_of :: "release_descriptor \<Rightarrow> release_columns" where
  "columns_of release =
     \<lparr> rc_normalized_title = as_str (rd_primary_title release), rc_video_kind = video_kind_text (rd_kind release),
       rc_release_year = rd_year release, rc_season = rd_season release, rc_episode = rd_episode release,
       rc_episode_end = rd_episode_end release, rc_absolute_episode = rd_absolute_episode release,
       rc_air_date = map_option date_text (rd_air_date release) \<rparr>"

section \<open>Projecting one torrent\<close>

definition find_torrent :: "string \<Rightarrow> inventory_store \<Rightarrow> inventory_row option" where
  "find_torrent qbit_id s = find (\<lambda>row. qi_qbit_id row = qbit_id) (iv_torrents s)"

definition hash_taken :: "inventory_row \<Rightarrow> inventory_row \<Rightarrow> bool" where
  "hash_taken row other \<longleftrightarrow> qi_qbit_id other \<noteq> qi_qbit_id row \<and>
     (qt_v1_hash row \<noteq> None \<and> qt_v1_hash other = qt_v1_hash row \<or> qt_v2_hash row \<noteq> None \<and> qt_v2_hash other = qt_v2_hash row)"

definition upsert_torrent :: "codec \<Rightarrow> inventory_row \<Rightarrow> inventory_store \<Rightarrow> (qbit_error, inventory_store) result" where
  "upsert_torrent codec row s =
     (if \<not> cd_json_valid codec (qt_tags_json row) \<or> \<not> list_all (cd_json_valid codec) (case qt_release_json row of None \<Rightarrow> [] | Some j \<Rightarrow> [j])
         \<or> list_ex (hash_taken row) (iv_torrents s)
      then Inl QpDatabase
      else case find_torrent (qi_qbit_id row) s of
        None \<Rightarrow>
          if list_ex (\<lambda>other. qt_id other = qt_id row) (iv_torrents s) then Inl QpDatabase
          else Inr (s\<lparr>iv_torrents := iv_torrents s @ [row]\<rparr>)
      | Some _ \<Rightarrow>
          Inr (s\<lparr>iv_torrents := map (\<lambda>old. if qi_qbit_id old = qi_qbit_id row
            then row\<lparr>qt_id := qt_id old, qt_manifest_version := qt_manifest_version old,
              qi_manifest_loaded_at := qi_manifest_loaded_at old\<rparr> else old) (iv_torrents s)\<rparr>))"

record completion_transition =
  cx_source_id :: source_id
  cx_completed_at :: int
  cx_operation_id :: string
  cx_task_id :: task_id

record torrent_outcome =
  to_source_id :: source_id
  to_completion :: "completion_transition option"
  to_manifest_needed :: bool

record merged_torrent =
  mg_row :: inventory_row
  mg_release :: release_descriptor
  mg_became_complete :: bool
  mg_manifest_needed :: bool

record torrent_values =
  tv_v1 :: "string option"
  tv_v2 :: "string option"
  tv_name :: string
  tv_total_size :: int
  tv_amount_left :: int
  tv_ppm :: int
  tv_state :: string
  tv_save_path :: string
  tv_content_path :: string
  tv_category :: string
  tv_tags_json :: string

text \<open>The values of the change, or those of the stored row.\<close>

definition merge_values ::
  "inventory_codec \<Rightarrow> inventory_delta \<Rightarrow> inventory_row option \<Rightarrow> (qbit_error, torrent_values) result" where
  "merge_values c dl existing =
     and_then (optional_hash 20 ''infohash_v1'' (dl_infohash_v1 dl)) (\<lambda>delta_v1.
     and_then (optional_hash 32 ''infohash_v2'' (dl_infohash_v2 dl)) (\<lambda>delta_v2.
     if or_stored_option delta_v1 existing qt_v1_hash = None \<and> or_stored_option delta_v2 existing qt_v2_hash = None
     then Inl (QpMissingField ''infohash'')
     else and_then (text_value ''name'' (dl_name dl) existing qi_name) (\<lambda>name.
     and_then (integer_value ''total_size'' (dl_total_size dl) existing qi_total_size) (\<lambda>total_size.
     and_then (integer_value ''amount_left'' (dl_amount_left dl) existing qi_amount_left) (\<lambda>amount_left.
     and_then (case dl_progress dl of None \<Rightarrow> Inr None | Some p \<Rightarrow> and_then (progress_ppm p) (\<lambda>v. Inr (Some v))) (\<lambda>delta_ppm.
     and_then (ok_or (QpMissingField ''progress'') (or_stored delta_ppm existing qi_progress_ppm)) (\<lambda>ppm.
     and_then (text_value ''state'' (dl_state dl) existing qi_state) (\<lambda>state.
     and_then (text_value ''save_path'' (dl_save_path dl) existing qi_save_path) (\<lambda>save_path.
     and_then (text_value ''content_path'' (dl_content_path dl) existing qi_content_path) (\<lambda>content_path.
     and_then (text_value ''category'' (dl_category dl) existing qt_category) (\<lambda>category.
     and_then (text_value ''tags'' (map_option (\<lambda>v. ic_tags c (tag_list v)) (dl_tags dl)) existing qt_tags_json) (\<lambda>tags_json.
       Inr \<lparr> tv_v1 = or_stored_option delta_v1 existing qt_v1_hash, tv_v2 = or_stored_option delta_v2 existing qt_v2_hash,
             tv_name = name, tv_total_size = total_size, tv_amount_left = amount_left, tv_ppm = ppm, tv_state = state,
             tv_save_path = save_path, tv_content_path = content_path, tv_category = category,
             tv_tags_json = tags_json \<rparr>))))))))))))"

definition merged_completed_at :: "int option \<Rightarrow> bool \<Rightarrow> int \<Rightarrow> inventory_row option \<Rightarrow> int option" where
  "merged_completed_at completion_on is_complete now existing =
     (let stored = (case existing of Some row \<Rightarrow> qi_completed_at row | None \<Rightarrow> None);
          observed = (case completion_on of Some v \<Rightarrow> if v > 0 then Some v else None | None \<Rightarrow> None)
      in if is_complete
         then (case observed of Some v \<Rightarrow> Some v | None \<Rightarrow> (case stored of Some v \<Rightarrow> Some v | None \<Rightarrow> Some now))
         else stored)"

definition merged ::
  "inventory_codec \<Rightarrow> string \<Rightarrow> inventory_delta \<Rightarrow> int \<Rightarrow> bool \<Rightarrow> int \<Rightarrow> inventory_row option \<Rightarrow> torrent_values \<Rightarrow> merged_torrent" where
  "merged c qbit_id dl generation detect_completions now existing v =
     (let release = parse_release (ic_unicode c) (tv_name v);
         was_complete = (case existing of Some row \<Rightarrow> qt_is_complete row | None \<Rightarrow> False);
         is_complete = complete_state (tv_amount_left v) (tv_ppm v) (tv_state v);
         print = fingerprint (ic_codec c) (tv_v1 v) (tv_v2 v) (tv_name v) (tv_total_size v) (tv_save_path v) (tv_content_path v);
         fingerprint_changed = (case existing of Some row \<Rightarrow> qi_fingerprint row \<noteq> Some print | None \<Rightarrow> False);
         manifest_version = (case existing of Some row \<Rightarrow> qt_manifest_version row | None \<Rightarrow> 0);
         prior_manifest_state = (case existing of Some row \<Rightarrow> qt_manifest_state row | None \<Rightarrow> ''unloaded'');
         became_complete = (detect_completions \<and> existing \<noteq> None \<and> \<not> was_complete \<and> is_complete);
         manifest_needed = (became_complete \<or> fingerprint_changed \<and> manifest_version > 0)
     in \<lparr> mg_row = \<lparr> qt_id = torrent_source_id (ic_codec c) qbit_id, qt_v1_hash = tv_v1 v, qt_v2_hash = tv_v2 v,
          qt_category = tv_category v, qt_tags_json = tv_tags_json v, qt_is_complete = is_complete, qt_available = True,
          qt_manifest_version = manifest_version,
          qt_manifest_state = (if manifest_needed then ''stale'' else prior_manifest_state),
          qt_release_json = Some (ic_release c release), qi_qbit_id = qbit_id, qi_name = tv_name v,
          qi_total_size = tv_total_size v, qi_amount_left = tv_amount_left v, qi_progress_ppm = tv_ppm v,
          qi_state = tv_state v, qi_save_path = tv_save_path v, qi_content_path = tv_content_path v,
          qi_fingerprint = Some print, qi_manifest_loaded_at = None,
          qi_added_at = timestamp_value (dl_added_on dl) existing qi_added_at,
          qi_completed_at = merged_completed_at (dl_completion_on dl) is_complete now existing,
          qi_columns = columns_of release, qi_last_seen_generation = generation, qi_updated_at = now \<rparr>,
        mg_release = release, mg_became_complete = became_complete, mg_manifest_needed = manifest_needed \<rparr>)"

definition merge_torrent ::
  "inventory_codec \<Rightarrow> string \<Rightarrow> inventory_delta \<Rightarrow> int \<Rightarrow> bool \<Rightarrow> int \<Rightarrow> inventory_row option \<Rightarrow>
   (qbit_error, merged_torrent) result" where
  "merge_torrent c qbit_id dl generation detect_completions now existing =
     and_then (merge_values c dl existing) (\<lambda>v.
       Inr (merged c qbit_id dl generation detect_completions now existing v))"

definition accept_completed ::
  "inventory_codec \<Rightarrow> source_id \<Rightarrow> int option \<Rightarrow> int \<Rightarrow> inventory_store \<Rightarrow>
   (qbit_error, completion_transition option \<times> inventory_store) result" where
  "accept_completed c source completed now s =
     (case completed of
        None \<Rightarrow> Inr (None, s)
      | Some completed_at \<Rightarrow>
          (case accept_completion (ic_codec c) source completed_at now (iv_tasks s) of
             Inl e \<Rightarrow> Inl (QpCompletion e)
           | Inr (accepted, tasks) \<Rightarrow>
               Inr (if accepted_completion.ac_duplicate accepted then None
                    else Some \<lparr>cx_source_id = source, cx_completed_at = completed_at,
                      cx_operation_id = ac_operation_id accepted, cx_task_id = accepted_completion.ac_task_id accepted\<rparr>,
                    s\<lparr>iv_tasks := tasks\<rparr>)))"

definition project_torrent ::
  "inventory_codec \<Rightarrow> string \<Rightarrow> inventory_delta \<Rightarrow> int \<Rightarrow> bool \<Rightarrow> int \<Rightarrow> inventory_store \<Rightarrow>
   (qbit_error, torrent_outcome \<times> inventory_store) result" where
  "project_torrent c qbit_id dl generation detect_completions now s =
     and_then (merge_torrent c qbit_id dl generation detect_completions now (find_torrent qbit_id s)) (\<lambda>m.
     let source = torrent_source_id (ic_codec c) qbit_id
     in and_then (upsert_torrent (ic_codec c) (mg_row m) s) (\<lambda>s1.
     let s2 = replace_facts source ''qbittorrent'' (mg_release m) s1
     in and_then (accept_completed c source (if mg_became_complete m then qi_completed_at (mg_row m) else None) now s2) (\<lambda>(completion, s3).
       Inr (\<lparr>to_source_id = source, to_completion = completion, to_manifest_needed = mg_manifest_needed m\<rparr>, s3))))"

section \<open>Transactions\<close>

record inventory_state =
  nv_response_id :: "nat option"
  nv_generation :: nat
  nv_has_baseline :: bool
  nv_last_success_at :: "int option"
  nv_last_full_reconcile_at :: "int option"
  nv_reconcile_requested_at :: "int option"

definition qbit_inventory_state :: "inventory_store \<Rightarrow> (qbit_error, inventory_state) result" where
  "qbit_inventory_state s =
     (let row = iv_state s
      in and_then (optional_u64 ''response_id'' (is_response_id row)) (\<lambda>response_id.
         and_then (required_u64 ''generation'' (is_generation row)) (\<lambda>generation.
           Inr \<lparr> nv_response_id = response_id, nv_generation = generation, nv_has_baseline = (is_baseline_at row \<noteq> None),
                 nv_last_success_at = is_last_success_at row, nv_last_full_reconcile_at = is_last_full_reconcile_at row,
                 nv_reconcile_requested_at = is_reconcile_requested_at row \<rparr>)))"

definition record_qbit_versions :: "string \<Rightarrow> string \<Rightarrow> inventory_store \<Rightarrow> inventory_store" where
  "record_qbit_versions application web_api s =
     s\<lparr>iv_state := (iv_state s)\<lparr>is_application_version := Some application, is_web_api_version := Some web_api\<rparr>\<rparr>"

definition request_qbit_reconcile :: "int \<Rightarrow> inventory_store \<Rightarrow> bool \<times> inventory_store" where
  "request_qbit_reconcile now s =
     (if is_reconcile_requested_at (iv_state s) = None
      then (True, s\<lparr>iv_state := (iv_state s)\<lparr>is_reconcile_requested_at := Some now\<rparr>\<rparr>) else (False, s))"

record projection_batch =
  pb_changed :: nat
  pb_completions :: "completion_transition list"
  pb_manifests_needed :: "source_id list"

definition empty_batch :: projection_batch where
  "empty_batch = \<lparr>pb_changed = 0, pb_completions = [], pb_manifests_needed = []\<rparr>"

definition batch_add :: "torrent_outcome \<Rightarrow> projection_batch \<Rightarrow> projection_batch" where
  "batch_add outcome b =
     b\<lparr> pb_completions := pb_completions b @ (case to_completion outcome of None \<Rightarrow> [] | Some t \<Rightarrow> [t]),
        pb_manifests_needed := pb_manifests_needed b @ (if to_manifest_needed outcome then [to_source_id outcome] else []) \<rparr>"

definition update_torrents :: "(inventory_row \<Rightarrow> bool) \<Rightarrow> (inventory_row \<Rightarrow> inventory_row) \<Rightarrow> inventory_store \<Rightarrow> inventory_store" where
  "update_torrents p f s = s\<lparr>iv_torrents := map (\<lambda>row. if p row then f row else row) (iv_torrents s)\<rparr>"

definition mark_unavailable :: "int \<Rightarrow> inventory_row \<Rightarrow> inventory_row" where
  "mark_unavailable now row = row\<lparr>qt_available := False, qi_updated_at := now\<rparr>"

fun project_changes ::
  "inventory_codec \<Rightarrow> int \<Rightarrow> bool \<Rightarrow> int \<Rightarrow> inventory_change list \<Rightarrow> projection_batch \<Rightarrow> inventory_store \<Rightarrow>
   (qbit_error, projection_batch \<times> inventory_store) result" where
  "project_changes c generation detect_completions now [] b s = Inr (b, s)"
| "project_changes c generation detect_completions now (Upsert qbit_id dl # changes) b s =
     and_then (project_torrent c qbit_id dl generation detect_completions now s) (\<lambda>(outcome, s').
       project_changes c generation detect_completions now changes
         ((batch_add outcome b)\<lparr>pb_changed := pb_changed b + 1\<rparr>) s')"
| "project_changes c generation detect_completions now (Removed qbit_id # changes) b s =
     project_changes c generation detect_completions now changes (b\<lparr>pb_changed := pb_changed b + 1\<rparr>)
       (update_torrents (\<lambda>row. qi_qbit_id row = qbit_id) (mark_unavailable now) s)"

definition project_qbit_batch ::
  "inventory_codec \<Rightarrow> inventory_change list \<Rightarrow> nat \<Rightarrow> bool \<Rightarrow> int \<Rightarrow> inventory_store \<Rightarrow>
   (qbit_error, projection_batch \<times> inventory_store) result" where
  "project_qbit_batch c changes generation detect_completions now s =
     and_then (to_i64 ''generation'' generation) (\<lambda>g.
       project_changes c g detect_completions now changes empty_batch s)"

definition retire_unseen :: "int \<Rightarrow> int \<Rightarrow> inventory_store \<Rightarrow> inventory_store" where
  "retire_unseen generation now =
     update_torrents (\<lambda>row. qt_available row \<and> qi_last_seen_generation row \<noteq> generation) (mark_unavailable now)"

definition or_now :: "int option \<Rightarrow> int \<Rightarrow> int option" where
  "or_now value now = (case value of None \<Rightarrow> Some now | Some v \<Rightarrow> Some v)"

definition finish_qbit_sync ::
  "nat \<Rightarrow> nat option \<Rightarrow> int \<Rightarrow> inventory_store \<Rightarrow> (qbit_error, inventory_store) result" where
  "finish_qbit_sync response_id full_generation now s =
     and_then (to_i64 ''response ID'' response_id) (\<lambda>rid.
     case full_generation of
       Some n \<Rightarrow>
         and_then (to_i64 ''generation'' n) (\<lambda>generation.
           let s1 = retire_unseen generation now s
           in Inr (s1\<lparr>iv_state := (iv_state s1)\<lparr>is_response_id := Some rid, is_generation := generation,
             is_baseline_at := or_now (is_baseline_at (iv_state s1)) now, is_last_success_at := Some now,
             is_last_full_reconcile_at := Some now\<rparr>\<rparr>))
     | None \<Rightarrow> Inr (s\<lparr>iv_state := (iv_state s)\<lparr>is_response_id := Some rid, is_last_success_at := Some now\<rparr>\<rparr>))"

definition finish_qbit_reconcile :: "nat \<Rightarrow> int \<Rightarrow> inventory_store \<Rightarrow> (qbit_error, inventory_store) result" where
  "finish_qbit_reconcile n now s =
     and_then (to_i64 ''generation'' n) (\<lambda>generation.
       let s1 = retire_unseen generation now s
       in Inr (s1\<lparr>iv_state := (iv_state s1)\<lparr>is_generation := generation,
         is_baseline_at := or_now (is_baseline_at (iv_state s1)) now, is_last_success_at := Some now,
         is_last_full_reconcile_at := Some now, is_reconcile_requested_at := None\<rparr>\<rparr>))"

fun checked_ids :: "string list \<Rightarrow> (qbit_error, source_id list) result" where
  "checked_ids [] = Inr []"
| "checked_ids (value # rest) =
     (if length value \<noteq> 16 then Inl (QpStoredRange ''source ID'')
      else and_then (checked_ids rest) (\<lambda>ids. Inr (value # ids)))"

definition stale_qbit_manifests :: "nat \<Rightarrow> inventory_store \<Rightarrow> (qbit_error, source_id list) result" where
  "stale_qbit_manifests limit s =
     (if limit > i64_max then Inl (QpRange ''manifest limit'')
      else checked_ids (map qt_id (take limit (sort_key (\<lambda>row. (qi_updated_at row, qt_id row))
        (filter (\<lambda>row. qt_available row \<and> qt_manifest_state row \<in> set [''stale'', ''loading'']) (iv_torrents s))))))"

record manifest_target =
  mt_source_id :: source_id
  mt_qbit_id :: string
  mt_version :: nat

definition update_files :: "(inventory_file_row \<Rightarrow> bool) \<Rightarrow> bool \<Rightarrow> inventory_store \<Rightarrow> inventory_store" where
  "update_files p available s = s\<lparr>iv_files := map (\<lambda>f. if p f then f\<lparr>fr_available := available\<rparr> else f) (iv_files s)\<rparr>"

definition set_manifest_state :: "source_id \<Rightarrow> string \<Rightarrow> inventory_store \<Rightarrow> inventory_store" where
  "set_manifest_state source state = update_torrents (\<lambda>row. qt_id row = source) (\<lambda>row. row\<lparr>qt_manifest_state := state\<rparr>)"

definition prepare_qbit_manifest ::
  "source_id \<Rightarrow> inventory_store \<Rightarrow> (qbit_error, manifest_target \<times> inventory_store) result" where
  "prepare_qbit_manifest source s =
     (case find (\<lambda>row. qt_id row = source \<and> qt_available row) (iv_torrents s) of
        None \<Rightarrow> Inl QpMissingSource
      | Some row \<Rightarrow>
          and_then (required_u64 ''file_manifest_version'' (qt_manifest_version row)) (\<lambda>current.
          and_then (ok_or (QpRange ''manifest version'') (checked_add u64_max current 1)) (\<lambda>version.
          and_then (to_i64 ''manifest version'' version) (\<lambda>v.
            Inr (\<lparr>mt_source_id = source, mt_qbit_id = qi_qbit_id row, mt_version = version\<rparr>,
              update_files (\<lambda>f. fr_source_id f = source \<and> fr_manifest_version f = v) False
                (set_manifest_state source ''loading'' s))))))"

text \<open>SQLite gives a row without an id the largest id plus one.\<close>

definition next_file_id :: "inventory_store \<Rightarrow> int" where
  "next_file_id s = fold max (map fr_id (iv_files s)) 0 + 1"

definition upsert_file :: "source_id \<Rightarrow> int \<Rightarrow> inventory_file \<Rightarrow> inventory_store \<Rightarrow> (qbit_error, inventory_store) result" where
  "upsert_file source version file s =
     (if vf_index file > i64_max then Inl (QpRange ''file ordinal'')
      else and_then (to_i64 ''file size'' (vf_size file)) (\<lambda>size.
        let same = (\<lambda>f. fr_source_id f = source \<and> fr_manifest_version f = version \<and> fr_ordinal f = int (vf_index file))
        in if length source \<noteq> 16 then Inl QpDatabase
           else if list_ex same (iv_files s)
           then Inr (s\<lparr>iv_files := map (\<lambda>f. if same f then f\<lparr>fi_relative_path := vf_name file, fr_display_path := vf_name file,
             fr_size := size, fi_file_kind := ''unknown'', fr_available := False\<rparr> else f) (iv_files s)\<rparr>)
           else Inr (s\<lparr>iv_files := iv_files s @ [\<lparr>fr_id = next_file_id s, fr_source_id = source, fr_manifest_version = version,
             fr_display_path = vf_name file, fr_size = size, fr_device = None, fr_inode = None, fr_available = False,
             fr_ordinal = int (vf_index file), fi_relative_path = vf_name file, fi_file_kind = ''unknown''\<rparr>]\<rparr>)))"

fun upsert_files :: "source_id \<Rightarrow> int \<Rightarrow> inventory_file list \<Rightarrow> inventory_store \<Rightarrow> (qbit_error, inventory_store) result" where
  "upsert_files source version [] s = Inr s"
| "upsert_files source version (file # files) s =
     and_then (upsert_file source version file s) (upsert_files source version files)"

definition project_qbit_files ::
  "manifest_target \<Rightarrow> inventory_file list \<Rightarrow> inventory_store \<Rightarrow> (qbit_error, inventory_store) result" where
  "project_qbit_files target files s =
     and_then (to_i64 ''manifest version'' (mt_version target)) (\<lambda>version.
       upsert_files (mt_source_id target) version files s)"

definition finish_qbit_manifest ::
  "manifest_target \<Rightarrow> nat \<Rightarrow> int \<Rightarrow> inventory_store \<Rightarrow> (qbit_error, inventory_store) result" where
  "finish_qbit_manifest target file_count now s =
     and_then (to_i64 ''manifest version'' (mt_version target)) (\<lambda>version.
       if file_count > i64_max then Inl (QpRange ''manifest file count'')
       else Inr (update_torrents (\<lambda>row. qt_id row = mt_source_id target)
           (\<lambda>row. row\<lparr>qt_manifest_version := version, qt_manifest_state := ''loaded'', qi_manifest_loaded_at := Some now\<rparr>)
         (update_files (\<lambda>f. fr_source_id f = mt_source_id target \<and> fr_manifest_version f = version
              \<and> fr_ordinal f < int file_count) True
           (update_files (\<lambda>f. fr_source_id f = mt_source_id target) False s))))"

definition fail_qbit_manifest :: "source_id \<Rightarrow> inventory_store \<Rightarrow> inventory_store" where
  "fail_qbit_manifest source s = set_manifest_state source ''stale'' s"

section \<open>Snapshots\<close>

definition change_of_torrent :: "inventory_torrent \<Rightarrow> inventory_change" where
  "change_of_torrent t = Upsert (it_hash t)
     \<lparr> dl_infohash_v1 = Some (it_infohash_v1 t), dl_infohash_v2 = Some (it_infohash_v2 t), dl_name = Some (it_name t),
       dl_total_size = Some (it_total_size t), dl_amount_left = Some (it_amount_left t), dl_progress = Some (it_progress t),
       dl_state = Some (it_state t), dl_save_path = Some (it_save_path t), dl_content_path = Some (it_content_path t),
       dl_category = Some (it_category t), dl_tags = Some (it_tags t), dl_added_on = Some (it_added_on t),
       dl_completion_on = Some (it_completion_on t) \<rparr>"

section \<open>Merging a change into a row\<close>

lemma merge_torrent_row:
  assumes "merge_torrent c qbit_id dl generation detect now existing = Inr m"
  shows "qi_qbit_id (mg_row m) = qbit_id" "qt_id (mg_row m) = torrent_source_id (ic_codec c) qbit_id"
    "qt_available (mg_row m)" "qi_last_seen_generation (mg_row m) = generation"
    "qt_release_json (mg_row m) = Some (ic_release c (mg_release m))"
    "mg_became_complete m \<longleftrightarrow> detect \<and> (\<exists>row. existing = Some row \<and> \<not> qt_is_complete row) \<and> qt_is_complete (mg_row m)"
    "mg_became_complete m \<Longrightarrow> mg_manifest_needed m \<and> qi_completed_at (mg_row m) \<noteq> None"
    "mg_manifest_needed m \<Longrightarrow> qt_manifest_state (mg_row m) = ''stale''"
proof -
  obtain v where m: "m = merged c qbit_id dl generation detect now existing v" using assms by (auto simp: merge_torrent_def)
  note defs = m merged_def Let_def
  show "qi_qbit_id (mg_row m) = qbit_id" "qt_id (mg_row m) = torrent_source_id (ic_codec c) qbit_id"
    "qt_available (mg_row m)" "qi_last_seen_generation (mg_row m) = generation"
    "qt_release_json (mg_row m) = Some (ic_release c (mg_release m))" by (simp_all add: defs)
  show "mg_became_complete m \<longleftrightarrow> detect \<and> (\<exists>row. existing = Some row \<and> \<not> qt_is_complete row) \<and> qt_is_complete (mg_row m)"
    by (cases existing) (simp_all add: defs)
  show "mg_manifest_needed m \<and> qi_completed_at (mg_row m) \<noteq> None" if "mg_became_complete m"
    using that by (simp add: defs merged_completed_at_def split: option.split)
  show "qt_manifest_state (mg_row m) = ''stale''" if "mg_manifest_needed m"
    using that by (simp add: defs)
qed

text \<open>
  A change is absorbed by a row when it would only renew its time stamp and make it
  available.
\<close>

definition stamp :: "codec \<Rightarrow> int \<Rightarrow> inventory_row \<Rightarrow> inventory_row" where
  "stamp codec now row = row\<lparr>qt_id := torrent_source_id codec (qi_qbit_id row), qt_available := True,
     qi_manifest_loaded_at := None, qi_updated_at := now\<rparr>"

definition absorbed :: "inventory_codec \<Rightarrow> int \<Rightarrow> inventory_delta \<Rightarrow> inventory_row \<Rightarrow> bool" where
  "absorbed c generation dl row \<longleftrightarrow> (\<forall>detect now.
     merge_torrent c (qi_qbit_id row) dl generation detect now (Some row) =
       Inr \<lparr>mg_row = stamp (ic_codec c) now row, mg_release = parse_release (ic_unicode c) (qi_name row),
         mg_became_complete = False, mg_manifest_needed = False\<rparr>)"

definition carries :: "torrent_values \<Rightarrow> inventory_row \<Rightarrow> bool" where
  "carries v row \<longleftrightarrow> qt_v1_hash row = tv_v1 v \<and> qt_v2_hash row = tv_v2 v \<and> qi_name row = tv_name v \<and>
     qi_total_size row = tv_total_size v \<and> qi_amount_left row = tv_amount_left v \<and> qi_progress_ppm row = tv_ppm v \<and>
     qi_state row = tv_state v \<and> qi_save_path row = tv_save_path v \<and> qi_content_path row = tv_content_path v \<and>
     qt_category row = tv_category v \<and> qt_tags_json row = tv_tags_json v"

lemma or_stored_again: "or_stored value existing field_of = Some v \<Longrightarrow> field_of row = v \<Longrightarrow> or_stored value (Some row) field_of = Some v"
  by (auto simp: or_stored_def split: option.splits)

lemma or_stored_option_again:
  "field_of row = or_stored_option value existing field_of \<Longrightarrow>
   or_stored_option value (Some row) field_of = or_stored_option value existing field_of"
  by (auto simp: or_stored_option_def split: option.splits)

lemma text_value_again:
  "text_value field value existing field_of = Inr v \<Longrightarrow> field_of row = v \<Longrightarrow> text_value field value (Some row) field_of = Inr v"
  by (auto simp: text_value_def ok_or_def split: option.splits dest: or_stored_again)

lemma integer_value_again:
  "integer_value field value existing field_of = Inr v \<Longrightarrow> field_of row = v \<Longrightarrow> integer_value field value (Some row) field_of = Inr v"
  by (auto simp: integer_value_def ok_or_def or_stored_def split: option.splits)

lemma merge_values_again:
  assumes "merge_values c dl existing = Inr v" and "carries v row"
  shows "merge_values c dl (Some row) = Inr v"
proof -
  from assms(1) obtain v1 v2 ppm where h: "optional_hash 20 ''infohash_v1'' (dl_infohash_v1 dl) = Inr v1"
      "optional_hash 32 ''infohash_v2'' (dl_infohash_v2 dl) = Inr v2"
      "tv_v1 v = or_stored_option v1 existing qt_v1_hash" "tv_v2 v = or_stored_option v2 existing qt_v2_hash"
      "tv_v1 v \<noteq> None \<or> tv_v2 v \<noteq> None"
    and p: "(case dl_progress dl of None \<Rightarrow> Inr None | Some p \<Rightarrow> and_then (progress_ppm p) (\<lambda>v. Inr (Some v))) = Inr ppm"
      "ok_or (QpMissingField ''progress'') (or_stored ppm existing qi_progress_ppm) = Inr (tv_ppm v)"
    and t: "text_value ''name'' (dl_name dl) existing qi_name = Inr (tv_name v)"
      "integer_value ''total_size'' (dl_total_size dl) existing qi_total_size = Inr (tv_total_size v)"
      "integer_value ''amount_left'' (dl_amount_left dl) existing qi_amount_left = Inr (tv_amount_left v)"
      "text_value ''state'' (dl_state dl) existing qi_state = Inr (tv_state v)"
      "text_value ''save_path'' (dl_save_path dl) existing qi_save_path = Inr (tv_save_path v)"
      "text_value ''content_path'' (dl_content_path dl) existing qi_content_path = Inr (tv_content_path v)"
      "text_value ''category'' (dl_category dl) existing qt_category = Inr (tv_category v)"
      "text_value ''tags'' (map_option (\<lambda>v. ic_tags c (tag_list v)) (dl_tags dl)) existing qt_tags_json = Inr (tv_tags_json v)"
    unfolding merge_values_def by (auto split: if_splits)
  have hashes: "or_stored_option v1 (Some row) qt_v1_hash = tv_v1 v" "or_stored_option v2 (Some row) qt_v2_hash = tv_v2 v"
    using assms(2) h(3,4) or_stored_option_again [of qt_v1_hash row v1 existing] or_stored_option_again [of qt_v2_hash row v2 existing]
    by (simp_all add: carries_def)
  have fields: "text_value ''name'' (dl_name dl) (Some row) qi_name = Inr (tv_name v)"
      "integer_value ''total_size'' (dl_total_size dl) (Some row) qi_total_size = Inr (tv_total_size v)"
      "integer_value ''amount_left'' (dl_amount_left dl) (Some row) qi_amount_left = Inr (tv_amount_left v)"
      "ok_or (QpMissingField ''progress'') (or_stored ppm (Some row) qi_progress_ppm) = Inr (tv_ppm v)"
      "text_value ''state'' (dl_state dl) (Some row) qi_state = Inr (tv_state v)"
      "text_value ''save_path'' (dl_save_path dl) (Some row) qi_save_path = Inr (tv_save_path v)"
      "text_value ''content_path'' (dl_content_path dl) (Some row) qi_content_path = Inr (tv_content_path v)"
      "text_value ''category'' (dl_category dl) (Some row) qt_category = Inr (tv_category v)"
      "text_value ''tags'' (map_option (\<lambda>v. ic_tags c (tag_list v)) (dl_tags dl)) (Some row) qt_tags_json = Inr (tv_tags_json v)"
    using assms(2) t p(2) by (auto simp: carries_def intro: text_value_again integer_value_again or_stored_again)
  show ?thesis unfolding merge_values_def
    using h(1,2,5) p(1) by (auto simp: fields hashes and_then_def)
qed

lemma merged_absorbed:
  assumes "merge_torrent c qbit_id dl generation detect now existing = Inr m"
    and "row = (mg_row m)\<lparr>qt_id := i, qt_available := a, qt_manifest_version := version, qi_manifest_loaded_at := l, qi_updated_at := u\<rparr>"
  shows "absorbed c generation dl row"
proof -
  obtain v where v: "merge_values c dl existing = Inr v" and m: "m = merged c qbit_id dl generation detect now existing v"
    using assms(1) by (auto simp: merge_torrent_def)
  have "carries v row" by (simp add: assms(2) m carries_def merged_def Let_def)
  then have again: "merge_values c dl (Some row) = Inr v" by (rule merge_values_again [OF v])
  have "merged c (qi_qbit_id row) dl generation detect' now' (Some row) v =
      \<lparr>mg_row = stamp (ic_codec c) now' row, mg_release = parse_release (ic_unicode c) (qi_name row),
         mg_became_complete = False, mg_manifest_needed = False\<rparr>" for detect' now'
    unfolding merged_def Let_def assms(2) m stamp_def
    by (auto simp: merged_completed_at_def timestamp_value_def or_stored_option_def split: option.splits)
  then show ?thesis by (simp add: absorbed_def merge_torrent_def again)
qed


section \<open>Projecting a change\<close>

lemma find_mapped: "(\<And>x. P (f x) = P x) \<Longrightarrow> find P (map f xs) = map_option f (find P xs)"
  by (induction xs) auto

lemma find_torrent_update:
  "(\<And>row. qi_qbit_id (f row) = qi_qbit_id row) \<Longrightarrow>
   find_torrent q (update_torrents p f s) = map_option (\<lambda>row. if p row then f row else row) (find_torrent q s)"
  unfolding find_torrent_def update_torrents_def by (simp add: find_mapped)

lemma insert_title_frame [simp]:
  "iv_torrents (insert_title source k kind title s) = iv_torrents s" "iv_files (insert_title source k kind title s) = iv_files s"
  "iv_state (insert_title source k kind title s) = iv_state s" "iv_tasks (insert_title source k kind title s) = iv_tasks s"
  by (simp_all add: insert_title_def)

lemma insert_external_frame [simp]:
  "iv_torrents (insert_external source k entry s) = iv_torrents s" "iv_files (insert_external source k entry s) = iv_files s"
  "iv_state (insert_external source k entry s) = iv_state s" "iv_tasks (insert_external source k entry s) = iv_tasks s"
  by (simp_all add: insert_external_def Let_def)

lemma fold_frame: "(\<And>x s. g (f x s) = g s) \<Longrightarrow> g (fold f xs s) = g s"
  by (induction xs arbitrary: s) simp_all

lemma replace_facts_frame [simp]:
  "iv_torrents (replace_facts source k release s) = iv_torrents s" "iv_files (replace_facts source k release s) = iv_files s"
  "iv_state (replace_facts source k release s) = iv_state s" "iv_tasks (replace_facts source k release s) = iv_tasks s"
  by (simp_all add: replace_facts_def Let_def fold_frame split: option.split)

definition completion_row_of :: "completion_transition \<Rightarrow> completion_row" where
  "completion_row_of x = \<lparr>cm_source_id = cx_source_id x, cm_completed_at = cx_completed_at x,
     cm_operation_id = cx_operation_id x, cm_task_id = cx_task_id x\<rparr>"

definition opt_list :: "'a option \<Rightarrow> 'a list" where
  "opt_list x = (case x of None \<Rightarrow> [] | Some v \<Rightarrow> [v])"

lemma opt_list_simps [simp]: "opt_list None = []" "opt_list (Some v) = [v]"
  by (simp_all add: opt_list_def)

text \<open>A transition has its task and the start of its orchestration in the outbox.\<close>

definition announced :: "codec \<Rightarrow> task_store \<Rightarrow> completion_transition \<Rightarrow> bool" where
  "announced codec s x \<longleftrightarrow> st_tasks s (cx_task_id x) \<noteq> None \<and> (\<exists>start \<in> set (st_outbox s).
     ob_task_key start = identity codec ''qbit-completion-key'' (cx_source_id x) (cx_completed_at x))"

lemma queueing_frame:
  "st_completions (queued_event k now s) = st_completions s" "st_completions (insert_task k row s) = st_completions s"
  "st_completions (insert_operation i instance_id now s) = st_completions s"
  "st_tasks (queued_event k now s) = st_tasks s" "st_tasks (insert_task k row s) k \<noteq> None"
  by (simp_all add: queued_event_def insert_task_def insert_operation_def add_event_def split: option.split)

lemma start_once_effect:
  assumes "start_once codec row s = Inr (started, t)"
  shows "st_completions t = st_completions s" "\<exists>start \<in> set (st_outbox t). ob_task_key start = ob_task_key row"
  using assms by (auto simp: start_once_def insert_outbox_def list_ex_iff split: if_splits option.splits)

lemma accept_completion_rows:
  assumes "accept_completion codec source completed_at now s = Inr (accepted, t)"
  shows "(\<exists>cm \<in> set (st_completions t). cm_source_id cm = source \<and> cm_completed_at cm = completed_at) \<and>
    st_completions t = st_completions s @ (if accepted_completion.ac_duplicate accepted then [] else
      [\<lparr>cm_source_id = source, cm_completed_at = completed_at, cm_operation_id = ac_operation_id accepted,
        cm_task_id = accepted_completion.ac_task_id accepted\<rparr>]) \<and>
    st_tasks t (accepted_completion.ac_task_id accepted) \<noteq> None \<and>
    (\<exists>start \<in> set (st_outbox t). ob_task_key start = identity codec ''qbit-completion-key'' source completed_at)"
  using assms unfolding accept_completion_def Let_def
proof (elim and_then_InrE)
  let ?o = "id16 codec ''qbit-completion-operation'' source completed_at"
  let ?t = "id16 codec ''qbit-completion-task'' source completed_at"
  let ?i = "''qbit-completion:'' @ encode_hex ?o"
  let ?start = "outbox_start ?t (identity codec ''qbit-completion-key'' source completed_at)
        COMPLETION_NAME COMPLETION_VERSION ?i (cd_completion_input codec ?o ?t source completed_at now) now"
  fix s1 q
  let ?s4 = "queued_event ?t now (insert_task ?t (queued_row ''qbittorrent_completion'' ?i
        (ps_id (completion_policy codec)) now) (insert_operation ?o ?i now s1))"
  assume s1: "insert_policy codec (completion_policy codec) s = Inr s1"
    and q: "start_once codec ?start ?s4 = Inr q"
    and c: "(case q of (_, s5) \<Rightarrow> and_then (insert_completion \<lparr>cm_source_id = source, cm_completed_at = completed_at,
        cm_operation_id = ?o, cm_task_id = ?t\<rparr> s5) (\<lambda>(inserted, s6).
          Inr (\<lparr>ac_operation_id = ?o, ac_task_id = ?t, ac_duplicate = (\<not> inserted)\<rparr>, s6))) = Inr (accepted, t)"
  obtain started s5 where q5: "q = (started, s5)" by (cases q)
  have "st_completions s1 = st_completions s" using s1 by (auto simp: insert_policy_def split: if_splits)
  then have comps: "st_completions s5 = st_completions s"
    using start_once_effect(1) [OF q [unfolded q5]] by (simp add: queueing_frame)
  have "st_tasks ?s4 ?t \<noteq> None" by (simp only: queueing_frame not_False_eq_True)
  then have task: "st_tasks s5 ?t \<noteq> None" using start_once_frame(1) [OF q [unfolded q5]] by simp
  have start: "\<exists>start \<in> set (st_outbox s5). ob_task_key start = identity codec ''qbit-completion-key'' source completed_at"
    using start_once_effect(2) [OF q [unfolded q5]] by (simp add: outbox_start_def)
  obtain inserted where i: "insert_completion \<lparr>cm_source_id = source, cm_completed_at = completed_at,
        cm_operation_id = ?o, cm_task_id = ?t\<rparr> s5 = Inr (inserted, t)"
      and a: "accepted = \<lparr>ac_operation_id = ?o, ac_task_id = ?t, ac_duplicate = (\<not> inserted)\<rparr>"
    using c by (auto simp: q5)
  from i task start comps show ?thesis unfolding a
    by (auto simp: insert_completion_def list_ex_iff split: if_splits)
qed

text \<open>The only step that a projection takes on the tasks.\<close>

definition completion_step :: "codec \<Rightarrow> task_store \<Rightarrow> task_store \<Rightarrow> bool" where
  "completion_step codec s t \<longleftrightarrow> (\<exists>source completed_at now accepted.
     accept_completion codec source completed_at now s = Inr (accepted, t))"

lemma completion_stepI:
  "accept_completion codec source completed_at now s = Inr (accepted, t) \<Longrightarrow> completion_step codec s t"
  unfolding completion_step_def by blast

lemma accept_completed_effect:
  assumes "accept_completed c source completed now s = Inr (found, t)"
  shows "iv_torrents t = iv_torrents s" "iv_files t = iv_files s" "iv_state t = iv_state s"
    "completed = None \<Longrightarrow> found = None \<and> t = s"
    "st_completions (iv_tasks t) = st_completions (iv_tasks s) @ map completion_row_of (opt_list found)"
    "completed \<noteq> None \<Longrightarrow> \<exists>cm \<in> set (st_completions (iv_tasks t)). cm_source_id cm = source"
    "found = Some x \<Longrightarrow> announced (ic_codec c) (iv_tasks t) x \<and> cx_source_id x = source"
    "(completion_step (ic_codec c))\<^sup>*\<^sup>* (iv_tasks s) (iv_tasks t)"
proof -
  consider "completed = None" "found = None" "t = s" | at accepted tasks where "completed = Some at"
      "accept_completion (ic_codec c) source at now (iv_tasks s) = Inr (accepted, tasks)" "t = s\<lparr>iv_tasks := tasks\<rparr>"
      "found = (if accepted_completion.ac_duplicate accepted then None
         else Some \<lparr>cx_source_id = source, cx_completed_at = at, cx_operation_id = ac_operation_id accepted,
           cx_task_id = accepted_completion.ac_task_id accepted\<rparr>)"
    using assms by (auto simp: accept_completed_def split: option.splits sum.splits)
  note parts = this
  show "iv_torrents t = iv_torrents s" "iv_files t = iv_files s" "iv_state t = iv_state s"
    using parts by (cases, simp, simp)+
  show "found = None \<and> t = s" if "completed = None" using parts that by cases auto
  show "st_completions (iv_tasks t) = st_completions (iv_tasks s) @ map completion_row_of (opt_list found)"
    using parts by cases (auto simp: completion_row_of_def dest!: accept_completion_rows)
  show "\<exists>cm \<in> set (st_completions (iv_tasks t)). cm_source_id cm = source" if "completed \<noteq> None"
    using parts that by cases (auto dest!: accept_completion_rows)
  show "announced (ic_codec c) (iv_tasks t) x \<and> cx_source_id x = source" if "found = Some x"
    using parts that by cases (auto simp: announced_def dest!: accept_completion_rows split: if_splits)
  show "(completion_step (ic_codec c))\<^sup>*\<^sup>* (iv_tasks s) (iv_tasks t)"
    using parts by cases (auto intro: r_into_rtranclp completion_stepI)
qed


definition keep_manifest :: "inventory_row \<Rightarrow> inventory_row \<Rightarrow> inventory_row" where
  "keep_manifest row old = row\<lparr>qt_id := qt_id old, qt_manifest_version := qt_manifest_version old,
     qi_manifest_loaded_at := qi_manifest_loaded_at old\<rparr>"

lemma keep_manifest_simps [simp]:
  "qi_qbit_id (keep_manifest row old) = qi_qbit_id row" "qt_available (keep_manifest row old) = qt_available row"
  "qt_is_complete (keep_manifest row old) = qt_is_complete row" "qt_id (keep_manifest row old) = qt_id old"
  "qi_last_seen_generation (keep_manifest row old) = qi_last_seen_generation row"
  "qt_v1_hash (keep_manifest row old) = qt_v1_hash row" "qt_v2_hash (keep_manifest row old) = qt_v2_hash row"
  by (simp_all add: keep_manifest_def)

text \<open>The constraints of the table.\<close>

definition torrents_ok :: "inventory_store \<Rightarrow> bool" where
  "torrents_ok s \<longleftrightarrow> distinct (map qi_qbit_id (iv_torrents s)) \<and> distinct (map qt_id (iv_torrents s)) \<and>
     (\<forall>a \<in> set (iv_torrents s). \<forall>b \<in> set (iv_torrents s). \<not> hash_taken a b)"

lemma upsert_torrent_Inr:
  assumes "upsert_torrent codec row s = Inr t"
  obtains (inserted) "find_torrent (qi_qbit_id row) s = None" "iv_torrents t = iv_torrents s @ [row]"
      "\<forall>old \<in> set (iv_torrents s). qt_id old \<noteq> qt_id row \<and> \<not> hash_taken row old" "t = s\<lparr>iv_torrents := iv_torrents t\<rparr>"
  | (updated) old where "find_torrent (qi_qbit_id row) s = Some old"
      "iv_torrents t = map (\<lambda>old. if qi_qbit_id old = qi_qbit_id row then keep_manifest row old else old) (iv_torrents s)"
      "\<forall>old \<in> set (iv_torrents s). \<not> hash_taken row old" "t = s\<lparr>iv_torrents := iv_torrents t\<rparr>"
  using assms unfolding upsert_torrent_def keep_manifest_def [abs_def]
  by (cases "find_torrent (qi_qbit_id row) s") (auto simp: list_ex_iff split: if_splits)

lemma upsert_torrent_frame:
  assumes "upsert_torrent codec row s = Inr t"
  shows "iv_files t = iv_files s" "iv_state t = iv_state s" "iv_tasks t = iv_tasks s"
  using assms unfolding upsert_torrent_def by (auto split: if_splits option.splits)

lemma find_torrent_Some:
  assumes "find_torrent q s = Some row"
  shows "row \<in> set (iv_torrents s)" "qi_qbit_id row = q"
  using assms by (auto simp: find_torrent_def find_Some_iff)

lemma find_torrent_None: "find_torrent q s = None \<longleftrightarrow> q \<notin> qi_qbit_id ` set (iv_torrents s)"
  by (auto simp: find_torrent_def find_None_iff)

lemma find_append: "find P (xs @ ys) = (case find P xs of None \<Rightarrow> find P ys | Some x \<Rightarrow> Some x)"
  by (induction xs) auto

lemma find_torrent_upsert:
  assumes "upsert_torrent codec row s = Inr t"
  shows "find_torrent q t = (if q = qi_qbit_id row
    then Some (case find_torrent q s of None \<Rightarrow> row | Some old \<Rightarrow> keep_manifest row old) else find_torrent q s)"
  using assms
proof (rule upsert_torrent_Inr)
  assume i: "find_torrent (qi_qbit_id row) s = None" "iv_torrents t = iv_torrents s @ [row]"
  then show ?thesis by (auto simp: find_torrent_def find_append split: option.split)
next
  fix old
  assume u: "find_torrent (qi_qbit_id row) s = Some old"
    "iv_torrents t = map (\<lambda>old. if qi_qbit_id old = qi_qbit_id row then keep_manifest row old else old) (iv_torrents s)"
  have "find_torrent q t = map_option (\<lambda>old. if qi_qbit_id old = qi_qbit_id row then keep_manifest row old else old) (find_torrent q s)"
    unfolding find_torrent_def u(2) by (rule find_mapped) simp
  then show ?thesis using u(1) by (cases "find_torrent q s") (auto dest: find_torrent_Some(2))
qed

lemma hash_taken_sym: "hash_taken a b \<Longrightarrow> hash_taken b a"
  by (auto simp: hash_taken_def)

lemma torrents_ok_upsert:
  assumes "upsert_torrent codec row s = Inr t" and ok: "torrents_ok s"
  shows "torrents_ok t"
  using assms(1)
proof (rule upsert_torrent_Inr)
  assume i: "find_torrent (qi_qbit_id row) s = None" "iv_torrents t = iv_torrents s @ [row]"
    "\<forall>old \<in> set (iv_torrents s). qt_id old \<noteq> qt_id row \<and> \<not> hash_taken row old"
  have "\<not> hash_taken row row" by (simp add: hash_taken_def)
  moreover have "\<forall>old \<in> set (iv_torrents s). \<not> hash_taken old row" using i(3) hash_taken_sym by blast
  ultimately show ?thesis using ok i by (auto simp: torrents_ok_def find_torrent_None)
next
  fix old
  assume u: "iv_torrents t = map (\<lambda>old. if qi_qbit_id old = qi_qbit_id row then keep_manifest row old else old) (iv_torrents s)"
    "\<forall>old \<in> set (iv_torrents s). \<not> hash_taken row old"
  let ?f = "\<lambda>old. if qi_qbit_id old = qi_qbit_id row then keep_manifest row old else old"
  have keys: "map qi_qbit_id (map ?f (iv_torrents s)) = map qi_qbit_id (iv_torrents s)"
    "map qt_id (map ?f (iv_torrents s)) = map qt_id (iv_torrents s)" by auto
  have "\<not> hash_taken (?f a) (?f b)" if "a \<in> set (iv_torrents s)" "b \<in> set (iv_torrents s)" for a b
  proof -
    have "\<not> hash_taken row a" "\<not> hash_taken row b" "\<not> hash_taken a b" using that u(2) ok by (auto simp: torrents_ok_def)
    then show ?thesis by (auto simp: hash_taken_def)
  qed
  then have "\<forall>a \<in> set (map ?f (iv_torrents s)). \<forall>b \<in> set (map ?f (iv_torrents s)). \<not> hash_taken a b"
    unfolding set_map by blast
  then show ?thesis using ok unfolding torrents_ok_def u(1) keys by simp
qed

lemma project_torrent_Inr:
  assumes "project_torrent c q dl generation detect now s = Inr (outcome, t)"
  obtains m s1 where "merge_torrent c q dl generation detect now (find_torrent q s) = Inr m"
    "upsert_torrent (ic_codec c) (mg_row m) s = Inr s1" "iv_torrents t = iv_torrents s1"
    "iv_files t = iv_files s" "iv_state t = iv_state s" "to_manifest_needed outcome = mg_manifest_needed m"
    "accept_completed c (torrent_source_id (ic_codec c) q) (if mg_became_complete m then qi_completed_at (mg_row m) else None) now
      (replace_facts (torrent_source_id (ic_codec c) q) ''qbittorrent'' (mg_release m) s1) = Inr (to_completion outcome, t)"
    "iv_tasks s1 = iv_tasks s"
  using assms unfolding project_torrent_def Let_def
proof (elim and_then_InrE)
  fix m s1 r
  assume p: "merge_torrent c q dl generation detect now (find_torrent q s) = Inr m"
    "upsert_torrent (ic_codec c) (mg_row m) s = Inr s1"
    "accept_completed c (torrent_source_id (ic_codec c) q) (if mg_became_complete m then qi_completed_at (mg_row m) else None) now
      (replace_facts (torrent_source_id (ic_codec c) q) ''qbittorrent'' (mg_release m) s1) = Inr r"
    "(case r of (completion, s3) \<Rightarrow> Inr (\<lparr>to_source_id = torrent_source_id (ic_codec c) q, to_completion = completion,
       to_manifest_needed = mg_manifest_needed m\<rparr>, s3)) = Inr (outcome, t)"
  obtain found where r: "r = (found, t)" "outcome = \<lparr>to_source_id = torrent_source_id (ic_codec c) q, to_completion = found,
       to_manifest_needed = mg_manifest_needed m\<rparr>" using p(4) by (auto split: prod.splits)
  note f = accept_completed_effect [OF p(3) [unfolded r(1)]]
  have s1: "iv_files s1 = iv_files s \<and> iv_state s1 = iv_state s \<and> iv_tasks s1 = iv_tasks s"
    using upsert_torrent_frame [OF p(2)] by simp
  show thesis using p(3) r s1 f by (intro that [OF p(1,2)]) simp_all
qed

lemma project_torrent_find:
  assumes "project_torrent c q dl generation detect now s = Inr (outcome, t)"
  shows "\<exists>row. find_torrent q t = Some row \<and> absorbed c generation dl row \<and> qt_available row \<and> qi_last_seen_generation row = generation"
    "q' \<noteq> q \<Longrightarrow> find_torrent q' t = find_torrent q' s" "torrents_ok s \<Longrightarrow> torrents_ok t"
  using assms
proof -
  obtain m s1 where m: "merge_torrent c q dl generation detect now (find_torrent q s) = Inr m"
    and s1: "upsert_torrent (ic_codec c) (mg_row m) s = Inr s1" and t: "iv_torrents t = iv_torrents s1"
    by (rule project_torrent_Inr [OF assms])
  note row = merge_torrent_row [OF m]
  have f: "find_torrent q' t = find_torrent q' s1" for q' by (simp add: find_torrent_def t)
  show "q' \<noteq> q \<Longrightarrow> find_torrent q' t = find_torrent q' s" using find_torrent_upsert [OF s1] by (simp add: f row)
  show "torrents_ok s \<Longrightarrow> torrents_ok t" using torrents_ok_upsert [OF s1] by (simp add: torrents_ok_def t)
  define new where "new = (case find_torrent q s of None \<Rightarrow> mg_row m | Some old \<Rightarrow> keep_manifest (mg_row m) old)"
  have "find_torrent q t = Some new" using find_torrent_upsert [OF s1] by (simp add: f row new_def)
  moreover have "absorbed c generation dl new"
    by (rule merged_absorbed [OF m, where i = "qt_id new" and a = "qt_available new" and version = "qt_manifest_version new"
          and l = "qi_manifest_loaded_at new" and u = "qi_updated_at new"])
      (simp add: new_def keep_manifest_def split: option.split)
  moreover have "qt_available new" "qi_last_seen_generation new = generation"
    by (simp_all add: new_def row split: option.split)
  ultimately show "\<exists>row. find_torrent q t = Some row \<and> absorbed c generation dl row \<and> qt_available row \<and> qi_last_seen_generation row = generation"
    by blast
qed


section \<open>Projecting a batch\<close>

lemma mark_unavailable_simps [simp]:
  "qi_qbit_id (mark_unavailable now row) = qi_qbit_id row" "qt_is_complete (mark_unavailable now row) = qt_is_complete row"
  "qi_last_seen_generation (mark_unavailable now row) = qi_last_seen_generation row" "qt_id (mark_unavailable now row) = qt_id row"
  "\<not> qt_available (mark_unavailable now row)" "qt_v1_hash (mark_unavailable now row) = qt_v1_hash row"
  "qt_v2_hash (mark_unavailable now row) = qt_v2_hash row"
  by (simp_all add: mark_unavailable_def)

lemma update_torrents_frame [simp]:
  "iv_files (update_torrents p f s) = iv_files s" "iv_state (update_torrents p f s) = iv_state s"
  "iv_tasks (update_torrents p f s) = iv_tasks s"
  by (simp_all add: update_torrents_def)

text \<open>What a change does to the tasks and to the completeness of a torrent.\<close>

definition effect_ok :: "inventory_codec \<Rightarrow> bool \<Rightarrow> inventory_change list \<Rightarrow> completion_transition list \<Rightarrow> inventory_store \<Rightarrow> inventory_store \<Rightarrow> bool" where
  "effect_ok c detect changes found s t \<longleftrightarrow>
     st_completions (iv_tasks t) = st_completions (iv_tasks s) @ map completion_row_of found \<and>
     (\<forall>x \<in> set found. announced (ic_codec c) (iv_tasks t) x \<and>
       (\<exists>q dl. Upsert q dl \<in> set changes \<and> cx_source_id x = torrent_source_id (ic_codec c) q)) \<and>
     (\<not> detect \<longrightarrow> iv_tasks t = iv_tasks s) \<and>
     (completion_step (ic_codec c))\<^sup>*\<^sup>* (iv_tasks s) (iv_tasks t) \<and>
     (\<forall>q row. find_torrent q s = Some row \<longrightarrow> (\<exists>row'. find_torrent q t = Some row' \<and>
       (detect \<and> \<not> qt_is_complete row \<and> qt_is_complete row' \<longrightarrow>
         (\<exists>cm \<in> set (st_completions (iv_tasks t)). cm_source_id cm = torrent_source_id (ic_codec c) q))))"

lemma accept_completion_grows:
  assumes "accept_completion codec source completed_at now s = Inr (accepted, t)"
  shows "st_tasks s k \<noteq> None \<Longrightarrow> st_tasks t k \<noteq> None" "ob_task_key ` set (st_outbox s) \<subseteq> ob_task_key ` set (st_outbox t)"
proof -
  obtain s2 s5 start task inserted kind instance_id policy where f: "st_tasks s2 = st_tasks s" "st_outbox s2 = st_outbox s"
    and q: "start_once codec start (queued_event task now
       (insert_task task (queued_row kind instance_id policy now) s2)) = Inr (inserted, s5)"
    and t: "st_tasks t = st_tasks s5" "st_outbox t = st_outbox s5"
    by (rule accept_completion_Inr [OF assms])
  have "st_tasks t = st_tasks (insert_task task (queued_row kind instance_id policy now) s2)"
    using start_once_frame(1) [OF q] by (simp add: t queueing_frame)
  then show "st_tasks s k \<noteq> None \<Longrightarrow> st_tasks t k \<noteq> None" by (simp add: insert_task_def f)
  have "st_outbox (queued_event task now (insert_task task (queued_row kind instance_id policy now) s2)) = st_outbox s"
    by (simp add: queued_event_def insert_task_def add_event_def f split: option.split)
  then show "ob_task_key ` set (st_outbox s) \<subseteq> ob_task_key ` set (st_outbox t)"
    using q by (auto simp: t start_once_def insert_outbox_def split: if_splits option.splits)
qed

lemma completion_steps_announced:
  assumes "(completion_step codec)\<^sup>*\<^sup>* s t" and "announced codec s x"
  shows "announced codec t x"
  using assms
proof (induction rule: rtranclp_induct)
  case (step t u)
  then have a: "announced codec t x" by simp
  obtain source completed_at now accepted where "accept_completion codec source completed_at now t = Inr (accepted, u)"
    using step.hyps(2) by (auto simp: completion_step_def)
  note g = accept_completion_grows [OF this]
  show ?case using a g(1) [of "cx_task_id x"] g(2) unfolding announced_def by (metis (no_types, lifting) image_iff subsetD imageI)
qed simp

lemma completion_steps_guarded: "(completion_step codec)\<^sup>*\<^sup>* s t \<Longrightarrow> (guarded_step codec)\<^sup>*\<^sup>* s t"
  by (induction rule: rtranclp_induct) (auto simp: completion_step_def intro: rtranclp.rtrancl_into_rtrancl guarded_step.accepts_completion)

lemma effect_ok_refl: "effect_ok c detect changes [] s s"
  by (auto simp: effect_ok_def)

lemma effect_ok_trans:
  assumes "effect_ok c detect changes found s t" and "effect_ok c detect changes' found' t u"
  shows "effect_ok c detect (changes @ changes') (found @ found') s u"
proof -
  note 1 = assms(1)[unfolded effect_ok_def] and 2 = assms(2)[unfolded effect_ok_def]
  have steps: "(completion_step (ic_codec c))\<^sup>*\<^sup>* (iv_tasks t) (iv_tasks u)" using 2 by blast
  have ann: "\<forall>x \<in> set found. announced (ic_codec c) (iv_tasks u) x" using 1 completion_steps_announced [OF steps] by blast
  have "\<exists>row'. find_torrent q u = Some row' \<and> (detect \<and> \<not> qt_is_complete row \<and> qt_is_complete row' \<longrightarrow>
      (\<exists>cm \<in> set (st_completions (iv_tasks u)). cm_source_id cm = torrent_source_id (ic_codec c) q))"
    if q: "find_torrent q s = Some row" for q row
  proof -
    obtain mid where m: "find_torrent q t = Some mid" "detect \<and> \<not> qt_is_complete row \<and> qt_is_complete mid \<longrightarrow>
        (\<exists>cm \<in> set (st_completions (iv_tasks t)). cm_source_id cm = torrent_source_id (ic_codec c) q)" using 1 q by blast
    obtain row' where r: "find_torrent q u = Some row'" "detect \<and> \<not> qt_is_complete mid \<and> qt_is_complete row' \<longrightarrow>
        (\<exists>cm \<in> set (st_completions (iv_tasks u)). cm_source_id cm = torrent_source_id (ic_codec c) q)" using 2 m(1) by blast
    have "set (st_completions (iv_tasks t)) \<subseteq> set (st_completions (iv_tasks u))" using 2 by auto
    then show ?thesis using m(2) r by blast
  qed
  then have found: "\<forall>q row. find_torrent q s = Some row \<longrightarrow> (\<exists>row'. find_torrent q u = Some row' \<and>
      (detect \<and> \<not> qt_is_complete row \<and> qt_is_complete row' \<longrightarrow>
        (\<exists>cm \<in> set (st_completions (iv_tasks u)). cm_source_id cm = torrent_source_id (ic_codec c) q)))" by blast
  have "\<forall>x \<in> set (found @ found'). announced (ic_codec c) (iv_tasks u) x \<and>
      (\<exists>q dl. Upsert q dl \<in> set (changes @ changes') \<and> cx_source_id x = torrent_source_id (ic_codec c) q)"
    using 1 2 ann unfolding set_append Un_iff by blast
  moreover have "(completion_step (ic_codec c))\<^sup>*\<^sup>* (iv_tasks s) (iv_tasks u)" using 1 steps by (meson rtranclp_trans)
  ultimately show ?thesis using 1 2 found unfolding effect_ok_def by simp
qed

lemma project_torrent_effect:
  assumes "project_torrent c q dl generation detect now s = Inr (outcome, t)"
  shows "effect_ok c detect [Upsert q dl] (opt_list (to_completion outcome)) s t"
proof -
  obtain m s1 where m: "merge_torrent c q dl generation detect now (find_torrent q s) = Inr m"
    and s1: "upsert_torrent (ic_codec c) (mg_row m) s = Inr s1" "iv_torrents t = iv_torrents s1" "iv_tasks s1 = iv_tasks s"
    and a: "accept_completed c (torrent_source_id (ic_codec c) q) (if mg_became_complete m then qi_completed_at (mg_row m) else None) now
      (replace_facts (torrent_source_id (ic_codec c) q) ''qbittorrent'' (mg_release m) s1) = Inr (to_completion outcome, t)"
    by (rule project_torrent_Inr [OF assms])
  note row = merge_torrent_row [OF m] and e = accept_completed_effect [OF a, simplified replace_facts_frame s1(3)]
  have find: "find_torrent q' t = (if q' = q then Some (case find_torrent q s of None \<Rightarrow> mg_row m
      | Some old \<Rightarrow> keep_manifest (mg_row m) old) else find_torrent q' s)" for q'
    using find_torrent_upsert [OF s1(1), of q'] row(1) by (auto simp: find_torrent_def s1(2))
  have "\<exists>cm \<in> set (st_completions (iv_tasks t)). cm_source_id cm = torrent_source_id (ic_codec c) q"
    if "detect" "find_torrent q s = Some old" "\<not> qt_is_complete old" "qt_is_complete (mg_row m)" for old
  proof -
    have "mg_became_complete m" using row(6) that by blast
    then show ?thesis using e(6) row(7) by simp
  qed
  then have "\<exists>row'. find_torrent q' t = Some row' \<and> (detect \<and> \<not> qt_is_complete old \<and> qt_is_complete row' \<longrightarrow>
      (\<exists>cm \<in> set (st_completions (iv_tasks t)). cm_source_id cm = torrent_source_id (ic_codec c) q'))"
    if "find_torrent q' s = Some old" for q' old using that by (auto simp: find)
  moreover have "\<not> detect \<longrightarrow> iv_tasks t = iv_tasks s" using e(4) row(6) s1(3) by auto
  moreover have "\<forall>x \<in> set (opt_list (to_completion outcome)). announced (ic_codec c) (iv_tasks t) x \<and>
      cx_source_id x = torrent_source_id (ic_codec c) q"
    using e(7) by (auto simp: opt_list_def split: option.splits)
  ultimately show ?thesis using e(5,8) by (auto simp: effect_ok_def)
qed

lemma removed_effect:
  "effect_ok c detect [Removed q] [] s (update_torrents (\<lambda>row. qi_qbit_id row = q) (mark_unavailable now) s)"
  by (auto simp: effect_ok_def find_torrent_update)

lemma project_changes_effect:
  assumes "project_changes c generation detect now changes b s = Inr (b', t)"
  shows "\<exists>found. pb_completions b' = pb_completions b @ found \<and> effect_ok c detect changes found s t"
  using assms
proof (induction c generation detect now changes b s rule: project_changes.induct)
  case (1 c generation detect now b s)
  then show ?case using effect_ok_refl by auto
next
  case (2 c generation detect now q dl changes b s)
  then obtain outcome s' where p: "project_torrent c q dl generation detect now s = Inr (outcome, s')"
    and rest: "project_changes c generation detect now changes ((batch_add outcome b)\<lparr>pb_changed := pb_changed b + 1\<rparr>) s' = Inr (b', t)"
    by (auto split: prod.splits)
  have "\<exists>found. pb_completions b' = pb_completions ((batch_add outcome b)\<lparr>pb_changed := pb_changed b + 1\<rparr>) @ found \<and>
      effect_ok c detect changes found s' t"
    by (rule 2(1) [OF rest])
  then obtain found where "pb_completions b' = pb_completions b @ opt_list (to_completion outcome) @ found"
      "effect_ok c detect changes found s' t" by (auto simp: batch_add_def opt_list_def)
  then show ?case using effect_ok_trans [OF project_torrent_effect [OF p]] by fastforce
next
  case (3 c generation detect now q changes b s)
  then show ?case using effect_ok_trans [OF removed_effect] by fastforce
qed


section \<open>Availability\<close>

definition available :: "string \<Rightarrow> inventory_store \<Rightarrow> bool" where
  "available q s \<longleftrightarrow> (case find_torrent q s of None \<Rightarrow> False | Some row \<Rightarrow> qt_available row)"

fun availability :: "string \<Rightarrow> inventory_change list \<Rightarrow> bool \<Rightarrow> bool" where
  "availability q [] a = a"
| "availability q (Upsert q' dl # changes) a = availability q changes (if q' = q then True else a)"
| "availability q (Removed q' # changes) a = availability q changes (if q' = q then False else a)"

lemma availability_again: "availability q changes (availability q changes a) = availability q changes a"
proof -
  have "(\<forall>a. availability q changes a) \<or> (\<forall>a. \<not> availability q changes a) \<or> (\<forall>a. availability q changes a = a)"
    by (induction q changes a rule: availability.induct) auto
  then show ?thesis by metis
qed

lemma project_changes_available:
  "project_changes c generation detect now changes b s = Inr (b', t) \<Longrightarrow> available q t = availability q changes (available q s)"
proof (induction c generation detect now changes b s rule: project_changes.induct)
  case (2 c generation detect now q' dl changes b s)
  then obtain outcome s' where p: "project_torrent c q' dl generation detect now s = Inr (outcome, s')"
    and rest: "project_changes c generation detect now changes ((batch_add outcome b)\<lparr>pb_changed := pb_changed b + 1\<rparr>) s' = Inr (b', t)"
    by (auto split: prod.splits)
  have "available q s' = (if q' = q then True else available q s)"
    using project_torrent_find(1) [OF p] project_torrent_find(2) [OF p, of q] by (cases "q' = q") (auto simp: available_def)
  then show ?case using 2(1) [OF rest] by simp
next
  case (3 c generation detect now q' changes b s)
  then show ?case
    by (auto simp: available_def find_torrent_update dest: find_torrent_Some(2) split: option.splits)
qed simp

section \<open>Projecting again\<close>

definition storable :: "codec \<Rightarrow> inventory_row \<Rightarrow> bool" where
  "storable codec row \<longleftrightarrow> cd_json_valid codec (qt_tags_json row) \<and>
     list_all (cd_json_valid codec) (case qt_release_json row of None \<Rightarrow> [] | Some j \<Rightarrow> [j])"

definition settled :: "inventory_codec \<Rightarrow> int \<Rightarrow> string \<Rightarrow> inventory_delta \<Rightarrow> inventory_store \<Rightarrow> bool" where
  "settled c generation q dl s \<longleftrightarrow>
     (\<exists>row. find_torrent q s = Some row \<and> absorbed c generation dl row \<and> storable (ic_codec c) row)"

definition touched :: "int \<Rightarrow> inventory_row \<Rightarrow> inventory_row" where
  "touched now row = row\<lparr>qt_available := True, qi_updated_at := now\<rparr>"

lemma merge_ignores:
  "merge_torrent c q dl generation detect now (Some (row\<lparr>qt_available := a, qi_updated_at := u\<rparr>)) =
   merge_torrent c q dl generation detect now (Some row)"
proof -
  let ?row = "row\<lparr>qt_available := a, qi_updated_at := u\<rparr>"
  have stored: "or_stored x (Some ?row) f = or_stored x (Some row) f" if "f ?row = f row" for x :: "'x option" and f
    using that by (simp add: or_stored_def split: option.split)
  have option: "or_stored_option x (Some ?row) f = or_stored_option x (Some row) f" if "f ?row = f row" for x :: "'x option" and f
    using that by (simp add: or_stored_option_def split: option.split)
  have texts: "text_value field x (Some ?row) f = text_value field x (Some row) f" if "f ?row = f row" for field x f
    using that by (simp add: text_value_def stored)
  have integer: "integer_value field x (Some ?row) f = integer_value field x (Some row) f" if "f ?row = f row" for field x f
    using that by (simp add: integer_value_def stored)
  note read = stored option texts integer
  have completed: "merged_completed_at x complete now' (Some ?row) = merged_completed_at x complete now' (Some row)" for x complete now'
    by (simp add: merged_completed_at_def)
  have "merge_values c dl (Some ?row) = merge_values c dl (Some row)"
    by (simp add: merge_values_def read cong: if_cong)
  moreover have "merged c q dl generation detect now (Some ?row) = merged c q dl generation detect now (Some row)"
    unfolding merged_def [abs_def] timestamp_value_def Let_def option.case by (simp add: option completed cong: if_cong)
  ultimately show ?thesis by (simp add: merge_torrent_def)
qed

lemma absorbed_frame:
  assumes "absorbed c generation dl row"
  shows "absorbed c generation dl (row\<lparr>qt_available := a, qi_updated_at := u\<rparr>)"
  using assms unfolding absorbed_def by (simp add: merge_ignores stamp_def)

lemma storable_frame [simp]:
  "storable codec (row\<lparr>qt_available := a, qi_updated_at := u\<rparr>) = storable codec row"
  "storable codec (keep_manifest row old) = storable codec row" "storable codec (stamp codec' now row) = storable codec row"
  by (simp_all add: storable_def keep_manifest_def stamp_def)

lemma settled_project:
  assumes "project_torrent c q dl generation detect now s = Inr (outcome, t)"
  shows "settled c generation q dl t"
proof -
  obtain row where row: "find_torrent q t = Some row" "absorbed c generation dl row"
    using project_torrent_find(1) [OF assms] by blast
  obtain m s1 where m: "merge_torrent c q dl generation detect now (find_torrent q s) = Inr m"
    and s1: "upsert_torrent (ic_codec c) (mg_row m) s = Inr s1" "iv_torrents t = iv_torrents s1"
    by (rule project_torrent_Inr [OF assms])
  have "storable (ic_codec c) (mg_row m)" using s1(1) by (auto simp: upsert_torrent_def storable_def split: if_splits)
  moreover have "row = mg_row m \<or> (\<exists>old. row = keep_manifest (mg_row m) old)"
    using row(1) find_torrent_upsert [OF s1(1), of q] merge_torrent_row(1) [OF m]
    by (auto simp: find_torrent_def s1(2) split: option.splits)
  ultimately show ?thesis using row by (auto simp: settled_def)
qed

lemma settled_other:
  assumes "project_torrent c q dl generation detect now s = Inr (outcome, t)" and "q' \<noteq> q"
  shows "settled c' generation' q' dl' t = settled c' generation' q' dl' s"
  using project_torrent_find(2) [OF assms] by (simp add: settled_def)

lemma settled_removed:
  assumes "settled c generation q dl s"
  shows "settled c generation q dl (update_torrents (\<lambda>row. qi_qbit_id row = q') (mark_unavailable now) s)"
proof -
  obtain row where row: "find_torrent q s = Some row" "absorbed c generation dl row" "storable (ic_codec c) row"
    using assms by (auto simp: settled_def)
  show ?thesis
    by (cases "qi_qbit_id row = q'") (use row in \<open>simp_all add: settled_def find_torrent_update mark_unavailable_def absorbed_frame\<close>)
qed

definition upserts :: "inventory_change list \<Rightarrow> (string \<times> inventory_delta) list" where
  "upserts changes = List.map_filter (\<lambda>x. case x of Upsert q dl \<Rightarrow> Some (q, dl) | Removed _ \<Rightarrow> None) changes"

lemma upserts_simps [simp]:
  "upserts [] = []" "upserts (Upsert q dl # changes) = (q, dl) # upserts changes" "upserts (Removed q # changes) = upserts changes"
  by (simp_all add: upserts_def map_filter_simps)

lemma settled_later:
  "project_changes c generation detect now changes b s = Inr (b', t) \<Longrightarrow> q \<notin> fst ` set (upserts changes) \<Longrightarrow>
   settled c generation q dl s \<Longrightarrow> settled c generation q dl t"
proof (induction c generation detect now changes b s rule: project_changes.induct)
  case (2 c generation detect now q' dl' changes b s)
  then obtain outcome s' where p: "project_torrent c q' dl' generation detect now s = Inr (outcome, s')"
    and rest: "project_changes c generation detect now changes ((batch_add outcome b)\<lparr>pb_changed := pb_changed b + 1\<rparr>) s' = Inr (b', t)"
    by (auto split: prod.splits)
  show ?case using 2(1) [OF rest] 2(3,4) settled_other [OF p] by auto
qed (auto intro: settled_removed)

lemma settled_all:
  "project_changes c generation detect now changes b s = Inr (b', t) \<Longrightarrow> distinct (map fst (upserts changes)) \<Longrightarrow>
   (q, dl) \<in> set (upserts changes) \<Longrightarrow> settled c generation q dl t"
proof (induction c generation detect now changes b s rule: project_changes.induct)
  case (2 c generation detect now q' dl' changes b s)
  then obtain outcome s' where p: "project_torrent c q' dl' generation detect now s = Inr (outcome, s')"
    and rest: "project_changes c generation detect now changes ((batch_add outcome b)\<lparr>pb_changed := pb_changed b + 1\<rparr>) s' = Inr (b', t)"
    by (auto split: prod.splits)
  show ?case
  proof (cases "(q, dl) \<in> set (upserts changes)")
    case True
    then show ?thesis using 2(1) [OF rest] 2(3) by auto
  next
    case False
    then have "q = q'" "dl = dl'" "q \<notin> fst ` set (upserts changes)" using 2(3,4) by auto
    then show ?thesis using settled_later [OF rest] settled_project [OF p] by blast
  qed
qed auto

lemma torrents_ok_update:
  assumes "torrents_ok s" and "\<And>row. qi_qbit_id (f row) = qi_qbit_id row" "\<And>row. qt_id (f row) = qt_id row"
    and "\<And>row. qt_v1_hash (f row) = qt_v1_hash row" "\<And>row. qt_v2_hash (f row) = qt_v2_hash row"
  shows "torrents_ok (update_torrents p f s)"
proof -
  let ?f = "\<lambda>row. if p row then f row else row"
  have keys: "map qi_qbit_id (map ?f (iv_torrents s)) = map qi_qbit_id (iv_torrents s)"
    "map qt_id (map ?f (iv_torrents s)) = map qt_id (iv_torrents s)" using assms(2,3) by auto
  have "hash_taken (?f a) (?f b) = hash_taken a b" for a b using assms(2-5) by (auto simp: hash_taken_def)
  then have "\<forall>a \<in> set (map ?f (iv_torrents s)). \<forall>b \<in> set (map ?f (iv_torrents s)). \<not> hash_taken a b"
    using assms(1) unfolding set_map torrents_ok_def by blast
  moreover have "iv_torrents (update_torrents p f s) = map ?f (iv_torrents s)" by (simp add: update_torrents_def)
  ultimately show ?thesis using assms(1) unfolding torrents_ok_def by (simp only: keys simp_thms)
qed

lemma torrents_ok_changes:
  "project_changes c generation detect now changes b s = Inr (b', t) \<Longrightarrow> torrents_ok s \<Longrightarrow> torrents_ok t"
proof (induction c generation detect now changes b s rule: project_changes.induct)
  case (2 c generation detect now q dl changes b s)
  then obtain outcome s' where p: "project_torrent c q dl generation detect now s = Inr (outcome, s')"
    and rest: "project_changes c generation detect now changes ((batch_add outcome b)\<lparr>pb_changed := pb_changed b + 1\<rparr>) s' = Inr (b', t)"
    by (auto split: prod.splits)
  show ?case using 2(1) [OF rest] 2(3) project_torrent_find(3) [OF p] by blast
next
  case (3 c generation detect now q changes b s)
  have "torrents_ok (update_torrents (\<lambda>row. qi_qbit_id row = q) (mark_unavailable now) s)"
    using 3(3) by (rule torrents_ok_update) simp_all
  then show ?case using 3(1,2) by simp
qed simp


lemma upsert_again:
  assumes ok: "torrents_ok s" and row: "find_torrent q s = Some row" "storable (ic_codec c) row"
  shows "upsert_torrent (ic_codec c) (stamp (ic_codec c) now row) s =
    Inr (update_torrents (\<lambda>r. qi_qbit_id r = q) (touched now) s)"
proof -
  have in_s: "row \<in> set (iv_torrents s)" "qi_qbit_id row = q" using find_torrent_Some [OF row(1)] by simp_all
  have "\<not> list_ex (hash_taken (stamp (ic_codec c) now row)) (iv_torrents s)"
    using ok in_s(1) by (auto simp: list_ex_iff torrents_ok_def hash_taken_def stamp_def)
  moreover have "storable (ic_codec c) (stamp (ic_codec c) now row)" using row(2) by simp
  moreover have "old = row" if "old \<in> set (iv_torrents s)" "qi_qbit_id old = q" for old
    using ok that in_s by (auto simp: torrents_ok_def dest: inj_onD [OF distinct_map [THEN iffD1, THEN conjunct2]])
  then have "map (\<lambda>old. if qi_qbit_id old = q then (stamp (ic_codec c) now row)\<lparr>qt_id := qt_id old,
        qt_manifest_version := qt_manifest_version old, qi_manifest_loaded_at := qi_manifest_loaded_at old\<rparr> else old) (iv_torrents s)
      = map (\<lambda>r. if qi_qbit_id r = q then touched now r else r) (iv_torrents s)"
    by (auto simp: stamp_def touched_def)
  moreover have "qi_qbit_id (stamp (ic_codec c) now row) = q" using in_s(2) by (simp add: stamp_def)
  ultimately show ?thesis using row(1)
    unfolding upsert_torrent_def update_torrents_def storable_def by simp
qed

lemma project_torrent_again:
  assumes ok: "torrents_ok s" and "settled c generation q dl s"
  shows "\<exists>t. project_torrent c q dl generation detect now s =
      Inr (\<lparr>to_source_id = torrent_source_id (ic_codec c) q, to_completion = None, to_manifest_needed = False\<rparr>, t) \<and>
    iv_torrents t = iv_torrents (update_torrents (\<lambda>r. qi_qbit_id r = q) (touched now) s) \<and>
    iv_tasks t = iv_tasks s \<and> iv_files t = iv_files s \<and> iv_state t = iv_state s"
proof -
  obtain row where row: "find_torrent q s = Some row" "absorbed c generation dl row" "storable (ic_codec c) row"
    using assms(2) by (auto simp: settled_def)
  have q: "qi_qbit_id row = q" by (rule find_torrent_Some(2) [OF row(1)])
  let ?m = "\<lparr>mg_row = stamp (ic_codec c) now row, mg_release = parse_release (ic_unicode c) (qi_name row),
      mg_became_complete = False, mg_manifest_needed = False\<rparr>"
  have "merge_torrent c q dl generation detect now (find_torrent q s) = Inr ?m"
    using row(1,2) q by (simp add: absorbed_def)
  then show ?thesis
    by (simp add: project_torrent_def upsert_again [OF ok row(1,3)] accept_completed_def and_then_def Let_def)
qed

lemma touched_simps [simp]:
  "qi_qbit_id (touched now row) = qi_qbit_id row" "qt_id (touched now row) = qt_id row"
  "qt_v1_hash (touched now row) = qt_v1_hash row" "qt_v2_hash (touched now row) = qt_v2_hash row"
  by (simp_all add: touched_def)

definition core :: "inventory_row \<Rightarrow> inventory_row" where
  "core row = row\<lparr>qt_available := True, qi_updated_at := 0\<rparr>"

lemma core_simps [simp]: "core (touched now row) = core row" "core (mark_unavailable now row) = core row"
  by (simp_all add: core_def touched_def mark_unavailable_def)

lemma core_update:
  "(\<And>row. core (f row) = core row) \<Longrightarrow> map core (iv_torrents (update_torrents p f s)) = map core (iv_torrents s)"
  by (simp add: update_torrents_def)

lemma settled_touched:
  assumes "settled c generation q dl s"
  shows "settled c generation q dl (update_torrents (\<lambda>row. qi_qbit_id row = q') (touched now) s)"
proof -
  obtain row where row: "find_torrent q s = Some row" "absorbed c generation dl row" "storable (ic_codec c) row"
    using assms by (auto simp: settled_def)
  show ?thesis
    by (cases "qi_qbit_id row = q'") (use row in \<open>simp_all add: settled_def find_torrent_update touched_def absorbed_frame\<close>)
qed

lemma torrents_frame:
  assumes "iv_torrents t = iv_torrents s"
  shows "torrents_ok t = torrents_ok s" "settled c generation q dl t = settled c generation q dl s" "find_torrent q t = find_torrent q s"
  using assms by (simp_all add: torrents_ok_def settled_def find_torrent_def)

section \<open>The facts of a torrent\<close>

text \<open>
  The rows that \<open>replace_facts\<close> writes depend on the release only: it first deletes the
  rows of the source, so what was stored before does not matter.
\<close>

definition add_title_row :: "source_id \<Rightarrow> string \<Rightarrow> string \<Rightarrow> string \<Rightarrow> title_fact list \<Rightarrow> title_fact list" where
  "add_title_row source source_type kind title rows =
     (if list_ex (\<lambda>t. ti_source_id t = source \<and> ti_source_type t = source_type \<and> ti_normalized_title t = title) rows then rows
      else rows @ [\<lparr>ti_source_id = source, ti_source_type = source_type, ti_normalized_title = title, tf_kind = kind\<rparr>])"

definition add_external :: "source_id \<Rightarrow> string \<Rightarrow> string \<times> string \<Rightarrow> external_id_row list \<Rightarrow> external_id_row list" where
  "add_external source source_type entry rows =
     (let row = \<lparr>ex_source_id = source, ex_source_type = source_type, ex_namespace = fst entry, ex_value = snd entry\<rparr>
      in if row \<in> set rows then rows else rows @ [row])"

definition titles_of :: "source_id \<Rightarrow> string \<Rightarrow> release_descriptor \<Rightarrow> title_fact list" where
  "titles_of source source_type release =
     fold (\<lambda>title. add_title_row source source_type ''alternate'' (as_str title))
       (take MAX_ALTERNATE_TITLES (rd_alternate_titles release))
       (add_title_row source source_type ''primary'' (as_str (rd_primary_title release)) [])"

definition externals_of :: "source_id \<Rightarrow> string \<Rightarrow> release_descriptor \<Rightarrow> external_id_row list" where
  "externals_of source source_type release =
     (case rd_arr_identity release of None \<Rightarrow> [] | Some arr \<Rightarrow> fold (add_external source source_type) (external_facts arr) [])"

abbreviation title_of :: "source_id \<Rightarrow> string \<Rightarrow> title_fact \<Rightarrow> bool" where
  "title_of source source_type t \<equiv> ti_source_id t = source \<and> ti_source_type t = source_type"

abbreviation external_of :: "source_id \<Rightarrow> string \<Rightarrow> external_id_row \<Rightarrow> bool" where
  "external_of source source_type e \<equiv> ex_source_id e = source \<and> ex_source_type e = source_type"

lemma insert_title_app:
  assumes "iv_titles s = rest @ rows" and "\<forall>t \<in> set rest. \<not> title_of source k t"
  shows "iv_titles (insert_title source k kind title s) = rest @ add_title_row source k kind title rows"
  using assms by (auto simp: insert_title_def add_title_row_def list_ex_iff)

lemma insert_titles_app:
  assumes "iv_titles s = rest @ rows" and "\<forall>t \<in> set rest. \<not> title_of source k t"
  shows "iv_titles (fold (\<lambda>title. insert_title source k kind (as_str title)) titles s) =
    rest @ fold (\<lambda>title. add_title_row source k kind (as_str title)) titles rows"
  using assms(1)
proof (induction titles arbitrary: s rows)
  case (Cons title titles)
  show ?case using Cons.IH [OF insert_title_app [OF Cons.prems assms(2)]] by simp
qed simp

lemma insert_external_app:
  assumes "iv_external_ids s = rest @ rows" and "\<forall>e \<in> set rest. \<not> external_of source k e"
  shows "iv_external_ids (insert_external source k entry s) = rest @ add_external source k entry rows"
  using assms by (auto simp: insert_external_def add_external_def Let_def)

lemma insert_externals_app:
  assumes "iv_external_ids s = rest @ rows" and "\<forall>e \<in> set rest. \<not> external_of source k e"
  shows "iv_external_ids (fold (insert_external source k) entries s) = rest @ fold (add_external source k) entries rows"
  using assms(1)
proof (induction entries arbitrary: s rows)
  case (Cons entry entries)
  show ?case using Cons.IH [OF insert_external_app [OF Cons.prems assms(2)]] by simp
qed simp

lemma insert_fact_frame [simp]:
  "iv_external_ids (insert_title source k kind title s) = iv_external_ids s" "iv_titles (insert_external source k entry s) = iv_titles s"
  by (simp_all add: insert_title_def insert_external_def Let_def)

lemma replace_facts_exact:
  "iv_titles (replace_facts source k release s) = filter (\<lambda>t. \<not> title_of source k t) (iv_titles s) @ titles_of source k release"
  "iv_external_ids (replace_facts source k release s) =
     filter (\<lambda>e. \<not> external_of source k e) (iv_external_ids s) @ externals_of source k release"
proof -
  define s1 where "s1 = s\<lparr>iv_titles := filter (\<lambda>t. \<not> title_of source k t) (iv_titles s),
     iv_external_ids := filter (\<lambda>e. \<not> external_of source k e) (iv_external_ids s)\<rparr>"
  define s3 where "s3 = fold (\<lambda>title. insert_title source k ''alternate'' (as_str title))
     (take MAX_ALTERNATE_TITLES (rd_alternate_titles release)) (insert_title source k ''primary'' (as_str (rd_primary_title release)) s1)"
  have r: "replace_facts source k release s = (case rd_arr_identity release of None \<Rightarrow> s3
      | Some arr \<Rightarrow> fold (insert_external source k) (external_facts arr) s3)"
    unfolding replace_facts_def s3_def s1_def Let_def ..
  have t: "iv_titles s3 = filter (\<lambda>t. \<not> title_of source k t) (iv_titles s) @ titles_of source k release"
    unfolding s3_def titles_of_def by (intro insert_titles_app insert_title_app) (auto simp: s1_def)
  have e: "iv_external_ids s3 = filter (\<lambda>e. \<not> external_of source k e) (iv_external_ids s)"
    unfolding s3_def by (simp add: fold_frame) (simp add: s1_def)
  show "iv_titles (replace_facts source k release s) = filter (\<lambda>t. \<not> title_of source k t) (iv_titles s) @ titles_of source k release"
    using t by (simp add: r fold_frame split: option.split)
  show "iv_external_ids (replace_facts source k release s) =
     filter (\<lambda>e. \<not> external_of source k e) (iv_external_ids s) @ externals_of source k release"
    using insert_externals_app [of s3 _ "[]"] e by (auto simp: r externals_of_def split: option.split)
qed

lemma facts_of_source:
  "t \<in> set (titles_of source k release) \<Longrightarrow> title_of source k t"
  "e \<in> set (externals_of source k release) \<Longrightarrow> external_of source k e"
proof -
  have "\<forall>t \<in> set rows. title_of source k t \<Longrightarrow>
      \<forall>t \<in> set (fold (\<lambda>title. add_title_row source k kind (as_str title)) titles rows). title_of source k t" for titles rows kind
  proof (induction titles arbitrary: rows)
    case (Cons title titles)
    have "\<forall>t \<in> set (add_title_row source k kind (as_str title) rows). title_of source k t"
      using Cons.prems by (simp add: add_title_row_def)
    from Cons.IH [OF this] show ?case by simp
  qed simp
  from this [of "add_title_row source k ''primary'' (as_str (rd_primary_title release)) []"]
  have "\<forall>t \<in> set (titles_of source k release). title_of source k t" unfolding titles_of_def by (simp add: add_title_row_def)
  then show "t \<in> set (titles_of source k release) \<Longrightarrow> title_of source k t" by blast
  have "\<forall>e \<in> set rows. external_of source k e \<Longrightarrow> \<forall>e \<in> set (fold (add_external source k) entries rows). external_of source k e"
    for entries rows
  proof (induction entries arbitrary: rows)
    case (Cons entry entries)
    have "\<forall>e \<in> set (add_external source k entry rows). external_of source k e"
      using Cons.prems by (simp add: add_external_def Let_def)
    from Cons.IH [OF this] show ?case by simp
  qed simp
  from this [of "[]"] have "\<forall>e \<in> set (externals_of source k release). external_of source k e"
    by (cases "rd_arr_identity release") (simp_all add: externals_of_def)
  then show "e \<in> set (externals_of source k release) \<Longrightarrow> external_of source k e" by blast
qed

text \<open>The facts of a source are those of a release, and written again they stay the same rows.\<close>

definition facts_are :: "source_id \<Rightarrow> release_descriptor \<Rightarrow> inventory_store \<Rightarrow> bool" where
  "facts_are source release s \<longleftrightarrow>
     filter (title_of source ''qbittorrent'') (iv_titles s) = titles_of source ''qbittorrent'' release \<and>
     filter (external_of source ''qbittorrent'') (iv_external_ids s) = externals_of source ''qbittorrent'' release"

lemma facts_are_replaced: "facts_are source release (replace_facts source ''qbittorrent'' release s)"
  unfolding facts_are_def replace_facts_exact by (auto simp: filter_empty_conv filter_id_conv dest: facts_of_source)

lemma facts_of_others:
  assumes "other \<noteq> source"
  shows "facts_are other release' (replace_facts source ''qbittorrent'' release s) = facts_are other release' s"
proof -
  have "filter (title_of other ''qbittorrent'') (titles_of source ''qbittorrent'' release) = []"
    "filter (external_of other ''qbittorrent'') (externals_of source ''qbittorrent'' release) = []"
    using assms by (auto simp: filter_empty_conv dest: facts_of_source)
  moreover have "filter (title_of other ''qbittorrent'') (filter (\<lambda>t. \<not> title_of source ''qbittorrent'' t) xs)
      = filter (title_of other ''qbittorrent'') xs" for xs using assms by (auto intro: filter_cong)
  moreover have "filter (external_of other ''qbittorrent'') (filter (\<lambda>e. \<not> external_of source ''qbittorrent'' e) ys)
      = filter (external_of other ''qbittorrent'') ys" for ys using assms by (auto intro: filter_cong)
  ultimately show ?thesis unfolding facts_are_def replace_facts_exact by simp
qed

lemma mset_parts: "mset (filter (\<lambda>x. \<not> P x) xs @ filter P xs) = mset xs"
  by (induction xs) auto

lemma facts_unchanged:
  assumes "facts_are source release s"
  shows "mset (iv_titles (replace_facts source ''qbittorrent'' release s)) = mset (iv_titles s)"
    "mset (iv_external_ids (replace_facts source ''qbittorrent'' release s)) = mset (iv_external_ids s)"
  unfolding replace_facts_exact assms [unfolded facts_are_def, THEN conjunct1, symmetric]
    assms [unfolded facts_are_def, THEN conjunct2, symmetric] by (rule mset_parts)+

text \<open>A torrent whose facts are those of its stored name.\<close>

definition described :: "inventory_codec \<Rightarrow> string \<Rightarrow> inventory_store \<Rightarrow> bool" where
  "described c q s \<longleftrightarrow> (\<exists>row. find_torrent q s = Some row \<and>
     facts_are (torrent_source_id (ic_codec c) q) (parse_release (ic_unicode c) (qi_name row)) s)"

lemma facts_frame:
  "iv_titles t = iv_titles s \<Longrightarrow> iv_external_ids t = iv_external_ids s \<Longrightarrow> facts_are source release t = facts_are source release s"
  by (simp add: facts_are_def)

lemma project_torrent_facts:
  assumes "project_torrent c q dl generation detect now s = Inr (outcome, t)"
  obtains row where "find_torrent q t = Some row"
    "iv_titles t = iv_titles (replace_facts (torrent_source_id (ic_codec c) q) ''qbittorrent'' (parse_release (ic_unicode c) (qi_name row)) s)"
    "iv_external_ids t = iv_external_ids (replace_facts (torrent_source_id (ic_codec c) q) ''qbittorrent''
       (parse_release (ic_unicode c) (qi_name row)) s)"
proof -
  obtain m s1 where m: "merge_torrent c q dl generation detect now (find_torrent q s) = Inr m"
    and s1: "upsert_torrent (ic_codec c) (mg_row m) s = Inr s1" "iv_torrents t = iv_torrents s1"
    and a: "accept_completed c (torrent_source_id (ic_codec c) q) (if mg_became_complete m then qi_completed_at (mg_row m) else None) now
      (replace_facts (torrent_source_id (ic_codec c) q) ''qbittorrent'' (mg_release m) s1) = Inr (to_completion outcome, t)"
    by (rule project_torrent_Inr [OF assms])
  define row where "row = (case find_torrent q s of None \<Rightarrow> mg_row m | Some old \<Rightarrow> keep_manifest (mg_row m) old)"
  have "find_torrent q t = Some row"
    using find_torrent_upsert [OF s1(1), of q] merge_torrent_row(1) [OF m] by (simp add: find_torrent_def s1(2) row_def)
  moreover have "qi_name row = qi_name (mg_row m)" by (simp add: row_def keep_manifest_def split: option.split)
  moreover have "mg_release m = parse_release (ic_unicode c) (qi_name (mg_row m))"
    using m by (auto simp: merge_torrent_def merged_def Let_def)
  moreover have "iv_titles s1 = iv_titles s" "iv_external_ids s1 = iv_external_ids s"
    using s1(1) unfolding upsert_torrent_def by (auto split: if_splits option.splits)
  moreover have "iv_titles t = iv_titles (replace_facts (torrent_source_id (ic_codec c) q) ''qbittorrent'' (mg_release m) s1)"
    "iv_external_ids t = iv_external_ids (replace_facts (torrent_source_id (ic_codec c) q) ''qbittorrent'' (mg_release m) s1)"
    using a by (auto simp: accept_completed_def split: option.splits sum.splits)
  ultimately show thesis using that by (simp add: replace_facts_exact)
qed

lemma described_project:
  assumes "project_torrent c q dl generation detect now s = Inr (outcome, t)"
  shows "described c q t"
proof -
  obtain row where row: "find_torrent q t = Some row"
    "iv_titles t = iv_titles (replace_facts (torrent_source_id (ic_codec c) q) ''qbittorrent'' (parse_release (ic_unicode c) (qi_name row)) s)"
    "iv_external_ids t = iv_external_ids (replace_facts (torrent_source_id (ic_codec c) q) ''qbittorrent''
       (parse_release (ic_unicode c) (qi_name row)) s)"
    by (rule project_torrent_facts [OF assms])
  show ?thesis unfolding described_def using row(1) facts_frame [OF row(2,3)] facts_are_replaced by blast
qed

lemma described_other:
  assumes "project_torrent c q dl generation detect now s = Inr (outcome, t)"
    and "torrent_source_id (ic_codec c) q' \<noteq> torrent_source_id (ic_codec c) q"
  shows "described c q' t = described c q' s"
proof -
  obtain row where row: "find_torrent q t = Some row"
    "iv_titles t = iv_titles (replace_facts (torrent_source_id (ic_codec c) q) ''qbittorrent'' (parse_release (ic_unicode c) (qi_name row)) s)"
    "iv_external_ids t = iv_external_ids (replace_facts (torrent_source_id (ic_codec c) q) ''qbittorrent''
       (parse_release (ic_unicode c) (qi_name row)) s)"
    by (rule project_torrent_facts [OF assms(1)])
  have "q' \<noteq> q" using assms(2) by blast
  then show ?thesis
    unfolding described_def facts_frame [OF row(2,3)] facts_of_others [OF assms(2)]
    by (simp add: project_torrent_find(2) [OF assms(1)])
qed

lemma described_removed:
  "described c q (update_torrents (\<lambda>row. qi_qbit_id row = q') (mark_unavailable now) s) = described c q s"
proof -
  let ?t = "update_torrents (\<lambda>row. qi_qbit_id row = q') (mark_unavailable now) s"
  have f: "facts_are source release ?t = facts_are source release s" for source release
    by (rule facts_frame) (simp_all add: update_torrents_def)
  have "find_torrent q ?t = map_option (\<lambda>row. if qi_qbit_id row = q' then mark_unavailable now row else row) (find_torrent q s)"
    by (rule find_torrent_update) simp
  then show ?thesis unfolding described_def f
    by (cases "find_torrent q s") (auto simp: mark_unavailable_def)
qed

lemma described_later:
  "project_changes c generation detect now changes b s = Inr (b', t) \<Longrightarrow>
   torrent_source_id (ic_codec c) q \<notin> (\<lambda>x. torrent_source_id (ic_codec c) (fst x)) ` set (upserts changes) \<Longrightarrow>
   described c q s \<Longrightarrow> described c q t"
proof (induction c generation detect now changes b s rule: project_changes.induct)
  case (2 c generation detect now q' dl' changes b s)
  then obtain outcome s' where p: "project_torrent c q' dl' generation detect now s = Inr (outcome, s')"
    and rest: "project_changes c generation detect now changes ((batch_add outcome b)\<lparr>pb_changed := pb_changed b + 1\<rparr>) s' = Inr (b', t)"
    by (auto split: prod.splits)
  have "torrent_source_id (ic_codec c) q \<noteq> torrent_source_id (ic_codec c) q'" using 2(3) by auto
  from described_other [OF p this] show ?case using 2(1) [OF rest] 2(3,4) by auto
qed (auto simp: described_removed)

lemma described_all:
  "project_changes c generation detect now changes b s = Inr (b', t) \<Longrightarrow>
   distinct (map (\<lambda>x. torrent_source_id (ic_codec c) (fst x)) (upserts changes)) \<Longrightarrow>
   q \<in> fst ` set (upserts changes) \<Longrightarrow> described c q t"
proof (induction c generation detect now changes b s rule: project_changes.induct)
  case (2 c generation detect now q' dl' changes b s)
  then obtain outcome s' where p: "project_torrent c q' dl' generation detect now s = Inr (outcome, s')"
    and rest: "project_changes c generation detect now changes ((batch_add outcome b)\<lparr>pb_changed := pb_changed b + 1\<rparr>) s' = Inr (b', t)"
    by (auto split: prod.splits)
  show ?case
  proof (cases "q \<in> fst ` set (upserts changes)")
    case True
    then show ?thesis using 2(1) [OF rest] 2(3) by auto
  next
    case False
    then have "q = q'" using 2(4) by auto
    then show ?thesis using described_later [OF rest] described_project [OF p] 2(3) by auto
  qed
qed auto

text \<open>Projecting a described torrent again leaves the rows of both tables as they are.\<close>

lemma facts_again:
  assumes p: "project_torrent c q dl generation detect now s = Inr (outcome, t)"
    and d: "described c q s" and st: "settled c generation q dl s"
  shows "mset (iv_titles t) = mset (iv_titles s)" "mset (iv_external_ids t) = mset (iv_external_ids s)"
proof -
  obtain row where row: "find_torrent q t = Some row"
    "iv_titles t = iv_titles (replace_facts (torrent_source_id (ic_codec c) q) ''qbittorrent'' (parse_release (ic_unicode c) (qi_name row)) s)"
    "iv_external_ids t = iv_external_ids (replace_facts (torrent_source_id (ic_codec c) q) ''qbittorrent''
       (parse_release (ic_unicode c) (qi_name row)) s)"
    by (rule project_torrent_facts [OF p])
  obtain old where old: "find_torrent q s = Some old" "absorbed c generation dl old"
    "facts_are (torrent_source_id (ic_codec c) q) (parse_release (ic_unicode c) (qi_name old)) s"
    using d st by (auto simp: described_def settled_def)
  obtain m s1 where m: "merge_torrent c q dl generation detect now (find_torrent q s) = Inr m"
    and s1: "upsert_torrent (ic_codec c) (mg_row m) s = Inr s1" "iv_torrents t = iv_torrents s1"
    by (rule project_torrent_Inr [OF p])
  have "mg_row m = stamp (ic_codec c) now old"
    using m old(1,2) find_torrent_Some(2) [OF old(1)] by (auto simp: absorbed_def)
  then have "qi_name row = qi_name old"
    using row(1) find_torrent_upsert [OF s1(1), of q] merge_torrent_row(1) [OF m] old(1)
    by (simp add: find_torrent_def s1(2)) (auto simp: keep_manifest_def stamp_def)
  then show "mset (iv_titles t) = mset (iv_titles s)" "mset (iv_external_ids t) = mset (iv_external_ids s)"
    unfolding row(2,3) using facts_unchanged [OF old(3)] by simp_all
qed

text \<open>Changes that are settled only renew time stamps and the availability.\<close>

lemma project_changes_again:
  assumes "torrents_ok s" and "\<And>q dl. (q, dl) \<in> set (upserts changes) \<Longrightarrow> settled c generation q dl s \<and> described c q s"
    and "inj_on (torrent_source_id (ic_codec c)) (fst ` set (upserts changes))"
  shows "\<exists>b' t. project_changes c generation detect now changes b s = Inr (b', t) \<and> pb_completions b' = pb_completions b \<and>
    pb_manifests_needed b' = pb_manifests_needed b \<and> iv_tasks t = iv_tasks s \<and> iv_files t = iv_files s \<and>
    iv_state t = iv_state s \<and> map core (iv_torrents t) = map core (iv_torrents s) \<and>
    mset (iv_titles t) = mset (iv_titles s) \<and> mset (iv_external_ids t) = mset (iv_external_ids s)"
  using assms
proof (induction changes arbitrary: b s)
  case (Cons change changes)
  show ?case
  proof (cases change)
    case (Upsert q dl)
    have here: "settled c generation q dl s" "described c q s" using Cons.prems(2) [of q dl] Upsert by simp_all
    from project_torrent_again [OF Cons.prems(1) here(1), of detect now] obtain t1 where
      t1: "project_torrent c q dl generation detect now s =
        Inr (\<lparr>to_source_id = torrent_source_id (ic_codec c) q, to_completion = None, to_manifest_needed = False\<rparr>, t1)"
        "iv_torrents t1 = iv_torrents (update_torrents (\<lambda>r. qi_qbit_id r = q) (touched now) s)"
        "iv_tasks t1 = iv_tasks s" "iv_files t1 = iv_files s" "iv_state t1 = iv_state s" by blast
    note facts = facts_again [OF t1(1) here(2,1)]
    have "torrents_ok t1" unfolding torrents_frame(1) [OF t1(2)] by (rule torrents_ok_update [OF Cons.prems(1)]) simp_all
    moreover have "settled c generation q' dl' t1 \<and> described c q' t1" if q': "(q', dl') \<in> set (upserts changes)" for q' dl'
    proof
      show "settled c generation q' dl' t1"
        unfolding torrents_frame(2) [OF t1(2)] using Cons.prems(2) q' Upsert by (auto intro: settled_touched)
      show "described c q' t1"
      proof (cases "q' = q")
        case False
        moreover have "q' \<in> fst ` set (upserts (change # changes))" "q \<in> fst ` set (upserts (change # changes))"
          using q' Upsert by force+
        ultimately have "torrent_source_id (ic_codec c) q' \<noteq> torrent_source_id (ic_codec c) q"
          using Cons.prems(3) by (auto dest: inj_onD)
        then show ?thesis using described_other [OF t1(1)] Cons.prems(2) q' Upsert by auto
      qed (use described_project [OF t1(1)] in simp)
    qed
    moreover have "inj_on (torrent_source_id (ic_codec c)) (fst ` set (upserts changes))"
      using Cons.prems(3) Upsert by (auto simp: inj_on_def)
    ultimately obtain b' t where "project_changes c generation detect now changes
          ((batch_add \<lparr>to_source_id = torrent_source_id (ic_codec c) q, to_completion = None, to_manifest_needed = False\<rparr> b)
            \<lparr>pb_changed := pb_changed b + 1\<rparr>) t1 = Inr (b', t)"
        "pb_completions b' = pb_completions b" "pb_manifests_needed b' = pb_manifests_needed b"
        "iv_tasks t = iv_tasks t1" "iv_files t = iv_files t1" "iv_state t = iv_state t1"
        "map core (iv_torrents t) = map core (iv_torrents t1)"
        "mset (iv_titles t) = mset (iv_titles t1)" "mset (iv_external_ids t) = mset (iv_external_ids t1)"
      using Cons.IH [of t1 "(batch_add \<lparr>to_source_id = torrent_source_id (ic_codec c) q, to_completion = None,
        to_manifest_needed = False\<rparr> b)\<lparr>pb_changed := pb_changed b + 1\<rparr>"] by (auto simp: batch_add_def)
    then show ?thesis using t1 facts by (simp add: Upsert and_then_def core_update)
  next
    case (Removed q)
    let ?s = "update_torrents (\<lambda>row. qi_qbit_id row = q) (mark_unavailable now) s"
    have "torrents_ok ?s" by (rule torrents_ok_update [OF Cons.prems(1)]) simp_all
    moreover have "settled c generation q' dl' ?s \<and> described c q' ?s" if "(q', dl') \<in> set (upserts changes)" for q' dl'
      using Cons.prems(2) that Removed by (auto simp: described_removed intro: settled_removed)
    moreover have "iv_titles ?s = iv_titles s" "iv_external_ids ?s = iv_external_ids s" by (simp_all add: update_torrents_def)
    ultimately show ?thesis using Cons.IH [of ?s "b\<lparr>pb_changed := pb_changed b + 1\<rparr>"] Cons.prems(3)
      by (simp add: Removed core_update)
  qed
qed simp


section \<open>Properties of a batch\<close>

text \<open>
  C15: When a batch of changes is projected, the completions that it reports are
  exactly the rows that it appends to the table of completions, each of them belongs
  to a changed torrent and has its task and the start of its orchestration in the
  outbox; before the baseline no task is touched at all; the tasks only take steps
  of the task machine that respect terminal tasks; and no completion is missed: a
  known torrent that was incomplete before and is complete afterwards has a row.
\<close>

theorem batch_completions_exact:
  assumes "project_qbit_batch c changes generation detect now s = Inr (b, t)"
  shows "st_completions (iv_tasks t) = st_completions (iv_tasks s) @ map completion_row_of (pb_completions b) \<and>
    (\<forall>x \<in> set (pb_completions b). announced (ic_codec c) (iv_tasks t) x \<and>
      (\<exists>q dl. Upsert q dl \<in> set changes \<and> cx_source_id x = torrent_source_id (ic_codec c) q)) \<and>
    (\<not> detect \<longrightarrow> iv_tasks t = iv_tasks s) \<and> (guarded_step (ic_codec c))\<^sup>*\<^sup>* (iv_tasks s) (iv_tasks t) \<and>
    (\<forall>q row row'. detect \<and> find_torrent q s = Some row \<and> \<not> qt_is_complete row \<and> find_torrent q t = Some row' \<and>
      qt_is_complete row' \<longrightarrow> (\<exists>cm \<in> set (st_completions (iv_tasks t)). cm_source_id cm = torrent_source_id (ic_codec c) q))"
proof -
  obtain g where "project_changes c g detect now changes empty_batch s = Inr (b, t)"
    using assms by (auto simp: project_qbit_batch_def)
  from project_changes_effect [OF this] have e: "effect_ok c detect changes (pb_completions b) s t"
    by (simp add: empty_batch_def)
  note parts = e [unfolded effect_ok_def]
  from parts have "(guarded_step (ic_codec c))\<^sup>*\<^sup>* (iv_tasks s) (iv_tasks t)" using completion_steps_guarded by blast
  moreover have "\<exists>cm \<in> set (st_completions (iv_tasks t)). cm_source_id cm = torrent_source_id (ic_codec c) q"
    if "detect \<and> find_torrent q s = Some row \<and> \<not> qt_is_complete row \<and> find_torrent q t = Some row' \<and> qt_is_complete row'"
    for q row row' using parts that by (metis option.inject)
  ultimately show ?thesis using parts by blast
qed

definition sample_inventory_codec :: inventory_codec where
  "sample_inventory_codec = \<lparr>ic_codec = sample_codec, ic_unicode = ascii_unicode, ic_release = (\<lambda>_. ''{}''), ic_tags = concat\<rparr>"

definition sample_columns :: release_columns where
  "sample_columns = \<lparr>rc_normalized_title = ''a'', rc_video_kind = ''movie'', rc_release_year = None, rc_season = None,
     rc_episode = None, rc_episode_end = None, rc_absolute_episode = None, rc_air_date = None\<rparr>"

definition sample_torrent_row :: inventory_row where
  "sample_torrent_row = \<lparr> qt_id = ''qbit:aa'', qt_v1_hash = Some ''h'', qt_v2_hash = None, qt_category = ''video'',
     qt_tags_json = ''[]'', qt_is_complete = False, qt_available = True, qt_manifest_version = 0, qt_manifest_state = ''unloaded'',
     qt_release_json = Some ''{}'', qi_qbit_id = ''aa'', qi_name = ''a'', qi_total_size = 4, qi_amount_left = 4,
     qi_progress_ppm = 0, qi_state = ''stoppedDL'', qi_save_path = ''/data'', qi_content_path = ''/data/a'',
     qi_fingerprint = None, qi_manifest_loaded_at = None, qi_added_at = None, qi_completed_at = None,
     qi_columns = sample_columns, qi_last_seen_generation = 1, qi_updated_at = 10 \<rparr>"

definition sample_inventory :: inventory_store where
  "sample_inventory = \<lparr> iv_state = \<lparr>is_response_id = Some 7, is_generation = 1, is_baseline_at = Some 10, is_last_success_at = Some 10,
       is_last_full_reconcile_at = Some 10, is_reconcile_requested_at = None, is_application_version = None, is_web_api_version = None\<rparr>,
     iv_torrents = [sample_torrent_row], iv_files = [], iv_titles = [], iv_external_ids = [], iv_tasks = empty_store \<rparr>"

definition empty_delta :: inventory_delta where
  "empty_delta = \<lparr> dl_infohash_v1 = None, dl_infohash_v2 = None, dl_name = None, dl_total_size = None, dl_amount_left = None,
     dl_progress = None, dl_state = None, dl_save_path = None, dl_content_path = None, dl_category = None, dl_tags = None,
     dl_added_on = None, dl_completion_on = None \<rparr>"

definition sample_completion :: inventory_change where
  "sample_completion = Upsert ''aa'' (empty_delta\<lparr>dl_amount_left := Some 0, dl_progress := Some (Some 1000000),
     dl_state := Some ''uploading'', dl_completion_on := Some 12\<rparr>)"

lemma sample_accept_completion:
  "\<exists>accepted tasks. accept_completion sample_codec source at now empty_store = Inr (accepted, tasks) \<and>
     \<not> accepted_completion.ac_duplicate accepted"
  by (simp add: accept_completion_def insert_policy_def start_once_def insert_completion_def insert_outbox_def Let_def and_then_def
      sample_codec_def empty_store_def insert_operation_def insert_task_def queued_event_def add_event_def set_task_def)

lemma sample_merge:
  "\<exists>m. merge_torrent sample_inventory_codec ''aa'' (empty_delta\<lparr>dl_amount_left := Some 0, dl_progress := Some (Some 1000000),
       dl_state := Some ''uploading'', dl_completion_on := Some 12\<rparr>) 1 True 20 (Some sample_torrent_row) = Inr m \<and>
     mg_became_complete m \<and> qi_completed_at (mg_row m) = Some 12 \<and> qi_qbit_id (mg_row m) = ''aa''"
  by (simp add: merge_torrent_def merge_values_def merged_def merged_completed_at_def text_value_def integer_value_def
      or_stored_def or_stored_option_def optional_hash_def ok_or_def progress_ppm_def to_i64_def complete_state_def
      empty_delta_def sample_torrent_row_def Let_def and_then_def)

lemma sample_projection:
  "\<exists>b t. project_qbit_batch sample_inventory_codec [sample_completion] 1 True 20 sample_inventory = Inr (b, t) \<and>
     length (pb_completions b) = 1"
proof -
  obtain m where m: "merge_torrent sample_inventory_codec ''aa'' (empty_delta\<lparr>dl_amount_left := Some 0,
       dl_progress := Some (Some 1000000), dl_state := Some ''uploading'', dl_completion_on := Some 12\<rparr>) 1 True 20
       (Some sample_torrent_row) = Inr m"
    and c: "mg_became_complete m" "qi_completed_at (mg_row m) = Some 12" "qi_qbit_id (mg_row m) = ''aa''" using sample_merge by blast
  have f: "find_torrent ''aa'' sample_inventory = Some sample_torrent_row"
    by (simp add: find_torrent_def sample_inventory_def sample_torrent_row_def)
  have "\<exists>s1. upsert_torrent sample_codec (mg_row m) sample_inventory = Inr s1"
    by (simp add: upsert_torrent_def c(3) f sample_codec_def)
      (simp add: sample_inventory_def sample_torrent_row_def hash_taken_def c(3) split: option.split)
  then obtain s1 where s1: "upsert_torrent sample_codec (mg_row m) sample_inventory = Inr s1" by blast
  have tasks: "iv_tasks s1 = empty_store" using upsert_torrent_frame(3) [OF s1] by (simp add: sample_inventory_def)
  obtain accepted tasks' where a: "accept_completion sample_codec (torrent_source_id sample_codec ''aa'') 12 20 empty_store = Inr (accepted, tasks')"
    "\<not> accepted_completion.ac_duplicate accepted" using sample_accept_completion by blast
  have "\<exists>outcome t. project_torrent sample_inventory_codec ''aa'' (empty_delta\<lparr>dl_amount_left := Some 0,
       dl_progress := Some (Some 1000000), dl_state := Some ''uploading'', dl_completion_on := Some 12\<rparr>) 1 True 20 sample_inventory
     = Inr (outcome, t) \<and> to_completion outcome \<noteq> None"
    using m s1 c(1,2) a unfolding project_torrent_def
    by (simp add: f and_then_def Let_def sample_inventory_codec_def accept_completed_def tasks)
  then show ?thesis
    by (auto simp: project_qbit_batch_def to_i64_def and_then_def sample_completion_def batch_add_def empty_batch_def)
qed

theorem batch_completions_exact_witness:
  "\<exists>b t x. project_qbit_batch sample_inventory_codec [sample_completion] 1 True 20 sample_inventory = Inr (b, t) \<and>
     pb_completions b = [x] \<and> announced sample_codec (iv_tasks t) x \<and> st_completions (iv_tasks t) = [completion_row_of x]"
proof -
  obtain b t where p: "project_qbit_batch sample_inventory_codec [sample_completion] 1 True 20 sample_inventory = Inr (b, t)"
    "length (pb_completions b) = 1" using sample_projection by blast
  obtain x where x: "pb_completions b = [x]" using p(2) by (auto simp: length_Suc_conv)
  have "ic_codec sample_inventory_codec = sample_codec" "st_completions (iv_tasks sample_inventory) = []"
    by (simp_all add: sample_inventory_codec_def sample_inventory_def empty_store_def)
  then show ?thesis using batch_completions_exact [OF p(1)] p(1) x by auto
qed

text \<open>
  C33: A batch can be projected again, as it is when the service stops before the
  cursor was advanced: it succeeds, reports no completion and asks for no manifest,
  leaves tasks, files and cursor as they are, changes no column of a torrent but its
  time stamp, and the title and external id tables have the same rows (each source's
  rows are deleted and written again, so their order may change).  The batch
  mentions a torrent at most once, and the hashed source ids of its torrents differ.
\<close>

theorem batch_replay_is_quiet:
  assumes "torrents_ok s" and "distinct (map (\<lambda>x. torrent_source_id (ic_codec c) (fst x)) (upserts changes))"
    and "project_qbit_batch c changes generation detect now s = Inr (b, t)"
  shows "\<exists>b' t'. project_qbit_batch c changes generation detect' now' t = Inr (b', t') \<and> pb_completions b' = [] \<and>
    pb_manifests_needed b' = [] \<and> iv_tasks t' = iv_tasks t \<and> iv_files t' = iv_files t \<and> iv_state t' = iv_state t \<and>
    map core (iv_torrents t') = map core (iv_torrents t) \<and> (\<forall>q. available q t' = available q t) \<and>
    mset (iv_titles t') = mset (iv_titles t) \<and> mset (iv_external_ids t') = mset (iv_external_ids t)"
proof -
  obtain g where g: "to_i64 ''generation'' generation = Inr g" and p: "project_changes c g detect now changes empty_batch s = Inr (b, t)"
    using assms(3) by (auto simp: project_qbit_batch_def)
  have once: "distinct (map fst (upserts changes))" and inj: "inj_on (torrent_source_id (ic_codec c)) (fst ` set (upserts changes))"
    using assms(2) by (auto simp: distinct_map inj_on_def)
  have "settled c g q dl t \<and> described c q t" if "(q, dl) \<in> set (upserts changes)" for q dl
    using settled_all [OF p once that] described_all [OF p assms(2), of q] that by force
  from project_changes_again [OF torrents_ok_changes [OF p assms(1)] this inj] obtain b' t' where
    r: "project_changes c g detect' now' changes empty_batch t = Inr (b', t')"
    "pb_completions b' = pb_completions empty_batch" "pb_manifests_needed b' = pb_manifests_needed empty_batch"
    "iv_tasks t' = iv_tasks t" "iv_files t' = iv_files t" "iv_state t' = iv_state t" "map core (iv_torrents t') = map core (iv_torrents t)"
    "mset (iv_titles t') = mset (iv_titles t)" "mset (iv_external_ids t') = mset (iv_external_ids t)" by metis
  have "available q t' = available q t" for q
    using project_changes_available [OF p, of q] project_changes_available [OF r(1), of q] by (simp add: availability_again)
  then show ?thesis using r g by (simp add: project_qbit_batch_def and_then_def empty_batch_def)
qed

theorem batch_replay_is_quiet_witness:
  "\<exists>b t b' t'. project_qbit_batch sample_inventory_codec [sample_completion] 1 True 20 sample_inventory = Inr (b, t) \<and>
     project_qbit_batch sample_inventory_codec [sample_completion] 1 True 30 t = Inr (b', t') \<and> pb_completions b' = [] \<and>
     mset (iv_titles t') = mset (iv_titles t)"
proof -
  obtain b t where p: "project_qbit_batch sample_inventory_codec [sample_completion] 1 True 20 sample_inventory = Inr (b, t)"
    using sample_projection by blast
  have "torrents_ok sample_inventory"
    by (simp add: torrents_ok_def sample_inventory_def hash_taken_def)
  moreover have "distinct (map (\<lambda>x. torrent_source_id (ic_codec sample_inventory_codec) (fst x)) (upserts [sample_completion]))"
    by (simp add: sample_completion_def)
  ultimately show ?thesis using batch_replay_is_quiet [OF _ _ p, of True 30] p by blast
qed

end
