(* ===== verification/Qbit_Sync.thy ===== *)
theory Qbit_Sync
  imports Qbit_Projection
begin

text \<open>
  The synchronisation with qBittorrent, \<open>crates/sporos-service/src/qbit_sync.rs\<close>:
  the incremental updates, the full reconciliation page by page, and the loading of
  the file list of a torrent.

  The parser of a response runs beside the receiver and hands it the messages in
  order, so a run is the receiver on the messages that the parser emits, followed by
  the result of the parser.  The responses of qBittorrent are parameters; a request
  that fails is \<open>None\<close>, and every transaction can fail (\<open>sy_fault\<close>, which
  distinguishes the transactions of one run).  What was committed before a failure
  stays.  \<open>chunks\<close> with a batch size of 0 panics.
\<close>

section \<open>The synchronizer\<close>

definition MAX_FILES_PER_TORRENT :: nat where "MAX_FILES_PER_TORRENT = 100000"

datatype sync_error =
    SyQbittorrent | SyProjection qbit_error | SyParse inventory_parse_error | InitialUpdateNotFull | MetadataChanged
  | SyGenerationOverflow | OffsetOverflow | ZeroBatchSize | NonContiguousFileIndex nat nat | FileCountChanged | SyPanic

record sync_report =
  sr_changed :: nat
  sr_completions :: "completion_transition list"
  sr_manifests_needed :: "source_id list"
  sr_full_update :: bool

definition empty_report :: "bool \<Rightarrow> sync_report" where
  "empty_report full = \<lparr>sr_changed = 0, sr_completions = [], sr_manifests_needed = [], sr_full_update = full\<rparr>"

datatype sync_statement =
    RecordVersions | ReadState | ProjectBatch nat | FinishSync | FinishReconcile | StaleManifests | PrepareManifest
  | ProjectFiles nat | FinishManifest | FailManifest

record sync_env =
  sy_fault :: "sync_statement \<Rightarrow> bool"
  sy_codec :: inventory_codec
  sy_versions :: "(string \<times> string) option"
  sy_main_data :: "nat \<Rightarrow> (main_entry list \<times> body_end \<times> body_end) option"
  sy_inventory_page :: "nat \<Rightarrow> nat \<Rightarrow> (inventory_torrent list \<times> body_end) option"
  sy_torrent_files :: "string \<Rightarrow> (inventory_file list \<times> body_end) option"
  sy_inventory_batch_size :: nat
  sy_database_batch_size :: nat
  sy_now :: int

type_synonym 'a sync = "inventory_store \<Rightarrow> (sync_error, 'a) result \<times> inventory_store"

definition sync_then :: "'a sync \<Rightarrow> ('a \<Rightarrow> 'b sync) \<Rightarrow> 'b sync" where
  "sync_then m f s = (case m s of (Inl e, t) \<Rightarrow> (Inl e, t) | (Inr x, t) \<Rightarrow> f x t)"

definition sync_fail :: "sync_error \<Rightarrow> 'a sync" where
  "sync_fail e s = (Inl e, s)"

definition commit :: "sync_env \<Rightarrow> sync_statement \<Rightarrow> (inventory_store \<Rightarrow> (qbit_error, 'a \<times> inventory_store) result) \<Rightarrow> 'a sync" where
  "commit env statement f s =
     (if sy_fault env statement then (Inl (SyProjection QpDatabase), s)
      else case f s of Inl e \<Rightarrow> (Inl (SyProjection e), s) | Inr (x, t) \<Rightarrow> (Inr x, t))"

definition unit_of :: "(qbit_error, inventory_store) result \<Rightarrow> (qbit_error, unit \<times> inventory_store) result" where
  "unit_of r = and_then r (\<lambda>s. Inr ((), s))"

definition read_state :: "sync_env \<Rightarrow> inventory_state sync" where
  "read_state env = commit env ReadState (\<lambda>s. and_then (qbit_inventory_state s) (\<lambda>x. Inr (x, s)))"

definition negotiate :: "sync_env \<Rightarrow> (string \<times> string) sync" where
  "negotiate env =
     (case sy_versions env of
        None \<Rightarrow> sync_fail SyQbittorrent
      | Some versions \<Rightarrow> sync_then
          (commit env RecordVersions (\<lambda>s. Inr ((), record_qbit_versions (fst versions) (snd versions) s)))
          (\<lambda>_ s. (Inr versions, s)))"

definition reconcile_requested :: "sync_env \<Rightarrow> bool sync" where
  "reconcile_requested env = sync_then (read_state env) (\<lambda>state s. (Inr (nv_reconcile_requested_at state \<noteq> None), s))"

section \<open>Incremental updates\<close>

definition add_projected :: "projection_batch \<Rightarrow> sync_report \<Rightarrow> sync_report" where
  "add_projected projected report =
     report\<lparr> sr_changed := sr_changed report + pb_changed projected,
             sr_completions := sr_completions report @ pb_completions projected,
             sr_manifests_needed := sr_manifests_needed report @ pb_manifests_needed projected \<rparr>"

definition project_batch ::
  "sync_env \<Rightarrow> nat \<Rightarrow> sync_report \<Rightarrow> inventory_change list \<Rightarrow> nat \<Rightarrow> bool \<Rightarrow> sync_report sync" where
  "project_batch env number report batch generation detect_completions =
     sync_then (commit env (ProjectBatch number)
         (project_qbit_batch (sy_codec env) batch generation detect_completions (sy_now env)))
       (\<lambda>projected s. (Inr (add_projected projected report), s))"

record receiver =
  rv_header :: "main_data option"
  rv_generation :: "nat option"
  rv_report :: sync_report
  rv_batch :: "inventory_change list"
  rv_number :: nat

definition receive_header :: "bool \<Rightarrow> nat \<Rightarrow> main_data \<Rightarrow> receiver \<Rightarrow> receiver sync" where
  "receive_header has_baseline current_generation value st s =
     (if rv_header st \<noteq> None then (Inl MetadataChanged, s)
      else if \<not> has_baseline \<and> \<not> mn_full_update value then (Inl InitialUpdateNotFull, s)
      else case (if mn_full_update value then checked_add u64_max current_generation 1 else Some current_generation) of
             None \<Rightarrow> (Inl SyGenerationOverflow, s)
           | Some generation \<Rightarrow> (Inr (st\<lparr>rv_generation := Some generation, rv_header := Some value,
               rv_report := (rv_report st)\<lparr>sr_full_update := mn_full_update value\<rparr>\<rparr>), s))"

definition receive_change :: "sync_env \<Rightarrow> bool \<Rightarrow> inventory_change \<Rightarrow> receiver \<Rightarrow> receiver sync" where
  "receive_change env has_baseline change st =
     (case rv_generation st of
        None \<Rightarrow> sync_fail MetadataChanged
      | Some generation \<Rightarrow>
          let batch = rv_batch st @ [change]
          in if length batch = sy_database_batch_size env
             then sync_then (project_batch env (rv_number st) (rv_report st) batch generation has_baseline)
               (\<lambda>report s. (Inr (st\<lparr>rv_report := report, rv_batch := [], rv_number := rv_number st + 1\<rparr>), s))
             else (\<lambda>s. (Inr (st\<lparr>rv_batch := batch\<rparr>), s)))"

fun receive :: "sync_env \<Rightarrow> bool \<Rightarrow> nat \<Rightarrow> main_data_message list \<Rightarrow> receiver \<Rightarrow> receiver sync" where
  "receive env has_baseline current_generation [] st s = (Inr st, s)"
| "receive env has_baseline current_generation (Header value # messages) st s =
     sync_then (receive_header has_baseline current_generation value st)
       (receive env has_baseline current_generation messages) s"
| "receive env has_baseline current_generation (Change change # messages) st s =
     sync_then (receive_change env has_baseline change st) (receive env has_baseline current_generation messages) s"

definition initial_receiver :: receiver where
  "initial_receiver = \<lparr>rv_header = None, rv_generation = None, rv_report = empty_report False, rv_batch = [], rv_number = 0\<rparr>"

definition finish_receiving ::
  "sync_env \<Rightarrow> bool \<Rightarrow> (inventory_parse_error, main_data) result \<Rightarrow> receiver \<Rightarrow> sync_report sync" where
  "finish_receiving env has_baseline parsed st =
     (case (rv_header st, rv_generation st) of
        (Some header, Some generation) \<Rightarrow>
          sync_then (if rv_batch st \<noteq> []
              then project_batch env (rv_number st) (rv_report st) (rv_batch st) generation has_baseline
              else (\<lambda>s. (Inr (rv_report st), s))) (\<lambda>report.
          case parsed of
            Inl e \<Rightarrow> sync_fail (SyParse e)
          | Inr result \<Rightarrow>
              if mn_response_id result \<noteq> mn_response_id header \<or> mn_full_update result \<noteq> mn_full_update header
              then sync_fail MetadataChanged
              else sync_then (commit env FinishSync (\<lambda>s. unit_of (finish_qbit_sync (mn_response_id result)
                  (if mn_full_update result then Some generation else None) (sy_now env) s)))
                (\<lambda>_ s. (Inr report, s)))
      | _ \<Rightarrow> sync_fail MetadataChanged)"

definition apply_main_data_reader ::
  "sync_env \<Rightarrow> main_entry list \<times> body_end \<times> body_end \<Rightarrow> bool \<Rightarrow> nat \<Rightarrow> sync_report sync" where
  "apply_main_data_reader env body has_baseline current_generation =
     (if sy_database_batch_size env = 0 then sync_fail ZeroBatchSize
      else case parse_main_data_with_header body of
        (messages, parsed) \<Rightarrow>
          sync_then (receive env has_baseline current_generation messages initial_receiver)
            (finish_receiving env has_baseline parsed))"

definition sync_once :: "sync_env \<Rightarrow> sync_report sync" where
  "sync_once env =
     sync_then (read_state env) (\<lambda>state.
       case sy_main_data env (case nv_response_id state of None \<Rightarrow> 0 | Some rid \<Rightarrow> rid) of
         None \<Rightarrow> sync_fail SyQbittorrent
       | Some body \<Rightarrow> apply_main_data_reader env body (nv_has_baseline state) (nv_generation state))"

section \<open>Reconciliation\<close>

function chunks :: "nat \<Rightarrow> 'a list \<Rightarrow> 'a list list" where
  "chunks n xs = (if n = 0 \<or> xs = [] then [] else take n xs # chunks n (drop n xs))"
  by pat_completeness auto
termination
  by (relation "measure (\<lambda>(n, xs). length xs)") auto

declare chunks.simps [simp del]

fun project_chunks ::
  "sync_env \<Rightarrow> nat \<Rightarrow> bool \<Rightarrow> nat \<Rightarrow> inventory_change list list \<Rightarrow> sync_report \<Rightarrow> sync_report sync" where
  "project_chunks env generation detect_completions number [] report s = (Inr report, s)"
| "project_chunks env generation detect_completions number (batch # batches) report s =
     sync_then (project_batch env number report batch generation detect_completions)
       (project_chunks env generation detect_completions (number + 1) batches) s"

fun reconcile_pages ::
  "nat \<Rightarrow> sync_env \<Rightarrow> nat \<Rightarrow> bool \<Rightarrow> nat \<Rightarrow> nat \<Rightarrow> sync_report \<Rightarrow> inventory_store \<Rightarrow>
   ((sync_error, sync_report) result \<times> inventory_store) option" where
  "reconcile_pages 0 env generation detect_completions number offset report s = None"
| "reconcile_pages (Suc fuel) env generation detect_completions number offset report s =
     (case sy_inventory_page env offset (sy_inventory_batch_size env) of
        None \<Rightarrow> Some (Inl SyQbittorrent, s)
      | Some body \<Rightarrow>
          (case parse_inventory body of
             (page, Inl e) \<Rightarrow> Some (Inl (SyParse e), s)
           | (page, Inr seen) \<Rightarrow>
               if sy_database_batch_size env = 0 then Some (Inl SyPanic, s)
               else let batches = chunks (sy_database_batch_size env) (map change_of_torrent page)
                 in case project_chunks env generation detect_completions number batches report s of
                   (Inl e, t) \<Rightarrow> Some (Inl e, t)
                 | (Inr report', t) \<Rightarrow>
                     if seen < sy_inventory_batch_size env then Some (Inr report', t)
                     else (case checked_add u64_max offset seen of
                             None \<Rightarrow> Some (Inl OffsetOverflow, t)
                           | Some next \<Rightarrow> reconcile_pages fuel env generation detect_completions
                               (number + length batches) next report' t)))"

definition finish_pages :: "sync_env \<Rightarrow> nat \<Rightarrow> sync_report \<Rightarrow> sync_report sync" where
  "finish_pages env generation report =
     sync_then (commit env FinishReconcile (\<lambda>s. unit_of (finish_qbit_reconcile generation (sy_now env) s)))
       (\<lambda>_ s. (Inr report, s))"

definition reconcile_inventory ::
  "nat \<Rightarrow> sync_env \<Rightarrow> inventory_store \<Rightarrow> ((sync_error, sync_report) result \<times> inventory_store) option" where
  "reconcile_inventory fuel env s =
     (case read_state env s of
        (Inl e, t) \<Rightarrow> Some (Inl e, t)
      | (Inr state, t) \<Rightarrow>
          (case checked_add u64_max (nv_generation state) 1 of
             None \<Rightarrow> Some (Inl SyGenerationOverflow, t)
           | Some generation \<Rightarrow>
               map_option (\<lambda>(r, u). case r of Inl e \<Rightarrow> (Inl e, u) | Inr report \<Rightarrow> finish_pages env generation report u)
                 (reconcile_pages fuel env generation (nv_has_baseline state) 0 0 (empty_report True) t)))"

section \<open>File lists\<close>

definition project_files :: "sync_env \<Rightarrow> nat \<Rightarrow> manifest_target \<Rightarrow> inventory_file list \<Rightarrow> unit sync" where
  "project_files env number target files =
     commit env (ProjectFiles number) (\<lambda>s. unit_of (project_qbit_files target files s))"

fun receive_files ::
  "sync_env \<Rightarrow> manifest_target \<Rightarrow> nat \<Rightarrow> inventory_file list \<Rightarrow> nat \<Rightarrow> inventory_file list \<Rightarrow> (nat \<times> inventory_file list \<times> nat) sync" where
  "receive_files env target number batch seen [] s = (Inr (number, batch, seen), s)"
| "receive_files env target number batch seen (file # files) s =
     (if vf_index file \<noteq> seen then (Inl (NonContiguousFileIndex seen (vf_index file)), s)
      else let batch' = batch @ [file]
        in if length batch' = sy_database_batch_size env
           then sync_then (project_files env number target batch') (\<lambda>_. receive_files env target (number + 1) [] (seen + 1) files) s
           else receive_files env target number batch' (seen + 1) files s)"

definition load_manifest_inner :: "sync_env \<Rightarrow> source_id \<Rightarrow> nat sync" where
  "load_manifest_inner env source =
     sync_then (commit env PrepareManifest (prepare_qbit_manifest source)) (\<lambda>target.
       case sy_torrent_files env (mt_qbit_id target) of
         None \<Rightarrow> sync_fail SyQbittorrent
       | Some body \<Rightarrow>
           (case parse_files MAX_FILES_PER_TORRENT body of
              (files, parsed) \<Rightarrow>
                sync_then (receive_files env target 0 [] 0 files) (\<lambda>(number, batch, seen).
                sync_then (if batch \<noteq> [] then project_files env number target batch else (\<lambda>s. (Inr (), s))) (\<lambda>_.
                case parsed of
                  Inl e \<Rightarrow> sync_fail (SyParse e)
                | Inr n \<Rightarrow>
                    if n \<noteq> seen then sync_fail FileCountChanged
                    else sync_then (commit env FinishManifest (\<lambda>s. unit_of (finish_qbit_manifest target seen (sy_now env) s)))
                      (\<lambda>_ s. (Inr seen, s))))))"

definition load_manifest :: "sync_env \<Rightarrow> source_id \<Rightarrow> nat sync" where
  "load_manifest env source s =
     (case load_manifest_inner env source s of
        (Inr seen, t) \<Rightarrow> (Inr seen, t)
      | (Inl e, t) \<Rightarrow> sync_then (commit env FailManifest (\<lambda>s. Inr ((), fail_qbit_manifest source s))) (\<lambda>_ s. (Inl e, s)) t)"

fun load_manifests :: "sync_env \<Rightarrow> source_id list \<Rightarrow> unit sync" where
  "load_manifests env [] s = (Inr (), s)"
| "load_manifests env (source # sources) s = sync_then (load_manifest env source) (\<lambda>_. load_manifests env sources) s"

definition refresh_manifests :: "sync_env \<Rightarrow> nat \<Rightarrow> nat sync" where
  "refresh_manifests env limit =
     sync_then (commit env StaleManifests (\<lambda>s. and_then (stale_qbit_manifests limit s) (\<lambda>ids. Inr (ids, s)))) (\<lambda>sources.
     sync_then (load_manifests env sources) (\<lambda>_ s. (Inr (length sources), s)))"


section \<open>Projecting several batches\<close>

lemma sync_then_Inr:
  "sync_then m f s = (Inr y, u) \<longleftrightarrow> (\<exists>x t. m s = (Inr x, t) \<and> f x t = (Inr y, u))"
  by (cases "m s"; cases "fst (m s)") (auto simp: sync_then_def)

lemma sync_then_Inl:
  "sync_then m f s = (Inl e, u) \<longleftrightarrow> m s = (Inl e, u) \<or> (\<exists>x t. m s = (Inr x, t) \<and> f x t = (Inl e, u))"
  by (cases "m s"; cases "fst (m s)") (auto simp: sync_then_def)

lemma commit_Inr: "commit env statement f s = (Inr x, t) \<longleftrightarrow> \<not> sy_fault env statement \<and> f s = Inr (x, t)"
  by (auto simp: commit_def split: sum.splits prod.splits)

lemma commit_Inl: "commit env statement f s = (Inl e, t) \<Longrightarrow> t = s"
  by (auto simp: commit_def split: if_splits sum.splits prod.splits)

lemma unit_of_Inr: "unit_of r = Inr (x, t) \<longleftrightarrow> r = Inr t"
  by (auto simp: unit_of_def)

definition projects ::
  "inventory_codec \<Rightarrow> int \<Rightarrow> bool \<Rightarrow> int \<Rightarrow> inventory_change list \<Rightarrow> inventory_store \<Rightarrow> inventory_store \<Rightarrow> bool" where
  "projects c generation detect now changes s t \<longleftrightarrow>
     (\<exists>b b'. project_changes c generation detect now changes b s = Inr (b', t))"

lemma project_changes_any_batch:
  "project_changes c generation detect now changes b s = Inr (b', t) \<Longrightarrow>
   \<exists>b2'. project_changes c generation detect now changes b2 s = Inr (b2', t)"
proof (induction c generation detect now changes b s arbitrary: b2 rule: project_changes.induct)
  case (2 c generation detect now q dl changes b s)
  then obtain outcome s' where p: "project_torrent c q dl generation detect now s = Inr (outcome, s')"
    and rest: "project_changes c generation detect now changes ((batch_add outcome b)\<lparr>pb_changed := pb_changed b + 1\<rparr>) s' = Inr (b', t)"
    by (auto split: prod.splits)
  show ?case using 2(1) [OF rest] p by (auto simp: and_then_def)
qed auto

lemma project_changes_append:
  "project_changes c generation detect now (xs @ ys) b s =
   and_then (project_changes c generation detect now xs b s) (\<lambda>(b', t). project_changes c generation detect now ys b' t)"
proof (induction xs arbitrary: b s)
  case (Cons change xs)
  show ?case
  proof (cases change)
    case (Upsert q dl)
    show ?thesis
      by (cases "project_torrent c q dl generation detect now s") (auto simp: Upsert Cons.IH and_then_def split: prod.splits)
  qed (simp add: Cons.IH)
qed (simp add: and_then_def)

lemma projects_refl: "projects c generation detect now [] s s"
  by (simp add: projects_def)

lemma projects_trans:
  assumes "projects c generation detect now xs s t" and "projects c generation detect now ys t u"
  shows "projects c generation detect now (xs @ ys) s u"
proof -
  obtain b b' where x: "project_changes c generation detect now xs b s = Inr (b', t)" using assms(1) by (auto simp: projects_def)
  obtain b2 where "project_changes c generation detect now ys b' t = Inr (b2, u)"
    using assms(2) project_changes_any_batch by (metis projects_def)
  then have "project_changes c generation detect now (xs @ ys) b s = Inr (b2, u)"
    using x by (simp add: project_changes_append and_then_def)
  then show ?thesis unfolding projects_def by blast
qed

lemma projects_batch:
  assumes "project_qbit_batch c changes n detect now s = Inr (b, t)"
  shows "projects c (int n) detect now changes s t"
  using assms by (auto simp: project_qbit_batch_def to_i64_def projects_def split: if_splits)

lemma project_batch_Inr:
  assumes "project_batch env number report batch n detect s = (Inr report', t)"
  shows "projects (sy_codec env) (int n) detect (sy_now env) batch s t"
  using assms by (auto simp: project_batch_def sync_then_Inr commit_Inr intro: projects_batch)

lemma project_batch_Inl:
  assumes "project_batch env number report batch n detect s = (Inl e, t)"
  shows "t = s"
  using assms by (auto simp: project_batch_def sync_then_Inl dest: commit_Inl)

text \<open>What the projection of a list of changes does to a torrent.\<close>

lemma projects_available:
  "projects c generation detect now changes s t \<Longrightarrow> available q t = availability q changes (available q s)"
  unfolding projects_def by (blast dest: project_changes_available)

lemma projects_state: "projects c generation detect now changes s t \<Longrightarrow> iv_state t = iv_state s"
proof -
  have "project_changes c generation detect now changes b s = Inr (b', t) \<Longrightarrow> iv_state t = iv_state s" for b b'
  proof (induction c generation detect now changes b s rule: project_changes.induct)
    case (2 c generation detect now q dl changes b s)
    then obtain outcome s' where p: "project_torrent c q dl generation detect now s = Inr (outcome, s')"
      and rest: "project_changes c generation detect now changes ((batch_add outcome b)\<lparr>pb_changed := pb_changed b + 1\<rparr>) s' = Inr (b', t)"
      by (auto split: prod.splits)
    have "iv_state s' = iv_state s" by (rule project_torrent_Inr [OF p])
    then show ?case using 2(1) [OF rest] by simp
  qed auto
  then show "projects c generation detect now changes s t \<Longrightarrow> iv_state t = iv_state s" by (auto simp: projects_def)
qed

definition seen_in :: "int \<Rightarrow> string \<Rightarrow> inventory_store \<Rightarrow> bool" where
  "seen_in generation q s \<longleftrightarrow> (case find_torrent q s of None \<Rightarrow> False | Some row \<Rightarrow> qi_last_seen_generation row = generation)"

lemma projects_seen:
  assumes "projects c generation detect now changes s t"
  shows "seen_in g q t \<longleftrightarrow> (if q \<in> fst ` set (upserts changes) then g = generation else seen_in g q s)"
proof -
  have "project_changes c generation detect now changes b s = Inr (b', t) \<Longrightarrow>
      seen_in g q t \<longleftrightarrow> (if q \<in> fst ` set (upserts changes) then g = generation else seen_in g q s)" for b b'
  proof (induction c generation detect now changes b s rule: project_changes.induct)
    case (2 c generation detect now q' dl changes b s)
    then obtain outcome s' where p: "project_torrent c q' dl generation detect now s = Inr (outcome, s')"
      and rest: "project_changes c generation detect now changes ((batch_add outcome b)\<lparr>pb_changed := pb_changed b + 1\<rparr>) s' = Inr (b', t)"
      by (auto split: prod.splits)
    have "seen_in g q s' \<longleftrightarrow> (if q = q' then g = generation else seen_in g q s)"
      using project_torrent_find(1) [OF p] project_torrent_find(2) [OF p, of q] by (cases "q = q'") (auto simp: seen_in_def)
    then show ?case using 2(1) [OF rest] by auto
  next
    case (3 c generation detect now q' changes b s)
    have "seen_in g q (update_torrents (\<lambda>row. qi_qbit_id row = q') (mark_unavailable now) s) = seen_in g q s"
      by (cases "find_torrent q s") (simp_all add: seen_in_def find_torrent_update)
    then show ?case using 3 by simp
  qed simp
  then show ?thesis using assms unfolding projects_def by blast
qed

section \<open>The generation of a full update\<close>

lemma find_retire:
  "find_torrent q (retire_unseen g now s) = map_option (\<lambda>row. if qt_available row \<and> qi_last_seen_generation row \<noteq> g
     then mark_unavailable now row else row) (find_torrent q s)"
  unfolding retire_unseen_def by (rule find_torrent_update) simp

lemma retire_available: "available q (retire_unseen g now s) \<longleftrightarrow> available q s \<and> seen_in g q s"
  by (cases "find_torrent q s") (auto simp: available_def seen_in_def find_retire)

text \<open>No torrent was seen in a later generation than the last one that was completed.\<close>

definition generations_ok :: "inventory_store \<Rightarrow> bool" where
  "generations_ok s \<longleftrightarrow> (\<forall>g q. seen_in g q s \<longrightarrow> g \<le> is_generation (iv_state s))"

text \<open>
  An update that is interrupted breaks this: it has stamped rows with the next
  generation, which only its last statement would have stored.  The rows that it left
  carry the generation that the next full update writes as well.
\<close>

definition left_over :: "string \<Rightarrow> inventory_store \<Rightarrow> bool" where
  "left_over q s \<longleftrightarrow> available q s \<and> seen_in (is_generation (iv_state s) + 1) q s"

lemma no_left_over: "generations_ok s \<Longrightarrow> \<not> left_over q s"
  by (force simp: generations_ok_def left_over_def)

lemma availability_mentioned: "q \<in> fst ` set (upserts changes) \<Longrightarrow> availability q changes a = availability q changes b"
proof (induction q changes a arbitrary: b rule: availability.induct)
  case (2 q q' dl changes a)
  then show ?case by (cases "q' = q") auto
next
  case (3 q q' changes a)
  then show ?case by auto
qed simp

lemma availability_unmentioned: "q \<notin> fst ` set (upserts changes) \<Longrightarrow> \<not> availability q changes False"
proof -
  have "q \<notin> fst ` set (upserts changes) \<Longrightarrow> \<not> a \<Longrightarrow> \<not> availability q changes a" for a
    by (induction q changes a rule: availability.induct) auto
  then show "q \<notin> fst ` set (upserts changes) \<Longrightarrow> \<not> availability q changes False" by simp
qed

lemma availability_conj: "q \<notin> fst ` set (upserts changes) \<Longrightarrow> availability q changes (a \<and> b) \<longleftrightarrow> availability q changes a \<and> b"
proof (induction q changes a rule: availability.induct)
  case (3 q q' changes a)
  then show ?case by (cases "q' = q") (auto dest: availability_unmentioned)
qed auto

lemma full_update_available:
  assumes p: "projects c (is_generation (iv_state s) + 1) detect now changes s t"
  shows "available q (retire_unseen (is_generation (iv_state s) + 1) now' t) = availability q changes (left_over q s)"
proof (cases "q \<in> fst ` set (upserts changes)")
  case True
  then show ?thesis unfolding retire_available projects_available [OF p] projects_seen [OF p]
    using availability_mentioned by simp
next
  case False
  then show ?thesis unfolding retire_available projects_available [OF p] projects_seen [OF p] left_over_def
    by (simp add: availability_conj)
qed

lemma retire_seen: "seen_in g q (retire_unseen g' now s) = seen_in g q s"
  by (cases "find_torrent q s") (simp_all add: seen_in_def find_retire)

lemma projects_generations:
  assumes "projects c generation detect now changes s t" and "generations_ok s" and "is_generation (iv_state s) \<le> generation" "seen_in g q t"
  shows "g \<le> generation"
  using assms(2-4) unfolding projects_seen [OF assms(1)] generations_ok_def by (metis order_trans order_refl)


section \<open>Incremental and full updates\<close>

lemma receive_change_Inr:
  assumes "receive_change env baseline change st s = (Inr st', t)" and "rv_generation st = Some n"
  shows "\<exists>sent. rv_batch st @ [change] = sent @ rv_batch st' \<and> rv_header st' = rv_header st \<and> rv_generation st' = Some n \<and>
    projects (sy_codec env) (int n) baseline (sy_now env) sent s t"
proof (cases "length (rv_batch st @ [change]) = sy_database_batch_size env")
  case True
  then obtain report where "project_batch env (rv_number st) (rv_report st) (rv_batch st @ [change]) n baseline s = (Inr report, t)"
    "st' = st\<lparr>rv_report := report, rv_batch := [], rv_number := rv_number st + 1\<rparr>"
    using assms by (auto simp: receive_change_def Let_def sync_then_Inr)
  then show ?thesis using assms(2) project_batch_Inr by auto
next
  case False
  then show ?thesis using assms by (auto simp: receive_change_def Let_def projects_refl)
qed

lemma receive_change_Inl: "receive_change env baseline change st s = (Inl e, t) \<Longrightarrow> t = s"
  by (auto simp: receive_change_def Let_def sync_fail_def sync_then_Inl dest: project_batch_Inl split: option.splits if_splits)

lemma receive_changes:
  assumes "receive env baseline current (map Change changes) st s = (r, t)" and "rv_generation st = Some n"
  shows "\<exists>sent. projects (sy_codec env) (int n) baseline (sy_now env) sent s t \<and>
    (\<forall>st'. r = Inr st' \<longrightarrow> rv_batch st @ changes = sent @ rv_batch st' \<and> rv_header st' = rv_header st \<and> rv_generation st' = Some n)"
  using assms
proof (induction changes arbitrary: st s)
  case Nil
  then show ?case using projects_refl by fastforce
next
  case (Cons change changes)
  show ?case
  proof (cases "receive_change env baseline change st s")
    case (Pair r1 s1)
    show ?thesis
    proof (cases r1)
      case (Inl e)
      then have "s1 = s" "r = Inl e" "t = s1" using Pair Cons.prems(1) receive_change_Inl by (auto simp: sync_then_def)
      then show ?thesis using projects_refl by blast
    next
      case (Inr st1)
      obtain first where 1: "rv_batch st @ [change] = first @ rv_batch st1" "rv_header st1 = rv_header st" "rv_generation st1 = Some n"
        "projects (sy_codec env) (int n) baseline (sy_now env) first s s1"
        using receive_change_Inr [OF Pair [unfolded Inr] Cons.prems(2)] by blast
      have rest: "receive env baseline current (map Change changes) st1 s1 = (r, t)"
        using Cons.prems(1) Pair Inr by (simp add: sync_then_def)
      obtain sent where 2: "projects (sy_codec env) (int n) baseline (sy_now env) sent s1 t"
        "\<forall>st'. r = Inr st' \<longrightarrow> rv_batch st1 @ changes = sent @ rv_batch st' \<and> rv_header st' = rv_header st1 \<and> rv_generation st' = Some n"
        using Cons.IH [OF rest 1(3)] by blast
      have "rv_batch st @ change # changes = (first @ sent) @ rv_batch st'" if "r = Inr st'" for st'
      proof -
        have "rv_batch st @ change # changes = (rv_batch st @ [change]) @ changes" by simp
        also have "\<dots> = first @ rv_batch st1 @ changes" unfolding 1(1) by simp
        also have "rv_batch st1 @ changes = sent @ rv_batch st'" using 2(2) that by blast
        finally show ?thesis by simp
      qed
      then have "\<forall>st'. r = Inr st' \<longrightarrow> rv_batch st @ change # changes = (first @ sent) @ rv_batch st' \<and>
          rv_header st' = rv_header st \<and> rv_generation st' = Some n" using 1(2) 2(2) by metis
      then show ?thesis using projects_trans [OF 1(4) 2(1)] by blast
    qed
  qed
qed

lemma finish_sync_Inr:
  assumes "finish_qbit_sync rid full now s = Inr t"
  shows "is_response_id (iv_state t) = Some (int rid)"
    "full = None \<Longrightarrow> iv_torrents t = iv_torrents s \<and> is_generation (iv_state t) = is_generation (iv_state s)"
    "full = Some n \<Longrightarrow> iv_torrents t = iv_torrents (retire_unseen (int n) now s) \<and> is_generation (iv_state t) = int n"
  using assms by (auto simp: finish_qbit_sync_def to_i64_def Let_def split: option.splits if_splits)

lemma torrents_eq:
  assumes "iv_torrents t = iv_torrents s"
  shows "available q t = available q s" "seen_in g q t = seen_in g q s"
  using assms by (simp_all add: available_def seen_in_def find_torrent_def)

text \<open>The receiver always ends with the cursor where it was, unless the whole response was projected.\<close>

definition synced :: "sync_env \<Rightarrow> bool \<Rightarrow> nat \<Rightarrow> inventory_change list \<Rightarrow> main_data \<Rightarrow> inventory_store \<Rightarrow> inventory_store \<Rightarrow> bool" where
  "synced env baseline current changes result s t \<longleftrightarrow>
     (\<exists>n u. n = current + (if mn_full_update result then 1 else 0) \<and>
       projects (sy_codec env) (int n) baseline (sy_now env) changes s u \<and>
       finish_qbit_sync (mn_response_id result) (if mn_full_update result then Some n else None) (sy_now env) u = Inr t)"

lemma finish_receiving_cases:
  assumes "finish_receiving env baseline parsed st s = (r, t)" and "rv_generation st = Some n"
  shows "(\<exists>e. r = Inl e) \<and> iv_state t = iv_state s \<or>
    (\<exists>report header result u. r = Inr report \<and> parsed = Inr result \<and> rv_header st = Some header \<and>
      mn_full_update result = mn_full_update header \<and> projects (sy_codec env) (int n) baseline (sy_now env) (rv_batch st) s u \<and>
      finish_qbit_sync (mn_response_id result) (if mn_full_update result then Some n else None) (sy_now env) u = Inr t)"
proof (cases "rv_header st")
  case None
  then show ?thesis using assms by (auto simp: finish_receiving_def sync_fail_def)
next
  case (Some header)
  define first where "first = (if rv_batch st \<noteq> []
      then project_batch env (rv_number st) (rv_report st) (rv_batch st) n baseline else (\<lambda>s. (Inr (rv_report st), s)))"
  obtain r1 u where 1: "first s = (r1, u)" by (cases "first s")
  show ?thesis
  proof (cases r1)
    case (Inl e)
    then have "u = s" using 1 project_batch_Inl by (auto simp: first_def split: if_splits)
    then show ?thesis using assms 1 Inl by (auto simp: finish_receiving_def Some first_def [symmetric] sync_then_def)
  next
    case (Inr report)
    have p: "projects (sy_codec env) (int n) baseline (sy_now env) (rv_batch st) s u"
      using 1 Inr by (auto simp: first_def projects_refl intro: project_batch_Inr split: if_splits)
    define last where "last = (case parsed of Inl e \<Rightarrow> sync_fail (SyParse e)
      | Inr result \<Rightarrow> if mn_response_id result \<noteq> mn_response_id header \<or> mn_full_update result \<noteq> mn_full_update header
          then sync_fail MetadataChanged
          else sync_then (commit env FinishSync (\<lambda>s. unit_of (finish_qbit_sync (mn_response_id result)
              (if mn_full_update result then Some n else None) (sy_now env) s))) (\<lambda>_ s. (Inr report, s)))"
    have fin: "last u = (r, t)"
      using assms 1 by (simp add: finish_receiving_def Some first_def [symmetric] sync_then_def Inr last_def)
    show ?thesis
    proof (cases "(\<exists>e. r = Inl e)")
      case True
      have "t = u" using fin True unfolding last_def
        by (auto simp: sync_fail_def sync_then_Inl dest: commit_Inl split: sum.splits if_splits)
      then show ?thesis using True projects_state [OF p] by simp
    next
      case False
      then obtain rep where rep: "r = Inr rep" by (cases r) auto
      have "\<exists>result. parsed = Inr result \<and> mn_full_update result = mn_full_update header \<and>
          finish_qbit_sync (mn_response_id result) (if mn_full_update result then Some n else None) (sy_now env) u = Inr t"
        using fin rep unfolding last_def
        by (cases parsed) (simp_all add: sync_fail_def sync_then_Inr commit_Inr unit_of_Inr split: if_splits)
      then show ?thesis using rep p Some by blast
    qed
  qed
qed

lemma apply_main_data_cases:
  assumes "apply_main_data_reader env body baseline current s = (r, t)"
  shows "(\<exists>e. r = Inl e) \<and> iv_state t = iv_state s \<or>
    (\<exists>report header changes result. r = Inr report \<and> parse_main_data_with_header body = (Header header # map Change changes, Inr result) \<and>
      synced env baseline current changes result s t)"
proof (cases "sy_database_batch_size env = 0")
  case False
  obtain messages parsed where b: "parse_main_data_with_header body = (messages, parsed)"
    by (cases "parse_main_data_with_header body")
  have run: "sync_then (receive env baseline current messages initial_receiver) (finish_receiving env baseline parsed) s = (r, t)"
    using assms False by (simp add: apply_main_data_reader_def b)
  from parse_main_data_messages [OF b] show ?thesis
  proof
    assume "messages = []"
    then show ?thesis using run by (auto simp: sync_then_def initial_receiver_def finish_receiving_def sync_fail_def)
  next
    assume "\<exists>header changes. messages = Header header # map Change changes"
    then obtain header changes where m: "messages = Header header # map Change changes" by blast
    show ?thesis
    proof (cases "receive_header baseline current header initial_receiver s")
      case (Pair r0 s0)
      have s0: "s0 = s" using Pair by (auto simp: receive_header_def split: if_splits option.splits)
      show ?thesis
      proof (cases r0)
        case (Inl e)
        then show ?thesis using run Pair s0 by (auto simp: m sync_then_def)
      next
        case (Inr st)
        have n: "rv_generation st = Some (current + (if mn_full_update header then 1 else 0))" "rv_header st = Some header" "rv_batch st = []"
          using Pair Inr by (auto simp: receive_header_def initial_receiver_def checked_add_def split: if_splits option.splits)
        define n where "n = current + (if mn_full_update header then 1 else 0)"
        obtain r1 s1 where rec: "receive env baseline current (map Change changes) st s = (r1, s1)"
          by (cases "receive env baseline current (map Change changes) st s")
        obtain sent where sent: "projects (sy_codec env) (int n) baseline (sy_now env) sent s s1"
          "\<forall>st'. r1 = Inr st' \<longrightarrow> rv_batch st @ changes = sent @ rv_batch st' \<and> rv_header st' = rv_header st \<and> rv_generation st' = Some n"
          using receive_changes [OF rec n(1)] unfolding n_def by blast
        show ?thesis
        proof (cases r1)
          case (Inl e)
          then show ?thesis using run Pair rec s0 \<open>r0 = Inr st\<close> projects_state [OF sent(1)] by (auto simp: m sync_then_def)
        next
          case (Inr st')
          have fin: "finish_receiving env baseline parsed st' s1 = (r, t)"
            using run Pair rec s0 \<open>r0 = Inr st\<close> Inr by (simp add: m sync_then_def)
          have st': "changes = sent @ rv_batch st'" "rv_header st' = Some header" "rv_generation st' = Some n"
            using sent(2) Inr n by auto
          from finish_receiving_cases [OF fin st'(3)] show ?thesis
          proof
            assume "(\<exists>e. r = Inl e) \<and> iv_state t = iv_state s1"
            then show ?thesis using projects_state [OF sent(1)] by simp
          next
            assume "\<exists>report header' result u. r = Inr report \<and> parsed = Inr result \<and> rv_header st' = Some header' \<and>
              mn_full_update result = mn_full_update header' \<and> projects (sy_codec env) (int n) baseline (sy_now env) (rv_batch st') s1 u \<and>
              finish_qbit_sync (mn_response_id result) (if mn_full_update result then Some n else None) (sy_now env) u = Inr t"
            then obtain report result u where f: "r = Inr report" "parsed = Inr result" "mn_full_update result = mn_full_update header"
              "projects (sy_codec env) (int n) baseline (sy_now env) (rv_batch st') s1 u"
              "finish_qbit_sync (mn_response_id result) (if mn_full_update result then Some n else None) (sy_now env) u = Inr t"
              using st'(2) by auto
            have "projects (sy_codec env) (int n) baseline (sy_now env) changes s u"
              unfolding st'(1) by (rule projects_trans [OF sent(1) f(4)])
            then have "synced env baseline current changes result s t"
              unfolding synced_def using f(3,5) by (intro exI [of _ n] exI [of _ u]) (simp add: n_def)
            then show ?thesis using f(1,2) b m by blast
          qed
        qed
      qed
    qed
  qed
qed (use assms in \<open>auto simp: apply_main_data_reader_def sync_fail_def\<close>)


lemma synced_available:
  assumes "synced env baseline current changes result s t" and g: "int current = is_generation (iv_state s)"
  shows "is_response_id (iv_state t) = Some (int (mn_response_id result)) \<and>
    is_generation (iv_state t) = is_generation (iv_state s) + (if mn_full_update result then 1 else 0) \<and>
    (\<forall>q. available q t = availability q changes (if mn_full_update result then left_over q s else available q s)) \<and>
    (generations_ok s \<longrightarrow> generations_ok t)"
proof -
  obtain u where p: "projects (sy_codec env) (int (current + (if mn_full_update result then 1 else 0))) baseline (sy_now env) changes s u"
    and f: "finish_qbit_sync (mn_response_id result)
      (if mn_full_update result then Some (current + (if mn_full_update result then 1 else 0)) else None) (sy_now env) u = Inr t"
    using assms(1) by (auto simp: synced_def)
  have st: "iv_state u = iv_state s" by (rule projects_state [OF p])
  note fin = finish_sync_Inr [OF f]
  show ?thesis
  proof (cases "mn_full_update result")
    case True
    have p': "projects (sy_codec env) (is_generation (iv_state s) + 1) baseline (sy_now env) changes s u"
      using p True g by (simp add: algebra_simps)
    have t: "iv_torrents t = iv_torrents (retire_unseen (is_generation (iv_state s) + 1) (sy_now env) u)"
      "is_generation (iv_state t) = is_generation (iv_state s) + 1"
      using fin(3) [of "current + 1"] True g by (simp_all add: algebra_simps)
    have "generations_ok t" if "generations_ok s" unfolding generations_ok_def torrents_eq(2) [OF t(1)] retire_seen t(2)
      using projects_generations [OF p' that] by simp
    then show ?thesis using fin(1) True t full_update_available [OF p'] torrents_eq(1) [OF t(1)] by simp
  next
    case False
    have p': "projects (sy_codec env) (is_generation (iv_state s)) baseline (sy_now env) changes s u"
      using p False g by simp
    have t: "iv_torrents t = iv_torrents u" "is_generation (iv_state t) = is_generation (iv_state s)"
      using fin(2) False st by simp_all
    have "generations_ok t" if "generations_ok s" unfolding generations_ok_def torrents_eq(2) [OF t(1)] t(2)
      using projects_generations [OF p' that] by simp
    then show ?thesis using fin(1) False t projects_available [OF p'] torrents_eq(1) [OF t(1)] by simp
  qed
qed

lemma read_state_cases:
  assumes "read_state env s = (r, t)"
  shows "t = s" "r = Inr state \<Longrightarrow> int (nv_generation state) = is_generation (iv_state s) \<and>
    nv_response_id state = map_option nat (is_response_id (iv_state s)) \<and> nv_has_baseline state = (is_baseline_at (iv_state s) \<noteq> None)"
  using assms
  by (auto simp: read_state_def commit_def qbit_inventory_state_def Let_def required_u64_def Qbit_Projection.optional_u64_def
      split: if_splits sum.splits option.splits)

text \<open>
  C17: A synchronisation with qBittorrent moves the cursor last.  When it fails, at
  whatever point, the row with the response id and the generation is as before, so
  the same changes are asked for again.  When it succeeds, the whole response was
  projected: a torrent that the response mentions is available exactly when the
  response says so last, and one that it does not mention keeps its state in an
  incremental update.  In a full update it becomes unavailable, with one exception:
  a torrent that an interrupted full update had stamped with the same next
  generation (\<open>left_over\<close>) stays available.  There is none when no row carries a
  generation beyond the stored one, and a successful update keeps it so.
\<close>

theorem sync_once_exact:
  assumes "sync_once env s = (r, t)"
  shows "(\<forall>e. r = Inl e \<longrightarrow> iv_state t = iv_state s) \<and>
    (\<forall>report. r = Inr report \<longrightarrow> (\<exists>body header changes result.
      sy_main_data env (case is_response_id (iv_state s) of None \<Rightarrow> 0 | Some rid \<Rightarrow> nat rid) = Some body \<and>
      parse_main_data_with_header body = (Header header # map Change changes, Inr result) \<and>
      is_response_id (iv_state t) = Some (int (mn_response_id result)) \<and>
      is_generation (iv_state t) = is_generation (iv_state s) + (if mn_full_update result then 1 else 0) \<and>
      (\<forall>q. available q t = availability q changes (if mn_full_update result then left_over q s else available q s)) \<and>
      (generations_ok s \<longrightarrow> generations_ok t \<and> (\<forall>q. \<not> left_over q s))))"
proof -
  obtain r0 s0 where read: "read_state env s = (r0, s0)" by (cases "read_state env s")
  have s0: "s0 = s" by (rule read_state_cases(1) [OF read])
  show ?thesis
  proof (cases r0)
    case (Inl e)
    then show ?thesis using assms(1) read s0 by (auto simp: sync_once_def sync_then_def)
  next
    case (Inr state)
    define rid where "rid = (case is_response_id (iv_state s) of None \<Rightarrow> 0 | Some rid \<Rightarrow> nat rid)"
    have state: "int (nv_generation state) = is_generation (iv_state s)"
        "(case nv_response_id state of None \<Rightarrow> 0 | Some rid \<Rightarrow> rid) = rid"
      using read_state_cases(2) [OF read Inr] by (auto simp: rid_def split: option.splits)
    show ?thesis
    proof (cases "sy_main_data env rid")
      case None
      then show ?thesis using assms(1) read s0 Inr state(2) by (auto simp: sync_once_def sync_then_def sync_fail_def)
    next
      case (Some body)
      have run: "apply_main_data_reader env body (nv_has_baseline state) (nv_generation state) s = (r, t)"
        using assms(1) read s0 Inr state(2) Some by (simp add: sync_once_def sync_then_def)
      from apply_main_data_cases [OF run] show ?thesis
      proof
        assume "(\<exists>e. r = Inl e) \<and> iv_state t = iv_state s"
        then show ?thesis by auto
      next
        assume "\<exists>report header changes result. r = Inr report \<and>
          parse_main_data_with_header body = (Header header # map Change changes, Inr result) \<and>
          synced env (nv_has_baseline state) (nv_generation state) changes result s t"
        then obtain report header changes result where p: "r = Inr report"
            "parse_main_data_with_header body = (Header header # map Change changes, Inr result)"
          and y: "synced env (nv_has_baseline state) (nv_generation state) changes result s t" by blast
        show ?thesis using p Some synced_available [OF y state(1)] no_left_over unfolding rid_def by auto
      qed
    qed
  qed
qed

section \<open>Reconciliation\<close>

lemma chunks_concat: "0 < n \<Longrightarrow> concat (chunks n xs) = xs"
proof (induction n xs rule: chunks.induct)
  case (1 n xs)
  then show ?case by (subst chunks.simps) auto
qed

lemma project_chunks_cases:
  "project_chunks env n detect number batches report s = (r, t) \<Longrightarrow>
   \<exists>sent. projects (sy_codec env) (int n) detect (sy_now env) sent s t \<and> (\<forall>report'. r = Inr report' \<longrightarrow> sent = concat batches)"
proof (induction batches arbitrary: number report s)
  case Nil
  then show ?case using projects_refl by fastforce
next
  case (Cons batch batches)
  obtain r1 s1 where 1: "project_batch env number report batch n detect s = (r1, s1)"
    by (cases "project_batch env number report batch n detect s")
  show ?case
  proof (cases r1)
    case (Inl e)
    then have "s1 = s" "r = Inl e" "t = s1" using 1 Cons.prems project_batch_Inl by (auto simp: sync_then_def)
    then show ?thesis using projects_refl by blast
  next
    case (Inr report')
    have "project_chunks env n detect (number + 1) batches report' s1 = (r, t)"
      using Cons.prems 1 Inr by (simp add: sync_then_def)
    then obtain sent where "projects (sy_codec env) (int n) detect (sy_now env) sent s1 t" "\<forall>report'. r = Inr report' \<longrightarrow> sent = concat batches"
      using Cons.IH by blast
    then show ?thesis using projects_trans [OF project_batch_Inr [OF 1 [unfolded Inr]]] by fastforce
  qed
qed

lemma parse_inventory_Inr:
  assumes "parse_inventory body = (page, Inr n)"
  shows "page = fst body" "n = length page"
proof -
  have v: "visit_torrents ts = (emitted, None) \<Longrightarrow> emitted = ts" for ts emitted
    by (induction ts arbitrary: emitted) (auto split: sum.splits prod.splits)
  show "page = fst body" "n = length page"
    using assms v by (auto simp: parse_inventory_def finish_body_def split: prod.splits option.splits body_end.splits)
qed

text \<open>The torrents of all pages from an offset on.\<close>

fun pages_from :: "nat \<Rightarrow> sync_env \<Rightarrow> nat \<Rightarrow> inventory_torrent list" where
  "pages_from 0 env offset = []"
| "pages_from (Suc fuel) env offset =
     (case sy_inventory_page env offset (sy_inventory_batch_size env) of
        None \<Rightarrow> []
      | Some (page, _) \<Rightarrow> page @ (if length page < sy_inventory_batch_size env then [] else pages_from fuel env (offset + length page)))"

lemma reconcile_pages_cases:
  "reconcile_pages fuel env n detect number offset report s = Some (r, t) \<Longrightarrow>
   \<exists>sent. projects (sy_codec env) (int n) detect (sy_now env) sent s t \<and>
     (\<forall>report'. r = Inr report' \<longrightarrow> sent = map change_of_torrent (pages_from fuel env offset))"
proof (induction fuel arbitrary: number offset report s)
  case (Suc fuel)
  show ?case
  proof (cases "sy_inventory_page env offset (sy_inventory_batch_size env)")
    case None
    then show ?thesis using Suc.prems projects_refl by fastforce
  next
    case (Some body)
    obtain page parsed where b: "parse_inventory body = (page, parsed)" by (cases "parse_inventory body")
    show ?thesis
    proof (cases "(\<exists>e. parsed = Inl e) \<or> sy_database_batch_size env = 0")
      case True
      then have "s = t \<and> (\<exists>e. r = Inl e)" using Suc.prems Some b by (auto split: sum.splits)
      then show ?thesis using projects_refl by blast
    next
      case False
      then obtain seen where p: "parsed = Inr seen" "0 < sy_database_batch_size env" by (cases parsed) auto
      note pg = parse_inventory_Inr [OF b [unfolded p(1)]]
      let ?batches = "chunks (sy_database_batch_size env) (map change_of_torrent page)"
      obtain r1 s1 where 1: "project_chunks env n detect number ?batches report s = (r1, s1)"
        by (cases "project_chunks env n detect number ?batches report s")
      obtain sent where sent: "projects (sy_codec env) (int n) detect (sy_now env) sent s s1"
        "\<forall>report'. r1 = Inr report' \<longrightarrow> sent = map change_of_torrent page"
        using project_chunks_cases [OF 1] chunks_concat [OF p(2)] by metis
      show ?thesis
      proof (cases r1)
        case (Inl e)
        then have "t = s1 \<and> (\<exists>e. r = Inl e)" using Suc.prems Some b p 1 by (auto simp: Let_def)
        then show ?thesis using sent(1) by blast
      next
        case (Inr report')
        have sent': "sent = map change_of_torrent page" using sent(2) Inr by blast
        show ?thesis
        proof (cases "length page < sy_inventory_batch_size env")
          case True
          then have "t = s1 \<and> r = Inr report'" using Suc.prems Some b p 1 Inr pg by (auto simp: Let_def)
          then show ?thesis using sent(1) sent' True Some pg(1) by (intro exI [of _ sent]) (auto split: prod.splits)
        next
          case False
          show ?thesis
          proof (cases "checked_add u64_max offset seen")
            case None
            then have "t = s1 \<and> (\<exists>e. r = Inl e)" using Suc.prems Some b p 1 Inr pg False by (auto simp: Let_def checked_add_def)
            then show ?thesis using sent(1) by blast
          next
            case (Some next_offset)
            have next_offset: "next_offset = offset + length page" using Some pg(2) by (auto simp: checked_add_def split: if_splits)
            have "reconcile_pages fuel env n detect (number + length ?batches) next_offset report' s1 = Some (r, t)"
              using Suc.prems \<open>sy_inventory_page env offset (sy_inventory_batch_size env) = Some body\<close> b p 1 Inr pg False Some
              by (simp add: Let_def checked_add_def split: if_splits)
            then obtain rest where rest: "projects (sy_codec env) (int n) detect (sy_now env) rest s1 t"
              "\<forall>report'. r = Inr report' \<longrightarrow> rest = map change_of_torrent (pages_from fuel env next_offset)" using Suc.IH by blast
            have "pages_from (Suc fuel) env offset = page @ pages_from fuel env next_offset"
              using \<open>sy_inventory_page env offset (sy_inventory_batch_size env) = Some body\<close> False pg(1) next_offset
              by (auto split: prod.splits)
            then show ?thesis using projects_trans [OF sent(1) rest(1)] rest(2) sent' by (intro exI [of _ "sent @ rest"]) auto
          qed
        qed
      qed
    qed
  qed
qed simp




lemma availability_snapshots: "availability q (map change_of_torrent ts) a \<longleftrightarrow> q \<in> it_hash ` set ts \<or> a"
  by (induction ts arbitrary: a) (auto simp: change_of_torrent_def)

lemma finish_reconcile_Inr:
  assumes "finish_qbit_reconcile n now s = Inr t"
  shows "iv_torrents t = iv_torrents (retire_unseen (int n) now s)" "is_generation (iv_state t) = int n"
    "is_reconcile_requested_at (iv_state t) = None" "is_response_id (iv_state t) = is_response_id (iv_state s)"
  using assms by (auto simp: finish_qbit_reconcile_def to_i64_def Let_def retire_unseen_def split: if_splits)

lemma reconcile_inventory_cases:
  assumes "reconcile_inventory fuel env s = Some (r, t)"
  shows "(\<exists>e. r = Inl e) \<and> iv_state t = iv_state s \<or> (\<exists>report detect u. r = Inr report \<and>
    projects (sy_codec env) (is_generation (iv_state s) + 1) detect (sy_now env) (map change_of_torrent (pages_from fuel env 0)) s u \<and>
    iv_torrents t = iv_torrents (retire_unseen (is_generation (iv_state s) + 1) (sy_now env) u) \<and>
    is_generation (iv_state t) = is_generation (iv_state s) + 1 \<and> is_reconcile_requested_at (iv_state t) = None)"
proof -
  obtain r0 s0 where read: "read_state env s = (r0, s0)" by (cases "read_state env s")
  have s0: "s0 = s" by (rule read_state_cases(1) [OF read])
  show ?thesis
  proof (cases r0)
    case (Inl e)
    then show ?thesis using assms read s0 by (auto simp: reconcile_inventory_def)
  next
    case (Inr state)
    have g: "int (nv_generation state) = is_generation (iv_state s)" using read_state_cases(2) [OF read Inr] by simp
    show ?thesis
    proof (cases "nv_generation state + 1 \<le> u64_max")
      case False
      then have "r = Inl SyGenerationOverflow \<and> t = s" using assms read s0 Inr by (auto simp: reconcile_inventory_def checked_add_def)
      then show ?thesis by simp
    next
      case True
      then obtain r1 u where 1: "reconcile_pages fuel env (Suc (nv_generation state)) (nv_has_baseline state) 0 0 (empty_report True) s = Some (r1, u)"
          and fin: "(case r1 of Inl e \<Rightarrow> (Inl e, u) | Inr report \<Rightarrow> finish_pages env (Suc (nv_generation state)) report u) = (r, t)"
        using assms read s0 Inr by (auto simp: reconcile_inventory_def checked_add_def)
      obtain sent where sent: "projects (sy_codec env) (is_generation (iv_state s) + 1) (nv_has_baseline state) (sy_now env) sent s u"
        "\<forall>report. r1 = Inr report \<longrightarrow> sent = map change_of_torrent (pages_from fuel env 0)"
        using reconcile_pages_cases [OF 1] g by (auto simp: algebra_simps)
      note st = projects_state [OF sent(1)]
      show ?thesis
      proof (cases "\<exists>e. r = Inl e")
        case True
        have "t = u" using fin True by (auto simp: finish_pages_def sync_then_Inl dest: commit_Inl split: sum.splits)
        then show ?thesis using True st by simp
      next
        case False
        then obtain ok where ok: "r = Inr ok" by (cases r) auto
        obtain report where rep: "r1 = Inr report" "r = Inr report"
          and f: "finish_qbit_reconcile (Suc (nv_generation state)) (sy_now env) u = Inr t"
          using fin unfolding ok by (cases r1) (auto simp: finish_pages_def sync_then_Inr commit_Inr unit_of_Inr)
        note f' = finish_reconcile_Inr [OF f]
        have n: "int (Suc (nv_generation state)) = is_generation (iv_state s) + 1" using g by simp
        have "projects (sy_codec env) (is_generation (iv_state s) + 1) (nv_has_baseline state) (sy_now env)
            (map change_of_torrent (pages_from fuel env 0)) s u" using sent rep(1) by simp
        then show ?thesis using rep(2) f' unfolding n by blast
      qed
    qed
  qed
qed

text \<open>
  C16: A reconciliation that succeeds leaves exactly those torrents available that
  the pages of qBittorrent listed or that an interrupted full update had left behind
  with the same next generation (\<open>left_over\<close>), in a new generation and with the
  request for it cleared.  When no row carries a generation beyond the stored one,
  nothing was left behind and the available torrents are exactly the listed ones;
  and even when an interrupted run left rows of the next generation, after the
  success no row is ahead any more, so the following full update is exact.  One that fails
  leaves the generation, the cursor and the request as they were.
\<close>

theorem reconcile_exact:
  assumes "reconcile_inventory fuel env s = Some (r, t)"
  shows "(\<forall>e. r = Inl e \<longrightarrow> iv_state t = iv_state s) \<and>
    (\<forall>report. r = Inr report \<longrightarrow> (\<forall>q. available q t \<longleftrightarrow> q \<in> it_hash ` set (pages_from fuel env 0) \<or> left_over q s) \<and>
      is_generation (iv_state t) = is_generation (iv_state s) + 1 \<and> is_reconcile_requested_at (iv_state t) = None \<and>
      (generations_ok s \<longrightarrow> (\<forall>q. available q t \<longleftrightarrow> q \<in> it_hash ` set (pages_from fuel env 0))) \<and>
      ((\<forall>g q. seen_in g q s \<longrightarrow> g \<le> is_generation (iv_state s) + 1) \<longrightarrow> generations_ok t))"
  using reconcile_inventory_cases [OF assms]
proof
  assume "\<exists>report detect u. r = Inr report \<and>
    projects (sy_codec env) (is_generation (iv_state s) + 1) detect (sy_now env) (map change_of_torrent (pages_from fuel env 0)) s u \<and>
    iv_torrents t = iv_torrents (retire_unseen (is_generation (iv_state s) + 1) (sy_now env) u) \<and>
    is_generation (iv_state t) = is_generation (iv_state s) + 1 \<and> is_reconcile_requested_at (iv_state t) = None"
  then obtain report detect u where rep: "r = Inr report"
    and p: "projects (sy_codec env) (is_generation (iv_state s) + 1) detect (sy_now env) (map change_of_torrent (pages_from fuel env 0)) s u"
    and t: "iv_torrents t = iv_torrents (retire_unseen (is_generation (iv_state s) + 1) (sy_now env) u)"
      "is_generation (iv_state t) = is_generation (iv_state s) + 1" "is_reconcile_requested_at (iv_state t) = None" by blast
  have "generations_ok t" if "\<forall>g q. seen_in g q s \<longrightarrow> g \<le> is_generation (iv_state s) + 1"
    unfolding generations_ok_def torrents_eq(2) [OF t(1)] retire_seen t(2) projects_seen [OF p] using that by auto
  then show ?thesis
    using rep t(2,3) full_update_available [OF p] torrents_eq(1) [OF t(1)] availability_snapshots no_left_over by simp
qed auto


section \<open>The page loop ends\<close>

lemma parse_inventory_both: "parse_inventory body = (page, Inr n) \<Longrightarrow> page = fst body \<and> n = length page"
  using parse_inventory_Inr by blast

lemma reconcile_pages_returns:
  assumes "\<And>offset page stop. listed \<le> offset \<Longrightarrow> sy_inventory_page env offset (sy_inventory_batch_size env) = Some (page, stop) \<Longrightarrow>
      length page < sy_inventory_batch_size env"
    and "listed \<le> offset + fuel * sy_inventory_batch_size env"
  shows "\<exists>r t. reconcile_pages (Suc fuel) env n detect number offset report s = Some (r, t)"
  using assms(2)
proof (induction fuel arbitrary: number offset report s)
  case 0
  have "length page < sy_inventory_batch_size env"
    if "sy_inventory_page env offset (sy_inventory_batch_size env) = Some (page, stop)" for page stop
    using assms(1) [OF _ that] 0 by simp
  then show ?case
    by (auto simp: Let_def split: option.splits prod.splits sum.splits dest!: parse_inventory_both)
next
  case (Suc fuel)
  have "\<exists>r t. reconcile_pages (Suc fuel) env n detect number' (offset + length page) report' s' = Some (r, t)"
    if "\<not> length page < sy_inventory_batch_size env" for page :: "inventory_torrent list" and number' report' s'
    by (rule Suc.IH) (use Suc.prems that in simp)
  then show ?case
    by (subst reconcile_pages.simps)
      (auto simp: Let_def checked_add_def simp del: reconcile_pages.simps split: option.splits prod.splits sum.splits dest!: parse_inventory_both)
qed

text \<open>
  A reconciliation returns: when no page behind some offset is full, it needs at
  most one page for each batch up to that offset and two more.
\<close>

lemma reconcile_terminates:
  assumes "0 < sy_inventory_batch_size env"
    and "\<forall>offset page stop. listed \<le> offset \<and> sy_inventory_page env offset (sy_inventory_batch_size env) = Some (page, stop) \<longrightarrow>
      length page < sy_inventory_batch_size env"
  shows "\<exists>r t. reconcile_inventory (listed div sy_inventory_batch_size env + 2) env s = Some (r, t)"
proof -
  let ?n = "sy_inventory_batch_size env"
  have "listed \<le> 0 + (listed div ?n + 1) * ?n"
    using dividend_less_div_times [OF assms(1), of listed] by simp
  then have "\<exists>r t. reconcile_pages (Suc (listed div ?n + 1)) env n detect 0 0 report u = Some (r, t)" for n detect report u
    by (intro reconcile_pages_returns [where listed = listed]) (use assms(2) in auto)
  then have pages: "\<exists>a. reconcile_pages (listed div ?n + 2) env n detect 0 0 report u = Some a" for n detect report u
    by (metis Suc_eq_plus1 add_2_eq_Suc')
  obtain r0 s0 where read: "read_state env s = (r0, s0)" by (cases "read_state env s")
  show ?thesis
  proof (cases r0)
    case (Inr state)
    obtain r1 u where "reconcile_pages (listed div ?n + 2) env (nv_generation state + 1) (nv_has_baseline state) 0 0 (empty_report True) s0
        = Some (r1, u)" using pages by (metis surj_pair)
    then show ?thesis
      by (cases "case r1 of Inl e \<Rightarrow> (Inl e, u) | Inr report \<Rightarrow> finish_pages env (nv_generation state + 1) report u")
        (simp add: reconcile_inventory_def read Inr checked_add_def del: reconcile_pages.simps)
  qed (simp add: reconcile_inventory_def read)
qed


section \<open>A reconciliation that is interrupted\<close>

definition sample_snapshot :: inventory_torrent where
  "sample_snapshot = \<lparr> it_hash = ''aa'', it_infohash_v1 = '''', it_infohash_v2 = '''', it_name = ''a'', it_total_size = 4,
     it_amount_left = 4, it_progress = Some 0, it_state = ''stoppedDL'', it_save_path = ''/data'', it_content_path = ''/data/a'',
     it_category = ''video'', it_tags = '''', it_added_on = 0, it_completion_on = 0 \<rparr>"

definition sample_sync_env :: "inventory_torrent list \<Rightarrow> (sync_statement \<Rightarrow> bool) \<Rightarrow> sync_env" where
  "sample_sync_env listed fault = \<lparr> sy_fault = fault, sy_codec = sample_inventory_codec, sy_versions = None,
     sy_main_data = (\<lambda>rid. Some ([RidEntry (rid + 1), TorrentsEntry [] EndOk, RemovedEntry [''aa''] EndOk], EndOk, EndOk)),
     sy_inventory_page = (\<lambda>offset size. Some (take size (drop offset listed), EndOk)), sy_torrent_files = (\<lambda>_. None),
     sy_inventory_batch_size = 10, sy_database_batch_size = 5, sy_now = 20 \<rparr>"

lemma reconcile_pages_step:
  "0 < fuel \<Longrightarrow> reconcile_pages fuel env generation detect number offset report s =
     reconcile_pages (Suc (fuel - 1)) env generation detect number offset report s"
  by simp

lemma sample_page: "parse_inventory ([sample_snapshot], EndOk) = ([sample_snapshot], Inr 1)"
  by code_simp

lemma sample_snapshot_batch:
  "\<exists>b t. project_qbit_batch sample_inventory_codec [change_of_torrent sample_snapshot] 2 True 20 sample_inventory = Inr (b, t)"
proof -
  let ?v = "\<lparr>tv_v1 = Some ''h'', tv_v2 = None, tv_name = ''a'', tv_total_size = 4, tv_amount_left = 4, tv_ppm = 0,
      tv_state = ''stoppedDL'', tv_save_path = ''/data'', tv_content_path = ''/data/a'', tv_category = ''video'',
      tv_tags_json = concat (tag_list '''')\<rparr>"
  obtain dl where dl: "change_of_torrent sample_snapshot = Upsert ''aa'' dl"
    and v: "merge_values sample_inventory_codec dl (Some sample_torrent_row) = Inr ?v"
    by (simp add: change_of_torrent_def sample_snapshot_def merge_values_def optional_hash_def text_value_def integer_value_def
        or_stored_def or_stored_option_def ok_or_def progress_ppm_def Qbit_Projection.to_i64_def and_then_def sample_torrent_row_def
        sample_inventory_codec_def)
  define m where "m = merged sample_inventory_codec ''aa'' dl 2 True 20 (Some sample_torrent_row) ?v"
  have m: "\<not> mg_became_complete m" "qi_qbit_id (mg_row m) = ''aa''" "qt_v1_hash (mg_row m) = Some ''h''"
    by (simp_all add: m_def merged_def Let_def complete_state_def)
  have f: "find_torrent ''aa'' sample_inventory = Some sample_torrent_row"
    by (simp add: find_torrent_def sample_inventory_def sample_torrent_row_def)
  have "\<exists>s1. upsert_torrent sample_codec (mg_row m) sample_inventory = Inr s1"
    by (simp add: upsert_torrent_def m f sample_codec_def)
      (simp add: sample_inventory_def sample_torrent_row_def hash_taken_def m(2) split: option.split)
  then obtain s1 where "upsert_torrent sample_codec (mg_row m) sample_inventory = Inr s1" by blast
  moreover have "ic_codec sample_inventory_codec = sample_codec" by (simp add: sample_inventory_codec_def)
  ultimately show ?thesis
    by (simp add: project_qbit_batch_def Qbit_Projection.to_i64_def and_then_def dl project_torrent_def f merge_torrent_def v m_def [symmetric] m
        accept_completed_def Let_def)
qed

lemma sample_generations: "generations_ok sample_inventory"
  by (auto simp: generations_ok_def seen_in_def find_torrent_def sample_inventory_def sample_torrent_row_def split: if_splits)

lemma sample_read: "read_state (sample_sync_env listed fault) s = (Inr \<lparr>nv_response_id = Some 7, nv_generation = 1, nv_has_baseline = True,
    nv_last_success_at = Some 10, nv_last_full_reconcile_at = Some 10, nv_reconcile_requested_at = None\<rparr>, s)"
  if "iv_state s = iv_state sample_inventory" "\<not> fault ReadState"
  using that by (simp add: read_state_def commit_def sample_sync_env_def qbit_inventory_state_def Qbit_Projection.optional_u64_def
      required_u64_def sample_inventory_def and_then_def)




lemma sample_response:
  "parse_main_data_with_header ([RidEntry 8, TorrentsEntry [] EndOk, RemovedEntry [''aa''] EndOk], EndOk, EndOk) =
    ([Header \<lparr>mn_response_id = 8, mn_full_update = False, mn_changed = 0, mn_removed = 0\<rparr>, Change (Removed ''aa'')],
     Inr \<lparr>mn_response_id = 8, mn_full_update = False, mn_changed = 0, mn_removed = 1\<rparr>)"
  by code_simp

lemma sample_sync: "\<exists>report t. sync_once (sample_sync_env [] (\<lambda>_. False)) sample_inventory = (Inr report, t)"
proof -
  let ?env = "sample_sync_env [] (\<lambda>_. False)"
  have env: "sy_database_batch_size ?env = 5" "\<And>x. \<not> sy_fault ?env x"
    "sy_main_data ?env 7 = Some ([RidEntry 8, TorrentsEntry [] EndOk, RemovedEntry [''aa''] EndOk], EndOk, EndOk)"
    by (simp_all add: sample_sync_env_def)
  show ?thesis
    by (simp add: sync_once_def sync_then_def sample_read env apply_main_data_reader_def sample_response receive_header_def
        initial_receiver_def receive_change_def finish_receiving_def project_batch_def commit_def project_qbit_batch_def
        Qbit_Projection.to_i64_def and_then_def unit_of_def finish_qbit_sync_def empty_report_def)
qed

theorem sync_once_exact_witness:
  "\<exists>report t. sync_once (sample_sync_env [] (\<lambda>_. False)) sample_inventory = (Inr report, t) \<and>
     is_response_id (iv_state t) = Some 8 \<and> available ''aa'' sample_inventory \<and> \<not> available ''aa'' t"
proof -
  obtain report t where run: "sync_once (sample_sync_env [] (\<lambda>_. False)) sample_inventory = (Inr report, t)"
    using sample_sync by blast
  have body: "sy_main_data (sample_sync_env [] (\<lambda>_. False)) (case is_response_id (iv_state sample_inventory) of None \<Rightarrow> 0 | Some rid \<Rightarrow> nat rid)
      = Some ([RidEntry 8, TorrentsEntry [] EndOk, RemovedEntry [''aa''] EndOk], EndOk, EndOk)"
    by (simp add: sample_sync_env_def sample_inventory_def)
  have one: "changes = [Removed ''aa'']" if "[Change (Removed ''aa'')] = map Change changes" for changes
    using that by (auto simp: map_eq_Cons_conv)
  obtain body' header changes result where p:
    "sy_main_data (sample_sync_env [] (\<lambda>_. False)) (case is_response_id (iv_state sample_inventory) of None \<Rightarrow> 0 | Some rid \<Rightarrow> nat rid) = Some body'"
    "parse_main_data_with_header body' = (Header header # map Change changes, Inr result)"
    "is_response_id (iv_state t) = Some (int (mn_response_id result))"
    "\<forall>q. available q t = availability q changes (if mn_full_update result then left_over q sample_inventory else available q sample_inventory)"
    using sync_once_exact [OF run] by blast
  have "parse_main_data_with_header body' = ([Header \<lparr>mn_response_id = 8, mn_full_update = False, mn_changed = 0, mn_removed = 0\<rparr>,
      Change (Removed ''aa'')], Inr \<lparr>mn_response_id = 8, mn_full_update = False, mn_changed = 0, mn_removed = 1\<rparr>)"
    using p(1) body sample_response by simp
  then have "result = \<lparr>mn_response_id = 8, mn_full_update = False, mn_changed = 0, mn_removed = 1\<rparr>" "changes = [Removed ''aa'']"
    using p(2) one by simp_all
  then have "is_response_id (iv_state t) = Some 8" "\<not> available ''aa'' t" using p(3,4) by simp_all
  moreover have "available ''aa'' sample_inventory"
    by (simp add: available_def find_torrent_def sample_inventory_def sample_torrent_row_def)
  ultimately show ?thesis using run by blast
qed

lemma sample_reconcile: "\<exists>report t. reconcile_inventory 2 (sample_sync_env [sample_snapshot] (\<lambda>_. False)) sample_inventory = Some (Inr report, t)"
proof -
  let ?env = "sample_sync_env [sample_snapshot] (\<lambda>_. False)"
  obtain b s where p: "project_qbit_batch sample_inventory_codec [change_of_torrent sample_snapshot] 2 True 20 sample_inventory = Inr (b, s)"
    using sample_snapshot_batch by blast
  have batches: "chunks 5 [change_of_torrent sample_snapshot] = [[change_of_torrent sample_snapshot]]" by (simp add: chunks.simps)
  have "\<exists>report. reconcile_pages 2 ?env 2 True 0 0 (empty_report True) sample_inventory = Some (Inr report, s)"
    using p by (subst reconcile_pages_step)
      (simp_all add: sample_sync_env_def sample_page batches project_batch_def sync_then_def commit_def Let_def)
  then obtain report where "reconcile_pages 2 ?env 2 True 0 0 (empty_report True) sample_inventory = Some (Inr report, s)" by blast
  moreover have "\<not> sy_fault ?env FinishReconcile" by (simp add: sample_sync_env_def)
  ultimately show ?thesis
    by (simp add: reconcile_inventory_def sample_read checked_add_def finish_pages_def sync_then_def commit_def unit_of_def
        finish_qbit_reconcile_def Qbit_Projection.to_i64_def and_then_def Let_def numeral_2_eq_2 [symmetric])
qed

theorem reconcile_exact_witness:
  "\<exists>report t. reconcile_inventory 2 (sample_sync_env [sample_snapshot] (\<lambda>_. False)) sample_inventory = Some (Inr report, t) \<and>
     available ''aa'' t \<and> \<not> available ''bb'' t \<and> is_generation (iv_state t) = 2"
proof -
  let ?env = "sample_sync_env [sample_snapshot] (\<lambda>_. False)"
  obtain report t where run: "reconcile_inventory 2 ?env sample_inventory = Some (Inr report, t)" using sample_reconcile by blast
  have "pages_from 2 ?env 0 = [sample_snapshot]" by (simp add: numeral_2_eq_2 sample_sync_env_def)
  moreover have "it_hash sample_snapshot = ''aa''" "is_generation (iv_state sample_inventory) = 1"
    by (simp_all add: sample_snapshot_def sample_inventory_def)
  moreover note reconcile_exact [OF run]
  ultimately have "\<forall>q. available q t \<longleftrightarrow> q = ''aa''" "is_generation (iv_state t) = 2"
    using sample_generations no_left_over [OF sample_generations] by simp_all
  then show ?thesis using run by simp
qed

end
