(* ===== verification/Qbit_Manifest.thy ===== *)
theory Qbit_Manifest
  imports Qbit_Sync
begin

text \<open>
  The publication of file lists: what \<open>load_manifest\<close> of
  \<open>crates/sporos-service/src/qbit_sync.rs\<close> leaves behind for the evaluation of
  candidates, which reads the files of a source by the version of its manifest
  (\<open>Candidate_Sources\<close>).  Files are staged under the next version as unavailable and
  published by one transaction at the end.
\<close>

section \<open>Files by key\<close>

definition file_key :: "inventory_file_row \<Rightarrow> source_id \<times> int \<times> int" where
  "file_key f = (fr_source_id f, fr_manifest_version f, fr_ordinal f)"

definition file_at :: "source_id \<times> int \<times> int \<Rightarrow> inventory_store \<Rightarrow> inventory_file_row option" where
  "file_at k s = find (\<lambda>f. file_key f = k) (iv_files s)"

text \<open>The constraints of the table.\<close>

definition files_ok :: "inventory_store \<Rightarrow> bool" where
  "files_ok s \<longleftrightarrow> distinct (map file_key (iv_files s)) \<and> (\<forall>f \<in> set (iv_files s). 0 \<le> fr_ordinal f)"

definition row_matches :: "inventory_file \<Rightarrow> 'a source_file_row_scheme \<Rightarrow> bool" where
  "row_matches file row \<longleftrightarrow> fr_ordinal row = int (vf_index file) \<and> fr_display_path row = vf_name file \<and> fr_size row = int (vf_size file)"

lemma file_at_Some: "file_at k s = Some f \<Longrightarrow> f \<in> set (iv_files s) \<and> file_key f = k"
  by (auto simp: file_at_def find_Some_iff)

lemma file_at_unique:
  assumes "files_ok s" and "f \<in> set (iv_files s)"
  shows "file_at (file_key f) s = Some f"
proof -
  obtain g where g: "file_at (file_key f) s = Some g"
    using assms(2) by (cases "file_at (file_key f) s") (auto simp: file_at_def find_None_iff)
  have "g = f" using file_at_Some [OF g] assms by (auto simp: files_ok_def distinct_map dest: inj_onD)
  then show ?thesis using g by simp
qed

section \<open>Staging\<close>

lemma upsert_file_Inr:
  assumes "upsert_file source v file s = Inr t"
  shows "iv_torrents t = iv_torrents s"
    "files_ok s \<Longrightarrow> files_ok t"
    "\<exists>row. file_at (source, v, int (vf_index file)) t = Some row \<and> row_matches file row"
    "k \<noteq> (source, v, int (vf_index file)) \<Longrightarrow> file_at k t = file_at k s"
    "filter (\<lambda>f. fr_available f \<and> P f) (iv_files t) = filter (\<lambda>f. fr_available f \<and> file_key f \<noteq> (source, v, int (vf_index file)) \<and> P f) (iv_files s)"
proof -
  let ?k = "(source, v, int (vf_index file))"
  let ?up = "\<lambda>f. f\<lparr>fi_relative_path := vf_name file, fr_display_path := vf_name file,
             fr_size := int (vf_size file), fi_file_kind := ''unknown'', fr_available := False\<rparr>"
  let ?new = "\<lparr>fr_id = next_file_id s, fr_source_id = source, fr_manifest_version = v,
             fr_display_path = vf_name file, fr_size = int (vf_size file), fr_device = None, fr_inode = None, fr_available = False,
             fr_ordinal = int (vf_index file), fi_relative_path = vf_name file, fi_file_kind = ''unknown''\<rparr>"
  have same: "(fr_source_id f = source \<and> fr_manifest_version f = v \<and> fr_ordinal f = int (vf_index file)) = (file_key f = ?k)"
    for f :: inventory_file_row by (simp add: file_key_def)
  consider (update) "list_ex (\<lambda>f. file_key f = ?k) (iv_files s)" "t = s\<lparr>iv_files := map (\<lambda>f. if file_key f = ?k then ?up f else f) (iv_files s)\<rparr>"
    | (insert) "\<not> list_ex (\<lambda>f. file_key f = ?k) (iv_files s)" "t = s\<lparr>iv_files := iv_files s @ [?new]\<rparr>"
    using assms unfolding upsert_file_def Let_def same
    by (auto simp: Qbit_Projection.to_i64_def split: if_splits)
  note parts = this
  have up: "file_key (?up f) = file_key f" "file_key ?new = ?k" for f by (simp_all add: file_key_def)
  show "iv_torrents t = iv_torrents s" using parts by cases simp_all
  show "files_ok t" if "files_ok s"
  proof (cases rule: parts)
    case update
    have "map file_key (iv_files t) = map file_key (iv_files s)" by (simp add: update(2) up)
    moreover have "\<forall>f \<in> set (iv_files t). 0 \<le> fr_ordinal f" using that by (auto simp: update(2) files_ok_def)
    ultimately show ?thesis using that unfolding files_ok_def by (simp only: simp_thms)
  next
    case insert
    then show ?thesis using that up by (auto simp: files_ok_def list_ex_iff)
  qed
  show "\<exists>row. file_at ?k t = Some row \<and> row_matches file row"
  proof (cases rule: parts)
    case update
    have "file_at ?k t = map_option (\<lambda>f. if file_key f = ?k then ?up f else f) (file_at ?k s)"
      unfolding file_at_def update(2) by (simp add: find_mapped up)
    moreover have "file_at ?k s \<noteq> None" using update(1) by (auto simp: file_at_def find_None_iff list_ex_iff)
    then obtain f where "file_at ?k s = Some f" by blast
    moreover from file_at_Some [OF this] have "file_key f = ?k" by simp
    ultimately show ?thesis by (simp add: row_matches_def) (simp add: file_key_def)
  next
    case insert
    then have "file_at ?k s = None" by (auto simp: file_at_def find_None_iff list_ex_iff)
    then show ?thesis by (simp add: file_at_def insert(2) find_append up row_matches_def)
  qed
  show "file_at k t = file_at k s" if "k \<noteq> ?k"
  proof (cases rule: parts)
    case update
    have "file_at k t = map_option (\<lambda>f. if file_key f = ?k then ?up f else f) (file_at k s)"
      unfolding file_at_def update(2) by (simp add: find_mapped up)
    then show ?thesis using that by (cases "file_at k s") (auto dest: file_at_Some)
  next
    case insert
    then show ?thesis using that by (auto simp: file_at_def find_append up split: option.split)
  qed
  show "filter (\<lambda>f. fr_available f \<and> P f) (iv_files t) = filter (\<lambda>f. fr_available f \<and> file_key f \<noteq> ?k \<and> P f) (iv_files s)"
  proof (cases rule: parts)
    case update
    have "filter (\<lambda>f. fr_available f \<and> P f) (map (\<lambda>f. if file_key f = ?k then ?up f else f) xs) =
        filter (\<lambda>f. fr_available f \<and> file_key f \<noteq> ?k \<and> P f) xs" for xs
      by (induction xs) auto
    then show ?thesis by (simp add: update(2))
  next
    case insert
    then show ?thesis by (auto simp: list_ex_iff intro!: filter_cong)
  qed
qed


lemma upsert_files_append:
  "upsert_files source v (xs @ ys) s = and_then (upsert_files source v xs s) (upsert_files source v ys)"
  by (induction xs arbitrary: s) (auto simp: and_then_def split: sum.splits)

definition elsewhere :: "source_id \<Rightarrow> int \<Rightarrow> inventory_file_row \<Rightarrow> bool" where
  "elsewhere source v f \<longleftrightarrow> fr_available f \<and> \<not> (fr_source_id f = source \<and> fr_manifest_version f = v)"

text \<open>What staging keeps: the torrents, the constraints, and every published file of another version.\<close>

definition staged :: "source_id \<Rightarrow> int \<Rightarrow> inventory_store \<Rightarrow> inventory_store \<Rightarrow> bool" where
  "staged source v s t \<longleftrightarrow> iv_torrents t = iv_torrents s \<and> (files_ok s \<longrightarrow> files_ok t) \<and>
     filter (elsewhere source v) (iv_files t) = filter (elsewhere source v) (iv_files s)"

lemma staged_refl: "staged source v s s"
  by (simp add: staged_def)

lemma staged_trans: "staged source v s t \<Longrightarrow> staged source v t u \<Longrightarrow> staged source v s u"
  by (simp add: staged_def)

lemma staged_upsert_file:
  assumes "upsert_file source v file s = Inr t"
  shows "staged source v s t"
proof -
  note u = upsert_file_Inr [OF assms]
  have "filter (elsewhere source v) (iv_files t) =
      filter (\<lambda>f. fr_available f \<and> \<not> (fr_source_id f = source \<and> fr_manifest_version f = v)) (iv_files t)"
    by (simp add: elsewhere_def [abs_def])
  also have "\<dots> = filter (elsewhere source v) (iv_files s)"
    unfolding u(5) by (rule filter_cong) (auto simp: file_key_def elsewhere_def)
  finally show ?thesis using u(1,2) by (simp add: staged_def)
qed

lemma staged_upsert_files: "upsert_files source v files s = Inr t \<Longrightarrow> staged source v s t"
  by (induction files arbitrary: s) (auto simp: staged_refl intro: staged_trans staged_upsert_file)

lemma upsert_files_at:
  "upsert_files source v files s = Inr t \<Longrightarrow> i \<notin> vf_index ` set files \<Longrightarrow>
   file_at (source, v, int i) t = file_at (source, v, int i) s"
proof (induction files arbitrary: s)
  case (Cons x files)
  then obtain s1 where 1: "upsert_file source v x s = Inr s1" "upsert_files source v files s1 = Inr t" by auto
  have "file_at (source, v, int i) s1 = file_at (source, v, int i) s"
    by (rule upsert_file_Inr(4) [OF 1(1)]) (use Cons.prems(2) in simp)
  then show ?case using Cons.IH [OF 1(2)] Cons.prems(2) by simp
qed simp

lemma upsert_files_matches:
  "upsert_files source v files s = Inr t \<Longrightarrow> distinct (map vf_index files) \<Longrightarrow> file \<in> set files \<Longrightarrow>
   \<exists>row. file_at (source, v, int (vf_index file)) t = Some row \<and> row_matches file row"
proof (induction files arbitrary: s)
  case (Cons first files)
  then obtain s1 where 1: "upsert_file source v first s = Inr s1" "upsert_files source v files s1 = Inr t" by auto
  show ?case
  proof (cases "file \<in> set files")
    case True
    then show ?thesis using Cons.IH [OF 1(2)] Cons.prems(2) by simp
  next
    case False
    then have "file = first" using Cons.prems(3) by simp
    then show ?thesis using upsert_file_Inr(3) [OF 1(1)] upsert_files_at [OF 1(2), of "vf_index file"] Cons.prems(2) by simp
  qed
qed simp

section \<open>Receiving the list\<close>

lemma project_files_Inr:
  assumes "project_files env number target files s = (Inr x, t)"
  shows "upsert_files (mt_source_id target) (int (mt_version target)) files s = Inr t"
  using assms by (auto simp: project_files_def commit_Inr unit_of_Inr project_qbit_files_def Qbit_Projection.to_i64_def split: if_splits)

lemma project_files_Inl: "project_files env number target files s = (Inl e, t) \<Longrightarrow> t = s"
  by (auto simp: project_files_def dest: commit_Inl)

lemma receive_files_cases:
  "receive_files env target number batch n files s = (r, t) \<Longrightarrow>
   \<exists>sent. upsert_files (mt_source_id target) (int (mt_version target)) sent s = Inr t \<and>
     (\<forall>number' batch' n'. r = Inr (number', batch', n') \<longrightarrow> batch @ files = sent @ batch' \<and> n' = n + length files \<and>
       map vf_index files = [n..<n + length files])"
proof (induction files arbitrary: number batch n s)
  case Nil
  then show ?case by (intro exI [of _ "[]"]) auto
next
  case (Cons x files)
  show ?case
  proof (cases "vf_index x = n")
    case False
    then show ?thesis using Cons.prems by (intro exI [of _ "[]"]) auto
  next
    case True
    have indices: "map vf_index (x # files) = [n..<n + length (x # files)]"
      if "map vf_index files = [n + 1..<n + 1 + length files]"
    proof -
      have "[n..<n + length (x # files)] = n # [n + 1..<n + 1 + length files]" by (subst upt_conv_Cons) simp_all
      then show ?thesis using that True by (simp only: list.map)
    qed
    show ?thesis
    proof (cases "length (batch @ [x]) = sy_database_batch_size env")
      case False
      then have "receive_files env target number (batch @ [x]) (n + 1) files s = (r, t)" using Cons.prems True by (simp add: Let_def)
      from Cons.IH [OF this] obtain sent where "upsert_files (mt_source_id target) (int (mt_version target)) sent s = Inr t"
        "\<forall>number' batch' n'. r = Inr (number', batch', n') \<longrightarrow> (batch @ [x]) @ files = sent @ batch' \<and> n' = n + 1 + length files \<and>
          map vf_index files = [n + 1..<n + 1 + length files]" by blast
      then show ?thesis using indices by (intro exI [of _ sent]) auto
    next
      case flush: True
      obtain r1 s1 where 1: "project_files env number target (batch @ [x]) s = (r1, s1)"
        by (cases "project_files env number target (batch @ [x]) s")
      show ?thesis
      proof (cases r1)
        case (Inl e)
        then have "t = s \<and> r = Inl e" using Cons.prems True flush 1 project_files_Inl [of env number target "batch @ [x]" s]
          by (auto simp: Let_def sync_then_def)
        then show ?thesis by (intro exI [of _ "[]"]) simp
      next
        case (Inr u)
        have "receive_files env target (number + 1) [] (n + 1) files s1 = (r, t)"
          using Cons.prems True flush 1 Inr by (simp add: Let_def sync_then_def)
        from Cons.IH [OF this] obtain sent where sent: "upsert_files (mt_source_id target) (int (mt_version target)) sent s1 = Inr t"
          "\<forall>number' batch' n'. r = Inr (number', batch', n') \<longrightarrow> [] @ files = sent @ batch' \<and> n' = n + 1 + length files \<and>
            map vf_index files = [n + 1..<n + 1 + length files]" by blast
        have "upsert_files (mt_source_id target) (int (mt_version target)) ((batch @ [x]) @ sent) s = Inr t"
          using project_files_Inr [OF 1 [unfolded Inr]] sent(1) by (simp only: upsert_files_append and_then_def sum.case)
        then show ?thesis using sent(2) indices by (intro exI [of _ "(batch @ [x]) @ sent"]) auto
      qed
    qed
  qed
qed

section \<open>The transactions around it\<close>

definition prepared :: "source_id \<Rightarrow> int \<Rightarrow> inventory_store \<Rightarrow> inventory_store" where
  "prepared source v s = update_files (\<lambda>f. fr_source_id f = source \<and> fr_manifest_version f = v) False
     (set_manifest_state source ''loading'' s)"

definition published :: "source_id \<Rightarrow> int \<Rightarrow> nat \<Rightarrow> int \<Rightarrow> inventory_store \<Rightarrow> inventory_store" where
  "published source v n now s = update_torrents (\<lambda>row. qt_id row = source)
       (\<lambda>row. row\<lparr>qt_manifest_version := v, qt_manifest_state := ''loaded'', qi_manifest_loaded_at := Some now\<rparr>)
     (update_files (\<lambda>f. fr_source_id f = source \<and> fr_manifest_version f = v \<and> fr_ordinal f < int n) True
       (update_files (\<lambda>f. fr_source_id f = source) False s))"

definition source_row :: "source_id \<Rightarrow> inventory_store \<Rightarrow> inventory_row option" where
  "source_row source s = find (\<lambda>row. qt_id row = source \<and> qt_available row) (iv_torrents s)"

lemma prepare_Inr:
  assumes "prepare_qbit_manifest source s = Inr (target, t)"
  obtains row where "source_row source s = Some row" "mt_source_id target = source" "mt_qbit_id target = qi_qbit_id row"
    "int (mt_version target) = qt_manifest_version row + 1" "t = prepared source (qt_manifest_version row + 1) s"
proof (cases "source_row source s")
  case None
  then show ?thesis using assms by (simp add: prepare_qbit_manifest_def source_row_def)
next
  case (Some row)
  then have "0 \<le> qt_manifest_version row \<and>
      target = \<lparr>mt_source_id = source, mt_qbit_id = qi_qbit_id row, mt_version = nat (qt_manifest_version row) + 1\<rparr> \<and>
      t = prepared source (int (nat (qt_manifest_version row) + 1)) s"
    using assms
    by (auto simp: prepare_qbit_manifest_def source_row_def required_u64_def ok_or_def checked_add_def
        Qbit_Projection.to_i64_def prepared_def split: if_splits)
  then show ?thesis by (intro that [OF Some]) (simp_all add: add.commute)
qed

lemma finish_manifest_Inr:
  "finish_qbit_manifest target n now s = Inr t \<Longrightarrow> t = published (mt_source_id target) (int (mt_version target)) n now s"
  by (auto simp: finish_qbit_manifest_def Qbit_Projection.to_i64_def published_def split: if_splits)

definition flush_files :: "sync_env \<Rightarrow> manifest_target \<Rightarrow> nat \<Rightarrow> inventory_file list \<Rightarrow> unit sync" where
  "flush_files env target number batch = (if batch \<noteq> [] then project_files env number target batch else (\<lambda>s. (Inr (), s)))"

definition publish_files :: "sync_env \<Rightarrow> manifest_target \<Rightarrow> (inventory_parse_error, nat) result \<Rightarrow> nat \<Rightarrow> nat sync" where
  "publish_files env target parsed seen =
     (case parsed of
        Inl e \<Rightarrow> sync_fail (SyParse e)
      | Inr n \<Rightarrow>
          if n \<noteq> seen then sync_fail FileCountChanged
          else sync_then (commit env FinishManifest (\<lambda>s. unit_of (finish_qbit_manifest target seen (sy_now env) s)))
            (\<lambda>_ s. (Inr seen, s)))"

definition load_list :: "sync_env \<Rightarrow> manifest_target \<Rightarrow> inventory_file list \<times> (inventory_parse_error, nat) result \<Rightarrow> nat sync" where
  "load_list env target parsed =
     sync_then (receive_files env target 0 [] 0 (fst parsed)) (\<lambda>received.
     sync_then (flush_files env target (fst received) (fst (snd received))) (\<lambda>_.
       publish_files env target (snd parsed) (snd (snd received))))"

lemma load_manifest_inner_eq:
  "load_manifest_inner env source =
     sync_then (commit env PrepareManifest (prepare_qbit_manifest source)) (\<lambda>target.
       case sy_torrent_files env (mt_qbit_id target) of
         None \<Rightarrow> sync_fail SyQbittorrent
       | Some body \<Rightarrow> load_list env target (parse_files MAX_FILES_PER_TORRENT body))"
  unfolding load_manifest_inner_def load_list_def flush_files_def publish_files_def case_prod_unfold ..

lemma flush_files_Inr:
  "flush_files env target number batch s = (Inr u, t) \<Longrightarrow>
   upsert_files (mt_source_id target) (int (mt_version target)) batch s = Inr t"
  by (auto simp: flush_files_def dest: project_files_Inr split: if_splits)

lemma flush_files_Inl: "flush_files env target number batch s = (Inl e, t) \<Longrightarrow> t = s"
  by (auto simp: flush_files_def dest: project_files_Inl split: if_splits)

lemma publish_files_Inr:
  "publish_files env target parsed seen s = (Inr n, t) \<Longrightarrow>
   parsed = Inr n \<and> seen = n \<and> t = published (mt_source_id target) (int (mt_version target)) n (sy_now env) s"
  by (auto simp: publish_files_def sync_then_Inr commit_Inr unit_of_Inr sync_fail_def split: sum.splits if_splits
      dest: finish_manifest_Inr)

lemma publish_files_Inl: "publish_files env target parsed seen s = (Inl e, t) \<Longrightarrow> t = s"
  by (auto simp: publish_files_def sync_then_Inl sync_fail_def split: sum.splits if_splits dest: commit_Inl)

lemma load_list_Inr:
  assumes "load_list env target parsed s = (Inr n, t)"
  obtains s2 where "upsert_files (mt_source_id target) (int (mt_version target)) (fst parsed) s = Inr s2"
    "map vf_index (fst parsed) = [0..<n]" "snd parsed = Inr n"
    "t = published (mt_source_id target) (int (mt_version target)) n (sy_now env) s2"
proof -
  obtain number batch seen s2 u s3 where received: "receive_files env target 0 [] 0 (fst parsed) s = (Inr (number, batch, seen), s2)"
    and flushed: "flush_files env target number batch s2 = (Inr u, s3)"
    and last: "publish_files env target (snd parsed) seen s3 = (Inr n, t)"
    using assms by (auto simp: load_list_def sync_then_Inr)
  obtain sent where sent: "upsert_files (mt_source_id target) (int (mt_version target)) sent s = Inr s2"
    "fst parsed = sent @ batch" "map vf_index (fst parsed) = [0..<seen]"
    using receive_files_cases [OF received] by auto
  have "upsert_files (mt_source_id target) (int (mt_version target)) (fst parsed) s = Inr s3"
    using sent(1) flush_files_Inr [OF flushed] by (simp add: sent(2) upsert_files_append and_then_def)
  then show ?thesis using that sent(3) publish_files_Inr [OF last] by simp
qed

lemma load_list_Inl:
  assumes "load_list env target parsed s = (Inl e, t)"
  shows "\<exists>sent. upsert_files (mt_source_id target) (int (mt_version target)) sent s = Inr t"
proof -
  consider (receive) "receive_files env target 0 [] 0 (fst parsed) s = (Inl e, t)"
    | (later) received s2 where "receive_files env target 0 [] 0 (fst parsed) s = (Inr received, s2)"
        "sync_then (flush_files env target (fst received) (fst (snd received))) (\<lambda>_.
           publish_files env target (snd parsed) (snd (snd received))) s2 = (Inl e, t)"
    using assms unfolding load_list_def sync_then_Inl by blast
  then show ?thesis
  proof cases
    case receive
    then show ?thesis using receive_files_cases by blast
  next
    case later
    obtain sent where sent: "upsert_files (mt_source_id target) (int (mt_version target)) sent s = Inr s2"
      using receive_files_cases [OF later(1)] by blast
    have "t = s2 \<or> upsert_files (mt_source_id target) (int (mt_version target)) (fst (snd received)) s2 = Inr t"
      using later(2) by (auto simp: sync_then_Inl dest: flush_files_Inl flush_files_Inr publish_files_Inl)
    then show ?thesis
    proof
      assume "upsert_files (mt_source_id target) (int (mt_version target)) (fst (snd received)) s2 = Inr t"
      then show ?thesis using sent by (intro exI [of _ "sent @ fst (snd received)"]) (simp add: upsert_files_append and_then_def)
    qed (use sent in blast)
  qed
qed

lemma load_manifest_inner_Inr:
  assumes "load_manifest_inner env source s = (Inr n, t)"
  obtains row body s2 where "source_row source s = Some row" "sy_torrent_files env (qi_qbit_id row) = Some body"
    "parse_files MAX_FILES_PER_TORRENT body = (fst body, Inr n)" "map vf_index (fst body) = [0..<n]"
    "upsert_files source (qt_manifest_version row + 1) (fst body) (prepared source (qt_manifest_version row + 1) s) = Inr s2"
    "t = published source (qt_manifest_version row + 1) n (sy_now env) s2"
proof -
  obtain target s1 body where p: "prepare_qbit_manifest source s = Inr (target, s1)"
    and b: "sy_torrent_files env (mt_qbit_id target) = Some body"
    and rest: "load_list env target (parse_files MAX_FILES_PER_TORRENT body) s1 = (Inr n, t)"
    using assms unfolding load_manifest_inner_eq by (auto simp: sync_then_Inr commit_Inr sync_fail_def split: option.splits)
  obtain row where row: "source_row source s = Some row" "mt_source_id target = source" "mt_qbit_id target = qi_qbit_id row"
    "int (mt_version target) = qt_manifest_version row + 1" "s1 = prepared source (qt_manifest_version row + 1) s"
    using prepare_Inr [OF p] .
  obtain s2 where loaded: "upsert_files source (qt_manifest_version row + 1) (fst (parse_files MAX_FILES_PER_TORRENT body)) s1 = Inr s2"
    "map vf_index (fst (parse_files MAX_FILES_PER_TORRENT body)) = [0..<n]"
    "snd (parse_files MAX_FILES_PER_TORRENT body) = Inr n" "t = published source (qt_manifest_version row + 1) n (sy_now env) s2"
    using load_list_Inr [OF rest] row by metis
  have parse: "parse_files MAX_FILES_PER_TORRENT body = (fst body, Inr n)"
    using parse_files_Inr(1) [of MAX_FILES_PER_TORRENT body] loaded(3) by (metis prod.collapse)
  show ?thesis by (rule that [OF row(1)]) (use b row loaded parse in simp_all)
qed

lemma load_manifest_inner_Inl:
  assumes "load_manifest_inner env source s = (Inl e, t)"
  shows "t = s \<or> (\<exists>row sent. source_row source s = Some row \<and>
     upsert_files source (qt_manifest_version row + 1) sent (prepared source (qt_manifest_version row + 1) s) = Inr t)"
proof (cases "commit env PrepareManifest (prepare_qbit_manifest source) s")
  case (Pair r s1)
  show ?thesis
  proof (cases r)
    case (Inl e')
    then show ?thesis using assms Pair commit_Inl [OF Pair [unfolded Inl]] by (simp add: load_manifest_inner_eq sync_then_def)
  next
    case (Inr target)
    then have "prepare_qbit_manifest source s = Inr (target, s1)" using Pair by (simp add: commit_Inr)
    from prepare_Inr [OF this] obtain row where row: "source_row source s = Some row" "mt_source_id target = source"
      "int (mt_version target) = qt_manifest_version row + 1" "s1 = prepared source (qt_manifest_version row + 1) s" by metis
    have "\<exists>sent. upsert_files source (qt_manifest_version row + 1) sent s1 = Inr t"
    proof (cases "sy_torrent_files env (mt_qbit_id target)")
      case None
      then show ?thesis using assms Pair Inr by (intro exI [of _ "[]"]) (simp add: load_manifest_inner_eq sync_then_def sync_fail_def)
    next
      case (Some body)
      then have "load_list env target (parse_files MAX_FILES_PER_TORRENT body) s1 = (Inl e, t)"
        using assms Pair Inr by (simp add: load_manifest_inner_eq sync_then_def)
      from load_list_Inl [OF this] show ?thesis using row(2,3) by metis
    qed
    then show ?thesis using row(1,4) by blast
  qed
qed

section \<open>What a reader of the tables sees\<close>

lemma set_manifest_state_files: "iv_files (set_manifest_state source state s) = iv_files s"
  by (simp add: set_manifest_state_def update_torrents_def)

lemma prepared_files:
  "iv_files (prepared source v s) =
   map (\<lambda>f. if fr_source_id f = source \<and> fr_manifest_version f = v then f\<lparr>fr_available := False\<rparr> else f) (iv_files s)"
  by (simp add: prepared_def update_files_def set_manifest_state_files)

lemma prepared_ok:
  assumes "files_ok s"
  shows "files_ok (prepared source v s)"
proof -
  have "map file_key (iv_files (prepared source v s)) = map file_key (iv_files s)"
    by (auto simp: prepared_files file_key_def)
  moreover have "\<forall>f \<in> set (iv_files (prepared source v s)). 0 \<le> fr_ordinal f"
    using assms by (auto simp: prepared_files files_ok_def)
  ultimately show ?thesis using assms unfolding files_ok_def by (simp only: simp_thms)
qed

lemma filter_prepared: "filter (elsewhere source v) (iv_files (prepared source v s)) = filter (elsewhere source v) (iv_files s)"
proof -
  have "filter (elsewhere source v)
      (map (\<lambda>f. if fr_source_id f = source \<and> fr_manifest_version f = v then f\<lparr>fr_available := False\<rparr> else f) xs) =
    filter (elsewhere source v) xs" for xs :: "inventory_file_row list"
    by (induction xs) (auto simp: elsewhere_def)
  then show ?thesis by (simp add: prepared_files)
qed

lemma published_files:
  "iv_files (published source v n now s) = map (\<lambda>f. if fr_source_id f = source
     then f\<lparr>fr_available := (fr_manifest_version f = v \<and> fr_ordinal f < int n)\<rparr> else f) (iv_files s)"
  by (simp add: published_def update_files_def update_torrents_def)

lemma file_rows_view:
  "file_rows (inventory_view s w) source v = map source_file_row.truncate
     (filter (\<lambda>f. fr_source_id f = source \<and> fr_manifest_version f = v \<and> fr_available f) (iv_files s))"
  by (simp add: file_rows_def inventory_view_def filter_map o_def source_file_row.truncate_def)

lemma staged_rows:
  assumes "filter (elsewhere source v) (iv_files t) = filter (elsewhere source v) (iv_files s)" and "other \<noteq> source \<or> version \<noteq> v"
  shows "file_rows (inventory_view t w) other version = file_rows (inventory_view s w) other version"
proof -
  have part: "filter (\<lambda>f. fr_source_id f = other \<and> fr_manifest_version f = version \<and> fr_available f) xs =
      filter (\<lambda>f. fr_source_id f = other \<and> fr_manifest_version f = version) (filter (elsewhere source v) xs)"
    for xs :: "inventory_file_row list"
    unfolding filter_filter by (rule filter_cong) (use assms(2) in \<open>auto simp: elsewhere_def\<close>)
  show ?thesis unfolding file_rows_view part assms(1) ..
qed

lemma published_rows_elsewhere:
  assumes "other \<noteq> source"
  shows "file_rows (inventory_view (published source v n now s) w) other version = file_rows (inventory_view s w) other version"
proof -
  have "filter (\<lambda>f. fr_source_id f = other \<and> fr_manifest_version f = version \<and> fr_available f) (map (\<lambda>f. if fr_source_id f = source
      then f\<lparr>fr_available := (fr_manifest_version f = v \<and> fr_ordinal f < int n)\<rparr> else f) xs) =
    filter (\<lambda>f. fr_source_id f = other \<and> fr_manifest_version f = version \<and> fr_available f) xs" for xs :: "inventory_file_row list"
    using assms by (induction xs) auto
  then show ?thesis by (simp add: file_rows_view published_files)
qed

lemma sort_key_truncate:
  "sort_key fr_ordinal (map source_file_row.truncate xs) = map source_file_row.truncate (sort_key fr_ordinal (xs :: inventory_file_row list))"
proof -
  have insert: "insort_key fr_ordinal (source_file_row.truncate x) (map source_file_row.truncate ys) =
      map source_file_row.truncate (insort_key fr_ordinal x ys)" for x :: inventory_file_row and ys
    by (induction ys) (auto simp: source_file_row.truncate_def)
  show ?thesis by (induction xs) (simp_all add: insert)
qed

lemma ordinals_sorted:
  fixes rows :: "inventory_file_row list"
  assumes "distinct (map fr_ordinal rows)" and "fr_ordinal ` set rows = int ` {0..<n}"
  shows "map fr_ordinal (sort_key fr_ordinal rows) = map int [0..<n]"
proof (rule sorted_distinct_set_unique)
  show "sorted (map fr_ordinal (sort_key fr_ordinal rows))" by (rule sorted_sort_key)
  have "mset (map fr_ordinal (sort_key fr_ordinal rows)) = mset (map fr_ordinal rows)" by (simp add: mset_sort)
  then show "distinct (map fr_ordinal (sort_key fr_ordinal rows))" using assms(1) mset_eq_imp_distinct_iff by blast
  show "sorted (map int [0..<n])" by (simp add: sorted_map sorted_wrt_upt)
  show "distinct (map int [0..<n])" by (simp add: distinct_map inj_on_def)
  show "set (map fr_ordinal (sort_key fr_ordinal rows)) = set (map int [0..<n])" using assms(2) by simp
qed

lemma published_at:
  "file_at (source, v, i) (published source v n now s) =
   map_option (\<lambda>f. f\<lparr>fr_available := (i < int n)\<rparr>) (file_at (source, v, i) s)"
proof -
  let ?g = "\<lambda>f. if fr_source_id f = source
     then f\<lparr>fr_available := (fr_manifest_version f = v \<and> fr_ordinal f < int n)\<rparr> else (f :: inventory_file_row)"
  have "file_at (source, v, i) (published source v n now s) = map_option ?g (file_at (source, v, i) s)"
    unfolding file_at_def published_files by (rule find_mapped) (simp add: file_key_def)
  then show ?thesis by (cases "file_at (source, v, i) s") (auto dest: file_at_Some simp: file_key_def)
qed

lemma published_ok:
  assumes "files_ok s"
  shows "files_ok (published source v n now s)"
proof -
  have "map file_key (iv_files (published source v n now s)) = map file_key (iv_files s)"
    by (auto simp: published_files file_key_def)
  moreover have "\<forall>f \<in> set (iv_files (published source v n now s)). 0 \<le> fr_ordinal f"
    using assms by (auto simp: published_files files_ok_def)
  ultimately show ?thesis using assms unfolding files_ok_def by (simp only: simp_thms)
qed

lemma published_member:
  assumes "f \<in> set (iv_files (published source v n now s))" and "fr_source_id f = source" and "fr_available f"
  shows "fr_manifest_version f = v \<and> fr_ordinal f < int n"
proof -
  obtain g where g: "f = (if fr_source_id g = source
      then g\<lparr>fr_available := (fr_manifest_version g = v \<and> fr_ordinal g < int n)\<rparr> else g)"
    using assms(1) unfolding published_files by (auto simp only: set_map)
  show ?thesis using assms(2,3) unfolding g by (cases "fr_source_id g = source") simp_all
qed

lemma published_list:
  assumes ok: "files_ok s" and n: "map vf_index files = [0..<n]"
    and at_index: "\<And>x. x \<in> set files \<Longrightarrow> \<exists>row. file_at (source, v, int (vf_index x)) s = Some row \<and> row_matches x row"
  shows "list_all2 row_matches files (sort_key fr_ordinal (file_rows (inventory_view (published source v n now s) w) source v))"
proof -
  define t where "t = published source v n now s"
  define rows where "rows = filter (\<lambda>f. fr_source_id f = source \<and> fr_manifest_version f = v \<and> fr_available f) (iv_files t)"
  have t_ok: "files_ok t" unfolding t_def using ok by (rule published_ok)
  have len: "length files = n" using n by (metis length_map length_upt diff_zero)
  have index: "vf_index (files ! i) = i" if "i < n" for i using that n len by (metis add_0 nth_map nth_upt)
  have at_t: "\<exists>row. file_at (source, v, int i) t = Some row \<and> row_matches (files ! i) row \<and> fr_available row" if "i < n" for i
  proof -
    have "files ! i \<in> set files" "vf_index (files ! i) = i" using that len index by simp_all
    from at_index [OF this(1)] this(2) obtain row where "file_at (source, v, int i) s = Some row" "row_matches (files ! i) row"
      by auto
    then show ?thesis using that by (auto simp: t_def published_at row_matches_def)
  qed
  have keys: "file_key f = (source, v, fr_ordinal f)" if "f \<in> set rows" for f
    using that by (simp add: rows_def file_key_def)
  have "distinct (map file_key rows)"
    using t_ok by (simp add: rows_def files_ok_def distinct_map_filter)
  moreover have "map file_key rows = map (\<lambda>i. (source, v, i)) (map fr_ordinal rows)" using keys by simp
  ultimately have ordinals: "distinct (map fr_ordinal rows)" by (metis distinct_map)
  have "fr_ordinal ` set rows = int ` {0..<n}"
  proof (intro set_eqI iffI)
    fix i assume "i \<in> fr_ordinal ` set rows"
    then obtain f where f: "f \<in> set rows" "fr_ordinal f = i" by auto
    then have "f \<in> set (iv_files t)" "fr_available f" "fr_source_id f = source" by (auto simp: rows_def)
    then have "0 \<le> i" "f \<in> set (iv_files (published source v n now s))"
      using f(2) t_ok by (auto simp: files_ok_def t_def)
    moreover from this(2) have "i < int n" 
      using published_member \<open>fr_available f\<close> \<open>fr_source_id f = source\<close> f(2) by blast
    ultimately show "i \<in> int ` {0..<n}" by (intro image_eqI [of _ _ "nat i"]) auto
  next
    fix i assume "i \<in> int ` {0..<n}"
    then obtain k where k: "k < n" "i = int k" by auto
    obtain row where "file_at (source, v, int k) t = Some row" "fr_available row" using at_t [OF k(1)] by blast
    then show "i \<in> fr_ordinal ` set rows"
      using k(2) by (intro image_eqI [of _ _ row]) (auto dest!: file_at_Some simp: rows_def file_key_def)
  qed
  then have sorted: "map fr_ordinal (sort_key fr_ordinal rows) = map int [0..<n]" by (rule ordinals_sorted [OF ordinals])
  then have rows_len: "length (sort_key fr_ordinal rows) = n" by (metis length_map length_upt diff_zero)
  have "row_matches (files ! i) (sort_key fr_ordinal rows ! i)" if "i < n" for i
  proof -
    let ?f = "sort_key fr_ordinal rows ! i"
    have "?f \<in> set rows" using that rows_len by (metis nth_mem set_sort)
    moreover have "fr_ordinal ?f = int i" using that rows_len sorted by (metis add_0 diff_zero length_upt nth_map nth_upt)
    moreover from calculation have "?f \<in> set (iv_files t)" "file_key ?f = (source, v, int i)"
      using keys by (auto simp: rows_def)
    ultimately show ?thesis using file_at_unique [OF t_ok, of ?f] at_t [OF that] by auto
  qed
  then have "list_all2 row_matches files (sort_key fr_ordinal rows)"
    by (intro list_all2_all_nthI) (simp_all only: len rows_len)
  then show ?thesis
    by (simp add: file_rows_view sort_key_truncate t_def [symmetric] rows_def [symmetric] list_all2_map2
        row_matches_def [abs_def] source_file_row.truncate_def)
qed

lemma published_other_version:
  assumes "version \<noteq> v"
  shows "file_rows (inventory_view (published source v n now s) w) source version = []"
proof -
  have "filter (\<lambda>f. fr_source_id f = source \<and> fr_manifest_version f = version \<and> fr_available f) (map (\<lambda>f. if fr_source_id f = source
      then f\<lparr>fr_available := (fr_manifest_version f = v \<and> fr_ordinal f < int n)\<rparr> else f) xs) = []" for xs :: "inventory_file_row list"
    using assms by (induction xs) auto
  then show ?thesis by (simp add: file_rows_view published_files)
qed

lemma published_torrents:
  "iv_torrents (published source v n now s) = map (\<lambda>row. if qt_id row = source
     then row\<lparr>qt_manifest_version := v, qt_manifest_state := ''loaded'', qi_manifest_loaded_at := Some now\<rparr> else row) (iv_torrents s)"
  by (simp add: published_def update_torrents_def update_files_def)

section \<open>Publication\<close>

lemma set_manifest_state_all:
  "\<forall>r \<in> set (iv_torrents (set_manifest_state source state s)). qt_id r = source \<longrightarrow> qt_manifest_state r = state"
  using all_updated [of "\<lambda>row. qt_id row = source" "\<lambda>row. qt_manifest_state row = state" "\<lambda>row. row\<lparr>qt_manifest_state := state\<rparr>"
      "iv_torrents s"]
  by (simp add: set_manifest_state_def update_torrents_def del: set_map)

lemma set_manifest_state_versions:
  "map qt_manifest_version (iv_torrents (set_manifest_state source state s)) = map qt_manifest_version (iv_torrents s)"
  by (simp add: set_manifest_state_def update_torrents_def)

lemma load_manifest_Inr: "load_manifest env source s = (Inr n, t) \<Longrightarrow> load_manifest_inner env source s = (Inr n, t)"
  by (auto simp: load_manifest_def sync_then_Inr split: prod.splits sum.splits)

lemma load_manifest_Inl:
  assumes "load_manifest env source s = (Inl e, t)"
  obtains e' u where "load_manifest_inner env source s = (Inl e', u)" "t = u \<or> t = fail_qbit_manifest source u"
proof (cases "load_manifest_inner env source s")
  case (Pair r u)
  show ?thesis
  proof (cases r)
    case (Inl e')
    then have "sync_then (commit env FailManifest (\<lambda>s. Inr ((), fail_qbit_manifest source s))) (\<lambda>_ s. (Inl e', s)) u = (Inl e :: (sync_error, nat) result, t)"
      using assms Pair by (simp add: load_manifest_def)
    then have "t = u \<or> t = fail_qbit_manifest source u" by (auto simp: sync_then_Inl commit_Inr dest: commit_Inl)
    then show ?thesis using that Pair Inl by blast
  qed (use assms Pair in \<open>simp add: load_manifest_def\<close>)
qed

text \<open>
  C18: When the files of a source were loaded, the evaluation of candidates reads
  exactly the list that qBittorrent returned: the rows of the source under the next
  version of its manifest, in the order of their ordinals, are the files of the
  response one by one; no file of the source is visible under any other version; the
  torrents of the source carry that version and are marked as loaded; and what is
  visible of every other source is as before.
\<close>

theorem manifest_published:
  assumes "load_manifest env source s = (Inr n, t)" and "files_ok s"
  shows "\<exists>row body. source_row source s = Some row \<and> sy_torrent_files env (qi_qbit_id row) = Some body \<and>
     list_all2 row_matches (fst body)
       (sort_key fr_ordinal (file_rows (inventory_view t w) source (qt_manifest_version row + 1))) \<and>
     (\<forall>v. v \<noteq> qt_manifest_version row + 1 \<longrightarrow> file_rows (inventory_view t w) source v = []) \<and>
     (\<forall>r \<in> set (iv_torrents t). qt_id r = source \<longrightarrow>
        qt_manifest_version r = qt_manifest_version row + 1 \<and> qt_manifest_state r = ''loaded'') \<and>
     (\<forall>other v. other \<noteq> source \<longrightarrow> file_rows (inventory_view t w) other v = file_rows (inventory_view s w) other v)"
proof -
  obtain row body s2 where row: "source_row source s = Some row" "sy_torrent_files env (qi_qbit_id row) = Some body"
    "map vf_index (fst body) = [0..<n]"
    "upsert_files source (qt_manifest_version row + 1) (fst body) (prepared source (qt_manifest_version row + 1) s) = Inr s2"
    "t = published source (qt_manifest_version row + 1) n (sy_now env) s2"
    using load_manifest_inner_Inr [OF load_manifest_Inr [OF assms(1)]] by metis
  let ?v = "qt_manifest_version row + 1"
  note kept = staged_upsert_files [OF row(4), unfolded staged_def]
  have ok: "files_ok s2" using kept prepared_ok [OF assms(2)] by blast
  have "list_all2 row_matches (fst body) (sort_key fr_ordinal (file_rows (inventory_view t w) source ?v))"
    unfolding row(5) by (rule published_list [OF ok row(3)]) (use row(3) in \<open>auto intro: upsert_files_matches [OF row(4)]\<close>)
  moreover have "\<forall>r \<in> set (iv_torrents t). qt_id r = source \<longrightarrow> qt_manifest_version r = ?v \<and> qt_manifest_state r = ''loaded''"
    unfolding row(5) published_torrents by (rule all_updated) simp
  moreover have "file_rows (inventory_view t w) other v = file_rows (inventory_view s w) other v" if "other \<noteq> source" for other v
    unfolding row(5) published_rows_elsewhere [OF that]
    by (rule staged_rows [of source ?v]) (use kept filter_prepared that in auto)
  ultimately show ?thesis using row(1,2) published_other_version by (simp only: row(5)) blast
qed

text \<open>
  C37: When loading the files fails at any statement, nothing that was published is
  lost or replaced: every torrent keeps the version of its manifest, every version
  other than the one being staged has the same visible files as before, and the
  torrents of the source are as before or not marked as loaded, so that the next
  refresh tries again.
\<close>

theorem failed_manifest_publishes_nothing:
  assumes "load_manifest env source s = (Inl e, t)"
  shows "map qt_manifest_version (iv_torrents t) = map qt_manifest_version (iv_torrents s) \<and>
     (\<forall>other v. (\<forall>row. source_row source s = Some row \<longrightarrow> (other, v) \<noteq> (source, qt_manifest_version row + 1)) \<longrightarrow>
        file_rows (inventory_view t w) other v = file_rows (inventory_view s w) other v) \<and>
     (iv_torrents t = iv_torrents s \<or>
      (\<forall>r \<in> set (iv_torrents t). qt_id r = source \<longrightarrow> qt_manifest_state r \<in> {''loading'', ''stale''}))"
proof -
  obtain e' u where inner: "load_manifest_inner env source s = (Inl e', u)" and t: "t = u \<or> t = fail_qbit_manifest source u"
    using load_manifest_Inl [OF assms] .
  have u: "iv_torrents u = iv_torrents s \<or> iv_torrents u = iv_torrents (set_manifest_state source ''loading'' s)"
    using load_manifest_inner_Inl [OF inner]
    by (auto dest!: staged_upsert_files simp: staged_def prepared_def update_files_def)
  have rows: "file_rows (inventory_view u w) other v = file_rows (inventory_view s w) other v"
    if "\<forall>row. source_row source s = Some row \<longrightarrow> (other, v) \<noteq> (source, qt_manifest_version row + 1)" for other v
    using load_manifest_inner_Inl [OF inner]
  proof (elim disjE exE conjE)
    fix row sent assume "source_row source s = Some row"
      and sent: "upsert_files source (qt_manifest_version row + 1) sent (prepared source (qt_manifest_version row + 1) s) = Inr u"
    then have "other \<noteq> source \<or> v \<noteq> qt_manifest_version row + 1" using that by blast
    moreover have "filter (elsewhere source (qt_manifest_version row + 1)) (iv_files u) =
        filter (elsewhere source (qt_manifest_version row + 1)) (iv_files s)"
      using staged_upsert_files [OF sent] by (simp add: staged_def filter_prepared)
    ultimately show ?thesis by (rule staged_rows [rotated])
  qed simp
  have files: "file_rows (inventory_view t w) other v = file_rows (inventory_view u w) other v" for other v
    using t by (auto simp: file_rows_view fail_qbit_manifest_def set_manifest_state_files)
  have "map qt_manifest_version (iv_torrents t) = map qt_manifest_version (iv_torrents s)"
    using t u by (auto simp: fail_qbit_manifest_def set_manifest_state_versions)
  moreover have "iv_torrents t = iv_torrents s \<or>
      (\<forall>r \<in> set (iv_torrents t). qt_id r = source \<longrightarrow> qt_manifest_state r \<in> {''loading'', ''stale''})"
    using t u set_manifest_state_all [of source _ s] set_manifest_state_all [of source _ u]
    by (auto simp: fail_qbit_manifest_def)
  ultimately show ?thesis using rows files by simp
qed

section \<open>An example\<close>

definition sample_source :: source_id where
  "sample_source = ''0123456789abcdef''"

definition sample_list :: "inventory_file list" where
  "sample_list = [\<lparr>vf_index = 0, vf_name = ''a/b.mkv'', vf_size = 4, vf_progress = Some 0\<rparr>]"

definition sample_manifest_env :: "(sync_statement \<Rightarrow> bool) \<Rightarrow> sync_env" where
  "sample_manifest_env fault = (sample_sync_env [] fault)\<lparr>sy_torrent_files := (\<lambda>_. Some (sample_list, EndOk))\<rparr>"

definition sample_sources :: inventory_store where
  "sample_sources = sample_inventory\<lparr>iv_torrents := [sample_torrent_row\<lparr>qt_id := sample_source\<rparr>]\<rparr>"

lemma sample_parse_files: "parse_files MAX_FILES_PER_TORRENT (sample_list, EndOk) = (sample_list, Inr 1)"
  by (simp add: parse_files_def sample_list_def valid_file_def finish_body_def MAX_FILES_PER_TORRENT_def MAX_INVENTORY_PATH_BYTES_def)

definition sample_target :: manifest_target where
  "sample_target = \<lparr>mt_source_id = sample_source, mt_qbit_id = ''aa'', mt_version = 1\<rparr>"

lemma sample_manifest_env_simps:
  "sy_fault (sample_manifest_env fault) = fault" "sy_torrent_files (sample_manifest_env fault) q = Some (sample_list, EndOk)"
  "sy_database_batch_size (sample_manifest_env fault) = 5"
  by (simp_all add: sample_manifest_env_def sample_sync_env_def)

lemma sample_manifest_prepare:
  "prepare_qbit_manifest sample_source sample_sources = Inr (sample_target, prepared sample_source 1 sample_sources)"
  by (simp add: prepare_qbit_manifest_def sample_sources_def sample_torrent_row_def required_u64_def ok_or_def checked_add_def
      Qbit_Projection.to_i64_def prepared_def sample_target_def)

lemma sample_receive:
  "receive_files (sample_manifest_env fault) sample_target 0 [] 0 sample_list s = (Inr (0, sample_list, 1), s)"
  by (simp add: sample_list_def sample_manifest_env_simps)

lemma sample_manifest_project:
  "\<exists>t. project_qbit_files sample_target sample_list s = Inr t"
  "\<exists>t. finish_qbit_manifest sample_target 1 now s = Inr t"
  by (auto simp: project_qbit_files_def finish_qbit_manifest_def sample_target_def sample_source_def sample_list_def upsert_file_def
      Qbit_Projection.to_i64_def Let_def)

lemma sample_manifest_load:
  "\<exists>t. load_manifest (sample_manifest_env (\<lambda>_. False)) sample_source sample_sources = (Inr 1, t)"
  "\<exists>e t. load_manifest (sample_manifest_env (\<lambda>x. x = FinishManifest)) sample_source sample_sources = (Inl e, t)"
proof -
  obtain s1 where s1: "project_qbit_files sample_target sample_list (prepared sample_source 1 sample_sources) = Inr s1"
    using sample_manifest_project(1) by blast
  have list: "sample_list \<noteq> []" by (simp add: sample_list_def)
  note run = load_manifest_def load_manifest_inner_eq sync_then_def commit_def sample_manifest_env_simps sample_manifest_prepare
    load_list_def sample_parse_files sample_receive flush_files_def project_files_def s1 unit_of_def publish_files_def list
  obtain t where "finish_qbit_manifest sample_target 1 (sy_now (sample_manifest_env (\<lambda>_. False))) s1 = Inr t"
    using sample_manifest_project(2) by blast
  then show "\<exists>t. load_manifest (sample_manifest_env (\<lambda>_. False)) sample_source sample_sources = (Inr 1, t)"
    by (simp add: run)
  show "\<exists>e t. load_manifest (sample_manifest_env (\<lambda>x. x = FinishManifest)) sample_source sample_sources = (Inl e, t)"
    by (simp add: run)
qed

theorem manifest_published_witness:
  "\<exists>t. load_manifest (sample_manifest_env (\<lambda>_. False)) sample_source sample_sources = (Inr 1, t) \<and>
     length (file_rows (inventory_view t pending_workflow_store) sample_source 1) = 1"
proof -
  obtain t where t: "load_manifest (sample_manifest_env (\<lambda>_. False)) sample_source sample_sources = (Inr 1, t)"
    using sample_manifest_load(1) by blast
  have "files_ok sample_sources" by (simp add: files_ok_def sample_sources_def sample_inventory_def)
  moreover have "source_row sample_source sample_sources = Some (sample_torrent_row\<lparr>qt_id := sample_source\<rparr>)"
    by (simp add: source_row_def sample_sources_def sample_torrent_row_def)
  ultimately have "list_all2 row_matches sample_list
      (sort_key fr_ordinal (file_rows (inventory_view t pending_workflow_store) sample_source 1))"
    using manifest_published [OF t, of pending_workflow_store] by (simp add: sample_manifest_env_def sample_torrent_row_def)
  from list_all2_lengthD [OF this] show ?thesis using t by (auto simp: sample_list_def)
qed

theorem failed_manifest_publishes_nothing_witness:
  "\<exists>e t. load_manifest (sample_manifest_env (\<lambda>x. x = FinishManifest)) sample_source sample_sources = (Inl e, t) \<and>
     map qt_manifest_version (iv_torrents t) = [0]"
proof -
  obtain e t where t: "load_manifest (sample_manifest_env (\<lambda>x. x = FinishManifest)) sample_source sample_sources = (Inl e, t)"
    using sample_manifest_load(2) by blast
  have "map qt_manifest_version (iv_torrents sample_sources) = [0]" by (simp add: sample_sources_def sample_torrent_row_def)
  then show ?thesis using failed_manifest_publishes_nothing [OF t] t by auto
qed

end
