(* ===== verification/Retry.thy ===== *)
theory Retry
  imports Prelude "HOL-Library.Word"
begin

text \<open>
  The retry schedule, \<open>crates/sporos-service/src/retry.rs\<close>.  A \<open>Duration\<close> is its
  number of nanoseconds, at most \<open>Duration::MAX\<close>; the seed is a 64-bit word, and
  \<open>None\<close> is a panic.
\<close>

unbundle bit_operations_syntax

section \<open>Durations and hashes\<close>

definition DURATION_MAX :: nat where "DURATION_MAX = u64_max * 1000000000 + 999999999"
definition JITTER_PERCENT :: nat where "JITTER_PERCENT = 20"

definition mix :: "64 word \<Rightarrow> 64 word" where
  "mix value =
     (let value = value + 0x9e3779b97f4a7c15;
          value = (value XOR drop_bit 30 value) * 0xbf58476d1ce4e5b9;
          value = (value XOR drop_bit 27 value) * 0x94d049bb133111eb
      in value XOR drop_bit 31 value)"

definition hash_byte :: "64 word \<Rightarrow> char \<Rightarrow> 64 word" where
  "hash_byte seed byte = (seed XOR of_nat (of_char byte)) * 0x100000001b3"

definition hash_key :: "string list \<Rightarrow> 64 word" where
  "hash_key key = fold (\<lambda>part seed. foldl hash_byte seed (part @ [CHR 0x00])) key 0xcbf29ce484222325"

text \<open>\<open>Duration::new\<close> of a number of nanoseconds; both conversions may panic.\<close>

definition from_nanos :: "nat \<Rightarrow> nat option" where
  "from_nanos nanos =
     (if nanos div 1000000000 > u64_max \<or> nanos mod 1000000000 > u32_max then None else Some nanos)"

definition deterministic :: "nat \<Rightarrow> nat \<Rightarrow> nat \<Rightarrow> string list \<Rightarrow> nat option" where
  "deterministic base max_delay attempt key =
     (let factor = 2 ^ min (attempt - 1) 31;
          delay = min (saturating_mul DURATION_MAX base factor) max_delay;
          random = unat (mix (hash_key key XOR of_nat attempt));
          window = saturating_mul u128_max delay JITTER_PERCENT div 100;
          offset = saturating_mul u128_max window random div u64_max
      in if delay < window then None else from_nanos (delay - window + offset))"

section \<open>The backoff\<close>

record backoff =
  bo_base :: nat
  bo_max :: nat
  bo_failures :: nat
  bo_seed :: "64 word"

definition le_bytes :: "64 word \<Rightarrow> string" where
  "le_bytes seed = map (\<lambda>i. char_of (unat seed div 256 ^ i)) [0..<8]"

definition with_seed :: "nat \<Rightarrow> nat \<Rightarrow> 64 word \<Rightarrow> backoff option" where
  "with_seed base max_delay seed =
     (if base = 0 \<or> max_delay < base then None
      else Some \<lparr> bo_base = base, bo_max = max_delay, bo_failures = 0, bo_seed = seed \<rparr>)"

definition backoff_fail :: "backoff \<Rightarrow> (nat \<times> backoff) option" where
  "backoff_fail b =
     (let b' = b\<lparr>bo_failures := saturating_add u32_max (bo_failures b) 1\<rparr>
      in case deterministic (bo_base b') (bo_max b') (bo_failures b') [le_bytes (bo_seed b')] of
           None \<Rightarrow> None
         | Some delay \<Rightarrow> Some (delay, b'))"

definition backoff_reset :: "backoff \<Rightarrow> backoff" where
  "backoff_reset b = b\<lparr>bo_failures := 0\<rparr>"

text \<open>The delays of consecutive failures.\<close>

fun failures_in_a_row :: "nat \<Rightarrow> backoff \<Rightarrow> (nat list \<times> backoff) option" where
  "failures_in_a_row 0 b = Some ([], b)"
| "failures_in_a_row (Suc n) b =
     (case backoff_fail b of
        None \<Rightarrow> None
      | Some (delay, b') \<Rightarrow>
          (case failures_in_a_row n b' of
             None \<Rightarrow> None
           | Some (delays, b'') \<Rightarrow> Some (delay # delays, b'')))"

section \<open>Lemmas\<close>

lemma scaled_offset:
  fixes window random limit :: nat
  assumes "random \<le> scale" and "0 < scale"
  shows "min limit (window * random) div scale \<le> window"
proof -
  have "min limit (window * random) \<le> window * scale"
    by (rule min.coboundedI2) (rule mult_le_mono2 [OF assms(1)])
  then have "min limit (window * random) div scale \<le> window * scale div scale" by (rule div_le_mono)
  then show ?thesis using assms(2) by simp
qed

definition schedule :: "nat \<Rightarrow> nat \<Rightarrow> nat \<Rightarrow> nat" where
  "schedule base max_delay attempt = min (base * 2 ^ min (attempt - 1) 31) max_delay"

lemma deterministic_bounds:
  assumes "max_delay \<le> DURATION_MAX"
  shows "\<exists>d. deterministic base max_delay attempt key = Some d \<and> d \<le> schedule base max_delay attempt \<and>
    schedule base max_delay attempt * 80 \<le> d * 100"
proof -
  define delay where "delay = min (saturating_mul DURATION_MAX base (2 ^ min (attempt - 1) 31)) max_delay"
  have delay: "delay = schedule base max_delay attempt" "delay \<le> DURATION_MAX"
    using assms by (auto simp: delay_def schedule_def saturating_mul_def min_def)
  have small: "delay * 20 \<le> u128_max" using delay(2) by (simp add: DURATION_MAX_def)
  define window where "window = delay * 20 div 100"
  have w: "window \<le> delay" "window * 100 \<le> delay * 20" by (simp_all add: window_def)
  define random where "random = unat (mix (hash_key key XOR of_nat attempt))"
  have r: "random \<le> u64_max" using unsigned_less [of "mix (hash_key key XOR of_nat attempt)", where 'a = nat]
    by (simp add: random_def)
  define offset where "offset = saturating_mul u128_max window random div u64_max"
  have o: "offset \<le> window" unfolding offset_def saturating_mul_def by (rule scaled_offset [OF r]) simp
  have le: "delay - window + offset \<le> delay" using o w(1) by simp
  then have "(delay - window + offset) div 1000000000 \<le> DURATION_MAX div 1000000000"
    using delay(2) by (intro div_le_mono) simp
  also have "\<dots> = u64_max" by (simp add: DURATION_MAX_def)
  finally have secs: "(delay - window + offset) div 1000000000 \<le> u64_max" .
  have nanos: "(delay - window + offset) mod 1000000000 < 1000000000" by simp
  have win: "saturating_mul u128_max delay JITTER_PERCENT div 100 = window"
    unfolding saturating_mul_def JITTER_PERCENT_def window_def min.absorb2 [OF small] ..
  have "deterministic base max_delay attempt key = from_nanos (delay - window + offset)"
    unfolding deterministic_def Let_def delay_def [symmetric] random_def [symmetric] win offset_def [symmetric]
    by (rule if_not_P) (use w(1) in linarith)
  also have "\<dots> = Some (delay - window + offset)"
    using secs nanos unfolding from_nanos_def by (simp only: not_less [symmetric]) simp
  finally have "deterministic base max_delay attempt key = Some (delay - window + offset)" .
  moreover have "delay * 80 \<le> (delay - window + offset) * 100" using w by simp
  ultimately show ?thesis using le delay(1) by auto
qed


lemma backoff_fail_bounds:
  assumes "bo_max b \<le> DURATION_MAX"
  shows "\<exists>d. backoff_fail b = Some (d, b\<lparr>bo_failures := min u32_max (bo_failures b + 1)\<rparr>) \<and>
    d \<le> schedule (bo_base b) (bo_max b) (min u32_max (bo_failures b + 1)) \<and>
    schedule (bo_base b) (bo_max b) (min u32_max (bo_failures b + 1)) * 80 \<le> d * 100"
  using deterministic_bounds [OF assms, of "bo_base b" "min u32_max (bo_failures b + 1)" "[le_bytes (bo_seed b)]"]
  by (auto simp: backoff_fail_def saturating_add_def Let_def)

lemma failures_in_a_row_bounds:
  assumes "bo_max b \<le> DURATION_MAX" and "bo_failures b + n \<le> u32_max"
  shows "\<exists>delays. failures_in_a_row n b = Some (delays, b\<lparr>bo_failures := bo_failures b + n\<rparr>) \<and> length delays = n \<and>
    (\<forall>i < n. delays ! i \<le> schedule (bo_base b) (bo_max b) (bo_failures b + i + 1) \<and>
      schedule (bo_base b) (bo_max b) (bo_failures b + i + 1) * 80 \<le> delays ! i * 100)"
  using assms
proof (induction n arbitrary: b)
  case (Suc n)
  define b' where "b' = b\<lparr>bo_failures := bo_failures b + 1\<rparr>"
  have cap: "min u32_max (bo_failures b + 1) = bo_failures b + 1" using Suc.prems(2) by simp
  obtain d where d: "backoff_fail b = Some (d, b')"
    "d \<le> schedule (bo_base b) (bo_max b) (bo_failures b + 1)" "schedule (bo_base b) (bo_max b) (bo_failures b + 1) * 80 \<le> d * 100"
    using backoff_fail_bounds [OF Suc.prems(1)] unfolding cap b'_def by blast
  have "bo_max b' \<le> DURATION_MAX" "bo_failures b' + n \<le> u32_max" using Suc.prems by (simp_all add: b'_def)
  from Suc.IH [OF this] obtain delays where r: "failures_in_a_row n b' = Some (delays, b'\<lparr>bo_failures := bo_failures b' + n\<rparr>)"
    "length delays = n" "\<forall>i < n. delays ! i \<le> schedule (bo_base b') (bo_max b') (bo_failures b' + i + 1) \<and>
      schedule (bo_base b') (bo_max b') (bo_failures b' + i + 1) * 80 \<le> delays ! i * 100" by blast
  have "(d # delays) ! i \<le> schedule (bo_base b) (bo_max b) (bo_failures b + i + 1) \<and>
      schedule (bo_base b) (bo_max b) (bo_failures b + i + 1) * 80 \<le> (d # delays) ! i * 100" if "i < Suc n" for i
    using that d(2,3) r(3) by (cases i) (auto simp: b'_def)
  then show ?case using d(1) r(1,2) by (auto simp: b'_def intro!: exI [of _ "d # delays"])
qed simp

section \<open>Properties\<close>

text \<open>
  A backoff never panics, and its delays follow the schedule: after a reset, or
  when it is new, the k-th failure in a row waits at most \<open>base * 2 ^ (k - 1)\<close>,
  never more than the maximum, and at least 80 percent of that.
\<close>

lemma backoff_schedule:
  assumes "with_seed base max_delay seed = Some fresh" and "max_delay \<le> DURATION_MAX" and "n \<le> u32_max"
    and "b = fresh \<or> b = backoff_reset (fresh\<lparr>bo_failures := k\<rparr>)"
  shows "\<exists>delays b'. failures_in_a_row n b = Some (delays, b') \<and> length delays = n \<and>
    (\<forall>i < n. delays ! i \<le> min (base * 2 ^ min i 31) max_delay \<and>
      min (base * 2 ^ min i 31) max_delay * 80 \<le> delays ! i * 100)"
proof -
  have b: "bo_base b = base" "bo_max b = max_delay" "bo_failures b = 0"
    using assms(1,4) by (auto simp: with_seed_def backoff_reset_def split: if_splits)
  have "bo_max b \<le> DURATION_MAX" "bo_failures b + n \<le> u32_max" using assms(2,3) b by simp_all
  from failures_in_a_row_bounds [OF this] show ?thesis by (auto simp: b schedule_def)
qed

end
