(* ===== verification/Search.thy ===== *)
theory Search
  imports Qbit_Projection Retry
begin

text \<open>
  Prowlarr searches, \<open>crates/sporos-service/src/search.rs\<close>, with the query of an
  indexer of \<open>prowlarr.rs\<close>: a completion or a backfill produces one search task for
  each source and indexer; the task asks Prowlarr, filters the results, downloads the
  plausible ones and submits them as candidates; a limit on every indexer keeps the
  requests apart.

  Every statement outside a transaction is committed on its own and may fail, which
  \<open>sx_fault\<close> decides; a function on the store to a result is one transaction.  The
  answers of Prowlarr, the encodings of \<open>serde_json\<close> and the effect of the Arr
  enrichment on the release of the source are parameters.  The columns
  \<open>operation_id\<close> of a task and \<open>last_reported_cursor\<close> of an operation, which only
  these statements write, are tables of their own.
\<close>

section \<open>Data\<close>

definition SEARCH_NAME :: string where "SEARCH_NAME = ''SearchSourceIndexer''"
definition SEARCH_VERSION :: string where "SEARCH_VERSION = ''1.0.0''"
definition BACKFILL_NAME :: string where "BACKFILL_NAME = ''ProduceInventorySearch''"
definition BACKFILL_VERSION :: string where "BACKFILL_VERSION = ''1.0.0''"
definition BACKFILL_PAGE_SIZE :: nat where "BACKFILL_PAGE_SIZE = 100"
definition MIN_REQUEST_GAP_MS :: int where "MIN_REQUEST_GAP_MS = 1000"
definition SEARCH_RETRY_BASE :: nat where "SEARCH_RETRY_BASE = 1000000000"
definition SEARCH_RETRY_MAX :: nat where "SEARCH_RETRY_MAX = 5 * 60 * 1000000000"

type_synonym attempt_id = string
type_synonym operation_id = string
type_synonym search_policy = candidate_ingress

definition with_dry_run :: "bool \<Rightarrow> search_policy \<Rightarrow> search_policy" where
  "with_dry_run dry_run policy =
     policy\<lparr>ci_injection := (ci_injection policy)\<lparr>ij_dry_run := ij_dry_run (ci_injection policy) \<or> dry_run\<rparr>\<rparr>"

record search_input =
  xi_task_id :: task_id
  xi_attempt_id :: attempt_id
  xi_source_id :: source_id
  xi_indexer_id :: int
  xi_policy_snapshot_id :: policy_snapshot_id
  xi_trigger :: string

datatype search_outcome =
    SearchComplete
  | SearchWaiting int nat
  | SearchFailed string

record backfill_selection =
  bs_hashes :: "string list"
  bs_include_categories :: "string list"
  bs_exclude_categories :: "string list"
  bs_include_tags :: "string list"
  bs_exclude_tags :: "string list"

record backfill_input =
  bi_operation_id :: operation_id
  bi_task_id :: task_id
  bi_policy_snapshot_id :: policy_snapshot_id
  bi_selection :: backfill_selection
  bi_indexer_ids :: "int list"
  bi_cursor :: "source_id option"

record backfill_page_result =
  bp_next_cursor :: "source_id option"
  bp_done :: bool

record accepted_backfill =
  ab_operation_id :: operation_id
  ab_task_id :: task_id
  ab_duplicate :: bool

record torznab_result =
  tr_title :: string
  tr_guid :: "string option"
  tr_download_url :: string
  tr_size :: "nat option"

datatype prowlarr_error =
    PwInvalidApiKey | PwClient | PwRequest | PwHttpStatus nat | PwRateLimited "nat option" | PwResponseTooLarge nat
  | PwMalformed | PwMalformedField | PwUnknownTag string | PwAmbiguousTag string | PwUnsafeDownloadUrl
  | PwRedirectRejected | PwTorznab | PwDatabase | PwJson

datatype search_error =
    SxDatabase | SxJson | SxProwlarr prowlarr_error | SxCandidate intake_error | SxDurableIngress ingress_error
  | SourceUnavailable | InvalidStoredId | StoredRange | SxPanic

record indexer_row =
  ix_id :: int
  ix_name :: string
  ix_priority :: int
  ix_capabilities_json :: string
  ix_eligible :: bool

record search_data_row = data_source_row +
  sd_total_size :: int

record search_attempt =
  sa_id :: attempt_id
  sa_source_id :: source_id
  sa_indexer_id :: int
  sa_query_fingerprint :: string
  sa_policy_snapshot_id :: policy_snapshot_id
  sa_trigger :: string
  sa_state :: string
  sa_results_seen :: nat
  sa_results_downloaded :: nat
  sa_next_eligible_at :: "int option"
  sa_reason_code :: "string option"
  sa_created_at :: int
  sa_completed_at :: "int option"
  sa_task_id :: task_id
  sa_dependency_attempts :: nat

record result_summary =
  rs_fingerprint :: string
  rs_title :: string
  rs_size :: "nat option"
  rs_state :: string
  rs_candidate_id :: "candidate_id option"

record rate_limit =
  rl_next_eligible_at :: int
  rl_updated_at :: int

record search_store =
  se_intake :: candidate_store
  se_torrents :: "inventory_row list"
  se_data :: "search_data_row list"
  se_indexers :: "indexer_row list"
  se_limits :: "int \<Rightarrow> rate_limit option"
  se_attempts :: "search_attempt list"
  se_summaries :: "attempt_id \<times> nat \<Rightarrow> result_summary option"
  se_task_operations :: "task_id \<Rightarrow> operation_id option"
  se_cursors :: "operation_id \<Rightarrow> source_id option"

text \<open>\<open>xc_capabilities\<close> reads a JSON object and gives the strings of the array in a field.\<close>

record search_codec =
  xc_candidate :: candidate_codec
  xc_policy :: "search_policy \<Rightarrow> string"
  xc_read_policy :: "string \<Rightarrow> search_policy option"
  xc_input :: "search_input \<Rightarrow> string"
  xc_backfill_input :: "backfill_input \<Rightarrow> string"
  xc_request :: "backfill_selection \<Rightarrow> int list \<Rightarrow> bool \<Rightarrow> string"
  xc_release :: "string \<Rightarrow> release_descriptor option"
  xc_tags :: "string \<Rightarrow> string list option"
  xc_capabilities :: "string \<Rightarrow> (string \<Rightarrow> string list) option"
  xc_completion_detail :: "source_id \<Rightarrow> int \<Rightarrow> nat \<Rightarrow> string"
  xc_error_text :: "prowlarr_error \<Rightarrow> string"

datatype search_statement =
    LoadIndexerName | LoadPolicy | LoadTorrent | LoadData | LoadCapabilities | ClaimIndexer | MarkTask | MarkAttempt
  | ReadAttempts | RaiseLimit | WaitAttempt | WaitTask | FinishAttempt | FinishTask | Summarize nat string
  | AcceptCandidate nat | LoadCandidatePolicy nat

text \<open>
  \<open>sx_now\<close> is the clock that the activity reads when it begins; the claim of the
  indexer and the request come later, after the permits and the enrichment.
  \<open>sx_clock\<close> is the clock that is read when the task of the search is set to wait.
\<close>

record search_env =
  sx_fault :: "search_statement \<Rightarrow> bool"
  sx_codec :: search_codec
  sx_unicode :: unicode
  sx_enrichment :: "source_id \<Rightarrow> string option"
  sx_search :: "int \<Rightarrow> (string \<times> string) list \<Rightarrow> (prowlarr_error, torznab_result list) result"
  sx_download :: "int \<Rightarrow> string \<Rightarrow> (prowlarr_error, string) result"
  sx_now :: int
  sx_clock :: int

type_synonym 'a searching = "search_store \<Rightarrow> (search_error, 'a) result \<times> search_store"

definition search_then :: "'a searching \<Rightarrow> ('a \<Rightarrow> 'b searching) \<Rightarrow> 'b searching" where
  "search_then m f s = (case m s of (Inl e, t) \<Rightarrow> (Inl e, t) | (Inr x, t) \<Rightarrow> f x t)"

definition search_return :: "'a \<Rightarrow> 'a searching" where
  "search_return x s = (Inr x, s)"

definition search_fail :: "search_error \<Rightarrow> 'a searching" where
  "search_fail e s = (Inl e, s)"

definition statement ::
  "search_env \<Rightarrow> search_statement \<Rightarrow> (search_store \<Rightarrow> (search_error, 'a \<times> search_store) result) \<Rightarrow> 'a searching" where
  "statement env st f s =
     (if sx_fault env st then (Inl SxDatabase, s) else case f s of Inl e \<Rightarrow> (Inl e, s) | Inr (x, t) \<Rightarrow> (Inr x, t))"

definition reading :: "search_env \<Rightarrow> search_statement \<Rightarrow> (search_store \<Rightarrow> (search_error, 'a) result) \<Rightarrow> 'a searching" where
  "reading env st f = statement env st (\<lambda>s. and_then (f s) (\<lambda>x. Inr (x, s)))"

definition writing :: "search_env \<Rightarrow> search_statement \<Rightarrow> (search_store \<Rightarrow> search_store) \<Rightarrow> unit searching" where
  "writing env st f = statement env st (\<lambda>s. Inr ((), f s))"

definition se_tasks :: "search_store \<Rightarrow> task_store" where
  "se_tasks s = cs_tasks (se_intake s)"

definition map_tasks :: "(task_store \<Rightarrow> task_store) \<Rightarrow> search_store \<Rightarrow> search_store" where
  "map_tasks f s = s\<lparr>se_intake := (se_intake s)\<lparr>cs_tasks := f (cs_tasks (se_intake s))\<rparr>\<rparr>"

definition sha256_of :: "search_codec \<Rightarrow> string \<Rightarrow> string" where
  "sha256_of c = cd_sha256 (kc_codec (xc_candidate c))"

text \<open>\<open>i64::saturating_add\<close>.\<close>

definition sat_i64 :: "int \<Rightarrow> int" where
  "sat_i64 x = max (- (2 ^ 63)) (min (2 ^ 63 - 1) x)"

section \<open>Pure functions\<close>

definition plausibility :: "unicode \<Rightarrow> release_descriptor \<Rightarrow> nat \<Rightarrow> torznab_result \<Rightarrow> (string, unit) result" where
  "plausibility u source source_bytes result =
     (if tr_size result = Some 0 then Inl ''empty_result''
      else if (case tr_size result of None \<Rightarrow> False | Some n \<Rightarrow> n < source_bytes div 20) then Inl ''result_too_small''
      else let candidate = parse_release u (tr_title result)
        in if rd_primary_title candidate \<noteq> rd_primary_title source then Inl ''title_mismatch''
           else if rd_year candidate \<noteq> None \<and> rd_year source \<noteq> None \<and> rd_year candidate \<noteq> rd_year source
           then Inl ''year_mismatch''
           else Inr ())"

definition source_allowed :: "string \<Rightarrow> string list \<Rightarrow> source_filters \<Rightarrow> bool" where
  "source_allowed category tags filters \<longleftrightarrow>
     (sf_include_categories filters = [] \<or> category \<in> set (sf_include_categories filters)) \<and>
     category \<notin> set (sf_exclude_categories filters) \<and>
     (sf_include_tags filters = [] \<or> list_ex (\<lambda>value. value \<in> set tags) (sf_include_tags filters)) \<and>
     \<not> list_ex (\<lambda>value. value \<in> set tags) (sf_exclude_tags filters) \<and>
     (\<not> sf_exclude_sporos_managed filters \<or> \<not> list_ex (prefix ''sporos'') tags)"

definition backfill_selected :: "search_codec \<Rightarrow> inventory_row \<Rightarrow> backfill_selection \<Rightarrow> (search_error, bool) result" where
  "backfill_selected c row selection =
     and_then (ok_or SxJson (xc_tags c (qt_tags_json row))) (\<lambda>tags.
       Inr ((bs_hashes selection = [] \<or>
             list_ex (\<lambda>hash. list_ex (\<lambda>value. value = encode_hex hash) (bs_hashes selection))
               (List.map_filter id [qt_v1_hash row, qt_v2_hash row])) \<and>
           (bs_include_categories selection = [] \<or> qt_category row \<in> set (bs_include_categories selection)) \<and>
           qt_category row \<notin> set (bs_exclude_categories selection) \<and>
           (bs_include_tags selection = [] \<or> list_ex (\<lambda>tag. tag \<in> set tags) (bs_include_tags selection)) \<and>
           \<not> list_ex (\<lambda>tag. tag \<in> set tags) (bs_exclude_tags selection) \<and>
           \<not> list_ex (prefix ''sporos'') tags))"

definition result_fingerprint :: "search_codec \<Rightarrow> torznab_result \<Rightarrow> string" where
  "result_fingerprint c result =
     sha256_of c (tr_title result @ [CHR 0x00] @ default_bytes (tr_guid result) @
       be_bytes 8 (case tr_size result of None \<Rightarrow> 0 | Some n \<Rightarrow> n))"

definition candidate_rejected :: "intake_error \<Rightarrow> bool" where
  "candidate_rejected e \<longleftrightarrow> (case e of
     ManifestError _ \<Rightarrow> True | InvalidUtf8Name \<Rightarrow> True | InvalidTorrent _ \<Rightarrow> True | _ \<Rightarrow> False)"

definition search_identity :: "search_codec \<Rightarrow> source_id \<Rightarrow> int \<Rightarrow> policy_snapshot_id \<Rightarrow> string \<Rightarrow> string" where
  "search_identity c source indexer policy trigger =
     sha256_of c (''search-attempt-v1'' @ source @ i64_bytes indexer @ policy @ trigger)"

definition id16_from_vec :: "string \<Rightarrow> (search_error, source_id) result" where
  "id16_from_vec value = (if length value = 16 then Inr value else Inl InvalidStoredId)"

definition retryable_status :: "nat \<Rightarrow> bool" where
  "retryable_status status \<longleftrightarrow> 500 \<le> status \<and> status < 600 \<or> status = 408 \<or> status = 429"

definition retryable_prowlarr :: "prowlarr_error \<Rightarrow> bool" where
  "retryable_prowlarr e \<longleftrightarrow> (case e of
     PwRequest \<Rightarrow> True | PwRateLimited _ \<Rightarrow> True | PwHttpStatus status \<Rightarrow> retryable_status status | PwDatabase \<Rightarrow> True | _ \<Rightarrow> False)"

text \<open>Whether the engine delivers the activity again, and the code of the failure.\<close>

definition activity_failure :: "search_error \<Rightarrow> bool \<times> string" where
  "activity_failure e = (case e of
     SxDatabase \<Rightarrow> (True, ''search_storage_unavailable'')
   | SxDurableIngress _ \<Rightarrow> (True, ''search_storage_unavailable'')
   | SxCandidate _ \<Rightarrow> (True, ''search_storage_unavailable'')
   | SxProwlarr p \<Rightarrow> if retryable_prowlarr p then (True, ''prowlarr_unavailable'') else (False, ''invalid_search_state'')
   | _ \<Rightarrow> (False, ''invalid_search_state''))"

section \<open>Queries\<close>

definition query_kind :: "video_kind \<Rightarrow> string \<times> string" where
  "query_kind kind =
     (case kind of
        Movie \<Rightarrow> (''movie'', ''movieSearchParams'')
      | Episode \<Rightarrow> (''tvsearch'', ''tvSearchParams'')
      | SeasonPack \<Rightarrow> (''tvsearch'', ''tvSearchParams'')
      | DateEpisode \<Rightarrow> (''tvsearch'', ''tvSearchParams'')
      | AbsoluteEpisode \<Rightarrow> (''tvsearch'', ''tvSearchParams'')
      | _ \<Rightarrow> (''search'', ''searchParams''))"

definition external_query :: "string list \<Rightarrow> arr_identity option \<Rightarrow> (string \<times> string) option" where
  "external_query supported arr =
     (case arr of
        None \<Rightarrow> None
      | Some i \<Rightarrow>
          (case find (\<lambda>(name, value). name \<in> set supported \<and> value \<noteq> None)
             [(''imdbid'', ai_imdb_id i), (''tvdbid'', map_option int_text (ai_tvdb_id i)),
              (''tmdbid'', map_option int_text (ai_tmdb_id i))] of
             Some (name, Some value) \<Rightarrow> Some (name, value)
           | _ \<Rightarrow> None))"

definition for_release :: "release_descriptor \<Rightarrow> (string \<Rightarrow> string list) \<Rightarrow> (string \<times> string) list option" where
  "for_release release capabilities =
     (let (kind, field) = query_kind (rd_kind release);
          supported = capabilities field;
          external = external_query supported (rd_arr_identity release)
      in if external = None \<and> ''q'' \<notin> set supported then None
         else Some ([(''t'', kind)] @
           [case external of Some parameter \<Rightarrow> parameter | None \<Rightarrow> (''q'', as_str (rd_primary_title release))] @
           List.map_filter (\<lambda>(name, value). if name \<in> set supported then map_option (Pair name) value else None)
             [(''year'', map_option decimal (rd_year release)), (''season'', map_option decimal (rd_season release)),
              (''ep'', map_option decimal (rd_episode release))] @
           [(''extended'', ''1'')]))"

definition eligible_row :: "int \<Rightarrow> search_store \<Rightarrow> indexer_row option" where
  "eligible_row indexer s = find (\<lambda>row. ix_id row = indexer \<and> ix_eligible row) (se_indexers s)"

definition indexer_query ::
  "search_env \<Rightarrow> int \<Rightarrow> release_descriptor \<Rightarrow> (string \<times> string) list option searching" where
  "indexer_query env indexer release s =
     (if sx_fault env LoadCapabilities then Inl (SxProwlarr PwDatabase)
      else case eligible_row indexer s of
             None \<Rightarrow> Inr None
           | Some row \<Rightarrow>
               and_then (ok_or (SxProwlarr PwJson) (xc_capabilities (sx_codec env) (ix_capabilities_json row))) (\<lambda>capabilities.
                 Inr (for_release release capabilities)), s)"

section \<open>Producing search tasks\<close>

definition release_json_of :: "source_id \<Rightarrow> search_store \<Rightarrow> string option" where
  "release_json_of source s =
     (case Option.bind (find (\<lambda>row. qt_id row = source \<and> qt_available row \<and> qt_is_complete row) (se_torrents s)) qt_release_json of
        Some json \<Rightarrow> Some json
      | None \<Rightarrow> Option.bind (find (\<lambda>row. da_id row = source \<and> da_available row) (se_data s)) da_release_json)"

definition policy_of :: "search_codec \<Rightarrow> search_policy \<Rightarrow> int \<Rightarrow> policy_snapshot" where
  "policy_of c policy now =
     (let json = xc_policy c policy; hash = sha256_of c json
      in \<lparr> ps_id = first_16 hash, ps_config_hash = hash, ps_matcher_version = MATCHER_VERSION, ps_payload_json = json,
           ps_created_at = now \<rparr>)"

definition search_task :: "search_codec \<Rightarrow> source_id \<Rightarrow> int \<Rightarrow> search_policy \<Rightarrow> string \<Rightarrow> int \<Rightarrow> new_task" where
  "search_task c source indexer policy trigger now =
     (let snapshot = policy_of c policy now;
          digest = search_identity c source indexer (ps_id snapshot) trigger;
          task = first_16 (sha256_of c (''search-task-v1'' @ digest))
      in \<lparr> nt_id = task, nt_key = digest, nt_kind = ''search_source_indexer'', nt_policy = snapshot,
           nt_orchestration_name = SEARCH_NAME, nt_orchestration_version = SEARCH_VERSION,
           nt_instance_id = ''search-v1:'' @ encode_hex (first_16 digest),
           nt_input_json = xc_input c \<lparr> xi_task_id = task, xi_attempt_id = first_16 digest, xi_source_id = source,
             xi_indexer_id = indexer, xi_policy_snapshot_id = ps_id snapshot, xi_trigger = trigger \<rparr>,
           nt_created_at = now \<rparr>)"

definition queued_attempt :: "search_codec \<Rightarrow> source_id \<Rightarrow> int \<Rightarrow> search_policy \<Rightarrow> string \<Rightarrow> int \<Rightarrow> string \<Rightarrow> search_attempt" where
  "queued_attempt c source indexer policy trigger now release_json =
     (let task = search_task c source indexer policy trigger now
      in \<lparr> sa_id = first_16 (nt_key task), sa_source_id = source, sa_indexer_id = indexer,
           sa_query_fingerprint = sha256_of c release_json, sa_policy_snapshot_id = ps_id (nt_policy task),
           sa_trigger = trigger, sa_state = ''queued'', sa_results_seen = 0, sa_results_downloaded = 0,
           sa_next_eligible_at = None, sa_reason_code = None, sa_created_at = now, sa_completed_at = None,
           sa_task_id = nt_id task, sa_dependency_attempts = 0 \<rparr>)"

text \<open>The two unique indexes of the table beside its primary key.\<close>

definition attempt_conflict :: "search_attempt \<Rightarrow> search_attempt \<Rightarrow> bool" where
  "attempt_conflict a b \<longleftrightarrow> sa_task_id a = sa_task_id b \<or>
     sa_source_id a = sa_source_id b \<and> sa_indexer_id a = sa_indexer_id b \<and> sa_query_fingerprint a = sa_query_fingerprint b \<and>
     sa_policy_snapshot_id a = sa_policy_snapshot_id b \<and> sa_trigger a = sa_trigger b"

definition insert_attempt :: "search_attempt \<Rightarrow> search_store \<Rightarrow> (search_error, search_store) result" where
  "insert_attempt attempt s =
     (if list_ex (\<lambda>a. sa_id a = sa_id attempt) (se_attempts s) then Inr s
      else if list_ex (attempt_conflict attempt) (se_attempts s) then Inl SxDatabase
      else Inr (s\<lparr>se_attempts := se_attempts s @ [attempt]\<rparr>))"

definition set_operation :: "task_id \<Rightarrow> operation_id option \<Rightarrow> search_store \<Rightarrow> search_store" where
  "set_operation task operation s =
     (if se_task_operations s task = None
      then s\<lparr>se_task_operations := (se_task_operations s)(task := operation)\<rparr> else s)"

definition accept_in ::
  "search_codec \<Rightarrow> source_id \<Rightarrow> int \<Rightarrow> search_policy \<Rightarrow> string \<Rightarrow> operation_id option \<Rightarrow> int \<Rightarrow> search_store \<Rightarrow>
   (search_error, bool \<times> search_store) result" where
  "accept_in c source indexer policy trigger operation now s =
     and_then (ok_or SourceUnavailable (release_json_of source s)) (\<lambda>release_json.
     let task = search_task c source indexer policy trigger now
     in and_then (map_err SxDurableIngress (accept_task_in (kc_codec (xc_candidate c)) task (se_tasks s))) (\<lambda>(inserted, tasks).
        and_then (insert_attempt (queued_attempt c source indexer policy trigger now release_json)
          (set_operation (nt_id task) operation (map_tasks (\<lambda>_. tasks) s))) (\<lambda>s'. Inr (inserted, s'))))"

fun accept_searches ::
  "search_codec \<Rightarrow> source_id \<Rightarrow> search_policy \<Rightarrow> string \<Rightarrow> operation_id option \<Rightarrow> int \<Rightarrow> int list \<Rightarrow> nat \<Rightarrow> search_store \<Rightarrow>
   (search_error, nat \<times> search_store) result" where
  "accept_searches c source policy trigger operation now [] produced s = Inr (produced, s)"
| "accept_searches c source policy trigger operation now (indexer # indexers) produced s =
     and_then (accept_in c source indexer policy trigger operation now s) (\<lambda>(inserted, s').
       accept_searches c source policy trigger operation now indexers (if inserted then produced + 1 else produced) s')"

definition all_eligible :: "search_store \<Rightarrow> int list" where
  "all_eligible s = map ix_id (sort_key (\<lambda>row. (ix_priority row, ix_id row)) (filter ix_eligible (se_indexers s)))"

definition eligible_indexers :: "int list \<Rightarrow> search_store \<Rightarrow> int list" where
  "eligible_indexers selected s =
     (if selected = [] then all_eligible s else filter (\<lambda>indexer. eligible_row indexer s \<noteq> None) selected)"

section \<open>Completions\<close>

record completion_input =
  ci_operation_id :: operation_id
  ci_task_id :: task_id
  ci_source_id :: source_id
  ci_completed_at :: int
  ci_observed_at :: int

definition update_operation :: "operation_id \<Rightarrow> (operation_row \<Rightarrow> operation_row) \<Rightarrow> task_store \<Rightarrow> task_store" where
  "update_operation operation f s =
     s\<lparr>st_operations := (st_operations s)(operation := map_option f (st_operations s operation))\<rparr>"

definition project_completion_in :: "search_codec \<Rightarrow> completion_input \<Rightarrow> nat \<Rightarrow> task_store \<Rightarrow> task_store" where
  "project_completion_in c input produced s =
     (let s1 = update_task (ci_task_id input) (\<lambda>row. if tk_generation row = 0
            then row\<lparr>tk_state := ''completed'', tk_generation := 1, tk_updated_at := ci_observed_at input,
                     tk_terminal_at := Some (ci_observed_at input)\<rparr> else row) s;
          event = \<lparr>te_state = ''completed'', te_reason = None,
            te_detail = Some (xc_completion_detail c (ci_source_id input) (ci_completed_at input) produced),
            te_created_at = ci_observed_at input\<rparr>;
          s2 = (case add_event (ci_task_id input) 1 event s1 of None \<Rightarrow> s1 | Some s2 \<Rightarrow> s2)
      in update_operation (ci_operation_id input) (\<lambda>row. row\<lparr>op_state := ''completed'',
           op_produced_tasks := max (op_produced_tasks row) produced, op_updated_at := ci_observed_at input\<rparr>) s2)"

definition project_search_completion ::
  "search_codec \<Rightarrow> search_policy \<Rightarrow> completion_input \<Rightarrow> search_store \<Rightarrow> (search_error, search_store) result" where
  "project_search_completion c policy input s =
     and_then (accept_searches c (ci_source_id input) policy ''completion'' (Some (ci_operation_id input)) (ci_observed_at input)
       (all_eligible s) 0 s) (\<lambda>(produced, s'). Inr (map_tasks (project_completion_in c input produced) s'))"

section \<open>Backfill\<close>

definition insert_inventory_operation :: "operation_id \<Rightarrow> string \<Rightarrow> int \<Rightarrow> task_store \<Rightarrow> task_store" where
  "insert_inventory_operation operation instance_id now s =
     (if st_operations s operation \<noteq> None then s
      else s\<lparr>st_operations := (st_operations s)(operation \<mapsto>
        \<lparr>op_kind = ''inventory_search'', op_state = ''queued'', op_instance_id = instance_id,
         op_produced_tasks = 0, op_updated_at = now\<rparr>)\<rparr>)"

definition backfill_operation ::
  "search_codec \<Rightarrow> search_policy \<Rightarrow> backfill_selection \<Rightarrow> int list \<Rightarrow> string option \<Rightarrow> operation_id" where
  "backfill_operation c policy selection indexers force_nonce =
     first_16 (sha256_of c (''inventory-search-operation-v1'' @ xc_request c selection indexers (force_nonce \<noteq> None) @
       ps_id (policy_of c policy 0) @ default_bytes force_nonce))"

definition accept_backfill ::
  "search_codec \<Rightarrow> search_policy \<Rightarrow> backfill_selection \<Rightarrow> int list \<Rightarrow> string option \<Rightarrow> int \<Rightarrow> search_store \<Rightarrow>
   (search_error, accepted_backfill \<times> search_store) result" where
  "accept_backfill c policy selection indexers force_nonce now s =
     (let snapshot = policy_of c policy now;
          operation = backfill_operation c policy selection indexers force_nonce;
          digest = sha256_of c (''inventory-search-task-v1'' @ operation);
          task = first_16 digest;
          instance_id = ''inventory-search-v1:'' @ encode_hex operation;
          input = \<lparr> bi_operation_id = operation, bi_task_id = task, bi_policy_snapshot_id = ps_id snapshot,
            bi_selection = selection, bi_indexer_ids = indexers, bi_cursor = None \<rparr>;
          new = \<lparr> nt_id = task, nt_key = digest, nt_kind = ''inventory_search'', nt_policy = snapshot,
            nt_orchestration_name = BACKFILL_NAME, nt_orchestration_version = BACKFILL_VERSION,
            nt_instance_id = instance_id, nt_input_json = xc_backfill_input c input, nt_created_at = now \<rparr>
      in and_then (map_err SxDurableIngress (accept_task_in (kc_codec (xc_candidate c)) new (se_tasks s))) (\<lambda>(inserted, tasks).
         let s1 = map_tasks (\<lambda>_. insert_inventory_operation operation instance_id now tasks) s
         in Inr (\<lparr>ab_operation_id = operation, ab_task_id = task, ab_duplicate = (\<not> inserted)\<rparr>,
              s1\<lparr>se_task_operations := (se_task_operations s1)(task \<mapsto> operation)\<rparr>)))"

definition page_rows :: "source_id option \<Rightarrow> search_store \<Rightarrow> inventory_row list" where
  "page_rows cursor s =
     take BACKFILL_PAGE_SIZE (sort_key qt_id (filter (\<lambda>row. qt_available row \<and> qt_is_complete row \<and>
       (case cursor of None \<Rightarrow> True | Some c \<Rightarrow> qt_id row > c)) (se_torrents s)))"

fun page_searches ::
  "search_codec \<Rightarrow> backfill_input \<Rightarrow> search_policy \<Rightarrow> int list \<Rightarrow> int \<Rightarrow> inventory_row list \<Rightarrow> nat \<Rightarrow> search_store \<Rightarrow>
   (search_error, nat \<times> search_store) result" where
  "page_searches c input policy indexers now [] produced s = Inr (produced, s)"
| "page_searches c input policy indexers now (row # rows) produced s =
     and_then (id16_from_vec (qt_id row)) (\<lambda>source.
     and_then (backfill_selected c row (bi_selection input)) (\<lambda>selected.
     if \<not> selected then page_searches c input policy indexers now rows produced s
     else and_then (accept_searches c source policy (''manual:'' @ encode_hex (bi_operation_id input))
         (Some (bi_operation_id input)) now indexers produced s) (\<lambda>(produced', s').
       page_searches c input policy indexers now rows produced' s')))"

definition finish_page :: "backfill_input \<Rightarrow> bool \<Rightarrow> source_id option \<Rightarrow> nat \<Rightarrow> int \<Rightarrow> search_store \<Rightarrow> search_store" where
  "finish_page input finished next_cursor produced now s =
     (let s1 = map_tasks (update_operation (bi_operation_id input) (\<lambda>row. row\<lparr>
            op_state := (if finished then ''completed'' else ''running''),
            op_produced_tasks := op_produced_tasks row + produced, op_updated_at := now\<rparr>)) s;
          s2 = (if st_operations (se_tasks s) (bi_operation_id input) = None then s1
                else s1\<lparr>se_cursors := (se_cursors s1)(bi_operation_id input := next_cursor)\<rparr>)
      in map_tasks (backfill_page (bi_task_id input) finished now) s2)"

text \<open>
  The rows, the policy and the indexers are read before the transaction begins, from
  \<open>seen\<close>.
\<close>

definition produce_page ::
  "search_codec \<Rightarrow> backfill_input \<Rightarrow> int \<Rightarrow> search_store \<Rightarrow> search_store \<Rightarrow>
   (search_error, backfill_page_result \<times> search_store) result" where
  "produce_page c input now seen s =
     (let rows = page_rows (bi_cursor input) seen;
          finished = length rows < BACKFILL_PAGE_SIZE
      in and_then (if rows = [] then Inr None else and_then (id16_from_vec (qt_id (last rows))) (\<lambda>source. Inr (Some source))) (\<lambda>next_cursor.
         and_then (ok_or SxDatabase (st_policies (se_tasks seen) (bi_policy_snapshot_id input))) (\<lambda>stored.
         and_then (ok_or SxJson (xc_read_policy c (ps_payload_json stored))) (\<lambda>policy.
         and_then (page_searches c input policy (eligible_indexers (bi_indexer_ids input) seen) now rows 0 s) (\<lambda>(produced, s').
           Inr (\<lparr>bp_next_cursor = next_cursor, bp_done = finished\<rparr>, finish_page input finished next_cursor produced now s'))))))"

text \<open>
  One page for each turn of the workflow, which continues as new with the next cursor.
  Nothing else writes the store between two pages here: a torrent that is added or
  removed while the backfill runs is outside of this definition.
\<close>

fun backfill_workflow ::
  "nat \<Rightarrow> search_codec \<Rightarrow> backfill_input \<Rightarrow> (nat \<Rightarrow> int) \<Rightarrow> search_store \<Rightarrow>
   ((search_error, backfill_page_result) result \<times> search_store) option" where
  "backfill_workflow 0 c input clock s = None"
| "backfill_workflow (Suc fuel) c input clock s =
     (case produce_page c input (clock 0) s s of
        Inl e \<Rightarrow> Some (Inl e, s)
      | Inr (page, t) \<Rightarrow>
          if bp_done page then Some (Inr page, t)
          else backfill_workflow fuel c (input\<lparr>bi_cursor := bp_next_cursor page\<rparr>) (\<lambda>n. clock (Suc n)) t)"

section \<open>Executing a search\<close>

record search_source =
  ss_release :: release_descriptor
  ss_total_size :: nat
  ss_indexer_name :: string

definition size_of_column :: "int \<Rightarrow> nat" where
  "size_of_column value = (if value < 0 then u64_max else nat value)"

definition load_policy :: "search_env \<Rightarrow> search_statement \<Rightarrow> policy_snapshot_id \<Rightarrow> search_policy searching" where
  "load_policy env st policy =
     reading env st (\<lambda>s. and_then (ok_or SxDatabase (st_policies (se_tasks s) policy)) (\<lambda>row.
       ok_or SxJson (xc_read_policy (sx_codec env) (ps_payload_json row))))"

definition torrent_search_source ::
  "search_env \<Rightarrow> search_policy \<Rightarrow> string \<Rightarrow> inventory_row \<Rightarrow> (search_error, search_source option) result" where
  "torrent_search_source env policy name row =
     and_then (ok_or SxJson (xc_tags (sx_codec env) (qt_tags_json row))) (\<lambda>tags.
     if \<not> source_allowed (qt_category row) tags (ci_source_filters policy) then Inr None
     else case qt_release_json row of
            None \<Rightarrow> Inr None
          | Some json \<Rightarrow> and_then (ok_or SxJson (xc_release (sx_codec env) json)) (\<lambda>release.
              Inr (Some \<lparr>ss_release = release, ss_total_size = size_of_column (qi_total_size row), ss_indexer_name = name\<rparr>)))"

definition data_search_source :: "search_env \<Rightarrow> string \<Rightarrow> search_data_row \<Rightarrow> (search_error, search_source option) result" where
  "data_search_source env name row =
     (case da_release_json row of
        None \<Rightarrow> Inr None
      | Some json \<Rightarrow> and_then (ok_or SxJson (xc_release (sx_codec env) json)) (\<lambda>release.
          Inr (Some \<lparr>ss_release = release, ss_total_size = size_of_column (sd_total_size row), ss_indexer_name = name\<rparr>)))"

definition load_source :: "search_env \<Rightarrow> search_input \<Rightarrow> search_source option searching" where
  "load_source env input =
     search_then (reading env LoadIndexerName (\<lambda>s. Inr (map_option ix_name (eligible_row (xi_indexer_id input) s)))) (\<lambda>name.
     case name of
       None \<Rightarrow> search_return None
     | Some name \<Rightarrow>
         search_then (load_policy env LoadPolicy (xi_policy_snapshot_id input)) (\<lambda>policy.
         search_then (reading env LoadTorrent (\<lambda>s. Inr (find (\<lambda>row. qt_id row = xi_source_id input \<and> qt_available row \<and>
             qt_is_complete row) (se_torrents s)))) (\<lambda>torrent.
         case torrent of
           Some row \<Rightarrow> (\<lambda>s. (torrent_search_source env policy name row, s))
         | None \<Rightarrow>
             search_then (reading env LoadData (\<lambda>s. Inr (find (\<lambda>row. da_id row = xi_source_id input \<and> da_available row)
               (se_data s)))) (\<lambda>data.
             case data of
               None \<Rightarrow> search_return None
             | Some row \<Rightarrow> (\<lambda>s. (data_search_source env name row, s))))))"

definition claim_indexer :: "search_env \<Rightarrow> int \<Rightarrow> int option searching" where
  "claim_indexer env indexer =
     statement env ClaimIndexer (\<lambda>s.
       case se_limits s indexer of
         Some row \<Rightarrow>
           if rl_next_eligible_at row > sx_now env then Inr (Some (rl_next_eligible_at row), s)
           else Inr (None, s\<lparr>se_limits := (se_limits s)(indexer \<mapsto>
             \<lparr>rl_next_eligible_at = sat_i64 (sx_now env + MIN_REQUEST_GAP_MS), rl_updated_at = sx_now env\<rparr>)\<rparr>)
       | None \<Rightarrow> Inr (None, s\<lparr>se_limits := (se_limits s)(indexer \<mapsto>
             \<lparr>rl_next_eligible_at = sat_i64 (sx_now env + MIN_REQUEST_GAP_MS), rl_updated_at = sx_now env\<rparr>)\<rparr>))"

definition update_attempt :: "attempt_id \<Rightarrow> (search_attempt \<Rightarrow> search_attempt) \<Rightarrow> search_store \<Rightarrow> search_store" where
  "update_attempt attempt f s =
     s\<lparr>se_attempts := map (\<lambda>a. if sa_id a = attempt then f a else a) (se_attempts s)\<rparr>"

definition mark_search :: "search_env \<Rightarrow> search_input \<Rightarrow> unit searching" where
  "mark_search env input =
     search_then (writing env MarkTask (map_tasks (mark_searching (xi_task_id input) (sx_now env)))) (\<lambda>_.
       writing env MarkAttempt (update_attempt (xi_attempt_id input) (\<lambda>a. a\<lparr>sa_state := ''searching''\<rparr>)))"

definition wait_search :: "search_env \<Rightarrow> search_input \<Rightarrow> int \<Rightarrow> string \<Rightarrow> unit searching" where
  "wait_search env input next reason =
     search_then (writing env WaitAttempt (update_attempt (xi_attempt_id input) (\<lambda>a. a\<lparr>sa_state := ''waiting'',
         sa_next_eligible_at := Some next, sa_reason_code := Some reason,
         sa_dependency_attempts := sa_dependency_attempts a + 1\<rparr>))) (\<lambda>_.
       writing env WaitTask (map_tasks (search_wait (xi_task_id input) reason (sx_clock env))))"

definition finish_search :: "search_env \<Rightarrow> search_input \<Rightarrow> string \<Rightarrow> bool \<Rightarrow> nat \<Rightarrow> nat \<Rightarrow> unit searching" where
  "finish_search env input reason failed seen downloaded =
     search_then (writing env FinishAttempt (update_attempt (xi_attempt_id input) (\<lambda>a. a\<lparr>
         sa_state := (if failed then ''failed'' else ''completed''), sa_results_seen := max (sa_results_seen a) seen,
         sa_results_downloaded := max (sa_results_downloaded a) downloaded, sa_next_eligible_at := None,
         sa_reason_code := Some reason, sa_completed_at := Some (sx_now env)\<rparr>))) (\<lambda>_.
       writing env FinishTask (map_tasks (search_finish (xi_task_id input) reason failed (sx_now env))))"

definition summary_of :: "search_codec \<Rightarrow> torznab_result \<Rightarrow> string \<Rightarrow> candidate_id option \<Rightarrow> result_summary" where
  "summary_of c result state candidate =
     \<lparr> rs_fingerprint = result_fingerprint c result, rs_title = tr_title result,
       rs_size = (case tr_size result of Some n \<Rightarrow> if n \<le> i64_max then Some n else None | None \<Rightarrow> None),
       rs_state = state, rs_candidate_id = candidate \<rparr>"

definition summarize ::
  "search_env \<Rightarrow> search_input \<Rightarrow> nat \<Rightarrow> torznab_result \<Rightarrow> string \<Rightarrow> candidate_id option \<Rightarrow> unit searching" where
  "summarize env input ordinal result state candidate =
     writing env (Summarize ordinal state) (\<lambda>s.
       let key = (xi_attempt_id input, min i64_max ordinal);
           row = (case se_summaries s key of
               None \<Rightarrow> summary_of (sx_codec env) result state candidate
             | Some old \<Rightarrow> old\<lparr>rs_state := state,
                 rs_candidate_id := (case candidate of Some new \<Rightarrow> Some new | None \<Rightarrow> rs_candidate_id old)\<rparr>)
       in s\<lparr>se_summaries := (se_summaries s)(key \<mapsto> row)\<rparr>)"

definition delay_ms_of :: "int \<Rightarrow> int \<Rightarrow> nat" where
  "delay_ms_of next now = (let d = sat_i64 (next - now) in if d < 0 then u64_max else nat d)"

definition retry_delay_ms :: "prowlarr_error \<Rightarrow> nat \<Rightarrow> nat option" where
  "retry_delay_ms e calculated =
     (case e of
        PwRateLimited (Some seconds) \<Rightarrow> Some (if seconds * 1000 \<le> i64_max then max (seconds * 1000) calculated else calculated)
      | PwRateLimited None \<Rightarrow> Some calculated
      | PwRequest \<Rightarrow> Some calculated
      | PwHttpStatus status \<Rightarrow> if retryable_status status then Some calculated else None
      | _ \<Rightarrow> None)"

definition raise_limit :: "int \<Rightarrow> int \<Rightarrow> int \<Rightarrow> search_store \<Rightarrow> search_store" where
  "raise_limit indexer next now s =
     s\<lparr>se_limits := (se_limits s)(indexer \<mapsto>
        (case se_limits s indexer of
           None \<Rightarrow> \<lparr>rl_next_eligible_at = next, rl_updated_at = now\<rparr>
         | Some row \<Rightarrow> \<lparr>rl_next_eligible_at = max (rl_next_eligible_at row) next, rl_updated_at = now\<rparr>))\<rparr>"

definition dependency_error :: "search_env \<Rightarrow> search_input \<Rightarrow> prowlarr_error \<Rightarrow> search_outcome searching" where
  "dependency_error env input e =
     search_then (reading env ReadAttempts (\<lambda>s. ok_or SxDatabase
         (map_option sa_dependency_attempts (find (\<lambda>a. sa_id a = xi_attempt_id input) (se_attempts s))))) (\<lambda>attempts.
     if attempts > u32_max then search_fail StoredRange
     else case deterministic SEARCH_RETRY_BASE SEARCH_RETRY_MAX (saturating_add u32_max attempts 1)
                 [xi_attempt_id input, rev (i64_bytes (xi_indexer_id input))] of
            None \<Rightarrow> search_fail SxPanic
          | Some calculated \<Rightarrow>
              if calculated div 1000000 > i64_max then search_fail SxPanic
              else case retry_delay_ms e (calculated div 1000000) of
                None \<Rightarrow>
                  search_then (finish_search env input ''invalid_search_response'' True 0 0) (\<lambda>_.
                    search_return (SearchFailed (xc_error_text (sx_codec env) e)))
              | Some delay \<Rightarrow>
                  let next = sat_i64 (sx_now env + max (int delay) MIN_REQUEST_GAP_MS)
                  in search_then (writing env RaiseLimit (raise_limit (xi_indexer_id input) next (sx_now env))) (\<lambda>_.
                     search_then (wait_search env input next ''dependency_unavailable'') (\<lambda>_.
                       search_return (SearchWaiting next (delay_ms_of next (sx_now env))))))"

definition submission_of ::
  "search_env \<Rightarrow> search_input \<Rightarrow> search_source \<Rightarrow> nat \<Rightarrow> torznab_result \<Rightarrow> string \<Rightarrow> candidate_submission" where
  "submission_of env input source ordinal result bytes =
     \<lparr> su_bytes = bytes, su_announcement_name = Some (tr_title result), su_indexer = Some (ss_indexer_name source),
       su_indexer_id = Some (xi_indexer_id input), su_trigger = xi_trigger input, su_release_hint = Some (ss_release source),
       su_category = None, su_tags = [],
       su_request_id = ''search:'' @ encode_hex (xi_attempt_id input) @ '':'' @ decimal ordinal,
       su_dry_run = False, su_received_at = sx_now env \<rparr>"

text \<open>
  What becomes of one result: the search goes on and the result counts as accepted or
  not, or the activity returns early.
\<close>

datatype result_step = GoOn bool | ReturnWith search_outcome

definition submit_result ::
  "search_env \<Rightarrow> search_input \<Rightarrow> search_source \<Rightarrow> nat \<Rightarrow> torznab_result \<Rightarrow> string \<Rightarrow> result_step searching" where
  "submit_result env input source ordinal result bytes =
     search_then (load_policy env (LoadCandidatePolicy ordinal) (xi_policy_snapshot_id input)) (\<lambda>policy s.
       if sx_fault env (AcceptCandidate ordinal) then (Inl (SxCandidate CandidateDatabase), s)
       else case accept_candidate (xc_candidate (sx_codec env)) (sx_unicode env) policy
              (submission_of env input source ordinal result bytes) (se_intake s) of
           Inr (accepted, intake) \<Rightarrow>
             search_then (summarize env input ordinal result ''candidate_accepted'' (Some (accepted_candidate.ac_candidate_id accepted))) (\<lambda>_.
               search_return (GoOn True)) (s\<lparr>se_intake := intake\<rparr>)
         | Inl e \<Rightarrow>
             if candidate_rejected e
             then search_then (summarize env input ordinal result ''invalid_torrent'' None) (\<lambda>_. search_return (GoOn False)) s
             else (Inl (SxCandidate e), s))"

definition search_result ::
  "search_env \<Rightarrow> search_input \<Rightarrow> search_source \<Rightarrow> nat \<Rightarrow> torznab_result \<Rightarrow> result_step searching" where
  "search_result env input source ordinal result =
     (let eligible = (plausibility (sx_unicode env) (ss_release source) (ss_total_size source) result = Inr ())
      in search_then (summarize env input ordinal result (if eligible then ''eligible'' else ''filtered'') None) (\<lambda>_.
         if \<not> eligible then search_return (GoOn False)
         else case sx_download env (xi_indexer_id input) (tr_download_url result) of
                Inr bytes \<Rightarrow> submit_result env input source ordinal result bytes
              | Inl (PwRateLimited after) \<Rightarrow>
                  search_then (dependency_error env input (PwRateLimited after)) (\<lambda>outcome. search_return (ReturnWith outcome))
              | Inl e \<Rightarrow>
                  if e = PwUnsafeDownloadUrl \<or> e = PwRedirectRejected
                  then search_then (summarize env input ordinal result ''unsafe_download'' None) (\<lambda>_. search_return (GoOn False))
                  else if retryable_prowlarr e
                  then search_then (dependency_error env input e) (\<lambda>outcome. search_return (ReturnWith outcome))
                  else search_then (summarize env input ordinal result ''download_failed'' None) (\<lambda>_. search_return (GoOn False))))"

fun search_results ::
  "search_env \<Rightarrow> search_input \<Rightarrow> search_source \<Rightarrow> nat \<Rightarrow> torznab_result list \<Rightarrow> nat \<Rightarrow> (nat + search_outcome) searching" where
  "search_results env input source ordinal [] downloaded s = (Inr (Inl downloaded), s)"
| "search_results env input source ordinal (result # results) downloaded s =
     search_then (search_result env input source ordinal result) (\<lambda>st.
       case st of
         ReturnWith outcome \<Rightarrow> search_return (Inr outcome)
       | GoOn accepted \<Rightarrow>
           search_results env input source (ordinal + 1) results (if accepted then downloaded + 1 else downloaded)) s"

definition enrich :: "search_env \<Rightarrow> source_id \<Rightarrow> search_store \<Rightarrow> search_store" where
  "enrich env source s =
     (case sx_enrichment env source of
        None \<Rightarrow> s
      | Some json \<Rightarrow> s\<lparr>se_torrents := map (\<lambda>row. if qt_id row = source then row\<lparr>qt_release_json := Some json\<rparr> else row)
          (se_torrents s)\<rparr>)"

definition search_indexer :: "search_env \<Rightarrow> search_input \<Rightarrow> search_source \<Rightarrow> (string \<times> string) list \<Rightarrow> search_outcome searching" where
  "search_indexer env input source parameters =
     search_then (mark_search env input) (\<lambda>_.
       case sx_search env (xi_indexer_id input) parameters of
         Inl e \<Rightarrow> dependency_error env input e
       | Inr results \<Rightarrow>
           search_then (search_results env input source 0 results 0) (\<lambda>r.
             case r of
               Inr outcome \<Rightarrow> search_return outcome
             | Inl downloaded \<Rightarrow>
                 search_then (finish_search env input ''completed'' False (length results) downloaded) (\<lambda>_.
                   search_return SearchComplete)))"

definition execute_search :: "search_env \<Rightarrow> search_input \<Rightarrow> search_outcome searching" where
  "execute_search env input s =
     search_then (load_source env input) (\<lambda>source.
       case source of
         None \<Rightarrow> search_then (finish_search env input ''source_unavailable'' True 0 0) (\<lambda>_.
           search_return (SearchFailed ''source_unavailable''))
       | Some source \<Rightarrow>
           search_then (indexer_query env (xi_indexer_id input) (ss_release source)) (\<lambda>parameters.
           case parameters of
             None \<Rightarrow> search_then (finish_search env input ''indexer_ineligible'' True 0 0) (\<lambda>_.
               search_return (SearchFailed ''indexer_ineligible''))
           | Some parameters \<Rightarrow>
               search_then (claim_indexer env (xi_indexer_id input)) (\<lambda>claimed.
               case claimed of
                 Some next \<Rightarrow> search_then (wait_search env input next ''indexer_rate_limit'') (\<lambda>_.
                   search_return (SearchWaiting next (delay_ms_of next (sx_now env))))
               | None \<Rightarrow> search_indexer env input source parameters))) (enrich env (xi_source_id input) s)"

text \<open>The workflow runs the activity until it does not wait; \<open>envs\<close> are its deliveries.\<close>

fun search_workflow ::
  "search_env list \<Rightarrow> search_input \<Rightarrow> search_store \<Rightarrow> ((search_error, search_outcome) result \<times> search_store) option" where
  "search_workflow [] input s = None"
| "search_workflow (env # envs) input s =
     (case execute_search env input s of
        (Inr (SearchWaiting next delay), t) \<Rightarrow> search_workflow envs input t
      | (r, t) \<Rightarrow> Some (r, t))"

end
