(* ===== verification/Search_Work.thy ===== *)
theory Search_Work
  imports Search Task_Machine
begin

text \<open>
  What the searches of \<open>Search\<close> keep and produce.  The interface between a search and
  the tables is a locale: a relation between stores that every single statement keeps
  is kept by the whole activity, at whatever statement it stops.  It is interpreted
  for the limits of the indexers and for the work that was accepted.
\<close>

section \<open>Tasks that were accepted\<close>

definition same_task :: "task_row \<Rightarrow> task_row \<Rightarrow> bool" where
  "same_task a b \<longleftrightarrow> tk_kind b = tk_kind a \<and> tk_instance_id b = tk_instance_id a \<and> tk_policy b = tk_policy a"

definition tasks_kept :: "task_store \<Rightarrow> task_store \<Rightarrow> bool" where
  "tasks_kept s t \<longleftrightarrow> st_policies s \<subseteq>\<^sub>m st_policies t \<and>
     (\<forall>k row. st_tasks s k = Some row \<longrightarrow> (\<exists>row'. st_tasks t k = Some row' \<and> same_task row row')) \<and>
     (\<forall>k. st_events s k \<noteq> None \<longrightarrow> st_events t k \<noteq> None) \<and> prefix (st_outbox s) (st_outbox t)"

lemma tasks_kept_refl: "tasks_kept s s"
  by (simp add: tasks_kept_def same_task_def)

lemma tasks_kept_trans:
  assumes "tasks_kept s t" and "tasks_kept t u"
  shows "tasks_kept s u"
proof -
  have "st_policies s \<subseteq>\<^sub>m st_policies u" "prefix (st_outbox s) (st_outbox u)"
    using assms by (auto simp: tasks_kept_def intro: map_le_trans prefix_order.order_trans)
  moreover have "\<exists>row'. st_tasks u k = Some row' \<and> same_task row row'" if "st_tasks s k = Some row" for k row
    using assms that by (fastforce simp: tasks_kept_def same_task_def)
  ultimately show ?thesis using assms by (auto simp: tasks_kept_def)
qed

lemma tasks_kept_update:
  assumes "\<And>row. same_task row (f row)"
  shows "tasks_kept s (update_task k f s)"
  using assms by (cases "st_tasks s k") (auto simp: tasks_kept_def update_task_def same_task_def)

lemma tasks_kept_accept:
  assumes "accept_task_in codec task s = Inr (inserted, t)"
  shows "tasks_kept s t"
  using assms
proof (rule accept_task_in_Inr)
  fix s1
  assume s1: "insert_policy codec (nt_policy task) s = Inr s1"
    and t: "start_once codec (start_of task) (queued_event (nt_id task) (nt_created_at task)
      (insert_task (nt_id task) (row_of task) s1)) = Inr (inserted, t)"
  have "st_policies s \<subseteq>\<^sub>m st_policies s1"
    using s1 by (auto simp: insert_policy_def map_le_def split: if_splits)
  moreover have "st_policies t = st_policies s1" "prefix (st_outbox s1) (st_outbox t)"
    using t by (auto simp: start_once_def insert_outbox_def insert_task_def queued_event_def add_event_def
        split: if_splits option.splits)
  moreover have "\<exists>row'. st_tasks t k = Some row' \<and> same_task row row'" if "st_tasks s k = Some row" for k row
    using accept_keeps_task [OF assms that] by (simp add: same_task_def)
  moreover have "st_events t k \<noteq> None" if "st_events s k \<noteq> None" for k
    using that unfolding start_once_frame(2) [OF t] insert_policy_frame(2) [OF s1, symmetric]
    by (auto simp: queued_event_def add_event_def insert_task_def split: option.splits)
  ultimately show ?thesis using insert_policy_frame(3) [OF s1] by (simp add: tasks_kept_def)
qed

text \<open>A task that was accepted is recognised as a duplicate in every later store that keeps it.\<close>

definition accepted :: "codec \<Rightarrow> new_task \<Rightarrow> task_store \<Rightarrow> bool" where
  "accepted codec task s \<longleftrightarrow> cd_json_valid codec (ps_payload_json (nt_policy task)) \<and> cd_json_valid codec (nt_input_json task) \<and>
     verify_policy (nt_policy task) s = Inr () \<and> verify_task task s = Inr () \<and> st_events s (nt_id task, 0) \<noteq> None \<and>
     verify_outbox task s = Inr ()"

lemma accepted_after:
  assumes "accept_task_in codec task s = Inr (inserted, t)"
  shows "accepted codec task t"
proof -
  obtain s1 where s1: "insert_policy codec (nt_policy task) s = Inr s1" "verify_policy (nt_policy task) s1 = Inr ()"
    and t: "start_once codec (start_of task) (queued_event (nt_id task) (nt_created_at task)
      (insert_task (nt_id task) (row_of task) s1)) = Inr (inserted, t)"
    and v: "verify_task task (insert_task (nt_id task) (row_of task) s1) = Inr ()" "verify_outbox task t = Inr ()"
    by (rule accept_task_in_Inr [OF assms])
  have "st_policies t = st_policies s1" "cd_json_valid codec (nt_input_json task)"
    using t by (auto simp: start_once_def start_of_def outbox_start_def insert_outbox_def insert_task_def queued_event_def
        add_event_def split: if_splits option.splits)
  moreover have "cd_json_valid codec (ps_payload_json (nt_policy task))"
    using s1(1) by (auto simp: insert_policy_def split: if_splits)
  moreover have "st_events t (nt_id task, 0) \<noteq> None"
    unfolding start_once_frame [OF t] by (auto simp: queued_event_def add_event_def split: option.splits if_splits)
  moreover have "verify_task task t = Inr ()" using v(1) by (simp add: verify_task_def start_once_frame [OF t])
  ultimately show ?thesis using s1(2) v(2) by (simp add: accepted_def verify_policy_def)
qed

lemma accepted_kept:
  assumes "accepted codec task s" and "tasks_kept s t"
  shows "accepted codec task t"
proof -
  have "verify_policy (nt_policy task) t = Inr ()"
  proof -
    obtain row where row: "st_policies s (ps_id (nt_policy task)) = Some row"
      using assms(1) by (auto simp: accepted_def verify_policy_def split: option.splits)
    then have "st_policies t (ps_id (nt_policy task)) = Some row"
      using assms(2) by (auto simp: tasks_kept_def map_le_def dom_def)
    then show ?thesis using assms(1) row by (simp add: accepted_def verify_policy_def)
  qed
  moreover have "verify_task task t = Inr ()"
    using assms by (fastforce simp: accepted_def verify_task_def tasks_kept_def same_task_def split: option.splits if_splits)
  moreover have "verify_outbox task t = Inr ()"
  proof -
    obtain zs where "st_outbox t = st_outbox s @ zs" using assms(2) by (auto simp: tasks_kept_def prefix_def)
    then show ?thesis using assms(1) by (auto simp: accepted_def verify_outbox_def find_append split: option.splits)
  qed
  ultimately show ?thesis using assms by (auto simp: accepted_def tasks_kept_def)
qed

lemma accepted_again:
  assumes "accepted codec task s"
  shows "accept_task_in codec task s = Inr (False, s)"
proof -
  have "insert_policy codec (nt_policy task) s = Inr s"
    using assms by (auto simp: insert_policy_def accepted_def verify_policy_def split: option.splits)
  moreover have "insert_task (nt_id task) (row_of task) s = s"
    using assms by (auto simp: insert_task_def accepted_def verify_task_def split: option.splits)
  moreover have "queued_event (nt_id task) (nt_created_at task) s = s"
    using assms by (auto simp: accepted_def queued_event_def add_event_def)
  moreover have "start_once codec (start_of task) s = Inr (False, s)"
    using assms by (auto simp: accepted_def start_once_def start_of_def outbox_start_def verify_outbox_def list_ex_iff
        dest: find_SomeD split: option.splits)
  ultimately show ?thesis using assms by (simp add: accept_task_in_def accepted_def)
qed

lemma accepted_retimed: "accepted codec (retimed now policy_now task) s = accepted codec task s"
  by (simp add: accepted_def verify_retimed)

section \<open>What every statement of a search keeps\<close>

text \<open>The columns of an attempt that no update writes.\<close>

definition attempt_key ::
  "search_attempt \<Rightarrow> attempt_id \<times> source_id \<times> int \<times> string \<times> policy_snapshot_id \<times> string \<times> task_id" where
  "attempt_key a = (sa_id a, sa_source_id a, sa_indexer_id a, sa_query_fingerprint a, sa_policy_snapshot_id a, sa_trigger a, sa_task_id a)"

definition keeps :: "(search_store \<Rightarrow> search_store \<Rightarrow> bool) \<Rightarrow> 'a searching \<Rightarrow> bool" where
  "keeps R m \<longleftrightarrow> (\<forall>s. R s (snd (m s)))"

locale search_relation =
  fixes R :: "search_store \<Rightarrow> search_store \<Rightarrow> bool"
  assumes R_refl: "R s s"
    and R_trans: "R s t \<Longrightarrow> R t u \<Longrightarrow> R s u"
    and R_enrich: "R s (enrich env source s)"
    and R_claim: "R s (snd (claim_indexer env indexer s))"
    and R_raise: "R s (raise_limit indexer next now s)"
    and R_attempt: "(\<And>a. attempt_key (f a) = attempt_key a) \<Longrightarrow> R s (update_attempt attempt f s)"
    and R_task: "(\<And>row. same_task row (g row)) \<Longrightarrow> R s (map_tasks (update_task k g) s)"
    and R_summary: "R s (s\<lparr>se_summaries := summaries\<rparr>)"
    and R_intake: "accept_candidate c unicode policy submission (se_intake s) = Inr (candidate, intake) \<Longrightarrow> R s (s\<lparr>se_intake := intake\<rparr>)"
begin

lemma keeps_return: "keeps R (search_return x)" and keeps_fail: "keeps R (search_fail e)"
  by (simp_all add: keeps_def search_return_def search_fail_def R_refl)

lemma keeps_value: "keeps R (\<lambda>s. (r s, s))"
  by (simp add: keeps_def R_refl)

lemma keeps_then:
  assumes "keeps R m" and "\<And>x. keeps R (f x)"
  shows "keeps R (search_then m f)"
  unfolding keeps_def
proof
  fix s
  obtain r t where m: "m s = (r, t)" by (cases "m s")
  then have "R s t" using assms(1) by (metis keeps_def snd_conv)
  then show "R s (snd (search_then m f s))"
    using assms(2) m by (cases r) (auto simp: search_then_def keeps_def intro: R_trans)
qed

lemma keeps_writing: "(\<And>s. R s (f s)) \<Longrightarrow> keeps R (writing env st f)"
  by (simp add: keeps_def writing_def statement_def R_refl)

lemma keeps_reading: "keeps R (reading env st f)"
proof -
  have "R s (snd (reading env st f s))" for s
    by (cases "f s") (simp_all add: reading_def statement_def R_refl and_then_def)
  then show ?thesis by (simp add: keeps_def)
qed

lemma keeps_claim: "keeps R (claim_indexer env indexer)"
  by (simp add: keeps_def R_claim)

lemma keeps_summarize: "keeps R (summarize env input ordinal result state candidate)"
  unfolding summarize_def by (rule keeps_writing) (simp add: Let_def R_summary)

lemma keeps_finish: "keeps R (finish_search env input reason failed seen downloaded)"
  unfolding finish_search_def search_finish_def
  by (intro keeps_then keeps_writing R_attempt R_task) (simp_all add: same_task_def attempt_key_def)

lemma keeps_wait: "keeps R (wait_search env input next reason)"
  unfolding wait_search_def search_wait_def
  by (intro keeps_then keeps_writing R_attempt R_task) (simp_all add: same_task_def attempt_key_def)

lemma keeps_mark: "keeps R (mark_search env input)"
  unfolding mark_search_def mark_searching_def
  by (intro keeps_then keeps_writing R_attempt R_task) (simp_all add: same_task_def attempt_key_def)

lemma keeps_option: "keeps R m \<Longrightarrow> (\<And>x. keeps R (f x)) \<Longrightarrow> keeps R (case v of None \<Rightarrow> m | Some x \<Rightarrow> f x)"
  by (cases v) simp_all

lemma keeps_if: "keeps R m \<Longrightarrow> keeps R n \<Longrightarrow> keeps R (if b then m else n)"
  by simp

lemmas keeps_rules = keeps_option keeps_if keeps_return keeps_fail keeps_then keeps_reading keeps_claim keeps_summarize keeps_finish
  keeps_wait keeps_mark

lemma keeps_load_policy: "keeps R (load_policy env st policy)"
  unfolding load_policy_def by (rule keeps_reading)

lemma keeps_load_source: "keeps R (load_source env input)"
  unfolding load_source_def by (intro keeps_rules keeps_load_policy keeps_value)

lemma keeps_dependency: "keeps R (dependency_error env input e)"
  unfolding dependency_error_def Let_def by (intro keeps_rules keeps_writing R_raise)

lemma keeps_submit: "keeps R (submit_result env input source ordinal result bytes)"
  unfolding submit_result_def
proof (rule keeps_then [OF keeps_load_policy])
  fix policy
  let ?r = "\<lambda>s. accept_candidate (xc_candidate (sx_codec env)) (sx_unicode env) policy
    (submission_of env input source ordinal result bytes) (se_intake s)"
  let ?f = "\<lambda>candidate :: accepted_candidate. search_then (summarize env input ordinal result ''candidate_accepted''
    (Some (accepted_candidate.ac_candidate_id candidate))) (\<lambda>_. search_return (GoOn True))"
  let ?g = "search_then (summarize env input ordinal result ''invalid_torrent'' None) (\<lambda>_. search_return (GoOn False))"
  have "keeps R (?f candidate)" "keeps R ?g" for candidate by (intro keeps_rules)+
  then have fg: "R s (snd (?f candidate s))" "R s (snd (?g s))" for candidate s by (simp_all add: keeps_def)
  have "R s (snd (?f candidate (s\<lparr>se_intake := intake\<rparr>)))" if "?r s = Inr (candidate, intake)" for s candidate intake
    by (rule R_trans [OF R_intake [OF that] fg(1)])
  then show "keeps R (\<lambda>s. if sx_fault env (AcceptCandidate ordinal) then (Inl (SxCandidate CandidateDatabase), s)
      else case ?r s of Inr (candidate, intake) \<Rightarrow> ?f candidate (s\<lparr>se_intake := intake\<rparr>)
        | Inl e \<Rightarrow> if candidate_rejected e then ?g s else (Inl (SxCandidate e), s))"
    using fg(2) unfolding keeps_def by (auto simp: R_refl split: sum.split prod.split)
qed

lemma keeps_search_result: "keeps R (search_result env input source ordinal result)"
proof -
  have note_state: "keeps R (search_then (summarize env input ordinal result state None) (\<lambda>_. search_return (GoOn False)))" for state
    by (intro keeps_rules)
  have stop: "keeps R (search_then (dependency_error env input e) (\<lambda>outcome. search_return (ReturnWith outcome)))" for e
    by (intro keeps_rules keeps_dependency)
  have "keeps R (case d of
      Inr bytes \<Rightarrow> submit_result env input source ordinal result bytes
    | Inl (PwRateLimited after) \<Rightarrow>
        search_then (dependency_error env input (PwRateLimited after)) (\<lambda>outcome. search_return (ReturnWith outcome))
    | Inl e \<Rightarrow>
        if e = PwUnsafeDownloadUrl \<or> e = PwRedirectRejected
        then search_then (summarize env input ordinal result ''unsafe_download'' None) (\<lambda>_. search_return (GoOn False))
        else if retryable_prowlarr e
        then search_then (dependency_error env input e) (\<lambda>outcome. search_return (ReturnWith outcome))
        else search_then (summarize env input ordinal result ''download_failed'' None) (\<lambda>_. search_return (GoOn False)))"
    for d
  proof (cases d)
    case (Inl e)
    then show ?thesis by (cases e) (simp_all add: note_state stop)
  qed (simp add: keeps_submit)
  then show ?thesis unfolding search_result_def Let_def by (intro keeps_then keeps_summarize keeps_if keeps_return)
qed

lemma keeps_results: "keeps R (search_results env input source ordinal results downloaded)"
proof (induction results arbitrary: ordinal downloaded)
  case Nil
  show ?case by (simp add: keeps_def R_refl)
next
  case (Cons result results)
  have "keeps R (search_then (search_result env input source ordinal result) (\<lambda>st.
       case st of
         ReturnWith outcome \<Rightarrow> search_return (Inr outcome)
       | GoOn stored \<Rightarrow>
           search_results env input source (ordinal + 1) results (if stored then downloaded + 1 else downloaded)))"
    by (intro keeps_then keeps_search_result) (auto split: result_step.split intro!: keeps_return Cons.IH)
  then show ?case unfolding keeps_def search_results.simps(2) .
qed

lemma keeps_search_indexer: "keeps R (search_indexer env input source parameters)"
  unfolding search_indexer_def
  by (intro keeps_then keeps_mark)
    (auto split: sum.split intro!: keeps_rules keeps_dependency keeps_results)

theorem execute_keeps: "R s (snd (execute_search env input s))"
proof -
  have query: "keeps R (indexer_query env indexer release)" for indexer release
    by (simp add: keeps_def indexer_query_def R_refl)
  have "keeps R (search_then (load_source env input) (\<lambda>source.
       case source of
         None \<Rightarrow> search_then (finish_search env input ''source_unavailable'' True 0 0) (\<lambda>_.
           search_return (SearchFailed ''source_unavailable''))
       | Some source \<Rightarrow>
           search_then (indexer_query env (xi_indexer_id input) (ss_release source)) (\<lambda>parameters.
           case parameters of
             None \<Rightarrow> search_then (finish_search env input ''indexer_ineligible'' True 0 0) (\<lambda>_.
               search_return (SearchFailed ''indexer_ineligible''))
           | Some parameters \<Rightarrow>
               search_then (claim_indexer env (xi_indexer_id input)) (\<lambda>claimed.
               case claimed of
                 Some next \<Rightarrow> search_then (wait_search env input next ''indexer_rate_limit'') (\<lambda>_.
                   search_return (SearchWaiting next (delay_ms_of next (sx_now env))))
               | None \<Rightarrow> search_indexer env input source parameters))))" (is "keeps R ?m")
    by (intro keeps_rules keeps_load_source query keeps_search_indexer)
  then have "R (enrich env (xi_source_id input) s) (snd (?m (enrich env (xi_source_id input) s)))" by (simp add: keeps_def)
  then show ?thesis unfolding execute_search_def using R_enrich R_trans by blast
qed

end

section \<open>Limits and accepted work\<close>

text \<open>
  A limit is a 64-bit integer, so that it is compared after clipping it to the
  largest one.
\<close>

definition clip :: "int \<Rightarrow> int" where
  "clip x = min (2 ^ 63 - 1) x"

definition limits_kept :: "search_store \<Rightarrow> search_store \<Rightarrow> bool" where
  "limits_kept s t \<longleftrightarrow> (\<forall>indexer row. se_limits s indexer = Some row \<longrightarrow>
     (\<exists>row'. se_limits t indexer = Some row' \<and> clip (rl_next_eligible_at row) \<le> clip (rl_next_eligible_at row')))"

definition work_kept :: "search_store \<Rightarrow> search_store \<Rightarrow> bool" where
  "work_kept s t \<longleftrightarrow> tasks_kept (se_tasks s) (se_tasks t) \<and>
     prefix (map attempt_key (se_attempts s)) (map attempt_key (se_attempts t)) \<and>
     (\<forall>task. se_task_operations s task \<noteq> None \<longrightarrow> se_task_operations t task \<noteq> None)"

lemma work_kept_refl: "work_kept s s"
  by (simp add: work_kept_def tasks_kept_refl)

lemma work_kept_trans: "work_kept s t \<Longrightarrow> work_kept t u \<Longrightarrow> work_kept s u"
  by (auto simp: work_kept_def intro: tasks_kept_trans prefix_order.order_trans)

lemma map_tasks_simps [simp]:
  "se_tasks (map_tasks f s) = f (se_tasks s)" "se_attempts (map_tasks f s) = se_attempts s" "se_limits (map_tasks f s) = se_limits s"
  "se_task_operations (map_tasks f s) = se_task_operations s" "se_torrents (map_tasks f s) = se_torrents s"
  "se_data (map_tasks f s) = se_data s" "se_indexers (map_tasks f s) = se_indexers s" "se_summaries (map_tasks f s) = se_summaries s"
  by (simp_all add: map_tasks_def se_tasks_def)

lemma accept_candidate_tasks:
  assumes "accept_candidate c unicode policy submission s = Inr (candidate, t)"
  shows "tasks_kept (cs_tasks s) (cs_tasks t)"
proof -
  obtain id row task inserted where "store_candidate c submission id row task s = Inr (inserted, t)"
    using assms by (auto simp: accept_candidate_def Let_def and_then_Inr split: if_splits)
  then obtain s2 where "accept_task_in (kc_codec c) task (cs_tasks s) = Inr (inserted, cs_tasks t)"
    by (rule store_candidate_Inr)
  then show ?thesis by (rule tasks_kept_accept)
qed

interpretation limits: search_relation limits_kept
proof
  show "limits_kept s (snd (claim_indexer env indexer s))" for s env indexer
    by (auto simp: limits_kept_def claim_indexer_def statement_def clip_def sat_i64_def MIN_REQUEST_GAP_MS_def split: option.split)
  show "limits_kept s (raise_limit indexer until now s)" for s indexer until now
    by (auto simp: limits_kept_def raise_limit_def clip_def split: option.split)
qed (fastforce simp: limits_kept_def enrich_def update_attempt_def split: option.split)+

interpretation work: search_relation work_kept
proof
  show "work_kept s (snd (claim_indexer env indexer s))" for s env indexer
    by (auto simp: claim_indexer_def statement_def work_kept_refl work_kept_def se_tasks_def tasks_kept_refl split: option.split)
  show "work_kept s (update_attempt attempt f s)" if "\<And>a. attempt_key (f a) = attempt_key a" for s attempt f
    using that by (simp add: work_kept_def update_attempt_def se_tasks_def tasks_kept_refl o_def if_distrib cong: if_cong)
  show "work_kept s (map_tasks (update_task k g) s)" if "\<And>row. same_task row (g row)" for s k g
    using tasks_kept_update [OF that] by (simp add: work_kept_def)
  show "work_kept s (s\<lparr>se_intake := intake\<rparr>)"
    if "accept_candidate c unicode policy submission (se_intake s) = Inr (candidate, intake)" for c unicode policy submission s candidate intake
    using accept_candidate_tasks [OF that] by (simp add: work_kept_def se_tasks_def)
qed (auto simp: work_kept_refl enrich_def raise_limit_def work_kept_def se_tasks_def tasks_kept_refl
    intro: work_kept_trans tasks_kept_trans prefix_order.order_trans split: option.split)

section \<open>The distance between requests\<close>

lemma search_then_Inr: "search_then m f s = (Inr y, u) \<longleftrightarrow> (\<exists>x t. m s = (Inr x, t) \<and> f x t = (Inr y, u))"
  by (cases "m s"; cases "fst (m s)") (auto simp: search_then_def)

definition reads_only :: "'a searching \<Rightarrow> bool" where
  "reads_only m \<longleftrightarrow> (\<forall>s. snd (m s) = s)"

lemma reads_only_return: "reads_only (search_return x)"
  by (simp add: reads_only_def search_return_def)

lemma reads_only_value: "reads_only (\<lambda>s. (r s, s))"
  by (simp add: reads_only_def)

lemma reads_only_reading: "reads_only (reading env st f)"
proof -
  have "snd (reading env st f s) = s" for s by (cases "f s") (simp_all add: reading_def statement_def and_then_def)
  then show ?thesis by (simp add: reads_only_def)
qed

lemma reads_only_then:
  assumes "reads_only m" and "\<And>x. reads_only (f x)"
  shows "reads_only (search_then m f)"
proof -
  have "snd (search_then m f s) = s" for s
    using assms by (cases "m s"; cases "fst (m s)") (auto simp: reads_only_def search_then_def dest: spec [of _ s])
  then show ?thesis by (simp add: reads_only_def)
qed

lemma reads_only_option: "reads_only m \<Longrightarrow> (\<And>x. reads_only (f x)) \<Longrightarrow> reads_only (case v of None \<Rightarrow> m | Some x \<Rightarrow> f x)"
  by (cases v) simp_all

lemma load_source_reads: "reads_only (load_source env input)"
  unfolding load_source_def load_policy_def
  by (intro reads_only_then reads_only_option reads_only_return reads_only_reading reads_only_value)

lemma indexer_query_state: "indexer_query env indexer release s = (fst (indexer_query env indexer release s), s)"
  by (simp add: indexer_query_def)

lemma load_source_state: "load_source env input s = (fst (load_source env input s), s)"
  using load_source_reads [of env input] by (metis prod.collapse reads_only_def)

text \<open>An activity asks Prowlarr when the source and the query are there and the indexer was claimed.\<close>

definition asks :: "search_env \<Rightarrow> search_input \<Rightarrow> search_store \<Rightarrow> bool" where
  "asks env input s =
     (let s = enrich env (xi_source_id input) s
      in case fst (load_source env input s) of
           Inr (Some source) \<Rightarrow>
             (case fst (indexer_query env (xi_indexer_id input) (ss_release source) s) of
                Inr (Some parameters) \<Rightarrow> fst (claim_indexer env (xi_indexer_id input) s) = Inr None
              | _ \<Rightarrow> False)
         | _ \<Rightarrow> False)"

lemma asksE:
  assumes "asks env input s"
  obtains source parameters where
    "fst (load_source env input (enrich env (xi_source_id input) s)) = Inr (Some source)"
    "fst (indexer_query env (xi_indexer_id input) (ss_release source) (enrich env (xi_source_id input) s)) = Inr (Some parameters)"
    "fst (claim_indexer env (xi_indexer_id input) (enrich env (xi_source_id input) s)) = Inr None"
proof -
  let ?s = "enrich env (xi_source_id input) s"
  obtain source where l: "fst (load_source env input ?s) = Inr (Some source)"
    using assms by (cases "fst (load_source env input ?s)") (auto simp: asks_def Let_def split: option.splits)
  let ?q = "fst (indexer_query env (xi_indexer_id input) (ss_release source) ?s)"
  obtain parameters where q: "?q = Inr (Some parameters)"
    using assms l by (cases ?q) (auto simp: asks_def Let_def split: option.splits)
  show ?thesis using that [OF l q] assms l q by (simp add: asks_def Let_def)
qed

lemma execute_asks:
  assumes "asks env input s"
  shows "\<exists>source parameters. execute_search env input s =
     search_indexer env input source parameters (snd (claim_indexer env (xi_indexer_id input) (enrich env (xi_source_id input) s)))"
proof -
  define s0 where "s0 = enrich env (xi_source_id input) s"
  obtain source parameters where a: "fst (load_source env input s0) = Inr (Some source)"
    "fst (indexer_query env (xi_indexer_id input) (ss_release source) s0) = Inr (Some parameters)"
    "fst (claim_indexer env (xi_indexer_id input) s0) = Inr None"
    using asksE [OF assms] unfolding s0_def .
  have l: "load_source env input s0 = (Inr (Some source), s0)"
    and q: "indexer_query env (xi_indexer_id input) (ss_release source) s0 = (Inr (Some parameters), s0)"
    using a load_source_state [of env input s0] indexer_query_state [of env "xi_indexer_id input" "ss_release source" s0] by simp_all
  obtain s1 where c: "claim_indexer env (xi_indexer_id input) s0 = (Inr None, s1)"
    using a(3) by (cases "claim_indexer env (xi_indexer_id input) s0") simp
  have "execute_search env input s = search_indexer env input source parameters s1"
    unfolding execute_search_def s0_def [symmetric] by (simp add: search_then_def l q c)
  then show ?thesis using c unfolding s0_def by auto
qed

lemma claim_indexer_limit:
  assumes "fst (claim_indexer env indexer s) = Inr None"
  shows "\<exists>row. se_limits (snd (claim_indexer env indexer s)) indexer = Some row \<and>
     rl_next_eligible_at row = sat_i64 (sx_now env + MIN_REQUEST_GAP_MS)"
    "\<And>row. se_limits s indexer = Some row \<Longrightarrow> rl_next_eligible_at row \<le> sx_now env"
  using assms by (auto simp: claim_indexer_def statement_def split: option.splits if_splits)

inductive search_run :: "search_store \<Rightarrow> search_store \<Rightarrow> bool" where
  run: "execute_search env input s = (r, t) \<Longrightarrow> search_run s t"

inductive_cases search_runE: "search_run s t"

lemma search_run_keeps: "search_run s t \<Longrightarrow> limits_kept s t" "search_run s t \<Longrightarrow> work_kept s t"
  using limits.execute_keeps work.execute_keeps by (metis search_runE snd_conv)+

lemma search_runs_keep: "search_run\<^sup>*\<^sup>* s t \<Longrightarrow> limits_kept s t"
  by (induction rule: rtranclp_induct) (auto intro: limits.R_refl limits.R_trans search_run_keeps)

lemma asks_limit:
  assumes "asks env input s"
  shows "\<exists>row. se_limits (snd (execute_search env input s)) (xi_indexer_id input) = Some row \<and>
     clip (sat_i64 (sx_now env + MIN_REQUEST_GAP_MS)) \<le> clip (rl_next_eligible_at row)"
proof -
  let ?s = "enrich env (xi_source_id input) s"
  have "fst (claim_indexer env (xi_indexer_id input) ?s) = Inr None"
    using assms by (rule asksE)
  then obtain row where row: "se_limits (snd (claim_indexer env (xi_indexer_id input) ?s)) (xi_indexer_id input) = Some row"
    "rl_next_eligible_at row = sat_i64 (sx_now env + MIN_REQUEST_GAP_MS)" using claim_indexer_limit(1) by blast
  obtain source parameters where x: "execute_search env input s =
     search_indexer env input source parameters (snd (claim_indexer env (xi_indexer_id input) ?s))" using execute_asks [OF assms] by blast
  have "limits_kept (snd (claim_indexer env (xi_indexer_id input) ?s)) (snd (execute_search env input s))"
    unfolding x using limits.keeps_search_indexer by (simp add: keeps_def)
  then show ?thesis using row unfolding limits_kept_def by metis
qed

text \<open>
  C21: Granted claims of one indexer are at least one second apart.  An activity reads
  the clock when it begins, and \<open>claim_indexer\<close> compares and stores that time.
  When one activity was granted the claim and went on to ask Prowlarr, and after any
  number of other activities, of whatever source and interrupted at whatever
  statement, another one is granted the claim of the same indexer, then the time it
  read is at least a second later.  (The times of the HTTP requests are not spaced by
  this: an activity sends its request some time after it read the clock, when it has
  waited for two permits and for the enrichment.)
\<close>

theorem indexer_claims_are_spaced:
  assumes "asks env input s" and "search_run\<^sup>*\<^sup>* (snd (execute_search env input s)) t" and "asks env' input' t"
    and "xi_indexer_id input' = xi_indexer_id input" and "- (2 ^ 63) \<le> sx_now env" and "sx_now env + 1000 < 2 ^ 63"
  shows "sx_now env + 1000 \<le> sx_now env'"
proof -
  let ?t = "enrich env' (xi_source_id input') t"
  obtain row where "se_limits (snd (execute_search env input s)) (xi_indexer_id input) = Some row"
    "clip (sat_i64 (sx_now env + MIN_REQUEST_GAP_MS)) \<le> clip (rl_next_eligible_at row)" using asks_limit [OF assms(1)] by blast
  moreover have "limits_kept (snd (execute_search env input s)) ?t"
    using search_runs_keep [OF assms(2)] limits.R_enrich limits.R_trans by blast
  ultimately obtain row' where row': "se_limits ?t (xi_indexer_id input) = Some row'"
    "clip (sat_i64 (sx_now env + MIN_REQUEST_GAP_MS)) \<le> clip (rl_next_eligible_at row')"
    by (auto simp: limits_kept_def) (metis order_trans)
  have "fst (claim_indexer env' (xi_indexer_id input) ?t) = Inr None"
    using assms(3) unfolding assms(4) [symmetric] by (rule asksE)
  from claim_indexer_limit(2) [OF this row'(1)] row'(2) assms(5,6) show ?thesis
    by (auto simp: clip_def sat_i64_def MIN_REQUEST_GAP_MS_def)
qed

section \<open>Searches that were produced\<close>

definition search_ready :: "search_codec \<Rightarrow> source_id \<Rightarrow> int \<Rightarrow> search_policy \<Rightarrow> string \<Rightarrow> search_store \<Rightarrow> bool" where
  "search_ready c source indexer policy trigger s \<longleftrightarrow>
     accepted (kc_codec (xc_candidate c)) (search_task c source indexer policy trigger 0) (se_tasks s) \<and>
     list_ex (\<lambda>a. sa_id a = first_16 (nt_key (search_task c source indexer policy trigger 0))) (se_attempts s) \<and>
     se_task_operations s (nt_id (search_task c source indexer policy trigger 0)) \<noteq> None"

lemma search_task_retimed:
  "search_task c source indexer policy trigger now = retimed now now (search_task c source indexer policy trigger 0)"
  by (simp add: search_task_def policy_of_def retimed_def Let_def)

lemma search_ready_kept:
  assumes "search_ready c source indexer policy trigger s" and "work_kept s t"
  shows "search_ready c source indexer policy trigger t"
proof -
  have "sa_id ` set (se_attempts s) \<subseteq> sa_id ` set (se_attempts t)"
  proof
    fix k assume "k \<in> sa_id ` set (se_attempts s)"
    then have "k \<in> fst ` set (map attempt_key (se_attempts s))" by (force simp: attempt_key_def)
    then have "k \<in> fst ` set (map attempt_key (se_attempts t))"
      using assms(2) set_mono_prefix unfolding work_kept_def by blast
    then show "k \<in> sa_id ` set (se_attempts t)" by (auto simp: attempt_key_def)
  qed
  then show ?thesis using assms accepted_kept unfolding search_ready_def list_ex_iff work_kept_def by fastforce
qed

text \<open>What the transactions of this theory leave alone.\<close>

definition same_sources :: "search_store \<Rightarrow> search_store \<Rightarrow> bool" where
  "same_sources s t \<longleftrightarrow> se_torrents t = se_torrents s \<and> se_data t = se_data s \<and> se_indexers t = se_indexers s"

lemma same_sources_refl: "same_sources s s"
  by (simp add: same_sources_def)

lemma same_sources_trans: "same_sources s t \<Longrightarrow> same_sources t u \<Longrightarrow> same_sources s u"
  by (simp add: same_sources_def)

lemma accept_in_Inr:
  assumes "accept_in c source indexer policy trigger (Some operation) now s = Inr (inserted, t)"
  shows "search_ready c source indexer policy trigger t" "work_kept s t" "same_sources s t"
proof -
  let ?task = "search_task c source indexer policy trigger now"
  obtain json tasks where a: "accept_task_in (kc_codec (xc_candidate c)) ?task (se_tasks s) = Inr (inserted, tasks)"
    and i: "insert_attempt (queued_attempt c source indexer policy trigger now json)
      (set_operation (nt_id ?task) (Some operation) (map_tasks (\<lambda>_. tasks) s)) = Inr t"
    using assms by (auto simp: accept_in_def and_then_Inr Let_def map_err_def split: sum.splits)
  have t: "se_tasks t = tasks" "same_sources s t" "se_task_operations t (nt_id ?task) \<noteq> None"
    "\<forall>k. se_task_operations s k \<noteq> None \<longrightarrow> se_task_operations t k \<noteq> None"
    "prefix (map attempt_key (se_attempts s)) (map attempt_key (se_attempts t))"
    "list_ex (\<lambda>a. sa_id a = sa_id (queued_attempt c source indexer policy trigger now json)) (se_attempts t)"
    using i by (auto simp: insert_attempt_def set_operation_def se_tasks_def map_tasks_def same_sources_def split: if_splits)
  have "accepted (kc_codec (xc_candidate c)) ?task tasks" using a by (rule accepted_after)
  moreover have "sa_id (queued_attempt c source indexer policy trigger now json) = first_16 (nt_key ?task)"
    by (simp add: queued_attempt_def Let_def)
  ultimately show "search_ready c source indexer policy trigger t"
    using t(1,3,6) unfolding search_ready_def search_task_retimed [of c source indexer policy trigger now] by (simp add: accepted_retimed)
  show "work_kept s t" using tasks_kept_accept [OF a] t by (simp add: work_kept_def)
  show "same_sources s t" by (rule t(2))
qed

lemma accept_searches_Inr:
  assumes "accept_searches c source policy trigger (Some operation) now indexers produced s = Inr (n, t)"
  shows "(\<forall>indexer \<in> set indexers. search_ready c source indexer policy trigger t) \<and> work_kept s t \<and> same_sources s t"
  using assms
proof (induction indexers arbitrary: produced s)
  case Nil
  then show ?case by (simp add: work_kept_refl same_sources_refl)
next
  case (Cons indexer indexers)
  then obtain inserted s1 where s1: "accept_in c source indexer policy trigger (Some operation) now s = Inr (inserted, s1)"
    and rest: "accept_searches c source policy trigger (Some operation) now indexers (if inserted then produced + 1 else produced) s1
      = Inr (n, t)"
    by (auto simp: and_then_Inr)
  show ?case using Cons.IH [OF rest] accept_in_Inr [OF s1] search_ready_kept
    by (auto intro: work_kept_trans same_sources_trans)
qed

lemma page_searches_Inr:
  assumes "page_searches c input policy indexers now rows produced s = Inr (n, t)"
  shows "(\<forall>row \<in> set rows. backfill_selected c row (bi_selection input) = Inr True \<longrightarrow>
      (\<forall>indexer \<in> set indexers. search_ready c (qt_id row) indexer policy (''manual:'' @ encode_hex (bi_operation_id input)) t)) \<and>
    work_kept s t \<and> same_sources s t"
  using assms
proof (induction rows arbitrary: produced s)
  case Nil
  then show ?case by (simp add: work_kept_refl same_sources_refl)
next
  case (Cons row rows)
  let ?trigger = "''manual:'' @ encode_hex (bi_operation_id input)"
  obtain selected where b: "backfill_selected c row (bi_selection input) = Inr selected"
    and i: "id16_from_vec (qt_id row) = Inr (qt_id row)"
    using Cons.prems by (auto simp: and_then_Inr id16_from_vec_def split: if_splits)
  show ?case
  proof (cases selected)
    case False
    then have "page_searches c input policy indexers now rows produced s = Inr (n, t)" using Cons.prems b i by simp
    from Cons.IH [OF this] show ?thesis using b False by auto
  next
    case True
    then obtain m s1 where s1: "accept_searches c (qt_id row) policy ?trigger (Some (bi_operation_id input)) now indexers produced s = Inr (m, s1)"
      and rest: "page_searches c input policy indexers now rows m s1 = Inr (n, t)"
      using Cons.prems b i by (auto simp: and_then_Inr)
    show ?thesis using Cons.IH [OF rest] accept_searches_Inr [OF s1] search_ready_kept
      by (auto intro: work_kept_trans same_sources_trans)
  qed
qed

lemma tasks_kept_operation: "tasks_kept s (update_operation operation f s)"
  by (simp add: tasks_kept_def update_operation_def same_task_def)

lemma finish_page_kept: "work_kept s (finish_page input finished next_cursor produced now s)"
    "same_sources s (finish_page input finished next_cursor produced now s)"
proof -
  have "tasks_kept a (backfill_page k finished now (update_operation operation f a))" for a k operation f
    unfolding backfill_page_def
    by (rule tasks_kept_trans [OF tasks_kept_operation tasks_kept_update]) (simp add: same_task_def)
  then show "work_kept s (finish_page input finished next_cursor produced now s)"
    by (simp add: work_kept_def finish_page_def Let_def se_tasks_def map_tasks_def)
  show "same_sources s (finish_page input finished next_cursor produced now s)"
    by (simp add: same_sources_def finish_page_def Let_def)
qed

section \<open>Pages\<close>

definition waiting_rows :: "source_id option \<Rightarrow> search_store \<Rightarrow> inventory_row list" where
  "waiting_rows cursor s = filter (\<lambda>row. qt_available row \<and> qt_is_complete row \<and>
     (case cursor of None \<Rightarrow> True | Some c \<Rightarrow> qt_id row > c)) (se_torrents s)"

lemma page_rows_eq: "page_rows cursor s = take BACKFILL_PAGE_SIZE (sort_key qt_id (waiting_rows cursor s))"
  by (simp add: page_rows_def waiting_rows_def)

lemma sorted_take_last:
  assumes "sorted (map f xs)" and "x \<in> set (take n xs)"
  shows "f x \<le> f (last (take n xs))"
proof -
  define ys where "ys = take n xs"
  obtain i where i: "i < length ys" "x = ys ! i" using assms(2) by (auto simp: in_set_conv_nth ys_def)
  have "sorted (map f ys)" using assms(1) by (simp add: ys_def take_map [symmetric] sorted_wrt_take)
  then have "map f ys ! i \<le> map f ys ! (length ys - 1)" by (rule sorted_nth_mono) (use i(1) in auto)
  moreover have "last ys = ys ! (length ys - 1)" using i(1) by (intro last_conv_nth) auto
  ultimately show ?thesis using i unfolding ys_def [symmetric] by simp
qed

lemma sorted_beyond_take:
  assumes "sorted (map f xs)" and "distinct (map f xs)" and "x \<in> set xs" and "x \<notin> set (take n xs)" and "take n xs \<noteq> []"
  shows "f (last (take n xs)) < f x"
proof -
  obtain i where i: "i < length xs" "x = xs ! i" using assms(3) by (auto simp: in_set_conv_nth)
  have n: "n \<le> i" using assms(4) i by (metis in_set_conv_nth leI length_take min_less_iff_conj nth_take)
  have l: "last (take n xs) = xs ! (n - 1)" "0 < n" using assms(5) n i(1) by (auto simp: last_conv_nth)
  have "map f xs ! (n - 1) \<le> map f xs ! i" by (rule sorted_nth_mono [OF assms(1)]) (use n i(1) in auto)
  moreover have "map f xs ! (n - 1) \<noteq> map f xs ! i"
    by (subst nth_eq_iff_index_eq [OF assms(2)]) (use i(1) n l(2) in auto)
  ultimately show ?thesis using l n i by auto
qed

lemma rest_after_page:
  assumes "page_rows cursor s \<noteq> []"
  shows "waiting_rows (Some (qt_id (last (page_rows cursor s)))) s =
      filter (\<lambda>row. qt_id row > qt_id (last (page_rows cursor s))) (waiting_rows cursor s)" (is ?same)
    "length (waiting_rows (Some (qt_id (last (page_rows cursor s)))) s) \<le> length (waiting_rows cursor s) - BACKFILL_PAGE_SIZE"
proof -
  let ?l = "qt_id (last (page_rows cursor s))" and ?xs = "sort_key qt_id (waiting_rows cursor s)"
  have "last (page_rows cursor s) \<in> set (page_rows cursor s)" using assms by simp
  then have "last (page_rows cursor s) \<in> set (waiting_rows cursor s)" by (auto simp: page_rows_eq dest: in_set_takeD)
  then have "case cursor of None \<Rightarrow> True | Some c \<Rightarrow> c < ?l" by (simp add: waiting_rows_def)
  then show ?same by (auto simp: waiting_rows_def intro!: filter_cong split: option.splits)
  have "length (filter (\<lambda>row. qt_id row > ?l) (waiting_rows cursor s)) = length (filter (\<lambda>row. qt_id row > ?l) ?xs)"
    by (metis mset_filter mset_sort size_mset)
  also have "\<dots> = length (filter (\<lambda>row. qt_id row > ?l) (take BACKFILL_PAGE_SIZE ?xs)) +
      length (filter (\<lambda>row. qt_id row > ?l) (drop BACKFILL_PAGE_SIZE ?xs))"
    by (metis append_take_drop_id filter_append length_append)
  also have "filter (\<lambda>row. qt_id row > ?l) (take BACKFILL_PAGE_SIZE ?xs) = []"
    using sorted_take_last [OF sorted_sort_key] by (fastforce simp: page_rows_eq filter_empty_conv)
  also have "length (filter (\<lambda>row. qt_id row > ?l) (drop BACKFILL_PAGE_SIZE ?xs)) \<le> length ?xs - BACKFILL_PAGE_SIZE"
    using length_filter_le [of _ "drop BACKFILL_PAGE_SIZE ?xs"] by simp
  finally show "length (waiting_rows (Some ?l) s) \<le> length (waiting_rows cursor s) - BACKFILL_PAGE_SIZE"
    unfolding \<open>?same\<close> by simp
qed

lemma produce_page_Inr:
  assumes "produce_page c input now s s = Inr (page, t)"
  obtains stored policy where "st_policies (se_tasks s) (bi_policy_snapshot_id input) = Some stored"
    "xc_read_policy c (ps_payload_json stored) = Some policy" "work_kept s t" "same_sources s t"
    "bp_done page \<longleftrightarrow> length (page_rows (bi_cursor input) s) < BACKFILL_PAGE_SIZE"
    "page_rows (bi_cursor input) s \<noteq> [] \<Longrightarrow> bp_next_cursor page = Some (qt_id (last (page_rows (bi_cursor input) s)))"
    "\<And>row indexer. row \<in> set (page_rows (bi_cursor input) s) \<Longrightarrow> backfill_selected c row (bi_selection input) = Inr True \<Longrightarrow>
       indexer \<in> set (eligible_indexers (bi_indexer_ids input) s) \<Longrightarrow>
       search_ready c (qt_id row) indexer policy (''manual:'' @ encode_hex (bi_operation_id input)) t"
proof -
  let ?rows = "page_rows (bi_cursor input) s"
  obtain next_cursor stored policy n s1 where
    n: "(if ?rows = [] then Inr None else and_then (id16_from_vec (qt_id (last ?rows))) (\<lambda>source. Inr (Some source))) = Inr next_cursor"
    and p: "st_policies (se_tasks s) (bi_policy_snapshot_id input) = Some stored" "xc_read_policy c (ps_payload_json stored) = Some policy"
    and s1: "page_searches c input policy (eligible_indexers (bi_indexer_ids input) s) now ?rows 0 s = Inr (n, s1)"
    and t: "page = \<lparr>bp_next_cursor = next_cursor, bp_done = (length ?rows < BACKFILL_PAGE_SIZE)\<rparr>"
      "t = finish_page input (length ?rows < BACKFILL_PAGE_SIZE) next_cursor n now s1"
    using assms unfolding produce_page_def Let_def by (auto simp: and_then_Inr ok_or_Inr_iff)
  note d = page_searches_Inr [OF s1] and f = finish_page_kept [where s = s1, folded t(2)]
  have cov: "search_ready c source indexer policy trigger t" if "search_ready c source indexer policy trigger s1" for source indexer trigger
    using that unfolding t(2) by (rule search_ready_kept) (rule finish_page_kept)
  have "work_kept s t" "same_sources s t"
    unfolding t(2) using d finish_page_kept by (blast intro: work_kept_trans same_sources_trans)+
  moreover have "bp_next_cursor page = Some (qt_id (last ?rows))" if "?rows \<noteq> []"
    using n that by (auto simp: t(1) and_then_Inr id16_from_vec_def split: if_splits)
  ultimately show thesis using d cov by (intro that [OF p]) (auto simp: t(1))
qed

section \<open>The backfill\<close>

text \<open>Every selected row behind the cursor has a search for every indexer of the request.\<close>

definition backfill_covered :: "search_codec \<Rightarrow> backfill_input \<Rightarrow> search_policy \<Rightarrow> search_store \<Rightarrow> search_store \<Rightarrow> bool" where
  "backfill_covered c input policy s t \<longleftrightarrow>
     (\<forall>row \<in> set (waiting_rows (bi_cursor input) s). backfill_selected c row (bi_selection input) = Inr True \<longrightarrow>
       (\<forall>indexer \<in> set (eligible_indexers (bi_indexer_ids input) s).
          search_ready c (qt_id row) indexer policy (''manual:'' @ encode_hex (bi_operation_id input)) t))"

lemma backfill_covers:
  assumes "backfill_workflow fuel c input clock s = Some (Inr page, t)" and "distinct (map qt_id (se_torrents s))"
  shows "\<exists>stored policy. st_policies (se_tasks s) (bi_policy_snapshot_id input) = Some stored \<and>
     xc_read_policy c (ps_payload_json stored) = Some policy \<and> backfill_covered c input policy s t \<and> work_kept s t"
  using assms
proof (induction fuel arbitrary: input clock s)
  case (Suc fuel)
  let ?rows = "page_rows (bi_cursor input) s" and ?trigger = "''manual:'' @ encode_hex (bi_operation_id input)"
  obtain first_page s1 where pg: "produce_page c input (clock 0) s s = Inr (first_page, s1)"
    using Suc.prems(1) by (auto split: sum.splits)
  obtain stored policy where p: "st_policies (se_tasks s) (bi_policy_snapshot_id input) = Some stored"
    "xc_read_policy c (ps_payload_json stored) = Some policy" and k: "work_kept s s1" "same_sources s s1"
    and fin: "bp_done first_page \<longleftrightarrow> length ?rows < BACKFILL_PAGE_SIZE"
    and nc: "?rows \<noteq> [] \<Longrightarrow> bp_next_cursor first_page = Some (qt_id (last ?rows))"
    and cov: "\<And>row indexer. row \<in> set ?rows \<Longrightarrow> backfill_selected c row (bi_selection input) = Inr True \<Longrightarrow>
       indexer \<in> set (eligible_indexers (bi_indexer_ids input) s) \<Longrightarrow> search_ready c (qt_id row) indexer policy ?trigger s1"
    using produce_page_Inr [OF pg] by metis
  show ?case
  proof (cases "bp_done first_page")
    case True
    then have "t = s1" "set ?rows = set (waiting_rows (bi_cursor input) s)"
      using Suc.prems(1) pg fin by (auto simp: page_rows_eq min_def split: if_splits)
    then have "backfill_covered c input policy s t" using cov by (simp add: backfill_covered_def)
    then show ?thesis using p k(1) \<open>t = s1\<close> by blast
  next
    case False
    let ?input = "input\<lparr>bi_cursor := bp_next_cursor first_page\<rparr>"
    have rows: "?rows \<noteq> []" using False fin by (auto simp: BACKFILL_PAGE_SIZE_def)
    have same: "waiting_rows cur s1 = waiting_rows cur s" "eligible_indexers ids s1 = eligible_indexers ids s" for cur ids
      using k(2) by (simp_all add: same_sources_def waiting_rows_def eligible_indexers_def all_eligible_def eligible_row_def)
    have "backfill_workflow fuel c ?input (\<lambda>n. clock (Suc n)) s1 = Some (Inr page, t)" using Suc.prems(1) pg False by simp
    from Suc.IH [OF this] obtain stored' policy' where IH: "st_policies (se_tasks s1) (bi_policy_snapshot_id input) = Some stored'"
      "xc_read_policy c (ps_payload_json stored') = Some policy'" "backfill_covered c ?input policy' s1 t" "work_kept s1 t"
      using Suc.prems(2) k(2) by (auto simp: same_sources_def)
    have "stored' = stored" using IH(1) p(1) k(1) by (auto simp: work_kept_def tasks_kept_def map_le_def dom_def)
    then have policy: "policy' = policy" using IH(2) p(2) by simp
    have "search_ready c (qt_id row) indexer policy ?trigger t"
      if row: "row \<in> set (waiting_rows (bi_cursor input) s)" "backfill_selected c row (bi_selection input) = Inr True"
        and ix: "indexer \<in> set (eligible_indexers (bi_indexer_ids input) s)" for row indexer
    proof (cases "row \<in> set ?rows")
      case True
      then show ?thesis using cov row(2) ix search_ready_kept IH(4) by blast
    next
      case False
      have "distinct (map qt_id (waiting_rows (bi_cursor input) s))"
        using Suc.prems(2) by (simp add: waiting_rows_def distinct_map_filter)
      then have "distinct (map qt_id (sort_key qt_id (waiting_rows (bi_cursor input) s)))"
        by (simp add: distinct_map)
      then have "qt_id (last ?rows) < qt_id row"
        using sorted_beyond_take [OF sorted_sort_key, of qt_id "waiting_rows (bi_cursor input) s" row BACKFILL_PAGE_SIZE]
          row(1) False rows by (simp add: page_rows_eq)
      then have "row \<in> set (waiting_rows (bi_cursor ?input) s1)"
        using row(1) rest_after_page(1) [OF rows] nc [OF rows] same(1) by simp
      then show ?thesis using IH(3) row(2) ix policy same(2) by (simp add: backfill_covered_def)
    qed
    then have "backfill_covered c input policy s t" by (simp add: backfill_covered_def)
    then show ?thesis using p work_kept_trans [OF k(1) IH(4)] by blast
  qed
qed simp

lemma backfill_ends:
  "length (waiting_rows (bi_cursor input) s) div BACKFILL_PAGE_SIZE < fuel \<Longrightarrow> \<exists>r t. backfill_workflow fuel c input clock s = Some (r, t)"
proof (induction fuel arbitrary: input clock s)
  case (Suc fuel)
  show ?case
  proof (cases "produce_page c input (clock 0) s s")
    case (Inr result)
    then obtain page s1 where pg: "produce_page c input (clock 0) s s = Inr (page, s1)" by (cases result) simp
    show ?thesis
    proof (cases "bp_done page")
      case False
      let ?rows = "page_rows (bi_cursor input) s"
      obtain k: "same_sources s s1" and full: "\<not> length ?rows < BACKFILL_PAGE_SIZE"
        and nc: "?rows \<noteq> [] \<Longrightarrow> bp_next_cursor page = Some (qt_id (last ?rows))"
        using produce_page_Inr [OF pg] False by metis
      have rows: "?rows \<noteq> []" using full by (auto simp: BACKFILL_PAGE_SIZE_def)
      have "BACKFILL_PAGE_SIZE \<le> length (waiting_rows (bi_cursor input) s)" using full by (simp add: page_rows_eq)
      moreover have "length (waiting_rows (bp_next_cursor page) s1) \<le> length (waiting_rows (bi_cursor input) s) - BACKFILL_PAGE_SIZE"
        using rest_after_page(2) [OF rows] nc [OF rows] k by (simp add: same_sources_def waiting_rows_def)
      ultimately have "length (waiting_rows (bp_next_cursor page) s1) div BACKFILL_PAGE_SIZE < fuel"
        using Suc.prems div_le_mono [of "length (waiting_rows (bp_next_cursor page) s1)"
          "length (waiting_rows (bi_cursor input) s) - BACKFILL_PAGE_SIZE" BACKFILL_PAGE_SIZE]
        by (simp add: le_div_geq BACKFILL_PAGE_SIZE_def)
      then show ?thesis using Suc.IH [of "input\<lparr>bi_cursor := bp_next_cursor page\<rparr>"] pg False by simp
    qed (simp add: pg)
  qed simp
qed simp

text \<open>
  C19: A backfill comes to an end and misses nothing.  On an inventory of \<open>n\<close> torrents
  it needs at most one page for each hundred and one more, and when it succeeds, every
  available complete torrent that the request selects has, for every indexer of the
  request that is eligible, an accepted search task with its start in the outbox, an
  attempt and the operation it belongs to.
\<close>

theorem backfill_covers_inventory:
  assumes "distinct (map qt_id (se_torrents s))" and "bi_cursor input = None"
  shows "\<exists>r t. backfill_workflow (length (se_torrents s) div 100 + 1) c input clock s = Some (r, t) \<and>
     (\<forall>page. r = Inr page \<longrightarrow> (\<exists>stored policy. st_policies (se_tasks s) (bi_policy_snapshot_id input) = Some stored \<and>
        xc_read_policy c (ps_payload_json stored) = Some policy \<and>
        (\<forall>row \<in> set (se_torrents s). qt_available row \<and> qt_is_complete row \<and>
            backfill_selected c row (bi_selection input) = Inr True \<longrightarrow>
          (\<forall>indexer \<in> set (eligible_indexers (bi_indexer_ids input) s).
             search_ready c (qt_id row) indexer policy (''manual:'' @ encode_hex (bi_operation_id input)) t))))"
proof -
  have "length (waiting_rows (bi_cursor input) s) div BACKFILL_PAGE_SIZE \<le> length (se_torrents s) div 100"
    unfolding BACKFILL_PAGE_SIZE_def by (rule div_le_mono) (simp add: waiting_rows_def)
  then obtain r t where run: "backfill_workflow (length (se_torrents s) div 100 + 1) c input clock s = Some (r, t)"
    using backfill_ends [of input s "length (se_torrents s) div 100 + 1" c clock] by auto
  have "\<exists>stored policy. st_policies (se_tasks s) (bi_policy_snapshot_id input) = Some stored \<and>
      xc_read_policy c (ps_payload_json stored) = Some policy \<and> backfill_covered c input policy s t" if "r = Inr page" for page
    using backfill_covers [OF run [unfolded that] assms(1)] by blast
  then show ?thesis using run assms(2) unfolding backfill_covered_def waiting_rows_def by fastforce
qed

section \<open>Completions delivered again\<close>

lemma accept_in_again:
  assumes "search_ready c source indexer policy trigger s" and "release_json_of source s \<noteq> None"
  shows "accept_in c source indexer policy trigger (Some operation) now s = Inr (False, s)"
proof -
  let ?task = "search_task c source indexer policy trigger now"
  have "accept_task_in (kc_codec (xc_candidate c)) ?task (se_tasks s) = Inr (False, se_tasks s)"
    by (rule accepted_again) (use assms(1) in \<open>simp add: search_ready_def search_task_retimed [of _ _ _ _ _ now] accepted_retimed\<close>)
  moreover have "map_tasks (\<lambda>_. se_tasks s) s = s" by (simp add: map_tasks_def se_tasks_def)
  moreover have "set_operation (nt_id ?task) (Some operation) s = s"
    using assms(1) by (auto simp: set_operation_def search_ready_def search_task_retimed [of _ _ _ _ _ now])
  moreover have "insert_attempt (queued_attempt c source indexer policy trigger now json) s = Inr s" for json
    using assms(1) by (simp add: insert_attempt_def search_ready_def queued_attempt_def Let_def search_task_retimed [of _ _ _ _ _ now])
  ultimately show ?thesis using assms(2) by (auto simp: accept_in_def map_err_def Let_def ok_or_def)
qed

lemma accept_searches_again:
  assumes "\<forall>indexer \<in> set indexers. search_ready c source indexer policy trigger s" and "indexers \<noteq> [] \<Longrightarrow> release_json_of source s \<noteq> None"
  shows "accept_searches c source policy trigger (Some operation) now indexers produced s = Inr (produced, s)"
  using assms by (induction indexers) (auto simp: accept_in_again)

lemma accept_searches_release:
  "accept_searches c source policy trigger operation now indexers produced s = Inr (n, t) \<Longrightarrow> indexers \<noteq> [] \<Longrightarrow>
   release_json_of source s \<noteq> None"
  by (cases indexers) (auto simp: accept_in_def and_then_Inr ok_or_Inr_iff)

lemma project_completion_in_simps:
  "st_policies (project_completion_in c input produced s) = st_policies s"
  "st_outbox (project_completion_in c input produced s) = st_outbox s"
  "st_tasks (project_completion_in c input produced s) k = (if k = ci_task_id input then
     map_option (\<lambda>row. if tk_generation row = 0 then row\<lparr>tk_state := ''completed'', tk_generation := 1,
       tk_updated_at := ci_observed_at input, tk_terminal_at := Some (ci_observed_at input)\<rparr> else row) (st_tasks s k)
     else st_tasks s k)"
  "st_operations (project_completion_in c input produced s) = (st_operations s)(ci_operation_id input :=
     map_option (\<lambda>row. row\<lparr>op_state := ''completed'', op_produced_tasks := max (op_produced_tasks row) produced,
       op_updated_at := ci_observed_at input\<rparr>) (st_operations s (ci_operation_id input)))"
  by (auto simp: project_completion_in_def Let_def update_operation_def update_task_def add_event_def split: option.split)

lemma project_completion_in_events:
  "st_events (project_completion_in c input produced s) =
     (if st_events s (ci_task_id input, 1) = None then (st_events s)((ci_task_id input, 1) \<mapsto>
        \<lparr>te_state = ''completed'', te_reason = None,
         te_detail = Some (xc_completion_detail c (ci_source_id input) (ci_completed_at input) produced),
         te_created_at = ci_observed_at input\<rparr>) else st_events s)"
  by (auto simp: project_completion_in_def Let_def update_operation_def update_task_def add_event_def split: option.split)

lemma project_completion_in_kept: "tasks_kept s (project_completion_in c input produced s)"
  by (auto simp: tasks_kept_def project_completion_in_simps project_completion_in_events same_task_def)

lemma project_completion_in_again:
  assumes "t = project_completion_in c input produced s"
  shows "project_completion_in c input 0 t = t"
proof -
  have "st_tasks (project_completion_in c input 0 t) = st_tasks t"
    by (rule ext) (auto simp: assms project_completion_in_simps option.map_comp o_def intro!: option.map_cong0)
  moreover have "st_operations (project_completion_in c input 0 t) = st_operations t"
    by (rule ext) (auto simp: assms project_completion_in_simps option.map_comp o_def intro!: option.map_cong0)
  moreover have "st_events (project_completion_in c input 0 t) = st_events t"
    unfolding project_completion_in_events [of c input 0 t] by (auto simp: assms project_completion_in_events)
  moreover have "st_completions (project_completion_in c input 0 t) = st_completions t"
    by (auto simp: project_completion_in_def Let_def update_operation_def update_task_def add_event_def split: option.split)
  ultimately show ?thesis by (simp add: project_completion_in_simps)
qed

text \<open>
  C34: A completion produces a search for every eligible indexer, and only once: the
  tasks, attempts and starts are there when it was projected, and when it is delivered
  again it changes nothing at all.
\<close>

theorem completion_searches_once:
  assumes "project_search_completion c policy input s = Inr t"
  shows "(\<forall>indexer \<in> set (all_eligible s). search_ready c (ci_source_id input) indexer policy ''completion'' t) \<and>
    project_search_completion c policy input t = Inr t"
proof -
  let ?accept = "accept_searches c (ci_source_id input) policy ''completion'' (Some (ci_operation_id input)) (ci_observed_at input)"
  obtain n s1 where s1: "?accept (all_eligible s) 0 s = Inr (n, s1)" and t: "t = map_tasks (project_completion_in c input n) s1"
    using assms by (auto simp: project_search_completion_def and_then_Inr)
  note a = accept_searches_Inr [OF s1]
  have "work_kept s1 t" using project_completion_in_kept by (simp add: t work_kept_def)
  then have cov: "\<forall>indexer \<in> set (all_eligible s). search_ready c (ci_source_id input) indexer policy ''completion'' t"
    using a search_ready_kept by blast
  have same: "all_eligible t = all_eligible s" "release_json_of (ci_source_id input) t = release_json_of (ci_source_id input) s"
    using a by (simp_all add: t same_sources_def all_eligible_def release_json_of_def cong: option.case_cong)
  have "?accept (all_eligible t) 0 t = Inr (0, t)"
    by (rule accept_searches_again) (use cov same accept_searches_release [OF s1] in auto)
  moreover have "map_tasks (project_completion_in c input 0) t = t"
    using project_completion_in_again [of "se_tasks t" c input n "se_tasks s1"] by (simp add: t map_tasks_def se_tasks_def)
  ultimately show ?thesis using cov by (simp add: project_search_completion_def)
qed

section \<open>What becomes of the results\<close>

definition intake_kept :: "candidate_store \<Rightarrow> candidate_store \<Rightarrow> bool" where
  "intake_kept s t \<longleftrightarrow> cs_blobs s \<subseteq>\<^sub>m cs_blobs t \<and> cs_candidates s \<subseteq>\<^sub>m cs_candidates t"

lemma intake_kept_refl: "intake_kept s s"
  by (simp add: intake_kept_def)

lemma intake_kept_trans: "intake_kept s t \<Longrightarrow> intake_kept t u \<Longrightarrow> intake_kept s u"
  by (auto simp: intake_kept_def intro: map_le_trans)

definition candidate_stored :: "search_codec \<Rightarrow> string \<Rightarrow> candidate_store \<Rightarrow> bool" where
  "candidate_stored c bytes s \<longleftrightarrow> cs_blobs s (sha256_of c bytes) = Some bytes \<and> cs_candidates s (first_16 (sha256_of c bytes)) \<noteq> None"

lemma candidate_stored_kept: "candidate_stored c bytes s \<Longrightarrow> intake_kept s t \<Longrightarrow> candidate_stored c bytes t"
  unfolding candidate_stored_def intake_kept_def map_le_def by (metis domIff option.distinct(1))

lemma accept_candidate_stored:
  assumes "accept_candidate (xc_candidate c) unicode policy submission s = Inr (candidate, t)"
  shows "accepted_candidate.ac_candidate_id candidate = first_16 (sha256_of c (su_bytes submission))"
    "candidate_stored c (su_bytes submission) t" "intake_kept s t"
proof -
  let ?id = "first_16 (sha256_of c (su_bytes submission))"
  obtain row task inserted where st: "store_candidate (xc_candidate c) submission ?id row task s = Inr (inserted, t)"
    and hash: "cr_blob_sha256 row = sha256_of c (su_bytes submission)"
    and c: "accepted_candidate.ac_candidate_id candidate = ?id"
    using assms unfolding accept_candidate_Inr Let_def by (auto simp: sha256_of_def candidate_row_of_def Let_def)
  obtain s2 where b: "cs_blobs t (cr_blob_sha256 row) = Some (su_bytes submission)"
    and i: "insert_candidate (kc_codec (xc_candidate c)) ?id row (insert_blob (cr_blob_sha256 row) (su_bytes submission) s) = Inr s2"
    and v: "verify_candidate ?id row t = Inr ()" and t: "cs_candidates t = cs_candidates s2" "cs_blobs t = cs_blobs s2"
    by (rule store_candidate_Inr [OF st])
  show "accepted_candidate.ac_candidate_id candidate = ?id" by (rule c)
  show "candidate_stored c (su_bytes submission) t"
    using b v by (auto simp: candidate_stored_def hash verify_candidate_def split: option.splits)
  show "intake_kept s t"
    using i by (auto simp: intake_kept_def t insert_candidate_def insert_blob_def map_le_def split: if_splits)
qed

definition result_settled :: "search_env \<Rightarrow> search_input \<Rightarrow> search_source \<Rightarrow> torznab_result \<Rightarrow> result_summary \<Rightarrow> candidate_store \<Rightarrow> bool" where
  "result_settled env input source result row intake \<longleftrightarrow>
     (if plausibility (sx_unicode env) (ss_release source) (ss_total_size source) result \<noteq> Inr () then rs_state row = ''filtered''
      else case sx_download env (xi_indexer_id input) (tr_download_url result) of
             Inl e \<Rightarrow> \<not> retryable_prowlarr e \<and>
               rs_state row = (if e = PwUnsafeDownloadUrl \<or> e = PwRedirectRejected then ''unsafe_download'' else ''download_failed'')
           | Inr bytes \<Rightarrow> rs_state row = ''invalid_torrent'' \<or>
               rs_state row = ''candidate_accepted'' \<and> rs_candidate_id row = Some (first_16 (sha256_of (sx_codec env) bytes)) \<and>
               candidate_stored (sx_codec env) bytes intake)"

lemma result_settled_kept: "result_settled env input source result row s \<Longrightarrow> intake_kept s t \<Longrightarrow> result_settled env input source result row t"
  by (auto simp: result_settled_def candidate_stored_kept split: if_splits sum.splits)

lemma summarize_Inr:
  assumes "summarize env input ordinal result state candidate s = (Inr x, t)" and "ordinal \<le> i64_max"
  shows "\<exists>row. se_summaries t (xi_attempt_id input, ordinal) = Some row \<and> rs_state row = state \<and>
      (candidate \<noteq> None \<longrightarrow> rs_candidate_id row = candidate)"
    "k \<noteq> (xi_attempt_id input, ordinal) \<Longrightarrow> se_summaries t k = se_summaries s k" "se_intake t = se_intake s"
proof -
  have o: "min i64_max ordinal = ordinal" using assms(2) by simp
  show "\<exists>row. se_summaries t (xi_attempt_id input, ordinal) = Some row \<and> rs_state row = state \<and>
      (candidate \<noteq> None \<longrightarrow> rs_candidate_id row = candidate)"
    "k \<noteq> (xi_attempt_id input, ordinal) \<Longrightarrow> se_summaries t k = se_summaries s k" "se_intake t = se_intake s"
    using assms(1) unfolding summarize_def writing_def statement_def o
    by (auto simp: Let_def summary_of_def split: if_splits option.split)
qed

definition result_done :: "search_env \<Rightarrow> search_input \<Rightarrow> search_source \<Rightarrow> nat \<Rightarrow> torznab_result \<Rightarrow> search_store \<Rightarrow> search_store \<Rightarrow> bool" where
  "result_done env input source ordinal result s t \<longleftrightarrow> intake_kept (se_intake s) (se_intake t) \<and>
     (\<forall>k. k \<noteq> (xi_attempt_id input, ordinal) \<longrightarrow> se_summaries t k = se_summaries s k) \<and>
     (\<exists>row. se_summaries t (xi_attempt_id input, ordinal) = Some row \<and> result_settled env input source result row (se_intake t))"

lemma note_done:
  assumes "search_then (summarize env input ordinal result state None) (\<lambda>_. search_return (GoOn False)) s1 = (Inr st, t)"
    and "ordinal \<le> i64_max" and "\<And>row. rs_state row = state \<Longrightarrow> result_settled env input source result row (se_intake s1)"
    and "intake_kept (se_intake s) (se_intake s1)" and "\<And>k. k \<noteq> (xi_attempt_id input, ordinal) \<Longrightarrow> se_summaries s1 k = se_summaries s k"
  shows "result_done env input source ordinal result s t"
proof -
  have "summarize env input ordinal result state None s1 = (Inr (), t)" using assms(1) by (auto simp: search_then_Inr search_return_def)
  note sm = summarize_Inr [OF this assms(2)]
  show ?thesis using sm assms(3-5) unfolding result_done_def by (metis (no_types))
qed

lemma submit_done:
  assumes "submit_result env input source ordinal result bytes s1 = (Inr st, t)" and "ordinal \<le> i64_max"
    and "plausibility (sx_unicode env) (ss_release source) (ss_total_size source) result = Inr ()"
    and "sx_download env (xi_indexer_id input) (tr_download_url result) = Inr bytes"
    and "se_intake s1 = se_intake s" and "\<And>k. k \<noteq> (xi_attempt_id input, ordinal) \<Longrightarrow> se_summaries s1 k = se_summaries s k"
  shows "result_done env input source ordinal result s t"
proof -
  obtain policy where run: "(case accept_candidate (xc_candidate (sx_codec env)) (sx_unicode env) policy
      (submission_of env input source ordinal result bytes) (se_intake s1) of
       Inr (candidate, intake) \<Rightarrow>
         search_then (summarize env input ordinal result ''candidate_accepted'' (Some (accepted_candidate.ac_candidate_id candidate))) (\<lambda>_.
           search_return (GoOn True)) (s1\<lparr>se_intake := intake\<rparr>)
     | Inl e \<Rightarrow>
         if candidate_rejected e
         then search_then (summarize env input ordinal result ''invalid_torrent'' None) (\<lambda>_. search_return (GoOn False)) s1
         else (Inl (SxCandidate e), s1)) = (Inr st, t)"
  proof -
    have "reads_only (load_policy env (LoadCandidatePolicy ordinal) (xi_policy_snapshot_id input))"
      unfolding load_policy_def by (rule reads_only_reading)
    then have state: "u = s1" if "load_policy env (LoadCandidatePolicy ordinal) (xi_policy_snapshot_id input) s1 = (r, u)" for r u
      using that by (metis reads_only_def snd_conv)
    show thesis using assms(1) that state unfolding submit_result_def search_then_Inr by (auto split: if_splits)
  qed
  show ?thesis
  proof (cases "accept_candidate (xc_candidate (sx_codec env)) (sx_unicode env) policy
      (submission_of env input source ordinal result bytes) (se_intake s1)")
    case (Inl e)
    then have "search_then (summarize env input ordinal result ''invalid_torrent'' None) (\<lambda>_. search_return (GoOn False)) s1 = (Inr st, t)"
      using run by (auto split: if_splits)
    then show ?thesis by (rule note_done) (use assms in \<open>auto simp: result_settled_def intake_kept_refl\<close>)
  next
    case (Inr r)
    then obtain candidate intake where a: "accept_candidate (xc_candidate (sx_codec env)) (sx_unicode env) policy
      (submission_of env input source ordinal result bytes) (se_intake s1) = Inr (candidate, intake)" by (cases r) simp
    have bytes: "su_bytes (submission_of env input source ordinal result bytes) = bytes" by (simp add: submission_of_def)
    note st = accept_candidate_stored [OF a, unfolded bytes]
    have "summarize env input ordinal result ''candidate_accepted'' (Some (accepted_candidate.ac_candidate_id candidate))
        (s1\<lparr>se_intake := intake\<rparr>) = (Inr (), t)"
      using run unfolding a by (auto simp: search_then_Inr search_return_def)
    note sm = summarize_Inr [OF this assms(2)]
    obtain row where row: "se_summaries t (xi_attempt_id input, ordinal) = Some row" "rs_state row = ''candidate_accepted''"
      "rs_candidate_id row = Some (first_16 (sha256_of (sx_codec env) bytes))" using sm(1) st(1) by auto
    have "result_settled env input source result row (se_intake t)"
      using row st(2) sm(3) assms(3,4) by (simp add: result_settled_def)
    then show ?thesis using row(1) sm(2,3) st(3) assms(5,6) by (simp add: result_done_def)
  qed
qed

lemma search_result_done:
  assumes "search_result env input source ordinal result s = (Inr (GoOn b), t)" and "ordinal \<le> i64_max"
  shows "result_done env input source ordinal result s t"
proof -
  define eligible where "eligible = (plausibility (sx_unicode env) (ss_release source) (ss_total_size source) result = Inr ())"
  obtain s1 where s1: "summarize env input ordinal result (if eligible then ''eligible'' else ''filtered'') None s = (Inr (), s1)"
    and rest: "(if \<not> eligible then search_return (GoOn False)
       else case sx_download env (xi_indexer_id input) (tr_download_url result) of
              Inr bytes \<Rightarrow> submit_result env input source ordinal result bytes
            | Inl (PwRateLimited after) \<Rightarrow>
                search_then (dependency_error env input (PwRateLimited after)) (\<lambda>outcome. search_return (ReturnWith outcome))
            | Inl e \<Rightarrow>
                if e = PwUnsafeDownloadUrl \<or> e = PwRedirectRejected
                then search_then (summarize env input ordinal result ''unsafe_download'' None) (\<lambda>_. search_return (GoOn False))
                else if retryable_prowlarr e
                then search_then (dependency_error env input e) (\<lambda>outcome. search_return (ReturnWith outcome))
                else search_then (summarize env input ordinal result ''download_failed'' None) (\<lambda>_. search_return (GoOn False))) s1
      = (Inr (GoOn b), t)"
    using assms(1) unfolding search_result_def Let_def eligible_def [symmetric] search_then_Inr by auto
  note sm = summarize_Inr [OF s1 assms(2)]
  have frame: "k \<noteq> (xi_attempt_id input, ordinal) \<Longrightarrow> se_summaries s1 k = se_summaries s k" for k by (rule sm(2))
  show ?thesis
  proof (cases eligible)
    case False
    then have "t = s1" using rest by (simp add: search_return_def)
    then show ?thesis using sm False by (auto simp: result_done_def result_settled_def eligible_def intake_kept_refl)
  next
    case True
    have never: "search_then (dependency_error env input e) (\<lambda>outcome. search_return (ReturnWith outcome)) s1 \<noteq> (Inr (GoOn b), t)" for e
      by (auto simp: search_then_Inr search_return_def)
    show ?thesis
    proof (cases "sx_download env (xi_indexer_id input) (tr_download_url result)")
      case (Inr bytes)
      have "submit_result env input source ordinal result bytes s1 = (Inr (GoOn b), t)" using rest True Inr by simp
      then show ?thesis by (rule submit_done) (use assms(2) True Inr sm(3) frame in \<open>auto simp: eligible_def\<close>)
    next
      case (Inl e)
      have "\<not> retryable_prowlarr e \<and> search_then (summarize env input ordinal result
          (if e = PwUnsafeDownloadUrl \<or> e = PwRedirectRejected then ''unsafe_download'' else ''download_failed'') None)
          (\<lambda>_. search_return (GoOn False)) s1 = (Inr (GoOn b), t)"
        using rest True Inl never by (cases e) (auto simp: retryable_prowlarr_def split: if_splits)
      then show ?thesis
        by (elim conjE, intro note_done [where ?s1.0 = s1])
          (use assms(2) True Inl sm(3) frame in \<open>auto simp: result_settled_def eligible_def intake_kept_refl\<close>)
    qed
  qed
qed

lemma search_results_done:
  assumes "search_results env input source ordinal results downloaded s = (Inr (Inl n), t)" and "ordinal + length results \<le> i64_max"
  shows "intake_kept (se_intake s) (se_intake t) \<and>
    (\<forall>k. (\<forall>i < length results. k \<noteq> (xi_attempt_id input, ordinal + i)) \<longrightarrow> se_summaries t k = se_summaries s k) \<and>
    (\<forall>i < length results. \<exists>row. se_summaries t (xi_attempt_id input, ordinal + i) = Some row \<and>
       result_settled env input source (results ! i) row (se_intake t))"
  using assms
proof (induction results arbitrary: ordinal downloaded s)
  case Nil
  then show ?case by (simp add: intake_kept_refl)
next
  case (Cons result results)
  obtain st s1 where r: "search_result env input source ordinal result s = (Inr st, s1)"
    and rest: "(case st of ReturnWith outcome \<Rightarrow> search_return (Inr outcome)
       | GoOn stored \<Rightarrow> search_results env input source (ordinal + 1) results (if stored then downloaded + 1 else downloaded)) s1
      = (Inr (Inl n), t)"
    using Cons.prems(1) unfolding search_results.simps(2) search_then_Inr by blast
  obtain b where b: "st = GoOn b" using rest by (cases st) (auto simp: search_return_def)
  have "search_results env input source (ordinal + 1) results (if b then downloaded + 1 else downloaded) s1 = (Inr (Inl n), t)"
    using rest b by simp
  note IH = Cons.IH [OF this]
  have bound: "ordinal + 1 + length results \<le> i64_max" "ordinal \<le> i64_max" using Cons.prems(2) by simp_all
  have d: "result_done env input source ordinal result s s1" by (rule search_result_done [OF r [unfolded b] bound(2)])
  obtain row where row: "se_summaries s1 (xi_attempt_id input, ordinal) = Some row"
    "result_settled env input source result row (se_intake s1)" using d by (auto simp: result_done_def)
  have keep: "intake_kept (se_intake s1) (se_intake t)" using IH [OF bound(1)] by blast
  have "se_summaries t (xi_attempt_id input, ordinal) = se_summaries s1 (xi_attempt_id input, ordinal)"
    using IH [OF bound(1)] by simp
  then have "se_summaries t (xi_attempt_id input, ordinal) = Some row" using row(1) by simp
  moreover have "result_settled env input source result row (se_intake t)" by (rule result_settled_kept [OF row(2) keep])
  ultimately have "\<exists>row. se_summaries t (xi_attempt_id input, ordinal + i) = Some row \<and>
       result_settled env input source ((result # results) ! i) row (se_intake t)" if "i < length (result # results)" for i
    using that IH [OF bound(1)] by (cases i) auto
  moreover have "se_summaries t k = se_summaries s k" if k: "\<forall>i < length (result # results). k \<noteq> (xi_attempt_id input, ordinal + i)" for k
  proof -
    have "k \<noteq> (xi_attempt_id input, ordinal)" using k [rule_format, of 0] by simp
    moreover have "\<forall>i < length results. k \<noteq> (xi_attempt_id input, ordinal + 1 + i)"
    proof (intro allI impI)
      fix i assume "i < length results"
      then show "k \<noteq> (xi_attempt_id input, ordinal + 1 + i)" using k [rule_format, of "Suc i"] by simp
    qed
    ultimately show ?thesis using d IH [OF bound(1)] unfolding result_done_def by metis
  qed
  moreover have "intake_kept (se_intake s) (se_intake t)" using d keep by (auto simp: result_done_def intro: intake_kept_trans)
  ultimately show ?case by blast
qed


lemma dependency_not_complete: "dependency_error env input e s \<noteq> (Inr SearchComplete, t)"
  by (auto simp: dependency_error_def search_then_Inr search_return_def search_fail_def Let_def split: if_splits option.splits)

lemma update_task_done: "st_tasks (update_task k f s) k = Some row \<Longrightarrow> \<exists>old. row = f old"
  by (auto simp: update_task_def split: option.splits)

lemma finish_search_Inr:
  assumes "finish_search env input reason failed seen downloaded s = (Inr (), t)"
  shows "intake_kept (se_intake s) (se_intake t)" "se_summaries t = se_summaries s"
    "\<forall>a \<in> set (se_attempts t). sa_id a = xi_attempt_id input \<longrightarrow>
       sa_state a = (if failed then ''failed'' else ''completed'') \<and> seen \<le> sa_results_seen a"
    "\<forall>row. st_tasks (se_tasks t) (xi_task_id input) = Some row \<longrightarrow>
       tk_state row = (if failed then ''failed'' else ''completed'') \<and> tk_terminal_at row = Some (sx_now env)"
proof -
  let ?f = "\<lambda>a. a\<lparr>sa_state := (if failed then ''failed'' else ''completed''), sa_results_seen := max (sa_results_seen a) seen,
         sa_results_downloaded := max (sa_results_downloaded a) downloaded, sa_next_eligible_at := None,
         sa_reason_code := Some reason, sa_completed_at := Some (sx_now env)\<rparr>"
  have t: "t = map_tasks (search_finish (xi_task_id input) reason failed (sx_now env)) (update_attempt (xi_attempt_id input) ?f s)"
    using assms by (auto simp: finish_search_def search_then_Inr writing_def statement_def split: if_splits)
  show "intake_kept (se_intake s) (se_intake t)" "se_summaries t = se_summaries s"
    by (simp_all add: t map_tasks_def update_attempt_def intake_kept_def)
  show "\<forall>a \<in> set (se_attempts t). sa_id a = xi_attempt_id input \<longrightarrow>
       sa_state a = (if failed then ''failed'' else ''completed'') \<and> seen \<le> sa_results_seen a"
    using all_updated [of "\<lambda>a. sa_id a = xi_attempt_id input" "\<lambda>a. sa_state a = (if failed then ''failed'' else ''completed'') \<and>
      seen \<le> sa_results_seen a" ?f "se_attempts s"]
    by (simp add: t update_attempt_def del: set_map)
  show "\<forall>row. st_tasks (se_tasks t) (xi_task_id input) = Some row \<longrightarrow>
       tk_state row = (if failed then ''failed'' else ''completed'') \<and> tk_terminal_at row = Some (sx_now env)"
    by (auto simp: t search_finish_def dest!: update_task_done)
qed

lemma search_result_never_complete: "search_result env input source ordinal result s \<noteq> (Inr (ReturnWith SearchComplete), t)"
proof -
  have dep: "search_then (dependency_error env input e) (\<lambda>outcome. search_return (ReturnWith outcome)) s1 \<noteq> (Inr (ReturnWith SearchComplete), t)"
    for e s1 by (auto simp: search_then_Inr search_return_def dependency_not_complete)
  have note_state: "search_then (summarize env input ordinal result state None) (\<lambda>_. search_return (GoOn False)) s1 \<noteq> (Inr (ReturnWith SearchComplete), t)"
    for state s1 by (auto simp: search_then_Inr search_return_def)
  have submit: "submit_result env input source ordinal result bytes s1 \<noteq> (Inr (ReturnWith SearchComplete), t)" for bytes s1
    by (auto simp: submit_result_def search_then_Inr search_return_def split: sum.splits prod.splits if_splits)
  have "(case d of
              Inr bytes \<Rightarrow> submit_result env input source ordinal result bytes
            | Inl (PwRateLimited after) \<Rightarrow>
                search_then (dependency_error env input (PwRateLimited after)) (\<lambda>outcome. search_return (ReturnWith outcome))
            | Inl e \<Rightarrow>
                if e = PwUnsafeDownloadUrl \<or> e = PwRedirectRejected
                then search_then (summarize env input ordinal result ''unsafe_download'' None) (\<lambda>_. search_return (GoOn False))
                else if retryable_prowlarr e
                then search_then (dependency_error env input e) (\<lambda>outcome. search_return (ReturnWith outcome))
                else search_then (summarize env input ordinal result ''download_failed'' None) (\<lambda>_. search_return (GoOn False))) s1
      \<noteq> (Inr (ReturnWith SearchComplete), t)" for d s1
  proof (cases d)
    case (Inl e)
    then show ?thesis using dep note_state by (cases e) simp_all
  qed (simp add: submit)
  then show ?thesis unfolding search_result_def Let_def search_then_Inr by (auto simp: search_return_def split: if_splits)
qed

lemma search_results_never_complete: "search_results env input source ordinal results downloaded s \<noteq> (Inr (Inr SearchComplete), t)"
proof (induction results arbitrary: ordinal downloaded s)
  case (Cons result results)
  show ?case unfolding search_results.simps(2) search_then_Inr
    using Cons.IH search_result_never_complete
    by (auto simp: search_return_def split: result_step.splits)
qed simp

lemma search_then_results_complete:
  assumes "search_then (search_results env input source 0 results 0) (\<lambda>r.
             case r of
               Inr outcome \<Rightarrow> search_return outcome
             | Inl downloaded \<Rightarrow>
                 search_then (finish_search env input ''completed'' False (length results) downloaded) (\<lambda>_.
                   search_return SearchComplete)) s = (Inr SearchComplete, t)"
  shows "\<exists>n s1. search_results env input source 0 results 0 s = (Inr (Inl n), s1) \<and>
     finish_search env input ''completed'' False (length results) n s1 = (Inr (), t)"
proof -
  obtain r s1 where r: "search_results env input source 0 results 0 s = (Inr r, s1)"
    and rest: "(case r of Inr outcome \<Rightarrow> search_return outcome
             | Inl downloaded \<Rightarrow>
                 search_then (finish_search env input ''completed'' False (length results) downloaded) (\<lambda>_.
                   search_return SearchComplete)) s1 = (Inr SearchComplete, t)"
    using assms unfolding search_then_Inr by blast
  show ?thesis
  proof (cases r)
    case (Inl n)
    then show ?thesis using r rest by (auto simp: search_then_Inr search_return_def)
  next
    case (Inr outcome)
    then have "outcome = SearchComplete" using rest by (simp add: search_return_def)
    then show ?thesis using r Inr search_results_never_complete by blast
  qed
qed

lemma search_indexer_complete:
  assumes "search_indexer env input source parameters s = (Inr SearchComplete, t)"
  shows "\<exists>s1 results. sx_search env (xi_indexer_id input) parameters = Inr results \<and>
     search_then (search_results env input source 0 results 0) (\<lambda>r.
             case r of
               Inr outcome \<Rightarrow> search_return outcome
             | Inl downloaded \<Rightarrow>
                 search_then (finish_search env input ''completed'' False (length results) downloaded) (\<lambda>_.
                   search_return SearchComplete)) s1 = (Inr SearchComplete, t)"
proof (cases "sx_search env (xi_indexer_id input) parameters")
  case (Inl e)
  then show ?thesis using assms dependency_not_complete by (auto simp: search_indexer_def search_then_Inr [of "mark_search env input"])
next
  case (Inr results)
  then show ?thesis using assms by (auto simp: search_indexer_def search_then_Inr [of "mark_search env input"])
qed

lemma execute_complete:
  assumes "execute_search env input s = (Inr SearchComplete, t)"
  shows "\<exists>source parameters s1. load_source env input (enrich env (xi_source_id input) s) =
        (Inr (Some source), enrich env (xi_source_id input) s) \<and>
     search_indexer env input source parameters s1 = (Inr SearchComplete, t)"
proof -
  let ?s = "enrich env (xi_source_id input) s"
  obtain source where l: "load_source env input ?s = (Inr (Some source), ?s)"
    and rest: "search_then (indexer_query env (xi_indexer_id input) (ss_release source)) (\<lambda>parameters.
           case parameters of
             None \<Rightarrow> search_then (finish_search env input ''indexer_ineligible'' True 0 0) (\<lambda>_.
               search_return (SearchFailed ''indexer_ineligible''))
           | Some parameters \<Rightarrow>
               search_then (claim_indexer env (xi_indexer_id input)) (\<lambda>claimed.
               case claimed of
                 Some next \<Rightarrow> search_then (wait_search env input next ''indexer_rate_limit'') (\<lambda>_.
                   search_return (SearchWaiting next (delay_ms_of next (sx_now env))))
               | None \<Rightarrow> search_indexer env input source parameters)) ?s = (Inr SearchComplete, t)"
  proof -
    obtain r u where ru: "load_source env input ?s = (Inr r, u)"
      "(case r of None \<Rightarrow> search_then (finish_search env input ''source_unavailable'' True 0 0) (\<lambda>_.
           search_return (SearchFailed ''source_unavailable''))
       | Some source \<Rightarrow> search_then (indexer_query env (xi_indexer_id input) (ss_release source)) (\<lambda>parameters.
           case parameters of
             None \<Rightarrow> search_then (finish_search env input ''indexer_ineligible'' True 0 0) (\<lambda>_.
               search_return (SearchFailed ''indexer_ineligible''))
           | Some parameters \<Rightarrow>
               search_then (claim_indexer env (xi_indexer_id input)) (\<lambda>claimed.
               case claimed of
                 Some next \<Rightarrow> search_then (wait_search env input next ''indexer_rate_limit'') (\<lambda>_.
                   search_return (SearchWaiting next (delay_ms_of next (sx_now env))))
               | None \<Rightarrow> search_indexer env input source parameters))) u = (Inr SearchComplete, t)"
      using assms unfolding execute_search_def search_then_Inr [of "load_source env input"] by blast
    have "u = ?s" using ru(1) load_source_reads [of env input] by (metis reads_only_def snd_conv)
    then show thesis using ru that by (cases r) (auto simp: search_then_Inr search_return_def)
  qed
  have "\<exists>parameters s1. search_indexer env input source parameters s1 = (Inr SearchComplete, t)"
    using rest by (auto simp: search_then_Inr search_return_def split: option.splits)
  then show ?thesis using l by blast
qed

text \<open>
  C20: A search that reports completion has accounted for every result of Prowlarr.
  The source was there and its filters allowed it; each result has a summary with its final state: filtered when it is implausible, refused
  when its download was unsafe or failed for good, invalid when it is no acceptable
  torrent, and otherwise accepted, in which case the bytes and the candidate are in
  the store under the id in the summary.  The attempt and the task are completed.
\<close>

theorem completed_search_accounts_for_results:
  assumes "execute_search env input s = (Inr SearchComplete, t)"
    and "\<forall>parameters results. sx_search env (xi_indexer_id input) parameters = Inr results \<longrightarrow> length results \<le> i64_max"
  shows "\<exists>source parameters results. load_source env input (enrich env (xi_source_id input) s) =
        (Inr (Some source), enrich env (xi_source_id input) s) \<and>
      sx_search env (xi_indexer_id input) parameters = Inr results \<and>
      (\<forall>i < length results. \<exists>row. se_summaries t (xi_attempt_id input, i) = Some row \<and>
         result_settled env input source (results ! i) row (se_intake t)) \<and>
      (\<forall>a \<in> set (se_attempts t). sa_id a = xi_attempt_id input \<longrightarrow>
         sa_state a = ''completed'' \<and> length results \<le> sa_results_seen a) \<and>
      (\<forall>row. st_tasks (se_tasks t) (xi_task_id input) = Some row \<longrightarrow>
         tk_state row = ''completed'' \<and> tk_terminal_at row = Some (sx_now env))"
proof -
  let ?s = "enrich env (xi_source_id input) s"
  obtain source parameters s1 where l: "load_source env input ?s = (Inr (Some source), ?s)"
    and run: "search_indexer env input source parameters s1 = (Inr SearchComplete, t)"
    using execute_complete [OF assms(1)] by blast
  obtain s2 results where search: "sx_search env (xi_indexer_id input) parameters = Inr results"
    and rest: "search_then (search_results env input source 0 results 0) (\<lambda>r.
             case r of
               Inr outcome \<Rightarrow> search_return outcome
             | Inl downloaded \<Rightarrow>
                 search_then (finish_search env input ''completed'' False (length results) downloaded) (\<lambda>_.
                   search_return SearchComplete)) s2 = (Inr SearchComplete, t)"
    using search_indexer_complete [OF run] by blast
  obtain n s3 where r: "search_results env input source 0 results 0 s2 = (Inr (Inl n), s3)"
    and f: "finish_search env input ''completed'' False (length results) n s3 = (Inr (), t)"
    using search_then_results_complete [OF rest] by blast
  have bound: "0 + length results \<le> i64_max" using assms(2) search by simp
  note d = search_results_done [OF r bound]
  note g = finish_search_Inr [OF f]
  have "\<forall>i < length results. \<exists>row. se_summaries t (xi_attempt_id input, i) = Some row \<and>
      result_settled env input source (results ! i) row (se_intake t)"
    using d g(1,2) result_settled_kept unfolding add_0 by metis
  then show ?thesis using l search g(3,4) unfolding if_False by blast
qed

section \<open>Waiting for Prowlarr\<close>

definition backoff_of :: "nat \<Rightarrow> nat \<Rightarrow> bool" where
  "backoff_of attempt ms \<longleftrightarrow> (\<exists>nanos. ms = nanos div 1000000 \<and>
     nanos \<le> schedule SEARCH_RETRY_BASE SEARCH_RETRY_MAX attempt \<and>
     schedule SEARCH_RETRY_BASE SEARCH_RETRY_MAX attempt * 80 \<le> nanos * 100)"

lemma search_backoff:
  "\<exists>d. deterministic SEARCH_RETRY_BASE SEARCH_RETRY_MAX attempt key = Some d \<and> backoff_of attempt (d div 1000000)"
proof -
  have "SEARCH_RETRY_MAX \<le> DURATION_MAX" by (simp add: SEARCH_RETRY_MAX_def DURATION_MAX_def)
  from deterministic_bounds [OF this, of SEARCH_RETRY_BASE attempt key] show ?thesis
    unfolding backoff_of_def by blast
qed

lemma backoff_of_max: "backoff_of attempt ms \<Longrightarrow> ms \<le> 300000"
proof -
  assume "backoff_of attempt ms"
  then obtain nanos where "ms = nanos div 1000000" "nanos \<le> SEARCH_RETRY_MAX" by (auto simp: backoff_of_def schedule_def)
  moreover from this(2) have "nanos div 1000000 \<le> SEARCH_RETRY_MAX div 1000000" by (rule div_le_mono)
  ultimately show ?thesis by (simp add: SEARCH_RETRY_MAX_def)
qed

text \<open>How long Prowlarr asked to wait, in milliseconds; a value beyond 64 bits counts as none.\<close>

definition requested_ms :: "prowlarr_error \<Rightarrow> nat" where
  "requested_ms e = (case e of PwRateLimited (Some seconds) \<Rightarrow> if seconds * 1000 \<le> i64_max then seconds * 1000 else 0 | _ \<Rightarrow> 0)"

lemma retry_delay_exact:
  "retry_delay_ms e calculated = Some delay \<longleftrightarrow> retryable_prowlarr e \<and> e \<noteq> PwDatabase \<and> delay = max calculated (requested_ms e)"
  by (auto simp: retry_delay_ms_def retryable_prowlarr_def requested_ms_def max.commute split: prowlarr_error.splits option.splits)

lemma waiting_time:
  assumes "0 \<le> now" and "now < 2 ^ 62" and "until = sat_i64 (now + max (int delay) MIN_REQUEST_GAP_MS)"
  shows "int (delay_ms_of until now) = until - now" "until = min (2 ^ 63 - 1) (now + int (max 1000 delay))"
proof -
  show u: "until = min (2 ^ 63 - 1) (now + int (max 1000 delay))"
    using assms by (auto simp: sat_i64_def MIN_REQUEST_GAP_MS_def max_def)
  then have "now \<le> until" "until < 2 ^ 63" using assms(2) by auto
  then show "int (delay_ms_of until now) = until - now"
    using assms(1) by (auto simp: delay_ms_of_def sat_i64_def Let_def)
qed

lemma wait_search_limits: "wait_search env input until reason s = (Inr u, t) \<Longrightarrow> se_limits t = se_limits s"
  by (auto simp: wait_search_def search_then_Inr writing_def statement_def update_attempt_def split: if_splits)

lemma dependency_error_cases:
  obtains (refused) failure where "dependency_error env input e s = (Inl failure, s)" "failure \<noteq> SxPanic"
  | (permanent) "\<not> retryable_prowlarr e \<or> e = PwDatabase" "dependency_error env input e s =
      search_then (finish_search env input ''invalid_search_response'' True 0 0) (\<lambda>_.
        search_return (SearchFailed (xc_error_text (sx_codec env) e))) s"
  | (waits) attempt calculated delay where "find (\<lambda>a. sa_id a = xi_attempt_id input) (se_attempts s) = Some attempt"
      "sa_dependency_attempts attempt \<le> u32_max" "backoff_of (min u32_max (sa_dependency_attempts attempt + 1)) calculated"
      "retry_delay_ms e calculated = Some delay"
      "dependency_error env input e s =
        search_then (writing env RaiseLimit (raise_limit (xi_indexer_id input)
          (sat_i64 (sx_now env + max (int delay) MIN_REQUEST_GAP_MS)) (sx_now env))) (\<lambda>_.
        search_then (wait_search env input (sat_i64 (sx_now env + max (int delay) MIN_REQUEST_GAP_MS)) ''dependency_unavailable'') (\<lambda>_.
          search_return (SearchWaiting (sat_i64 (sx_now env + max (int delay) MIN_REQUEST_GAP_MS))
            (delay_ms_of (sat_i64 (sx_now env + max (int delay) MIN_REQUEST_GAP_MS)) (sx_now env))))) s"
proof -
  let ?read = "reading env ReadAttempts (\<lambda>s. ok_or SxDatabase
         (map_option sa_dependency_attempts (find (\<lambda>a. sa_id a = xi_attempt_id input) (se_attempts s))))"
  obtain r where rd: "?read s = (r, s)" using reads_only_reading [of env ReadAttempts] by (metis prod.collapse reads_only_def)
  show thesis
  proof (cases r)
    case (Inl failure)
    then have "failure \<noteq> SxPanic"
      using rd by (auto simp: reading_def statement_def ok_or_def split: if_splits option.splits)
    then show thesis using Inl by (intro refused) (simp_all add: dependency_error_def search_then_def rd)
  next
    case (Inr attempts)
    obtain d where d: "deterministic SEARCH_RETRY_BASE SEARCH_RETRY_MAX (saturating_add u32_max attempts 1)
        [xi_attempt_id input, rev (i64_bytes (xi_indexer_id input))] = Some d"
        "backoff_of (saturating_add u32_max attempts 1) (d div 1000000)" using search_backoff by blast
    have small: "\<not> d div 1000000 > i64_max" using backoff_of_max [OF d(2)] by simp
    obtain attempt where row: "find (\<lambda>a. sa_id a = xi_attempt_id input) (se_attempts s) = Some attempt"
        "attempts = sa_dependency_attempts attempt"
      using rd Inr by (auto simp: reading_def statement_def ok_or_def split: if_splits option.splits)
    note unfolded = dependency_error_def search_then_def [of ?read] rd Inr Let_def
    show thesis
    proof (cases "attempts > u32_max")
      case True
      then show thesis by (intro refused [of StoredRange]) (simp_all add: unfolded search_fail_def)
    next
      case False
      show thesis
      proof (cases "retry_delay_ms e (d div 1000000)")
        case None
        then have "\<not> retryable_prowlarr e \<or> e = PwDatabase"
          by (auto simp: retry_delay_ms_def retryable_prowlarr_def split: prowlarr_error.splits option.splits if_splits)
        then show thesis using None False small d(1) by (intro permanent) (simp_all add: unfolded)
      next
        case (Some delay)
        then show thesis using False small d row by (intro waits [OF row(1)]) (simp_all add: unfolded saturating_add_def)
      qed
    qed
  qed
qed

text \<open>
  C27: After an error of Prowlarr a search never panics.  When it waits, it waits until
  the time it returns, which is now plus the largest of a second, the backoff of this
  attempt (exponential up to five minutes, less at most a fifth) and the time that
  Prowlarr asked for, capped at the largest 64-bit time; the limit of the indexer is
  raised to that time and never lowered, and no other limit changes.  It waits only
  for transport errors, rate limits and the retryable statuses, and fails for good
  only for the other errors; a database error of the client counts as retryable
  (\<open>retryable_prowlarr\<close>) but ends the search here.  (The clock is below 2^62 ms.)
\<close>

theorem dependency_delay_bounds:
  assumes "0 \<le> sx_now env" and "sx_now env < 2 ^ 62"
  shows "case dependency_error env input e s of
     (Inl failure, t) \<Rightarrow> failure \<noteq> SxPanic
   | (Inr SearchComplete, t) \<Rightarrow> False
   | (Inr (SearchFailed reason), t) \<Rightarrow> \<not> retryable_prowlarr e \<or> e = PwDatabase
   | (Inr (SearchWaiting until delay), t) \<Rightarrow> retryable_prowlarr e \<and> e \<noteq> PwDatabase \<and>
       int delay = until - sx_now env \<and>
       (\<exists>attempt backoff. find (\<lambda>a. sa_id a = xi_attempt_id input) (se_attempts s) = Some attempt \<and>
          backoff_of (min u32_max (sa_dependency_attempts attempt + 1)) backoff \<and> backoff \<le> 300000 \<and>
          until = min (2 ^ 63 - 1) (sx_now env + int (max 1000 (max backoff (requested_ms e))))) \<and>
       se_limits t = (se_limits s)(xi_indexer_id input \<mapsto>
         \<lparr>rl_next_eligible_at = (case se_limits s (xi_indexer_id input) of None \<Rightarrow> until | Some row \<Rightarrow> max (rl_next_eligible_at row) until),
          rl_updated_at = sx_now env\<rparr>)"
proof (cases rule: dependency_error_cases [of env input e s])
  case refused
  then show ?thesis by simp
next
  case permanent
  have "finish_search env input reason failed a b u \<noteq> (Inl SxPanic, v)" for reason failed a b u v
    by (auto simp: finish_search_def search_then_def writing_def statement_def split: if_splits)
  then show ?thesis using permanent by (auto simp: search_then_def search_return_def split: prod.split sum.split)
next
  case (waits attempt calculated delay)
  define until where "until = sat_i64 (sx_now env + max (int delay) MIN_REQUEST_GAP_MS)"
  note wait_ms = waiting_time [OF assms until_def]
  have e: "retryable_prowlarr e" "e \<noteq> PwDatabase" "delay = max calculated (requested_ms e)"
    using waits(4) by (simp_all add: retry_delay_exact)
  have limit: "se_limits (raise_limit (xi_indexer_id input) until (sx_now env) s) = (se_limits s)(xi_indexer_id input \<mapsto>
         \<lparr>rl_next_eligible_at = (case se_limits s (xi_indexer_id input) of None \<Rightarrow> until | Some row \<Rightarrow> max (rl_next_eligible_at row) until),
          rl_updated_at = sx_now env\<rparr>)"
    by (auto simp: raise_limit_def split: option.split)
  have wait: "wait_search env input until reason v \<noteq> (Inl SxPanic, w)" for reason v w
    by (auto simp: wait_search_def search_then_def writing_def statement_def split: if_splits)
  have until: "\<exists>attempt backoff. find (\<lambda>a. sa_id a = xi_attempt_id input) (se_attempts s) = Some attempt \<and>
      backoff_of (min u32_max (sa_dependency_attempts attempt + 1)) backoff \<and> backoff \<le> 300000 \<and>
      until = min (2 ^ 63 - 1) (sx_now env + int (max 1000 (max backoff (requested_ms e))))"
    using waits(1,3) backoff_of_max wait_ms(2) e(3) by blast
  show ?thesis using wait_ms(1) e(1,2) until limit wait waits(5) [folded until_def]
    by (auto simp: search_then_def writing_def statement_def search_return_def split: prod.split sum.split
        dest!: wait_search_limits)
qed

section \<open>Examples\<close>

definition sample_search_codec :: search_codec where
  "sample_search_codec = \<lparr> xc_candidate = sample_candidate_codec, xc_policy = (\<lambda>_. ''policy''), xc_read_policy = (\<lambda>_. Some sample_ingress),
     xc_input = (\<lambda>input. xi_attempt_id input), xc_backfill_input = (\<lambda>_. ''{}''), xc_request = (\<lambda>_ _ _. ''{}''),
     xc_release = (\<lambda>_. Some (unknown (NormalizedTitle ''a''))), xc_tags = (\<lambda>_. Some []), xc_capabilities = (\<lambda>_. Some (\<lambda>_. [''q''])),
     xc_completion_detail = (\<lambda>_ _ _. ''{}''), xc_error_text = (\<lambda>_. ''error'') \<rparr>"

definition sample_search_env :: "(search_statement \<Rightarrow> bool) \<Rightarrow> int \<Rightarrow> search_env" where
  "sample_search_env fault now = \<lparr> sx_fault = fault, sx_codec = sample_search_codec, sx_unicode = ascii_unicode,
     sx_enrichment = (\<lambda>_. None),
     sx_search = (\<lambda>_ _. Inr [\<lparr>tr_title = ''a'', tr_guid = None, tr_download_url = ''/d'', tr_size = Some 0\<rparr>]),
     sx_download = (\<lambda>_ _. Inl PwRequest), sx_now = now, sx_clock = now \<rparr>"

definition sample_search_store :: search_store where
  "sample_search_store = \<lparr> se_intake = empty_candidates\<lparr>cs_tasks := empty_store\<lparr>st_policies := [''policy'' \<mapsto>
       \<lparr>ps_id = ''policy'', ps_config_hash = ''policy'', ps_matcher_version = MATCHER_VERSION, ps_payload_json = ''policy'',
        ps_created_at = 1\<rparr>]\<rparr>\<rparr>,
     se_torrents = [sample_torrent_row\<lparr>qt_id := ''0123456789abcdef'', qt_is_complete := True\<rparr>], se_data = [],
     se_indexers = [\<lparr>ix_id = 7, ix_name = ''indexer'', ix_priority = 1, ix_capabilities_json = ''{}'', ix_eligible = True\<rparr>],
     se_limits = Map.empty, se_attempts = [], se_summaries = Map.empty, se_task_operations = Map.empty, se_cursors = Map.empty \<rparr>"

definition sample_search_input :: search_input where
  "sample_search_input = \<lparr> xi_task_id = ''t'', xi_attempt_id = ''a'', xi_source_id = ''0123456789abcdef'', xi_indexer_id = 7,
     xi_policy_snapshot_id = ''policy'', xi_trigger = ''completion'' \<rparr>"

definition sample_backfill :: backfill_input where
  "sample_backfill = \<lparr> bi_operation_id = ''o'', bi_task_id = ''t'', bi_policy_snapshot_id = ''policy'',
     bi_selection = \<lparr>bs_hashes = [], bs_include_categories = [], bs_exclude_categories = [], bs_include_tags = [], bs_exclude_tags = []\<rparr>,
     bi_indexer_ids = [], bi_cursor = None \<rparr>"

definition sample_completion_input :: completion_input where
  "sample_completion_input = \<lparr> ci_operation_id = ''o'', ci_task_id = ''t'', ci_source_id = ''0123456789abcdef'',
     ci_completed_at = 3, ci_observed_at = 4 \<rparr>"

lemma accept_task_in_fresh:
  assumes "\<And>x. cd_json_valid codec x" and "verify_policy (nt_policy task) s = Inr ()" and "st_tasks s (nt_id task) = None"
    and "st_events s (nt_id task, 0) = None" and "st_outbox s = []"
  shows "\<exists>t. accept_task_in codec task s = Inr (True, t)"
proof -
  have p: "insert_policy codec (nt_policy task) s = Inr s"
    using assms(1,2) by (auto simp: insert_policy_def verify_policy_def split: option.splits)
  show ?thesis
    using assms(3-5) unfolding accept_task_in_def p and_then_simps assms(2)
    by (simp add: insert_task_def verify_task_def Let_def queued_event_def add_event_def start_once_def insert_outbox_def
        verify_outbox_def row_of_def queued_row_def start_of_def outbox_start_def next_outbox_id_def set_task_def assms(1))
qed

lemma sample_accept_in:
  "\<exists>t. accept_in sample_search_codec ''0123456789abcdef'' 7 sample_ingress trigger operation now sample_search_store = Inr (True, t)"
proof -
  let ?task = "search_task sample_search_codec ''0123456789abcdef'' 7 sample_ingress trigger now"
  have codec: "kc_codec (xc_candidate sample_search_codec) = kc_codec sample_candidate_codec" by (simp add: sample_search_codec_def)
  have "verify_policy (nt_policy ?task) (se_tasks sample_search_store) = Inr ()"
    by (simp add: verify_policy_def search_task_def policy_of_def Let_def se_tasks_def sample_search_store_def sample_search_codec_def
        sha256_of_def sample_candidate_codec_def first_16_def)
  then have "\<exists>tasks. accept_task_in (kc_codec sample_candidate_codec) ?task (se_tasks sample_search_store) = Inr (True, tasks)"
    by (intro accept_task_in_fresh)
      (simp_all add: sample_candidate_codec_def se_tasks_def sample_search_store_def empty_candidates_def empty_store_def)
  then obtain tasks where "accept_task_in (kc_codec sample_candidate_codec) ?task (se_tasks sample_search_store) = Inr (True, tasks)" by blast
  moreover have "release_json_of ''0123456789abcdef'' sample_search_store = Some ''{}''"
    by (simp add: release_json_of_def sample_search_store_def sample_torrent_row_def)
  moreover have "se_attempts sample_search_store = []" by (simp add: sample_search_store_def)
  ultimately show ?thesis
    by (simp add: accept_in_def codec Let_def map_err_def insert_attempt_def set_operation_def map_tasks_def)
qed

lemma sample_eligible: "all_eligible sample_search_store = [7]"
  by (simp add: all_eligible_def sample_search_store_def)

theorem completion_searches_once_witness:
  "\<exists>t. project_search_completion sample_search_codec sample_ingress sample_completion_input sample_search_store = Inr t \<and>
     search_ready sample_search_codec ''0123456789abcdef'' 7 sample_ingress ''completion'' t \<and>
     project_search_completion sample_search_codec sample_ingress sample_completion_input t = Inr t"
proof -
  obtain s where "accept_in sample_search_codec ''0123456789abcdef'' 7 sample_ingress ''completion'' (Some ''o'') 4 sample_search_store = Inr (True, s)"
    using sample_accept_in by blast
  then have "\<exists>t. project_search_completion sample_search_codec sample_ingress sample_completion_input sample_search_store = Inr t"
    by (simp add: project_search_completion_def sample_eligible sample_completion_input_def)
  then obtain t where t: "project_search_completion sample_search_codec sample_ingress sample_completion_input sample_search_store = Inr t" ..
  then show ?thesis using completion_searches_once [OF t] by (simp add: sample_eligible sample_completion_input_def)
qed

theorem backfill_covers_inventory_witness:
  "\<exists>page t. backfill_workflow 1 sample_search_codec sample_backfill (\<lambda>_. 5) sample_search_store = Some (Inr page, t) \<and>
     search_ready sample_search_codec ''0123456789abcdef'' 7 sample_ingress (''manual:'' @ encode_hex ''o'') t"
proof -
  let ?row = "sample_torrent_row\<lparr>qt_id := ''0123456789abcdef'', qt_is_complete := True\<rparr>"
  have torrents: "se_torrents sample_search_store = [?row]" by (simp add: sample_search_store_def)
  have rows: "page_rows None sample_search_store = [?row]"
    by (simp add: page_rows_def torrents sample_torrent_row_def BACKFILL_PAGE_SIZE_def)
  have selected: "backfill_selected sample_search_codec ?row (bi_selection sample_backfill) = Inr True"
    by (simp add: backfill_selected_def sample_search_codec_def sample_backfill_def)
  have eligible: "eligible_indexers (bi_indexer_ids sample_backfill) sample_search_store = [7]"
    by (simp add: eligible_indexers_def sample_backfill_def sample_eligible)
  have input: "bi_cursor sample_backfill = None" "bi_operation_id sample_backfill = ''o''" "bi_policy_snapshot_id sample_backfill = ''policy''"
    by (simp_all add: sample_backfill_def)
  obtain stored where policy: "st_policies (se_tasks sample_search_store) ''policy'' = Some stored"
    by (simp add: se_tasks_def sample_search_store_def)
  have read: "xc_read_policy sample_search_codec json = Some sample_ingress" for json by (simp add: sample_search_codec_def)
  obtain s where "accept_in sample_search_codec ''0123456789abcdef'' 7 sample_ingress (''manual:'' @ encode_hex ''o'') (Some ''o'') 5
      sample_search_store = Inr (True, s)" using sample_accept_in by blast
  then have "\<exists>page t. backfill_workflow 1 sample_search_codec sample_backfill (\<lambda>_. 5) sample_search_store = Some (Inr page, t)"
    by (simp add: produce_page_def input rows selected eligible policy read id16_from_vec_def ok_or_def BACKFILL_PAGE_SIZE_def Let_def)
  then obtain page t where t: "backfill_workflow 1 sample_search_codec sample_backfill (\<lambda>_. 5) sample_search_store = Some (Inr page, t)" by blast
  have "\<forall>row \<in> set (se_torrents sample_search_store). qt_available row \<and> qt_is_complete row \<and>
      backfill_selected sample_search_codec row (bi_selection sample_backfill) = Inr True \<longrightarrow>
    (\<forall>indexer \<in> set (eligible_indexers (bi_indexer_ids sample_backfill) sample_search_store).
       search_ready sample_search_codec (qt_id row) indexer sample_ingress (''manual:'' @ encode_hex ''o'') t)"
    using backfill_covers_inventory [of sample_search_store sample_backfill sample_search_codec "\<lambda>_. 5"] t
    by (simp add: torrents input read)
  then show ?thesis using t selected eligible by (simp add: torrents sample_torrent_row_def)
qed

lemma sample_load_source:
  assumes "se_torrents s = se_torrents sample_search_store" and "se_indexers s = se_indexers sample_search_store"
    and "se_intake s = se_intake sample_search_store" and "fault \<in> {(\<lambda>_. False), (\<lambda>x. x = MarkTask)}"
  shows "enrich (sample_search_env fault now) source s = s"
    "load_source (sample_search_env fault now) sample_search_input s =
      (Inr (Some \<lparr>ss_release = unknown (NormalizedTitle ''a''), ss_total_size = 4, ss_indexer_name = ''indexer''\<rparr>), s)"
    "\<exists>parameters. indexer_query (sample_search_env fault now) 7 (unknown (NormalizedTitle ''a'')) s = (Inr (Some parameters), s)"
proof -
  show "enrich (sample_search_env fault now) source s = s" by (simp add: enrich_def sample_search_env_def)
  have allowed: "source_allowed ''video'' [] (ci_source_filters sample_ingress)" by (simp add: source_allowed_def sample_ingress_def)
  have rows: "eligible_row 7 s = Some \<lparr>ix_id = 7, ix_name = ''indexer'', ix_priority = 1, ix_capabilities_json = ''{}'', ix_eligible = True\<rparr>"
    "find (\<lambda>row. qt_id row = ''0123456789abcdef'' \<and> qt_available row \<and> qt_is_complete row) (se_torrents s) =
      Some (sample_torrent_row\<lparr>qt_id := ''0123456789abcdef'', qt_is_complete := True\<rparr>)"
    using assms(1,2) by (simp_all add: eligible_row_def sample_search_store_def sample_torrent_row_def)
  have policy: "\<exists>row. st_policies (se_tasks s) ''policy'' = Some row" using assms(3) by (simp add: se_tasks_def sample_search_store_def)
  show "load_source (sample_search_env fault now) sample_search_input s =
      (Inr (Some \<lparr>ss_release = unknown (NormalizedTitle ''a''), ss_total_size = 4, ss_indexer_name = ''indexer''\<rparr>), s)"
    using assms(4) policy
    by (auto simp: load_source_def load_policy_def search_then_def reading_def statement_def sample_search_env_def sample_search_input_def
        rows allowed torrent_search_source_def sample_search_codec_def sample_torrent_row_def size_of_column_def)
  show "\<exists>parameters. indexer_query (sample_search_env fault now) 7 (unknown (NormalizedTitle ''a'')) s = (Inr (Some parameters), s)"
    using assms(4) by (auto simp: indexer_query_def sample_search_env_def rows sample_search_codec_def for_release_def query_kind_def
        unknown_def external_query_def Let_def)
qed

lemma sample_asks:
  assumes "se_torrents s = se_torrents sample_search_store" and "se_indexers s = se_indexers sample_search_store"
    and "se_intake s = se_intake sample_search_store" and "fault \<in> {(\<lambda>_. False), (\<lambda>x. x = MarkTask)}"
    and "\<And>row. se_limits s 7 = Some row \<Longrightarrow> rl_next_eligible_at row \<le> now"
  shows "asks (sample_search_env fault now) sample_search_input s"
proof -
  note l = sample_load_source [OF assms(1-4), where now = now]
  obtain parameters where q: "indexer_query (sample_search_env fault now) 7 (unknown (NormalizedTitle ''a'')) s = (Inr (Some parameters), s)"
    using l(3) by blast
  have "fst (claim_indexer (sample_search_env fault now) 7 s) = Inr None"
    using assms(4,5) by (auto simp: claim_indexer_def statement_def sample_search_env_def split: option.split)
  then show ?thesis using q by (simp add: asks_def Let_def l(1,2)) (simp add: sample_search_input_def)
qed

theorem indexer_claims_are_spaced_witness:
  "asks (sample_search_env (\<lambda>x. x = MarkTask) 1000) sample_search_input sample_search_store \<and>
   asks (sample_search_env (\<lambda>_. False) 3000) sample_search_input
     (snd (execute_search (sample_search_env (\<lambda>x. x = MarkTask) 1000) sample_search_input sample_search_store)) \<and> (1000 :: int) + 1000 \<le> 3000"
proof -
  let ?env = "sample_search_env (\<lambda>x. x = MarkTask) 1000" and ?env' = "sample_search_env (\<lambda>_. False) 3000"
  let ?t = "snd (execute_search ?env sample_search_input sample_search_store)"
  have first_asks: "asks ?env sample_search_input sample_search_store"
    by (rule sample_asks) (simp_all add: sample_search_store_def)
  have enriched: "enrich ?env (xi_source_id sample_search_input) sample_search_store = sample_search_store"
    by (simp add: enrich_def sample_search_env_def)
  obtain source parameters where "execute_search ?env sample_search_input sample_search_store =
      search_indexer ?env sample_search_input source parameters (snd (claim_indexer ?env 7 sample_search_store))"
    using execute_asks [OF first_asks] unfolding enriched by (auto simp: sample_search_input_def)
  then have "?t = snd (claim_indexer ?env 7 sample_search_store)"
    by (simp add: search_indexer_def search_then_def mark_search_def writing_def statement_def sample_search_env_def)
  then have t: "?t = sample_search_store\<lparr>se_limits := [7 \<mapsto> \<lparr>rl_next_eligible_at = 2000, rl_updated_at = 1000\<rparr>]\<rparr>"
    by (simp add: claim_indexer_def statement_def sample_search_env_def sample_search_store_def sat_i64_def MIN_REQUEST_GAP_MS_def)
  have again: "asks ?env' sample_search_input ?t" unfolding t by (rule sample_asks) (simp_all add: sample_search_store_def)
  have "sx_now ?env + 1000 \<le> sx_now ?env'"
    by (rule indexer_claims_are_spaced [OF first_asks rtranclp.rtrancl_refl again]) (simp_all add: sample_search_env_def)
  then show ?thesis using first_asks again by (simp add: sample_search_env_def)
qed

theorem completed_search_accounts_for_results_witness:
  "\<exists>t row. execute_search (sample_search_env (\<lambda>_. False) 5) sample_search_input sample_search_store = (Inr SearchComplete, t) \<and>
     se_summaries t (''a'', 0) = Some row \<and> rs_state row = ''filtered''"
proof -
  let ?env = "sample_search_env (\<lambda>_. False) 5"
  have run: "\<exists>t. execute_search ?env sample_search_input sample_search_store = (Inr SearchComplete, t)"
  proof -
    have "asks ?env sample_search_input sample_search_store" by (rule sample_asks) (simp_all add: sample_search_store_def)
    from execute_asks [OF this] obtain source parameters u where
      "execute_search ?env sample_search_input sample_search_store = search_indexer ?env sample_search_input source parameters u" by blast
    then show ?thesis
      by (simp add: search_indexer_def search_then_def mark_search_def writing_def statement_def sample_search_env_def search_result_def
          plausibility_def summarize_def search_return_def finish_search_def Let_def)
  qed
  then obtain t where t: "execute_search ?env sample_search_input sample_search_store = (Inr SearchComplete, t)" ..
  have env: "sx_search ?env = (\<lambda>_ _. Inr [\<lparr>tr_title = ''a'', tr_guid = None, tr_download_url = ''/d'', tr_size = Some 0\<rparr>])"
    by (simp add: sample_search_env_def)
  have "\<exists>row. se_summaries t (xi_attempt_id sample_search_input, 0) = Some row \<and> rs_state row = ''filtered''"
    using completed_search_accounts_for_results [OF t] by (auto simp: env result_settled_def plausibility_def)
  then show ?thesis using t by (auto simp: sample_search_input_def)
qed

theorem dependency_delay_bounds_witness:
  "\<exists>until delay t. dependency_error (sample_search_env (\<lambda>_. False) 5) sample_search_input (PwRateLimited (Some 600))
      (sample_search_store\<lparr>se_attempts := [(queued_attempt sample_search_codec ''s'' 7 sample_ingress ''completion'' 5 ''{}'')\<lparr>sa_id := ''a''\<rparr>]\<rparr>)
     = (Inr (SearchWaiting until delay), t) \<and> delay = 600000 \<and> se_limits t 7 = Some \<lparr>rl_next_eligible_at = 600005, rl_updated_at = 5\<rparr>"
proof -
  let ?env = "sample_search_env (\<lambda>_. False) 5" and ?e = "PwRateLimited (Some 600)"
  let ?s = "sample_search_store\<lparr>se_attempts := [(queued_attempt sample_search_codec ''s'' 7 sample_ingress ''completion'' 5 ''{}'')\<lparr>sa_id := ''a''\<rparr>]\<rparr>"
  have now: "0 \<le> sx_now ?env" "sx_now ?env < 2 ^ 62" by (simp_all add: sample_search_env_def)
  obtain d where d: "deterministic SEARCH_RETRY_BASE SEARCH_RETRY_MAX 1 [''a'', rev (i64_bytes 7)] = Some d" "d div 1000000 \<le> 300000"
    using search_backoff backoff_of_max by blast
  have "\<exists>until delay t. dependency_error ?env sample_search_input ?e ?s = (Inr (SearchWaiting until delay), t)"
    using d by (simp add: dependency_error_def search_then_def reading_def statement_def sample_search_env_def sample_search_input_def
        queued_attempt_def saturating_add_def Let_def retry_delay_ms_def writing_def wait_search_def search_return_def)
  then obtain until delay t where t: "dependency_error ?env sample_search_input ?e ?s = (Inr (SearchWaiting until delay), t)" by blast
  have req: "requested_ms ?e = 600000" by (simp add: requested_ms_def)
  note p = dependency_delay_bounds [OF now, where input = sample_search_input and e = ?e and s = ?s, unfolded t prod.case sum.case search_outcome.case req]
  then obtain backoff where "backoff \<le> 300000" "until = min (2 ^ 63 - 1) (sx_now ?env + int (max 1000 (max backoff 600000)))" by blast
  then have until: "until = 600005" by (simp add: sample_search_env_def max_def)
  have "int delay = until - sx_now ?env" using p by blast
  then have "delay = 600000" using until by (simp add: sample_search_env_def)
  moreover have "se_limits t 7 = Some \<lparr>rl_next_eligible_at = 600005, rl_updated_at = 5\<rparr>"
    using p until by (simp add: sample_search_input_def sample_search_store_def sample_search_env_def)
  ultimately show ?thesis using t by blast
qed

end
