(* ===== verification/Spec2Isabelle.thy ===== *)
theory Spec2Isabelle
  imports Injection_Safety Candidate_Replay Qbit_Manifest Search_Work
begin

text \<open>
  Sporos finds torrents whose files are already on disk.  A candidate torrent
  arrives by the HTTP interface, a Prowlarr search or a backfill; its files are
  compared with the torrents that qBittorrent seeds and with scanned directories;
  a match becomes an injection plan; the injection adds the torrent stopped, links
  the files, rechecks it and starts it only when every mapped piece was verified.
  All of this is driven by tasks in an SQLite database and by orchestrations of
  the duroxide engine, whose activities are delivered at least once.

  \<^bold>\<open>Theories and sources\<close> (files under \<open>src/crates\<close>)

  \<^item> \<open>Prelude\<close>: what the sources use of Rust's standard library (byte strings,
    checked and saturating arithmetic, results with early return).
  \<^item> \<open>Domain_Model\<close>: \<open>sporos-model\<close>.  Byte counts are natural numbers with the bounds
    of their Rust types written out; a ratio is the exact floor.
  \<^item> \<open>Release\<close>, \<open>File_Roles\<close>, \<open>Hungarian\<close>, \<open>Assignment\<close>, \<open>Matcher\<close>:
    \<open>sporos-matcher\<close>, that is \<open>release.rs\<close> and \<open>matcher.rs\<close>.  The parser of release
    names, the roles and scores of files, the assignment of minimum cost, the
    decomposition into components with the test for ambiguity, and the decision for
    a request.
  \<^item> \<open>Torrent\<close>: \<open>sporos-service/src/torrent.rs\<close> after the bencode decoder, and the
    manifest of a candidate.
  \<^item> \<open>Retry\<close>, \<open>Template\<close>, \<open>Paths\<close>: the backoff, the category and tag templates, and
    path rewriting between services.
  \<^item> \<open>Engine\<close>: the retry policy of \<open>engine.rs\<close>.  A step of a workflow delivers its
    activity up to five times while it fails with a transient error, and a delivery
    continues from what the failed ones have written.
  \<^item> \<open>Journal\<close>, \<open>Tasks\<close>, \<open>Outbox\<close>, \<open>Task_Machine\<close>: the durable tasks
    (\<open>durable_ingress.rs\<close>, \<open>task_projection.rs\<close>, \<open>task_control.rs\<close>, \<open>completion.rs\<close>,
    \<open>outbox.rs\<close> and the task statements of \<open>search.rs\<close> and \<open>data_scan.rs\<close>).
    \<open>Task_Machine\<close> is the step relation of all transactions in any order.
  \<^item> \<open>Candidate\<close>: \<open>candidate.rs\<close>, the intake of a torrent file.
  \<^item> \<open>Candidate_Sources\<close>, \<open>Candidate_Workflow\<close>, \<open>Candidate_Replay\<close>:
    \<open>candidate_workflow.rs\<close>, the selection of sources, the evaluation, waiting,
    planning, and the repetition of an evaluation.
  \<^item> \<open>Hardlink\<close>, \<open>Piece_Inspection\<close>, \<open>Injection\<close>, \<open>Injection_Safety\<close>: \<open>hardlink.rs\<close>
    and \<open>injection.rs\<close>, the four activities with every statement and command, and
    the orchestration with retries and interruptions as a step relation.
  \<^item> \<open>Inventory\<close>, \<open>Qbit_Projection\<close>, \<open>Qbit_Sync\<close>, \<open>Qbit_Manifest\<close>: \<open>inventory.rs\<close>,
    \<open>qbit_projection.rs\<close> with \<open>source_facts.rs\<close>, and \<open>qbit_sync.rs\<close>.  What the parser
    of a response emits before it ends or fails, the transactions that project it into
    the tables, the incremental update, the reconciliation over pages, and the
    publication of file lists.  \<open>inventory_view\<close> is what the evaluation of candidates
    sees of these tables.
  \<^item> \<open>Search\<close>, \<open>Search_Work\<close>: \<open>search.rs\<close> and the query of an indexer of
    \<open>prowlarr.rs\<close>.  The search activity with the limits of the indexers, the searches
    that a completion produces, and the backfill over the inventory.

  \<^bold>\<open>Correspondence\<close>

  Structs are records, enums are datatypes, and definitions keep the names of the
  functions.  A fallible function returns \<open>error + value\<close>; a function that could
  panic or not return also has an outer option, and the theorems show that it is
  \<open>Some\<close>.  A table is a map from its primary key, or a list where the order of the
  rows matters; a transaction is a function that returns the new store only when it
  commits.  Statements of one activity that run outside a transaction can fail one
  by one (\<open>en_fault\<close>, \<open>sy_fault\<close>, \<open>sx_fault\<close>), and a retry continues from the tables as they are.  A
  projection reads one snapshot and updates another, as two concurrent workers do.
  A loop of a workflow (\<open>observe_loop\<close>, \<open>candidate_loop\<close>) takes the list of the
  deliveries of its activities and is \<open>None\<close> when the list is used up before it ends;
  a delivery that dies with its worker is not counted as one of them.  The time of a
  search (\<open>sx_now\<close>) is the clock that the activity reads when it begins, before it
  waits for its permit, the enrichment and the permit of the client.

  \<^bold>\<open>Parameters\<close>

  What is not in the repository is an argument: the Unicode tables (\<open>unicode\<close>),
  SHA-256 and serde_json (\<open>codec\<close>, \<open>candidate_codec\<close>, \<open>workflow_codec\<close>,
  \<open>inventory_codec\<close>, \<open>search_codec\<close>), the system calls (\<open>fs_ops\<close>), the answers of
  qBittorrent and Prowlarr (\<open>env\<close>, \<open>sync_env\<close>, \<open>search_env\<close>), the duroxide client
  (\<open>start_client\<close>), the bencode decoder, and the clock.  Theorems that rely on one of them state what they
  rely on as hypotheses, such as the injectivity of an encoding, and their
  witnesses instantiate it.

  \<^bold>\<open>What the theorems show\<close>

  \<^item> Matching: a request within the integer widths is always answered; a match maps
    real files to files of the same size, none of them twice; the assignment is the unique
    optimum or is reported as ambiguous; the answer does not depend on the order of
    the sources.  The Hungarian loops end within the fuel columns + 1.
  \<^item> Parsing: accepted torrents have safe, prefix-free paths and an ordered layout;
    accepted manifests and release descriptors are well formed.
  \<^item> Tasks: in every reachable store the events of a task are numbered without a gap
    up to its generation, later steps only append, ended tasks stay as they ended,
    projections are compare-and-swap, and the dispatcher settles what it leases.
  \<^item> Candidates: a resubmission is a duplicate; the admission of the sources agrees
    with the budget of the matcher in both directions; a stored plan names real files
    of equal size; a waiting candidate is found by the completion of its sources and
    ends, with retries and early wakes, before more timers have fired than there are
    full five minutes until its deadline and one more; an evaluation that has ended
    can be repeated, and only the time stamp of the candidate changes.
  \<^item> Injection: a recheck is requested only when all links are stored, a torrent is
    started only after a safe inspection, all bytes of the mapped files then lie in
    verified pieces, and the observation loop ends, with up to five deliveries of each
    observation, after at most 62 observations that wait and 63 more for each delivery
    in which qBittorrent reports checking (the final verification gives up after 30
    attempts; 315 deliveries for each of these rounds are enough).
  \<^item> Inventory: a batch of changes starts exactly the completions of known torrents
    that became complete and can be projected again with new time stamps only; the cursor of an
    update moves last; a reconciliation ends (with fuel for one page of each batch up
    to the first offset behind which no page is full, and two more) and leaves exactly
    the listed torrents available, except for those that an interrupted full update
    had stamped with the same generation; a file list becomes visible as a whole under
    the next version, or not at all.
  \<^item> Searches: the granted claims of one indexer are at least a second apart by the
    times that the activities read (not the HTTP requests, which are sent later); a
    completed search has accounted for every result; the wait after an error is
    exactly the largest of a second, the backoff and what Prowlarr asked for; a
    completion delivered again changes nothing; a backfill, of an inventory that does
    not change between its pages, ends after one page for each hundred torrents and
    one more, and covers every selected torrent and eligible indexer.
  \<^item> Errors that the code has: an interrupted completion is lost unless qBittorrent
    checks the torrent again, a task that was
    retried by the operator refuses its resubmission, and a torrent that an
    interrupted reconciliation saw survives the next one although it was removed.

  \<^bold>\<open>Interfaces\<close>

  \<open>assignment_solver\<close> is what the decomposition needs of the Hungarian algorithm,
  \<open>edge_scorer\<close> what it needs of the scores (interpreted for both kinds of scores),
  \<open>journal\<close> what the task history needs of the steps of the store,
  \<open>bookkeeping\<close> what an invariant of the injection needs to survive the statements
  that only record progress, \<open>delivery_potential\<close> what the bound of a loop needs of the
  deliveries of its activity (interpreted for the observations of an injection and for
  the evaluations of a candidate), and \<open>search_relation\<close> what a relation between two stores
  needs to hold across a search that may stop at any statement (interpreted for the
  limits of the indexers and for the accepted work).

  \<^bold>\<open>Not modelled\<close>

  The HTTP interface, the clients of Prowlarr, Sonarr, Radarr and qBittorrent, the
  connection pools and the process wiring are input and output or glue over the
  modelled operations.  Configuration parsing is modelled only where an operation
  uses the parsed value.  Foreign keys, the timestamps that no decision reads, metrics
  and log messages are left out of the tables.  The vendored crates are third-party
  code.  The directory scan is left for later work, apart from its statements on
  tasks; so are the query that answers a search client from the inventory
  (\<open>preflight.rs\<close>), the enrichment of releases (\<open>arr.rs\<close>), of which the search sees
  only the new release, and the timers of \<open>app.rs\<close> that start a synchronisation.
\<close>

section \<open>From the torrent file to the started torrent\<close>

lemma pieces_ordered_layout:
  "ordered_layout stop ps \<Longrightarrow> pieces_ordered stop (map (\<lambda>f. \<lparr>tp_file_ordinal = pf_file_ordinal f, tp_offset = pf_offset f,
     tp_size = pf_length f\<rparr>) ps)"
  by (induction ps arbitrary: stop) simp_all

lemma candidate_manifest_pieces:
  assumes "candidate_manifest limits parsed = Inr manifest"
  shows "tm_piece_length manifest = Some (px_piece_length parsed)"
    and "tm_piece_files manifest = map (\<lambda>f. \<lparr>tp_file_ordinal = pf_file_ordinal f, tp_offset = pf_offset f,
      tp_size = pf_length f\<rparr>) (px_piece_files parsed)"
  using assms by (auto simp: candidate_manifest_def and_then_Inr split: if_splits)

text \<open>
  C3: When the observation of a recheck sends the command to start a torrent that the
  parser accepted, then qBittorrent reported the pieces of the torrent, and every
  byte of every file that the plan maps lies in a piece that it reported as
  verified.
\<close>

theorem started_torrent_bytes_verified:
  assumes "parse_metainfo m = Some (Inr parsed)" and "candidate_manifest limits parsed = Inr (ip_manifest plan)"
    and "px_piece_files parsed \<noteq> []" and "load_plan env w = Inr plan"
    and "map_option ir_state (w_injection w) \<noteq> Some ''finalizing''"
    and "observe env input w = (r, w')" and "w_sent w' = w_sent w @ [(StartTorrent hash, row)]"
  shows "\<exists>states well_formed. en_pieces env hash = Inr (states, well_formed) \<and>
    (\<forall>p \<in> set (px_piece_files parsed). \<forall>ordinal \<in> mapped_ordinals plan. pf_file_ordinal p = Some ordinal \<longrightarrow>
      (\<forall>b. pf_offset p \<le> b \<and> b < pf_offset p + pf_length p \<longrightarrow> states ! (b div px_piece_length parsed) = 2))"
proof (rule sent_observe [OF assms(6) _ assms(5)])
  show "w_sent w' \<noteq> w_sent w" using assms(7) by simp
next
  fix plan' hash' state
  assume l: "load_plan env w = Inr plan'" and "decided env plan' hash' state w w'"
  have "plan' = plan" using l assms(4) by simp
  with \<open>decided env plan' hash' state w w'\<close> have d: "decided env plan hash' state w w'" by simp
  note pieces = candidate_manifest_pieces [OF assms(2)]
  have ordered: "pieces_ordered 0 (tm_piece_files (ip_manifest plan))"
    using parse_metainfo_layout_ok [OF assms(1)] pieces_ordered_layout by (simp add: pieces(2) layout_ok_def)
  have nonempty: "tm_piece_files (ip_manifest plan) \<noteq> []" using assms(3) by (simp add: pieces(2))
  show ?thesis
  proof (rule decided_start [OF d assms(7)])
    fix states well_formed integrity
    assume s: "en_pieces env hash = Inr (states, well_formed)" "pi_integrity_safe integrity"
      "inspect_pieces (ip_manifest plan) (mapped_ordinals plan) states well_formed = Inr integrity"
    from inspect_pieces_safe [OF s(3) pieces(1) nonempty ordered] s(2)
    have "\<forall>p \<in> set (px_piece_files parsed). \<forall>ordinal \<in> mapped_ordinals plan. pf_file_ordinal p = Some ordinal \<longrightarrow>
        (\<forall>b. pf_offset p \<le> b \<and> b < pf_offset p + pf_length p \<longrightarrow> states ! (b div px_piece_length parsed) = 2)"
      by (auto simp: pieces(2) piece_mapped_def)
    then show ?thesis using s(1) by blast
  qed
qed


definition sample_metainfo :: metainfo where
  "sample_metainfo = \<lparr>mi_name = ''t'', mi_piece_length = 4,
     mi_v1 = Some \<lparr>mv1_files = Multi [\<lparr>ve_path = [''a''], ve_length = 5\<rparr>, \<lparr>ve_path = [''b''], ve_length = 3\<rparr>],
       mv1_pieces = replicate 40 CHR ''x''\<rparr>, mi_v2 = None,
     mi_info_hash = InfoHashV1 ''h'', mi_info_bytes = ''''\<rparr>"

definition sample_parsed :: parsed_torrent where
  "sample_parsed = \<lparr> px_version = V1, px_name = ''t'', px_info_bytes = '''', px_piece_length = 4, px_v1_hash = Some ''h'',
     px_v2_hash = None, px_v1_pieces = Some (replicate 40 CHR ''x''),
     px_files = [plain_file [''t'', ''a''] 5, plain_file [''t'', ''b''] 3],
     px_piece_files = [\<lparr>pf_file_ordinal = Some 0, pf_offset = 0, pf_length = 5\<rparr>,
       \<lparr>pf_file_ordinal = Some 1, pf_offset = 5, pf_length = 3\<rparr>] \<rparr>"

lemma sample_parse: "parse_metainfo sample_metainfo = Some (Inr sample_parsed)"
proof -
  have "validate_files [plain_file [''t'', ''a''] 5, plain_file [''t'', ''b''] 3] = Inr ()"
    by (simp add: validate_files_def validate_component_def checked_add_def ok_or_def plain_file_def MAX_FILES_def
        MAX_PATH_COMPONENTS_def MAX_COMPONENT_BYTES_def MAX_PATH_BYTES_def MAX_MANIFEST_PATH_BYTES_def insort_is_Cons)
  then have "v1_files ''t'' (Multi [\<lparr>ve_path = [''a''], ve_length = 5\<rparr>, \<lparr>ve_path = [''b''], ve_length = 3\<rparr>])
      = Inr \<lparr>fv_files = px_files sample_parsed, fv_piece_files = px_piece_files sample_parsed\<rparr>"
    by (simp add: v1_files_def raw_v1_def checked_add_def ok_or_def sample_parsed_def)
  then show ?thesis
    by (simp add: parse_metainfo_def sample_metainfo_def checked_v1_def checked_v2_def combine_views_def validate_component_def
        MAX_COMPONENT_BYTES_def total_length_def saturating_add_def div_ceil_def version_of_def hashes_of_def)
      (simp add: sample_parsed_def saturating_add_def div_ceil_def)
qed

definition sample_limits :: matching_limits where
  "sample_limits = \<lparr>ml_max_torrent_bytes = 1000, ml_max_files_per_torrent = 10, ml_max_path_bytes = 100\<rparr>"

lemma sample_candidate: "candidate_manifest sample_limits sample_parsed = Inr sample_manifest"
proof -
  have "utf8_valid ''t''" "utf8_valid ''a''" "utf8_valid ''b''" by code_simp+
  then show ?thesis by (simp add: candidate_manifest_def sample_limits_def sample_parsed_def plain_file_def sample_manifest_def)
qed

theorem started_torrent_bytes_verified_witness:
  "\<exists>w' row states well_formed.
     observe (sample_env (Some (sample_state ''stoppedUP''))) sample_input (sample_world (Some (sample_row ''checking''))) = (Inr waiting, w') \<and>
     w_sent w' = [(StartTorrent ''68'', row)] \<and>
     en_pieces (sample_env (Some (sample_state ''stoppedUP''))) ''68'' = Inr (states, well_formed) \<and> states ! 1 = 2"
proof -
  define env where "env = sample_env (Some (sample_state ''stoppedUP''))"
  define world where "world = sample_world (Some (sample_row ''checking''))"
  obtain w' row where o: "observe env sample_input world = (Inr waiting, w')" "w_sent w' = w_sent world @ [(StartTorrent ''68'', row)]"
    and empty: "w_sent world = []"
    using sample_observe unfolding world_def env_def by (auto simp: sample_world_def)
  have l: "load_plan env world = Inr (sample_plan (Some (sample_row ''checking'')))"
    unfolding env_def world_def by (rule sample_load)
  have c: "candidate_manifest sample_limits sample_parsed = Inr (ip_manifest (sample_plan (Some (sample_row ''checking''))))"
    using sample_candidate by (simp add: sample_plan_def)
  have p: "px_piece_files sample_parsed \<noteq> []" by (simp add: sample_parsed_def)
  have st: "map_option ir_state (w_injection world) \<noteq> Some ''finalizing''"
    by (simp add: world_def sample_world_def sample_row_def)
  obtain states well_formed where s: "en_pieces env ''68'' = Inr (states, well_formed)"
    and v: "\<forall>p \<in> set (px_piece_files sample_parsed). \<forall>ordinal \<in> mapped_ordinals (sample_plan (Some (sample_row ''checking''))).
      pf_file_ordinal p = Some ordinal \<longrightarrow> (\<forall>b. pf_offset p \<le> b \<and> b < pf_offset p + pf_length p \<longrightarrow>
        states ! (b div px_piece_length sample_parsed) = 2)"
    using started_torrent_bytes_verified [OF sample_parse c p l st o] by blast
  have "\<forall>b<5. states ! (b div 4) = 2"
    using v by (simp add: sample_parsed_def mapped_ordinals_def sample_plan_def sample_mapping_def)
  from spec [OF this, of 4] have "states ! 1 = 2" by simp
  then show ?thesis using o s empty unfolding world_def env_def by auto
qed

end
